(* ===== verification/Prelude.thy ===== *)
theory Prelude
  imports Main "HOL-Library.Word" "HOL-Library.Monad_Syntax" "HOL-Library.Sublist"
begin

text \<open>
  What the components share: the C integer types as words, memory regions as byte lists
  with checked reads and writes (\<open>None\<close> is an access outside the object), NUL-terminated
  strings, and generic lemmas on lists and words. Nothing here models code of its own.
\<close>

unbundle bit_operations_syntax

section \<open>Types and collections\<close>

type_synonym u8 = "8 word"
type_synonym u16 = "16 word"
type_synonym u32 = "32 word"
type_synonym bytes = "u8 list"

named_theorems mem_simps \<open>evaluation of checked memory accesses\<close>
named_theorems cstr_simps \<open>facts about NUL-terminated strings\<close>

section \<open>Checked memory\<close>

definition rd :: "'a list \<Rightarrow> nat \<Rightarrow> 'a option" where
  "rd m i = (if i < length m then Some (m ! i) else None)"

definition wr :: "'a list \<Rightarrow> nat \<Rightarrow> 'a \<Rightarrow> 'a list option" where
  "wr m i v = (if i < length m then Some (m[i := v]) else None)"

definition wr_block :: "'a list \<Rightarrow> nat \<Rightarrow> 'a list \<Rightarrow> 'a list option" where
  "wr_block m i d =
     (if i + length d \<le> length m then Some (take i m @ d @ drop (i + length d) m) else None)"

definition rd_block :: "'a list \<Rightarrow> nat \<Rightarrow> nat \<Rightarrow> 'a list option" where
  "rd_block m i n = (if i + n \<le> length m then Some (take n (drop i m)) else None)"

lemma rd_block_in [mem_simps]: "i + n \<le> length m \<Longrightarrow> rd_block m i n = Some (take n (drop i m))"
  by (simp add: rd_block_def)

lemma rd_in [mem_simps]: "i < length m \<Longrightarrow> rd m i = Some (m ! i)"
  by (simp add: rd_def)

lemma rd_eq_Some: "rd m i = Some v \<longleftrightarrow> i < length m \<and> m ! i = v"
  by (auto simp: rd_def)

lemma wr_in [mem_simps]: "i < length m \<Longrightarrow> wr m i v = Some (m[i := v])"
  by (simp add: wr_def)

lemma wr_eq_Some: "wr m i v = Some m' \<longleftrightarrow> i < length m \<and> m' = m[i := v]"
  by (auto simp: wr_def)

lemma wr_block_eq_Some:
  "wr_block m i d = Some m' \<longleftrightarrow>
     i + length d \<le> length m \<and> m' = take i m @ d @ drop (i + length d) m"
  by (auto simp: wr_block_def)

lemma wr_block_in [mem_simps]:
  "i + length d \<le> length m \<Longrightarrow> wr_block m i d = Some (take i m @ d @ drop (i + length d) m)"
  by (simp add: wr_block_def)

lemma wr_block_Nil [simp]: "i \<le> length m \<Longrightarrow> wr_block m i [] = Some m"
  by (simp add: wr_block_def)

section \<open>NUL-terminated strings\<close>

text \<open>
  A buffer holds the string \<open>s\<close> when it starts with the bytes of \<open>s\<close>, none of them NUL,
  and a NUL after them. \<open>cstr\<close> reads the string, \<open>strlen\<close> its length; a region without a
  NUL makes the C function run out of the object.
\<close>

definition cstr :: "bytes \<Rightarrow> bytes" where
  "cstr m = takeWhile (\<lambda>c. c \<noteq> 0) m"

definition has_nul :: "bytes \<Rightarrow> bool" where
  "has_nul m \<longleftrightarrow> 0 \<in> set m"

definition c_strlen :: "bytes \<Rightarrow> nat option" where
  "c_strlen m = (if has_nul m then Some (length (cstr m)) else None)"

lemma cstr_append_nul [cstr_simps, simp]: "0 \<notin> set s \<Longrightarrow> cstr (s @ 0 # r) = s"
  by (induction s) (auto simp: cstr_def)

lemma has_nul_append_nul [cstr_simps, simp]: "has_nul (s @ 0 # r)"
  by (simp add: has_nul_def)

lemma has_nul_split: "has_nul m \<Longrightarrow> \<exists>r. m = cstr m @ 0 # r \<and> 0 \<notin> set (cstr m)"
proof (induction m)
  case Nil
  then show ?case by (simp add: has_nul_def)
next
  case (Cons c m)
  then show ?case by (cases "c = 0") (auto simp: has_nul_def cstr_def)
qed

lemma c_strlen_append_nul [cstr_simps, simp]:
  "0 \<notin> set s \<Longrightarrow> c_strlen (s @ 0 # r) = Some (length s)"
  by (simp add: c_strlen_def)

lemma cstr_no_nul [simp]: "0 \<notin> set (cstr m)"
  by (auto simp: cstr_def dest: set_takeWhileD)

section \<open>Lists\<close>

lemma takeWhile_append_stop:
  "\<forall>x \<in> set xs. P x \<Longrightarrow> \<not> P y \<Longrightarrow> takeWhile P (xs @ y # ys) = xs"
  by (induction xs) auto

lemma dropWhile_append_stop:
  "\<forall>x \<in> set xs. P x \<Longrightarrow> \<not> P y \<Longrightarrow> dropWhile P (xs @ y # ys) = y # ys"
  by (induction xs) auto

lemma take_Suc_snoc: "n < length xs \<Longrightarrow> take (Suc n) xs = take n xs @ [xs ! n]"
  by (rule take_Suc_conv_app_nth)

lemma nth_last_append: "(xs @ [x]) ! length xs = x"
  by simp

lemma funpow_8: "(f ^^ 8) x = f (f (f (f (f (f (f (f x)))))))"
  by (simp add: eval_nat_numeral)

text \<open>The elements at even and at odd positions.\<close>

fun evens :: "'a list \<Rightarrow> 'a list" where
  "evens [] = []"
| "evens [x] = [x]"
| "evens (x # y # zs) = x # evens zs"

fun odds :: "'a list \<Rightarrow> 'a list" where
  "odds [] = []"
| "odds [x] = []"
| "odds (x # y # zs) = y # odds zs"

lemma evens_nth: "2 * i < length xs \<Longrightarrow> evens xs ! i = xs ! (2 * i)"
proof (induction xs arbitrary: i rule: evens.induct)
  case (3 x y zs)
  then show ?case by (cases i) auto
qed auto

lemma odds_nth: "2 * i + 1 < length xs \<Longrightarrow> odds xs ! i = xs ! (2 * i + 1)"
proof (induction xs arbitrary: i rule: odds.induct)
  case (3 x y zs)
  then show ?case by (cases i) auto
qed auto

lemma length_evens [simp]: "length (evens xs) = Suc (length xs) div 2"
  by (induction xs rule: evens.induct) auto

lemma length_odds [simp]: "length (odds xs) = length xs div 2"
  by (induction xs rule: odds.induct) auto

lemma drop_step: "drop i src = b # bs \<Longrightarrow> rd src i = Some b \<and> drop (Suc i) src = bs"
  by (metis drop_Suc list.sel(3) nth_via_drop rd_in drop_all linorder_not_less list.distinct(1) tl_drop)

section \<open>Words\<close>

lemma ucast_byte_inj:
  assumes "8 \<le> LENGTH('a)"
  shows "(ucast b :: 'a::len word) = ucast c \<longleftrightarrow> b = (c :: u8)"
proof
  assume eq: "(ucast b :: 'a word) = ucast c"
  show "b = c"
  proof (rule bit_word_eqI)
    fix n assume "n < LENGTH(8)"
    then have "bit (ucast x :: 'a word) n = bit x n" for x :: u8
      using assms by (simp add: bit_ucast_iff)
    then show "bit b n = bit c n" using eq by metis
  qed
qed simp

lemma unat_lt_256 [simp]: "unat (b :: u8) < 256"
  using unsigned_less [of b, where ?'a = nat] by simp

lemma unat_take_bit_8 [simp]: "unat (take_bit 8 (x :: 'a::len word)) < 256"
proof -
  have "unat (take_bit 8 x) = take_bit 8 (unat x)" by (rule unsigned_take_bit_eq)
  then show ?thesis using take_bit_nat_less_exp [of 8 "unat x"] by simp
qed

lemma drop_bit_of_nat_word:
  assumes "n < 2 ^ LENGTH('a)"
  shows "drop_bit 1 (of_nat n :: 'a::len word) = of_nat (n div 2)"
proof (rule word_unat_eq_iff [THEN iffD2])
  have "n div 2 < 2 ^ LENGTH('a)" using assms by simp
  then show "unat (drop_bit 1 (of_nat n :: 'a word)) = unat (of_nat (n div 2) :: 'a word)"
    using assms unfolding unat_drop_bit_eq unat_of_nat
    by (simp add: drop_bit_eq_div take_bit_nat_eq_self)
qed

lemma and_0xff: "x AND 0xff = take_bit 8 (x :: 'a::len word)"
  by (simp add: take_bit_eq_mask mask_eq_exp_minus_1)

text \<open>A 16-bit value is put together again from its two bytes.\<close>

lemma word16_bytes:
  "(ucast (ucast (take_bit 8 x) :: u8) :: u16) OR
    push_bit 8 (ucast (ucast (take_bit 8 (drop_bit 8 x)) :: u8)) = (x :: u16)"
proof (rule bit_word_eqI)
  fix n assume "n < LENGTH(16)"
  then show "bit ((ucast (ucast (take_bit 8 x) :: u8) :: u16) OR
      push_bit 8 (ucast (ucast (take_bit 8 (drop_bit 8 x)) :: u8))) n = bit x n"
    by (cases "n < 8")
      (auto simp: bit_or_iff bit_ucast_iff bit_push_bit_iff bit_take_bit_iff bit_drop_bit_eq)
qed

lemma xor_eq_0_iff [simp]: "a XOR b = 0 \<longleftrightarrow> a = (b :: 'a::len word)"
  by (metis xor.left_neutral xor.right_neutral xor_self_eq bit.xor_left_self)

lemma xor_left_inj [simp]: "a XOR b = a XOR c \<longleftrightarrow> b = (c :: 'a::len word)"
  by (metis bit.xor_left_self)

lemma xor_right_inj [simp]: "b XOR a = c XOR a \<longleftrightarrow> b = (c :: 'a::len word)"
  by (simp add: xor.commute [of _ a])

section \<open>The first index of an element with a property\<close>

primrec first_index :: "('a \<Rightarrow> bool) \<Rightarrow> 'a list \<Rightarrow> nat option" where
  "first_index P [] = None"
| "first_index P (x # xs) = (if P x then Some 0 else map_option Suc (first_index P xs))"

lemma first_index_Some: "first_index P xs = Some i \<Longrightarrow> i < length xs \<and> P (xs ! i)"
  by (induction xs arbitrary: i) (auto split: if_splits)

lemma first_index_map: "first_index P (map f xs) = first_index (P \<circ> f) xs"
  by (induction xs) auto

lemma first_index_drop_step:
  "i < length xs \<Longrightarrow> first_index P (drop i xs) =
     (if P (xs ! i) then Some 0 else map_option Suc (first_index P (drop (Suc i) xs)))"
  by (simp flip: Cons_nth_drop_Suc)

lemma first_index_min: "first_index P xs = Some i \<Longrightarrow> k < i \<Longrightarrow> \<not> P (xs ! k)"
proof (induction xs arbitrary: i k)
  case (Cons x xs)
  then show ?case by (cases k) (auto split: if_splits)
qed simp

lemma first_index_None: "first_index P xs = None \<longleftrightarrow> (\<forall>x \<in> set xs. \<not> P x)"
  by (induction xs) auto

lemma first_index_append:
  "first_index P xs = None \<Longrightarrow>
     first_index P (xs @ [x]) = (if P x then Some (length xs) else None)"
  by (induction xs) (auto split: if_splits)

end
