(* ===== verification/Decimal.thy ===== *)
theory Decimal
  imports Prelude
begin

text \<open>
  Decimal numbers: \<open>strtoul\<close> and \<open>atoi\<close> of the C library in base 10, the value of a string of
  digits and the digits of a number. A value \<open>atoi\<close> cannot represent is undefined behaviour,
  here \<open>None\<close>.
\<close>

section \<open>The C library\<close>

text \<open>
  strtoul of the C library in base 10, with a 32-bit \<open>unsigned long\<close>: the value and the
  text behind the number. A value that does not fit is the largest one.
\<close>

definition is_space :: "u8 \<Rightarrow> bool" where
  "is_space c \<longleftrightarrow> c = 0x20 \<or> 0x09 \<le> c \<and> c \<le> 0x0d"

definition is_digit :: "u8 \<Rightarrow> bool" where
  "is_digit c \<longleftrightarrow> 0x30 \<le> c \<and> c \<le> 0x39"

definition digits_val :: "bytes \<Rightarrow> nat" where
  "digits_val ds = foldl (\<lambda>n d. 10 * n + (unat d - 48)) 0 ds"

definition skip_sign :: "bytes \<Rightarrow> bool \<times> bytes" where
  "skip_sign s = (case s of [] \<Rightarrow> (False, [])
     | c # r \<Rightarrow> if c = 0x2d then (True, r) else if c = 0x2b then (False, r) else (False, s))"

definition strtoul10 :: "bytes \<Rightarrow> u32 \<times> bytes" where
  "strtoul10 s =
     (case skip_sign (dropWhile is_space s) of (neg, t) \<Rightarrow>
        let ds = takeWhile is_digit t; n = digits_val ds in
        if ds = [] then (0, s)
        else (if n \<ge> 2 ^ 32 then 0xffffffff else if neg then - of_nat n else of_nat n, dropWhile is_digit t))"

definition atoi :: "bytes \<Rightarrow> int option" where
  "atoi s =
     (case skip_sign (dropWhile is_space s) of (neg, t) \<Rightarrow>
        let n = int (digits_val (takeWhile is_digit t)); v = (if neg then - n else n) in
        if - (2 ^ 31) \<le> v \<and> v < 2 ^ 31 then Some v else None)"

section \<open>Digits and values\<close>

text \<open>A number in decimal.\<close>

fun decimal :: "nat \<Rightarrow> bytes" where
  "decimal n = (if n < 10 then [of_nat (48 + n)] else decimal (n div 10) @ [of_nat (48 + n mod 10)])"

declare decimal.simps [simp del]

lemma digit_props:
  assumes "k < 10"
  shows "is_digit (of_nat (48 + k))" "unat (of_nat (48 + k) :: u8) - 48 = k"
    "\<not> is_space (of_nat (48 + k))" "of_nat (48 + k) \<noteq> (0 :: u8)" "of_nat (48 + k) \<noteq> (0x2d :: u8)" "of_nat (48 + k) \<noteq> (0x2b :: u8)"
proof -
  have u: "unat (of_nat (48 + k) :: u8) = 48 + k" using assms by (simp add: unat_of_nat del: of_nat_add)
  then show "is_digit (of_nat (48 + k))" "unat (of_nat (48 + k) :: u8) - 48 = k"
    "\<not> is_space (of_nat (48 + k))" "of_nat (48 + k) \<noteq> (0 :: u8)" "of_nat (48 + k) \<noteq> (0x2d :: u8)" "of_nat (48 + k) \<noteq> (0x2b :: u8)"
    using assms by (auto simp: is_digit_def is_space_def word_le_nat_alt word_unat_eq_iff simp del: of_nat_add)
qed

lemma decimal_digits: "list_all is_digit (decimal n) \<and> decimal n \<noteq> [] \<and> digits_val (decimal n) = n \<and> 0 \<notin> set (decimal n)"
proof (induction n rule: decimal.induct)
  case (1 n)
  show ?case
  proof (cases "n < 10")
    case True
    then show ?thesis using digit_props [of n] by (subst (1 2 3 4) decimal.simps) (auto simp: digits_val_def simp del: of_nat_add)
  next
    case False
    have "n mod 10 < 10" by simp
    note d = digit_props [OF this]
    have "decimal n = decimal (n div 10) @ [of_nat (48 + n mod 10)]" using False by (subst decimal.simps) simp
    then show ?thesis using 1 [OF False] d by (auto simp: digits_val_def simp del: of_nat_add)
  qed
qed

lemma decimal_head: "\<exists>c r. decimal n = c # r \<and> \<not> is_space c \<and> c \<noteq> 0x2d \<and> c \<noteq> 0x2b"
proof -
  obtain c r where "decimal n = c # r" using decimal_digits [of n] by (cases "decimal n") auto
  moreover from this have "is_digit c" using decimal_digits [of n] by simp
  ultimately show ?thesis by (auto simp: is_digit_def is_space_def word_le_nat_alt)
qed

lemma strtoul_decimal: "strtoul10 (decimal n) = (if n < 2 ^ 32 then of_nat n else 0xffffffff, [])"
proof -
  obtain c r where c: "decimal n = c # r" "\<not> is_space c" "c \<noteq> 0x2d" "c \<noteq> 0x2b" using decimal_head by blast
  have all: "takeWhile is_digit (decimal n) = decimal n" "dropWhile is_digit (decimal n) = []"
    using decimal_digits [of n] by (simp_all add: list_all_iff)
  have "skip_sign (dropWhile is_space (decimal n)) = (False, decimal n)" using c by (simp add: skip_sign_def)
  then show ?thesis using all decimal_digits [of n]
    by (simp add: strtoul10_def Let_def del: takeWhile_eq_all_conv dropWhile_eq_Nil_conv)
qed

lemma digits_val_Nil [simp]: "digits_val [] = 0"
  by (simp add: digits_val_def)

lemma digits_val_snoc: "digits_val (s @ [c]) = 10 * digits_val s + (unat c - 48)"
  by (simp add: digits_val_def)

lemma digit_value: "is_digit c \<Longrightarrow> unat c - 48 < 10"
  by (simp add: is_digit_def word_le_nat_alt) arith

lemma digit_less: "is_digit c \<Longrightarrow> is_digit d \<Longrightarrow> c < d \<Longrightarrow> unat c - 48 + 1 \<le> unat d - 48"
  by (simp add: is_digit_def word_le_nat_alt word_less_nat_alt)

lemma digits_val_less: "list_all is_digit s \<Longrightarrow> digits_val s < 10 ^ length s"
proof (induction s rule: rev_induct)
  case (snoc c s)
  then show ?case using digit_value [of c] by (simp add: digits_val_snoc)
qed simp

lemma digits_val_append: "digits_val (s @ t) = digits_val s * 10 ^ length t + digits_val t"
proof (induction t rule: rev_induct)
  case (snoc c t)
  then show ?case by (simp add: digits_val_snoc algebra_simps flip: append_assoc)
qed simp

lemma digits_val_Cons: "digits_val (c # s) = (unat c - 48) * 10 ^ length s + digits_val s"
  using digits_val_append [of "[c]" s] digits_val_snoc [of "[]" c] by simp

lemma digits_val_zeros: "digits_val (dropWhile (\<lambda>c. c = 0x30) s) = digits_val s"
  by (induction s) (simp_all add: digits_val_Cons)

lemma digits_val_ge:
  assumes "is_digit c" "c \<noteq> 0x30"
  shows "10 ^ length s \<le> digits_val (c # s)"
proof -
  have "1 \<le> unat c - 48" using assms by (simp add: is_digit_def word_le_nat_alt word_unat_eq_iff) arith
  then have "1 * 10 ^ length s \<le> (unat c - 48) * 10 ^ length s" by (rule mult_le_mono1)
  then show ?thesis unfolding digits_val_Cons by (simp only: mult_1_left trans_le_add1)
qed

end
