(* ===== verification/Str_Trim.thy ===== *)
theory Str_Trim
  imports Decimal
begin

text \<open>
  Removing characters from strings in place, and checking numbers (at_utility.c). A string is a
  region with a NUL; the conversions of lengths to eight bits are those of the code. Copying a
  string to a lower address of its own region is copying its bytes in ascending order, as the
  code assumes of \<open>strcpy\<close>.
\<close>

section \<open>The model\<close>

definition IS_WHITE_SPACE :: "u8 \<Rightarrow> bool" where
  "IS_WHITE_SPACE ch \<longleftrightarrow> ch = 32 \<or> ch = 9 \<or> ch = 10 \<or> ch = 13"

text \<open>\<open>strcpy\<close> within a region: to its start, from index \<open>p\<close>.\<close>

definition strcpy_down :: "bytes \<Rightarrow> nat \<Rightarrow> bytes option" where
  "strcpy_down m p =
     (if p \<le> length m \<and> has_nul (drop p m) then wr_block m 0 (cstr (drop p m) @ [0]) else None)"

definition strcpy :: "bytes \<Rightarrow> bytes \<Rightarrow> bytes option" where
  "strcpy dst src = (if has_nul src then wr_block dst 0 (cstr src @ [0]) else None)"

text \<open>A routine that does nothing for \<open>NULL\<close>.\<close>

definition unless_null :: "(bytes \<Rightarrow> bytes option) \<Rightarrow> bytes option \<Rightarrow> bytes option option" where
  "unless_null f p = (case p of None \<Rightarrow> Some None | Some m \<Rightarrow> map_option Some (f m))"

function skip_chars :: "(u8 \<Rightarrow> bool) \<Rightarrow> nat \<Rightarrow> bytes \<Rightarrow> nat option" where
  "skip_chars P p m = do {
     c \<leftarrow> rd m p;
     if c \<noteq> 0 \<and> P c then skip_chars P (p + 1) m else Some p }"
  by pat_completeness auto
termination by (relation "measure (\<lambda>(P, p, m). length m - p)") (auto simp: rd_eq_Some)

definition trim_left :: "bytes \<Rightarrow> bytes option" where
  "trim_left m = do { p \<leftarrow> skip_chars IS_WHITE_SPACE 0 m; strcpy_down m p }"

definition AT_Util_TrimLeft :: "bytes option \<Rightarrow> bytes option option" where
  "AT_Util_TrimLeft = unless_null trim_left"

definition trim_left_char :: "u8 \<Rightarrow> bytes \<Rightarrow> bytes option" where
  "trim_left_char cTrimChar m = do { p \<leftarrow> skip_chars (\<lambda>c. c = cTrimChar) 0 m; strcpy_down m p }"

definition AT_Util_TrimLeftChar :: "bytes option \<Rightarrow> u8 \<Rightarrow> bytes option option" where
  "AT_Util_TrimLeftChar p cTrimChar = unless_null (trim_left_char cTrimChar) p"

text \<open>The loop goes down from index \<open>i - 1\<close>.\<close>

fun trim_right_loop :: "nat \<Rightarrow> bytes \<Rightarrow> bytes option" where
  "trim_right_loop 0 m = Some m"
| "trim_right_loop (Suc i) m = do {
     c \<leftarrow> rd m i;
     if IS_WHITE_SPACE c then do { m \<leftarrow> wr m i 0; trim_right_loop i m } else Some m }"

definition trim_right :: "bytes \<Rightarrow> bytes option" where
  "trim_right m = do {
     n \<leftarrow> c_strlen m;
     let iLen = (of_nat n :: u8);
     trim_right_loop (unat (iLen - 1) + 1) m }"

definition AT_Util_TrimRight :: "bytes option \<Rightarrow> bytes option option" where
  "AT_Util_TrimRight = unless_null trim_right"

definition trim :: "bytes \<Rightarrow> bytes option" where
  "trim m = Option.bind (trim_left m) trim_right"

definition AT_Util_Trim :: "bytes option \<Rightarrow> bytes option option" where
  "AT_Util_Trim = unless_null trim"

text \<open>Compaction: \<open>k\<close> characters from index \<open>i\<close> on are kept or left out, \<open>n\<close> being kept so far.
  The state \<open>a\<close> is what the condition depends on.\<close>

fun compact_loop :: "('a \<Rightarrow> u8 \<Rightarrow> bool \<times> 'a) \<Rightarrow> nat \<Rightarrow> 'a \<Rightarrow> nat \<Rightarrow> nat \<Rightarrow> bytes \<Rightarrow> bytes option" where
  "compact_loop keep 0 a i n m = wr m n 0"
| "compact_loop keep (Suc k) a i n m = do {
     c \<leftarrow> rd m i;
     case keep a c of
       (True, a) \<Rightarrow> do { m \<leftarrow> wr m n c; compact_loop keep k a (i + 1) (n + 1) m }
     | (False, a) \<Rightarrow> compact_loop keep k a (i + 1) n m }"

definition trim_all :: "bytes \<Rightarrow> bytes option" where
  "trim_all m = do {
     n \<leftarrow> c_strlen m;
     let iLen = (of_nat n :: u8);
     compact_loop (\<lambda>_ c. (\<not> IS_WHITE_SPACE c, ())) (unat iLen) () 0 0 m }"

definition AT_Util_TrimAll :: "bytes option \<Rightarrow> bytes option option" where
  "AT_Util_TrimAll = unless_null trim_all"

definition quote_step :: "bool \<Rightarrow> u8 \<Rightarrow> bool \<times> bool" where
  "quote_step fDoubleQuotationMaker c =
     (let f = (if c = 0x22 then \<not> fDoubleQuotationMaker else fDoubleQuotationMaker)
      in (\<not> (\<not> f \<and> (c = 0x20 \<or> c = 0x09)), f))"

definition trim_all_param :: "bytes \<Rightarrow> bytes option" where
  "trim_all_param m = do {
     len \<leftarrow> c_strlen m;
     if len = 0 then Some m else compact_loop quote_step len False 0 0 m }"

definition AT_Util_TrimAll_Param :: "bytes option \<Rightarrow> bytes option option" where
  "AT_Util_TrimAll_Param = unless_null trim_all_param"

fun backspace_loop :: "nat \<Rightarrow> u8 \<Rightarrow> nat \<Rightarrow> nat \<Rightarrow> bytes \<Rightarrow> bytes option" where
  "backspace_loop 0 bs i n m = wr m n 0"
| "backspace_loop (Suc k) bs i n m = do {
     c \<leftarrow> rd m i;
     if c = bs then backspace_loop k bs (i + 1) (if n > 0 then n - 1 else n) m
     else do { m \<leftarrow> wr m n c; backspace_loop k bs (i + 1) (n + 1) m } }"

definition trim_backspace :: "u8 \<Rightarrow> bytes \<Rightarrow> bytes option" where
  "trim_backspace iBSChar m = do {
     iLen \<leftarrow> c_strlen m;
     if iLen = 0 then Some m else backspace_loop iLen iBSChar 0 0 m }"

definition AT_Util_TrimBackspace :: "bytes option \<Rightarrow> u8 \<Rightarrow> bytes option option" where
  "AT_Util_TrimBackspace p iBSChar = unless_null (trim_backspace iBSChar) p"

fun numeric_loop :: "nat \<Rightarrow> nat \<Rightarrow> bytes \<Rightarrow> bool option" where
  "numeric_loop 0 i m = Some True"
| "numeric_loop (Suc k) i m = do {
     c \<leftarrow> rd m i;
     if is_digit c then numeric_loop k (i + 1) m else Some False }"

definition AT_Util_IsStringNumeric :: "bytes option \<Rightarrow> bool option" where
  "AT_Util_IsStringNumeric p =
     (case p of None \<Rightarrow> Some False
      | Some m \<Rightarrow> do {
          iLen \<leftarrow> c_strlen m;
          if iLen = 0 then Some False else numeric_loop iLen 0 m })"

lemma cstr_pad [cstr_simps, simp]: "0 \<notin> set s \<Longrightarrow> cstr (s @ replicate k 0 @ 0 # r) = s"
  by (cases k) simp_all

lemma empty_string [cstr_simps, simp]: "cstr (0 # r) = []" "c_strlen (0 # r) = Some 0"
  using cstr_append_nul [of "[]" r] c_strlen_append_nul [of "[]" r] by simp_all

section \<open>Removing at the left\<close>

declare skip_chars.simps [simp del]

lemma skip_chars_result:
  assumes "0 \<notin> set s"
  shows "skip_chars P (length pre) (pre @ s @ 0 # r) = Some (length pre + length (takeWhile P s))"
  using assms
proof (induction s arbitrary: pre)
  case Nil
  then show ?case by (simp add: skip_chars.simps rd_def)
next
  case (Cons c s)
  then show ?case
    using Cons.IH [of "pre @ [c]"] by (subst skip_chars.simps) (auto simp: rd_def)
qed

lemma strcpy_down_result:
  assumes "0 \<notin> set s" "k \<le> length s"
  shows "strcpy_down (s @ 0 # r) k =
    Some (drop k s @ 0 # drop (Suc (length (drop k s))) (s @ 0 # r))"
proof -
  have "drop k (s @ 0 # r) = drop k s @ 0 # r" using assms(2) by simp
  moreover have "0 \<notin> set (drop k s)" using assms(1) by (auto dest: in_set_dropD)
  ultimately show ?thesis using assms(2)
    by (simp add: strcpy_down_def wr_block_def del: drop_append)
qed

lemma drop_length_takeWhile: "drop (length (takeWhile P s)) s = dropWhile P s"
  by (metis append_eq_conv_conj takeWhile_dropWhile_id)

lemma trim_left_result:
  assumes "0 \<notin> set s"
  shows "trim_left (s @ 0 # r) = Some (dropWhile IS_WHITE_SPACE s @ 0 #
    drop (Suc (length (dropWhile IS_WHITE_SPACE s))) (s @ 0 # r))"
  using skip_chars_result [where P = IS_WHITE_SPACE and s = s and pre = "[]" and r = r] strcpy_down_result [OF assms, of "length (takeWhile IS_WHITE_SPACE s)" r] assms
  by (simp add: trim_left_def drop_length_takeWhile length_takeWhile_le del: drop_append)

lemma trim_left_char_result:
  assumes "0 \<notin> set s"
  shows "trim_left_char ch (s @ 0 # r) = Some (dropWhile (\<lambda>c. c = ch) s @ 0 #
    drop (Suc (length (dropWhile (\<lambda>c. c = ch) s))) (s @ 0 # r))"
  using skip_chars_result [where P = "\<lambda>c. c = ch" and s = s and pre = "[]" and r = r] strcpy_down_result [OF assms, of "length (takeWhile (\<lambda>c. c = ch) s)" r] assms
  by (simp add: trim_left_char_def drop_length_takeWhile length_takeWhile_le del: drop_append)

section \<open>Removing at the right\<close>

definition rstrip :: "bytes \<Rightarrow> bytes" where
  "rstrip s = rev (dropWhile IS_WHITE_SPACE (rev s))"

definition strip :: "bytes \<Rightarrow> bytes" where
  "strip s = rstrip (dropWhile IS_WHITE_SPACE s)"

lemma rstrip_snoc [simp]: "rstrip (s @ [c]) = (if IS_WHITE_SPACE c then rstrip s else s @ [c])"
  by (simp add: rstrip_def)

lemma rstrip_Nil [simp]: "rstrip [] = []"
  by (simp add: rstrip_def)

lemma rstrip_split: "\<exists>w. s = rstrip s @ w \<and> (\<forall>c \<in> set w. IS_WHITE_SPACE c)"
proof (induction s rule: rev_induct)
  case (snoc x s)
  then obtain w where "s = rstrip s @ w" "\<forall>c \<in> set w. IS_WHITE_SPACE c" by blast
  then have "s @ [x] = rstrip s @ (w @ [x])" by (metis append.assoc)
  then show ?case using \<open>\<forall>c \<in> set w. IS_WHITE_SPACE c\<close>
    by (cases "IS_WHITE_SPACE x") (auto intro!: exI [of _ "w @ [x]"])
qed simp

lemma length_rstrip: "length (rstrip s) \<le> length s"
  using length_dropWhile_le [of _ "rev s"] by (simp add: rstrip_def)

lemma set_rstrip: "set (rstrip s) \<subseteq> set s"
  using set_dropWhileD by (fastforce simp: rstrip_def)

lemma trim_right_loop_result:
  "trim_right_loop (length s) (s @ t) =
     Some (rstrip s @ replicate (length s - length (rstrip s)) 0 @ t)"
proof (induction s arbitrary: t rule: rev_induct)
  case (snoc c s)
  have "length (rstrip s) \<le> length s" by (rule length_rstrip)
  then have "replicate (Suc (length s) - length (rstrip s)) 0 @ t =
      replicate (length s - length (rstrip s)) 0 @ (0 :: u8) # t"
    by (simp add: Suc_diff_le replicate_append_same [symmetric])
  then show ?case using snoc [of "0 # t"] by (simp add: rd_def wr_def list_update_append)
qed simp

text \<open>Where the scan from the right starts, for a string of \<open>n\<close> characters.\<close>

definition scan_start :: "nat \<Rightarrow> nat" where
  "scan_start n = unat ((of_nat n :: u8) - 1) + 1"

lemma scan_start_eq: "0 < n \<Longrightarrow> scan_start n = (n - 1) mod 256 + 1"
proof -
  assume "0 < n"
  then obtain k where n: "n = Suc k" by (cases n) auto
  have "(of_nat n :: u8) - 1 = of_nat k" by (simp add: n)
  then show ?thesis by (simp add: scan_start_def n unsigned_of_nat take_bit_eq_mod)
qed

lemma scan_start_small: "0 < n \<Longrightarrow> n \<le> 256 \<Longrightarrow> scan_start n = n"
  by (simp add: scan_start_eq)

lemma trim_right_general:
  assumes "0 \<notin> set s" "s \<noteq> []"
  defines "t \<equiv> take (scan_start (length s)) s"
  shows "trim_right (s @ 0 # r) =
    Some (rstrip t @ replicate (length t - length (rstrip t)) 0 @ drop (scan_start (length s)) s @ 0 # r)"
proof -
  have "scan_start (length s) \<le> length s"
    using assms(2) by (simp add: scan_start_eq Suc_le_eq) (metis Suc_pred length_greater_0_conv less_Suc_eq_le mod_less_eq_dividend)
  then have len: "length t = scan_start (length s)" by (simp add: t_def)
  have "trim_right (s @ 0 # r) = trim_right_loop (length t) (t @ drop (scan_start (length s)) s @ 0 # r)"
    using assms(1) unfolding len
    by (simp add: trim_right_def scan_start_def t_def flip: append_assoc del: trim_right_loop.simps)
  then show ?thesis by (simp only: trim_right_loop_result)
qed

lemma trim_right_result:
  assumes "0 \<notin> set s" "s \<noteq> []" "length s \<le> 256"
  shows "trim_right (s @ 0 # r) = Some (rstrip s @ replicate (length s - length (rstrip s)) 0 @ 0 # r)"
  using trim_right_general [OF assms(1,2)] assms by (simp add: scan_start_small)

text \<open>A blank string: the scan starts at index 255, whatever the size of the region.\<close>

lemma trim_right_empty:
  "length r < 255 \<Longrightarrow> trim_right (0 # r) = None"
proof -
  assume "length r < 255"
  moreover have "unat (- 1 :: u8) = 255" by (simp add: unsigned_minus_1_eq_mask mask_eq_exp_minus_1)
  ultimately show ?thesis
    using trim_right_loop.simps(2) [of 255 "0 # r"] c_strlen_append_nul [of "[]" r]
    by (simp add: trim_right_def rd_def del: trim_right_loop.simps c_strlen_append_nul)
qed

text \<open>A string of 1 to 256 characters that does not start with white space and is trimmed is
  the string without the white space at both ends, in its place.\<close>

theorem trim_strips:
  assumes "0 \<notin> set s" "dropWhile IS_WHITE_SPACE s \<noteq> []" "length s \<le> 256"
  shows "\<exists>m. AT_Util_Trim (Some (s @ 0 # r)) = Some (Some m) \<and> cstr m = strip s \<and>
    length m = length (s @ 0 # r)"
proof -
  let ?t = "dropWhile IS_WHITE_SPACE s"
  let ?r = "drop (Suc (length ?t)) (s @ 0 # r)"
  have t: "0 \<notin> set ?t" "length ?t \<le> length s" using assms(1) by (auto dest: set_dropWhileD intro: length_dropWhile_le)
  have "trim (s @ 0 # r) = trim_right (?t @ 0 # ?r)"
    using trim_left_result [OF assms(1), of r] by (simp add: trim_def)
  also have "\<dots> = Some (rstrip ?t @ replicate (length ?t - length (rstrip ?t)) 0 @ 0 # ?r)"
    using t assms by (intro trim_right_result) simp_all
  finally have trim: "trim (s @ 0 # r) = Some (rstrip ?t @ replicate (length ?t - length (rstrip ?t)) 0 @ 0 # ?r)" .
  have "cstr (rstrip ?t @ replicate k 0 @ 0 # ?r) = rstrip ?t" for k
    using t(1) set_rstrip [of ?t] by (intro cstr_pad) auto
  then show ?thesis using trim t(2) length_rstrip [of ?t]
    by (simp add: AT_Util_Trim_def unless_null_def strip_def)
qed

theorem trim_strips_witness:
  "\<exists>m. AT_Util_Trim (Some [32, 65, 32, 66, 13, 10, 0, 7]) = Some (Some m) \<and> cstr m = [65, 32, 66]"
proof -
  have "strip [32, 65, 32, 66, 13, 10] = [65, 32, 66]" by (simp add: strip_def rstrip_def IS_WHITE_SPACE_def)
  then show ?thesis using trim_strips [of "[32, 65, 32, 66, 13, 10]" "[7]"] by (auto simp: IS_WHITE_SPACE_def)
qed


text \<open>The length is cut to eight bits: in a string of more than 256 characters the scan for white
  space at the right starts in the middle, and when it meets white space there the string ends
  at this place.\<close>

theorem trim_right_cuts:
  assumes "0 \<notin> set s" "256 < length s" "IS_WHITE_SPACE (s ! ((length s - 1) mod 256))"
  shows "\<exists>m. AT_Util_TrimRight (Some (s @ 0 # r)) = Some (Some m) \<and>
      cstr m = rstrip (take ((length s - 1) mod 256) s) \<and> length (cstr m) < 256"
proof -
  let ?k = "(length s - 1) mod 256"
  have "s \<noteq> []" "?k < length s" using assms(2) by (auto intro: le_less_trans [OF mod_less_eq_dividend])
  then have t: "take (scan_start (length s)) s = take ?k s @ [s ! ?k]"
    using scan_start_eq [of "length s"] by (simp add: take_Suc_conv_app_nth)
  have len: "length (rstrip (take ?k s)) \<le> ?k" using length_rstrip [of "take ?k s"] by simp
  then obtain j where j: "Suc ?k - length (rstrip (take ?k s)) = Suc j" by (metis Suc_diff_le)
  have "trim_right (s @ 0 # r) =
      Some (rstrip (take ?k s) @ replicate (Suc j) 0 @ drop (scan_start (length s)) s @ 0 # r)"
    using trim_right_general [OF assms(1) \<open>s \<noteq> []\<close>, of r] assms(3) j \<open>?k < length s\<close> by (simp add: t)
  moreover have "0 \<notin> set (rstrip (take ?k s))" using assms(1) set_rstrip [of "take ?k s"] by (auto dest: in_set_takeD)
  ultimately show ?thesis using len by (simp add: AT_Util_TrimRight_def unless_null_def)
qed

lemma trim_right_cuts_witness:
  "\<exists>m. AT_Util_TrimRight (Some (replicate 300 32 @ 0 # [])) = Some (Some m) \<and> length (cstr m) < 256"
  using trim_right_cuts [of "replicate 300 32" "[]"] by (auto simp: IS_WHITE_SPACE_def)

section \<open>Removing inside\<close>

primrec kept :: "('a \<Rightarrow> u8 \<Rightarrow> bool \<times> 'a) \<Rightarrow> 'a \<Rightarrow> bytes \<Rightarrow> bytes" where
  "kept keep a [] = []"
| "kept keep a (c # s) = (case keep a c of (b, a) \<Rightarrow> if b then c # kept keep a s else kept keep a s)"

text \<open>Looking at the characters \<open>k\<close> from index \<open>i\<close> on, with the first \<open>n\<close> of the region done.\<close>

lemma window_step:
  assumes "i + Suc k < length m" "n \<le> i"
  shows "take (Suc k) (drop i m) = m ! i # take k (drop (Suc i) m)"
    and "take k (drop (Suc i) (m[n := c])) = take k (drop (Suc i) m)"
    and "take (Suc n) (m[n := c]) = take n m @ [c]"
proof -
  show "take (Suc k) (drop i m) = m ! i # take k (drop (Suc i) m)"
    using assms by (simp flip: Cons_nth_drop_Suc)
  show "take k (drop (Suc i) (m[n := c])) = take k (drop (Suc i) m)" using assms by simp
  show "take (Suc n) (m[n := c]) = take n m @ [c]"
    using assms by (simp add: take_Suc_conv_app_nth)
qed

lemma terminate_at: "n < length m \<Longrightarrow> wr m n 0 = Some (take n m @ 0 # drop (Suc n) m)"
  by (simp add: wr_def upd_conv_take_nth_drop)

lemma compact_loop_result:
  "i + k < length m \<Longrightarrow> n \<le> i \<Longrightarrow> \<exists>t. compact_loop keep k a i n m =
     Some (take n m @ kept keep a (take k (drop i m)) @ 0 # t) \<and>
     n + length (kept keep a (take k (drop i m))) + length t + 1 = length m"
proof (induction k arbitrary: a i n m)
  case 0
  then show ?case by (simp add: terminate_at)
next
  case (Suc k)
  obtain b a' where b: "keep a (m ! i) = (b, a')" by force
  note w = window_step [OF Suc.prems]
  show ?case
  proof (cases b)
    case True
    then show ?thesis
      using Suc.IH [of "Suc i" "m[n := m ! i]" "Suc n" a'] Suc.prems b w by (simp add: rd_def wr_def)
  next
    case False
    then show ?thesis
      using Suc.IH [of "Suc i" m n a'] Suc.prems b w by (simp add: rd_def)
  qed
qed

lemma compact_string:
  assumes "k \<le> length s"
  shows "\<exists>t. compact_loop keep k a 0 0 (s @ 0 # r) = Some (kept keep a (take k s) @ 0 # t) \<and>
    length (kept keep a (take k s) @ 0 # t) = length (s @ 0 # r)"
  using compact_loop_result [of 0 k "s @ 0 # r" 0 keep a] assms by auto

lemma set_kept: "set (kept keep a s) \<subseteq> set s"
  by (induction s arbitrary: a) (auto split: prod.splits if_splits)

lemma kept_filter: "kept (\<lambda>_ c. (P c, ())) () s = filter P s"
  by (induction s) auto

text \<open>The white space is removed from the whole string when it has fewer than 256 characters,
  from its first \<open>n mod 256\<close> characters when it has \<open>n\<close>, which then are all that is left.\<close>

theorem trim_all_filters:
  assumes "0 \<notin> set s"
  shows "\<exists>m. AT_Util_TrimAll (Some (s @ 0 # r)) = Some (Some m) \<and> length m = length (s @ 0 # r) \<and>
    cstr m = filter (\<lambda>c. \<not> IS_WHITE_SPACE c) (take (length s mod 256) s)"
proof -
  have k: "unat (of_nat (length s) :: u8) = length s mod 256" by (simp add: unsigned_of_nat take_bit_eq_mod)
  obtain t where t: "compact_loop (\<lambda>_ c. (\<not> IS_WHITE_SPACE c, ())) (length s mod 256) () 0 0 (s @ 0 # r) =
      Some (filter (\<lambda>c. \<not> IS_WHITE_SPACE c) (take (length s mod 256) s) @ 0 # t)"
    "length (filter (\<lambda>c. \<not> IS_WHITE_SPACE c) (take (length s mod 256) s) @ 0 # t) = length (s @ 0 # r)"
    using compact_string [of "length s mod 256" s "\<lambda>_ c. (\<not> IS_WHITE_SPACE c, ())" "()" r] by (auto simp: kept_filter)
  have "0 \<notin> set (filter (\<lambda>c. \<not> IS_WHITE_SPACE c) (take (length s mod 256) s))" using assms by (auto dest: in_set_takeD)
  then show ?thesis using t assms k by (simp add: AT_Util_TrimAll_def unless_null_def trim_all_def)
qed

lemma trim_all_filters_witness:
  "\<exists>m. AT_Util_TrimAll (Some [65, 32, 66, 0, 9]) = Some (Some m) \<and> cstr m = [65, 66]"
  using trim_all_filters [of "[65, 32, 66]" "[9]"] by (auto simp: IS_WHITE_SPACE_def)

text \<open>The blanks outside of quotes are those removed from a list of parameters.\<close>

lemma trim_all_param_result:
  assumes "0 \<notin> set s"
  shows "\<exists>m. AT_Util_TrimAll_Param (Some (s @ 0 # r)) = Some (Some m) \<and> length m = length (s @ 0 # r) \<and>
    cstr m = kept quote_step False s"
proof -
  obtain t where t: "compact_loop quote_step (length s) False 0 0 (s @ 0 # r) = Some (kept quote_step False s @ 0 # t)"
    "length (kept quote_step False s @ 0 # t) = length (s @ 0 # r)"
    using compact_string [of "length s" s quote_step False r] by auto
  have "0 \<notin> set (kept quote_step False s)" using assms set_kept [of quote_step False s] by auto
  then show ?thesis using t assms
    by (cases "s = []") (simp_all add: AT_Util_TrimAll_Param_def unless_null_def trim_all_param_def)
qed

text \<open>What is typed with backspaces.\<close>

definition typed :: "u8 \<Rightarrow> bytes \<Rightarrow> bytes \<Rightarrow> bytes" where
  "typed bs out s = foldl (\<lambda>out c. if c = bs then butlast out else out @ [c]) out s"

lemma backspace_loop_result:
  "i + k < length m \<Longrightarrow> n \<le> i \<Longrightarrow> \<exists>t. backspace_loop k bs i n m =
     Some (typed bs (take n m) (take k (drop i m)) @ 0 # t) \<and>
     length (typed bs (take n m) (take k (drop i m))) + length t + 1 = length m"
proof (induction k arbitrary: i n m)
  case 0
  then show ?case by (simp add: terminate_at typed_def)
next
  case (Suc k)
  note w = window_step [OF Suc.prems]
  show ?case
  proof (cases "m ! i = bs")
    case True
    then show ?thesis
      using Suc.IH [of "Suc i" m "if n > 0 then n - 1 else n"] Suc.prems w
      by (cases n) (simp_all add: rd_def typed_def butlast_take)
  next
    case False
    then show ?thesis
      using Suc.IH [of "Suc i" "m[n := m ! i]" "Suc n"] Suc.prems w
      by (simp add: rd_def wr_def typed_def)
  qed
qed

lemma set_typed: "set (typed bs out s) \<subseteq> set out \<union> set s"
  by (induction s rule: rev_induct) (auto simp: typed_def dest: in_set_butlastD)

lemma trim_backspace_result:
  assumes "0 \<notin> set s"
  shows "\<exists>m. AT_Util_TrimBackspace (Some (s @ 0 # r)) bs = Some (Some m) \<and> length m = length (s @ 0 # r) \<and>
    cstr m = typed bs [] s"
proof -
  obtain t where t: "backspace_loop (length s) bs 0 0 (s @ 0 # r) = Some (typed bs [] s @ 0 # t)"
    "length (typed bs [] s @ 0 # t) = length (s @ 0 # r)"
    using backspace_loop_result [of 0 "length s" "s @ 0 # r" 0 bs] by auto
  have "0 \<notin> set (typed bs [] s)" using assms set_typed [of bs "[]" s] by auto
  then show ?thesis using t assms
    by (cases "s = []") (simp_all add: AT_Util_TrimBackspace_def unless_null_def trim_backspace_def typed_def)
qed

lemma numeric_loop_result:
  "i + k \<le> length m \<Longrightarrow> numeric_loop k i m = Some (\<forall>c \<in> set (take k (drop i m)). is_digit c)"
proof (induction k arbitrary: i)
  case (Suc k)
  then have "take (Suc k) (drop i m) = m ! i # take k (drop (Suc i) m)" by (simp flip: Cons_nth_drop_Suc)
  then show ?case using Suc by (simp add: rd_def)
qed simp

lemma is_string_numeric:
  "0 \<notin> set s \<Longrightarrow>
     AT_Util_IsStringNumeric (Some (s @ 0 # r)) = Some (s \<noteq> [] \<and> (\<forall>c \<in> set s. is_digit c))"
  by (simp add: AT_Util_IsStringNumeric_def numeric_loop_result)

end
