(* ===== verification/Str_Num.thy ===== *)
theory Str_Num
  imports Str_Trim
begin

text \<open>
  Checking that a string is a number of 8, 16 or 32 bits (at_utility.c): the string is copied to
  a buffer of 1024 bytes, trimmed, its leading zeros are removed, and it is compared with the
  decimal text of the greatest number.
\<close>

section \<open>The model\<close>

definition AT_UTLI_BUF_LEN :: nat where
  "AT_UTLI_BUF_LEN = 1024"

fun zero_loop :: "nat \<Rightarrow> nat \<Rightarrow> bytes \<Rightarrow> nat option" where
  "zero_loop 0 i m = Some i"
| "zero_loop (Suc k) i m = do {
     c \<leftarrow> rd m i;
     if c \<noteq> 0x30 then Some i else zero_loop k (i + 1) m }"

text \<open>''255'', ''65535'', ''4294967295'' and otherwise ''0''.\<close>

definition un_max :: "u8 \<Rightarrow> bytes" where
  "un_max nType =
     (if nType = 8 then [0x32, 0x35, 0x35]
      else if nType = 16 then [0x36, 0x35, 0x35, 0x33, 0x35]
      else if nType = 32 then [0x34, 0x32, 0x39, 0x34, 0x39, 0x36, 0x37, 0x32, 0x39, 0x35]
      else [0x30])"

fun cmp_max :: "nat \<Rightarrow> nat \<Rightarrow> bool \<Rightarrow> bytes \<Rightarrow> bytes \<Rightarrow> bool option" where
  "cmp_max 0 i bRet pBuff szMax = Some bRet"
| "cmp_max (Suc k) i bRet pBuff szMax = do {
     x \<leftarrow> rd pBuff i;
     y \<leftarrow> rd szMax i;
     if x < y then Some True
     else if x = y then cmp_max k (i + 1) True pBuff szMax
     else Some False }"

definition AT_Util_CheckValidUn :: "bytes option \<Rightarrow> u8 \<Rightarrow> bool option" where
  "AT_Util_CheckValidUn pParam nType =
     (case pParam of None \<Rightarrow> Some False
      | Some m \<Rightarrow> do {
          iLen \<leftarrow> c_strlen m;
          if iLen > AT_UTLI_BUF_LEN then Some False
          else do {
            pBuff \<leftarrow> strcpy (replicate AT_UTLI_BUF_LEN 0) m;
            pBuff \<leftarrow> trim pBuff;
            iLen \<leftarrow> c_strlen pBuff;
            i \<leftarrow> zero_loop iLen 0 pBuff;
            pBuff \<leftarrow> (if i = iLen then Some ((replicate AT_UTLI_BUF_LEN 0)[0 := 0x30])
                      else trim_left_char 0x30 pBuff);
            bResult \<leftarrow> AT_Util_IsStringNumeric (Some pBuff);
            if \<not> bResult then Some False
            else do {
              szMax \<leftarrow> strcpy (replicate 11 0) (un_max nType @ [0]);
              n \<leftarrow> c_strlen pBuff;
              k \<leftarrow> c_strlen szMax;
              let iLen = (of_nat n :: u8);
              let iMaxLen = (of_nat k :: u8);
              if iLen = iMaxLen then cmp_max (unat iMaxLen) 0 False pBuff szMax
              else Some (\<not> iLen > iMaxLen) } } })"

definition AT_Util_CheckValidateU8 :: "bytes option \<Rightarrow> bool option" where
  "AT_Util_CheckValidateU8 pParam = AT_Util_CheckValidUn pParam 8"

definition AT_Util_CheckValidateU16 :: "bytes option \<Rightarrow> bool option" where
  "AT_Util_CheckValidateU16 pParam = AT_Util_CheckValidUn pParam 16"

definition AT_Util_CheckValidateU32 :: "bytes option \<Rightarrow> bool option" where
  "AT_Util_CheckValidateU32 pParam = AT_Util_CheckValidUn pParam 32"

text \<open>The string is copied and trimmed, and the answer is always that it is valid.\<close>

definition AT_Util_CheckValidateString :: "bytes option \<Rightarrow> bool option" where
  "AT_Util_CheckValidateString pParam =
     (case pParam of None \<Rightarrow> Some False
      | Some m \<Rightarrow> do {
          pBuff \<leftarrow> strcpy (replicate AT_UTLI_BUF_LEN 0) m;
          pBuff \<leftarrow> trim pBuff;
          n \<leftarrow> c_strlen pBuff;
          Some True })"

section \<open>Trimming in a large region\<close>

text \<open>A region of 256 bytes or more is trimmed without an access outside of it.\<close>

lemma trim_right_loop_total:
  "i \<le> length m \<Longrightarrow> \<exists>m'. trim_right_loop i m = Some m' \<and> length m' = length m \<and>
     (\<forall>j < length m. m ! j = 0 \<longrightarrow> m' ! j = 0)"
proof (induction i arbitrary: m)
  case (Suc i)
  show ?case
  proof (cases "IS_WHITE_SPACE (m ! i)")
    case True
    obtain m' where "trim_right_loop i (m[i := 0]) = Some m'" "length m' = length m"
      "\<forall>j < length m. m[i := 0] ! j = 0 \<longrightarrow> m' ! j = 0"
      using Suc.IH [of "m[i := 0]"] Suc.prems by auto
    then show ?thesis using Suc.prems True by (auto simp: rd_def wr_def nth_list_update)
  next
    case False
    then show ?thesis using Suc.prems by (auto simp: rd_def)
  qed
qed simp

lemma trim_right_blank:
  assumes "255 \<le> length r"
  shows "\<exists>r'. trim_right (0 # r) = Some (0 # r') \<and> length r' = length r"
proof -
  have "unat (- 1 :: u8) = 255" by (simp add: unsigned_minus_1_eq_mask mask_eq_exp_minus_1)
  then have "trim_right (0 # r) = trim_right_loop 256 (0 # r)" by (simp add: trim_right_def del: trim_right_loop.simps)
  moreover obtain m where m: "trim_right_loop 256 (0 # r) = Some m" "length m = Suc (length r)" "m ! 0 = 0"
    using trim_right_loop_total [of 256 "0 # r"] assms by auto
  moreover obtain x r' where "m = x # r'" using m(2) by (cases m) auto
  ultimately show ?thesis by auto
qed

text \<open>A string of up to 256 characters in a large region is its trimmed string afterwards.\<close>

lemma trim_large:
  assumes "0 \<notin> set s" "length s \<le> 256" "255 \<le> length r"
  shows "\<exists>r'. trim (s @ 0 # r) = Some (strip s @ 0 # r') \<and> length (strip s @ 0 # r') = length (s @ 0 # r)"
proof -
  let ?t = "dropWhile IS_WHITE_SPACE s"
  let ?r = "drop (Suc (length ?t)) (s @ 0 # r)"
  have t: "0 \<notin> set ?t" "length ?t \<le> length s" using assms(1) by (auto dest: set_dropWhileD intro: length_dropWhile_le)
  have trim: "trim (s @ 0 # r) = trim_right (?t @ 0 # ?r)"
    using trim_left_result [OF assms(1), of r] by (simp add: trim_def)
  have len: "length ?r = length s + length r - length ?t" using t(2) by simp
  show ?thesis
  proof (cases "?t = []")
    case True
    then have "255 \<le> length ?r" using len assms(3) unfolding True by simp
    then obtain r' where "trim_right (0 # ?r) = Some (0 # r')" "length r' = length ?r" using trim_right_blank by blast
    moreover have "strip s = []" unfolding strip_def True by simp
    ultimately show ?thesis using trim len unfolding True by simp
  next
    case False
    have "trim_right (?t @ 0 # ?r) = Some (rstrip ?t @ replicate (length ?t - length (rstrip ?t)) 0 @ 0 # ?r)"
      using t assms False by (intro trim_right_result) simp_all
    then have *: "trim (s @ 0 # r) = Some (strip s @ replicate (length ?t - length (strip s)) 0 @ 0 # ?r)"
      using trim by (simp add: strip_def)
    have "length (strip s) \<le> length ?t" by (simp add: strip_def length_rstrip)
    then show ?thesis using * len t(2)
      by (cases "length ?t - length (strip s)") (auto simp del: length_drop)
  qed
qed

section \<open>Numbers\<close>

lemma zero_loop_result:
  "i + k \<le> length m \<Longrightarrow> zero_loop k i m = Some (i + length (takeWhile (\<lambda>c. c = 0x30) (take k (drop i m))))"
proof (induction k arbitrary: i)
  case (Suc k)
  then have "take (Suc k) (drop i m) = m ! i # take k (drop (Suc i) m)" by (simp flip: Cons_nth_drop_Suc)
  then show ?case using Suc by (simp add: rd_def)
qed simp

lemma cmp_max_result:
  "i + k \<le> length b \<Longrightarrow> i + k \<le> length m \<Longrightarrow>
   list_all is_digit (take k (drop i b)) \<Longrightarrow> list_all is_digit (take k (drop i m)) \<Longrightarrow>
   cmp_max k i True b m = Some (digits_val (take k (drop i b)) \<le> digits_val (take k (drop i m)))"
proof (induction k arbitrary: i)
  case (Suc k)
  let ?s = "take k (drop (Suc i) b)" and ?t = "take k (drop (Suc i) m)"
  have w: "take (Suc k) (drop i b) = b ! i # ?s" "take (Suc k) (drop i m) = m ! i # ?t"
    using Suc.prems by (simp_all flip: Cons_nth_drop_Suc)
  have d: "is_digit (b ! i)" "is_digit (m ! i)" "list_all is_digit ?s" "list_all is_digit ?t"
    using Suc.prems(3,4) unfolding w by simp_all
  have less: "digits_val ?s < 10 ^ k" "digits_val ?t < 10 ^ k"
    using digits_val_less [OF d(3)] digits_val_less [OF d(4)] Suc.prems by simp_all
  have l: "length ?s = k" "length ?t = k" using Suc.prems by simp_all
  consider "b ! i < m ! i" | "b ! i = m ! i" | "m ! i < b ! i" by (metis neqE)
  then show ?case
  proof cases
    case 1
    then have "unat (b ! i) - 48 + 1 \<le> unat (m ! i) - 48"
      using d by (intro digit_less)
    then have "(unat (b ! i) - 48 + 1) * 10 ^ k \<le> (unat (m ! i) - 48) * 10 ^ k" by (rule mult_le_mono1)
    then show ?thesis using 1 less l Suc.prems(1,2) unfolding w digits_val_Cons by (simp add: rd_def)
  next
    case 2
    then show ?thesis using Suc.IH [of "Suc i"] Suc.prems d l unfolding w digits_val_Cons by (simp add: rd_def)
  next
    case 3
    then have "unat (m ! i) - 48 + 1 \<le> unat (b ! i) - 48"
      using d by (intro digit_less)
    then have "(unat (m ! i) - 48 + 1) * 10 ^ k \<le> (unat (b ! i) - 48) * 10 ^ k" by (rule mult_le_mono1)
    then show ?thesis using 3 less l Suc.prems(1,2) unfolding w digits_val_Cons by (auto simp add: rd_def)
  qed
qed simp

lemma cmp_max_first: "0 < k \<Longrightarrow> cmp_max k i r b m = cmp_max k i True b m"
  by (cases k) auto

text \<open>The digits left when the zeros in front are removed, one zero when nothing else is there.\<close>

definition no_zeros :: "bytes \<Rightarrow> bytes" where
  "no_zeros s = (if list_all (\<lambda>c. c = 0x30) s then [0x30] else dropWhile (\<lambda>c. c = 0x30) s)"

lemma no_zeros_digits: "list_all is_digit (no_zeros s) = list_all is_digit s"
proof -
  have "list_all is_digit (dropWhile (\<lambda>c. c = 0x30) s) = list_all is_digit s"
    by (induction s) (auto simp: is_digit_def)
  moreover have "list_all (\<lambda>c. c = 0x30) s \<Longrightarrow> list_all is_digit s" by (auto simp: list_all_iff is_digit_def)
  ultimately show ?thesis by (auto simp: no_zeros_def is_digit_def)
qed

lemma no_zeros_val: "digits_val (no_zeros s) = digits_val s"
proof (cases "list_all (\<lambda>c. c = 0x30) s")
  case True
  then have "dropWhile (\<lambda>c. c = 0x30) s = []" by (simp add: list_all_iff)
  then have "digits_val s = 0" by (metis digits_val_zeros digits_val_Nil)
  then show ?thesis using True by (simp add: no_zeros_def digits_val_Cons)
next
  case False
  then show ?thesis by (simp add: no_zeros_def digits_val_zeros)
qed

lemma no_zeros_head:
  assumes "list_all is_digit s"
  obtains "no_zeros s = [0x30]" | c t where "no_zeros s = c # t" "is_digit c" "c \<noteq> 0x30" "list_all is_digit t"
proof (cases "list_all (\<lambda>c. c = 0x30) s")
  case True
  then show ?thesis using that(1) by (simp add: no_zeros_def)
next
  case False
  then have "dropWhile (\<lambda>c. c = 0x30) s \<noteq> []" by (auto simp: list_all_iff)
  then obtain c t where c: "dropWhile (\<lambda>c. c = 0x30) s = c # t" by (auto simp only: neq_Nil_conv)
  have "c \<noteq> 0x30" using hd_dropWhile [OF \<open>dropWhile (\<lambda>c. c = 0x30) s \<noteq> []\<close>] unfolding c by simp
  have eq: "no_zeros s = c # t" using False c by (simp add: no_zeros_def)
  moreover have "list_all is_digit (c # t)" using no_zeros_digits [of s] assms unfolding eq by simp
  ultimately show ?thesis using that(2) \<open>c \<noteq> 0x30\<close> by simp
qed


lemma un_max_digits: "list_all is_digit (un_max n)" "un_max n \<noteq> []" "length (un_max n) \<le> 10" "0 \<notin> set (un_max n)"
  by (auto simp: un_max_def is_digit_def)

lemma un_max_val:
  "digits_val (un_max 8) = 2 ^ 8 - 1" "digits_val (un_max 16) = 2 ^ 16 - 1" "digits_val (un_max 32) = 2 ^ 32 - 1"
  by (simp_all add: un_max_def digits_val_def)

lemma un_max_ge: "n \<in> {8, 16, 32} \<Longrightarrow> 10 ^ (length (un_max n) - 1) \<le> digits_val (un_max n)"
  by (auto simp: un_max_def digits_val_def)

text \<open>Comparing with the text of the greatest number, when the number has fewer than 256 digits.\<close>

lemma un_compare:
  assumes "list_all is_digit s" "length (no_zeros s) < 256" "n \<in> {8, 16, 32}"
  shows "(if (of_nat (length (no_zeros s)) :: u8) = of_nat (length (un_max n))
      then cmp_max (unat (of_nat (length (un_max n)) :: u8)) 0 False (no_zeros s @ r) (un_max n @ r')
      else Some (\<not> (of_nat (length (no_zeros s)) :: u8) > of_nat (length (un_max n)))) =
    Some (digits_val s \<le> digits_val (un_max n))"
proof -
  let ?b = "no_zeros s" and ?m = "un_max n"
  have lm: "length ?m < 256" "0 < length ?m" using un_max_digits(2,3) [of n] by auto
  have u: "unat (of_nat (length ?b) :: u8) = length ?b" "unat (of_nat (length ?m) :: u8) = length ?m"
    using assms(2) lm by (simp_all add: unsigned_of_nat take_bit_nat_eq_self)
  have db: "list_all is_digit ?b" using assms(1) no_zeros_digits by simp
  consider "length ?b = length ?m" | "length ?b < length ?m" | "length ?m < length ?b" by linarith
  then show ?thesis
  proof cases
    case 1
    have "cmp_max (length ?m) 0 True (?b @ r) (?m @ r') = Some (digits_val ?b \<le> digits_val ?m)"
      using cmp_max_result [of 0 "length ?m" "?b @ r" "?m @ r'"] 1 db un_max_digits(1) [of n] by simp
    then show ?thesis using 1 u(2) lm cmp_max_first [of "length ?m" 0 False "?b @ r" "?m @ r'"] no_zeros_val [of s] by simp
  next
    case 2
    have "digits_val ?b < 10 ^ length ?b" by (rule digits_val_less [OF db])
    also have "(10 :: nat) ^ length ?b \<le> 10 ^ (length ?m - 1)" using 2 by (intro power_increasing) auto
    also have "\<dots> \<le> digits_val ?m" by (rule un_max_ge [OF assms(3)])
    finally show ?thesis using 2 u no_zeros_val [of s] by (simp add: word_unat_eq_iff word_less_nat_alt)
  next
    case 3
    have "digits_val ?m < 10 ^ length ?m" by (rule digits_val_less [OF un_max_digits(1)])
    moreover have "10 ^ length ?m \<le> digits_val ?b"
    proof (rule no_zeros_head [OF assms(1)])
      assume "?b = [0x30]"
      then show ?thesis using 3 lm by simp
    next
      fix c t assume b: "?b = c # t" "is_digit c" "c \<noteq> 0x30" "list_all is_digit t"
      have "(10 :: nat) ^ length ?m \<le> 10 ^ length t" using 3 b(1) by (intro power_increasing) auto
      also have "\<dots> \<le> digits_val ?b" unfolding b(1) by (rule digits_val_ge [OF b(2,3)])
      finally show ?thesis .
    qed
    ultimately show ?thesis using 3 u no_zeros_val [of s] by (simp add: word_unat_eq_iff word_less_nat_alt)
  qed
qed


lemma strcpy_zeros:
  assumes "0 \<notin> set s" "length s < n"
  shows "strcpy (replicate n 0) (s @ 0 # r) = Some (s @ 0 # replicate (n - Suc (length s)) 0)"
  using assms by (simp add: strcpy_def wr_block_def)

lemma strip_props:
  assumes "0 \<notin> set s"
  shows "0 \<notin> set (strip s)" "length (strip s) \<le> length s"
proof -
  have "set (strip s) \<subseteq> set (dropWhile IS_WHITE_SPACE s)" by (simp add: strip_def set_rstrip)
  then show "0 \<notin> set (strip s)" using assms by (auto dest: set_dropWhileD)
  show "length (strip s) \<le> length s"
    unfolding strip_def by (rule le_trans [OF length_rstrip length_dropWhile_le])
qed

lemma takeWhile_full: "length (takeWhile P s) = length s \<longleftrightarrow> list_all P s"
  by (induction s) auto

lemma no_zeros_nul: "0 \<notin> set s \<Longrightarrow> 0 \<notin> set (no_zeros s)"
  by (auto simp: no_zeros_def dest: set_dropWhileD)

lemma length_no_zeros: "length (no_zeros s) \<le> max 1 (length s)"
  using length_dropWhile_le [of "\<lambda>c. c = 0x30" s] by (auto simp: no_zeros_def)

lemma no_zeros_not_Nil: "no_zeros s \<noteq> []"
  by (auto simp: no_zeros_def list_all_iff)

text \<open>The step that removes the zeros.\<close>

lemma strip_zeros:
  assumes "0 \<notin> set s"
  shows "\<exists>r'. (if length (takeWhile (\<lambda>c. c = 0x30) s) = length s
      then Some ((replicate AT_UTLI_BUF_LEN 0)[0 := 0x30])
      else trim_left_char 0x30 (s @ 0 # r)) = Some (no_zeros s @ 0 # r')"
proof (cases "list_all (\<lambda>c. c = 0x30) s")
  case True
  have "(replicate AT_UTLI_BUF_LEN 0)[0 := 0x30] = [0x30] @ (0 :: u8) # replicate 1022 0"
    unfolding AT_UTLI_BUF_LEN_def by (simp add: list_eq_iff_nth_eq nth_list_update nth_Cons split: nat.split)
  then show ?thesis using True by (auto simp: takeWhile_full no_zeros_def)
next
  case False
  then show ?thesis using trim_left_char_result [OF assms, where ch = "0x30" and r = r] by (simp add: takeWhile_full no_zeros_def)
qed

text \<open>The buffer when the number is checked.\<close>

lemma un_buffer:
  assumes "0 \<notin> set s" "length s < 256"
  shows "\<exists>r' r''. strcpy (replicate AT_UTLI_BUF_LEN 0) (s @ 0 # r) = Some (s @ 0 # replicate (1023 - length s) 0) \<and>
    trim (s @ 0 # replicate (1023 - length s) 0) = Some (strip s @ 0 # r') \<and>
    (if length (takeWhile (\<lambda>c. c = 0x30) (strip s)) = length (strip s)
      then Some ((replicate AT_UTLI_BUF_LEN 0)[0 := 0x30])
      else trim_left_char 0x30 (strip s @ 0 # r')) = Some (no_zeros (strip s) @ 0 # r'')"
proof -
  have "strcpy (replicate AT_UTLI_BUF_LEN 0) (s @ 0 # r) = Some (s @ 0 # replicate (1023 - length s) 0)"
    using strcpy_zeros [of s 1024 r] assms by (simp add: AT_UTLI_BUF_LEN_def)
  moreover obtain r' where "trim (s @ 0 # replicate (1023 - length s) 0) = Some (strip s @ 0 # r')"
    using trim_large [OF assms(1), of "replicate (1023 - length s) 0"] assms(2) by (auto simp: le_diff_conv2)
  moreover obtain r'' where "(if length (takeWhile (\<lambda>c. c = 0x30) (strip s)) = length (strip s)
      then Some ((replicate AT_UTLI_BUF_LEN 0)[0 := 0x30])
      else trim_left_char 0x30 (strip s @ 0 # r')) = Some (no_zeros (strip s) @ 0 # r'')"
    using strip_zeros [OF strip_props(1) [OF assms(1)]] by blast
  ultimately show ?thesis by blast
qed

lemma un_check_result:
  assumes "0 \<notin> set s" "length s < 256" "n \<in> {8, 16, 32}"
  shows "AT_Util_CheckValidUn (Some (s @ 0 # r)) n =
    Some (list_all is_digit (strip s) \<and> digits_val (strip s) < 2 ^ unat n)"
proof -
  let ?t = "strip s"
  obtain r' r'' where b: "strcpy (replicate AT_UTLI_BUF_LEN 0) (s @ 0 # r) = Some (s @ 0 # replicate (1023 - length s) 0)"
    "trim (s @ 0 # replicate (1023 - length s) 0) = Some (?t @ 0 # r')"
    "(if length (takeWhile (\<lambda>c. c = 0x30) ?t) = length ?t
      then Some ((replicate AT_UTLI_BUF_LEN 0)[0 := 0x30])
      else trim_left_char 0x30 (?t @ 0 # r')) = Some (no_zeros ?t @ 0 # r'')"
    using un_buffer [OF assms(1,2)] by blast
  have t: "0 \<notin> set ?t" "length ?t < 256" using strip_props [OF assms(1)] assms(2) by auto
  have z: "zero_loop (length ?t) 0 (?t @ 0 # r') = Some (length (takeWhile (\<lambda>c. c = 0x30) ?t))"
    using zero_loop_result [of 0 "length ?t" "?t @ 0 # r'"] by simp
  have max: "strcpy (replicate 11 0) (un_max n @ [0]) = Some (un_max n @ 0 # replicate (11 - Suc (length (un_max n))) 0)"
    using un_max_digits(3,4) [of n] by (intro strcpy_zeros) auto
  have num: "AT_Util_IsStringNumeric (Some (no_zeros ?t @ 0 # r'')) = Some (list_all is_digit ?t)"
    using is_string_numeric [OF no_zeros_nul [OF t(1)]] no_zeros_not_Nil no_zeros_digits [of ?t] by (simp add: list_all_iff)
  have small: "\<not> length s > AT_UTLI_BUF_LEN" using assms(2) by (simp add: AT_UTLI_BUF_LEN_def)
  show ?thesis
  proof (cases "list_all is_digit ?t")
    case False
    then show ?thesis using assms(1) t(1) b z num small by (simp add: AT_Util_CheckValidUn_def)
  next
    case True
    have "length (no_zeros ?t) < 256" using length_no_zeros [of ?t] t(2) by simp
    note c = un_compare [OF True this assms(3), of "0 # r''" "0 # replicate (10 - length (un_max n)) 0"]
    have "digits_val ?t \<le> digits_val (un_max n) \<longleftrightarrow> digits_val ?t < 2 ^ unat n"
      using assms(3) un_max_val by auto
    then show ?thesis
      using True assms(1) t(1) b z num small max c un_max_digits(4) [of n] no_zeros_nul [OF t(1)]
      by (simp add: AT_Util_CheckValidUn_def Let_def)
  qed
qed

text \<open>A string of fewer than 256 characters is a valid number of 8, 16 or 32 bits exactly when, without
  white space at its ends, it consists of digits whose value fits (so the empty string is one).\<close>

theorem un_checked:
  assumes "0 \<notin> set s" "length s < 256" "n \<in> {8, 16, 32}"
  shows "AT_Util_CheckValidUn (Some (s @ 0 # r)) n =
    Some (list_all is_digit (strip s) \<and> digits_val (strip s) < 2 ^ unat n)"
  by (rule un_check_result [OF assms])

lemma un_checked_witness: "AT_Util_CheckValidUn (Some [0x20, 0x32, 0x35, 0x35, 0x0d, 0]) 8 = Some True \<and>
  AT_Util_CheckValidUn (Some [0x32, 0x35, 0x36, 0]) 8 = Some False"
proof -
  have "strip [0x20, 0x32, 0x35, 0x35, 0x0d] = [0x32, 0x35, 0x35]" "strip [0x32, 0x35, 0x36] = [0x32, 0x35, 0x36]"
    by (simp_all add: strip_def rstrip_def IS_WHITE_SPACE_def)
  then show ?thesis using un_checked [of "[0x20, 0x32, 0x35, 0x35, 0x0d]" 8 "[]"] un_checked [of "[0x32, 0x35, 0x36]" 8 "[]"]
    by (simp add: is_digit_def digits_val_def)
qed

text \<open>A string of exactly 1024 characters passes the check of its length and is copied with its NUL
  to the buffer of 1024 bytes, past its end.\<close>

theorem un_checked_overflow:
  assumes "0 \<notin> set s" "length s = 1024"
  shows "AT_Util_CheckValidUn (Some (s @ 0 # r)) n = None"
  using assms by (simp add: AT_Util_CheckValidUn_def AT_UTLI_BUF_LEN_def strcpy_def wr_block_def)

lemma un_checked_overflow_witness: "AT_Util_CheckValidUn (Some (replicate 1024 0x31 @ 0 # [])) 8 = None"
  by (rule un_checked_overflow) simp_all

text \<open>With 256 digits the length wraps to 0 and the number passes as one of eight bits.\<close>

theorem un_checked_wraps:
  assumes "list_all is_digit s" "hd s \<noteq> 0x30" "length s = 256"
  shows "AT_Util_CheckValidUn (Some (s @ 0 # r)) 8 = Some True"
proof -
  have nul: "0 \<notin> set s" and ws: "\<forall>c \<in> set s. \<not> IS_WHITE_SPACE c"
    using assms(1) by (auto simp: list_all_iff is_digit_def IS_WHITE_SPACE_def)
  have ne: "s \<noteq> []" using assms(3) by auto
  have s1: "dropWhile IS_WHITE_SPACE s = s" using ws ne by (cases s) auto
  have "rstrip s = s" using ws ne by (cases s rule: rev_cases) auto
  then have strip: "strip s = s" by (simp add: strip_def s1)
  obtain r' where trim: "trim (s @ 0 # replicate (1023 - length s) 0) = Some (s @ 0 # r')"
    using trim_large [of s "replicate (1023 - length s) 0"] nul assms(3) by (auto simp: strip)
  have cp: "strcpy (replicate AT_UTLI_BUF_LEN 0) (s @ 0 # r) = Some (s @ 0 # replicate (1023 - length s) 0)"
    using strcpy_zeros [of s 1024 r] nul assms(3) by (simp add: AT_UTLI_BUF_LEN_def)
  obtain c t where ct: "s = c # t" using ne by (cases s) auto
  have z: "zero_loop (length s) 0 (s @ 0 # r') = Some 0"
    using zero_loop_result [of 0 "length s" "s @ 0 # r'"] assms(2) by (simp add: ct)
  have tl: "trim_left_char 0x30 (s @ 0 # r') = Some (s @ 0 # drop (Suc (length s)) (s @ 0 # r'))"
    using trim_left_char_result [OF nul, where ch = "0x30" and r = r'] assms(2) by (simp add: ct)
  have max: "strcpy (replicate 11 0) (un_max 8 @ [0]) = Some (un_max 8 @ 0 # replicate (11 - Suc (length (un_max 8))) 0)"
    using un_max_digits(3,4) [of 8] by (intro strcpy_zeros) auto
  have num: "AT_Util_IsStringNumeric (Some (s @ 0 # drop (Suc (length s)) (s @ 0 # r'))) = Some True"
    using is_string_numeric [OF nul] assms(1) ne by (simp add: list_all_iff)
  have l3: "length (un_max 8) = 3" by (simp add: un_max_def)
  show ?thesis
    using nul cp trim z tl max num un_max_digits(4) [of 8] assms(3) ne l3
    by (simp add: AT_Util_CheckValidUn_def AT_UTLI_BUF_LEN_def Let_def del: append_Cons drop_append)
qed

lemma un_checked_wraps_witness: "AT_Util_CheckValidUn (Some (replicate 256 0x31 @ 0 # [])) 8 = Some True"
  by (rule un_checked_wraps) (simp_all add: is_digit_def list_all_iff)

end
