(* ===== verification/Str_Para.thy ===== *)
theory Str_Para
  imports Str_Num
begin

text \<open>
  Lists of parameters (at_utility.c): splitting a string at the commas that are outside of
  quotes and reading one parameter as text or as a number. At most 16 parameters are recorded,
  by start and length in 16 bits.
\<close>

section \<open>The model\<close>

definition AT_UTIL_NR_PARA :: nat where
  "AT_UTIL_NR_PARA = 16"

datatype util_err = ERR_SUCCESS | ERR_AT_UTIL_TOO_MANY_CMD_PARA | ERR_AT_UTIL_PARA_ERROR
  | ERR_AT_UTIL_FAILED | ERR_AT_UTIL_CMD_PARA_NULL

datatype AT_UTIL_PARA_TYPE = AT_UTIL_PARA_TYPE_UINT8 | AT_UTIL_PARA_TYPE_UINT16
  | AT_UTIL_PARA_TYPE_UINT32 | AT_UTIL_PARA_TYPE_STRING

record PARA_POS =
  pos_begin :: u16
  pos_len :: u16

record PARA =
  uParaNum :: nat
  sParaPos :: "PARA_POS list"

text \<open>What \<open>AT_MemSet\<close> leaves.\<close>

definition no_para :: PARA where
  "no_para = \<lparr>uParaNum = 0, sParaPos = replicate AT_UTIL_NR_PARA \<lparr>pos_begin = 0, pos_len = 0\<rparr>\<rparr>"

text \<open>The places are given as offsets in the string.\<close>

definition save_para :: "PARA \<Rightarrow> nat \<Rightarrow> nat \<Rightarrow> (util_err \<times> PARA) option" where
  "save_para pResult uBegin uForward =
     (if uParaNum pResult < AT_UTIL_NR_PARA then do {
        pos \<leftarrow> wr (sParaPos pResult) (uParaNum pResult)
          \<lparr>pos_begin = of_nat uBegin, pos_len = of_nat (uForward - uBegin)\<rparr>;
        Some (ERR_SUCCESS, pResult\<lparr>sParaPos := pos, uParaNum := uParaNum pResult + 1\<rparr>) }
      else Some (ERR_AT_UTIL_TOO_MANY_CMD_PARA, pResult))"

text \<open>
  The loop, with the state \<open>iStatus\<close>: 0 outside of quotes, 1 behind a comma, 2 inside of
  quotes, 3 behind the NUL.
\<close>

function parser_loop :: "nat \<Rightarrow> nat \<Rightarrow> nat \<Rightarrow> PARA \<Rightarrow> bytes \<Rightarrow> (util_err \<times> PARA) option" where
  "parser_loop iStatus begin forward r m =
     (if iStatus = 0 then do {
        c \<leftarrow> rd m forward;
        parser_loop (if c = 0x22 then 2 else if c = 0 then 3 else if c = 0x2c then 1 else 0)
          begin (forward + 1) r m }
      else if iStatus = 1 then do {
        (e, r) \<leftarrow> save_para r begin (forward - 1);
        if e \<noteq> ERR_SUCCESS then Some (e, r) else parser_loop 0 forward forward r m }
      else if iStatus = 2 then do {
        c \<leftarrow> rd m forward;
        parser_loop (if c = 0x22 then 0 else if c = 0 then 3 else 2) begin (forward + 1) r m }
      else do {
        (e, r) \<leftarrow> save_para r begin (forward - 1);
        Some (e, r) })"
  by pat_completeness auto
termination
  by (relation "measure (\<lambda>(s, b, f, r, m). 2 * (length m - f) + (if s = 1 then 1 else 0))")
    (auto simp: rd_eq_Some)

definition AT_Util_ParaParser :: "PARA \<Rightarrow> bytes \<Rightarrow> (util_err \<times> PARA \<times> bytes) option" where
  "AT_Util_ParaParser pResult pPara = do {
     m \<leftarrow> trim_left pPara;
     n \<leftarrow> c_strlen m;
     if n = 0 then Some (ERR_SUCCESS, pResult\<lparr>uParaNum := 0\<rparr>, m)
     else do { (e, r) \<leftarrow> parser_loop 0 0 0 pResult m; Some (e, r, m) } }"

text \<open>The result is the error code, the list as it is afterwards, and the count.\<close>

definition AT_Util_GetParaCount :: "bytes \<Rightarrow> (util_err \<times> bytes \<times> u8) option" where
  "AT_Util_GetParaCount pPara = do {
     (e, r, m) \<leftarrow> AT_Util_ParaParser no_para pPara;
     Some (if e \<noteq> ERR_SUCCESS then (e, m, 0) else (ERR_SUCCESS, m, of_nat (uParaNum r))) }"

text \<open>
  Reading parameter \<open>iIndex\<close> of the list into \<open>pParam\<close>, whose size is \<open>pLen\<close>. The result is
  the error code, the list and the target as they are afterwards, and the length.
\<close>

type_synonym para_result = "util_err \<times> bytes \<times> bytes \<times> u16"

definition AT_Util_GetPara :: "bytes \<Rightarrow> u8 \<Rightarrow> bytes \<Rightarrow> u16 \<Rightarrow> para_result option" where
  "AT_Util_GetPara pRes iIndex pParam pLen = do {
     (e, result, m) \<leftarrow> AT_Util_ParaParser no_para pRes;
     if e \<noteq> ERR_SUCCESS then Some (ERR_AT_UTIL_PARA_ERROR, m, pParam, 0)
     else if uParaNum result = 0 then Some (ERR_AT_UTIL_PARA_ERROR, m, pParam, 0)
     else do {
       pos \<leftarrow> rd (sParaPos result) (unat iIndex);
       if pLen \<le> pos_len pos then Some (ERR_AT_UTIL_PARA_ERROR, m, pParam, pLen)
       else if unat iIndex \<le> uParaNum result then do {
         t \<leftarrow> wr_block pParam 0 (replicate (unat pLen) 0);
         src \<leftarrow> rd_block m (unat (pos_begin pos)) (unat (pos_len pos));
         t \<leftarrow> wr_block t 0 src;
         Some (ERR_SUCCESS, m, t, pos_len pos) }
       else Some (ERR_AT_UTIL_PARA_ERROR, m, pParam, pLen) } }"

definition AT_Util_GetTrimedPara :: "bytes \<Rightarrow> u8 \<Rightarrow> bytes \<Rightarrow> u16 \<Rightarrow> para_result option" where
  "AT_Util_GetTrimedPara pRes iIndex pPara pLen = do {
     (e, m, t, l) \<leftarrow> AT_Util_GetPara pRes iIndex pPara pLen;
     if e \<noteq> ERR_SUCCESS then Some (e, m, t, l)
     else do {
       t \<leftarrow> trim t;
       n \<leftarrow> c_strlen t;
       Some (ERR_SUCCESS, m, t, of_nat n) } }"

text \<open>The quotes around a text are removed, in place.\<close>

definition unquote :: "bytes \<Rightarrow> u16 \<Rightarrow> u16 \<Rightarrow> (bytes \<times> u16) option" where
  "unquote t iParamLen pLen = do {
     last \<leftarrow> rd t (unat iParamLen - 1);
     t \<leftarrow> (if last = 0x22 then wr t (unat iParamLen - 1) 0 else Some t);
     c \<leftarrow> rd t 0;
     let p = (if c = 0x22 then 1 else 0);
     c \<leftarrow> rd t p;
     if c = 0 then do { t \<leftarrow> wr_block t 0 (replicate (unat pLen) 0); Some (t, 0) }
     else do { t \<leftarrow> strcpy_down t p; n \<leftarrow> c_strlen t; Some (t, of_nat n) } }"

definition para_string :: "bytes \<Rightarrow> u8 \<Rightarrow> bytes \<Rightarrow> u16 \<Rightarrow> para_result option" where
  "para_string pRes iIndex pPara pLen = do {
     (e, m, t, l) \<leftarrow> AT_Util_GetTrimedPara pRes iIndex pPara pLen;
     if e \<noteq> ERR_SUCCESS then Some (e, m, t, pLen)
     else do {
       n \<leftarrow> c_strlen t;
       let iParamLen = (of_nat n :: u16);
       if iParamLen = 0 then do {
         t \<leftarrow> wr_block t 0 (replicate (unat pLen) 0);
         Some (ERR_AT_UTIL_CMD_PARA_NULL, m, t, 0) }
       else do {
         ok \<leftarrow> AT_Util_CheckValidateString (Some t);
         if ok then do { (t, l) \<leftarrow> unquote t iParamLen pLen; Some (ERR_SUCCESS, m, t, l) }
         else do {
           t \<leftarrow> wr_block t 0 (replicate (unat pLen) 0);
           Some (ERR_AT_UTIL_FAILED, m, t, 0) } } } }"

text \<open>A value of \<open>k\<close> bytes in memory, least significant first.\<close>

fun int_bytes :: "nat \<Rightarrow> int \<Rightarrow> bytes" where
  "int_bytes 0 v = []"
| "int_bytes (Suc k) v = of_int v # int_bytes k (v div 256)"

definition store_number :: "bytes \<Rightarrow> bytes \<Rightarrow> u16 \<Rightarrow> bytes \<Rightarrow> u8 \<Rightarrow> nat \<Rightarrow> para_result option" where
  "store_number m pPara pLen szNum bits k =
     (if unat pLen \<noteq> k then Some (ERR_AT_UTIL_PARA_ERROR, m, pPara, pLen)
      else do {
        ok \<leftarrow> AT_Util_CheckValidUn (Some szNum) bits;
        if ok then do {
          v \<leftarrow> atoi (cstr szNum);
          t \<leftarrow> wr_block pPara 0 (int_bytes k v);
          Some (ERR_SUCCESS, m, t, pLen) }
        else Some (ERR_AT_UTIL_FAILED, m, pPara, pLen) })"

definition para_number :: "bytes \<Rightarrow> u8 \<Rightarrow> AT_UTIL_PARA_TYPE \<Rightarrow> bytes \<Rightarrow> u16 \<Rightarrow> para_result option" where
  "para_number pRes iIndex eType pPara pLen = do {
     (e, m, szNum, l) \<leftarrow> AT_Util_GetTrimedPara pRes iIndex (replicate AT_UTLI_BUF_LEN 0) 1024;
     if e \<noteq> ERR_SUCCESS then Some (e, m, pPara, pLen)
     else do {
       n \<leftarrow> c_strlen szNum;
       if n = 0 then Some (ERR_AT_UTIL_CMD_PARA_NULL, m, pPara, pLen)
       else case eType of
         AT_UTIL_PARA_TYPE_UINT8 \<Rightarrow> store_number m pPara pLen szNum 8 1
       | AT_UTIL_PARA_TYPE_UINT16 \<Rightarrow> store_number m pPara pLen szNum 16 2
       | AT_UTIL_PARA_TYPE_UINT32 \<Rightarrow> store_number m pPara pLen szNum 32 4
       | _ \<Rightarrow> Some (ERR_AT_UTIL_PARA_ERROR, m, pPara, pLen) } }"

text \<open>With pointers that may be \<open>NULL\<close>; a parameter of the result is what the pointer shows.\<close>

definition AT_Util_GetParaWithRule ::
  "bytes option \<Rightarrow> u8 \<Rightarrow> AT_UTIL_PARA_TYPE \<Rightarrow> bytes option \<Rightarrow> u16 option \<Rightarrow>
   (util_err \<times> (bytes \<times> bytes \<times> u16) option) option" where
  "AT_Util_GetParaWithRule pRes iIndex eType pPara pLen =
     (case (pRes, pPara, pLen) of
        (Some m, Some t, Some l) \<Rightarrow>
          if l = 0 then Some (ERR_AT_UTIL_PARA_ERROR, Some (m, t, l))
          else if eType = AT_UTIL_PARA_TYPE_STRING
          then map_option (\<lambda>(e, x). (e, Some x)) (para_string m iIndex t l)
          else map_option (\<lambda>(e, x). (e, Some x)) (para_number m iIndex eType t l)
      | _ \<Rightarrow> Some (ERR_AT_UTIL_PARA_ERROR, None))"

section \<open>Splitting\<close>

declare parser_loop.simps [simp del]

text \<open>The parameters of a string: \<open>q\<close> says whether a quote is open, \<open>cur\<close> is the current one.\<close>

fun split_para :: "bool \<Rightarrow> bytes \<Rightarrow> bytes \<Rightarrow> bytes list" where
  "split_para q cur [] = [cur]"
| "split_para q cur (c # s) =
     (if q then split_para (c \<noteq> 0x22) (cur @ [c]) s
      else if c = 0x2c then cur # split_para False [] s
      else split_para (c = 0x22) (cur @ [c]) s)"

fun spans :: "nat \<Rightarrow> bytes list \<Rightarrow> PARA_POS list" where
  "spans b [] = []"
| "spans b (f # fs) =
     \<lparr>pos_begin = of_nat b, pos_len = of_nat (length f)\<rparr> # spans (b + length f + 1) fs"

definition add_paras :: "PARA \<Rightarrow> PARA_POS list \<Rightarrow> PARA" where
  "add_paras r ps = r\<lparr>uParaNum := uParaNum r + length ps,
     sParaPos := take (uParaNum r) (sParaPos r) @ ps @ drop (uParaNum r + length ps) (sParaPos r)\<rparr>"

definition para_list_ok :: "PARA \<Rightarrow> bool" where
  "para_list_ok r \<longleftrightarrow> uParaNum r \<le> AT_UTIL_NR_PARA \<and> length (sParaPos r) = AT_UTIL_NR_PARA"

lemma length_spans [simp]: "length (spans b fs) = length fs"
  by (induction fs arbitrary: b) auto

lemma add_paras_Nil [simp]: "add_paras r [] = r"
  by (simp add: add_paras_def)

lemma save_para_result:
  "para_list_ok r \<Longrightarrow> save_para r b f =
     Some (if uParaNum r < AT_UTIL_NR_PARA
       then (ERR_SUCCESS, add_paras r [\<lparr>pos_begin = of_nat b, pos_len = of_nat (f - b)\<rparr>])
       else (ERR_AT_UTIL_TOO_MANY_CMD_PARA, r))"
  by (auto simp: save_para_def para_list_ok_def add_paras_def wr_def upd_conv_take_nth_drop)

lemma add_paras_ok:
  "para_list_ok r \<Longrightarrow> uParaNum r < AT_UTIL_NR_PARA \<Longrightarrow> para_list_ok (add_paras r [x])"
  by (simp add: para_list_ok_def add_paras_def)

lemma add_paras_Cons:
  "para_list_ok r \<Longrightarrow> uParaNum r < AT_UTIL_NR_PARA \<Longrightarrow>
     add_paras (add_paras r [x]) ps = add_paras r (x # ps)"
  by (simp add: para_list_ok_def add_paras_def min_absorb2 ac_simps)

lemma uParaNum_add [simp]: "uParaNum (add_paras r ps) = uParaNum r + length ps"
  by (simp add: add_paras_def)

definition parse_end :: "PARA \<Rightarrow> PARA_POS list \<Rightarrow> util_err \<times> PARA" where
  "parse_end r ps =
     (if uParaNum r + length ps \<le> AT_UTIL_NR_PARA then ERR_SUCCESS else ERR_AT_UTIL_TOO_MANY_CMD_PARA,
      add_paras r (take (AT_UTIL_NR_PARA - uParaNum r) ps))"

lemma parse_end_Cons:
  assumes "para_list_ok r"
  shows "parse_end r (x # ps) = (if uParaNum r < AT_UTIL_NR_PARA then parse_end (add_paras r [x]) ps
     else (ERR_AT_UTIL_TOO_MANY_CMD_PARA, r))"
proof (cases "uParaNum r < AT_UTIL_NR_PARA")
  case True
  then obtain k where "AT_UTIL_NR_PARA - uParaNum r = Suc k" by (metis Suc_diff_Suc)
  moreover from this have "AT_UTIL_NR_PARA - Suc (uParaNum r) = k" by simp
  ultimately show ?thesis using True add_paras_Cons [OF assms True] by (auto simp: parse_end_def)
next
  case False
  then show ?thesis using assms by (auto simp: parse_end_def para_list_ok_def)
qed

lemma parser_loop_3:
  "para_list_ok r \<Longrightarrow> parser_loop 3 b (Suc f) r m =
     Some (parse_end r [\<lparr>pos_begin = of_nat b, pos_len = of_nat (f - b)\<rparr>])"
  by (subst parser_loop.simps) (auto simp: save_para_result parse_end_Cons parse_end_def)

lemma parser_loop_result:
  assumes "0 \<notin> set s" "drop fwd m = s @ 0 # rest" "b + length cur = fwd" "para_list_ok r"
  shows "parser_loop (if q then 2 else 0) b fwd r m = Some (parse_end r (spans b (split_para q cur s)))"
  using assms
proof (induction s arbitrary: q fwd b cur r)
  case Nil
  then have "fwd < length m" "m ! fwd = 0" by (metis drop_all linorder_not_less list.distinct(1) append_Nil, metis append_Nil nth_via_drop)
  then have "parser_loop (if q then 2 else 0) b fwd r m = parser_loop 3 b (Suc fwd) r m"
    by (subst parser_loop.simps) (auto simp: rd_def)
  then show ?case using Nil.prems by (auto simp: parser_loop_3)
next
  case (Cons c s)
  then have m: "fwd < length m" "m ! fwd = c" "drop (Suc fwd) m = s @ 0 # rest"
    by (metis append_Cons drop_all linorder_not_less list.distinct(1), metis append_Cons nth_via_drop,
        metis append_Cons drop_Suc list.sel(3) tl_drop)
  have step: "parser_loop (if q' then 2 else 0) b (Suc fwd) r m =
      Some (parse_end r (spans b (split_para q' (cur @ [c]) s)))" for q'
    using Cons.IH [of "Suc fwd" b "cur @ [c]" r q'] Cons.prems m by simp
  show ?case
  proof (cases "\<not> q \<and> c = 0x2c")
    case True
    have next_para: "para_list_ok r' \<Longrightarrow> parser_loop 0 (Suc fwd) (Suc fwd) r' m =
        Some (parse_end r' (spans (Suc fwd) (split_para False [] s)))" for r'
      using Cons.IH [of "Suc fwd" "Suc fwd" "[]" r' False] Cons.prems m by simp
    have "parser_loop (if q then 2 else 0) b fwd r m = parser_loop 1 b (Suc fwd) r m"
      using True m by (subst parser_loop.simps) (simp add: rd_def)
    also have "\<dots> = Some (parse_end r (spans b (cur # split_para False [] s)))"
      using next_para add_paras_ok Cons.prems(3,4)
      by (subst parser_loop.simps) (auto simp: save_para_result parse_end_Cons)
    finally show ?thesis using True by simp
  next
    case False
    have "c \<noteq> 0" using Cons.prems by auto
    then have "parser_loop (if q then 2 else 0) b fwd r m =
        parser_loop (if (if q then c \<noteq> 0x22 else c = 0x22) then 2 else 0) b (Suc fwd) r m"
      using False m by (subst parser_loop.simps) (auto simp: rd_def)
    then show ?thesis using False step by (cases q) simp_all
  qed
qed


lemma no_para_ok [simp]: "para_list_ok no_para" "uParaNum no_para = 0"
  by (simp_all add: para_list_ok_def no_para_def)

text \<open>The list of parameters of a string that does not start with white space.\<close>

lemma para_parser_result:
  assumes "0 \<notin> set s" "s \<noteq> []" "\<not> IS_WHITE_SPACE (hd s)" "para_list_ok r"
  shows "AT_Util_ParaParser r (s @ 0 # rest) =
    (case parse_end r (spans 0 (split_para False [] s)) of (e, r) \<Rightarrow> Some (e, r, s @ 0 # rest))"
proof -
  have "dropWhile IS_WHITE_SPACE s = s" using assms(2,3) by (cases s) auto
  then have "trim_left (s @ 0 # rest) = Some (s @ 0 # rest)"
    using trim_left_result [OF assms(1), of rest] by simp
  moreover have "parser_loop 0 0 0 r (s @ 0 # rest) = Some (parse_end r (spans 0 (split_para False [] s)))"
    using parser_loop_result [OF assms(1), of 0 "s @ 0 # rest" rest 0 "[]" r False] assms(4) by simp
  ultimately show ?thesis using assms(1,2) by (simp add: AT_Util_ParaParser_def split: prod.splits)
qed

text \<open>A parameter as it may be written: no comma outside of quotes, and the quotes are closed.\<close>

fun quoting :: "bool \<Rightarrow> bytes \<Rightarrow> bool option" where
  "quoting q [] = Some q"
| "quoting q (c # s) =
     (if q then quoting (c \<noteq> 0x22) s
      else if c = 0x2c then None
      else quoting (c = 0x22) s)"

definition para_ok :: "bytes \<Rightarrow> bool" where
  "para_ok s \<longleftrightarrow> quoting False s = Some False \<and> 0 \<notin> set s"

fun join_para :: "bytes list \<Rightarrow> bytes" where
  "join_para [] = []"
| "join_para [f] = f"
| "join_para (f # fs) = f @ 0x2c # join_para fs"

lemma split_para_field:
  "quoting q f = Some False \<Longrightarrow> split_para q cur (f @ 0x2c # s) = (cur @ f) # split_para False [] s"
  by (induction f arbitrary: q cur) (auto split: if_splits)

lemma split_para_last: "quoting q f = Some q' \<Longrightarrow> split_para q cur f = [cur @ f]"
  by (induction f arbitrary: q cur) (auto split: if_splits)

lemma split_join:
  "fs \<noteq> [] \<Longrightarrow> list_all para_ok fs \<Longrightarrow> split_para False [] (join_para fs) = fs"
  by (induction fs rule: join_para.induct) (auto simp: para_ok_def split_para_field split_para_last)

lemma join_nul: "list_all para_ok fs \<Longrightarrow> 0 \<notin> set (join_para fs)"
  by (induction fs rule: join_para.induct) (auto simp: para_ok_def)

text \<open>Where parameter \<open>i\<close> starts.\<close>

definition para_start :: "bytes list \<Rightarrow> nat \<Rightarrow> nat" where
  "para_start fs i = (\<Sum>f \<leftarrow> take i fs. length f + 1)"

lemma spans_nth:
  "i < length fs \<Longrightarrow> spans b fs ! i =
     \<lparr>pos_begin = of_nat (b + para_start fs i), pos_len = of_nat (length (fs ! i))\<rparr>"
  by (induction fs arbitrary: b i) (auto simp: para_start_def nth_Cons ac_simps split: nat.split)

lemma join_Cons: "fs \<noteq> [] \<Longrightarrow> join_para (f # fs) = f @ 0x2c # join_para fs"
  by (cases fs) auto

lemma join_at:
  "i < length fs \<Longrightarrow> take (length (fs ! i)) (drop (para_start fs i) (join_para fs @ r)) = fs ! i \<and>
     para_start fs i + length (fs ! i) \<le> length (join_para fs)"
proof (induction fs arbitrary: i)
  case (Cons f fs)
  show ?case
  proof (cases i)
    case 0
    then show ?thesis by (cases fs) (auto simp: para_start_def)
  next
    case (Suc k)
    then have "fs \<noteq> []" using Cons.prems by auto
    then show ?thesis using Cons.IH [of k] Cons.prems Suc by (auto simp: para_start_def join_Cons)
  qed
qed simp

lemma spans_past: "length fs \<le> i \<Longrightarrow> i < 16 \<Longrightarrow>
  (sParaPos (add_paras no_para (spans b fs))) ! i = \<lparr>pos_begin = 0, pos_len = 0\<rparr>"
  by (simp add: add_paras_def no_para_def AT_UTIL_NR_PARA_def nth_append)

text \<open>What a joined list is parsed into.\<close>

lemma parse_joined:
  assumes "fs \<noteq> []" "list_all para_ok fs" "join_para fs \<noteq> []" "\<not> IS_WHITE_SPACE (hd (join_para fs))"
  shows "AT_Util_ParaParser no_para (join_para fs @ 0 # r) =
    (if length fs \<le> 16 then Some (ERR_SUCCESS, add_paras no_para (spans 0 fs), join_para fs @ 0 # r)
     else Some (ERR_AT_UTIL_TOO_MANY_CMD_PARA, add_paras no_para (take 16 (spans 0 fs)), join_para fs @ 0 # r))"
  using para_parser_result [OF join_nul [OF assms(2)] assms(3,4), of no_para r] split_join [OF assms(1,2)]
  by (simp add: parse_end_def AT_UTIL_NR_PARA_def)

lemma get_para_at:
  assumes "list_all para_ok fs" "join_para fs \<noteq> []" "\<not> IS_WHITE_SPACE (hd (join_para fs))"
    and "unat i < length fs" "length (join_para fs) < 2 ^ 16"
    and "length (fs ! unat i) < unat l" "unat l \<le> length t"
  shows "AT_Util_GetPara (join_para fs @ 0 # r) i t l =
      (if length fs \<le> 16
       then Some (ERR_SUCCESS, join_para fs @ 0 # r,
         fs ! unat i @ replicate (unat l - length (fs ! unat i)) 0 @ drop (unat l) t, of_nat (length (fs ! unat i)))
       else Some (ERR_AT_UTIL_PARA_ERROR, join_para fs @ 0 # r, t, 0)) \<and>
    AT_Util_GetParaCount (join_para fs @ 0 # r) =
      (if length fs \<le> 16 then Some (ERR_SUCCESS, join_para fs @ 0 # r, of_nat (length fs))
       else Some (ERR_AT_UTIL_TOO_MANY_CMD_PARA, join_para fs @ 0 # r, 0))"
proof -
  let ?f = "fs ! unat i"
  have ne: "fs \<noteq> []" using assms(4) by auto
  note p = parse_joined [OF ne assms(1-3), of r]
  show ?thesis
  proof (cases "length fs \<le> 16")
    case False
    then show ?thesis using p by (simp add: AT_Util_GetPara_def AT_Util_GetParaCount_def)
  next
    case True
    note j = join_at [OF assms(4), of "0 # r"]
    have small: "para_start fs (unat i) < 2 ^ 16" "length ?f < 2 ^ 16" 
    using conjunct2 [OF j] assms(5) by (meson add_leD1 add_leD2 le_less_trans)+
    then have u: "unat (of_nat (para_start fs (unat i)) :: u16) = para_start fs (unat i)"
      "unat (of_nat (length ?f) :: u16) = length ?f"
      by (simp_all add: unsigned_of_nat take_bit_nat_eq_self)
    have "rd (sParaPos (add_paras no_para (spans 0 fs))) (unat i) =
        Some \<lparr>pos_begin = of_nat (para_start fs (unat i)), pos_len = of_nat (length ?f)\<rparr>"
      using assms(4) True spans_nth [OF assms(4), of 0]
      by (simp add: rd_def add_paras_def nth_append no_para_def AT_UTIL_NR_PARA_def)
    note pos = this
    have less: "\<not> l \<le> of_nat (length ?f)" using assms(6) u(2) by (simp add: word_le_nat_alt)
    have clear: "wr_block t 0 (replicate (unat l) 0) = Some (replicate (unat l) 0 @ drop (unat l) t)"
      using assms(7) by (simp add: wr_block_def)
    have src: "rd_block (join_para fs @ 0 # r) (para_start fs (unat i)) (length ?f) = Some ?f"
      using conjunct1 [OF j] conjunct2 [OF j] by (simp add: rd_block_def del: drop_append take_append)
    have copy: "wr_block (replicate (unat l) 0 @ drop (unat l) t) 0 ?f =
        Some (?f @ replicate (unat l - length ?f) 0 @ drop (unat l) t)"
      using assms(6,7) by (simp add: wr_block_def)
    have parsed: "AT_Util_ParaParser no_para (join_para fs @ 0 # r) =
        Some (ERR_SUCCESS, add_paras no_para (spans 0 fs), join_para fs @ 0 # r)"
      using p True by simp
    have "length fs \<noteq> 0" "unat i \<le> length fs" using ne assms(4) by simp_all
    then have "AT_Util_GetPara (join_para fs @ 0 # r) i t l = Some (ERR_SUCCESS, join_para fs @ 0 # r,
        ?f @ replicate (unat l - length ?f) 0 @ drop (unat l) t, of_nat (length ?f))"
      unfolding AT_Util_GetPara_def parsed by (simp add: pos less clear src copy u)
    moreover have "AT_Util_GetParaCount (join_para fs @ 0 # r) = Some (ERR_SUCCESS, join_para fs @ 0 # r, of_nat (length fs))"
      unfolding AT_Util_GetParaCount_def parsed by simp
    ultimately show ?thesis using True by simp
  qed
qed

text \<open>In a list of at most 16 parameters joined by commas, the parameter with a given index is read as
  it was written, into a larger buffer that is filled with zeros; a list of more is refused, and
  its count is 0.\<close>

theorem get_para_joined:
  assumes "list_all para_ok fs" "join_para fs \<noteq> []" "\<not> IS_WHITE_SPACE (hd (join_para fs))"
    and "unat i < length fs" "length (join_para fs) < 2 ^ 16"
    and "length (fs ! unat i) < unat l" "unat l \<le> length t"
  shows "AT_Util_GetPara (join_para fs @ 0 # r) i t l =
      (if length fs \<le> 16
       then Some (ERR_SUCCESS, join_para fs @ 0 # r,
         fs ! unat i @ replicate (unat l - length (fs ! unat i)) 0 @ drop (unat l) t, of_nat (length (fs ! unat i)))
       else Some (ERR_AT_UTIL_PARA_ERROR, join_para fs @ 0 # r, t, 0)) \<and>
    AT_Util_GetParaCount (join_para fs @ 0 # r) =
      (if length fs \<le> 16 then Some (ERR_SUCCESS, join_para fs @ 0 # r, of_nat (length fs))
       else Some (ERR_AT_UTIL_TOO_MANY_CMD_PARA, join_para fs @ 0 # r, 0))"
  by (rule get_para_at [OF assms])

lemma get_para_joined_witness:
  "AT_Util_GetPara [0x61, 0x2c, 0x22, 0x2c, 0x22, 0] 1 [7, 7, 7, 7, 7] 5 =
     Some (ERR_SUCCESS, [0x61, 0x2c, 0x22, 0x2c, 0x22, 0], [0x22, 0x2c, 0x22, 0, 0], 3)"
proof -
  have "replicate 2 (0 :: u8) = [0, 0]" by (simp add: numeral_2_eq_2)
  then show ?thesis using get_para_joined [of "[[0x61], [0x22, 0x2c, 0x22]]" 1 5 "[7, 7, 7, 7, 7]" "[]"]
    by (simp add: para_ok_def IS_WHITE_SPACE_def)
qed

text \<open>The index is compared with the count after it was used, and may be equal to it: index \<open>n\<close> of a
  list of \<open>n < 16\<close> parameters is an empty parameter instead of an error, and an index from 16 on
  reads behind the table.\<close>

theorem get_para_index:
  assumes "list_all para_ok fs" "join_para fs \<noteq> []" "\<not> IS_WHITE_SPACE (hd (join_para fs))"
    and "fs \<noteq> []" "length fs \<le> 16" "length fs \<le> unat i" "0 < l" "unat l \<le> length t"
  shows "AT_Util_GetPara (join_para fs @ 0 # r) i t l =
    (if 16 \<le> unat i then None
     else if unat i = length fs
     then Some (ERR_SUCCESS, join_para fs @ 0 # r, replicate (unat l) 0 @ drop (unat l) t, 0)
     else Some (ERR_AT_UTIL_PARA_ERROR, join_para fs @ 0 # r, t, l))"
proof -
  note p = parse_joined [OF assms(4) assms(1-3), of r]
  have len: "length (sParaPos (add_paras no_para (spans 0 fs))) = 16"
    using assms(5) by (simp add: add_paras_def no_para_def AT_UTIL_NR_PARA_def)
  have t: "wr_block t 0 (replicate (unat l) 0) = Some (replicate (unat l) 0 @ drop (unat l) t)"
    using assms(8) by (simp add: wr_block_def)
  show ?thesis
  proof (cases "16 \<le> unat i")
    case True
    then show ?thesis using p len assms(4,5) by (simp add: AT_Util_GetPara_def rd_def)
  next
    case False
    then have "rd (sParaPos (add_paras no_para (spans 0 fs))) (unat i) = Some \<lparr>pos_begin = 0, pos_len = 0\<rparr>"
      using spans_past [OF assms(6), of 0] len by (simp add: rd_def)
    moreover have "\<not> l \<le> 0" using assms(7) by (simp add: not_le)
    ultimately show ?thesis using p t False assms(4-6)
      by (auto simp: AT_Util_GetPara_def rd_block_def)
  qed
qed

lemma get_para_index_witness:
  "AT_Util_GetPara [0x61, 0] 1 [7] 1 = Some (ERR_SUCCESS, [0x61, 0], [0], 0) \<and>
   AT_Util_GetPara [0x61, 0] 16 [7] 1 = None"
  using get_para_index [of "[[0x61]]" 1 1 "[7]" "[]"] get_para_index [of "[[0x61]]" 16 1 "[7]" "[]"]
  by (simp add: para_ok_def IS_WHITE_SPACE_def)


section \<open>Numbers and empty parameters\<close>

text \<open>What the theorems on one parameter of a list assume.\<close>

definition one_of :: "bytes list \<Rightarrow> u8 \<Rightarrow> bytes \<Rightarrow> bool" where
  "one_of fs i f \<longleftrightarrow> list_all para_ok fs \<and> join_para fs \<noteq> [] \<and> \<not> IS_WHITE_SPACE (hd (join_para fs)) \<and>
     length (join_para fs) < 2 ^ 16 \<and> length fs \<le> 16 \<and> unat i < length fs \<and> fs ! unat i = f"

lemma get_one:
  assumes "one_of fs i f" "length f < unat l" "unat l \<le> length t"
  shows "AT_Util_GetPara (join_para fs @ 0 # r) i t l =
    Some (ERR_SUCCESS, join_para fs @ 0 # r, f @ replicate (unat l - length f) 0 @ drop (unat l) t, of_nat (length f))"
  using get_para_at [of fs i l t r] assms unfolding one_of_def by simp

lemma strip_no_space:
  assumes "\<forall>c \<in> set s. \<not> IS_WHITE_SPACE c"
  shows "strip s = s"
proof -
  have "dropWhile IS_WHITE_SPACE s = s" using assms by (cases s) auto
  moreover have "rstrip s = s" using assms by (cases s rule: rev_cases) auto
  ultimately show ?thesis by (simp add: strip_def)
qed

lemma decimal_strip [simp]: "strip (decimal n) = decimal n"
  using decimal_digits [of n]
  by (intro strip_no_space) (auto simp: list_all_iff is_digit_def IS_WHITE_SPACE_def)

lemma atoi_decimal: "atoi (decimal n) = (if n < 2 ^ 31 then Some (int n) else None)"
proof -
  obtain c r where c: "decimal n = c # r" "\<not> is_space c" "c \<noteq> 0x2d" "c \<noteq> 0x2b" using decimal_head by blast
  have all: "takeWhile is_digit (decimal n) = decimal n"
    using decimal_digits [of n] by (simp add: list_all_iff)
  have "skip_sign (dropWhile is_space (decimal n)) = (False, decimal n)" using c by (simp add: skip_sign_def)
  then show ?thesis using all decimal_digits [of n]
    by (simp add: atoi_def Let_def del: takeWhile_eq_all_conv)
qed

lemma get_number:
  assumes "one_of fs i (decimal n)" "length (decimal n) < 256"
  shows "\<exists>r'. AT_Util_GetTrimedPara (join_para fs @ 0 # r) i (replicate AT_UTLI_BUF_LEN 0) 1024 =
    Some (ERR_SUCCESS, join_para fs @ 0 # r, decimal n @ 0 # r', of_nat (length (decimal n)))"
proof -
  let ?d = "decimal n"
  let ?z = "replicate (1024 - Suc (length ?d)) (0 :: u8)"
  have d: "0 \<notin> set ?d" using decimal_digits by blast
  have l: "length ?d < unat (1024 :: u16)" using assms(2) by simp
  have "1024 - length ?d = Suc (1024 - Suc (length ?d))" using assms(2) by linarith
  then have "AT_Util_GetPara (join_para fs @ 0 # r) i (replicate AT_UTLI_BUF_LEN 0) 1024 =
      Some (ERR_SUCCESS, join_para fs @ 0 # r, ?d @ 0 # ?z, of_nat (length ?d))"
    using get_one [OF assms(1) l, of "replicate AT_UTLI_BUF_LEN 0" r] by (simp add: AT_UTLI_BUF_LEN_def)
  moreover have "255 \<le> length ?z" using assms(2) by simp
  then obtain r' where "trim (?d @ 0 # ?z) = Some (?d @ 0 # r')"
    using trim_large [OF d, of ?z] assms(2) by auto
  ultimately show ?thesis using d by (simp add: AT_Util_GetTrimedPara_def)
qed

text \<open>The three types of numbers, their bits and their bytes.\<close>

inductive number_type :: "AT_UTIL_PARA_TYPE \<Rightarrow> u8 \<Rightarrow> nat \<Rightarrow> bool" where
  "number_type AT_UTIL_PARA_TYPE_UINT8 8 1"
| "number_type AT_UTIL_PARA_TYPE_UINT16 16 2"
| "number_type AT_UTIL_PARA_TYPE_UINT32 32 4"

code_pred number_type .

inductive_simps number_type_simps [simp]: "number_type ty b k"

lemma length_int_bytes [simp]: "length (int_bytes k v) = k"
  by (induction k arbitrary: v) auto

lemma store_decimal:
  assumes "number_type ty b k" "unat l = k" "k \<le> length t" "length (decimal n) < 256"
  shows "store_number m t l (decimal n @ 0 # r) b k =
    (if n < 2 ^ unat b
     then if n < 2 ^ 31 then Some (ERR_SUCCESS, m, int_bytes k (int n) @ drop k t, l) else None
     else Some (ERR_AT_UTIL_FAILED, m, t, l))"
proof -
  have "b \<in> {8, 16, 32}" using assms(1) by auto
  then have "AT_Util_CheckValidUn (Some (decimal n @ 0 # r)) b = Some (n < 2 ^ unat b)"
    using un_check_result [of "decimal n" b r] decimal_digits [of n] assms(4) by simp
  then show ?thesis using assms(2,3) decimal_digits [of n]
    by (simp add: store_number_def atoi_decimal wr_block_def)
qed

text \<open>A parameter that is a number in decimal, of fewer than 256 digits, is stored in the one, two or
  four bytes of the target when it fits, and refused otherwise; but a number of 32 bits with the
  top bit set is accepted and then given to \<open>atoi\<close>, which cannot represent it.\<close>

theorem get_para_number:
  assumes "one_of fs i (decimal n)" "length (decimal n) < 256"
    and "number_type ty b k" "unat l = k" "k \<le> length t"
  shows "AT_Util_GetParaWithRule (Some (join_para fs @ 0 # r)) i ty (Some t) (Some l) =
    (if n < 2 ^ unat b
     then if n < 2 ^ 31
       then Some (ERR_SUCCESS, Some (join_para fs @ 0 # r, int_bytes k (int n) @ drop k t, l)) else None
     else Some (ERR_AT_UTIL_FAILED, Some (join_para fs @ 0 # r, t, l)))"
proof -
  obtain r' where "AT_Util_GetTrimedPara (join_para fs @ 0 # r) i (replicate AT_UTLI_BUF_LEN 0) 1024 =
      Some (ERR_SUCCESS, join_para fs @ 0 # r, decimal n @ 0 # r', of_nat (length (decimal n)))"
    using get_number [OF assms(1,2)] by blast
  then have "para_number (join_para fs @ 0 # r) i ty t l =
      store_number (join_para fs @ 0 # r) t l (decimal n @ 0 # r') b k"
    using assms(3) decimal_digits [of n] by (auto simp: para_number_def)
  moreover have "l \<noteq> 0" "ty \<noteq> AT_UTIL_PARA_TYPE_STRING" using assms(3,4) by auto
  ultimately show ?thesis using store_decimal [OF assms(3-5,2), of "join_para fs @ 0 # r" r']
    by (simp add: AT_Util_GetParaWithRule_def)
qed

lemma get_para_number_witness:
  "AT_Util_GetParaWithRule (Some [0x37, 0]) 0 AT_UTIL_PARA_TYPE_UINT16 (Some [9, 9, 9]) (Some 2) =
     Some (ERR_SUCCESS, Some ([0x37, 0], [7, 0, 9], 2))"
proof -
  have "decimal 7 = [0x37]" by (simp add: decimal.simps)
  moreover have "int_bytes 2 7 = [7, 0]" by (simp add: numeral_2_eq_2)
  ultimately show ?thesis
    using get_para_number [of "[[0x37]]" 0 7 AT_UTIL_PARA_TYPE_UINT16 16 2 2 "[9, 9, 9]" "[]"]
    by (simp add: one_of_def para_ok_def IS_WHITE_SPACE_def)
qed

text \<open>An empty parameter is trimmed like a string, and the scan from the right starts at index 255:
  with a buffer of fewer than 256 bytes this is an access outside of it.\<close>

theorem empty_para_overrun:
  assumes "one_of fs i []" "0 < l" "unat l \<le> length t" "length t < 256"
  shows "AT_Util_GetParaWithRule (Some (join_para fs @ 0 # r)) i AT_UTIL_PARA_TYPE_STRING (Some t) (Some l) = None"
proof -
  obtain k where k: "unat l = Suc k" using assms(2) by (metis not0_implies_Suc unat_gt_0 word_gt_0 less_irrefl gr0_conv_Suc)
  let ?t = "replicate k 0 @ drop (unat l) t"
  have "AT_Util_GetPara (join_para fs @ 0 # r) i t l = Some (ERR_SUCCESS, join_para fs @ 0 # r, 0 # ?t, 0)"
    using get_one [OF assms(1) _ assms(3), of r] k by simp
  moreover have "trim (0 # ?t) = trim_right (0 # ?t)"
    using trim_left_result [of "[]" ?t] by (simp add: trim_def)
  moreover have "trim_right (0 # ?t) = None" using assms(3,4) k by (intro trim_right_empty) simp
  ultimately show ?thesis using assms(2)
    by (simp add: AT_Util_GetParaWithRule_def para_string_def AT_Util_GetTrimedPara_def)
qed

lemma empty_para_overrun_witness:
  "AT_Util_GetParaWithRule (Some [0x61, 0x2c, 0]) 1 AT_UTIL_PARA_TYPE_STRING (Some (replicate 41 0)) (Some 41) = None"
  using empty_para_overrun [of "[[0x61], []]" 1 41 "replicate 41 0" "[]"]
  by (simp add: one_of_def para_ok_def IS_WHITE_SPACE_def)

end
