(* ===== verification/At_Bytes.thy ===== *)
theory At_Bytes
  imports Prelude
begin

text \<open>
  Bytes and text (at_common.c): bytes as hexadecimal digits and back, two-byte characters from
  big endian, upper case. Source and destination are distinct regions; the counters have the
  eight bits of the code.
\<close>

section \<open>Bytes to hexadecimal digits\<close>

definition hex_char :: "u8 \<Rightarrow> u8" where
  "hex_char v = (if v < 10 then v OR 0x30 else v + 55)"

text \<open>\<open>n\<close> bytes from index \<open>nTemp\<close> on.\<close>

fun bytes2string_loop :: "nat \<Rightarrow> u8 \<Rightarrow> u8 \<Rightarrow> bytes \<Rightarrow> bytes \<Rightarrow> (u8 \<times> bytes) option" where
  "bytes2string_loop 0 nTemp nDestLen pSource pDest = Some (nDestLen, pDest)"
| "bytes2string_loop (Suc n) nTemp nDestLen pSource pDest = do {
     c \<leftarrow> rd pSource (unat nTemp);
     pDest \<leftarrow> wr pDest (unat nDestLen) (hex_char (drop_bit 4 c AND 0x0f));
     let nDestLen = nDestLen + 1;
     pDest \<leftarrow> wr pDest (unat nDestLen) (hex_char (c AND 0x0f));
     bytes2string_loop n (nTemp + 1) (nDestLen + 1) pSource pDest }"

text \<open>The result is the return value, the new length and the destination; a missing region is
  \<open>NULL\<close>.\<close>

definition AT_Bytes2String ::
  "bytes option \<Rightarrow> bytes option \<Rightarrow> u8 \<Rightarrow> (bool \<times> u8 \<times> bytes option) option" where
  "AT_Bytes2String pDest pSource nSourceLen =
     (case (pDest, pSource) of
        (Some d, Some s) \<Rightarrow> do {
          (nDestLen, d) \<leftarrow> bytes2string_loop (unat nSourceLen) 0 0 s d;
          d \<leftarrow> wr d (unat nDestLen) 0;
          Some (nDestLen mod 2 = 0, nDestLen, Some d) }
      | _ \<Rightarrow> Some (False, nSourceLen, pDest))"

section \<open>Hexadecimal digits to bytes\<close>

definition hex_value :: "u8 \<Rightarrow> u8 option" where
  "hex_value c =
     (if c > 0x2f \<and> c < 0x3a then Some (c - 48)
      else if c > 0x40 \<and> c < 0x47 then Some (c - 65 + 10)
      else if c > 0x60 \<and> c < 0x67 then Some (c - 97 + 10)
      else None)"

fun string2bytes_loop :: "nat \<Rightarrow> u8 \<Rightarrow> u8 \<Rightarrow> bytes \<Rightarrow> bytes \<Rightarrow> (bool \<times> u8 \<times> bytes) option" where
  "string2bytes_loop 0 nTemp nByteNumber pSource pDest = Some (True, nByteNumber, pDest)"
| "string2bytes_loop (Suc n) nTemp nByteNumber pSource pDest = do {
     c \<leftarrow> rd pSource (unat nTemp);
     case hex_value c of
       None \<Rightarrow> Some (False, nByteNumber, pDest)
     | Some h \<Rightarrow> do {
         pDest \<leftarrow> wr pDest (unat nByteNumber) (push_bit 4 h);
         let nTemp = nTemp + 1;
         c \<leftarrow> rd pSource (unat nTemp);
         case hex_value c of
           None \<Rightarrow> Some (False, nByteNumber, pDest)
         | Some l \<Rightarrow> do {
             h \<leftarrow> rd pDest (unat nByteNumber);
             pDest \<leftarrow> wr pDest (unat nByteNumber) (h + l);
             string2bytes_loop n (nTemp + 1) (nByteNumber + 1) pSource pDest } } }"

definition AT_String2Bytes ::
  "bytes option \<Rightarrow> bytes option \<Rightarrow> u8 \<Rightarrow> (bool \<times> u8 \<times> bytes option) option" where
  "AT_String2Bytes pDest pSource pLen =
     (case (pDest, pSource) of
        (Some d, Some s) \<Rightarrow>
          if pLen mod 2 \<noteq> 0 then Some (False, pLen, Some d)
          else do {
            (ok, nByteNumber, d) \<leftarrow> string2bytes_loop (unat pLen div 2) 0 0 s d;
            if ok then do { d \<leftarrow> wr d (unat nByteNumber) 0; Some (True, nByteNumber, Some d) }
            else Some (False, pLen, Some d) }
      | _ \<Rightarrow> Some (False, pLen, pDest))"

section \<open>Other conversions\<close>

text \<open>The loop works from the end, \<open>n\<close> pairs being left.\<close>

fun unicode_loop :: "nat \<Rightarrow> bytes \<Rightarrow> bytes \<Rightarrow> bytes option" where
  "unicode_loop 0 pUniBigData pUniData = Some pUniData"
| "unicode_loop (Suc n) pUniBigData pUniData = do {
     b \<leftarrow> rd pUniBigData (2 * n + 1);
     pUniData \<leftarrow> wr pUniData (2 * n) b;
     a \<leftarrow> rd pUniBigData (2 * n);
     pUniData \<leftarrow> wr pUniData (2 * n + 1) a;
     unicode_loop n pUniBigData pUniData }"

definition AT_UnicodeBigEnd2Unicode ::
  "bytes option \<Rightarrow> bytes option \<Rightarrow> u16 \<Rightarrow> (bool \<times> bytes option) option" where
  "AT_UnicodeBigEnd2Unicode pUniBigData pUniData nDataLen =
     (case (pUniBigData, pUniData) of
        (Some s, Some d) \<Rightarrow> do {
          d \<leftarrow> unicode_loop (unat nDataLen div 2) s d;
          Some (True, Some d) }
      | _ \<Rightarrow> Some (False, pUniData))"

function strupr_loop :: "nat \<Rightarrow> bytes \<Rightarrow> bytes option" where
  "strupr_loop i m = do {
     c \<leftarrow> rd m i;
     if c = 0 then Some m
     else if c \<ge> 97 \<and> c \<le> 122 then strupr_loop (i + 1) (m[i := c - 32])
     else strupr_loop (i + 1) m }"
  by pat_completeness auto
termination by (relation "measure (\<lambda>(i, m). length m - i)") (auto simp: rd_eq_Some)

definition strupr :: "bytes \<Rightarrow> bytes option" where
  "strupr m = strupr_loop 0 m"

declare strupr_loop.simps [simp del]

section \<open>Digits\<close>

definition hex2 :: "u8 \<Rightarrow> bytes" where
  "hex2 c = [hex_char (drop_bit 4 c AND 0x0f), hex_char (c AND 0x0f)]"

lemma byte_all: "(\<forall>c :: u8. P c) \<longleftrightarrow> (\<forall>n < 256. P (of_nat n))"
proof
  assume "\<forall>n < 256. P (of_nat n)"
  then have "P (of_nat (unat c))" for c :: u8 using unat_lt_256 by blast
  then show "\<forall>c. P c" by simp
qed simp

lemma and_0x0f: "x AND 0x0f = take_bit 4 (x :: 'a::len word)"
  by (simp add: take_bit_eq_mask mask_eq_exp_minus_1)

lemma hex_value_char: "hex_value (hex_char (c AND 0x0f)) = Some (c AND 0x0f)"
  "hex_value (hex_char (drop_bit 4 c AND 0x0f)) = Some (drop_bit 4 c AND 0x0f)"
proof -
  have low: "\<forall>n < 16. hex_value (hex_char (of_nat n)) = Some (of_nat n :: u8)" by code_simp
  have "c AND 0x0f = of_nat (unat c mod 16)" for c :: u8
    by (simp add: and_0x0f word_unat_eq_iff take_bit_eq_mod unat_mod unsigned_of_nat)
  then show "hex_value (hex_char (c AND 0x0f)) = Some (c AND 0x0f)"
    "hex_value (hex_char (drop_bit 4 c AND 0x0f)) = Some (drop_bit 4 c AND 0x0f)"
    using low by simp_all
qed

lemma nibbles: "push_bit 4 (drop_bit 4 c AND 0x0f) + (c AND 0x0f) = (c :: u8)"
proof -
  have "take_bit 4 (drop_bit 4 c) = drop_bit 4 (take_bit 8 c)" by (simp add: take_bit_drop_bit)
  moreover have "take_bit 8 c = c" by (simp add: take_bit_word_eq_self)
  moreover have "push_bit 4 (drop_bit 4 c) + take_bit 4 c = c" by (simp add: bits_ident)
  ultimately show ?thesis by (simp add: and_0x0f)
qed

section \<open>The loops\<close>

lemma length_hex2 [simp]: "length (hex2 c) = 2" "length (concat (map hex2 bs)) = 2 * length bs"
proof -
  show "length (hex2 c) = 2" for c by (simp add: hex2_def)
  then show "length (concat (map hex2 bs)) = 2 * length bs" by (induction bs) simp_all
qed

lemma bytes2string_loop_result:
  assumes "i + length bs < 128" "length pre = 2 * i" "2 * length bs \<le> length rest"
    and "drop i src = bs @ more"
  shows "bytes2string_loop (length bs) (of_nat i) (of_nat (2 * i)) src (pre @ rest) =
    Some (of_nat (2 * (i + length bs)), pre @ concat (map hex2 bs) @ drop (2 * length bs) rest)"
  using assms
proof (induction bs arbitrary: i pre rest)
  case (Cons b bs)
  obtain x y r where rest: "rest = x # y # r" "2 * length bs \<le> length r"
    using Cons.prems(3) by (cases rest; cases "tl rest") auto
  have u: "unat (of_nat i :: u8) = i" "unat (of_nat (2 * i) :: u8) = 2 * i"
    "unat (of_nat (2 * i) + 1 :: u8) = 2 * i + 1"
    using Cons.prems(1) by (simp_all add: unsigned_of_nat take_bit_nat_eq_self unat_word_ariths)
  have src: "rd src i = Some b" "drop (Suc i) src = bs @ more"
  proof -
    show "rd src i = Some b" using Cons.prems(4) by (auto simp: rd_def nth_via_drop not_less)
    have "drop (Suc i) src = tl (drop i src)" by (simp add: drop_Suc tl_drop)
    then show "drop (Suc i) src = bs @ more" using Cons.prems(4) by simp
  qed
  have IH: "bytes2string_loop (length bs) (of_nat (Suc i)) (of_nat (2 * Suc i)) src ((pre @ hex2 b) @ r) =
    Some (of_nat (2 * (Suc i + length bs)), (pre @ hex2 b) @ concat (map hex2 bs) @ drop (2 * length bs) r)"
    using Cons.prems rest src(2) by (intro Cons.IH) simp_all
  have w: "wr (pre @ rest) (2 * i) v = Some (pre @ v # y # r)"
    "wr (pre @ v # y # r) (Suc (2 * i)) w = Some (pre @ v # w # r)" for v w
    using Cons.prems(2) rest(1) by (simp_all add: wr_def list_update_append)
  show ?case
    using IH u src w rest(1) by (simp add: Let_def hex2_def [of b] add.commute add.left_commute)
qed simp

text \<open>The other way: the digits of \<open>bs\<close>, from index \<open>2 * i\<close> on, are stored as \<open>bs\<close>.\<close>

lemma string2bytes_loop_result:
  assumes "i + length bs < 128" "length pre = i" "length bs \<le> length rest"
    and "drop (2 * i) src = concat (map hex2 bs) @ more"
  shows "string2bytes_loop (length bs) (of_nat (2 * i)) (of_nat i) src (pre @ rest) =
    Some (True, of_nat (i + length bs), pre @ bs @ drop (length bs) rest)"
  using assms
proof (induction bs arbitrary: i pre rest)
  case (Cons b bs)
  obtain x r where rest: "rest = x # r" "length bs \<le> length r"
    using Cons.prems(3) by (cases rest) auto
  have u: "unat (of_nat i :: u8) = i" "unat (of_nat (2 * i) :: u8) = 2 * i"
    "unat (of_nat (2 * i) + 1 :: u8) = 2 * i + 1"
    using Cons.prems(1) by (simp_all add: unsigned_of_nat take_bit_nat_eq_self unat_word_ariths)
  have d: "drop (2 * i) src = hex_char (drop_bit 4 b AND 0x0f) # hex_char (b AND 0x0f) # concat (map hex2 bs) @ more"
    using Cons.prems(4) by (simp add: hex2_def [of b])
  have "drop (2 * Suc i) src = drop 2 (drop (2 * i) src)" "drop (Suc (2 * i)) src = drop 1 (drop (2 * i) src)"
    by (simp_all add: add.commute)
  then have src: "rd src (2 * i) = Some (hex_char (drop_bit 4 b AND 0x0f))"
    "rd src (Suc (2 * i)) = Some (hex_char (b AND 0x0f))"
    "drop (2 * Suc i) src = concat (map hex2 bs) @ more"
    using d by (auto simp: rd_def nth_via_drop not_less)
  have IH: "string2bytes_loop (length bs) (of_nat (2 * Suc i)) (of_nat (Suc i)) src ((pre @ [b]) @ r) =
    Some (True, of_nat (Suc i + length bs), (pre @ [b]) @ bs @ drop (length bs) r)"
    using Cons.prems rest src(3) by (intro Cons.IH) simp_all
  have w: "wr (pre @ rest) i v = Some (pre @ v # r)"
    "wr (pre @ v # r) i w = Some (pre @ w # r)" "rd (pre @ v # r) i = Some v" for v w
    using Cons.prems(2) rest(1) by (auto simp: wr_def rd_def list_update_append)
  show ?case
    using IH u src w rest(1) nibbles [of b]
    by (simp add: Let_def hex_value_char add.commute add.left_commute)
qed simp

section \<open>The conversions\<close>

lemma u8_small:
  assumes "n < 128"
  shows "unat (of_nat n :: u8) = n" "unat (of_nat (2 * n) :: u8) = 2 * n"
    "(of_nat (2 * n) :: u8) mod 2 = 0"
  using assms
  by (simp_all add: word_unat_eq_iff unat_mod unsigned_of_nat take_bit_nat_eq_self del: of_nat_mult)

lemma AT_Bytes2String_small:
  assumes "length bs < 128" "2 * length bs < length d"
  shows "AT_Bytes2String (Some d) (Some (bs @ more)) (of_nat (length bs)) =
    Some (True, of_nat (2 * length bs),
      Some (concat (map hex2 bs) @ 0 # drop (Suc (2 * length bs)) d))"
proof -
  have "bytes2string_loop (length bs) 0 0 (bs @ more) d =
      Some (of_nat (2 * length bs), concat (map hex2 bs) @ drop (2 * length bs) d)"
    using bytes2string_loop_result [of 0 bs "[]" d "bs @ more" more] assms by simp
  moreover note u8_small [OF assms(1)]
  moreover have "drop (2 * length bs) d = d ! (2 * length bs) # drop (Suc (2 * length bs)) d"
    using assms(2) by (simp add: Cons_nth_drop_Suc)
  ultimately show ?thesis by (simp add: AT_Bytes2String_def wr_def list_update_append del: of_nat_mult)
qed

text \<open>Up to 127 bytes are written as twice as many hexadecimal digits, ended by a zero, within
  a destination of one byte more, and reading the digits back gives the bytes.\<close>

theorem bytes_string_roundtrip:
  assumes "length bs < 128" "2 * length bs < length d" "length bs < length d2"
  shows "\<exists>d1. AT_Bytes2String (Some d) (Some bs) (of_nat (length bs)) =
      Some (True, of_nat (2 * length bs), Some d1) \<and> length d1 = length d \<and>
    AT_String2Bytes (Some d2) (Some d1) (of_nat (2 * length bs)) =
      Some (True, of_nat (length bs), Some (bs @ 0 # drop (Suc (length bs)) d2))"
proof -
  let ?d1 = "concat (map hex2 bs) @ 0 # drop (Suc (2 * length bs)) d"
  have "string2bytes_loop (length bs) 0 0 ?d1 d2 =
      Some (True, of_nat (length bs), bs @ drop (length bs) d2)"
    using string2bytes_loop_result [of 0 bs "[]" d2 ?d1] assms by simp
  moreover note u8_small [OF assms(1)]
  moreover have "drop (length bs) d2 = d2 ! length bs # drop (Suc (length bs)) d2"
    using assms(3) by (simp add: Cons_nth_drop_Suc)
  ultimately have "AT_String2Bytes (Some d2) (Some ?d1) (of_nat (2 * length bs)) =
      Some (True, of_nat (length bs), Some (bs @ 0 # drop (Suc (length bs)) d2))"
    by (simp add: AT_String2Bytes_def wr_def list_update_append del: of_nat_mult)
  then show ?thesis
    using AT_Bytes2String_small [of bs d "[]"] assms by (intro exI [of _ ?d1]) simp
qed

theorem bytes_string_roundtrip_witness:
  "\<exists>d1. AT_Bytes2String (Some (replicate 5 9)) (Some [0x1f, 0xa0]) 2 = Some (True, 4, Some d1) \<and>
    AT_String2Bytes (Some (replicate 4 9)) (Some d1) 4 = Some (True, 2, Some [0x1f, 0xa0, 0, 9])"
  using bytes_string_roundtrip [of "[0x1f, 0xa0]" "replicate 5 9" "replicate 4 9"] by auto

section \<open>Overflow\<close>

text \<open>With a destination of 256 bytes every access is in range, whatever the counters are.\<close>

lemma bytes2string_loop_any:
  assumes "i + n \<le> length src" "i + n < 256" "256 \<le> length d"
  shows "\<exists>d'. bytes2string_loop n (of_nat i) p src d = Some (p + of_nat (2 * n), d') \<and> length d' = length d"
  using assms
proof (induction n arbitrary: i p d)
  case (Suc n)
  have "unat (of_nat i :: u8) = i" using Suc.prems by (simp add: unsigned_of_nat take_bit_nat_eq_self)
  then have src: "rd src (unat (of_nat i :: u8)) = Some (src ! i)" using Suc.prems by (simp add: rd_def)
  have w: "wr m (unat (q :: u8)) v = Some (m[unat q := v])" if "256 \<le> length m" for m q and v :: u8
  proof -
    have "unat q < length m" using that unat_lt_256 [of q] by linarith
    then show ?thesis by (simp add: wr_def)
  qed
  let ?d = "d[unat p := hex_char (drop_bit 4 (src ! i) AND 0x0f), unat (p + 1) := hex_char (src ! i AND 0x0f)]"
  obtain d' where "bytes2string_loop n (of_nat (Suc i)) (p + 2) src ?d = Some (p + 2 + of_nat (2 * n), d')"
    "length d' = length d"
    using Suc.IH [of "Suc i" ?d "p + 2"] Suc.prems by auto
  then show ?case using src w Suc.prems by (simp add: Let_def add.commute add.left_commute)
qed simp

text \<open>From 128 bytes on the eight-bit index of the destination wraps: the digits that follow
  overwrite the first ones, and the length reported is 256 too small, with the result still
  being success.\<close>

theorem bytes2string_wraps:
  assumes "128 \<le> unat len" "unat len \<le> length src" "256 \<le> length d"
  shows "\<exists>d'. AT_Bytes2String (Some d) (Some src) len = Some (True, 2 * len, Some d') \<and>
    unat (2 * len) = 2 * unat len - 256 \<and> d' ! (2 * unat len - 256) = 0"
proof -
  have lt: "unat len < 256" by simp
  have "0 + of_nat (2 * unat len) = 2 * len" by simp
  then obtain d' where d': "bytes2string_loop (unat len) 0 0 src d = Some (2 * len, d')" "length d' = length d"
    using bytes2string_loop_any [of 0 "unat len" src d 0] assms(2,3) lt by force
  have u: "unat (2 * len) = 2 * unat len - 256"
  proof -
    have "2 * unat len - 256 < 256" using unat_lt_256 [of len] by linarith
    moreover have "2 * unat len mod 256 = (2 * unat len - 256) mod 256"
      using assms(1) by (simp add: le_mod_geq)
    ultimately have "2 * unat len mod 256 = 2 * unat len - 256" by (simp only: mod_less)
    then show ?thesis by (simp add: unat_word_ariths)
  qed
  have l: "unat (2 * len) < length d'"
    using unat_lt_256 [of "2 * len"] d'(2) assms(3) by linarith
  have "unat (2 * len) mod 2 = 0" unfolding u by presburger
  then have "(2 * len) mod 2 = 0" by (simp add: word_unat_eq_iff unat_mod)
  then have "AT_Bytes2String (Some d) (Some src) len = Some (True, 2 * len, Some (d'[unat (2 * len) := 0]))"
    using d' l by (simp add: AT_Bytes2String_def wr_def)
  then show ?thesis using u l by auto
qed

theorem bytes2string_wraps_witness:
  "\<exists>d'. AT_Bytes2String (Some (replicate 256 7)) (Some (replicate 130 1)) 130 = Some (True, 4, Some d') \<and> d' ! 4 = 0"
  using bytes2string_wraps [of 130 "replicate 130 1" "replicate 256 7"] by auto

section \<open>Upper case and byte order\<close>

definition upper :: "u8 \<Rightarrow> u8" where
  "upper c = (if c \<ge> 97 \<and> c \<le> 122 then c - 32 else c)"

lemma strupr_loop_result:
  "0 \<notin> set s \<Longrightarrow> strupr_loop (length pre) (pre @ s @ 0 # r) = Some (pre @ map upper s @ 0 # r)"
proof (induction s arbitrary: pre)
  case Nil
  then show ?case by (simp add: strupr_loop.simps rd_def)
next
  case (Cons c s)
  have "strupr_loop (length (pre @ [upper c])) ((pre @ [upper c]) @ s @ 0 # r) =
      Some ((pre @ [upper c]) @ map upper s @ 0 # r)"
    using Cons.IH [of "pre @ [upper c]"] Cons.prems by simp
  then show ?case using Cons.prems
    by (subst strupr_loop.simps; cases "97 \<le> c \<and> c \<le> 122") (auto simp: rd_def upper_def)
qed

text \<open>The text up to the zero is in upper case, the rest of the memory as before; doing it twice
  changes nothing.\<close>

lemma strupr_result:
  assumes "0 \<notin> set s"
  shows "strupr (s @ 0 # r) = Some (map upper s @ 0 # r)"
    "Option.bind (strupr (s @ 0 # r)) strupr = strupr (s @ 0 # r)"
proof -
  have 1: "strupr (s @ 0 # r) = Some (map upper s @ 0 # r)" if "0 \<notin> set s" for s r
    using strupr_loop_result [OF that, of "[]" r] by (simp add: strupr_def)
  then show "strupr (s @ 0 # r) = Some (map upper s @ 0 # r)" using assms .
  have idem: "upper (upper c) = upper c" for c
    by (simp add: upper_def word_le_nat_alt word_less_nat_alt unat_sub) linarith
  have "upper c = 0 \<longleftrightarrow> c = 0" for c
    by (auto simp: upper_def word_le_nat_alt)
  then have "0 \<notin> set (map upper s)" using assms by auto
  from 1 [OF this] 1 [OF assms] idem show "Option.bind (strupr (s @ 0 # r)) strupr = strupr (s @ 0 # r)"
    by (simp add: comp_def)
qed

fun swap_pairs :: "bytes \<Rightarrow> bytes" where
  "swap_pairs (a # b # r) = b # a # swap_pairs r"
| "swap_pairs r = r"

lemma swap_pairs_twice: "swap_pairs (swap_pairs xs) = xs"
  by (induction xs rule: swap_pairs.induct) auto

lemma length_swap_pairs [simp]: "length (swap_pairs xs) = length xs"
  by (induction xs rule: swap_pairs.induct) auto

lemma swap_pairs_append: "even (length xs) \<Longrightarrow> swap_pairs (xs @ ys) = swap_pairs xs @ swap_pairs ys"
  by (induction xs rule: swap_pairs.induct) auto

lemma unicode_loop_result:
  assumes "2 * n \<le> length s" "2 * n \<le> length d"
  shows "unicode_loop n s d = Some (swap_pairs (take (2 * n) s) @ drop (2 * n) d)"
  using assms
proof (induction n arbitrary: d)
  case (Suc n)
  let ?d = "d[2 * n := s ! (2 * n + 1), 2 * n + 1 := s ! (2 * n)]"
  have "unicode_loop (Suc n) s d = unicode_loop n s ?d"
    using Suc.prems by (simp add: rd_def wr_def)
  also have "\<dots> = Some (swap_pairs (take (2 * n) s) @ drop (2 * n) ?d)"
    using Suc by simp
  also have "drop (2 * n) ?d = s ! (2 * n + 1) # s ! (2 * n) # drop (2 * Suc n) d"
    using Suc.prems by (intro nth_equalityI) (auto simp: nth_list_update nth_Cons split: nat.split)
  also have "take (2 * Suc n) s = take (2 * n) s @ [s ! (2 * n), s ! (2 * n + 1)]"
    using Suc.prems by (simp add: take_Suc_conv_app_nth)
  then have "swap_pairs (take (2 * n) s) @ s ! (2 * n + 1) # s ! (2 * n) # drop (2 * Suc n) d =
      swap_pairs (take (2 * Suc n) s) @ drop (2 * Suc n) d"
    using Suc.prems by (simp add: swap_pairs_append)
  finally show ?case .
qed simp

text \<open>The bytes of every pair are exchanged, an odd byte at the end is left; doing it twice gives
  the text back.\<close>

lemma unicode_twice:
  assumes "unat len \<le> length s" "unat len \<le> length d" "unat len \<le> length d2"
  shows "\<exists>d1. AT_UnicodeBigEnd2Unicode (Some s) (Some d) len = Some (True, Some d1) \<and>
    d1 = swap_pairs (take (2 * (unat len div 2)) s) @ drop (2 * (unat len div 2)) d \<and>
    AT_UnicodeBigEnd2Unicode (Some d1) (Some d2) len =
      Some (True, Some (take (2 * (unat len div 2)) s @ drop (2 * (unat len div 2)) d2))"
proof -
  let ?n = "unat len div 2"
  have n: "2 * ?n \<le> unat len" by simp
  let ?d1 = "swap_pairs (take (2 * ?n) s) @ drop (2 * ?n) d"
  have "unicode_loop ?n s d = Some ?d1" using unicode_loop_result [of ?n s d] assms n by simp
  moreover have "unicode_loop ?n ?d1 d2 = Some (take (2 * ?n) s @ drop (2 * ?n) d2)"
    using unicode_loop_result [of ?n ?d1 d2] assms n by (simp add: swap_pairs_twice)
  ultimately show ?thesis by (simp add: AT_UnicodeBigEnd2Unicode_def)
qed

end
