(* ===== verification/Str_Code.thy ===== *)
theory Str_Code
  imports Str_Num At_Bytes
begin

text \<open>
  Conversions (at_utility.c): digits and BCD, hexadecimal text and bytes, bits and bytes, and
  the number of characters of GBK and UCS-2 texts. The conversions between these two sets are
  empty in the code.
\<close>

section \<open>The model\<close>

text \<open>Digits two by two, the first one in the low half of the byte.\<close>

fun bcd_loop :: "nat \<Rightarrow> nat \<Rightarrow> bytes \<Rightarrow> bytes \<Rightarrow> bytes option" where
  "bcd_loop 0 i pNumeric pBcd = Some pBcd"
| "bcd_loop (Suc k) i pNumeric pBcd = do {
     a \<leftarrow> rd pNumeric (2 * i);
     b \<leftarrow> rd pNumeric (2 * i + 1);
     pBcd \<leftarrow> wr pBcd i ((a AND 0x0f) OR push_bit 4 (b AND 0x0f));
     bcd_loop k (i + 1) pNumeric pBcd }"

text \<open>The result is the flag, the target and the length.\<close>

definition numeric2bcd :: "bytes \<Rightarrow> bytes \<Rightarrow> u8 \<Rightarrow> (bool \<times> bytes \<times> u8) option" where
  "numeric2bcd pNumeric pBcd pLen = do {
     pBcd \<leftarrow> wr_block pBcd 0 (replicate (unat pLen) 0);
     n \<leftarrow> c_strlen pNumeric;
     let iInLen = (of_nat n :: u8);
     let iOutLen = (if iInLen div 2 * 2 = iInLen then iInLen div 2 else iInLen div 2 + 1);
     if pLen < iOutLen then Some (False, pBcd, pLen)
     else do {
       let iLocalLen = iInLen div 2;
       pBcd \<leftarrow> bcd_loop (unat iLocalLen) 0 pNumeric pBcd;
       if iLocalLen < iOutLen then do {
         a \<leftarrow> rd pNumeric (2 * unat iLocalLen);
         pBcd \<leftarrow> wr pBcd (unat iLocalLen) (a OR 0xf0);
         Some (True, pBcd, iOutLen) }
       else Some (True, pBcd, iOutLen) } }"

definition AT_Util_Numeric2BCD ::
  "bytes option \<Rightarrow> bytes option \<Rightarrow> u8 option \<Rightarrow> (bool \<times> bytes option \<times> u8 option) option" where
  "AT_Util_Numeric2BCD pNumeric pBcd pLen =
     (case (pNumeric, pBcd, pLen) of
        (Some s, Some d, Some l) \<Rightarrow> map_option (\<lambda>(ok, d, l). (ok, Some d, Some l)) (numeric2bcd s d l)
      | _ \<Rightarrow> Some (False, pBcd, pLen))"

text \<open>One byte of BCD; \<open>iOutLen\<close> counts the digits in eight bits.\<close>

definition bcd_high :: "nat \<Rightarrow> u8 \<Rightarrow> u8 \<times> bytes \<Rightarrow> (u8 \<times> bytes) option" where
  "bcd_high i c s = (case s of (iOutLen, pNumeric) \<Rightarrow>
     if c AND 0xf0 \<noteq> 0xf0 then do {
       d \<leftarrow> wr pNumeric (2 * i) ((drop_bit 4 c AND 0x0f) OR 0x30);
       Some (iOutLen + 1, d) }
     else Some s)"

definition bcd_low :: "nat \<Rightarrow> u8 \<Rightarrow> u8 \<times> bytes \<Rightarrow> (u8 \<times> bytes) option" where
  "bcd_low i c s = (case s of (iOutLen, pNumeric) \<Rightarrow>
     if c AND 0x0f \<noteq> 0x0f then do {
       d \<leftarrow> wr pNumeric (if unat iOutLen = 2 * i then 2 * i else 2 * i + 1) ((c AND 0x0f) OR 0x30);
       Some (iOutLen + 1, d) }
     else Some s)"

fun numeric_of_bcd :: "nat \<Rightarrow> nat \<Rightarrow> bytes \<Rightarrow> u8 \<times> bytes \<Rightarrow> (u8 \<times> bytes) option" where
  "numeric_of_bcd 0 i pBcd s = Some s"
| "numeric_of_bcd (Suc k) i pBcd s = do {
     c \<leftarrow> rd pBcd i;
     s \<leftarrow> bcd_high i c s;
     s \<leftarrow> bcd_low i c s;
     numeric_of_bcd k (i + 1) pBcd s }"

definition bcd2numeric :: "bytes \<Rightarrow> bytes \<Rightarrow> u8 \<Rightarrow> (bool \<times> bytes \<times> u8) option" where
  "bcd2numeric pBcd pNumeric pLen = do {
     pNumeric \<leftarrow> wr_block pNumeric 0 (replicate (unat pLen) 0);
     n \<leftarrow> c_strlen pBcd;
     let iInLen = (of_nat n :: u8);
     (iOutLen, pNumeric) \<leftarrow> numeric_of_bcd (unat iInLen) 0 pBcd (0, pNumeric);
     Some (if pLen < iOutLen then (False, pNumeric, pLen) else (True, pNumeric, iOutLen)) }"

definition AT_Util_BCD2Numeric ::
  "bytes option \<Rightarrow> bytes option \<Rightarrow> u8 option \<Rightarrow> (bool \<times> bytes option \<times> u8 option) option" where
  "AT_Util_BCD2Numeric pBcd pNumeric pLen =
     (case (pBcd, pNumeric, pLen) of
        (Some s, Some d, Some l) \<Rightarrow> map_option (\<lambda>(ok, d, l). (ok, Some d, Some l)) (bcd2numeric s d l)
      | _ \<Rightarrow> Some (False, pNumeric, pLen))"

text \<open>The digits of the text are collected in \<open>stream\<close>; the blank is skipped.\<close>

definition octet_digit :: "u8 \<Rightarrow> u8 option" where
  "octet_digit c =
     (if c \<ge> 0x30 \<and> c \<le> 0x39 then Some (c - 0x30)
      else if c \<ge> 0x61 \<and> c \<le> 0x66 then Some (10 + c - 0x61)
      else if c \<ge> 0x41 \<and> c \<le> 0x46 then Some (10 + c - 0x41)
      else None)"

fun octet_digits :: "nat \<Rightarrow> nat \<Rightarrow> nat \<Rightarrow> bytes \<Rightarrow> bytes \<Rightarrow> (bool \<times> nat \<times> bytes) option" where
  "octet_digits 0 i j src stream = Some (True, j, stream)"
| "octet_digits (Suc k) i j src stream = do {
     c \<leftarrow> rd src i;
     if c = 0x20 then octet_digits k (i + 1) j src stream
     else case octet_digit c of
       None \<Rightarrow> Some (False, j, stream)
     | Some v \<Rightarrow> do {
         stream \<leftarrow> wr stream j v;
         octet_digits k (i + 1) (j + 1) src stream } }"

fun octet_bytes :: "nat \<Rightarrow> nat \<Rightarrow> nat \<Rightarrow> bytes \<Rightarrow> bytes \<Rightarrow> bytes option" where
  "octet_bytes 0 i j stream dst = Some dst"
| "octet_bytes (Suc k) i j stream dst = do {
     a \<leftarrow> rd stream j;
     b \<leftarrow> rd stream (j + 1);
     dst \<leftarrow> wr dst i (push_bit 4 a OR b);
     octet_bytes k (i + 1) (j + 2) stream dst }"

text \<open>The array \<open>stream\<close> on the stack is not initialised. The result is the flag, the text, trimmed
  in place, and the bytes.\<close>

definition AT_UtilStringToOctet ::
  "bytes \<Rightarrow> bytes \<Rightarrow> u16 \<Rightarrow> bytes \<Rightarrow> (bool \<times> bytes \<times> bytes) option" where
  "AT_UtilStringToOctet stream src_text_string input_len dst_real_octet = do {
     src \<leftarrow> trim src_text_string;
     n \<leftarrow> c_strlen src;
     let length = (of_nat n :: u16);
     (ok, j, stream) \<leftarrow> octet_digits (unat length) 0 0 src stream;
     if \<not> ok \<or> j mod 2 \<noteq> 0 \<or> j \<noteq> 2 * unat input_len then Some (False, src, dst_real_octet)
     else do {
       dst \<leftarrow> octet_bytes (unat input_len) 0 0 stream dst_real_octet;
       Some (True, src, dst) } }"

definition octet_char :: "u8 \<Rightarrow> u8" where
  "octet_char v = (if v \<le> 9 then v + 0x30 else v - 10 + 0x61)"

fun octet_text :: "nat \<Rightarrow> nat \<Rightarrow> nat \<Rightarrow> bytes \<Rightarrow> bytes \<Rightarrow> bytes option" where
  "octet_text 0 i j src dst = Some dst"
| "octet_text (Suc k) i j src dst = do {
     c \<leftarrow> rd src i;
     dst \<leftarrow> wr dst j (octet_char (drop_bit 4 c AND 0x0f));
     dst \<leftarrow> wr dst (j + 1) (octet_char (c AND 0x0f));
     octet_text k (i + 1) (j + 2) src dst }"

definition AT_UtilOctetToString :: "bytes \<Rightarrow> u8 \<Rightarrow> bytes \<Rightarrow> (bool \<times> bytes) option" where
  "AT_UtilOctetToString src_real_octet src_length dst_text_string =
     map_option (Pair True) (octet_text (unat src_length) 0 0 src_real_octet dst_text_string)"

fun bits_loop :: "nat \<Rightarrow> nat \<Rightarrow> u8 \<Rightarrow> bytes \<Rightarrow> (bool \<times> u8) option" where
  "bits_loop 0 i outputByte src = Some (True, outputByte)"
| "bits_loop (Suc k) i outputByte src = do {
     c \<leftarrow> rd src i;
     if c = 0x30 then bits_loop k (i + 1) (push_bit 1 outputByte) src
     else if c = 0x31 then bits_loop k (i + 1) (push_bit 1 outputByte OR 0x01) src
     else Some (False, outputByte) }"

definition AT_Util_BitStrToByte :: "u8 \<Rightarrow> bytes option \<Rightarrow> (bool \<times> u8) option" where
  "AT_Util_BitStrToByte byteDest strSource =
     (case strSource of None \<Rightarrow> Some (False, byteDest)
      | Some s \<Rightarrow> do {
          iLen \<leftarrow> c_strlen s;
          if iLen > 8 then Some (False, byteDest)
          else do {
            (ok, outputByte) \<leftarrow> bits_loop iLen 0 0 s;
            Some (if ok then (True, outputByte) else (False, byteDest)) } })"

fun bit_text :: "nat \<Rightarrow> nat \<Rightarrow> u8 \<Rightarrow> nat \<Rightarrow> bytes \<Rightarrow> (nat \<times> bytes) option" where
  "bit_text 0 i byteSource bitLen dst = Some (i, dst)"
| "bit_text (Suc k) i byteSource bitLen dst = do {
     dst \<leftarrow> wr dst i (if drop_bit (bitLen - i - 1) byteSource AND 0x01 = 1 then 0x31 else 0x30);
     bit_text k (i + 1) byteSource bitLen dst }"

definition AT_Util_ByteToBitStr :: "bytes option \<Rightarrow> u8 \<Rightarrow> u8 \<Rightarrow> (bool \<times> bytes option) option" where
  "AT_Util_ByteToBitStr bitStrDest byteSource bitLen =
     (case bitStrDest of None \<Rightarrow> Some (False, None)
      | Some d \<Rightarrow>
          if bitLen > 8 \<or> bitLen = 0 then Some (False, Some d)
          else do {
            (i, d) \<leftarrow> bit_text (unat bitLen) 0 byteSource (unat bitLen) d;
            d \<leftarrow> wr d i 0;
            Some (True, Some d) })"

text \<open>Counting characters. \<open>None\<close> is an access outside of the text or a loop without end, when the
  index of 16 bits wraps.\<close>

partial_function (option) gbk_len :: "u16 \<Rightarrow> u16 \<Rightarrow> bytes \<Rightarrow> u16 option" where
  "gbk_len idx len s = do {
     c \<leftarrow> rd s (unat idx);
     if c = 0 then Some len
     else gbk_len (if c \<le> 127 then idx + 1 else idx + 2) (len + 1) s }"

definition AT_UtilGbkStrCharLen :: "bytes \<Rightarrow> u16 option" where
  "AT_UtilGbkStrCharLen gbk_string = gbk_len 0 0 gbk_string"

partial_function (option) ucs2_len :: "u16 \<Rightarrow> u16 \<Rightarrow> bytes \<Rightarrow> u16 option" where
  "ucs2_len idx len s = do {
     a \<leftarrow> rd s (unat idx);
     b \<leftarrow> (if a \<noteq> 0 then Some a else rd s (unat idx + 1));
     if b \<noteq> 0 then ucs2_len (idx + 2) (len + 1) s else Some len }"

definition AT_UtilUcs2StrCharLen :: "bytes \<Rightarrow> u16 option" where
  "AT_UtilUcs2StrCharLen ucs2_string = ucs2_len 0 0 ucs2_string"

declare gbk_len.simps [code] ucs2_len.simps [code]

definition AT_UtilGbk2Ucs2 :: "bytes \<Rightarrow> u16 \<Rightarrow> bytes \<Rightarrow> u16" where
  "AT_UtilGbk2Ucs2 gbk_string gbk_str_bytelen ucs2_string = 0"

definition AT_UtilUcs2ToGbk :: "bytes \<Rightarrow> u16 \<Rightarrow> bytes \<Rightarrow> u16" where
  "AT_UtilUcs2ToGbk ucs2_string ucs2_str_bytelen gbk_string = 0"

section \<open>Bytes as text and back\<close>

text \<open>Trimming a text without white space.\<close>

lemma trim_no_space:
  assumes "0 \<notin> set s" "s \<noteq> []" "\<forall>c \<in> set s. \<not> IS_WHITE_SPACE c"
  shows "trim (s @ 0 # r) = Some (s @ 0 # r)"
proof -
  have "dropWhile IS_WHITE_SPACE s = s" using assms(2,3) by (cases s) auto
  then have "trim (s @ 0 # r) = trim_right (s @ 0 # r)"
    using trim_left_result [OF assms(1), of r] by (simp add: trim_def)
  moreover have "rstrip t = t" if "set t \<subseteq> set s" for t
    using that assms(3) by (cases t rule: rev_cases) auto
  then have "rstrip (take n s) = take n s" for n using set_take_subset by metis
  ultimately show ?thesis using trim_right_general [OF assms(1,2), of r] by (simp flip: append_assoc)
qed

definition octet_hex :: "u8 \<Rightarrow> bytes" where
  "octet_hex c = [octet_char (drop_bit 4 c AND 0x0f), octet_char (c AND 0x0f)]"

lemma low_nibble: "c AND 0x0f = of_nat (unat (c :: u8) mod 16)"
  by (simp add: and_0x0f word_unat_eq_iff take_bit_eq_mod unat_mod unsigned_of_nat)

lemma octet_char_props:
  "octet_digit (octet_char (c AND 0x0f)) = Some (c AND 0x0f)"
  "octet_char (c AND 0x0f) \<noteq> 0" "octet_char (c AND 0x0f) \<noteq> 0x20" "\<not> IS_WHITE_SPACE (octet_char (c AND 0x0f))"
proof -
  have "\<forall>n < 16. octet_digit (octet_char (of_nat n)) = Some (of_nat n :: u8) \<and> octet_char (of_nat n) \<noteq> 0 \<and>
      octet_char (of_nat n) \<noteq> 0x20 \<and> \<not> IS_WHITE_SPACE (octet_char (of_nat n))" by code_simp
  then have "octet_digit (octet_char (of_nat n)) = Some (of_nat n :: u8) \<and> octet_char (of_nat n) \<noteq> 0 \<and>
      octet_char (of_nat n) \<noteq> 0x20 \<and> \<not> IS_WHITE_SPACE (octet_char (of_nat n))" if "n < 16" for n using that by blast
  from this [of "unat c mod 16"] show "octet_digit (octet_char (c AND 0x0f)) = Some (c AND 0x0f)"
    "octet_char (c AND 0x0f) \<noteq> 0" "octet_char (c AND 0x0f) \<noteq> 0x20" "\<not> IS_WHITE_SPACE (octet_char (c AND 0x0f))"
    unfolding low_nibble by simp_all
qed

lemma length_octet_hex [simp]: "length (octet_hex c) = 2" "length (concat (map octet_hex bs)) = 2 * length bs"
proof -
  show "length (octet_hex c) = 2" for c by (simp add: octet_hex_def)
  then show "length (concat (map octet_hex bs)) = 2 * length bs" by (induction bs) simp_all
qed

lemma two_more: "2 * Suc n \<le> length r \<Longrightarrow> \<exists>x y r'. r = x # y # r' \<and> 2 * n \<le> length r'"
  by (cases r; cases "tl r") auto

lemma octet_text_result:
  assumes "drop i src = bs @ more" "length pre = j" "2 * length bs \<le> length rest"
  shows "octet_text (length bs) i j src (pre @ rest) =
    Some (pre @ concat (map octet_hex bs) @ drop (2 * length bs) rest)"
  using assms
proof (induction bs arbitrary: i j pre rest)
  case (Cons b bs)
  obtain x y r where rest: "rest = x # y # r" "2 * length bs \<le> length r" using two_more Cons.prems(3) by fastforce
  have src: "rd src i = Some b" "drop (Suc i) src = bs @ more"
    using drop_step [of i src b "bs @ more"] Cons.prems(1) by simp_all
  show ?case
    using Cons.IH [of "Suc i" "pre @ octet_hex b" "Suc (Suc j)" r] Cons.prems(2) rest src
    by (simp add: wr_def octet_hex_def list_update_append)
qed simp

lemma octet_digits_result:
  assumes "drop i src = s @ more" "length pre = j" "length s \<le> length rest"
    and "\<forall>c \<in> set s. c \<noteq> 0x20 \<and> octet_digit c = Some (v c)"
  shows "octet_digits (length s) i j src (pre @ rest) =
    Some (True, j + length s, pre @ map v s @ drop (length s) rest)"
  using assms
proof (induction s arbitrary: i j pre rest)
  case (Cons c s)
  obtain x r where rest: "rest = x # r" "length s \<le> length r" using Cons.prems(3) by (cases rest) auto
  have src: "rd src i = Some c" "drop (Suc i) src = s @ more"
    using drop_step [of i src c "s @ more"] Cons.prems(1) by simp_all
  show ?case
    using Cons.IH [of "Suc i" "pre @ [v c]" "Suc j" r] Cons.prems(2,4) rest src
    by (simp add: wr_def list_update_append)
qed simp

text \<open>Text whose digits do not fit into \<open>stream\<close>.\<close>

lemma octet_digits_overflow:
  assumes "drop i src = s @ more" "length stream < j + length s" "j \<le> length stream"
    and "\<forall>c \<in> set s. c \<noteq> 0x20 \<and> octet_digit c \<noteq> None"
  shows "octet_digits (length s) i j src stream = None"
  using assms
proof (induction s arbitrary: i j stream)
  case (Cons c s)
  have src: "rd src i = Some c" "drop (Suc i) src = s @ more"
    using drop_step [of i src c "s @ more"] Cons.prems(1) by simp_all
  obtain v where "octet_digit c = Some v" "c \<noteq> 0x20" using Cons.prems(4) by auto
  then show ?case using Cons.IH [of "Suc i" "stream[j := v]" "Suc j"] Cons.prems src
    by (cases "j < length stream") (simp_all add: wr_def)
qed simp

lemma octet_join: "push_bit 4 (drop_bit 4 c AND 0x0f) OR (c AND 0x0f) = (c :: u8)"
proof (rule bit_word_eqI)
  fix n assume "n < LENGTH(8)"
  then show "bit (push_bit 4 (drop_bit 4 c AND 0x0f) OR (c AND 0x0f)) n = bit c n"
    by (cases "n < 4") (auto simp: and_0x0f bit_or_iff bit_push_bit_iff bit_take_bit_iff bit_drop_bit_eq)
qed

lemma octet_bytes_result:
  assumes "drop j stream = concat (map (\<lambda>c. [drop_bit 4 c AND 0x0f, c AND 0x0f]) bs) @ more"
    and "length pre = i" "length bs \<le> length rest"
  shows "octet_bytes (length bs) i j stream (pre @ rest) = Some (pre @ bs @ drop (length bs) rest)"
  using assms
proof (induction bs arbitrary: i j pre rest)
  case (Cons b bs)
  let ?m = "concat (map (\<lambda>c. [drop_bit 4 c AND 0x0f, c AND 0x0f]) bs) @ more"
  obtain x r where rest: "rest = x # r" "length bs \<le> length r" using Cons.prems(3) by (cases rest) auto
  have "rd stream j = Some (drop_bit 4 b AND 0x0f)" "drop (Suc j) stream = (b AND 0x0f) # ?m"
    using drop_step [of j stream "drop_bit 4 b AND 0x0f" "(b AND 0x0f) # ?m"] Cons.prems(1) by simp_all
  moreover from this have "rd stream (Suc j) = Some (b AND 0x0f)" "drop (Suc (Suc j)) stream = ?m"
    using drop_step [of "Suc j" stream "b AND 0x0f" ?m] by simp_all
  ultimately show ?case
    using Cons.IH [of "Suc (Suc j)" "pre @ [b]" "Suc i" r] Cons.prems(2) rest octet_join [of b]
    by (simp add: wr_def list_update_append)
qed simp

definition octet_val :: "u8 \<Rightarrow> u8" where
  "octet_val c = (case octet_digit c of Some v \<Rightarrow> v | None \<Rightarrow> 0)"

lemma octet_chars:
  assumes "c \<in> set (concat (map octet_hex bs))"
  shows "c \<noteq> 0" "\<not> IS_WHITE_SPACE c" "c \<noteq> 0x20 \<and> octet_digit c = Some (octet_val c)"
proof -
  obtain b where "c = octet_char (b AND 0x0f)" using assms by (auto simp: octet_hex_def)
  then show "c \<noteq> 0" "\<not> IS_WHITE_SPACE c" "c \<noteq> 0x20 \<and> octet_digit c = Some (octet_val c)"
    using octet_char_props [of b] by (auto simp: octet_val_def)
qed

lemma octet_vals:
  "map octet_val (concat (map octet_hex bs)) = concat (map (\<lambda>c. [drop_bit 4 c AND 0x0f, c AND 0x0f]) bs)"
  by (induction bs) (simp_all add: octet_hex_def octet_val_def octet_char_props)

text \<open>Up to 255 bytes written as hexadecimal text and read back are the bytes, when a NUL follows the
  text, which the writer does not put there.\<close>

theorem octets_roundtrip:
  assumes "bs \<noteq> []" "length bs < 256" "2 * length bs < length d" "d ! (2 * length bs) = 0"
    and "length stream = 3000" "length bs \<le> length d'"
  shows "\<exists>m. AT_UtilOctetToString (bs @ more) (of_nat (length bs)) d = Some (True, m) \<and>
    AT_UtilStringToOctet stream m (of_nat (length bs)) d' = Some (True, m, bs @ drop (length bs) d')"
proof -
  let ?t = "concat (map octet_hex bs)"
  let ?m = "?t @ drop (2 * length bs) d"
  have u: "unat (of_nat (length bs) :: u8) = length bs" "unat (of_nat (length bs) :: u16) = length bs"
    "unat (of_nat (2 * length bs) :: u16) = 2 * length bs"
    using assms(2) by (simp_all add: unsigned_of_nat take_bit_nat_eq_self del: of_nat_mult)
  have "octet_text (length bs) 0 0 (bs @ more) ([] @ d) = Some ([] @ ?m)"
    using assms(3) by (subst octet_text_result [where more = more]) simp_all
  then have written: "AT_UtilOctetToString (bs @ more) (of_nat (length bs)) d = Some (True, ?m)"
    using u(1) by (simp add: AT_UtilOctetToString_def)
  have m: "?m = ?t @ 0 # drop (Suc (2 * length bs)) d"
    using assms(3,4) by (metis Cons_nth_drop_Suc)
  have t: "0 \<notin> set ?t" "?t \<noteq> []" using octet_chars(1) [of _ bs] assms(1) by (auto simp: octet_hex_def)
  have trim: "trim ?m = Some ?m" "c_strlen ?m = Some (2 * length bs)"
    using trim_no_space [OF t] octet_chars(2) [of _ bs] t(1) unfolding m by auto
  have "octet_digits (length ?t) 0 0 ?m ([] @ stream) = Some (True, 0 + length ?t, [] @ map octet_val ?t @ drop (length ?t) stream)"
    using octet_chars(3) [of _ bs] assms(2,5) by (intro octet_digits_result [where more = "drop (2 * length bs) d"]) auto
  moreover have "octet_bytes (length bs) 0 0 (map octet_val ?t @ drop (2 * length bs) stream) ([] @ d') =
      Some ([] @ bs @ drop (length bs) d')"
    using assms(6) by (intro octet_bytes_result [where more = "drop (2 * length bs) stream"]) (simp_all add: octet_vals)
  ultimately have "AT_UtilStringToOctet stream ?m (of_nat (length bs)) d' = Some (True, ?m, bs @ drop (length bs) d')"
    using trim u by (simp add: AT_UtilStringToOctet_def)
  then show ?thesis using written by blast
qed

lemma octets_roundtrip_witness:
  "\<exists>m. AT_UtilOctetToString [0xa5, 0x0f] 2 (replicate 5 0) = Some (True, m) \<and>
    AT_UtilStringToOctet (replicate 3000 7) m 2 [1, 2, 3] = Some (True, m, [0xa5, 0x0f, 3])"
  using octets_roundtrip [of "[0xa5, 0x0f]" "replicate 5 0" "replicate 3000 7" "[1, 2, 3]" "[]"] by simp

text \<open>A text of more than 3000 digits is collected past the end of the array on the stack.\<close>

theorem octets_overflow:
  assumes "\<forall>c \<in> set s. octet_digit c \<noteq> None" "3000 < length s" "length s < 2 ^ 16" "length stream = 3000"
  shows "AT_UtilStringToOctet stream (s @ 0 # r) l d = None"
proof -
  have c: "c \<noteq> 0 \<and> \<not> IS_WHITE_SPACE c \<and> c \<noteq> 0x20" if "c \<in> set s" for c
    using assms(1) that by (force simp: octet_digit_def IS_WHITE_SPACE_def)
  then have nul: "0 \<notin> set s" "s \<noteq> []" using assms(2) by auto
  have "trim (s @ 0 # r) = Some (s @ 0 # r)" using trim_no_space [OF nul] c by blast
  moreover have "octet_digits (length s) 0 0 (s @ 0 # r) stream = None"
    using assms c by (intro octet_digits_overflow [where more = "0 # r"]) auto
  moreover have "unat (of_nat (length s) :: u16) = length s"
    using assms(3) by (simp add: unsigned_of_nat take_bit_nat_eq_self)
  ultimately show ?thesis using nul by (simp add: AT_UtilStringToOctet_def)
qed

lemma octets_overflow_witness: "AT_UtilStringToOctet (replicate 3000 0) (replicate 3002 0x61 @ 0 # []) 1501 [] = None"
  by (rule octets_overflow) (simp_all add: octet_digit_def)


section \<open>Bits\<close>

definition bit_char :: "bool \<Rightarrow> u8" where
  "bit_char b = (if b then 0x31 else 0x30)"

definition bits_of :: "u8 \<Rightarrow> nat \<Rightarrow> bytes" where
  "bits_of b n = map (\<lambda>i. bit_char (bit b (n - i - 1))) [0..<n]"

lemma low_bit: "x AND 1 = (1 :: u8) \<longleftrightarrow> bit x 0"
  by (simp add: and_one_eq odd_iff_mod_2_eq_one bit_0)

lemma bit_text_result:
  assumes "i + k = n" "length pre = i" "k \<le> length rest"
  shows "bit_text k i b n (pre @ rest) =
    Some (n, pre @ map (\<lambda>i. bit_char (bit b (n - i - 1))) [i..<n] @ drop k rest)"
  using assms
proof (induction k arbitrary: i pre rest)
  case (Suc k)
  obtain x r where rest: "rest = x # r" "k \<le> length r" using Suc.prems(3) by (cases rest) auto
  have "[i..<n] = i # [Suc i..<n]" using Suc.prems(1) by (simp add: upt_conv_Cons)
  then show ?case
    using Suc.IH [of "Suc i" "pre @ [bit_char (bit b (n - i - 1))]" r] Suc.prems rest
    by (simp add: wr_def list_update_append low_bit bit_drop_bit_eq bit_char_def)
qed simp

lemma bit_step:
  assumes "i < n" "n \<le> 8"
  shows "push_bit 1 (take_bit i (drop_bit (n - i) b)) OR of_bool (bit b (n - i - 1)) =
    take_bit (Suc i) (drop_bit (n - Suc i) (b :: u8))"
proof (rule bit_word_eqI)
  fix k assume "k < LENGTH(8)"
  then show "bit (push_bit 1 (take_bit i (drop_bit (n - i) b)) OR of_bool (bit b (n - i - 1))) k =
      bit (take_bit (Suc i) (drop_bit (n - Suc i) b)) k"
    using assms unfolding bit_or_iff bit_push_bit_iff bit_take_bit_iff bit_drop_bit_eq bit_of_bool_iff comp_apply
    by (cases k) (auto simp: ac_simps Suc_diff_le [symmetric])
qed

lemma bits_loop_result:
  assumes "i + k = n" "n \<le> 8" "drop i src = drop i (bits_of b n) @ more"
  shows "bits_loop k i (take_bit i (drop_bit (n - i) b)) src = Some (True, take_bit n b)"
  using assms
proof (induction k arbitrary: i)
  case (Suc k)
  have "drop i (bits_of b n) = bit_char (bit b (n - i - 1)) # drop (Suc i) (bits_of b n)"
    using Suc.prems(1) by (subst Cons_nth_drop_Suc [symmetric]) (simp_all add: bits_of_def)
  then have src: "rd src i = Some (bit_char (bit b (n - i - 1)))" "drop (Suc i) src = drop (Suc i) (bits_of b n) @ more"
    using drop_step [of i src] Suc.prems(3) by simp_all
  have "push_bit 1 (take_bit i (drop_bit (n - i) b)) OR of_bool (bit b (n - i - 1)) =
      take_bit (Suc i) (drop_bit (n - Suc i) b)"
    using bit_step [of i n b] Suc.prems(1,2) by simp
  then show ?case using Suc.IH [of "Suc i"] Suc.prems src
    by (cases "bit b (n - i - 1)") (simp_all add: bit_char_def)
qed simp

text \<open>The lowest one to eight bits of a byte written as text and read back.\<close>

theorem bits_roundtrip:
  assumes "0 < n" "n \<le> 8" "unat n < length d"
  shows "\<exists>m. AT_Util_ByteToBitStr (Some d) b n = Some (True, Some m) \<and>
    AT_Util_BitStrToByte x (Some m) = Some (True, take_bit (unat n) b)"
proof -
  have n: "0 < unat n" "unat n \<le> 8" using assms(1,2) by (simp_all add: word_le_nat_alt word_less_nat_alt)
  let ?t = "bits_of b (unat n)"
  let ?m = "?t @ 0 # drop (Suc (unat n)) d"
  have "bit_text (unat n) 0 b (unat n) ([] @ d) = Some (unat n, [] @ ?t @ drop (unat n) d)"
    using assms(3) unfolding bits_of_def by (intro bit_text_result) simp_all
  moreover have "wr (?t @ drop (unat n) d) (unat n) 0 = Some ?m"
    using assms(3) by (simp add: wr_def bits_of_def list_update_append flip: Cons_nth_drop_Suc)
  moreover have "\<not> n > 8" "n \<noteq> 0" using assms(1,2) by auto
  ultimately have "AT_Util_ByteToBitStr (Some d) b n = Some (True, Some ?m)"
    by (simp add: AT_Util_ByteToBitStr_def)
  moreover have "0 \<notin> set ?t" by (auto simp: bits_of_def bit_char_def)
  then have "c_strlen ?m = Some (unat n)" using c_strlen_append_nul [of ?t] by (simp add: bits_of_def)
  moreover have "bits_loop (unat n) 0 (take_bit 0 (drop_bit (unat n - 0) b)) ?m = Some (True, take_bit (unat n) b)"
    using n by (intro bits_loop_result [where more = "0 # drop (Suc (unat n)) d"]) simp_all
  ultimately show ?thesis using n by (simp add: AT_Util_BitStrToByte_def)
qed

lemma bits_roundtrip_witness:
  "\<exists>m. AT_Util_ByteToBitStr (Some (replicate 9 1)) 0xa5 4 = Some (True, Some m) \<and>
    AT_Util_BitStrToByte 0 (Some m) = Some (True, take_bit 4 0xa5)"
  using bits_roundtrip [of 4 "replicate 9 1" "0xa5" 0] by simp

section \<open>BCD\<close>

definition bcd_pair :: "u8 \<Rightarrow> u8 \<Rightarrow> u8" where
  "bcd_pair a b = (a AND 0x0f) OR push_bit 4 (b AND 0x0f)"

lemma bcd_pair_halves:
  "bcd_pair a b AND 0x0f = a AND 0x0f" "drop_bit 4 (bcd_pair a b) AND 0x0f = b AND 0x0f"
proof -
  show "bcd_pair a b AND 0x0f = a AND 0x0f"
    by (rule bit_word_eqI) (auto simp: bcd_pair_def and_0x0f bit_or_iff bit_push_bit_iff bit_take_bit_iff)
  show "drop_bit 4 (bcd_pair a b) AND 0x0f = b AND 0x0f"
    by (rule bit_word_eqI) (auto simp: bcd_pair_def and_0x0f bit_or_iff bit_push_bit_iff bit_take_bit_iff bit_drop_bit_eq)
qed

lemma digit_cases: "is_digit c \<Longrightarrow> \<exists>n < 10. c = of_nat (48 + n)"
  using digit_value [of c]
  by (intro exI [of _ "unat c - 48"])
    (simp add: is_digit_def word_le_nat_alt word_unat_eq_iff unsigned_of_nat take_bit_nat_eq_self)

lemma digit_nibble:
  assumes "is_digit c"
  shows "(c AND 0x0f) OR 0x30 = c" "c AND 0x0f \<noteq> 0x0f" "c OR 0xf0 = (c AND 0x0f) OR 0xf0"
proof -
  have all: "\<forall>n < 10. (of_nat (48 + n) AND 0x0f) OR 0x30 = (of_nat (48 + n) :: u8) \<and> of_nat (48 + n) AND 0x0f \<noteq> (0x0f :: u8) \<and>
      of_nat (48 + n) OR 0xf0 = ((of_nat (48 + n) AND 0x0f) OR 0xf0 :: u8)" by code_simp
  obtain n where "n < 10" "c = of_nat (48 + n)" using digit_cases [OF assms] by blast
  then show "(c AND 0x0f) OR 0x30 = c" "c AND 0x0f \<noteq> 0x0f" "c OR 0xf0 = (c AND 0x0f) OR 0xf0" using all by blast+
qed

lemma high_nibble: "c AND 0xf0 = 0xf0 \<Longrightarrow> drop_bit 4 c AND 0x0f = (0x0f :: u8)"
proof -
  assume "c AND 0xf0 = 0xf0"
  then have "drop_bit 4 c AND drop_bit 4 0xf0 = drop_bit 4 (0xf0 :: u8)" by (metis drop_bit_and)
  moreover have "drop_bit 4 (0xf0 :: u8) = 0x0f" by code_simp
  ultimately show ?thesis by simp
qed

text \<open>The bytes of a text of digits.\<close>

fun bcd_of :: "bytes \<Rightarrow> bytes" where
  "bcd_of [] = []"
| "bcd_of [a] = [(a AND 0x0f) OR 0xf0]"
| "bcd_of (a # b # s) = bcd_pair a b # bcd_of s"

lemma length_bcd_of: "length (bcd_of s) = (length s + 1) div 2"
  by (induction s rule: bcd_of.induct) auto

lemma bcd_loop_result:
  assumes "drop (2 * i) s = concat (map (\<lambda>(a, b). [a, b]) ps) @ more" "length pre = i" "length ps \<le> length rest"
  shows "bcd_loop (length ps) i s (pre @ rest) =
    Some (pre @ map (\<lambda>(a, b). bcd_pair a b) ps @ drop (length ps) rest)"
  using assms
proof (induction ps arbitrary: i pre rest)
  case (Cons p ps)
  obtain a b where p: "p = (a, b)" by force
  let ?m = "concat (map (\<lambda>(a, b). [a, b]) ps) @ more"
  obtain x r where rest: "rest = x # r" "length ps \<le> length r" using Cons.prems(3) by (cases rest) auto
  have "rd s (2 * i) = Some a" "rd s (2 * i + 1) = Some b" "drop (2 * Suc i) s = ?m"
    using drop_step [of "2 * i" s a "b # ?m"] drop_step [of "Suc (2 * i)" s b ?m] Cons.prems(1) p by simp_all
  then show ?case using Cons.IH [of "Suc i" "pre @ [bcd_pair a b]" r] Cons.prems(2) rest p
    by (simp add: wr_def list_update_append bcd_pair_def)
qed simp

lemma byte_of_digits:
  assumes "is_digit a" "is_digit b" "length pre = 2 * i" "2 * i + 1 < 256"
  shows "Option.bind (bcd_high i (bcd_pair a b) (of_nat (2 * i), pre @ x # y # r)) (bcd_low i (bcd_pair a b)) =
    Some (of_nat (2 * i + 2), (pre @ [b, a]) @ r)"
proof -
  have "unat (of_nat (2 * i) + 1 :: u8) = 2 * i + 1"
    using assms(4) by (simp add: unat_word_ariths unsigned_of_nat take_bit_nat_eq_self)
  moreover have "bcd_pair a b AND 0xf0 \<noteq> 0xf0"
    using high_nibble [of "bcd_pair a b"] digit_nibble(2) [OF assms(2)] by (auto simp: bcd_pair_halves)
  ultimately show ?thesis using assms(3) digit_nibble [OF assms(1)] digit_nibble [OF assms(2)]
    by (simp add: bcd_high_def bcd_low_def bcd_pair_halves wr_def list_update_append)
qed

lemma byte_of_digit:
  assumes "is_digit a" "length pre = 2 * i" "2 * i < 256"
  shows "Option.bind (bcd_high i ((a AND 0x0f) OR 0xf0) (of_nat (2 * i), pre @ x # r)) (bcd_low i ((a AND 0x0f) OR 0xf0)) =
    Some (of_nat (2 * i + 1), pre @ [a] @ r)"
proof -
  have "((a AND 0x0f) OR 0xf0) AND 0xf0 = 0xf0" "((a AND 0x0f) OR 0xf0) AND 0x0f = a AND 0x0f"
    by (simp_all add: bit.conj_disj_distrib2 and.assoc)
  moreover have "unat (of_nat (2 * i) :: u8) = 2 * i"
    using assms(3) by (simp add: unsigned_of_nat take_bit_nat_eq_self del: of_nat_mult)
  ultimately show ?thesis using assms(2) digit_nibble [OF assms(1)]
    by (simp add: bcd_high_def bcd_low_def wr_def list_update_append)
qed

lemma numeric_of_bcd_0 [simp]: "numeric_of_bcd 0 i src = Some"
  by (rule ext) simp

lemma numeric_of_bcd_result:
  assumes "list_all is_digit s" "drop i src = bcd_of s @ more" "length pre = 2 * i"
    and "2 * i + length s < 256" "length s \<le> length rest"
  shows "numeric_of_bcd (length (bcd_of s)) i src (of_nat (2 * i), pre @ rest) =
    Some (of_nat (2 * i + length s), pre @ swap_pairs s @ drop (length s) rest)"
  using assms
proof (induction s arbitrary: i pre rest rule: bcd_of.induct)
  case (2 a)
  then obtain x r where rest: "rest = x # r" by (cases rest) auto
  have src: "rd src i = Some ((a AND 0x0f) OR 0xf0)" using drop_step [of i src] 2(2) by simp
  have "numeric_of_bcd (length (bcd_of [a])) i src (of_nat (2 * i), pre @ rest) =
      Option.bind (bcd_high i ((a AND 0x0f) OR 0xf0) (of_nat (2 * i), pre @ x # r)) (bcd_low i ((a AND 0x0f) OR 0xf0))"
    unfolding rest using src by simp
  then show ?case using byte_of_digit [of a pre i x r] 2(1,3,4) rest by simp
next
  case (3 a b s)
  obtain x y r where rest: "rest = x # y # r" "length s \<le> length r" using 3(6) by (auto simp: Suc_le_length_iff)
  have src: "rd src i = Some (bcd_pair a b)" "drop (Suc i) src = bcd_of s @ more"
    using drop_step [of i src "bcd_pair a b" "bcd_of s @ more"] 3(3) by simp_all
  have "numeric_of_bcd (length (bcd_of (a # b # s))) i src (of_nat (2 * i), pre @ rest) =
      Option.bind (Option.bind (bcd_high i (bcd_pair a b) (of_nat (2 * i), pre @ x # y # r)) (bcd_low i (bcd_pair a b)))
        (numeric_of_bcd (length (bcd_of s)) (i + 1) src)"
    unfolding rest(1) using src(1) by simp
  also have "\<dots> = numeric_of_bcd (length (bcd_of s)) (Suc i) src (of_nat (2 * Suc i), (pre @ [b, a]) @ r)"
    using byte_of_digits [of a b pre i x y r] 3(2,4,5) by simp
  also have "\<dots> = Some (of_nat (2 * Suc i + length s), (pre @ [b, a]) @ swap_pairs s @ drop (length s) r)"
    using 3(2,4,5) src(2) rest(2) by (intro 3(1)) simp_all
  finally show ?case unfolding rest(1) by simp
qed simp

text \<open>A text of digits as pairs and, when its length is odd, a last digit.\<close>

lemma digits_pairs:
  "\<exists>ps. length ps = length s div 2 \<and>
     s = concat (map (\<lambda>(a, b). [a, b]) ps) @ (if odd (length s) then [last s] else []) \<and>
     bcd_of s = map (\<lambda>(a, b). bcd_pair a b) ps @ (if odd (length s) then [(last s AND 0x0f) OR 0xf0] else [])"
proof (induction s rule: bcd_of.induct)
  case (3 a b s)
  then obtain ps where ps: "length ps = length s div 2"
    "s = concat (map (\<lambda>(a, b). [a, b]) ps) @ (if odd (length s) then [last s] else [])"
    "bcd_of s = map (\<lambda>(a, b). bcd_pair a b) ps @ (if odd (length s) then [(last s AND 0x0f) OR 0xf0] else [])" by blast
  have l: "odd (length (a # b # s)) = odd (length s)" "odd (length s) \<Longrightarrow> last (a # b # s) = last s" by (cases s; simp)+
  then have e: "(if odd (length (a # b # s)) then f (last (a # b # s)) else []) =
      (if odd (length s) then f (last s) else [])" for f :: "u8 \<Rightarrow> bytes" by simp
  have "a # b # s = concat (map (\<lambda>(a, b). [a, b]) ((a, b) # ps)) @
      (if odd (length s) then [last s] else [])"
    by (subst ps(2)) simp
  moreover have "bcd_of (a # b # s) = map (\<lambda>(a, b). bcd_pair a b) ((a, b) # ps) @
      (if odd (length s) then [(last s AND 0x0f) OR 0xf0] else [])"
    using ps(3) by simp
  moreover have "length ((a, b) # ps) = length (a # b # s) div 2" using ps(1) by simp
  ultimately show ?case
    unfolding e [of "\<lambda>x. [x]"] e [of "\<lambda>x. [(x AND 0x0f) OR 0xf0]"] by blast
qed auto

lemma numeric2bcd_result:
  assumes "list_all is_digit s" "length s < 256" "length (bcd_of s) \<le> unat l" "unat l \<le> length d"
  shows "numeric2bcd (s @ 0 # r) d l = Some (True,
    bcd_of s @ replicate (unat l - length (bcd_of s)) 0 @ drop (unat l) d, of_nat (length (bcd_of s)))"
proof -
  let ?n = "length s"
  let ?z = "replicate (unat l) 0 @ drop (unat l) d"
  have nul: "0 \<notin> set s" using assms(1) by (auto simp: list_all_iff is_digit_def)
  have n: "unat (of_nat ?n :: u8) = ?n" using assms(2) by (simp add: unsigned_of_nat take_bit_nat_eq_self)
  have half: "unat (of_nat ?n div 2 :: u8) = ?n div 2" using n by (simp add: unat_div)
  have even: "(of_nat ?n :: u8) div 2 * 2 = of_nat ?n \<longleftrightarrow> even ?n"
  proof -
    have "unat ((of_nat ?n :: u8) div 2 * 2) = ?n div 2 * 2"
      using half assms(2) by (subst unat_mult_lem [THEN iffD1]) simp_all
    then show ?thesis using n by (simp add: word_unat_eq_iff even_two_times_div_two) presburger
  qed
  have out: "(if (of_nat ?n :: u8) div 2 * 2 = of_nat ?n then (of_nat ?n :: u8) div 2 else of_nat ?n div 2 + 1) =
      of_nat (length (bcd_of s))"
  proof -
    have "(of_nat ?n :: u8) div 2 = of_nat (?n div 2)" 
      using half assms(2) by (simp add: word_unat_eq_iff unsigned_of_nat take_bit_nat_eq_self)
    then show ?thesis unfolding even by (auto simp: length_bcd_of elim!: evenE oddE)
  qed
  have k: "unat (of_nat (length (bcd_of s)) :: u8) = length (bcd_of s)"
    using assms(2) by (simp add: length_bcd_of unsigned_of_nat take_bit_nat_eq_self)
  obtain ps where ps: "length ps = ?n div 2"
    "s = concat (map (\<lambda>(a, b). [a, b]) ps) @ (if odd ?n then [last s] else [])"
    "bcd_of s = map (\<lambda>(a, b). bcd_pair a b) ps @ (if odd ?n then [(last s AND 0x0f) OR 0xf0] else [])"
    using digits_pairs [of s] by blast
  have clear: "wr_block d 0 (replicate (unat l) 0) = Some ?z" using assms(4) by (simp add: wr_block_def)
  have "bcd_loop (length ps) 0 (s @ 0 # r) ([] @ ?z) =
      Some ([] @ map (\<lambda>(a, b). bcd_pair a b) ps @ drop (length ps) ?z)"
  proof (rule bcd_loop_result)
    show "drop (2 * 0) (s @ 0 # r) = concat (map (\<lambda>(a, b). [a, b]) ps) @ (if odd ?n then [last s] else []) @ 0 # r"
      by (subst ps(2)) simp
    show "length ps \<le> length ?z" using ps(1) assms(3,4) length_bcd_of [of s] by simp
  qed simp
  then have loop: "bcd_loop (?n div 2) 0 (s @ 0 # r) ?z = Some (map (\<lambda>(a, b). bcd_pair a b) ps @ drop (?n div 2) ?z)"
    using ps(1) by simp
  have fits: "\<not> l < of_nat (length (bcd_of s))" using assms(3) k by (simp add: word_less_nat_alt)
  have rest: "drop j ?z = replicate (unat l - j) 0 @ drop (unat l) d" if "j \<le> unat l" for j using that by simp
  show ?thesis
  proof (cases "even ?n")
    case True
    then have "\<not> of_nat ?n div 2 < (of_nat (length (bcd_of s)) :: u8)" "length (bcd_of s) = ?n div 2"
      using half k by (simp_all add: word_less_nat_alt length_bcd_of)
    then show ?thesis using nul n half out clear loop fits ps(3) True rest [of "?n div 2"] assms(3)
      by (simp add: numeric2bcd_def)
  next
    case False
    then have len: "length (bcd_of s) = Suc (?n div 2)" by (simp add: length_bcd_of)
    then have "of_nat ?n div 2 < (of_nat (length (bcd_of s)) :: u8)" using half k by (simp add: word_less_nat_alt)
    moreover have "rd (s @ 0 # r) (2 * (?n div 2)) = Some (last s)"
      using False by (cases s rule: rev_cases) (auto simp: rd_def nth_append)
    moreover have "last s OR 0xf0 = (last s AND 0x0f) OR 0xf0"
      using False assms(1) by (intro digit_nibble(3)) (cases s rule: rev_cases; auto)
    moreover have "unat l - ?n div 2 = Suc (unat l - Suc (?n div 2))" using assms(3) len by simp
    ultimately show ?thesis using nul n half out clear loop fits ps(1,3) False rest [of "?n div 2"] assms(3) len
      by (simp add: numeric2bcd_def wr_def list_update_append)
  qed
qed

text \<open>A text of digits converted to BCD and back has the two digits of every pair exchanged: one
  function puts the first digit into the low half of a byte and the other reads it from the high
  half. (A pair 00 is not allowed here, because its byte ends the BCD text.)\<close>

theorem bcd_swaps:
  assumes "list_all is_digit s" "length s < 256" "0 \<notin> set (bcd_of s)"
    and "length (bcd_of s) < unat l" "unat l \<le> length d"
    and "length s \<le> unat l'" "unat l' \<le> length d'"
  shows "\<exists>m. AT_Util_Numeric2BCD (Some (s @ 0 # r)) (Some d) (Some l) =
      Some (True, Some m, Some (of_nat (length (bcd_of s)))) \<and>
    AT_Util_BCD2Numeric (Some m) (Some d') (Some l') =
      Some (True, Some (swap_pairs s @ replicate (unat l' - length s) 0 @ drop (unat l') d'), Some (of_nat (length s)))"
proof -
  obtain j where j: "unat l - length (bcd_of s) = Suc j" using assms(4) by (metis Suc_diff_Suc)
  let ?m = "bcd_of s @ 0 # replicate j 0 @ drop (unat l) d"
  have 1: "numeric2bcd (s @ 0 # r) d l = Some (True, ?m, of_nat (length (bcd_of s)))"
    using numeric2bcd_result [OF assms(1,2) _ assms(5), of r] assms(4) j by simp
  have k: "unat (of_nat (length (bcd_of s)) :: u8) = length (bcd_of s)" "unat (of_nat (length s) :: u8) = length s"
    using assms(2) by (simp_all add: length_bcd_of unsigned_of_nat take_bit_nat_eq_self)
  let ?z = "replicate (unat l') 0 @ drop (unat l') d'"
  have "numeric_of_bcd (length (bcd_of s)) 0 ?m (of_nat (2 * 0), [] @ ?z) =
      Some (of_nat (2 * 0 + length s), [] @ swap_pairs s @ drop (length s) ?z)"
    using assms(1,2,6,7) by (intro numeric_of_bcd_result) simp_all
  moreover have "\<not> l' < of_nat (length s)" using assms(6) k(2) by (simp add: word_less_nat_alt)
  ultimately have "bcd2numeric ?m d' l' = Some (True, swap_pairs s @ drop (length s) ?z, of_nat (length s))"
    using assms(3,7) k(1) by (simp add: bcd2numeric_def wr_block_def)
  then show ?thesis using 1 assms(6)
    by (intro exI [of _ ?m] conjI) (simp_all add: AT_Util_Numeric2BCD_def AT_Util_BCD2Numeric_def)
qed

lemma bcd_swaps_witness:
  "\<exists>m l. AT_Util_Numeric2BCD (Some [0x31, 0x32, 0x33, 0]) (Some [9, 9, 9]) (Some 3) = Some (True, Some m, Some l) \<and>
    AT_Util_BCD2Numeric (Some m) (Some [9, 9, 9]) (Some 3) = Some (True, Some [0x32, 0x31, 0x33], Some 3)"
proof -
  have "bcd_of [0x31, 0x32, 0x33] = [0x21, 0xf3]" by (simp add: bcd_pair_def)
  then show ?thesis using bcd_swaps [of "[0x31, 0x32, 0x33]" 3 "[9, 9, 9]" 3 "[9, 9, 9]" "[]"]
    by (auto simp: is_digit_def)
qed

section \<open>Characters\<close>

text \<open>A GBK text: ASCII characters, and pairs that start above 127.\<close>

datatype gbk_char = Ascii u8 | Pair u8 u8

fun gbk_enc :: "gbk_char \<Rightarrow> bytes" where
  "gbk_enc (Ascii c) = [c]"
| "gbk_enc (Pair a b) = [a, b]"

fun gbk_ok :: "gbk_char \<Rightarrow> bool" where
  "gbk_ok (Ascii c) = (c \<noteq> 0 \<and> c \<le> 127)"
| "gbk_ok (Pair a b) = (a > 127)"

lemma gbk_len_result:
  assumes "list_all gbk_ok cs" "drop i s = concat (map gbk_enc cs) @ 0 # r"
    and "i + length (concat (map gbk_enc cs)) < 2 ^ 16"
  shows "gbk_len (of_nat i) n s = Some (n + of_nat (length cs))"
  using assms
proof (induction cs arbitrary: i n)
  case Nil
  then have "rd s i = Some 0" using drop_step [of i s] by simp
  moreover have "unat (of_nat i :: u16) = i" using Nil.prems(3) by (simp add: unsigned_of_nat take_bit_nat_eq_self)
  ultimately show ?case by (subst gbk_len.simps) simp
next
  case (Cons c cs)
  have u: "unat (of_nat i :: u16) = i" using Cons.prems(3) by (simp add: unsigned_of_nat take_bit_nat_eq_self)
  show ?case
  proof (cases c)
    case (Ascii a)
    have "rd s i = Some a" "drop (Suc i) s = concat (map gbk_enc cs) @ 0 # r"
      using drop_step [of i s a] Cons.prems(2) Ascii by simp_all
    then show ?thesis using Cons.IH [of "Suc i" "n + 1"] Cons.prems(1,3) Ascii u
      by (subst gbk_len.simps) (simp add: ac_simps)
  next
    case (Pair a b)
    have d: "rd s i = Some a" "drop (Suc i) s = b # concat (map gbk_enc cs) @ 0 # r"
      using drop_step [of i s a] Cons.prems(2) Pair by simp_all
    then have "drop (Suc (Suc i)) s = concat (map gbk_enc cs) @ 0 # r" using drop_step [of "Suc i" s b] by simp
    moreover have "a \<noteq> 0" "\<not> a \<le> 127" using Cons.prems(1) Pair by auto
    ultimately show ?thesis using Cons.IH [of "Suc (Suc i)" "n + 1"] Cons.prems(1,3) Pair u d
      by (subst gbk_len.simps) (simp add: ac_simps)
  qed
qed

text \<open>The number of characters of a GBK text, and of a UCS-2 text.\<close>

lemma gbk_char_count:
  assumes "list_all gbk_ok cs" "length (concat (map gbk_enc cs)) < 2 ^ 16"
  shows "AT_UtilGbkStrCharLen (concat (map gbk_enc cs) @ 0 # r) = Some (of_nat (length cs))"
  using gbk_len_result [of cs 0 "concat (map gbk_enc cs) @ 0 # r" r 0] assms by (simp add: AT_UtilGbkStrCharLen_def)

lemma ucs2_len_result:
  assumes "list_all (\<lambda>(a, b). (a, b) \<noteq> (0, 0)) cs" "drop i s = concat (map (\<lambda>(a, b). [a, b]) cs) @ 0 # 0 # r"
    and "i + 2 * length cs < 2 ^ 16"
  shows "ucs2_len (of_nat i) n s = Some (n + of_nat (length cs))"
  using assms
proof (induction cs arbitrary: i n)
  case Nil
  then have "rd s i = Some 0" "rd s (Suc i) = Some 0" using drop_step [of i s 0 "0 # r"] drop_step [of "Suc i" s 0 r] by simp_all
  moreover have "unat (of_nat i :: u16) = i" using Nil.prems(3) by (simp add: unsigned_of_nat take_bit_nat_eq_self)
  ultimately show ?case by (subst ucs2_len.simps) simp
next
  case (Cons c cs)
  obtain a b where c: "c = (a, b)" by force
  let ?m = "concat (map (\<lambda>(a, b). [a, b]) cs) @ 0 # 0 # r"
  have u: "unat (of_nat i :: u16) = i" using Cons.prems(3) by (simp add: unsigned_of_nat take_bit_nat_eq_self)
  have "rd s i = Some a" "rd s (Suc i) = Some b" "drop (Suc (Suc i)) s = ?m"
    using drop_step [of i s a "b # ?m"] drop_step [of "Suc i" s b ?m] Cons.prems(2) c by simp_all
  then show ?case using Cons.IH [of "Suc (Suc i)" "n + 1"] Cons.prems(1,3) c u
    by (subst ucs2_len.simps) (auto simp: ac_simps)
qed

lemma ucs2_char_count:
  assumes "list_all (\<lambda>(a, b). (a, b) \<noteq> (0, 0)) cs" "length cs < 2 ^ 15"
  shows "AT_UtilUcs2StrCharLen (concat (map (\<lambda>(a, b). [a, b]) cs) @ 0 # 0 # r) = Some (of_nat (length cs))"
  using ucs2_len_result [of cs 0 "concat (map (\<lambda>(a, b). [a, b]) cs) @ 0 # 0 # r" r 0] assms
  by (simp add: AT_UtilUcs2StrCharLen_def)

text \<open>A GBK text that ends in the first half of a pair is read past its NUL.\<close>

lemma gbk_half_pair:
  assumes "127 < c"
  shows "AT_UtilGbkStrCharLen [c, 0] = None"
  using assms by (simp add: AT_UtilGbkStrCharLen_def gbk_len.simps rd_def not_le) auto

end
