(* ===== verification/Str_Tokens.thy ===== *)
theory Str_Tokens
  imports Str_Trim
begin

text \<open>
  Comparing and copying strings, cutting a string into tokens and binary search (at_utility.c).
\<close>

section \<open>The model\<close>

text \<open>A copy in new memory; \<open>mem\<close> says whether the allocation succeeds.\<close>

definition AT_Util_StrDup :: "bool \<Rightarrow> bytes option \<Rightarrow> bytes option option" where
  "AT_Util_StrDup mem strSource =
     (case strSource of None \<Rightarrow> Some None
      | Some s \<Rightarrow> do {
          iLen \<leftarrow> c_strlen s;
          if \<not> mem then Some None
          else do { d \<leftarrow> strcpy (replicate (iLen + 1) 0) s; Some (Some d) } })"

function cmp_loop :: "nat \<Rightarrow> bytes \<Rightarrow> bytes \<Rightarrow> int option" where
  "cmp_loop i szStr1 szStr2 = do {
     a \<leftarrow> rd szStr1 i;
     b \<leftarrow> rd szStr2 i;
     if a > b then Some 1
     else if a < b then Some (-1)
     else if a = 0 then Some 0
     else cmp_loop (i + 1) szStr1 szStr2 }"
  by pat_completeness auto
termination by (relation "measure (\<lambda>(i, s, t). length s - i)") (auto simp: rd_eq_Some)

text \<open>Only the first string is compared with \<open>NULL\<close>, twice.\<close>

definition AT_Util_StrCmp :: "bytes option \<Rightarrow> bytes option \<Rightarrow> int option" where
  "AT_Util_StrCmp szStr1 szStr2 =
     (case (szStr1, szStr2) of
        (None, None) \<Rightarrow> Some 0
      | (None, Some _) \<Rightarrow> Some (-1)
      | (Some s, None) \<Rightarrow> None
      | (Some s, Some t) \<Rightarrow> cmp_loop 0 s t)"

text \<open>
  Tokens of the string in the region \<open>m\<close>; a pointer is an index, \<open>None\<close> is \<open>NULL\<close>. The result is
  the token, the pointer \<open>lasts\<close> and the region, in which a NUL ends the token.
\<close>

definition is_delim :: "bytes \<Rightarrow> u8 \<Rightarrow> bool" where
  "is_delim delim c \<longleftrightarrow> c \<in> set (cstr delim)"

definition strtok_r ::
  "nat option \<Rightarrow> bytes \<Rightarrow> nat option \<Rightarrow> bytes \<Rightarrow> (nat option \<times> nat option \<times> bytes) option" where
  "strtok_r s delim lasts m =
     (case (case s of None \<Rightarrow> lasts | Some p \<Rightarrow> Some p) of
        None \<Rightarrow> Some (None, None, m)
      | Some p \<Rightarrow> do {
          p \<leftarrow> skip_chars (is_delim delim) p m;
          c \<leftarrow> rd m p;
          if c = 0 then Some (None, None, m)
          else do {
            q \<leftarrow> skip_chars (\<lambda>c. \<not> is_delim delim c) (p + 1) m;
            c \<leftarrow> rd m q;
            if c = 0 then Some (Some p, None, m)
            else do { m \<leftarrow> wr m q 0; Some (Some p, Some (q + 1), m) } } })"

text \<open>
  The arguments of a command: 1000 bytes are 250 pointers, the first shows a constant text. The
  tokens end at blanks; \<open>strtok\<close> of the C library keeps the pointer \<open>lasts\<close> itself. The result is
  the array, the count and the region.
\<close>

datatype arg = Unset | Abc | Arg nat

function argv_loop :: "nat \<Rightarrow> nat option \<Rightarrow> nat option \<Rightarrow> bytes \<Rightarrow> arg list \<Rightarrow> (arg list \<times> nat \<times> bytes) option" where
  "argv_loop j token lasts m argv =
     (case token of None \<Rightarrow> Some (argv, j, m)
      | Some p \<Rightarrow>
          if j < length argv then
            (case strtok_r None [0x20, 0] lasts m of None \<Rightarrow> None
             | Some (token, lasts, m) \<Rightarrow> argv_loop (j + 1) token lasts m (argv[j := Arg p]))
          else None)"
  by pat_completeness auto
termination by (relation "measure (\<lambda>(j, t, l, m, a). length a - j)") auto

definition getargv :: "bytes \<Rightarrow> (arg list \<times> nat \<times> bytes) option" where
  "getargv param = do {
     (token, lasts, m) \<leftarrow> strtok_r (Some 0) [0x20, 0] None param;
     argv_loop 1 token lasts m (Abc # replicate 249 Unset) }"

text \<open>Binary search in an array of \<open>nmemb\<close> entries; \<open>compar\<close> compares the key with an entry.\<close>

function bsearch_loop :: "('k \<Rightarrow> 'a \<Rightarrow> int) \<Rightarrow> 'k \<Rightarrow> 'a list \<Rightarrow> nat \<Rightarrow> nat \<Rightarrow> nat option option" where
  "bsearch_loop compar key base l u =
     (if l < u then do {
        p \<leftarrow> rd base ((l + u) div 2);
        let comparison = compar key p;
        if comparison < 0 then bsearch_loop compar key base l ((l + u) div 2)
        else if comparison > 0 then bsearch_loop compar key base ((l + u) div 2 + 1) u
        else Some (Some ((l + u) div 2)) }
      else Some None)"
  by pat_completeness auto
termination by (relation "measure (\<lambda>(c, k, b, l, u). u - l)") auto

definition bsearch :: "'k \<Rightarrow> 'a list \<Rightarrow> nat \<Rightarrow> ('k \<Rightarrow> 'a \<Rightarrow> int) \<Rightarrow> nat option option" where
  "bsearch key base nmemb compar = bsearch_loop compar key base 0 nmemb"

declare cmp_loop.simps [simp del] argv_loop.simps [simp del] bsearch_loop.simps [simp del]

section \<open>Copies and comparisons\<close>

lemma str_dup:
  "0 \<notin> set s \<Longrightarrow> AT_Util_StrDup mem (Some (s @ 0 # r)) = Some (if mem then Some (s @ [0]) else None)"
  by (simp add: AT_Util_StrDup_def strcpy_def wr_block_def)

text \<open>The order of strings by their first difference.\<close>

fun str_order :: "bytes \<Rightarrow> bytes \<Rightarrow> int" where
  "str_order [] [] = 0"
| "str_order [] (b # t) = -1"
| "str_order (a # s) [] = 1"
| "str_order (a # s) (b # t) = (if a > b then 1 else if a < b then -1 else str_order s t)"

lemma cmp_loop_result:
  assumes "drop i m = s @ 0 # r" "drop i m' = t @ 0 # r'" "0 \<notin> set s" "0 \<notin> set t"
  shows "cmp_loop i m m' = Some (str_order s t)"
  using assms
proof (induction s t arbitrary: i rule: str_order.induct)
  case 1
  then have "rd m i = Some 0" "rd m' i = Some 0" using drop_step [of i m] drop_step [of i m'] by simp_all
  then show ?case by (simp add: cmp_loop.simps)
next
  case (2 b t)
  then have "rd m i = Some 0" "rd m' i = Some b" using drop_step [of i m] drop_step [of i m'] by simp_all
  then show ?case using 2 by (auto simp: cmp_loop.simps word_neq_0_conv)
next
  case (3 a s)
  then have "rd m i = Some a" "rd m' i = Some 0" using drop_step [of i m] drop_step [of i m'] by simp_all
  then show ?case using 3 by (auto simp: cmp_loop.simps word_neq_0_conv)
next
  case (4 a s b t)
  then have "rd m i = Some a" "drop (Suc i) m = s @ 0 # r" "rd m' i = Some b" "drop (Suc i) m' = t @ 0 # r'"
    using drop_step [of i m a] drop_step [of i m' b] by simp_all
  then show ?case using 4 by (subst cmp_loop.simps) auto
qed

text \<open>Two strings are compared by their first difference, within their memory; a second string that is
  \<open>NULL\<close> is followed when the first one is not.\<close>

theorem str_cmp_order:
  assumes "0 \<notin> set s" "0 \<notin> set t"
  shows "AT_Util_StrCmp (Some (s @ 0 # r)) (Some (t @ 0 # r')) = Some (str_order s t) \<and>
    (str_order s t = 0 \<longleftrightarrow> s = t) \<and> str_order t s = - str_order s t \<and>
    AT_Util_StrCmp (Some (s @ 0 # r)) None = None"
proof -
  have "str_order s t = 0 \<longleftrightarrow> s = t" by (induction s t rule: str_order.induct) auto
  moreover have "str_order t s = - str_order s t" by (induction s t rule: str_order.induct) auto
  ultimately show ?thesis using cmp_loop_result [of 0 "s @ 0 # r" s r "t @ 0 # r'" t r'] assms
    by (simp add: AT_Util_StrCmp_def)
qed

lemma str_cmp_order_witness: "AT_Util_StrCmp (Some [0x41, 0, 7]) (Some [0x41, 0x42, 0]) = Some (-1)"
  using str_cmp_order [of "[0x41]" "[0x41, 0x42]" "[7]" "[]"] by simp

section \<open>Binary search\<close>

text \<open>The comparison fits the array: entries before a smaller one are smaller, those behind a greater
  one are greater.\<close>

definition ordered_for :: "('k \<Rightarrow> 'a \<Rightarrow> int) \<Rightarrow> 'k \<Rightarrow> 'a list \<Rightarrow> bool" where
  "ordered_for c k xs \<longleftrightarrow> (\<forall>i < length xs. \<forall>j < i.
     (c k (xs ! i) > 0 \<longrightarrow> c k (xs ! j) > 0) \<and> (c k (xs ! j) < 0 \<longrightarrow> c k (xs ! i) < 0))"

lemma bsearch_loop_result:
  assumes "ordered_for c k xs" "u \<le> length xs" "\<forall>i < length xs. c k (xs ! i) = 0 \<longrightarrow> l \<le> i \<and> i < u"
  shows "\<exists>x. bsearch_loop c k xs l u = Some x \<and>
    (case x of None \<Rightarrow> \<forall>i < length xs. c k (xs ! i) \<noteq> 0 | Some i \<Rightarrow> i < length xs \<and> c k (xs ! i) = 0)"
  using assms
proof (induction c k xs l u rule: bsearch_loop.induct)
  case (1 c k xs l u)
  show ?case
  proof (cases "l < u")
    case False
    then have "\<forall>i < length xs. c k (xs ! i) \<noteq> 0" using 1(5) by fastforce
    then show ?thesis using False by (simp add: bsearch_loop.simps)
  next
    case True
    let ?m = "(l + u) div 2"
    have m: "?m < length xs" "?m < u" using True 1(4) by auto
    then have r: "rd xs ?m = Some (xs ! ?m)" by (simp add: rd_def)
    consider "c k (xs ! ?m) < 0" | "c k (xs ! ?m) > 0" | "c k (xs ! ?m) = 0" by linarith
    then show ?thesis
    proof cases
      case 1
      have "\<forall>i < length xs. c k (xs ! i) = 0 \<longrightarrow> l \<le> i \<and> i < ?m"
        using 1 "1.prems" m unfolding ordered_for_def by (metis less_irrefl linorder_neqE_nat)
      then show ?thesis using "1.IH"(1) [OF True r refl 1] 1 True r "1.prems"(1) m
        by (subst bsearch_loop.simps) simp
    next
      case 2
      have "\<forall>i < length xs. c k (xs ! i) = 0 \<longrightarrow> ?m + 1 \<le> i \<and> i < u"
        using 2 "1.prems" m unfolding ordered_for_def by (metis Suc_eq_plus1 Suc_leI less_irrefl linorder_neqE_nat)
      then show ?thesis using "1.IH"(2) [OF True r refl _ 2] 2 True r "1.prems"(1,2)
        by (subst bsearch_loop.simps) simp
    next
      case 3
      then show ?thesis using True r m by (subst bsearch_loop.simps) simp
    qed
  qed
qed

lemma bsearch_result:
  assumes "ordered_for compar key base"
  shows "\<exists>x. bsearch key base (length base) compar = Some x \<and>
    (case x of None \<Rightarrow> \<forall>i < length base. compar key (base ! i) \<noteq> 0
     | Some i \<Rightarrow> i < length base \<and> compar key (base ! i) = 0)"
  unfolding bsearch_def by (rule bsearch_loop_result) (simp_all add: assms)

text \<open>Binary search in an array that fits the comparison ends, stays inside the array and finds an entry
  equal to the key exactly when there is one.\<close>

theorem bsearch_correct:
  assumes "ordered_for compar key base"
  shows "\<exists>x. bsearch key base (length base) compar = Some x \<and>
    (case x of None \<Rightarrow> \<forall>i < length base. compar key (base ! i) \<noteq> 0
     | Some i \<Rightarrow> i < length base \<and> compar key (base ! i) = 0)"
  by (rule bsearch_result [OF assms])

lemma bsearch_correct_witness: "bsearch (5 :: int) [1, 5, 9] 3 (-) \<notin> {None, Some None}"
proof -
  have "ordered_for (-) (5 :: int) [1, 5, 9]" by (auto simp: ordered_for_def nth_Cons less_Suc_eq split: nat.splits)
  moreover have l: "length [1, 5, 9 :: int] = 3" by simp
  ultimately obtain x where x: "bsearch (5 :: int) [1, 5, 9] 3 (-) = Some x"
    "case x of None \<Rightarrow> \<forall>i < 3. 5 - [1, 5, 9 :: int] ! i \<noteq> 0 | Some i \<Rightarrow> i < 3 \<and> 5 - [1, 5, 9 :: int] ! i = 0"
    using bsearch_correct [of "(-)" "5 :: int" "[1, 5, 9]"] unfolding l by blast
  have "\<not> (\<forall>i < 3. 5 - [1, 5, 9 :: int] ! i \<noteq> 0)" by (auto intro!: exI [of _ 1])
  then have "x \<noteq> None" using x(2) by (cases x) auto
  then show ?thesis using x(1) by simp
qed

section \<open>Tokens\<close>

lemma rest_shorter: "dropWhile D s \<noteq> [] \<Longrightarrow> length (dropWhile D s) - Suc k < length s"
  using length_dropWhile_le [of D s] by (cases "dropWhile D s") auto

text \<open>The tokens of a text that starts at \<open>p\<close>, with the place where each starts.\<close>

function toks :: "(u8 \<Rightarrow> bool) \<Rightarrow> nat \<Rightarrow> bytes \<Rightarrow> (nat \<times> bytes) list" where
  "toks D p s =
     (let t = dropWhile D s; w = takeWhile (\<lambda>c. \<not> D c) t; k = p + length (takeWhile D s) in
      if t = [] then [] else (k, w) # toks D (k + length w + 1) (drop (length w + 1) t))"
  by pat_completeness auto
termination
  by (relation "measure (\<lambda>(D, p, s). length s)")
    (auto simp: Let_def rest_shorter simp del: dropWhile_eq_Nil_conv)

declare toks.simps [simp del]

abbreviation blank :: "u8 \<Rightarrow> bool" where
  "blank \<equiv> is_delim [0x20, 0]"

lemma blank: "blank c \<longleftrightarrow> c = 0x20"
  by (simp add: is_delim_def cstr_def)

lemma is_delim_0 [simp]: "\<not> is_delim d 0"
  using cstr_no_nul [of d] by (auto simp: is_delim_def)

lemma skip_chars_at:
  assumes "0 \<notin> set s"
  shows "skip_chars P (length pre) (pre @ s @ 0 # r) = Some (length (pre @ takeWhile P s))"
  using skip_chars_result [OF assms] by simp

text \<open>The first token: what is in front of it, the token and what follows.\<close>

lemma strtok_first:
  assumes "0 \<notin> set s" "dropWhile (is_delim d) s = t"
  shows "strtok_r (Some (length pre)) d l (pre @ s @ 0 # r) =
    (if t = [] then Some (None, None, pre @ s @ 0 # r)
     else let k = length (pre @ takeWhile (is_delim d) s); w = takeWhile (\<lambda>c. \<not> is_delim d c) t in
       if dropWhile (\<lambda>c. \<not> is_delim d c) t = [] then Some (Some k, None, pre @ s @ 0 # r)
       else Some (Some k, Some (k + length w + 1),
         (pre @ takeWhile (is_delim d) s @ w @ [0]) @ drop (length w + 1) t @ 0 # r))"
proof -
  let ?sp = "takeWhile (is_delim d) s" and ?w = "takeWhile (\<lambda>c. \<not> is_delim d c) t"
  have s: "s = ?sp @ t" using assms(2) takeWhile_dropWhile_id by metis
  have m: "pre @ s @ 0 # r = (pre @ ?sp) @ t @ 0 # r" using s by (metis append.assoc)
  have first: "skip_chars (is_delim d) (length pre) (pre @ s @ 0 # r) = Some (length (pre @ ?sp))"
    by (rule skip_chars_at [OF assms(1)])
  show ?thesis
  proof (cases t)
    case Nil
    have "rd (pre @ s @ 0 # r) (length (pre @ ?sp)) = Some 0" unfolding m Nil by (simp add: rd_def nth_append)
    then show ?thesis using first Nil by (simp add: strtok_r_def)
  next
    case (Cons c t')
    have nul: "0 \<notin> set t" using assms(1) s by (metis Un_iff set_append)
    have c: "rd (pre @ s @ 0 # r) (length (pre @ ?sp)) = Some c" "c \<noteq> 0" "\<not> is_delim d c"
      using nul assms(2) Cons unfolding m by (auto simp: rd_def nth_append dropWhile_eq_Cons_conv)
    have w: "?w = c # takeWhile (\<lambda>c. \<not> is_delim d c) t'" using Cons c(3) by simp
    have m1: "pre @ s @ 0 # r = (pre @ ?sp @ [c]) @ t' @ 0 # r" unfolding m Cons by simp
    have "skip_chars (\<lambda>c. \<not> is_delim d c) (length (pre @ ?sp @ [c])) (pre @ s @ 0 # r) =
        Some (length ((pre @ ?sp @ [c]) @ takeWhile (\<lambda>c. \<not> is_delim d c) t'))"
      unfolding m1 using nul Cons by (intro skip_chars_at) simp
    then have second: "skip_chars (\<lambda>c. \<not> is_delim d c) (length (pre @ ?sp) + 1) (pre @ s @ 0 # r) =
        Some (length (pre @ ?sp @ ?w))" using w by simp
    let ?t2 = "dropWhile (\<lambda>c. \<not> is_delim d c) t"
    have t: "t = ?w @ ?t2" by simp
    have m2: "pre @ s @ 0 # r = (pre @ ?sp @ ?w) @ ?t2 @ 0 # r"
      unfolding m by (subst t) (simp only: append.assoc)
    show ?thesis
    proof (cases ?t2)
      case Nil
      have "rd (pre @ s @ 0 # r) (length (pre @ ?sp @ ?w)) = Some 0"
        unfolding m2 Nil by (simp only: rd_def append_Nil length_append nth_append_length) simp
      then show ?thesis using first second c Cons Nil by (simp add: strtok_r_def)
    next
      case (Cons c2 t3)
      have "rd (pre @ s @ 0 # r) (length (pre @ ?sp @ ?w)) = Some c2"
        unfolding m2 Cons by (simp only: rd_def append_Cons nth_append_length) simp
      moreover have "c2 \<noteq> 0" using nul t Cons by (metis Un_iff list.set_intros(1) set_append)
      moreover have "wr (pre @ s @ 0 # r) (length (pre @ ?sp @ ?w)) 0 = Some ((pre @ ?sp @ ?w @ [0]) @ t3 @ 0 # r)"
        unfolding m2 Cons wr_def by (simp add: list_update_append)
      moreover have "drop (length ?w + 1) t = t3" using t Cons by (metis append_eq_conv_conj drop_Suc_Cons drop_drop add.commute One_nat_def plus_1_eq_Suc drop0)
      ultimately show ?thesis using first second c \<open>t = c # t'\<close> Cons by (simp add: strtok_r_def Let_def)
    qed
  qed
qed


text \<open>The loop of \<open>getargv\<close> behind the call that gives its token.\<close>

definition argv_from :: "nat \<Rightarrow> (nat option \<times> nat option \<times> bytes) option \<Rightarrow> arg list \<Rightarrow> (arg list \<times> nat \<times> bytes) option" where
  "argv_from j x argv = (case x of None \<Rightarrow> None | Some (t, l, m) \<Rightarrow> argv_loop j t l m argv)"

lemma argv_from_simps:
  "argv_from j (Some (None, l, m)) argv = Some (argv, j, m)"
  "argv_from j (Some (Some k, l, m)) argv =
     (if j < length argv then argv_from (j + 1) (strtok_r None [0x20, 0] l m) (argv[j := Arg k]) else None)"
  unfolding argv_from_def
  by (simp_all add: argv_loop.simps [of j None] argv_loop.simps [of j "Some k"] cong: option.case_cong)

lemma strtok_again: "strtok_r None d (Some p) m = strtok_r (Some p) d l m" "strtok_r None d None m = Some (None, None, m)"
  by (simp_all add: strtok_r_def)

definition filled :: "nat \<Rightarrow> arg list \<Rightarrow> nat list \<Rightarrow> arg list" where
  "filled j argv ks = take j argv @ map Arg ks @ drop (j + length ks) argv"

lemma filled_Cons: "j < length argv \<Longrightarrow> filled (Suc j) (argv[j := Arg k]) ks = filled j argv (k # ks)"
  by (simp add: filled_def take_Suc_conv_app_nth)

lemma cstr_token:
  assumes "0 \<notin> set w" "k = length pre"
  shows "cstr (drop k (pre @ w @ 0 # q)) = w"
  using assms by simp

lemma toks_Nil [simp]: "toks D p [] = []"
  by (simp add: toks.simps)

lemma argv_result:
  assumes "0 \<notin> set s" "j \<le> length argv"
  shows "if j + length (toks blank (length pre) s) \<le> length argv
    then \<exists>q. argv_from j (strtok_r (Some (length pre)) [0x20, 0] l (pre @ s @ 0 # r)) argv =
        Some (filled j argv (map fst (toks blank (length pre) s)), j + length (toks blank (length pre) s), pre @ q) \<and>
      length q = length s + 1 + length r \<and>
      (\<forall>(k, w) \<in> set (toks blank (length pre) s). cstr (drop k (pre @ q)) = w)
    else argv_from j (strtok_r (Some (length pre)) [0x20, 0] l (pre @ s @ 0 # r)) argv = None"
  using assms
proof (induction "length s" arbitrary: s pre j argv l rule: less_induct)
  case less
  let ?sp = "takeWhile blank s" and ?t = "dropWhile blank s"
  let ?w = "takeWhile (\<lambda>c. \<not> blank c) ?t" and ?t2 = "dropWhile (\<lambda>c. \<not> blank c) ?t"
  let ?k = "length (pre @ ?sp)" and ?m = "pre @ s @ 0 # r"
  let ?pre = "pre @ ?sp @ ?w @ [0]" and ?s = "drop (length ?w + 1) ?t"
  let ?ts = "toks blank (length pre) s" and ?ts' = "toks blank (length ?pre) ?s"
  note first = strtok_first [OF less.prems(1) refl, where d = "[0x20, 0]" and l = l and pre = pre and r = r]
  have s: "s = ?sp @ ?w @ ?t2" by simp
  show ?case
  proof (cases "?t = []")
    case True
    then have ts: "?ts = []" by (subst toks.simps) (simp add: Let_def del: dropWhile_eq_Nil_conv)
    then have "argv_from j (strtok_r (Some (length pre)) [0x20, 0] l ?m) argv = Some (filled j argv [], j, ?m)"
      unfolding first True by (simp add: argv_from_simps filled_def)
    then show ?thesis using less.prems(2) unfolding ts by (auto intro!: exI [of _ "s @ 0 # r"])
  next
    case False
    have len: "length ?pre = ?k + length ?w + 1" by simp
    have ts: "?ts = (?k, ?w) # ?ts'"
      using False unfolding len by (subst toks.simps) (simp add: Let_def del: dropWhile_eq_Nil_conv)
    have w: "0 \<notin> set ?w" using less.prems(1) by (auto dest: set_takeWhileD set_dropWhileD)
    show ?thesis
    proof (cases "?t2 = []")
      case True
      have s1: "?s = []" using arg_cong [OF True, of length] True by (metis append_Nil2 drop_all le_add1 takeWhile_dropWhile_id)
      have "argv_from j (strtok_r (Some (length pre)) [0x20, 0] l ?m) argv =
          (if j < length argv then Some (argv[j := Arg ?k], j + 1, ?m) else None)"
        using False True unfolding first by (simp add: Let_def argv_from_simps strtok_again del: dropWhile_eq_Nil_conv)
      moreover have "argv[j := Arg ?k] = filled j argv [?k]" if "j < length argv"
        using that by (simp add: filled_def upd_conv_take_nth_drop)
      moreover have "cstr (drop ?k ?m) = ?w"
      proof -
        have m: "?m = (pre @ ?sp) @ ?w @ 0 # r" by (subst s) (simp add: True del: takeWhile_dropWhile_id)
        show ?thesis unfolding m by (rule cstr_token [OF w refl])
      qed
      ultimately show ?thesis using less.prems(2) unfolding ts s1 by auto
    next
      case False2: False
      have shorter: "length ?s < length s" using rest_shorter [OF False, of "length ?w"] by simp
      have nul: "0 \<notin> set ?s" using less.prems(1) by (auto dest: in_set_dropD set_dropWhileD)
      have step: "argv_from j (strtok_r (Some (length pre)) [0x20, 0] l ?m) argv =
          (if j < length argv
           then argv_from (j + 1) (strtok_r (Some (length ?pre)) [0x20, 0] None (?pre @ ?s @ 0 # r)) (argv[j := Arg ?k])
           else None)"
        using False False2 strtok_again(1) [of "[0x20, 0]" "length ?pre" "?pre @ ?s @ 0 # r" None] unfolding first len
        by (simp add: Let_def argv_from_simps del: dropWhile_eq_Nil_conv)
      show ?thesis
      proof (cases "j < length argv")
        case False
        then show ?thesis using step unfolding ts by simp
      next
        case j: True
        note IH = less.hyps [OF shorter nul, of "j + 1" "argv[j := Arg ?k]" ?pre None]
        show ?thesis
        proof (cases "j + length ?ts \<le> length argv")
          case True
          then obtain q where q: "argv_from (j + 1) (strtok_r (Some (length ?pre)) [0x20, 0] None (?pre @ ?s @ 0 # r)) (argv[j := Arg ?k]) =
              Some (filled (j + 1) (argv[j := Arg ?k]) (map fst ?ts'), j + 1 + length ?ts', ?pre @ q)"
            "length q = length ?s + 1 + length r" "\<forall>(k, w) \<in> set ?ts'. cstr (drop k (?pre @ q)) = w"
            using IH j unfolding ts by auto
          have "?t2 = hd ?t2 # tl ?t2" using False2 by simp
          then have "length ?t2 = Suc (length (tl ?t2))" by (metis length_Cons)
          moreover have t: "length ?t = length ?w + length ?t2" by (metis length_append takeWhile_dropWhile_id)
          moreover have "length s = length ?sp + length ?t" by (metis length_append takeWhile_dropWhile_id)
          ultimately have lq: "length (?sp @ ?w @ 0 # q) = length s + 1 + length r" using q(2) by simp
          have e: "?pre @ q = pre @ ?sp @ ?w @ 0 # q" by simp
          have c: "cstr (drop ?k (?pre @ q)) = ?w" using cstr_token [OF w refl, of "pre @ ?sp" q] by simp
          have res: "argv_from j (strtok_r (Some (length pre)) [0x20, 0] l ?m) argv =
              Some (filled j argv (map fst ?ts), j + length ?ts, pre @ ?sp @ ?w @ 0 # q)"
            unfolding step if_P [OF j] q(1) ts e using filled_Cons [OF j, of ?k "map fst ?ts'"] by simp
          have "\<forall>(k, w) \<in> set ?ts. cstr (drop k (pre @ ?sp @ ?w @ 0 # q)) = w"
            using q(3) c unfolding ts e list.set(2) ball_simps(7) prod.case by blast
          then show ?thesis unfolding if_P [OF True] using res lq by blast
        next
          case False
          then show ?thesis using IH j step unfolding ts by simp
        qed
      qed
    qed
  qed
qed

lemma words_of_join:
  assumes "list_all (\<lambda>w. w \<noteq> [] \<and> 0x20 \<notin> set w) ws"
  shows "map snd (toks blank p (concat (map (\<lambda>w. w @ [0x20]) ws))) = ws"
  using assms
proof (induction ws arbitrary: p)
  case (Cons w ws)
  let ?r = "concat (map (\<lambda>w. w @ [0x20]) ws)"
  have w: "\<forall>c \<in> set w. \<not> blank c" "w \<noteq> []" using Cons.prems unfolding blank by auto
  then have "dropWhile blank (w @ 0x20 # ?r) = w @ 0x20 # ?r" by (cases w) auto
  moreover have "takeWhile (\<lambda>c. \<not> blank c) (w @ 0x20 # ?r) = w"
    using w(1) by (intro takeWhile_append_stop) (simp_all add: blank)
  ultimately have "map snd (toks blank p (w @ 0x20 # ?r)) =
      w # map snd (toks blank (p + length (takeWhile blank (w @ 0x20 # ?r)) + length w + 1) ?r)"
    using w(2) by (subst toks.simps) (simp add: Let_def)
  then show ?case using Cons by simp
qed simp

text \<open>Up to 249 words separated by blanks become the arguments behind the constant first one, each a
  string of its own in the line; with 250 words or more the array of 1000 bytes is exceeded.\<close>

theorem getargv_words:
  assumes "0 \<notin> set s"
  defines "ts \<equiv> toks blank 0 s"
  shows "if length ts < 250
    then \<exists>m. getargv (s @ 0 # r) =
        Some (Abc # map (Arg \<circ> fst) ts @ replicate (249 - length ts) Unset, length ts + 1, m) \<and>
      length m = length (s @ 0 # r) \<and> (\<forall>(k, w) \<in> set ts. cstr (drop k m) = w)
    else getargv (s @ 0 # r) = None"
proof -
  let ?a = "Abc # replicate 249 Unset"
  have args: "getargv (s @ 0 # r) = argv_from 1 (strtok_r (Some 0) [0x20, 0] None (s @ 0 # r)) ?a"
    unfolding getargv_def argv_from_def by (simp split: option.splits)
  have "1 \<le> length ?a" by simp
  from argv_result [OF assms(1) this, of "[]" None r]
  have res: "if 1 + length ts \<le> length ?a
    then \<exists>q. getargv (s @ 0 # r) = Some (filled 1 ?a (map fst ts), 1 + length ts, [] @ q) \<and>
      length q = length s + 1 + length r \<and> (\<forall>(k, w) \<in> set ts. cstr (drop k ([] @ q)) = w)
    else getargv (s @ 0 # r) = None"
    unfolding args ts_def by (simp only: list.size(3) append_Nil)
  show ?thesis
  proof (cases "length ts < 250")
    case True
    have "filled 1 ?a (map fst ts) = Abc # map (Arg \<circ> fst) ts @ replicate (249 - length ts) Unset"
      by (simp add: filled_def)
    then show ?thesis using res True by auto
  next
    case False
    then show ?thesis using res by simp
  qed
qed

lemma getargv_words_witness:
  "getargv (concat (map (\<lambda>w. w @ [0x20]) (replicate 250 [0x61])) @ 0 # []) = None"
proof -
  let ?s = "concat (map (\<lambda>w. w @ [0x20]) (replicate 250 [0x61 :: u8]))"
  have "map snd (toks blank 0 ?s) = replicate 250 [0x61]"
    by (rule words_of_join) (simp add: list_all_iff)
  then have "length (toks blank 0 ?s) = 250" by (metis length_map length_replicate)
  moreover have "0 \<notin> set ?s" by auto
  ultimately show ?thesis using getargv_words [of ?s "[]"] by (simp only: less_irrefl if_False not_False_eq_True)
qed

end
