(* ===== verification/At_Result.thy ===== *)
theory At_Result
  imports Prelude
begin

text \<open>
  The result of a command (AT_CreateRC of at_common.c) and the routine that is to remove line ends
  from the end of its text (at_utility.c). That routine changes its pointer to the length where
  it means the length, so the model gives it the memory around the length: the 16-bit units of
  the object from the command stamp on, and the index of the length.
\<close>

section \<open>The model\<close>

text \<open>The suffix loop: \<open>lens\<close> are the units, \<open>p\<close> the index the pointer has. The log is left out; its
  text is the first 20 characters at most.\<close>

fun trim_suffix :: "bytes \<Rightarrow> u16 list \<Rightarrow> nat \<Rightarrow> (bytes \<times> u16 list) option" where
  "trim_suffix buff lens p = do {
     plen \<leftarrow> rd lens p;
     if plen > 0 then do {
       c \<leftarrow> rd buff (unat plen - 1);
       if c = 0x0d \<or> c = 0x0a then do {
         s \<leftarrow> rd_block buff 0 (if plen > 20 then 20 else unat plen);
         buff \<leftarrow> wr buff (unat plen) 0;
         (case p of 0 \<Rightarrow> None | Suc p \<Rightarrow> trim_suffix buff lens p) }
       else Some (buff, lens) }
     else Some (buff, lens) }"

definition AT_Util_TrimRspStringSuffixCrLf :: "bytes \<Rightarrow> u16 list \<Rightarrow> nat \<Rightarrow> (bytes \<times> u16 list) option" where
  "AT_Util_TrimRspStringSuffixCrLf buff lens p = trim_suffix buff lens p"

record AT_CMD_RESULT =
  uReturnValue :: u32
  uResultCode :: u32
  uErrorCode :: u32
  uCmdStamp :: u32
  nDataSize :: u16
  nErrorType :: u8
  nDelayTime :: u32
  rc_engine :: nat
  pData :: bytes

text \<open>The 16-bit units of the command stamp, the lower one first, and of the length behind it.\<close>

definition size_units :: "AT_CMD_RESULT \<Rightarrow> u16 list" where
  "size_units r = [ucast (uCmdStamp r), ucast (drop_bit 16 (uCmdStamp r)), nDataSize r]"

definition with_units :: "u16 list \<Rightarrow> AT_CMD_RESULT \<Rightarrow> AT_CMD_RESULT" where
  "with_units u r = r\<lparr>uCmdStamp := ucast (u ! 0) OR push_bit 16 (ucast (u ! 1)), nDataSize := u ! 2\<rparr>"

text \<open>The result is allocated (\<open>mem\<close> says whether that succeeds) with 80 bytes of data and room for
  \<open>nDataSize\<close> and one more; \<open>engine\<close> is the command engine of the
  channel, by its number.\<close>

definition AT_CreateRC ::
  "bool \<Rightarrow> nat \<Rightarrow> u32 \<Rightarrow> u32 \<Rightarrow> u32 \<Rightarrow> u8 \<Rightarrow> u32 \<Rightarrow> bytes option \<Rightarrow> u16 \<Rightarrow> AT_CMD_RESULT option option" where
  "AT_CreateRC mem engine ReturnValue ResultCode ErrorCode ErrorType DelayTime pBuffer DataSize =
     (if \<not> mem then Some None
      else
        let r = \<lparr>uReturnValue = ReturnValue, uResultCode = ResultCode, uErrorCode = ErrorCode,
          uCmdStamp = 0, nDataSize = DataSize, nErrorType = ErrorType, nDelayTime = DelayTime,
          rc_engine = engine, pData = replicate (80 + unat DataSize + 1) 0\<rparr> in
        case pBuffer of None \<Rightarrow> Some (Some r)
        | Some b \<Rightarrow> do {
            src \<leftarrow> rd_block b 0 (unat DataSize);
            d \<leftarrow> wr_block (pData r) 0 src;
            (d, u) \<leftarrow> AT_Util_TrimRspStringSuffixCrLf d (size_units r) 2;
            let r = with_units u r;
            d \<leftarrow> wr d (unat (nDataSize r)) 0;
            Some (Some (r\<lparr>pData := d\<rparr>)) })"

declare trim_suffix.simps [simp del]

section \<open>Properties\<close>

lemma with_size_units [simp]: "uCmdStamp r = 0 \<Longrightarrow> with_units (size_units r) r = r"
  by (simp add: with_units_def size_units_def)

text \<open>The units are never written, and in a result whose stamp is 0 the loop ends in the stamp.\<close>

lemma trim_suffix_result:
  assumes "unat (nDataSize r) < length d" "uCmdStamp r = 0" "d ! unat (nDataSize r) = 0"
  shows "trim_suffix d (size_units r) 2 = Some (d, size_units r)"
proof -
  have "d[unat (nDataSize r) := 0] = d" using assms(3) by (metis list_update_id)
  moreover have "0 < nDataSize r \<Longrightarrow> unat (nDataSize r) - 1 < length d" using assms(1) by simp
  moreover have "(if nDataSize r > 20 then 20 else unat (nDataSize r)) \<le> length d"
    using assms(1) by (auto simp: word_less_nat_alt)
  moreover have "trim_suffix d (size_units r) 1 = Some (d, size_units r)"
    using assms(2) by (subst trim_suffix.simps) (simp add: size_units_def rd_def)
  ultimately show ?thesis using assms(1)
    by (subst trim_suffix.simps) (simp add: size_units_def rd_def wr_def rd_block_def numeral_2_eq_2)
qed

text \<open>The result of a command holds its text with all its bytes, followed by a NUL: a line end at its
  end is not removed and not left out of the length.\<close>

theorem create_rc_keeps:
  assumes "b = s @ t" "length s = unat n"
  shows "\<exists>r. AT_CreateRC True e rv rc ec et dt (Some b) n = Some (Some r) \<and>
    nDataSize r = n \<and> pData r = s @ replicate 81 0 \<and> rc_engine r = e \<and>
    uReturnValue r = rv \<and> uResultCode r = rc \<and> uErrorCode r = ec \<and> uCmdStamp r = 0"
proof -
  let ?d = "s @ replicate 81 (0 :: u8)"
  let ?r = "\<lparr>uReturnValue = rv, uResultCode = rc, uErrorCode = ec, uCmdStamp = 0, nDataSize = n,
    nErrorType = et, nDelayTime = dt, rc_engine = e, pData = replicate (80 + unat n + 1) 0\<rparr>"
  have "rd_block b 0 (unat n) = Some s" using assms by (simp add: rd_block_def)
  moreover have "wr_block (pData ?r) 0 s = Some ?d" using assms by (simp add: wr_block_def)
  moreover have "trim_suffix ?d (size_units ?r) 2 = Some (?d, size_units ?r)"
    using assms(2) by (intro trim_suffix_result) (simp_all add: nth_append)
  moreover have "wr ?d (unat n) 0 = Some ?d"
    using assms(2) list_update_id [of "replicate 81 (0 :: u8)" 0] by (simp add: wr_def list_update_append)
  ultimately show ?thesis
    by (simp add: AT_CreateRC_def AT_Util_TrimRspStringSuffixCrLf_def Let_def)
qed

lemma create_rc_keeps_witness:
  "\<exists>r. AT_CreateRC True 1 0 0 0 0 0 (Some [0x4f, 0x4b, 0x0d, 0x0a]) 4 = Some (Some r) \<and>
    nDataSize r = 4 \<and> pData r = [0x4f, 0x4b, 0x0d, 0x0a] @ replicate 81 0"
  using create_rc_keeps [of "[0x4f, 0x4b, 0x0d, 0x0a]" "[0x4f, 0x4b, 0x0d, 0x0a]" "[]" 4 1 0 0 0 0 0] by auto

text \<open>Where the length stands alone, a line end makes the routine read in front of it.\<close>

lemma trim_suffix_alone:
  assumes "s \<noteq> []" "last s = 0x0a" "length s < 2 ^ 16"
  shows "AT_Util_TrimRspStringSuffixCrLf (s @ 0 # r) [of_nat (length s)] 0 = None"
proof -
  have n: "unat (of_nat (length s) :: u16) = length s" using assms(3) by (simp add: unsigned_of_nat take_bit_nat_eq_self)
  then have "(of_nat (length s) :: u16) > 0" using assms(1) by (simp add: word_less_nat_alt)
  then show ?thesis using assms(1,2) n
    by (simp add: AT_Util_TrimRspStringSuffixCrLf_def trim_suffix.simps rd_def nth_append last_conv_nth Option.bind_eq_None_conv)
qed

end
