(* ===== verification/Link_List.thy ===== *)
theory Link_List
  imports Prelude
begin

text \<open>
  The linked list (at_list.c): a header with the first node and a count, nodes with a successor
  and a pointer to data that the list owns and frees.

  The store is a map from addresses to objects. An access to an address that holds no object
  of the type expected, or a second release of an object, makes an operation \<open>None\<close>. What
  \<open>malloc\<close> returns is an argument, a function of the store; that it gives 0 or an unused
  address is a hypothesis of the lemmas. The count is a mathematical integer: a C \<open>int\<close>
  overflows only with more nodes than the address space can hold.
\<close>

section \<open>The store\<close>

type_synonym addr = nat

abbreviation (input) NULL :: addr where "NULL \<equiv> 0"

record linknode =
  ln_next :: addr
  ln_data :: addr

record linkList =
  ll_phead :: addr
  ll_count :: int

datatype 'd obj = ONode linknode | OList linkList | OData 'd

type_synonym 'd heap = "addr \<Rightarrow> 'd obj option"

definition rd_node :: "'d heap \<Rightarrow> addr \<Rightarrow> linknode option" where
  "rd_node h a = (if a = NULL then None else case h a of Some (ONode n) \<Rightarrow> Some n | _ \<Rightarrow> None)"

definition rd_list :: "'d heap \<Rightarrow> addr \<Rightarrow> linkList option" where
  "rd_list h a = (if a = NULL then None else case h a of Some (OList l) \<Rightarrow> Some l | _ \<Rightarrow> None)"

definition rd_data :: "'d heap \<Rightarrow> addr \<Rightarrow> 'd option" where
  "rd_data h a = (if a = NULL then None else case h a of Some (OData v) \<Rightarrow> Some v | _ \<Rightarrow> None)"

definition wr_node :: "'d heap \<Rightarrow> addr \<Rightarrow> linknode \<Rightarrow> 'd heap option" where
  "wr_node h a n = do { _ \<leftarrow> rd_node h a; Some (h(a \<mapsto> ONode n)) }"

definition wr_list :: "'d heap \<Rightarrow> addr \<Rightarrow> linkList \<Rightarrow> 'd heap option" where
  "wr_list h a l = do { _ \<leftarrow> rd_list h a; Some (h(a \<mapsto> OList l)) }"

definition wr_data :: "'d heap \<Rightarrow> addr \<Rightarrow> 'd \<Rightarrow> 'd heap option" where
  "wr_data h a v = do { _ \<leftarrow> rd_data h a; Some (h(a \<mapsto> OData v)) }"

definition free :: "'d heap \<Rightarrow> addr \<Rightarrow> 'd heap option" where
  "free h a = (if a = NULL then Some h else if h a = None then None else Some (h(a := None)))"

text \<open>What the code relies on of \<open>malloc\<close>.\<close>

definition malloc_ok :: "('d heap \<Rightarrow> addr) \<Rightarrow> bool" where
  "malloc_ok malloc \<longleftrightarrow> (\<forall>h. malloc h = NULL \<or> h (malloc h) = None)"

section \<open>The operations\<close>

definition free_linknodedata :: "'d heap \<Rightarrow> addr \<Rightarrow> 'd heap option" where
  "free_linknodedata h pnode =
     (if pnode \<noteq> NULL then do {
        n \<leftarrow> rd_node h pnode;
        h \<leftarrow> (if ln_data n \<noteq> NULL
              then do { h \<leftarrow> free h (ln_data n); wr_node h pnode (n\<lparr>ln_data := NULL\<rparr>) }
              else Some h);
        free h pnode }
      else Some h)"

definition create_linknode :: "('d heap \<Rightarrow> addr) \<Rightarrow> 'd heap \<Rightarrow> addr \<Rightarrow> addr \<times> 'd heap" where
  "create_linknode malloc h data =
     (let pnode = malloc h
      in if pnode = NULL then (NULL, h)
         else (pnode, h(pnode \<mapsto> ONode \<lparr>ln_next = NULL, ln_data = data\<rparr>)))"

definition create_linklist :: "('d heap \<Rightarrow> addr) \<Rightarrow> 'd heap \<Rightarrow> addr \<times> 'd heap" where
  "create_linklist malloc h =
     (let plist = malloc h
      in if plist = NULL then (NULL, h)
         else (plist, h(plist \<mapsto> OList \<lparr>ll_phead = NULL, ll_count = 0\<rparr>)))"

text \<open>The loop of \<open>destory_linklist\<close>; on a list with a cycle it meets a released node.\<close>

partial_function (option) free_nodes :: "'d heap \<Rightarrow> addr \<Rightarrow> 'd heap option" where
  "free_nodes h pnode =
     (if pnode = NULL then Some h
      else Option.bind (rd_node h pnode) (\<lambda>n.
           Option.bind (free_linknodedata h pnode) (\<lambda>h. free_nodes h (ln_next n))))"

definition destory_linklist :: "'d heap \<Rightarrow> addr \<Rightarrow> (int \<times> 'd heap) option" where
  "destory_linklist h plist =
     (if plist = NULL then Some (-1, h)
      else do {
        l \<leftarrow> rd_list h plist;
        h \<leftarrow> free_nodes h (ll_phead l);
        h \<leftarrow> wr_list h plist \<lparr>ll_phead = NULL, ll_count = 0\<rparr>;
        Some (0, h) })"

definition linklist_is_empty :: "'d heap \<Rightarrow> addr \<Rightarrow> bool option" where
  "linklist_is_empty h plist =
     (if plist = NULL then Some True
      else do { l \<leftarrow> rd_list h plist; Some (ll_count l \<le> 0) })"

definition linklist_size :: "'d heap \<Rightarrow> addr \<Rightarrow> int option" where
  "linklist_size h plist =
     (if plist = NULL then Some 0 else map_option ll_count (rd_list h plist))"

fun nth_node :: "'d heap \<Rightarrow> addr \<Rightarrow> nat \<Rightarrow> addr option" where
  "nth_node h pnode 0 = Some pnode"
| "nth_node h pnode (Suc k) = do { n \<leftarrow> rd_node h pnode; nth_node h (ln_next n) k }"

definition get_linknode :: "'d heap \<Rightarrow> addr \<Rightarrow> int \<Rightarrow> addr option" where
  "get_linknode h plist index = do {
     l \<leftarrow> rd_list h plist;
     if index < 0 \<or> ll_count l \<le> index then Some NULL
     else nth_node h (ll_phead l) (nat index) }"

definition linklist_get :: "'d heap \<Rightarrow> addr \<Rightarrow> int \<Rightarrow> addr option" where
  "linklist_get h plist index = do {
     pnode \<leftarrow> get_linknode h plist index;
     if pnode = NULL then Some NULL else map_option ln_data (rd_node h pnode) }"

definition linklist_get_first :: "'d heap \<Rightarrow> addr \<Rightarrow> addr option" where
  "linklist_get_first h plist =
     (if plist = NULL then Some NULL
      else do {
        l \<leftarrow> rd_list h plist;
        if ll_count l \<le> 0 then Some NULL else map_option ln_data (rd_node h (ll_phead l)) })"

definition linklist_get_last :: "'d heap \<Rightarrow> addr \<Rightarrow> addr option" where
  "linklist_get_last h plist =
     (if plist = NULL then Some NULL
      else do {
        l \<leftarrow> rd_list h plist;
        if ll_count l \<le> 0 then Some NULL
        else do {
          pnode \<leftarrow> get_linknode h plist (ll_count l - 1);
          map_option ln_data (rd_node h pnode) } })"

definition linklist_insert_first ::
  "('d heap \<Rightarrow> addr) \<Rightarrow> 'd heap \<Rightarrow> addr \<Rightarrow> addr \<Rightarrow> (int \<times> 'd heap) option" where
  "linklist_insert_first malloc h plist pdata =
     (if plist = NULL then Some (-1, h)
      else case create_linknode malloc h pdata of (pnode, h) \<Rightarrow>
        if pnode = NULL then Some (-1, h)
        else do {
          l \<leftarrow> rd_list h plist;
          if ll_phead l = NULL then do {
            h \<leftarrow> wr_list h plist \<lparr>ll_phead = pnode, ll_count = ll_count l + 1\<rparr>;
            Some (0, h) }
          else do {
            n \<leftarrow> rd_node h pnode;
            h \<leftarrow> wr_node h pnode (n\<lparr>ln_next := ll_phead l\<rparr>);
            h \<leftarrow> wr_list h plist \<lparr>ll_phead = pnode, ll_count = ll_count l + 1\<rparr>;
            Some (0, h) } })"

definition linklist_append_last ::
  "('d heap \<Rightarrow> addr) \<Rightarrow> 'd heap \<Rightarrow> addr \<Rightarrow> addr \<Rightarrow> (int \<times> 'd heap) option" where
  "linklist_append_last malloc h plist pdata =
     (if plist = NULL then Some (-1, h)
      else case create_linknode malloc h pdata of (pnode, h) \<Rightarrow>
        if pnode = NULL then Some (-1, h)
        else do {
          l \<leftarrow> rd_list h plist;
          if ll_phead l = NULL then do {
            h \<leftarrow> wr_list h plist \<lparr>ll_phead = pnode, ll_count = ll_count l + 1\<rparr>;
            Some (0, h) }
          else do {
            plastnode \<leftarrow> get_linknode h plist (ll_count l - 1);
            n \<leftarrow> rd_node h plastnode;
            h \<leftarrow> wr_node h plastnode (n\<lparr>ln_next := pnode\<rparr>);
            h \<leftarrow> wr_list h plist (l\<lparr>ll_count := ll_count l + 1\<rparr>);
            Some (0, h) } })"

text \<open>\<open>plist\<close> is read before it is compared with \<open>NULL\<close>, when the index is not 0.\<close>

definition linklist_insert ::
  "('d heap \<Rightarrow> addr) \<Rightarrow> 'd heap \<Rightarrow> addr \<Rightarrow> int \<Rightarrow> addr \<Rightarrow> (int \<times> 'd heap) option" where
  "linklist_insert malloc h plist index pdata =
     (if index = 0 then linklist_insert_first malloc h plist pdata
      else do {
        l \<leftarrow> rd_list h plist;
        if index = ll_count l then linklist_append_last malloc h plist pdata
        else if plist = NULL then Some (-1, h)
        else do {
          pindex \<leftarrow> get_linknode h plist index;
          if pindex = NULL then Some (-1, h)
          else do {
            preindex \<leftarrow> get_linknode h plist (index - 1);
            if preindex = NULL then Some (-1, h)
            else case create_linknode malloc h pdata of (pnode, h) \<Rightarrow>
              if pnode = NULL then Some (-1, h)
              else do {
                n \<leftarrow> rd_node h pnode;
                h \<leftarrow> wr_node h pnode (n\<lparr>ln_next := pindex\<rparr>);
                m \<leftarrow> rd_node h preindex;
                h \<leftarrow> wr_node h preindex (m\<lparr>ln_next := pnode\<rparr>);
                h \<leftarrow> wr_list h plist (l\<lparr>ll_count := ll_count l + 1\<rparr>);
                Some (0, h) } } } })"

definition linklist_delete_first :: "'d heap \<Rightarrow> addr \<Rightarrow> (int \<times> 'd heap) option" where
  "linklist_delete_first h plist =
     (if plist = NULL then Some (-1, h)
      else do {
        l \<leftarrow> rd_list h plist;
        if ll_phead l = NULL \<or> ll_count l \<le> 0 then Some (-1, h)
        else do {
          n \<leftarrow> rd_node h (ll_phead l);
          h \<leftarrow> wr_list h plist (l\<lparr>ll_phead := ln_next n\<rparr>);
          h \<leftarrow> free_linknodedata h (ll_phead l);
          l \<leftarrow> rd_list h plist;
          h \<leftarrow> wr_list h plist (l\<lparr>ll_count := ll_count l - 1\<rparr>);
          Some (0, h) } })"

definition linklist_delete_last :: "'d heap \<Rightarrow> addr \<Rightarrow> (int \<times> 'd heap) option" where
  "linklist_delete_last h plist =
     (if plist = NULL then Some (-1, h)
      else do {
        l \<leftarrow> rd_list h plist;
        if ll_phead l = NULL \<or> ll_count l \<le> 0 then Some (-1, h)
        else do {
          plastsecondnode \<leftarrow> get_linknode h plist (ll_count l - 2);
          if plastsecondnode \<noteq> NULL then do {
            n \<leftarrow> rd_node h plastsecondnode;
            h \<leftarrow> wr_node h plastsecondnode (n\<lparr>ln_next := NULL\<rparr>);
            h \<leftarrow> free_linknodedata h (ln_next n);
            l \<leftarrow> rd_list h plist;
            h \<leftarrow> wr_list h plist (l\<lparr>ll_count := ll_count l - 1\<rparr>);
            Some (0, h) }
          else do {
            plastnode \<leftarrow> get_linknode h plist (ll_count l - 1);
            h \<leftarrow> wr_list h plist \<lparr>ll_phead = NULL, ll_count = 0\<rparr>;
            h \<leftarrow> free_linknodedata h plastnode;
            Some (0, h) } } })"

definition linklist_delete :: "'d heap \<Rightarrow> addr \<Rightarrow> int \<Rightarrow> (int \<times> 'd heap) option" where
  "linklist_delete h plist index =
     (if plist = NULL then Some (-1, h)
      else do {
        l \<leftarrow> rd_list h plist;
        if ll_phead l = NULL \<or> ll_count l \<le> 0 then Some (-1, h)
        else if index = 0 then linklist_delete_first h plist
        else if index = ll_count l - 1 then linklist_delete_last h plist
        else do {
          pindex \<leftarrow> get_linknode h plist index;
          if pindex = NULL then Some (-1, h)
          else do {
            preindex \<leftarrow> get_linknode h plist (index - 1);
            if preindex = NULL then Some (-1, h)
            else do {
              m \<leftarrow> rd_node h preindex;
              n \<leftarrow> rd_node h pindex;
              h \<leftarrow> wr_node h preindex (m\<lparr>ln_next := ln_next n\<rparr>);
              h \<leftarrow> free_linknodedata h pindex;
              l \<leftarrow> rd_list h plist;
              h \<leftarrow> wr_list h plist (l\<lparr>ll_count := ll_count l - 1\<rparr>);
              Some (0, h) } } } })"

end
