(* ===== verification/Link_List_Rep.thy ===== *)
theory Link_List_Rep
  imports Link_List
begin

text \<open>
  The list a header represents, and every operation as an operation on that list.
\<close>

section \<open>Representation\<close>

primrec first :: "(addr \<times> addr) list \<Rightarrow> addr \<Rightarrow> addr" where
  "first [] q = q"
| "first (x # xs) q = fst x"

text \<open>The nodes \<open>xs\<close> (address and data) are chained and lead to \<open>q\<close>.\<close>

primrec seg :: "'d heap \<Rightarrow> (addr \<times> addr) list \<Rightarrow> addr \<Rightarrow> bool" where
  "seg h [] q \<longleftrightarrow> True"
| "seg h (x # xs) q \<longleftrightarrow>
     rd_node h (fst x) = Some \<lparr>ln_next = first xs q, ln_data = snd x\<rparr> \<and> seg h xs q"

definition linklist_rep :: "'d heap \<Rightarrow> addr \<Rightarrow> (addr \<times> addr) list \<Rightarrow> bool" where
  "linklist_rep h p xs \<longleftrightarrow>
     rd_list h p = Some \<lparr>ll_phead = first xs NULL, ll_count = int (length xs)\<rparr> \<and>
     seg h xs NULL \<and> distinct (map fst xs) \<and>
     distinct (filter (\<lambda>d. d \<noteq> NULL) (map snd xs)) \<and>
     (\<forall>x \<in> set xs. snd x \<noteq> NULL \<longrightarrow> rd_data h (snd x) \<noteq> None)"

text \<open>The data pointer can be given to the list.\<close>

definition new_data :: "'d heap \<Rightarrow> addr list \<Rightarrow> addr \<Rightarrow> bool" where
  "new_data h ds d \<longleftrightarrow> d = NULL \<or> rd_data h d \<noteq> None \<and> d \<notin> set ds"

lemma rd_kind [simp]:
  "rd_node h a = Some n \<longleftrightarrow> a \<noteq> NULL \<and> h a = Some (ONode n)"
  "rd_list h a = Some l \<longleftrightarrow> a \<noteq> NULL \<and> h a = Some (OList l)"
  "rd_data h a = Some v \<longleftrightarrow> a \<noteq> NULL \<and> h a = Some (OData v)"
  by (auto simp: rd_node_def rd_list_def rd_data_def split: option.splits obj.splits)

lemma rd_obj [simp]:
  "a \<noteq> NULL \<Longrightarrow> h a = Some (ONode n) \<Longrightarrow> rd_node h a = Some n"
  "a \<noteq> NULL \<Longrightarrow> h a = Some (OList l) \<Longrightarrow> rd_list h a = Some l"
  "a \<noteq> NULL \<Longrightarrow> h a = Some (OData v) \<Longrightarrow> rd_data h a = Some v"
  by simp_all

lemma rd_NULL [simp]: "rd_node h 0 = None" "rd_list h 0 = None" "rd_data h 0 = None"
  by (simp_all add: rd_node_def rd_list_def rd_data_def)

lemma rd_data_upd [simp]:
  "rd_data (h(a \<mapsto> ONode n)) = (rd_data h)(a := None)"
  "rd_data (h(a \<mapsto> OList l)) = (rd_data h)(a := None)"
  "rd_data (h(a := None)) = (rd_data h)(a := None)"
  by (auto simp: rd_data_def fun_eq_iff)

lemma rd_data_other: "h a = Some (ONode n) \<or> h a = Some (OList l) \<or> h a = None \<Longrightarrow> rd_data h a = None"
  by (auto simp: rd_data_def)

lemma wr_obj [simp]:
  "a \<noteq> NULL \<Longrightarrow> h a = Some (ONode n) \<Longrightarrow> wr_node h a m = Some (h(a \<mapsto> ONode m))"
  "a \<noteq> NULL \<Longrightarrow> h a = Some (OList l) \<Longrightarrow> wr_list h a k = Some (h(a \<mapsto> OList k))"
  "a \<noteq> NULL \<Longrightarrow> h a = Some (OData v) \<Longrightarrow> wr_data h a w = Some (h(a \<mapsto> OData w))"
  by (simp_all add: wr_node_def wr_list_def wr_data_def)

lemma free_at [simp]: "h a = Some ob \<Longrightarrow> a \<noteq> NULL \<Longrightarrow> free h a = Some (h(a := None))"
  by (simp add: free_def)

lemma first_append [simp]: "first (xs @ ys) q = first xs (first ys q)"
  by (cases xs) simp_all

lemma seg_append [simp]: "seg h (xs @ ys) q \<longleftrightarrow> seg h xs (first ys q) \<and> seg h ys q"
  by (induction xs) auto

lemma seg_cong: "seg h xs q \<Longrightarrow> (\<And>x. x \<in> set xs \<Longrightarrow> h' (fst x) = h (fst x)) \<Longrightarrow> seg h' xs q"
  by (induction xs) auto

lemma seg_node: "seg h xs q \<Longrightarrow> x \<in> set xs \<Longrightarrow> fst x \<noteq> NULL \<and> (\<exists>n. h (fst x) = Some (ONode n))"
  by (induction xs) auto

lemma first_NULL: "seg h xs q \<Longrightarrow> first xs NULL = NULL \<longleftrightarrow> xs = []"
  by (cases xs) auto

lemma nth_node_seg: "seg h xs q \<Longrightarrow> k \<le> length xs \<Longrightarrow> nth_node h (first xs q) k = Some (first (drop k xs) q)"
proof (induction xs arbitrary: k)
  case (Cons x xs)
  then show ?case by (cases k) auto
qed simp

lemma first_drop: "k < length xs \<Longrightarrow> first (drop k xs) q = fst (xs ! k)"
  by (simp flip: Cons_nth_drop_Suc)

text \<open>Only the objects of the list matter.\<close>

lemma rep_frame:
  assumes "linklist_rep h p xs" and "h' p = h p"
    and "\<And>x. x \<in> set xs \<Longrightarrow> h' (fst x) = h (fst x)"
    and "\<And>x v. x \<in> set xs \<Longrightarrow> snd x \<noteq> NULL \<Longrightarrow> rd_data h (snd x) \<noteq> None \<Longrightarrow> rd_data h' (snd x) \<noteq> None"
  shows "linklist_rep h' p xs"
  using assms seg_cong [of h xs NULL h'] by (auto simp: linklist_rep_def simp del: rd_kind(3))

lemma rep_fresh:
  assumes rep: "linklist_rep h p xs" and "h a = None"
  shows "linklist_rep (h(a \<mapsto> ob)) p xs"
proof (rule rep_frame [OF rep])
  show "(h(a \<mapsto> ob)) p = h p" using assms by (auto simp: linklist_rep_def)
  show "(h(a \<mapsto> ob)) (fst x) = h (fst x)" if "x \<in> set xs" for x
    using assms seg_node [of h xs NULL x] that by (auto simp: linklist_rep_def)
  show "rd_data (h(a \<mapsto> ob)) (snd x) \<noteq> None" if "rd_data h (snd x) \<noteq> None" for x
    using that assms by auto
qed

section \<open>Reading\<close>

lemma header: "linklist_rep h p xs \<Longrightarrow> p \<noteq> NULL"
  "linklist_rep h p xs \<Longrightarrow>
     h p = Some (OList \<lparr>ll_phead = first xs NULL, ll_count = int (length xs)\<rparr>)"
  by (auto simp: linklist_rep_def)

lemma chain: "linklist_rep h p xs \<Longrightarrow> seg h xs NULL"
  by (simp add: linklist_rep_def)

lemma node:
  assumes "linklist_rep h p xs" and i: "i < length xs"
  shows "fst (xs ! i) \<noteq> NULL"
    "h (fst (xs ! i)) =
       Some (ONode \<lparr>ln_next = first (drop (Suc i) xs) NULL, ln_data = snd (xs ! i)\<rparr>)"
proof -
  have "seg h (take i xs @ xs ! i # drop (Suc i) xs) NULL"
    using chain assms by (simp add: id_take_nth_drop [symmetric])
  then show "fst (xs ! i) \<noteq> NULL"
    "h (fst (xs ! i)) = Some (ONode \<lparr>ln_next = first (drop (Suc i) xs) NULL, ln_data = snd (xs ! i)\<rparr>)"
    by simp_all
qed

lemma nat_pred [simp]: "nat (int n - 1) = n - 1" "nat (int n - 2) = n - 2"
  by linarith+

lemma get_linknode_rep:
  assumes "linklist_rep h p xs"
  shows "get_linknode h p i =
           Some (if 0 \<le> i \<and> i < int (length xs) then fst (xs ! nat i) else NULL)"
  using header [OF assms] nth_node_seg [OF chain [OF assms], of "nat i"] first_drop [of "nat i" xs]
  by (auto simp: get_linknode_def nat_less_iff)

lemma linklist_get_rep:
  assumes "linklist_rep h p xs"
  shows "linklist_get h p i =
           Some (if 0 \<le> i \<and> i < int (length xs) then snd (xs ! nat i) else NULL)"
  using node [OF assms, of "nat i"]
  by (auto simp: linklist_get_def get_linknode_rep [OF assms] nat_less_iff)

lemma linklist_size_rep: "linklist_rep h p xs \<Longrightarrow> linklist_size h p = Some (int (length xs))"
  using header [of h p xs] by (simp add: linklist_size_def)

lemma linklist_is_empty_rep: "linklist_rep h p xs \<Longrightarrow> linklist_is_empty h p = Some (xs = [])"
  using header [of h p xs] by (simp add: linklist_is_empty_def)

lemma linklist_get_first_rep:
  assumes "linklist_rep h p xs"
  shows "linklist_get_first h p = Some (if xs = [] then NULL else snd (hd xs))"
  using header [OF assms] node [OF assms, of 0]
  by (cases xs) (auto simp: linklist_get_first_def)

lemma linklist_get_last_rep:
  assumes "linklist_rep h p xs"
  shows "linklist_get_last h p = Some (if xs = [] then NULL else snd (last xs))"
  using header [OF assms] node [OF assms, of "length xs - 1"]
  by (auto simp: linklist_get_last_def get_linknode_rep [OF assms] last_conv_nth)

section \<open>Changing\<close>

text \<open>A store in which the chain has one node more, between \<open>ys\<close> and \<open>zs\<close>, and is as before
  everywhere else, represents the longer list.\<close>

lemma rep_insertI:
  assumes rep: "linklist_rep h p (ys @ zs)"
    and a: "a \<noteq> NULL" "h a = None" and d: "new_data h (map snd (ys @ zs)) d"
    and frame: "\<And>b. b \<noteq> a \<Longrightarrow> b \<noteq> p \<Longrightarrow> ys = [] \<or> b \<noteq> fst (last ys) \<Longrightarrow> h' b = h b"
    and new: "h' a = Some (ONode \<lparr>ln_next = first zs NULL, ln_data = d\<rparr>)"
    and hdr: "h' p = Some (OList \<lparr>ll_phead = first (ys @ [(a, d)]) NULL, ll_count = int (length ys + length zs) + 1\<rparr>)"
    and prev: "ys \<noteq> [] \<Longrightarrow> h' (fst (last ys)) = Some (ONode \<lparr>ln_next = a, ln_data = snd (last ys)\<rparr>)"
  shows "linklist_rep h' p (ys @ (a, d) # zs)" "rd_data h' = rd_data h"
proof -
  note R = rep [unfolded linklist_rep_def]
  have nodes: "\<exists>n. h (fst x) = Some (ONode n)" if "x \<in> set ys \<union> set zs" for x
    using R that seg_node [of h "ys @ zs" NULL x] by auto
  have fresh: "fst x \<noteq> a" "fst x \<noteq> p" if "x \<in> set ys \<union> set zs" for x
    using nodes [OF that] a R by auto
  show data: "rd_data h' = rd_data h"
  proof
    fix b
    show "rd_data h' b = rd_data h b"
      using frame [of b] new hdr prev a R nodes [of "last ys"]
      by (cases "b = a \<or> b = p \<or> ys \<noteq> [] \<and> b = fst (last ys)") (auto simp: rd_data_def)
  qed
  have zs: "seg h' zs NULL"
  proof (rule seg_cong [of h])
    show "seg h zs NULL" using R by simp
    have last: "ys = [] \<or> fst (last ys) \<notin> fst ` set zs"
      using R by (cases ys rule: rev_cases) auto
    show "h' (fst x) = h (fst x)" if "x \<in> set zs" for x
    proof -
      have "ys = [] \<or> fst x \<noteq> fst (last ys)" using last that by (metis image_eqI)
      then show ?thesis using that fresh [of x] by (intro frame) auto
    qed
  qed
  have ys: "seg h' ys a"
  proof (cases ys rule: rev_cases)
    case (snoc us u)
    have "seg h' us (fst u)"
    proof (rule seg_cong [of h])
      show "seg h us (fst u)" using R snoc by simp
      show "h' (fst x) = h (fst x)" if "x \<in> set us" for x
        using that fresh [of x] R snoc by (intro frame) (auto simp: image_iff)
    qed
    then show ?thesis using prev snoc nodes R by auto
  qed simp
  have "linklist_rep h' p (ys @ (a, d) # zs) = (p \<noteq> NULL \<and> seg h' (ys @ (a, d) # zs) NULL \<and>
      distinct (map fst (ys @ (a, d) # zs)) \<and>
      distinct (filter (\<lambda>d. d \<noteq> NULL) (map snd (ys @ (a, d) # zs))) \<and>
      (\<forall>x \<in> set (ys @ (a, d) # zs). snd x \<noteq> NULL \<longrightarrow> rd_data h (snd x) \<noteq> None))"
    using hdr unfolding linklist_rep_def data by simp
  moreover have "a \<notin> fst ` set ys" "a \<notin> fst ` set zs" using fresh(1) by blast+
  then have "distinct (map fst (ys @ (a, d) # zs))" using R by auto
  moreover have "distinct (filter (\<lambda>d. d \<noteq> NULL) (map snd (ys @ (a, d) # zs)))"
    using R d by (auto simp: new_data_def)
  ultimately show "linklist_rep h' p (ys @ (a, d) # zs)"
    using R ys zs new a d by (auto simp: new_data_def)
qed

text \<open>A store in which the chain has lost a node with its data represents the shorter list.\<close>

lemma rep_deleteI:
  assumes rep: "linklist_rep h p (ys @ (a, d) # zs)"
    and frame: "\<And>b. b \<noteq> a \<Longrightarrow> b \<noteq> d \<Longrightarrow> b \<noteq> p \<Longrightarrow> ys = [] \<or> b \<noteq> fst (last ys) \<Longrightarrow> h' b = h b"
    and gone: "h' a = None" "d \<noteq> NULL \<Longrightarrow> h' d = None" "h' NULL = h NULL"
    and hdr: "h' p = Some (OList \<lparr>ll_phead = first (ys @ zs) NULL, ll_count = int (length ys + length zs)\<rparr>)"
    and prev: "ys \<noteq> [] \<Longrightarrow>
      h' (fst (last ys)) = Some (ONode \<lparr>ln_next = first zs NULL, ln_data = snd (last ys)\<rparr>)"
  shows "linklist_rep h' p (ys @ zs)" "rd_data h' = (rd_data h)(d := None)"
proof -
  note R = rep [unfolded linklist_rep_def]
  have nodes: "\<exists>n. h (fst x) = Some (ONode n)" "fst x \<noteq> NULL" if "x \<in> set ys \<union> set zs \<union> {(a, d)}" for x
    using R that seg_node [of h "ys @ (a, d) # zs" NULL x] by auto
  have dd: "d = NULL \<or> (\<exists>v. h d = Some (OData v))"
    using R by auto
  have other: "fst x \<noteq> a" "fst x \<noteq> p" "fst x \<noteq> d" if "x \<in> set ys \<union> set zs" for x
    using nodes [of x] that R dd by auto
  show data: "rd_data h' = (rd_data h)(d := None)"
  proof
    fix b
    show "rd_data h' b = ((rd_data h)(d := None)) b"
      using frame [of b] gone hdr prev R nodes [of "last ys"] nodes [of "(a, d)"]
      by (cases "b = a \<or> b = d \<or> b = p \<or> ys \<noteq> [] \<and> b = fst (last ys)") (auto simp: rd_data_def)
  qed
  have zs: "seg h' zs NULL"
  proof (rule seg_cong [of h])
    show "seg h zs NULL" using R by simp
    have last: "ys = [] \<or> fst (last ys) \<notin> fst ` set zs"
      using R by (cases ys rule: rev_cases) auto
    show "h' (fst x) = h (fst x)" if "x \<in> set zs" for x
    proof -
      have "ys = [] \<or> fst x \<noteq> fst (last ys)" using last that by (metis image_eqI)
      then show ?thesis using that other [of x] by (intro frame) auto
    qed
  qed
  have ys: "seg h' ys (first zs NULL)"
  proof (cases ys rule: rev_cases)
    case (snoc us u)
    have "seg h' us (fst u)"
    proof (rule seg_cong [of h])
      show "seg h us (fst u)" using R snoc by simp
      show "h' (fst x) = h (fst x)" if "x \<in> set us" for x
        using that other [of x] R snoc by (intro frame) (auto simp: image_iff)
    qed
    then show ?thesis using prev snoc nodes [of u] by auto
  qed simp
  have "snd x \<noteq> NULL \<longrightarrow> rd_data h' (snd x) \<noteq> None" if "x \<in> set (ys @ zs)" for x
  proof -
    have "snd x = NULL \<or> snd x \<noteq> d" using that R by (auto simp: disjoint_iff)
    then show ?thesis using that R by (auto simp add: data simp del: rd_kind)
  qed
  moreover have "distinct (filter (\<lambda>d. d \<noteq> NULL) (map snd (ys @ zs)))"
    using R by (cases "d = NULL") auto
  moreover have "distinct (map fst (ys @ zs))" using R by simp
  ultimately show "linklist_rep h' p (ys @ zs)"
    using R ys zs hdr unfolding linklist_rep_def by (simp del: rd_kind(3))
qed

end
