(* ===== verification/Link_List_Ops.thy ===== *)
theory Link_List_Ops
  imports Link_List_Rep
begin

text \<open>Every operation that changes a list, as a change of the list it represents.\<close>

definition inserted ::
  "'d heap \<Rightarrow> 'd heap \<Rightarrow> addr \<Rightarrow> (addr \<times> addr) list \<Rightarrow> nat \<Rightarrow> addr \<Rightarrow> addr \<Rightarrow> bool" where
  "inserted h h' p xs k a d \<longleftrightarrow>
     linklist_rep h' p (take k xs @ (a, d) # drop k xs) \<and> rd_data h' = rd_data h \<and>
     (\<forall>b. b \<noteq> p \<and> b \<noteq> a \<and> b \<notin> fst ` set xs \<longrightarrow> h' b = h b)"

definition deleted :: "'d heap \<Rightarrow> 'd heap \<Rightarrow> addr \<Rightarrow> (addr \<times> addr) list \<Rightarrow> nat \<Rightarrow> bool" where
  "deleted h h' p xs k \<longleftrightarrow>
     linklist_rep h' p (take k xs @ drop (Suc k) xs) \<and>
     rd_data h' = (rd_data h)(snd (xs ! k) := None) \<and>
     h' (fst (xs ! k)) = None \<and>
     (\<forall>b. b \<noteq> p \<and> b \<noteq> snd (xs ! k) \<and> b \<notin> fst ` set xs \<longrightarrow> h' b = h b)"

lemma last_take: "0 < k \<Longrightarrow> k \<le> length xs \<Longrightarrow> last (take k xs) = xs ! (k - 1)"
  by (subst last_conv_nth) (auto simp: min_def)

text \<open>The store after a node is linked in at a position.\<close>

definition link_at ::
  "'d heap \<Rightarrow> addr \<Rightarrow> (addr \<times> addr) list \<Rightarrow> nat \<Rightarrow> addr \<Rightarrow> addr \<Rightarrow> 'd heap" where
  "link_at h p xs k a d =
     (let h1 = h(a \<mapsto> ONode \<lparr>ln_next = first (drop k xs) NULL, ln_data = d\<rparr>);
          h2 = (if k = 0 then h1
                else h1(fst (xs ! (k - 1)) \<mapsto>
                  ONode \<lparr>ln_next = a, ln_data = snd (xs ! (k - 1))\<rparr>))
      in h2(p \<mapsto> OList \<lparr>ll_phead = (if k = 0 then a else first xs NULL),
                        ll_count = int (length xs) + 1\<rparr>))"

lemma inserted_link_at:
  assumes rep: "linklist_rep h p xs" and k: "k \<le> length xs"
    and a: "a \<noteq> NULL" "h a = None" and d: "new_data h (map snd xs) d"
  shows "inserted h (link_at h p xs k a d) p xs k a d"
proof -
  have prev: "fst (xs ! (k - 1)) \<noteq> a" "fst (xs ! (k - 1)) \<noteq> p" if "0 < k"
  proof -
    have "k - 1 < length xs" using that k by simp
    from node(2) [OF rep this] show "fst (xs ! (k - 1)) \<noteq> a" "fst (xs ! (k - 1)) \<noteq> p"
      using header [OF rep] a by auto
  qed
  have p: "p \<noteq> a" using header [OF rep] a by auto
  have fst: "first xs NULL = first (take k xs) (first (drop k xs) NULL)"
    by (simp flip: first_append)
  have 0: "linklist_rep h p (take k xs @ drop k xs)" using rep by simp
  let ?h = "link_at h p xs k a d"
  note I = rep_insertI [OF 0 a, of d ?h]
  have *: "new_data h (map snd (take k xs @ drop k xs)) d" using d by simp
  have frame: "?h b = h b" if "b \<noteq> a" "b \<noteq> p" "take k xs = [] \<or> b \<noteq> fst (last (take k xs))" for b
    using that k by (auto simp: link_at_def Let_def last_take)
  have new: "?h a = Some (ONode \<lparr>ln_next = first (drop k xs) NULL, ln_data = d\<rparr>)"
    using p prev by (auto simp: link_at_def Let_def)
  have hdr: "?h p = Some (OList \<lparr>ll_phead = first (take k xs @ [(a, d)]) NULL,
      ll_count = int (length (take k xs) + length (drop k xs)) + 1\<rparr>)"
    using k by (cases k; cases xs) (auto simp: link_at_def Let_def)
  have last: "?h (fst (last (take k xs))) =
      Some (ONode \<lparr>ln_next = a, ln_data = snd (last (take k xs))\<rparr>)" if "take k xs \<noteq> []"
    using that prev k by (auto simp: link_at_def Let_def last_take)
  note I = rep_insertI [OF 0 a *, of ?h, OF frame new hdr last]
  have "link_at h p xs k a d b = h b" if "b \<noteq> p \<and> b \<noteq> a \<and> b \<notin> fst ` set xs" for b
    using that k by (auto simp: link_at_def Let_def)
  then show ?thesis using I by (auto simp add: inserted_def)
qed

lemma malloc_cases:
  assumes "malloc_ok malloc"
  obtains "malloc h = NULL" | "malloc h \<noteq> NULL" "h (malloc h) = None"
  using assms [unfolded malloc_ok_def, rule_format, of h] that by argo

lemma insert_first_link:
  assumes rep: "linklist_rep h p xs" and m: "malloc h \<noteq> NULL" "h (malloc h) = None"
  shows "linklist_insert_first malloc h p d = Some (0, link_at h p xs 0 (malloc h) d)"
proof -
  have p: "p \<noteq> malloc h" using header [OF rep] m by auto
  show ?thesis
    using header [OF rep] m p first_NULL [OF chain [OF rep]]
    by (auto simp: linklist_insert_first_def create_linknode_def Let_def link_at_def fun_upd_twist)
qed

lemma append_last_link:
  assumes rep: "linklist_rep h p xs" and m: "malloc h \<noteq> NULL" "h (malloc h) = None"
  shows "linklist_append_last malloc h p d = Some (0, link_at h p xs (length xs) (malloc h) d)"
proof -
  let ?h = "h(malloc h \<mapsto> ONode \<lparr>ln_next = NULL, ln_data = d\<rparr>)"
  note rep' = rep_fresh [OF rep m(2), of "ONode \<lparr>ln_next = NULL, ln_data = d\<rparr>"]
  have p: "p \<noteq> malloc h" using header [OF rep] m by auto
  show ?thesis
  proof (cases xs rule: rev_cases)
    case Nil
    then show ?thesis using header [OF rep] m p
      by (simp add: linklist_append_last_def create_linknode_def link_at_def Let_def)
  next
    case (snoc us u)
    then have last: "length xs - 1 < length xs" "xs ! (length xs - 1) = u" "xs \<noteq> []" by auto
    have "fst u \<noteq> p" "fst u \<noteq> malloc h"
      using node [OF rep last(1)] header [OF rep] m unfolding last(2) by auto
    then show ?thesis
      using header [OF rep] m p node [OF rep last(1)] last first_NULL [OF chain [OF rep]]
        get_linknode_rep [OF rep', of "int (length xs) - 1"]
      by (simp add: linklist_append_last_def create_linknode_def link_at_def Let_def)
  qed
qed

lemma insert_link:
  assumes rep: "linklist_rep h p xs" and m: "malloc h \<noteq> NULL" "h (malloc h) = None"
    and k: "k \<le> length xs"
  shows "linklist_insert malloc h p (int k) d = Some (0, link_at h p xs k (malloc h) d)"
proof -
  consider "k = 0" | "0 < k" "k = length xs" | "0 < k" "k < length xs" using k by linarith
  then show ?thesis
  proof cases
    case 1
    then show ?thesis using insert_first_link [OF rep, of malloc d] m
      by (simp add: linklist_insert_def)
  next
    case 2
    then show ?thesis using append_last_link [OF rep, of malloc d] m header [OF rep]
      by (simp add: linklist_insert_def)
  next
    case 3
    then have k1: "k - 1 < length xs" by simp
    have p: "p \<noteq> malloc h" using header [OF rep] m by auto
    have "fst (xs ! (k - 1)) \<noteq> p" "fst (xs ! (k - 1)) \<noteq> malloc h"
      using node [OF rep k1] header [OF rep] m by auto
    then show ?thesis
      using 3 m p header [OF rep] node [OF rep k1] node [OF rep 3(2)]
        get_linknode_rep [OF rep, of "int k"] get_linknode_rep [OF rep, of "int k - 1"]
      by (simp add: linklist_insert_def create_linknode_def link_at_def Let_def first_drop)
  qed
qed

lemma insert_out_of_range:
  assumes rep: "linklist_rep h p xs" and i: "i < 0 \<or> int (length xs) < i"
  shows "linklist_insert malloc h p i d = Some (-1, h)"
  using i header [OF rep] get_linknode_rep [OF rep, of i] by (auto simp: linklist_insert_def)

section \<open>Deletion\<close>

definition unlink_at :: "'d heap \<Rightarrow> addr \<Rightarrow> (addr \<times> addr) list \<Rightarrow> nat \<Rightarrow> 'd heap" where
  "unlink_at h p xs k =
     (let h1 = (if k = 0 then h
                else h(fst (xs ! (k - 1)) \<mapsto>
                  ONode \<lparr>ln_next = first (drop (Suc k) xs) NULL, ln_data = snd (xs ! (k - 1))\<rparr>));
          h2 = (if snd (xs ! k) = NULL then h1 else h1(snd (xs ! k) := None))
      in h2(fst (xs ! k) := None,
            p \<mapsto> OList \<lparr>ll_phead = (if k = 0 then first (drop 1 xs) NULL else first xs NULL),
                      ll_count = int (length xs) - 1\<rparr>))"

lemma node_kinds:
  assumes rep: "linklist_rep h p xs" and k: "k < length xs"
  shows "fst (xs ! k) \<noteq> p" "snd (xs ! k) \<noteq> p" "snd (xs ! k) \<noteq> fst (xs ! k)"
    "0 < k \<Longrightarrow> fst (xs ! (k - 1)) \<noteq> p"
    "0 < k \<Longrightarrow> fst (xs ! (k - 1)) \<noteq> snd (xs ! k)"
    "0 < k \<Longrightarrow> fst (xs ! (k - 1)) \<noteq> fst (xs ! k)"
    "snd (xs ! k) = NULL \<or> (\<exists>v. h (snd (xs ! k)) = Some (OData v))"
proof -
  have "xs ! k \<in> set xs" using k by simp
  then show d: "snd (xs ! k) = NULL \<or> (\<exists>v. h (snd (xs ! k)) = Some (OData v))"
    using rep by (auto simp: linklist_rep_def)
  show "fst (xs ! k) \<noteq> p" "snd (xs ! k) \<noteq> p" "snd (xs ! k) \<noteq> fst (xs ! k)"
    using d header [OF rep] node [OF rep k] by auto
  assume k1: "0 < k"
  then have "k - 1 < length xs" using k by simp
  note n = node [OF rep this]
  show "fst (xs ! (k - 1)) \<noteq> p" "fst (xs ! (k - 1)) \<noteq> snd (xs ! k)"
    using d header [OF rep] n by auto
  have "distinct (map fst xs)" using rep by (simp add: linklist_rep_def)
  then show "fst (xs ! (k - 1)) \<noteq> fst (xs ! k)"
    using k k1 by (auto simp: distinct_conv_nth)
qed

lemma deleted_unlink_at:
  assumes rep: "linklist_rep h p xs" and k: "k < length xs"
  shows "deleted h (unlink_at h p xs k) p xs k"
proof -
  let ?h = "unlink_at h p xs k"
  note K = node_kinds [OF rep k] node(1) [OF rep k] header [OF rep]
  have eq: "xs = take k xs @ (fst (xs ! k), snd (xs ! k)) # drop (Suc k) xs"
    using k by (simp add: id_take_nth_drop)
  have 0: "linklist_rep h p (take k xs @ (fst (xs ! k), snd (xs ! k)) # drop (Suc k) xs)"
    using rep eq by simp
  have frame: "?h b = h b"
    if "b \<noteq> fst (xs ! k)" "b \<noteq> snd (xs ! k)" "b \<noteq> p" "take k xs = [] \<or> b \<noteq> fst (last (take k xs))" for b
    using that k by (auto simp: unlink_at_def Let_def last_take)
  have gone: "?h (fst (xs ! k)) = None" "snd (xs ! k) \<noteq> NULL \<Longrightarrow> ?h (snd (xs ! k)) = None"
    using K by (auto simp: unlink_at_def Let_def)
  have null: "?h NULL = h NULL"
  proof -
    have "k - 1 < length xs" using k by simp
    from node(1) [OF rep this] show ?thesis using K by (auto simp: unlink_at_def Let_def)
  qed
  have hdr: "?h p = Some (OList \<lparr>ll_phead = first (take k xs @ drop (Suc k) xs) NULL,
      ll_count = int (length (take k xs) + length (drop (Suc k) xs))\<rparr>)"
    using k by (cases k; cases xs) (auto simp: unlink_at_def Let_def)
  have last: "?h (fst (last (take k xs))) =
      Some (ONode \<lparr>ln_next = first (drop (Suc k) xs) NULL, ln_data = snd (last (take k xs))\<rparr>)"
    if "take k xs \<noteq> []"
    using that K k by (auto simp: unlink_at_def Let_def last_take)
  note D = rep_deleteI [OF 0, of ?h, OF frame gone null hdr last]
  have "?h b = h b" if "b \<noteq> p \<and> b \<noteq> snd (xs ! k) \<and> b \<notin> fst ` set xs" for b
    using that k by (auto simp: unlink_at_def Let_def)
  then show ?thesis using D gone by (simp add: deleted_def)
qed

lemma free_node:
  assumes "a \<noteq> NULL" "h a = Some (ONode n)" "ln_data n = NULL \<or> (\<exists>v. h (ln_data n) = Some (OData v))"
  shows "free_linknodedata h a =
           Some ((if ln_data n = NULL then h else h(ln_data n := None))(a := None))"
proof -
  have "ln_data n \<noteq> a" using assms by auto
  then show ?thesis using assms by (auto simp: free_linknodedata_def)
qed

lemma delete_first_unlink:
  assumes rep: "linklist_rep h p xs" and k: "0 < length xs"
  shows "linklist_delete_first h p = Some (0, unlink_at h p xs 0)"
proof -
  note K = node_kinds [OF rep k] node [OF rep k] header [OF rep]
  obtain x ys where xs: "xs = x # ys" using k by (cases xs) auto
  have "free_linknodedata (h(p \<mapsto> OList \<lparr>ll_phead = first ys NULL, ll_count = int (length xs)\<rparr>)) (fst x) =
    Some ((if snd x = NULL then h(p \<mapsto> OList \<lparr>ll_phead = first ys NULL, ll_count = int (length xs)\<rparr>)
           else h(p \<mapsto> OList \<lparr>ll_phead = first ys NULL, ll_count = int (length xs)\<rparr>, snd x := None))(fst x := None))"
    by (subst free_node [where n = "\<lparr>ln_next = first ys NULL, ln_data = snd x\<rparr>"])
      (use K in \<open>simp_all add: xs\<close>)
  then show ?thesis
    using K by (auto simp: linklist_delete_first_def unlink_at_def xs Let_def fun_upd_twist)
qed

text \<open>Releasing a node after its predecessor was redirected.\<close>

lemma free_after_redirect:
  assumes rep: "linklist_rep h p xs" and k: "k < length xs" "0 < k"
  shows "free_linknodedata (h(fst (xs ! (k - 1)) \<mapsto> ONode m)) (fst (xs ! k)) =
    Some ((if snd (xs ! k) = NULL then h(fst (xs ! (k - 1)) \<mapsto> ONode m)
           else h(fst (xs ! (k - 1)) \<mapsto> ONode m, snd (xs ! k) := None))(fst (xs ! k) := None))"
  using node_kinds [OF rep k(1)] node [OF rep k(1)] k(2)
  by (subst free_node [where n = "\<lparr>ln_next = first (drop (Suc k) xs) NULL, ln_data = snd (xs ! k)\<rparr>"])
    simp_all

lemma delete_last_unlink:
  assumes rep: "linklist_rep h p xs" and k: "0 < length xs"
  shows "linklist_delete_last h p = Some (0, unlink_at h p xs (length xs - 1))"
proof (cases "length xs = 1")
  case True
  then obtain x where xs: "xs = [x]" by (cases xs) auto
  note K = node_kinds [OF rep k] node [OF rep k] header [OF rep]
  have "free_linknodedata (h(p \<mapsto> OList \<lparr>ll_phead = NULL, ll_count = 0\<rparr>)) (fst x) =
    Some ((if snd x = NULL then h(p \<mapsto> OList \<lparr>ll_phead = NULL, ll_count = 0\<rparr>)
           else h(p \<mapsto> OList \<lparr>ll_phead = NULL, ll_count = 0\<rparr>, snd x := None))(fst x := None))"
    by (subst free_node [where n = "\<lparr>ln_next = NULL, ln_data = snd x\<rparr>"])
      (use K in \<open>simp_all add: xs\<close>)
  then show ?thesis
    using K get_linknode_rep [OF rep, of "-1"] get_linknode_rep [OF rep, of 0]
    by (auto simp: linklist_delete_last_def unlink_at_def xs Let_def fun_upd_twist)
next
  case False
  then obtain j where j: "length xs = Suc (Suc j)"
    using k by (cases xs; cases "tl xs") auto
  then have k1: "Suc j < length xs" "j < length xs" by simp_all
  note K = node_kinds(1,2,4,5,6) [OF rep k1(1), simplified] node [OF rep k1(1)] node [OF rep k1(2)] header [OF rep]
  have nxt: "first (drop (Suc j) xs) NULL = fst (xs ! Suc j)" "drop (Suc (Suc j)) xs = []"
    using k1 j by (simp_all add: first_drop)
  have g: "get_linknode h p (int j) = Some (fst (xs ! j))"
    using get_linknode_rep [OF rep, of "int j"] k1 by simp
  have ne: "xs \<noteq> []" "first xs NULL \<noteq> NULL" using k first_NULL [OF chain [OF rep]] by auto
  show ?thesis
    using K ne nxt g free_after_redirect [OF rep k1(1), simplified]
    by (simp add: linklist_delete_last_def unlink_at_def Let_def j)
qed

lemma delete_unlink:
  assumes rep: "linklist_rep h p xs" and k: "k < length xs"
  shows "linklist_delete h p (int k) = Some (0, unlink_at h p xs k)"
proof -
  have ne: "0 < length xs" "first xs NULL \<noteq> NULL" using k first_NULL [OF chain [OF rep]] by auto
  consider "k = 0" | "0 < k" "k = length xs - 1" | "0 < k" "k \<noteq> length xs - 1" by blast
  then show ?thesis
  proof cases
    case 1
    then show ?thesis using delete_first_unlink [OF rep ne(1)] ne header [OF rep]
      by (simp add: linklist_delete_def)
  next
    case 2
    then show ?thesis using delete_last_unlink [OF rep ne(1)] ne header [OF rep]
      by (simp add: linklist_delete_def)
  next
    case 3
    then obtain j where j: "k = Suc j" by (cases k) auto
    have k1: "j < length xs" "1 + int j \<noteq> int (length xs) - 1" using 3 k j by auto
    have g: "get_linknode h p (1 + int j) = Some (fst (xs ! Suc j))"
      "get_linknode h p (int j) = Some (fst (xs ! j))"
      using get_linknode_rep [OF rep, of "int (Suc j)"] get_linknode_rep [OF rep, of "int j"] k j
      by (simp_all add: nat_add_distrib)
    note K = node_kinds(1,2,4,5,6) [OF rep k, unfolded j, simplified]
      node [OF rep k, unfolded j] node [OF rep k1(1)] header [OF rep]
    show ?thesis unfolding j
      using K k1(2) ne g free_after_redirect [OF rep k 3(1), unfolded j]
      by (simp add: linklist_delete_def unlink_at_def Let_def)
  qed
qed

lemma delete_out_of_range:
  assumes rep: "linklist_rep h p xs" and i: "i < 0 \<or> int (length xs) \<le> i"
  shows "linklist_delete h p i = Some (-1, h)"
  using i header [OF rep] get_linknode_rep [OF rep, of i] by (auto simp: linklist_delete_def)

section \<open>Destruction\<close>

lemma free_nodes_seg:
  assumes "seg h xs NULL" "distinct (map fst xs)" "distinct (filter (\<lambda>d. d \<noteq> NULL) (map snd xs))"
    and "\<forall>x \<in> set xs. snd x \<noteq> NULL \<longrightarrow> rd_data h (snd x) \<noteq> None"
  shows "\<exists>h'. free_nodes h (first xs NULL) = Some h' \<and>
    (\<forall>b. h' b = (if b \<in> fst ` set xs \<or> b \<noteq> NULL \<and> b \<in> snd ` set xs then None else h b))"
  using assms
proof (induction xs arbitrary: h)
  case Nil
  then show ?case by (simp add: free_nodes.simps)
next
  case (Cons x xs)
  let ?n = "\<lparr>ln_next = first xs NULL, ln_data = snd x\<rparr>"
  let ?h = "(if snd x = NULL then h else h(snd x := None))(fst x := None)"
  have x: "fst x \<noteq> NULL" "h (fst x) = Some (ONode ?n)"
    "snd x = NULL \<or> (\<exists>v. h (snd x) = Some (OData v))"
    using Cons.prems by auto
  have keep: "?h (fst y) = h (fst y)" "snd y \<noteq> NULL \<Longrightarrow> ?h (snd y) = h (snd y)" if "y \<in> set xs" for y
  proof -
    have "fst y \<noteq> fst x" "snd x \<noteq> NULL \<Longrightarrow> snd x \<noteq> snd y" using Cons.prems(2,3) that by (auto simp: image_iff)
    moreover have "\<exists>n. h (fst y) = Some (ONode n)" using Cons.prems(1) seg_node [OF _ that] by auto
    moreover have "snd y \<noteq> NULL \<Longrightarrow> \<exists>v. h (snd y) = Some (OData v)" using Cons.prems(4) that by auto
    ultimately show "?h (fst y) = h (fst y)" "snd y \<noteq> NULL \<Longrightarrow> ?h (snd y) = h (snd y)"
      using x by auto
  qed
  have "seg ?h xs NULL" using Cons.prems(1) by (intro seg_cong [of h xs NULL ?h] keep) simp_all
  moreover have "\<forall>y \<in> set xs. snd y \<noteq> NULL \<longrightarrow> rd_data ?h (snd y) \<noteq> None"
  proof (intro ballI impI)
    fix y assume y: "y \<in> set xs" "snd y \<noteq> NULL"
    then obtain v where "h (snd y) = Some (OData v)" using Cons.prems(4) by auto
    then have "rd_data ?h (snd y) = Some v" using keep(2) [OF y] y(2) unfolding rd_kind by simp
    then show "rd_data ?h (snd y) \<noteq> None" by simp
  qed
  moreover have "distinct (map fst xs)" "distinct (filter (\<lambda>d. d \<noteq> NULL) (map snd xs))"
    using Cons.prems(2,3) by (simp_all split: if_splits)
  ultimately obtain h' where h': "free_nodes ?h (first xs NULL) = Some h'"
    "\<forall>b. h' b = (if b \<in> fst ` set xs \<or> b \<noteq> NULL \<and> b \<in> snd ` set xs then None else ?h b)"
    using Cons.IH [of ?h] by blast
  have "free_nodes h (first (x # xs) NULL) = Some h'"
    using x h'(1) free_node [where h = h and a = "fst x" and n = ?n]
    by (cases "snd x = NULL") (simp_all add: free_nodes.simps [of h])
  then show ?case using h'(2) by auto
qed

lemma destory_linklist_rep:
  assumes rep: "linklist_rep h p xs"
  shows "\<exists>h'. destory_linklist h p = Some (0, h') \<and> linklist_rep h' p [] \<and>
    (\<forall>b. b \<noteq> p \<longrightarrow>
      h' b = (if b \<in> fst ` set xs \<or> b \<noteq> NULL \<and> b \<in> snd ` set xs then None else h b))"
proof -
  obtain h' where h': "free_nodes h (first xs NULL) = Some h'"
    "\<forall>b. h' b = (if b \<in> fst ` set xs \<or> b \<noteq> NULL \<and> b \<in> snd ` set xs then None else h b)"
    using free_nodes_seg [of h xs] rep unfolding linklist_rep_def by blast
  have "p \<notin> fst ` set xs" "p \<notin> snd ` set xs"
    using node_kinds(1,2) [OF rep] by (auto simp: in_set_conv_nth) (metis fst_conv, metis snd_conv)
  then show ?thesis using h' header [OF rep]
    by (auto simp: destory_linklist_def linklist_rep_def)
qed

section \<open>The interface\<close>

text \<open>A list of data pointers. A client knows the pointers in order and the data behind them.\<close>

definition linklist_holds :: "'d heap \<Rightarrow> addr \<Rightarrow> addr list \<Rightarrow> bool" where
  "linklist_holds h p ds \<longleftrightarrow>
     finite (dom h) \<and> (\<exists>xs. linklist_rep h p xs \<and> map snd xs = ds)"

locale pointer_list =
  fixes holds :: "'d heap \<Rightarrow> addr \<Rightarrow> addr list \<Rightarrow> bool"
    and size :: "'d heap \<Rightarrow> addr \<Rightarrow> int option"
    and get :: "'d heap \<Rightarrow> addr \<Rightarrow> int \<Rightarrow> addr option"
    and ins :: "('d heap \<Rightarrow> addr) \<Rightarrow> 'd heap \<Rightarrow> addr \<Rightarrow> int \<Rightarrow> addr \<Rightarrow> (int \<times> 'd heap) option"
    and del :: "'d heap \<Rightarrow> addr \<Rightarrow> int \<Rightarrow> (int \<times> 'd heap) option"
  assumes finite: "holds h p ds \<Longrightarrow> finite (dom h)"
    and size: "holds h p ds \<Longrightarrow> size h p = Some (int (length ds))"
    and get: "holds h p ds \<Longrightarrow> i < length ds \<Longrightarrow> get h p (int i) = Some (ds ! i)"
    and data: "holds h p ds \<Longrightarrow> d \<in> set ds \<Longrightarrow> d \<noteq> NULL \<Longrightarrow> rd_data h d \<noteq> None"
    and once: "holds h p ds \<Longrightarrow> distinct (filter (\<lambda>d. d \<noteq> NULL) ds)"
    and ins: "malloc_ok m \<Longrightarrow> m h \<noteq> NULL \<Longrightarrow> holds h p ds \<Longrightarrow> i \<le> length ds \<Longrightarrow> new_data h ds d \<Longrightarrow>
      \<exists>h'. ins m h p (int i) d = Some (0, h') \<and> holds h' p (take i ds @ d # drop i ds) \<and>
           rd_data h' = rd_data h"
    and ins_fail: "m h = NULL \<Longrightarrow> holds h p ds \<Longrightarrow> ins m h p k d = Some (-1, h)"
    and del: "holds h p ds \<Longrightarrow> i < length ds \<Longrightarrow>
      \<exists>h'. del h p (int i) = Some (0, h') \<and> holds h' p (take i ds @ drop (Suc i) ds) \<and>
           rd_data h' = (rd_data h)(ds ! i := None)"
    and frame: "holds h p ds \<Longrightarrow> h a = None \<Longrightarrow> holds (h(a \<mapsto> ob)) p ds"
    and update: "holds h p ds \<Longrightarrow> wr_data h d v = Some h' \<Longrightarrow> holds h' p ds"
begin

text \<open>Appending and taking from the front is a queue.\<close>

lemma append_then_get:
  assumes "malloc_ok m" "m h \<noteq> NULL" "holds h p ds" "new_data h ds d"
  shows "\<exists>h'. ins m h p (int (length ds)) d = Some (0, h') \<and> holds h' p (ds @ [d]) \<and>
    get h' p (int (length ds)) = Some d \<and> rd_data h' = rd_data h"
proof -
  obtain h' where h': "ins m h p (int (length ds)) d = Some (0, h')" "holds h' p (ds @ [d])"
    "rd_data h' = rd_data h"
    using ins [OF assms(1-3) le_refl assms(4)] by auto
  then show ?thesis using get [OF h'(2), of "length ds"] by simp
qed

text \<open>Inserting and deleting at the same place is no change for the client, except that the
  datum is released.\<close>

lemma ins_del:
  assumes "malloc_ok m" "m h \<noteq> NULL" "holds h p ds" "i \<le> length ds" "new_data h ds d"
  shows "\<exists>h1 h2. ins m h p (int i) d = Some (0, h1) \<and> del h1 p (int i) = Some (0, h2) \<and>
    holds h2 p ds \<and> rd_data h2 = (rd_data h)(d := None)"
proof -
  obtain h1 where h1: "ins m h p (int i) d = Some (0, h1)" "holds h1 p (take i ds @ d # drop i ds)"
    "rd_data h1 = rd_data h"
    using ins [OF assms] by auto
  obtain h2 where h2: "del h1 p (int i) = Some (0, h2)" "holds h2 p ds"
    "rd_data h2 = (rd_data h)(d := None)"
    using del [OF h1(2), of i] assms(4) h1(3) by (auto simp: nth_append)
  show ?thesis using h1(1) h2 by blast
qed

end

lemma holds_fresh: "linklist_holds h p ds \<Longrightarrow> h a = None \<Longrightarrow> linklist_holds (h(a \<mapsto> ob)) p ds"
  unfolding linklist_holds_def using rep_fresh [of h p _ a ob] by auto

lemma holds_update:
  assumes "linklist_holds h p ds" and w: "wr_data h d v = Some h'"
  shows "linklist_holds h' p ds"
proof -
  obtain xs where rep: "linklist_rep h p xs" and ds: "map snd xs = ds" and fin: "finite (dom h)"
    using assms by (auto simp: linklist_holds_def)
  obtain u where u: "d \<noteq> NULL" "h d = Some (OData u)" "h' = h(d \<mapsto> OData v)"
    using w by (auto simp: wr_data_def split: bind_splits)
  have "linklist_rep h' p xs"
  proof (rule rep_frame [OF rep])
    show "h' p = h p" using u header [OF rep] by auto
    show "h' (fst x) = h (fst x)" if "x \<in> set xs" for x
      using u seg_node [OF chain [OF rep] that] by auto
    show "rd_data h' (snd x) \<noteq> None" if "rd_data h (snd x) \<noteq> None" for x
      using that u by auto
  qed
  moreover have "finite (dom h')" using fin u(3) by simp
  ultimately show ?thesis using ds by (auto simp: linklist_holds_def)
qed

lemma insert_malloc_fail:
  assumes rep: "linklist_rep h p xs" and "malloc h = NULL"
  shows "linklist_insert malloc h p i d = Some (-1, h)"
  using assms header [OF rep] get_linknode_rep [OF rep]
  by (auto simp: linklist_insert_def linklist_insert_first_def linklist_append_last_def create_linknode_def Let_def)

lemma linklist_insert_rep:
  assumes m: "malloc_ok m" "m h \<noteq> NULL" and rep: "linklist_rep h p xs"
    and i: "i \<le> length xs" and d: "new_data h (map snd xs) d"
  shows "\<exists>h'. linklist_insert m h p (int i) d = Some (0, h') \<and> inserted h h' p xs i (m h) d"
proof -
  have "h (m h) = None" using m by (metis malloc_cases)
  then show ?thesis
    using insert_link [of h p xs m i d] inserted_link_at [of h p xs i "m h" d] m rep i d by blast
qed

lemma linklist_delete_rep:
  assumes rep: "linklist_rep h p xs" and i: "i < length xs"
  shows "\<exists>h'. linklist_delete h p (int i) = Some (0, h') \<and> deleted h h' p xs i"
  using delete_unlink [OF rep i] deleted_unlink_at [OF rep i] by blast

lemma finite_changed:
  assumes "finite (dom h)" "\<forall>b. b \<noteq> p \<and> b \<noteq> a \<and> b \<notin> fst ` set xs \<longrightarrow> h' b = h b"
  shows "finite (dom h')"
proof (rule finite_subset)
  show "dom h' \<subseteq> dom h \<union> {p, a} \<union> fst ` set xs"
  proof
    fix b assume "b \<in> dom h'"
    then show "b \<in> dom h \<union> {p, a} \<union> fst ` set xs" using assms(2) [rule_format, of b] by (auto simp: dom_def) metis
  qed
  show "finite (dom h \<union> {p, a} \<union> fst ` set xs)" using assms(1) by simp
qed

interpretation ll: pointer_list linklist_holds linklist_size linklist_get linklist_insert linklist_delete
proof
  fix h :: "'a heap" and p ds and i :: nat and k m d a ob v h'
  assume holds: "linklist_holds h p ds"
  then obtain xs where rep: "linklist_rep h p xs" and ds: "map snd xs = ds"
    and fin: "finite (dom h)"
    by (auto simp: linklist_holds_def)
  show "finite (dom h)" by (rule fin)
  show "linklist_size h p = Some (int (length ds))"
    using linklist_size_rep [OF rep] ds by auto
  show "i < length ds \<Longrightarrow> linklist_get h p (int i) = Some (ds ! i)"
    using linklist_get_rep [OF rep] ds by auto
  show "d \<in> set ds \<Longrightarrow> d \<noteq> NULL \<Longrightarrow> rd_data h d \<noteq> None" "distinct (filter (\<lambda>d. d \<noteq> NULL) ds)"
    using rep ds by (auto simp: linklist_rep_def)
  show "m h = NULL \<Longrightarrow> linklist_insert m h p k d = Some (-1, h)"
    using insert_malloc_fail [OF rep] by blast
  show "h a = None \<Longrightarrow> linklist_holds (h(a \<mapsto> ob)) p ds"
    using holds_fresh [OF holds] by blast
  show "wr_data h d v = Some h' \<Longrightarrow> linklist_holds h' p ds"
    using holds_update [OF holds] by blast
  show "\<exists>h'. linklist_delete h p (int i) = Some (0, h') \<and>
      linklist_holds h' p (take i ds @ drop (Suc i) ds) \<and> rd_data h' = (rd_data h)(ds ! i := None)"
    if "i < length ds"
  proof -
    obtain h' where "linklist_delete h p (int i) = Some (0, h')" "deleted h h' p xs i"
      using linklist_delete_rep [OF rep, of i] \<open>i < length ds\<close> ds by auto
    moreover have "finite (dom h')"
      using calculation(2) finite_changed [OF fin] by (auto simp: deleted_def)
    ultimately show ?thesis using that ds
      by (auto simp: deleted_def linklist_holds_def take_map drop_map)
  qed
  show "\<exists>h'. linklist_insert m h p (int i) d = Some (0, h') \<and>
      linklist_holds h' p (take i ds @ d # drop i ds) \<and> rd_data h' = rd_data h"
    if "malloc_ok m" "m h \<noteq> NULL" "i \<le> length ds" "new_data h ds d"
  proof -
    obtain h' where "linklist_insert m h p (int i) d = Some (0, h')" "inserted h h' p xs i (m h) d"
      using linklist_insert_rep [OF \<open>malloc_ok m\<close> \<open>m h \<noteq> NULL\<close> rep, of i d]
        \<open>i \<le> length ds\<close> \<open>new_data h ds d\<close> ds by auto
    moreover have "finite (dom h')"
      using calculation(2) finite_changed [OF fin] by (auto simp: inserted_def)
    ultimately show ?thesis using that ds
      by (auto simp: inserted_def linklist_holds_def take_map drop_map)
  qed
qed

section \<open>The contract\<close>

datatype list_op =
  Insert int addr | Insert_first addr | Append_last addr
| Delete int | Delete_first | Delete_last | Destroy

fun list_do ::
  "('d heap \<Rightarrow> addr) \<Rightarrow> 'd heap \<Rightarrow> addr \<Rightarrow> list_op \<Rightarrow> (int \<times> 'd heap) option" where
  "list_do m h p (Insert i d) = linklist_insert m h p i d"
| "list_do m h p (Insert_first d) = linklist_insert_first m h p d"
| "list_do m h p (Append_last d) = linklist_append_last m h p d"
| "list_do m h p (Delete i) = linklist_delete h p i"
| "list_do m h p Delete_first = linklist_delete_first h p"
| "list_do m h p Delete_last = linklist_delete_last h p"
| "list_do m h p Destroy = destory_linklist h p"

text \<open>The result and the new list, when memory is left or not.\<close>

fun list_spec :: "bool \<Rightarrow> addr list \<Rightarrow> list_op \<Rightarrow> int \<times> addr list" where
  "list_spec mem ds (Insert i d) =
     (if mem \<and> 0 \<le> i \<and> i \<le> int (length ds)
      then (0, take (nat i) ds @ d # drop (nat i) ds) else (-1, ds))"
| "list_spec mem ds (Insert_first d) = (if mem then (0, d # ds) else (-1, ds))"
| "list_spec mem ds (Append_last d) = (if mem then (0, ds @ [d]) else (-1, ds))"
| "list_spec mem ds (Delete i) =
     (if 0 \<le> i \<and> i < int (length ds) then (0, take (nat i) ds @ drop (Suc (nat i)) ds) else (-1, ds))"
| "list_spec mem ds Delete_first = (if ds = [] then (-1, []) else (0, tl ds))"
| "list_spec mem ds Delete_last = (if ds = [] then (-1, []) else (0, butlast ds))"
| "list_spec mem ds Destroy = (0, [])"

fun op_data :: "list_op \<Rightarrow> addr set" where
  "op_data (Insert i d) = {d}"
| "op_data (Insert_first d) = {d}"
| "op_data (Append_last d) = {d}"
| "op_data _ = {}"

lemma inserted_holds:
  "linklist_rep h p xs \<Longrightarrow> finite (dom h) \<Longrightarrow> inserted h h' p xs k a d \<Longrightarrow>
     linklist_holds h' p (take k (map snd xs) @ d # drop k (map snd xs)) \<and> rd_data h' = rd_data h"
  using finite_changed [of h p a xs h']
  by (auto simp: inserted_def linklist_holds_def take_map drop_map)

lemma deleted_holds:
  "linklist_rep h p xs \<Longrightarrow> finite (dom h) \<Longrightarrow> deleted h h' p xs k \<Longrightarrow>
     linklist_holds h' p (take k (map snd xs) @ drop (Suc k) (map snd xs)) \<and>
     rd_data h' = (rd_data h)(snd (xs ! k) := None)"
  using finite_changed [of h p "snd (xs ! k)" xs h']
  by (auto simp: deleted_def linklist_holds_def take_map drop_map)

definition step_ok ::
  "'d heap \<Rightarrow> addr \<Rightarrow> addr list \<Rightarrow> (int \<times> 'd heap) option \<Rightarrow> int \<times> addr list \<Rightarrow> bool" where
  "step_ok h p ds f sp \<longleftrightarrow>
     (\<exists>h'. f = Some (fst sp, h') \<and> linklist_holds h' p (snd sp) \<and>
           (\<forall>e \<in> set ds \<inter> set (snd sp). rd_data h' e = rd_data h e))"

lemma step_none: "linklist_holds h p ds \<Longrightarrow> step_ok h p ds (Some (-1, h)) (-1, ds)"
  by (simp add: step_ok_def)

lemma step_ins:
  assumes rep: "linklist_rep h p xs" and fin: "finite (dom h)" and m: "malloc_ok m" "m h \<noteq> NULL"
    and "k \<le> length xs" "new_data h (map snd xs) d"
  shows "step_ok h p (map snd xs) (Some (0, link_at h p xs k (m h) d))
    (0, take k (map snd xs) @ d # drop k (map snd xs))"
proof -
  have "h (m h) = None" using m by (metis malloc_cases)
  then have "linklist_holds (link_at h p xs k (m h) d) p (take k (map snd xs) @ d # drop k (map snd xs)) \<and>
      rd_data (link_at h p xs k (m h) d) = rd_data h"
    using inserted_holds [OF rep fin inserted_link_at [OF rep]] assms by blast
  then show ?thesis by (simp add: step_ok_def)
qed

lemma step_del:
  assumes rep: "linklist_rep h p xs" and fin: "finite (dom h)" and k: "k < length xs"
  shows "step_ok h p (map snd xs) (Some (0, unlink_at h p xs k))
    (0, take k (map snd xs) @ drop (Suc k) (map snd xs))"
proof -
  let ?h = "unlink_at h p xs k" and ?ds = "map snd xs"
  have D: "linklist_holds ?h p (take k ?ds @ drop (Suc k) ?ds)" "rd_data ?h = (rd_data h)(?ds ! k := None)"
    using deleted_holds [OF rep fin deleted_unlink_at [OF rep k]] k by simp_all
  have once: "distinct (filter (\<lambda>d. d \<noteq> NULL) (take k ?ds @ ?ds ! k # drop (Suc k) ?ds))"
    using k rep id_take_nth_drop [of k ?ds] by (simp add: linklist_rep_def)
  have "rd_data ?h e = rd_data h e" if "e \<in> set (take k ?ds @ drop (Suc k) ?ds)" for e
  proof (cases "e = NULL")
    case False
    then have "e \<noteq> ?ds ! k" using that once by auto
    then show ?thesis unfolding D(2) by simp
  qed simp
  then show ?thesis unfolding step_ok_def using D(1) by simp
qed

lemma step_insert:
  assumes rep: "linklist_rep h p xs" and fin: "finite (dom h)" and m: "malloc_ok m"
    and d: "new_data h (map snd xs) d"
  shows "step_ok h p (map snd xs) (linklist_insert m h p i d)
    (list_spec (m h \<noteq> NULL) (map snd xs) (Insert i d))"
proof (cases "m h \<noteq> NULL \<and> 0 \<le> i \<and> i \<le> int (length xs)")
  case True
  then have "h (m h) = None" using m by (metis malloc_cases)
  then have "linklist_insert m h p i d = Some (0, link_at h p xs (nat i) (m h) d)"
    using insert_link [OF rep, of m "nat i" d] True by (simp add: nat_le_iff)
  then show ?thesis using step_ins [OF rep fin m _ _ d, of "nat i"] True by (simp add: nat_le_iff)
next
  case False
  then have "linklist_insert m h p i d = Some (-1, h)"
    using insert_malloc_fail [OF rep] insert_out_of_range [OF rep] by (meson not_le)
  moreover have "list_spec (m h \<noteq> NULL) (map snd xs) (Insert i d) = (-1, map snd xs)"
    using False by simp
  ultimately show ?thesis
    using step_none [of h p "map snd xs"] rep fin by (auto simp: linklist_holds_def)
qed

lemma step_insert_first:
  assumes rep: "linklist_rep h p xs" and fin: "finite (dom h)" and m: "malloc_ok m"
    and d: "new_data h (map snd xs) d"
  shows "step_ok h p (map snd xs) (linklist_insert_first m h p d)
    (list_spec (m h \<noteq> NULL) (map snd xs) (Insert_first d))"
  using step_insert [OF rep fin m d, of 0] by (simp add: linklist_insert_def split: if_splits)

lemma step_append_last:
  assumes rep: "linklist_rep h p xs" and fin: "finite (dom h)" and m: "malloc_ok m"
    and d: "new_data h (map snd xs) d"
  shows "step_ok h p (map snd xs) (linklist_append_last m h p d)
    (list_spec (m h \<noteq> NULL) (map snd xs) (Append_last d))"
proof (cases "xs = []")
  case True
  have "linklist_append_last m h p d = linklist_insert_first m h p d"
  proof (cases "m h = NULL")
    case False
    then have "h (m h) = None" using m by (metis malloc_cases)
    then show ?thesis
      using append_last_link [of h p xs m d] insert_first_link [of h p xs m d] rep False True by simp
  qed (simp add: linklist_append_last_def linklist_insert_first_def create_linknode_def Let_def)
  then show ?thesis using step_insert_first [OF rep fin m d] True by (simp split: if_splits)
next
  case False
  then show ?thesis
    using step_insert [OF rep fin m d, of "int (length xs)"] header [OF rep]
    by (simp add: linklist_insert_def split: if_splits)
qed

lemma step_delete:
  assumes rep: "linklist_rep h p xs" and fin: "finite (dom h)"
  shows "step_ok h p (map snd xs) (linklist_delete h p i) (list_spec mem (map snd xs) (Delete i))"
proof (cases "0 \<le> i \<and> i < int (length xs)")
  case True
  then show ?thesis
    using delete_unlink [OF rep, of "nat i"] step_del [OF rep fin, of "nat i"]
    by (simp add: nat_less_iff)
next
  case False
  then have "linklist_delete h p i = Some (-1, h)"
    using delete_out_of_range [OF rep] by (meson not_le)
  moreover have "list_spec mem (map snd xs) (Delete i) = (-1, map snd xs)" using False by simp
  ultimately show ?thesis
    using step_none [of h p "map snd xs"] rep fin by (auto simp: linklist_holds_def)
qed

lemma step_delete_ends:
  assumes rep: "linklist_rep h p xs" and fin: "finite (dom h)"
  shows "step_ok h p (map snd xs) (linklist_delete_first h p) (list_spec mem (map snd xs) Delete_first)"
    "step_ok h p (map snd xs) (linklist_delete_last h p) (list_spec mem (map snd xs) Delete_last)"
proof -
  consider (empty) "xs = []" | (some) "0 < length xs" by blast
  note C = this
  have holds: "linklist_holds h p (map snd xs)" using rep fin by (auto simp: linklist_holds_def)
  show "step_ok h p (map snd xs) (linklist_delete_first h p) (list_spec mem (map snd xs) Delete_first)"
    using C
  proof cases
    case empty
    then show ?thesis
      using header [OF rep] step_none [OF holds] by (simp add: linklist_delete_first_def)
  next
    case some
    then show ?thesis
      using delete_first_unlink [OF rep some] step_del [OF rep fin some] by (simp add: drop_Suc)
  qed
  show "step_ok h p (map snd xs) (linklist_delete_last h p) (list_spec mem (map snd xs) Delete_last)"
    using C
  proof cases
    case empty
    then show ?thesis
      using header [OF rep] step_none [OF holds] by (simp add: linklist_delete_last_def)
  next
    case some
    then show ?thesis
      using delete_last_unlink [OF rep some] step_del [OF rep fin, of "length xs - 1"]
      by (simp add: butlast_conv_take)
  qed
qed

lemma step_destroy:
  assumes rep: "linklist_rep h p xs" and fin: "finite (dom h)"
  shows "step_ok h p (map snd xs) (destory_linklist h p) (0, [])"
proof -
  obtain h' where h': "destory_linklist h p = Some (0, h')" "linklist_rep h' p []"
    "\<forall>b. b \<noteq> p \<longrightarrow> h' b = (if b \<in> fst ` set xs \<or> b \<noteq> NULL \<and> b \<in> snd ` set xs then None else h b)"
    using destory_linklist_rep [OF rep] by blast
  have "dom h' \<subseteq> insert p (dom h)"
  proof
    fix b assume b: "b \<in> dom h'"
    show "b \<in> insert p (dom h)"
    proof (cases "b = p")
      case False
      then show ?thesis using b h'(3) [rule_format, OF False] by (auto simp: dom_def split: if_splits)
    qed simp
  qed
  then have "finite (dom h')" using fin finite_subset by blast
  then show ?thesis using h'(1,2) by (auto simp: linklist_holds_def step_ok_def)
qed

text \<open>C34: every operation of the linked list implements the operation on the list of its data:
  it makes no invalid access, returns 0 or -1 as the list says (-1 exactly for an index out of
  range, an empty list or no memory, and then the list is unchanged), and afterwards the data
  of the entries that stay is as before.\<close>

theorem linklist_refines:
  assumes m: "malloc_ok m" and holds: "linklist_holds h p ds"
    and d: "\<forall>d \<in> op_data op. new_data h ds d"
  shows "\<exists>h'. list_do m h p op = Some (fst (list_spec (m h \<noteq> NULL) ds op), h') \<and>
    linklist_holds h' p (snd (list_spec (m h \<noteq> NULL) ds op)) \<and>
    (\<forall>e \<in> set ds \<inter> set (snd (list_spec (m h \<noteq> NULL) ds op)). rd_data h' e = rd_data h e)"
proof -
  obtain xs where rep: "linklist_rep h p xs" and ds: "ds = map snd xs" and fin: "finite (dom h)"
    using holds by (auto simp: linklist_holds_def)
  note steps = step_insert [OF rep fin m] step_insert_first [OF rep fin m]
    step_append_last [OF rep fin m] step_delete [OF rep fin] step_delete_ends [OF rep fin]
    step_destroy [OF rep fin]
  have "step_ok h p ds (list_do m h p op) (list_spec (m h \<noteq> NULL) ds op)"
    using d steps unfolding ds
    by (cases op) (simp_all only: list_do.simps list_spec.simps(7) op_data.simps ball_simps simp_thms)
  then show ?thesis unfolding step_ok_def .
qed

definition ex_heap :: "nat heap" where
  "ex_heap = [1 \<mapsto> OList \<lparr>ll_phead = 2, ll_count = 2\<rparr>,
    2 \<mapsto> ONode \<lparr>ln_next = 4, ln_data = 3\<rparr>, 3 \<mapsto> OData 30,
    4 \<mapsto> ONode \<lparr>ln_next = NULL, ln_data = NULL\<rparr>, 5 \<mapsto> OData 50]"

definition ex_malloc :: "nat heap \<Rightarrow> addr" where
  "ex_malloc h = (if h 6 = None then 6 else NULL)"

lemma ex_malloc_ok: "malloc_ok ex_malloc"
  by (simp add: malloc_ok_def ex_malloc_def)

lemma ex_heap_holds: "linklist_holds ex_heap 1 [3, NULL]"
proof -
  have "linklist_rep ex_heap 1 [(2, 3), (4, NULL)]"
    by (simp add: linklist_rep_def ex_heap_def)
  then show ?thesis by (auto simp: linklist_holds_def ex_heap_def)
qed

theorem linklist_refines_witness:
  "(\<exists>h'. list_do ex_malloc ex_heap 1 (Insert 1 5) = Some (0, h') \<and>
     linklist_holds h' 1 [3, 5, NULL] \<and> rd_data h' 3 = Some 30)"
proof -
  have "\<forall>d \<in> op_data (Insert 1 5). new_data ex_heap [3, NULL] d"
    by (simp add: new_data_def ex_heap_def)
  note linklist_refines [OF ex_malloc_ok ex_heap_holds this]
  moreover have "ex_malloc ex_heap \<noteq> NULL" by (simp add: ex_malloc_def ex_heap_def)
  moreover have "rd_data ex_heap 3 = Some 30" by (simp add: ex_heap_def)
  ultimately show ?thesis by auto
qed

end
