(* ===== verification/Timers.thy ===== *)
theory Timers
  imports Link_List_Ops
begin

text \<open>
  The callback timers of the AT task (at_utils.c): one entry in a linked list for every pair
  of callback and duration that was ever started.

  The timers of the platform are calls, recorded in order. What \<open>KING_TimerCreate\<close> returns and
  the handle it stores are arguments, as is \<open>malloc\<close>. A callback and a context are addresses.
\<close>

section \<open>The model\<close>

record timer_param =
  time_out :: u32
  tp_func :: addr
  tp_ctx :: addr
  tp_handle :: addr

datatype king_call =
  KING_TimerCreate
| KING_TimerDeactive addr
| KING_TimerActive addr addr u32
| KING_TimerDelete addr

record at_timers =
  tm_heap :: "timer_param heap"
  g_atTimerList :: addr
  tm_calls :: "king_call list"

definition SUCCESS :: int where "SUCCESS = 0"

definition FAIL :: int where "FAIL = -1"

text \<open>The loops over the list: the first index whose entry satisfies the condition, or none.
  The counter has eight bits, the size has more: the loop may not end.\<close>

partial_function (option) find_entry ::
  "(int \<Rightarrow> addr option) \<Rightarrow> (addr \<Rightarrow> bool option) \<Rightarrow> int \<Rightarrow> u8 \<Rightarrow> u8 option option" where
  "find_entry get cond list_size i =
     (if int (unat i) < list_size then
        Option.bind (get (int (unat i))) (\<lambda>a.
        Option.bind (cond a) (\<lambda>b.
        if b then Some (Some i) else find_entry get cond list_size (i + 1)))
      else Some None)"

definition at_StartCallbackTimer ::
  "(timer_param heap \<Rightarrow> addr) \<Rightarrow> int \<times> addr \<Rightarrow> at_timers \<Rightarrow> u32 \<Rightarrow> addr \<Rightarrow> addr
     \<Rightarrow> (int \<times> at_timers) option" where
  "at_StartCallbackTimer malloc create s ms callback ctx =
     (case (if g_atTimerList s = NULL then create_linklist malloc (tm_heap s)
            else (g_atTimerList s, tm_heap s)) of (lst, h) \<Rightarrow>
      if lst = NULL then Some (FAIL, s)
      else do {
        list_size \<leftarrow> linklist_size h lst;
        found \<leftarrow> find_entry (linklist_get h lst)
          (\<lambda>a. if a = NULL then Some False
               else map_option (\<lambda>t. time_out t = ms \<and> tp_func t = callback) (rd_data h a))
          list_size 0;
        case found of
          Some i \<Rightarrow> do {
            a \<leftarrow> linklist_get h lst (int (unat i));
            t \<leftarrow> rd_data h a;
            h \<leftarrow> wr_data h a (t\<lparr>tp_ctx := ctx\<rparr>);
            Some (SUCCESS, s\<lparr>tm_heap := h, g_atTimerList := lst,
              tm_calls := tm_calls s @ [KING_TimerDeactive (tp_handle t),
                KING_TimerActive (tp_handle t) callback ms]\<rparr>) }
        | None \<Rightarrow>
            (let a = malloc h
             in if a = NULL then None
                else if fst create \<noteq> SUCCESS
                then Some (fst create, s\<lparr>g_atTimerList := lst, tm_calls := tm_calls s @ [KING_TimerCreate],
                  tm_heap := h(a \<mapsto> OData \<lparr>time_out = ms, tp_func = callback, tp_ctx = ctx, tp_handle = snd create\<rparr>)\<rparr>)
                else do {
                  (_, h) \<leftarrow> linklist_insert malloc
                    (h(a \<mapsto> OData \<lparr>time_out = ms, tp_func = callback, tp_ctx = ctx, tp_handle = snd create\<rparr>))
                    lst list_size a;
                  Some (SUCCESS, s\<lparr>tm_heap := h, g_atTimerList := lst,
                    tm_calls := tm_calls s @ [KING_TimerCreate, KING_TimerDeactive (snd create),
                      KING_TimerActive (snd create) callback ms]\<rparr>) }) })"

definition at_StopCallbackTimer :: "at_timers \<Rightarrow> addr \<Rightarrow> addr \<Rightarrow> at_timers option" where
  "at_StopCallbackTimer s callback ctx = do {
     list_size \<leftarrow> linklist_size (tm_heap s) (g_atTimerList s);
     found \<leftarrow> find_entry (linklist_get (tm_heap s) (g_atTimerList s))
       (\<lambda>a. if a = NULL then Some False
            else map_option (\<lambda>t. tp_func t = callback) (rd_data (tm_heap s) a))
       list_size 0;
     case found of
       Some i \<Rightarrow> do {
         a \<leftarrow> linklist_get (tm_heap s) (g_atTimerList s) (int (unat i));
         t \<leftarrow> rd_data (tm_heap s) a;
         (_, h) \<leftarrow> linklist_delete (tm_heap s) (g_atTimerList s) (int (unat i));
         Some (s\<lparr>tm_heap := h,
           tm_calls := tm_calls s @ [KING_TimerDeactive (tp_handle t), KING_TimerDelete (tp_handle t)]\<rparr>) }
     | None \<Rightarrow> Some s }"

definition at_GetTimerCtx :: "at_timers \<Rightarrow> addr \<Rightarrow> addr option" where
  "at_GetTimerCtx s handle = do {
     list_size \<leftarrow> linklist_size (tm_heap s) (g_atTimerList s);
     found \<leftarrow> find_entry (linklist_get (tm_heap s) (g_atTimerList s))
       (\<lambda>a. map_option (\<lambda>t. handle = tp_handle t) (rd_data (tm_heap s) a)) list_size 0;
     case found of
       Some i \<Rightarrow> do {
         a \<leftarrow> linklist_get (tm_heap s) (g_atTimerList s) (int (unat i));
         map_option tp_ctx (rd_data (tm_heap s) a) }
     | None \<Rightarrow> Some NULL }"

section \<open>The loop\<close>

lemma find_entry_first:
  assumes "length xs < 256" and get: "\<And>i. i < length xs \<Longrightarrow> get (int i) = Some (xs ! i)"
    and cond: "\<And>x. x \<in> set xs \<Longrightarrow> cond x = Some (P x)"
    and i: "unat i \<le> length xs"
  shows "find_entry get cond (int (length xs)) i =
    Some (map_option (\<lambda>k. i + of_nat k) (first_index P (drop (unat i) xs)))"
  using i
proof (induction "length xs - unat i" arbitrary: i)
  case 0
  then show ?case by (simp add: find_entry.simps [of get])
next
  case (Suc n)
  then have lt: "unat i < length xs" by simp
  have step: "unat (i + 1) = Suc (unat i)" using lt assms(1) by (simp add: unat_word_ariths)
  have IH: "find_entry get cond (int (length xs)) (i + 1) =
    Some (map_option (\<lambda>k. i + 1 + of_nat k) (first_index P (drop (Suc (unat i)) xs)))"
    using Suc(1) [of "i + 1"] Suc(2) lt step by simp
  have "uint i < int (length xs)"
    using lt of_nat_less_iff [of "unat i" "length xs", where ?'a = int] by simp
  then show ?case
    using lt get [OF lt] cond [of "xs ! unat i"] IH
    by (subst find_entry.simps)
      (simp add: first_index_drop_step option.map_comp comp_def add.assoc)
qed

text \<open>With 256 entries or more of which none of the first 256 fits, the loop never ends.\<close>

lemma find_entry_diverges:
  assumes "256 \<le> n" and "\<And>i. i < 256 \<Longrightarrow> \<exists>a. get (int i) = Some a \<and> cond a = Some False"
  shows "find_entry get cond n i = None"
proof -
  have "get = get \<longrightarrow> cond = cond \<longrightarrow> n = n \<longrightarrow> False" if "find_entry get cond n i = Some r" for r
  proof (rule find_entry.raw_induct [where P = "\<lambda>g c m _ _. g = get \<longrightarrow> c = cond \<longrightarrow> m = n \<longrightarrow> False", OF _ that], intro impI)
    fix f g c m and j :: u8 and r
    assume IH: "\<And>g c m j r. f g c m j = Some r \<Longrightarrow> g = get \<longrightarrow> c = cond \<longrightarrow> m = n \<longrightarrow> False"
      and step: "(if int (unat j) < m then Option.bind (g (int (unat j)))
        (\<lambda>a. Option.bind (c a) (\<lambda>b. if b then Some (Some j) else f g c m (j + 1))) else Some None) = Some r"
      and eq: "g = get" "c = cond" "m = n"
    have "unat j < 256" using unat_lt_256 [of j] by simp
    then obtain a where "get (int (unat j)) = Some a" "cond a = Some False"
      using assms(2) by blast
    moreover have "uint j < n"
      using assms(1) of_nat_less_iff [of "unat j" 256, where ?'a = int] by simp
    ultimately have "f get cond n (j + 1) = Some r" using step eq by simp
    then show False using IH by blast
  qed
  then show ?thesis by (cases "find_entry get cond n i") auto
qed

section \<open>The timers in order\<close>

text \<open>The state as the list of its timers.\<close>

definition timers :: "at_timers \<Rightarrow> timer_param list \<Rightarrow> bool" where
  "timers s ts \<longleftrightarrow> finite (dom (tm_heap s)) \<and>
     (if g_atTimerList s = NULL then ts = []
      else \<exists>ds. linklist_holds (tm_heap s) (g_atTimerList s) ds \<and>
                map (rd_data (tm_heap s)) ds = map Some ts)"

lemma timers_facts:
  assumes "linklist_holds h p ds" "map (rd_data h) ds = map Some ts"
  shows "length ds = length ts" "linklist_size h p = Some (int (length ts))"
    "i < length ts \<Longrightarrow> linklist_get h p (int i) = Some (ds ! i)"
    "i < length ts \<Longrightarrow> rd_data h (ds ! i) = Some (ts ! i)"
    "NULL \<notin> set ds" "distinct ds"
proof -
  show len: "length ds = length ts" using assms(2) map_eq_imp_length_eq by blast
  show "linklist_size h p = Some (int (length ts))" using ll.size [OF assms(1)] len by simp
  show "i < length ts \<Longrightarrow> linklist_get h p (int i) = Some (ds ! i)"
    using ll.get [OF assms(1)] len by simp
  show rd: "rd_data h (ds ! i) = Some (ts ! i)" if "i < length ts" for i
    using that len assms(2) by (metis nth_map)
  show null: "NULL \<notin> set ds" using rd len by (auto simp: in_set_conv_nth)
  then show "distinct ds" using ll.once [OF assms(1)] by (metis (mono_tags, lifting) filter_True)
qed

lemma find_timer:
  assumes holds: "linklist_holds h p ds" "map (rd_data h) ds = map Some ts"
    and small: "length ts < 256"
    and cond: "\<And>a t. a \<noteq> NULL \<Longrightarrow> rd_data h a = Some t \<Longrightarrow> cond a = Some (P t)"
  shows "find_entry (linklist_get h p) cond (int (length ts)) 0 =
    Some (map_option of_nat (first_index P ts))"
proof -
  note T = timers_facts [OF holds]
  have "first_index P ts = first_index (\<lambda>a. P (the (rd_data h a))) ds"
    using first_index_map [of P "the \<circ> rd_data h" ds] arg_cong [OF holds(2), of "map the"]
    by (simp add: comp_def)
  moreover have "cond a = Some (P (the (rd_data h a)))" if "a \<in> set ds" for a
    using that cond T(1,4,5) by (fastforce simp: in_set_conv_nth)
  moreover have "\<And>i. i < length ds \<Longrightarrow> linklist_get h p (int i) = Some (ds ! i)"
    using T(1,3) by simp
  ultimately show ?thesis
    using find_entry_first [of ds "linklist_get h p" cond "\<lambda>a. P (the (rd_data h a))" 0] small T(1)
    by simp
qed

section \<open>The operations on the list of timers\<close>

lemma rd_data_upd_data: "a \<noteq> NULL \<Longrightarrow> rd_data (h(a \<mapsto> OData v)) = (rd_data h)(a \<mapsto> v)"
  by (auto simp: rd_data_def fun_eq_iff)

lemma u8_index: "i < 256 \<Longrightarrow> uint (of_nat i :: u8) = int i"
  by (simp add: unsigned_of_nat take_bit_nat_eq_self)

text \<open>Memory does not run out: \<open>malloc\<close> fails on no finite store.\<close>

definition malloc_total :: "('d heap \<Rightarrow> addr) \<Rightarrow> bool" where
  "malloc_total m \<longleftrightarrow> malloc_ok m \<and> (\<forall>h. finite (dom h) \<longrightarrow> m h \<noteq> NULL)"

text \<open>Starting, on the list of the timers: the list, the result and the calls. \<open>create\<close> is the result of
  \<open>KING_TimerCreate\<close> with the handle.\<close>

definition timers_start ::
  "timer_param list \<Rightarrow> u32 \<Rightarrow> addr \<Rightarrow> addr \<Rightarrow> int \<times> addr \<Rightarrow> timer_param list \<times> int \<times> king_call list" where
  "timers_start ts ms cb ctx create =
     (case first_index (\<lambda>t. time_out t = ms \<and> tp_func t = cb) ts of
        Some i \<Rightarrow> (ts[i := (ts ! i)\<lparr>tp_ctx := ctx\<rparr>], SUCCESS,
          [KING_TimerDeactive (tp_handle (ts ! i)), KING_TimerActive (tp_handle (ts ! i)) cb ms])
      | None \<Rightarrow>
          if fst create \<noteq> SUCCESS then (ts, fst create, [KING_TimerCreate])
          else (ts @ [\<lparr>time_out = ms, tp_func = cb, tp_ctx = ctx, tp_handle = snd create\<rparr>], SUCCESS,
            [KING_TimerCreate, KING_TimerDeactive (snd create), KING_TimerActive (snd create) cb ms]))"

lemma fresh_malloc:
  assumes "malloc_total m" "finite (dom h)"
  shows "m h \<noteq> NULL" "h (m h) = None"
  using assms unfolding malloc_total_def malloc_ok_def by metis+

lemma wr_data_values:
  assumes "distinct ds" "i < length ds" "NULL \<notin> set ds" "wr_data h (ds ! i) v = Some h'"
    "map (rd_data h) ds = map Some ts"
  shows "map (rd_data h') ds = map Some (ts[i := v])"
proof (rule nth_equalityI)
  have len: "length ds = length ts" using assms(5) map_eq_imp_length_eq by blast
  then show "length (map (rd_data h') ds) = length (map Some (ts[i := v]))" by simp
  fix j assume j: "j < length (map (rd_data h') ds)"
  have "ds ! i \<noteq> NULL" using assms(2,3) nth_mem by metis
  then have h': "h' = h(ds ! i \<mapsto> OData v)"
    using assms(4) by (auto simp: wr_data_def split: bind_splits)
  have old: "rd_data h (ds ! j) = Some (ts ! j)" using assms(5) j len by (metis length_map nth_map)
  show "map (rd_data h') ds ! j = map Some (ts[i := v]) ! j"
  proof (cases "j = i")
    case True
    then show ?thesis using j len h' \<open>ds ! i \<noteq> NULL\<close> by simp
  next
    case False
    then have "ds ! j \<noteq> ds ! i" using assms(1,2) j by (simp add: nth_eq_iff_index_eq)
    then show ?thesis using False j len h' old by auto
  qed
qed

lemma start_on_list:
  assumes m: "malloc_total m" and holds: "linklist_holds h p ds" "map (rd_data h) ds = map Some ts"
    and p: "p \<noteq> NULL" and small: "length ts < 256" and s: "g_atTimerList s = NULL \<and> create_linklist m (tm_heap s) = (p, h) \<or> g_atTimerList s = p \<and> tm_heap s = h"
  shows "\<exists>s' ts' r k. at_StartCallbackTimer m create s ms cb ctx = Some (r, s') \<and>
    timers_start ts ms cb ctx create = (ts', r, k) \<and> timers s' ts' \<and> tm_calls s' = tm_calls s @ k"
proof -
  note T = timers_facts [OF holds]
  have fin: "finite (dom h)" using ll.finite holds(1) by blast
  let ?P = "\<lambda>t. time_out t = ms \<and> tp_func t = cb"
  have find: "find_entry (linklist_get h p)
      (\<lambda>a. if a = NULL then Some False
           else map_option (\<lambda>t. time_out t = ms \<and> tp_func t = cb) (rd_data h a)) (int (length ts)) 0 =
    Some (map_option of_nat (first_index ?P ts))"
    by (rule find_timer [OF holds small]) simp
  have head: "(if g_atTimerList s = NULL then create_linklist m (tm_heap s)
      else (g_atTimerList s, tm_heap s)) = (p, h)" using s p by auto
  show ?thesis
  proof (cases "first_index ?P ts")
    case None
    let ?t = "\<lparr>time_out = ms, tp_func = cb, tp_ctx = ctx, tp_handle = snd create\<rparr>"
    let ?h = "h(m h \<mapsto> OData ?t)"
    note a = fresh_malloc [OF m fin]
    have fin': "finite (dom ?h)" using fin by simp
    have holds': "linklist_holds ?h p ds" by (rule ll.frame [OF holds(1) a(2)])
    have "m h \<notin> set ds" using T(1,4) a(2) by (fastforce simp: in_set_conv_nth)
    then have new: "new_data ?h ds (m h)" using a by (simp add: new_data_def)
    obtain h' where h': "linklist_insert m ?h p (int (length ds)) (m h) = Some (0, h')"
      "linklist_holds h' p (ds @ [m h])" "rd_data h' = rd_data ?h"
      using ll.append_then_get [of m ?h p ds "m h"] fresh_malloc(1) [OF m fin'] holds' new m
      by (auto simp: malloc_total_def)
    have eq: "map (rd_data ?h) ds = map (rd_data h) ds"
      using \<open>m h \<notin> set ds\<close> unfolding rd_data_upd_data [OF a(1)] by (intro map_cong) auto
    then have "map (rd_data h') (ds @ [m h]) = map Some (ts @ [?t])"
      using holds(2) unfolding h'(3) by (simp add: rd_data_upd_data [OF a(1)])
    then show ?thesis
      using find head p T(1,2) a h' None ll.finite [OF h'(2)] fin holds' eq holds(2)
      by (cases "fst create = SUCCESS") (auto simp: at_StartCallbackTimer_def timers_start_def timers_def Let_def)
  next
    case (Some i)
    then have i: "i < length ts" "i < 256" using first_index_Some small by fastforce+
    have ne: "ds ! i \<noteq> NULL" using T(1,5) i(1) nth_mem by metis
    obtain v where v: "h (ds ! i) = Some (OData v)" "v = ts ! i"
      using T(4) [OF i(1)] ne by auto
    let ?t = "(ts ! i)\<lparr>tp_ctx := ctx\<rparr>"
    let ?h = "h(ds ! i \<mapsto> OData ?t)"
    have w: "wr_data h (ds ! i) ?t = Some ?h" using v ne by simp
    have "map (rd_data ?h) ds = map Some (ts[i := ?t])"
      using wr_data_values [OF T(6) _ T(5) w holds(2)] i T(1) by simp
    moreover have "uint (of_nat i :: u8) = int i" by (rule u8_index [OF i(2)])
    ultimately show ?thesis
      using find head p T(2) T(3,4) [OF i(1)] Some w ll.update [OF holds(1) w] fin
      by (auto simp: at_StartCallbackTimer_def timers_start_def timers_def)
  qed
qed

lemma create_linklist_holds:
  assumes "malloc_total m" "finite (dom h)"
  shows "\<exists>h'. create_linklist m h = (m h, h') \<and> linklist_holds h' (m h) []"
  using fresh_malloc [OF assms] assms(2)
  by (auto simp: create_linklist_def Let_def linklist_holds_def linklist_rep_def)

text \<open>Starting: an entry for the same callback and duration is restarted with the new context;
  otherwise a new timer is appended.\<close>

lemma start_timer:
  assumes "malloc_total m" "timers s ts" "length ts < 256"
  shows "\<exists>s' ts' r k. at_StartCallbackTimer m create s ms cb ctx = Some (r, s') \<and>
    timers_start ts ms cb ctx create = (ts', r, k) \<and> timers s' ts' \<and> tm_calls s' = tm_calls s @ k"
proof (cases "g_atTimerList s = NULL")
  case True
  then have "finite (dom (tm_heap s))" "ts = []" using assms(2) by (simp_all add: timers_def)
  moreover from this obtain h where "create_linklist m (tm_heap s) = (m (tm_heap s), h)"
    "linklist_holds h (m (tm_heap s)) []"
    using create_linklist_holds [OF assms(1)] by blast
  ultimately show ?thesis
    using start_on_list [OF assms(1), of h "m (tm_heap s)" "[]" "[]" s] True
      fresh_malloc(1) [OF assms(1)] by simp
next
  case False
  then obtain ds where holds: "linklist_holds (tm_heap s) (g_atTimerList s) ds"
    "map (rd_data (tm_heap s)) ds = map Some ts" using assms(2) by (auto simp: timers_def)
  show ?thesis by (rule start_on_list [OF assms(1) holds False assms(3)]) simp
qed

definition timers_stop :: "timer_param list \<Rightarrow> addr \<Rightarrow> timer_param list" where
  "timers_stop ts cb =
     (case first_index (\<lambda>t. tp_func t = cb) ts of
        Some i \<Rightarrow> take i ts @ drop (Suc i) ts | None \<Rightarrow> ts)"

definition stop_calls :: "timer_param list \<Rightarrow> addr \<Rightarrow> king_call list" where
  "stop_calls ts cb =
     (case first_index (\<lambda>t. tp_func t = cb) ts of
        Some i \<Rightarrow> [KING_TimerDeactive (tp_handle (ts ! i)), KING_TimerDelete (tp_handle (ts ! i))]
      | None \<Rightarrow> [])"

lemma no_timers: "timers s ts \<Longrightarrow> g_atTimerList s = NULL \<Longrightarrow>
    ts = [] \<and> linklist_size (tm_heap s) (g_atTimerList s) = Some 0"
  by (simp add: timers_def linklist_size_def)

lemma find_none: "find_entry g c 0 0 = Some None"
  by (simp add: find_entry.simps)

text \<open>Stopping: the first entry of the callback goes, whatever its duration and context.\<close>

lemma stop_timer:
  assumes ts: "timers s ts" and small: "length ts < 256"
  shows "\<exists>s'. at_StopCallbackTimer s cb ctx = Some s' \<and> timers s' (timers_stop ts cb) \<and>
    tm_calls s' = tm_calls s @ stop_calls ts cb"
proof (cases "g_atTimerList s = NULL")
  case True
  then show ?thesis using no_timers [OF ts] ts
    by (simp add: at_StopCallbackTimer_def find_none timers_stop_def stop_calls_def)
next
  case False
  then obtain ds where holds: "linklist_holds (tm_heap s) (g_atTimerList s) ds"
    "map (rd_data (tm_heap s)) ds = map Some ts" using ts by (auto simp: timers_def)
  let ?h = "tm_heap s" and ?p = "g_atTimerList s" and ?P = "\<lambda>t. tp_func t = cb"
  note T = timers_facts [OF holds]
  have find: "find_entry (linklist_get ?h ?p)
      (\<lambda>a. if a = NULL then Some False else map_option (\<lambda>t. tp_func t = cb) (rd_data ?h a))
      (int (length ts)) 0 = Some (map_option of_nat (first_index ?P ts))"
    by (rule find_timer [OF holds small]) simp
  show ?thesis
  proof (cases "first_index ?P ts")
    case None
    then show ?thesis using find T(2) ts
      by (simp add: at_StopCallbackTimer_def timers_stop_def stop_calls_def)
  next
    case (Some i)
    then have i: "i < length ts" "i < 256" using first_index_Some small by fastforce+
    obtain h' where h': "linklist_delete ?h ?p (int i) = Some (0, h')"
      "linklist_holds h' ?p (take i ds @ drop (Suc i) ds)"
      "rd_data h' = (rd_data ?h)(ds ! i := None)"
      using ll.del [OF holds(1), of i] i T(1) by auto
    have eq: "map (rd_data h') (take i ds @ drop (Suc i) ds) = map (rd_data ?h) (take i ds @ drop (Suc i) ds)"
    proof -
      have "ds ! i \<notin> set (take i ds @ drop (Suc i) ds)"
        using T(6) i T(1) id_take_nth_drop [of i ds] by (metis distinct_append distinct.simps(2) Un_iff disjoint_iff list.set_intros(1) set_append)
      then show ?thesis unfolding h'(3) by auto
    qed
    have "map (rd_data h') (take i ds @ drop (Suc i) ds) = map Some (take i ts @ drop (Suc i) ts)"
      unfolding eq using holds(2) by (simp flip: take_map drop_map)
    moreover have "uint (of_nat i :: u8) = int i" by (rule u8_index [OF i(2)])
    ultimately show ?thesis
      using find False T(2) T(3,4) [OF i(1)] Some h' ll.finite [OF h'(2)]
      by (auto simp: at_StopCallbackTimer_def timers_stop_def stop_calls_def timers_def)
  qed
qed

definition ctx_of :: "timer_param list \<Rightarrow> addr \<Rightarrow> addr" where
  "ctx_of ts hnd = (case first_index (\<lambda>t. hnd = tp_handle t) ts of
     Some i \<Rightarrow> tp_ctx (ts ! i) | None \<Rightarrow> NULL)"

lemma timer_ctx:
  assumes ts: "timers s ts" and small: "length ts < 256"
  shows "at_GetTimerCtx s hnd = Some (ctx_of ts hnd)"
proof (cases "g_atTimerList s = NULL")
  case True
  then show ?thesis using no_timers [OF ts] by (simp add: at_GetTimerCtx_def find_none ctx_of_def)
next
  case False
  then obtain ds where holds: "linklist_holds (tm_heap s) (g_atTimerList s) ds"
    "map (rd_data (tm_heap s)) ds = map Some ts" using ts by (auto simp: timers_def)
  note T = timers_facts [OF holds]
  have find: "find_entry (linklist_get (tm_heap s) (g_atTimerList s))
      (\<lambda>a. map_option (\<lambda>t. hnd = tp_handle t) (rd_data (tm_heap s) a)) (int (length ts)) 0 =
    Some (map_option of_nat (first_index (\<lambda>t. hnd = tp_handle t) ts))"
    by (rule find_timer [OF holds small]) simp
  show ?thesis
  proof (cases "first_index (\<lambda>t. hnd = tp_handle t) ts")
    case None
    then show ?thesis using find T(2) by (simp add: at_GetTimerCtx_def ctx_of_def)
  next
    case (Some i)
    then have i: "i < length ts" "i < 256" using first_index_Some small by fastforce+
    have "uint (of_nat i :: u8) = int i" by (rule u8_index [OF i(2)])
    then show ?thesis using find T(2) T(3,4) [OF i(1)] Some by (auto simp: at_GetTimerCtx_def ctx_of_def)
  qed
qed

section \<open>Sequences of calls\<close>

text \<open>A start comes with what \<open>KING_TimerCreate\<close> would give; the results of the starts are those of the calls.\<close>

datatype timer_op = StartTimer u32 addr addr "int \<times> addr" | StopTimer addr addr

fun timers_do :: "(timer_param heap \<Rightarrow> addr) \<Rightarrow> at_timers \<Rightarrow> timer_op list \<Rightarrow> (int list \<times> at_timers) option" where
  "timers_do m s [] = Some ([], s)"
| "timers_do m s (StartTimer ms cb ctx create # ops) = do {
     (r, s) \<leftarrow> at_StartCallbackTimer m create s ms cb ctx;
     (rs, s) \<leftarrow> timers_do m s ops;
     Some (r # rs, s) }"
| "timers_do m s (StopTimer cb ctx # ops) = do {
     s \<leftarrow> at_StopCallbackTimer s cb ctx;
     timers_do m s ops }"

fun spec_do :: "timer_param list \<Rightarrow> timer_op list \<Rightarrow> timer_param list \<times> int list \<times> king_call list" where
  "spec_do ts [] = (ts, [], [])"
| "spec_do ts (StartTimer ms cb ctx create # ops) =
     (case timers_start ts ms cb ctx create of (ts, r, k) \<Rightarrow>
        case spec_do ts ops of (ts, rs, ks) \<Rightarrow> (ts, r # rs, k @ ks))"
| "spec_do ts (StopTimer cb ctx # ops) =
     (case spec_do (timers_stop ts cb) ops of (ts', rs, ks) \<Rightarrow> (ts', rs, stop_calls ts cb @ ks))"

text \<open>The most timers there are at a time.\<close>

fun peak :: "timer_param list \<Rightarrow> timer_op list \<Rightarrow> nat" where
  "peak ts [] = length ts"
| "peak ts (op # ops) = max (length ts) (peak (fst (spec_do ts [op])) ops)"

text \<open>C35: from any state of the timers, a sequence of starts and stops during which there are never more than 255
  timers, with memory for the entries, whatever \<open>KING_TimerCreate\<close> returns, is carried out without an invalid access; the
  results of the starts and the calls to the platform, creations included, are exactly those that the list of entries
  explains (restart the entry of the same callback and duration, else create one, which is kept only when the platform
  created it; stop and delete the first entry of a callback), and afterwards every platform timer finds the context of its
  entry.\<close>

theorem timers_refine:
  assumes "malloc_total m" and "timers s ts" and "peak ts ops < 256"
  shows "\<exists>s'. timers_do m s ops = Some (fst (snd (spec_do ts ops)), s') \<and> timers s' (fst (spec_do ts ops)) \<and>
    tm_calls s' = tm_calls s @ snd (snd (spec_do ts ops)) \<and>
    at_GetTimerCtx s' hnd = Some (ctx_of (fst (spec_do ts ops)) hnd)"
  using assms(2,3)
proof (induction ops arbitrary: s ts)
  case Nil
  then show ?case using timer_ctx [of s ts hnd] by simp
next
  case (Cons op ops)
  then have small: "length ts < 256" by simp
  show ?case
  proof (cases op)
    case (StartTimer ms cb ctx create)
    obtain s' ts' r k where s': "at_StartCallbackTimer m create s ms cb ctx = Some (r, s')"
      "timers_start ts ms cb ctx create = (ts', r, k)" "timers s' ts'" "tm_calls s' = tm_calls s @ k"
      using start_timer [OF assms(1) Cons.prems(1) small] by blast
    then show ?thesis
      using Cons.IH [OF s'(3)] Cons.prems(2) StartTimer by (auto split: prod.splits)
  next
    case (StopTimer cb ctx)
    obtain s' where s': "at_StopCallbackTimer s cb ctx = Some s'" "timers s' (timers_stop ts cb)"
      "tm_calls s' = tm_calls s @ stop_calls ts cb"
      using stop_timer [OF Cons.prems(1) small] by blast
    then show ?thesis
      using Cons.IH [OF s'(2)] Cons.prems(2) StopTimer by (auto split: prod.splits)
  qed
qed

text \<open>An allocator for witnesses: the address after the last one in use.\<close>

definition bump :: "'d heap \<Rightarrow> addr" where
  "bump h = (if finite (dom h) then Suc (Max (insert 0 (dom h))) else NULL)"

lemma bump_total: "malloc_total (bump :: 'd heap \<Rightarrow> addr)"
proof -
  have "h (bump h) = None" if "finite (dom h)" for h :: "'d heap"
  proof (rule ccontr)
    assume "h (bump h) \<noteq> None"
    then have "bump h \<in> insert 0 (dom h)" by (simp add: dom_def)
    then have "bump h \<le> Max (insert 0 (dom h))" by (rule Max_ge [rotated]) (use that in simp)
    then show False using that by (simp add: bump_def)
  qed
  moreover have "bump h = NULL" if "infinite (dom h)" for h :: "'d heap"
    using that by (simp add: bump_def)
  ultimately have "bump h = NULL \<or> h (bump h) = None" for h :: "'d heap"
    by (cases "finite (dom h)") simp_all
  then have "malloc_ok (bump :: 'd heap \<Rightarrow> addr)" by (simp add: malloc_ok_def)
  then show ?thesis by (simp add: malloc_total_def bump_def)
qed

lemma timers_empty: "timers \<lparr>tm_heap = Map.empty, g_atTimerList = NULL, tm_calls = cs\<rparr> []"
  by (simp add: timers_def)

theorem timers_refine_witness:
  "\<exists>s'. timers_do bump \<lparr>tm_heap = Map.empty, g_atTimerList = NULL, tm_calls = []\<rparr>
     [StartTimer 500 1 10 (SUCCESS, 100), StartTimer 20 1 11 (SUCCESS, 101), StartTimer 30 1 12 (FAIL, 0), StopTimer 1 11] =
       Some ([SUCCESS, SUCCESS, FAIL], s') \<and>
     timers s' [\<lparr>time_out = 20, tp_func = 1, tp_ctx = 11, tp_handle = 101\<rparr>] \<and>
     tm_calls s' = [KING_TimerCreate, KING_TimerDeactive 100, KING_TimerActive 100 1 500, KING_TimerCreate, KING_TimerDeactive 101,
       KING_TimerActive 101 1 20, KING_TimerCreate, KING_TimerDeactive 100, KING_TimerDelete 100]"
proof -
  let ?ops = "[StartTimer 500 1 10 (SUCCESS, 100), StartTimer 20 1 11 (SUCCESS, 101), StartTimer 30 1 12 (FAIL, 0), StopTimer 1 11]"
  have spec: "spec_do [] ?ops = ([\<lparr>time_out = 20, tp_func = 1, tp_ctx = 11, tp_handle = 101\<rparr>], [SUCCESS, SUCCESS, FAIL],
      [KING_TimerCreate, KING_TimerDeactive 100, KING_TimerActive 100 1 500, KING_TimerCreate, KING_TimerDeactive 101,
       KING_TimerActive 101 1 20, KING_TimerCreate, KING_TimerDeactive 100, KING_TimerDelete 100])"
    by (simp add: timers_start_def timers_stop_def stop_calls_def SUCCESS_def FAIL_def)
  have "peak [] ?ops < 256"
    by (simp add: timers_start_def timers_stop_def SUCCESS_def FAIL_def)
  from timers_refine [OF bump_total timers_empty [of "[]"] this, unfolded spec]
  show ?thesis unfolding fst_conv snd_conv append_Nil at_timers.simps by blast
qed

text \<open>Two channels that start the same callback with the same duration share one timer: the
  second start cancels the timer of the first and replaces its context, so that the callback
  never runs for the first channel. The escape sequence of a second channel hides that of the
  first in this way.\<close>

theorem shared_timer_loses_context:
  assumes "malloc_total m" "timers s ts" "length ts < 254"
    and "first_index (\<lambda>t. time_out t = ms \<and> tp_func t = cb) ts = None"
    and "first_index (\<lambda>t. hnd = tp_handle t) ts = None"
  shows "\<exists>s'. timers_do m s [StartTimer ms cb ctx1 (SUCCESS, hnd), StartTimer ms cb ctx2 create] = Some ([SUCCESS, SUCCESS], s') \<and>
    at_GetTimerCtx s' hnd = Some ctx2 \<and>
    tm_calls s' = tm_calls s @ [KING_TimerCreate, KING_TimerDeactive hnd, KING_TimerActive hnd cb ms,
      KING_TimerDeactive hnd, KING_TimerActive hnd cb ms]"
proof -
  let ?t1 = "\<lparr>time_out = ms, tp_func = cb, tp_ctx = ctx1, tp_handle = hnd\<rparr>"
  let ?t2 = "\<lparr>time_out = ms, tp_func = cb, tp_ctx = ctx2, tp_handle = hnd\<rparr>"
  have start1: "timers_start ts ms cb ctx1 (SUCCESS, hnd) =
      (ts @ [?t1], SUCCESS, [KING_TimerCreate, KING_TimerDeactive hnd, KING_TimerActive hnd cb ms])"
    using assms(4) by (simp add: timers_start_def)
  have start2: "timers_start (ts @ [?t1]) ms cb ctx2 create = (ts @ [?t2], SUCCESS, [KING_TimerDeactive hnd, KING_TimerActive hnd cb ms])"
    using assms(4) by (simp add: timers_start_def first_index_append)
  obtain s1 where s1: "at_StartCallbackTimer m (SUCCESS, hnd) s ms cb ctx1 = Some (SUCCESS, s1)" "timers s1 (ts @ [?t1])"
    "tm_calls s1 = tm_calls s @ [KING_TimerCreate, KING_TimerDeactive hnd, KING_TimerActive hnd cb ms]"
    using start_timer [OF assms(1,2), of "(SUCCESS, hnd)" ms cb ctx1] assms(3) start1 by auto
  obtain s2 where s2: "at_StartCallbackTimer m create s1 ms cb ctx2 = Some (SUCCESS, s2)" "timers s2 (ts @ [?t2])"
    "tm_calls s2 = tm_calls s1 @ [KING_TimerDeactive hnd, KING_TimerActive hnd cb ms]"
    using start_timer [OF assms(1) s1(2), of create ms cb ctx2] assms(3) start2 by auto
  have "at_GetTimerCtx s2 hnd = Some ctx2"
    using timer_ctx [OF s2(2), of hnd] assms(3,5) by (simp add: ctx_of_def first_index_append)
  then show ?thesis using s1 s2 by simp
qed

theorem shared_timer_loses_context_witness:
  "\<exists>s'. timers_do bump \<lparr>tm_heap = Map.empty, g_atTimerList = NULL, tm_calls = []\<rparr>
     [StartTimer 500 1 10 (SUCCESS, 100), StartTimer 500 1 11 (FAIL, 0)] = Some ([SUCCESS, SUCCESS], s') \<and> at_GetTimerCtx s' 100 = Some 11"
  using shared_timer_loses_context [OF bump_total timers_empty, of 500 1 100 "[]" 10 11 "(FAIL, 0)"] by auto

text \<open>There is a state for every list of timers.\<close>

lemma timers_exist: "\<exists>s. timers s ts"
proof -
  have "\<exists>h p ds. p \<noteq> NULL \<and> linklist_holds h p ds \<and> map (rd_data h) ds = map Some ts"
  proof (induction ts rule: rev_induct)
    case Nil
    have "finite (dom (Map.empty :: timer_param heap))" by simp
    from create_linklist_holds [OF bump_total this] show ?case
      using ll.size by (auto simp: linklist_holds_def linklist_rep_def)
  next
    case (snoc t ts)
    then obtain h p ds where IH: "p \<noteq> NULL" "linklist_holds h p ds" "map (rd_data h) ds = map Some ts"
      by blast
    note T = timers_facts [OF IH(2,3)]
    let ?h = "h(bump h \<mapsto> OData t)"
    have fin: "finite (dom h)" using ll.finite [OF IH(2)] .
    note a = fresh_malloc [OF bump_total fin]
    have holds: "linklist_holds ?h p ds" by (rule ll.frame [OF IH(2) a(2)])
    have notin: "bump h \<notin> set ds" using T(1,4) a(2) by (fastforce simp: in_set_conv_nth)
    then have new: "new_data ?h ds (bump h)" using a by (simp add: new_data_def)
    have "finite (dom ?h)" using fin by simp
    then obtain h' where h': "linklist_holds h' p (ds @ [bump h])" "rd_data h' = rd_data ?h"
      using ll.append_then_get [of bump ?h p ds "bump h"] fresh_malloc(1) [OF bump_total] holds new bump_total
      unfolding malloc_total_def by blast
    have "map (rd_data h') ds = map (rd_data h) ds"
      using notin unfolding h'(2) rd_data_upd_data [OF a(1)] by (intro map_cong) auto
    then have "map (rd_data h') (ds @ [bump h]) = map Some (ts @ [t])"
      using IH(3) unfolding h'(2) rd_data_upd_data [OF a(1)] by simp
    then show ?case using IH(1) h'(1) by blast
  qed
  then obtain h p ds where "p \<noteq> NULL" "linklist_holds h p ds" "map (rd_data h) ds = map Some ts"
    by blast
  then have "timers \<lparr>tm_heap = h, g_atTimerList = p, tm_calls = []\<rparr> ts"
    using ll.finite by (auto simp: timers_def)
  then show ?thesis by blast
qed

text \<open>With 256 entries or more the eight-bit counter of the loops never reaches the size:
  looking a handle up that is not among the first 256 entries does not return.\<close>

theorem timers_256_hang:
  assumes "timers s ts" "256 \<le> length ts" "hnd \<notin> tp_handle ` set (take 256 ts)"
  shows "at_GetTimerCtx s hnd = None"
proof -
  have "g_atTimerList s \<noteq> NULL"
  proof
    assume "g_atTimerList s = NULL"
    then have "ts = []" using no_timers [OF assms(1)] by blast
    then show False using assms(2) by simp
  qed
  then obtain ds where holds: "linklist_holds (tm_heap s) (g_atTimerList s) ds"
    "map (rd_data (tm_heap s)) ds = map Some ts" using assms(1) by (auto simp: timers_def)
  note T = timers_facts [OF holds]
  have "\<exists>a. linklist_get (tm_heap s) (g_atTimerList s) (int i) = Some a \<and>
    map_option (\<lambda>t. hnd = tp_handle t) (rd_data (tm_heap s) a) = Some False" if "i < 256" for i
  proof -
    have i: "i < length ts" using that assms(2) by simp
    have "ts ! i \<in> set (take 256 ts)" using that i by (auto simp: in_set_conv_nth)
    then have "hnd \<noteq> tp_handle (ts ! i)" using assms(3) by blast
    then show ?thesis using T(3,4) [OF i] by simp
  qed
  then have "find_entry (linklist_get (tm_heap s) (g_atTimerList s))
      (\<lambda>a. map_option (\<lambda>t. hnd = tp_handle t) (rd_data (tm_heap s) a)) (int (length ts)) 0 = None"
    using assms(2) by (intro find_entry_diverges) simp_all
  then show ?thesis using T(2) by (simp add: at_GetTimerCtx_def)
qed

theorem timers_256_hang_witness:
  "\<exists>s. timers s (replicate 256 \<lparr>time_out = 1, tp_func = 1, tp_ctx = 1, tp_handle = 1\<rparr>) \<and>
    at_GetTimerCtx s 2 = None"
proof -
  let ?ts = "replicate 256 \<lparr>time_out = 1, tp_func = 1, tp_ctx = 1, tp_handle = 1\<rparr> :: timer_param list"
  obtain s where "timers s ?ts" using timers_exist by blast
  then show ?thesis using timers_256_hang [of s ?ts 2] by auto
qed

end
