(* ===== verification/Rs485.thy ===== *)
theory Rs485
  imports Prelude
begin

text \<open>
  The RS-485 line of the intercom application (App/uart.c and the loop of rs485_handle in
  App/app.c): what the serial port has received is stored in a buffer, where it starts and ends
  is entered in a circular queue of pointer pairs, and the next pair of the queue is taken and
  its bytes are written back to the line.

  Pointers into the receive buffer are indices, the end pointer of an empty read being one
  below the start. What one call of KING_UartRead stores is an argument; the documented bound
  on its length is a hypothesis. Bytes written to the line are recorded call by call.
\<close>

definition RS485_RX_SIZE :: nat where "RS485_RX_SIZE = 2048"
definition RS485_RX_MAX :: nat where "RS485_RX_MAX = 256"
definition URxNUM :: nat where "URxNUM = 100"

lemmas rs485_sizes [simp] = RS485_RX_SIZE_def RS485_RX_MAX_def URxNUM_def

record UCB_URxBuffPtr =
  rx_start :: int
  rx_end :: int

record UCB_CB =
  RS485_RxBuff :: bytes
  URxCounter :: u16
  URxDataPtr :: "UCB_URxBuffPtr list"
  URxDataIN :: nat
  URxDataOUT :: nat
  URxDataEND :: nat
  uart_written :: "bytes list"

definition rs485_ptr_init :: "UCB_CB \<Rightarrow> UCB_CB option" where
  "rs485_ptr_init s = do {
     ptr \<leftarrow> wr (URxDataPtr s) 0 \<lparr>rx_start = 0, rx_end = 0\<rparr>;
     Some (s\<lparr>URxDataPtr := ptr, URxDataIN := 0, URxDataOUT := 0, URxDataEND := URxNUM - 1,
             URxCounter := 0\<rparr>) }"

definition rs_485_data_resive :: "bytes \<Rightarrow> UCB_CB \<Rightarrow> UCB_CB option" where
  "rs_485_data_resive d s = do {
     p \<leftarrow> rd (URxDataPtr s) (URxDataIN s);
     buff \<leftarrow> (if rx_start p < 0 then None else wr_block (RS485_RxBuff s) (nat (rx_start p)) d);
     let counter = URxCounter s + of_nat (length d);
     ptr \<leftarrow> wr (URxDataPtr s) (URxDataIN s) (p\<lparr>rx_end := uint counter - 1\<rparr>);
     let i = (if URxDataIN s + 1 = URxDataEND s then 0 else URxDataIN s + 1);
     q \<leftarrow> rd ptr i;
     if int RS485_RX_SIZE - uint counter \<ge> int RS485_RX_MAX then do {
       ptr \<leftarrow> wr ptr i \<lparr>rx_start = uint counter, rx_end = uint counter\<rparr>;
       Some (s\<lparr>RS485_RxBuff := buff, URxCounter := counter, URxDataPtr := ptr, URxDataIN := i\<rparr>) }
     else do {
       ptr \<leftarrow> wr ptr i (q\<lparr>rx_start := 0\<rparr>);
       Some (s\<lparr>RS485_RxBuff := buff, URxCounter := 0, URxDataPtr := ptr, URxDataIN := i\<rparr>) } }"

definition rs485_event_handle :: "int \<Rightarrow> u16 \<Rightarrow> UCB_CB \<Rightarrow> UCB_CB option" where
  "rs485_event_handle data datalen s =
     (if datalen \<noteq> 0 then
        if data < 0 then None
        else do {
          d \<leftarrow> rd_block (RS485_RxBuff s) (nat data) (unat datalen);
          Some (s\<lparr>uart_written := uart_written s @ [d]\<rparr>) }
      else Some s)"

definition rs485_input_detection :: "UCB_CB \<Rightarrow> UCB_CB option" where
  "rs485_input_detection s =
     (if URxDataOUT s \<noteq> URxDataIN s then do {
        p \<leftarrow> rd (URxDataPtr s) (URxDataOUT s);
        s \<leftarrow> rs485_event_handle (rx_start p) (of_int (rx_end p - rx_start p + 1)) s;
        let i = URxDataOUT s + 1;
        Some (s\<lparr>URxDataOUT := (if i = URxDataEND s then 0 else i)\<rparr>) }
      else Some s)"

text \<open>One pass of the loop of \<open>rs485_handle\<close>: on success of the event the data are received and
  one entry is handled, on a timeout nothing happens.\<close>

fun rs485_handle :: "bytes option list \<Rightarrow> UCB_CB \<Rightarrow> UCB_CB option" where
  "rs485_handle [] s = Some s"
| "rs485_handle (None # es) s = rs485_handle es s"
| "rs485_handle (Some d # es) s = do {
     s \<leftarrow> rs_485_data_resive d s;
     s \<leftarrow> rs485_input_detection s;
     rs485_handle es s }"

section \<open>The invariant between two passes\<close>

definition rs485_ok :: "UCB_CB \<Rightarrow> bool" where
  "rs485_ok s \<longleftrightarrow>
     length (RS485_RxBuff s) = RS485_RX_SIZE \<and> length (URxDataPtr s) = URxNUM \<and>
     URxDataEND s = URxNUM - 1 \<and> URxDataIN s < URxDataEND s \<and> URxDataOUT s = URxDataIN s \<and>
     rx_start (URxDataPtr s ! URxDataIN s) = uint (URxCounter s) \<and>
     unat (URxCounter s) + RS485_RX_MAX \<le> RS485_RX_SIZE"

lemma rs485_ptr_init_ok:
  assumes "length (RS485_RxBuff s) = RS485_RX_SIZE" "length (URxDataPtr s) = URxNUM"
  shows "\<exists>s'. rs485_ptr_init s = Some s' \<and> rs485_ok s' \<and> uart_written s' = uart_written s"
  using assms by (simp add: rs485_ptr_init_def rs485_ok_def wr_def)

lemma uint_add_of_nat:
  fixes c :: u16
  assumes "unat c + n < 2 ^ 16"
  shows "uint (c + of_nat n) = uint c + int n"
proof -
  have "int (unat (c + of_nat n)) = int (unat c + n)"
    using assms by (simp add: unat_word_ariths unsigned_of_nat take_bit_nat_eq_self del: of_nat_unat)
  then show ?thesis by simp
qed

text \<open>Receiving stores the data, enters the pair and moves on, wrapping where no full read fits.\<close>

lemma rs_485_data_resive_ok:
  assumes ok: "rs485_ok s" and d: "length d \<le> RS485_RX_MAX"
  defines "c \<equiv> unat (URxCounter s)" and "i \<equiv> (if URxDataIN s + 1 = 99 then 0 else URxDataIN s + 1)"
  shows "\<exists>s'. rs_485_data_resive d s = Some s' \<and> rs485_ok (s'\<lparr>URxDataOUT := i\<rparr>) \<and>
    URxDataOUT s' = URxDataIN s \<and> URxDataIN s' = i \<and> URxDataEND s' = 99 \<and> uart_written s' = uart_written s \<and>
    rd (URxDataPtr s') (URxDataIN s) = Some \<lparr>rx_start = int c, rx_end = int c + int (length d) - 1\<rparr> \<and>
    rd_block (RS485_RxBuff s') c (length d) = Some d"
proof -
  note ok' = ok [unfolded rs485_ok_def rs485_sizes]
  have sum: "uint (URxCounter s + of_nat (length d)) = int (c + length d)"
    using uint_add_of_nat [of "URxCounter s" "length d"] ok' d by (simp add: c_def)
  have usum: "unat (URxCounter s + of_nat (length d)) = c + length d"
    using arg_cong [OF sum, of nat] by simp
  let ?p = "URxDataPtr s ! URxDataIN s"
  have p: "?p\<lparr>rx_end := int (c + length d) - 1\<rparr> = \<lparr>rx_start = int c, rx_end = int c + int (length d) - 1\<rparr>"
    using ok' by (cases ?p) (simp add: c_def)
  have bounds: "URxDataIN s < 100" "i < 100" "i \<noteq> URxDataIN s" "i < 99" "c + length d \<le> 2048"
    using ok' d by (auto simp: i_def c_def)
  have iv: "URxDataIN s = 98 \<Longrightarrow> i = 0" "URxDataIN s \<noteq> 98 \<Longrightarrow> i = Suc (URxDataIN s)"
    by (simp_all add: i_def)
  let ?b = "take c (RS485_RxBuff s) @ d @ drop (c + length d) (RS485_RxBuff s)"
  have b: "wr_block (RS485_RxBuff s) (nat (rx_start ?p)) d = Some ?b" "\<not> rx_start ?p < 0"
    using ok' bounds by (simp_all add: wr_block_def c_def)
  have rdb: "rd_block ?b c (length d) = Some d" "length ?b = 2048"
    using ok' bounds by (simp_all add: rd_block_def c_def)
  show ?thesis
  proof (cases "c + length d + 256 \<le> 2048")
    case True
    then show ?thesis using ok' b bounds rdb sum usum p iv unfolding rs_485_data_resive_def
      by (auto simp: rd_def wr_def Let_def rs485_ok_def)
  next
    case False
    then show ?thesis using ok' b bounds rdb sum usum p iv unfolding rs_485_data_resive_def
      by (auto simp: rd_def wr_def Let_def rs485_ok_def)
  qed
qed

text \<open>Handling the entry writes exactly what was received.\<close>

lemma rs485_input_detection_ok:
  assumes "URxDataOUT s \<noteq> URxDataIN s"
    and "rd (URxDataPtr s) (URxDataOUT s) = Some \<lparr>rx_start = int c, rx_end = int c + int n - 1\<rparr>"
    and "rd_block (RS485_RxBuff s) c n = Some d" and "n < 2 ^ 16"
  shows "rs485_input_detection s = Some (s\<lparr>uart_written := uart_written s @ (if n = 0 then [] else [d]),
    URxDataOUT := (if URxDataOUT s + 1 = URxDataEND s then 0 else URxDataOUT s + 1)\<rparr>)"
proof -
  have u: "unat (of_nat n :: u16) = n"
    using assms(4) by (simp add: unsigned_of_nat take_bit_nat_eq_self)
  then have "(of_nat n :: u16) = 0 \<longleftrightarrow> n = 0" by (metis unat_eq_zero)
  note this u
  then show ?thesis using assms
    by (simp add: rs485_input_detection_def rs485_event_handle_def Let_def)
qed

lemma rs485_pass:
  assumes ok: "rs485_ok s" and d: "length d \<le> RS485_RX_MAX"
  shows "\<exists>s'. rs485_handle [Some d] s = Some s' \<and> rs485_ok s' \<and>
    uart_written s' = uart_written s @ (if d = [] then [] else [d])"
proof -
  let ?i = "if URxDataIN s + 1 = 99 then 0 else URxDataIN s + 1"
  obtain s1 where s1: "rs_485_data_resive d s = Some s1" "rs485_ok (s1\<lparr>URxDataOUT := ?i\<rparr>)"
    "URxDataOUT s1 = URxDataIN s" "URxDataIN s1 = ?i" "URxDataEND s1 = 99" "uart_written s1 = uart_written s"
    "rd (URxDataPtr s1) (URxDataIN s) =
       Some \<lparr>rx_start = int (unat (URxCounter s)), rx_end = int (unat (URxCounter s)) + int (length d) - 1\<rparr>"
    "rd_block (RS485_RxBuff s1) (unat (URxCounter s)) (length d) = Some d"
    using rs_485_data_resive_ok [OF ok d] by blast
  have "URxDataOUT s1 \<noteq> URxDataIN s1" unfolding s1(3,4) by simp
  have rd: "rd (URxDataPtr s1) (URxDataOUT s1) =
      Some \<lparr>rx_start = int (unat (URxCounter s)), rx_end = int (unat (URxCounter s)) + int (length d) - 1\<rparr>"
    unfolding s1(3) by (rule s1(7))
  have "length d < 2 ^ 16" using d by simp
  from rs485_input_detection_ok [OF \<open>URxDataOUT s1 \<noteq> URxDataIN s1\<close> rd s1(8) this] s1(3,5)
  have "rs485_input_detection s1 = Some (s1\<lparr>uart_written := uart_written s1 @ (if d = [] then [] else [d]), URxDataOUT := ?i\<rparr>)"
    by simp
  moreover have "rs485_ok (s1\<lparr>uart_written := w, URxDataOUT := ?i\<rparr>)" for w
    using s1(2) by (simp add: rs485_ok_def)
  ultimately show ?thesis using s1(1,6) by simp
qed

lemma rs485_handle_append:
  "rs485_handle (es @ fs) s = Option.bind (rs485_handle es s) (rs485_handle fs)"
  by (induction es s rule: rs485_handle.induct) (auto simp: Let_def split: bind_splits)

text \<open>The bytes of the reads that succeeded.\<close>

definition received :: "bytes option list \<Rightarrow> bytes list" where
  "received es = [d. Some d \<leftarrow> es, d \<noteq> []]"

text \<open>C25: after the initialisation the application echoes: whatever the sequence of reads and
  timeouts, with reads of at most 256 bytes, no access leaves the receive buffer or the queue of
  pointer pairs, and the bytes written to the line are those of the reads, read by read, in
  order, an empty read writing nothing. The buffer and the queue wrap any number of times.\<close>

theorem rs485_echo:
  assumes "length (RS485_RxBuff s) = RS485_RX_SIZE" "length (URxDataPtr s) = URxNUM"
    and "\<forall>d. Some d \<in> set es \<longrightarrow> length d \<le> RS485_RX_MAX"
  shows "\<exists>s'. Option.bind (rs485_ptr_init s) (rs485_handle es) = Some s' \<and> rs485_ok s' \<and>
    uart_written s' = uart_written s @ received es"
proof -
  have "\<exists>s'. rs485_handle es s = Some s' \<and> rs485_ok s' \<and> uart_written s' = uart_written s @ received es"
    if "rs485_ok s" for s
    using that assms(3)
  proof (induction es arbitrary: s)
    case Nil
    then show ?case by (simp add: received_def)
  next
    case (Cons e es)
    show ?case
    proof (cases e)
      case None
      then show ?thesis using Cons by (simp add: received_def)
    next
      case (Some d)
      obtain s1 where s1: "rs485_handle [Some d] s = Some s1" "rs485_ok s1"
        "uart_written s1 = uart_written s @ (if d = [] then [] else [d])"
        using rs485_pass [OF Cons.prems(1), of d] Cons.prems(2) Some by auto
      have "rs485_handle (e # es) s = rs485_handle es s1"
        using rs485_handle_append [of "[Some d]" es s] s1(1) Some by (simp del: rs485_handle.simps(3))
      then show ?thesis using Cons.IH [OF s1(2)] Cons.prems(2) s1(3) Some
        by (auto simp: received_def)
    qed
  qed
  then show ?thesis using rs485_ptr_init_ok [OF assms(1,2)] by fastforce
qed

definition rs485_zero :: UCB_CB where
  "rs485_zero = \<lparr>RS485_RxBuff = replicate 2048 0, URxCounter = 0,
     URxDataPtr = replicate 100 \<lparr>rx_start = 0, rx_end = 0\<rparr>, URxDataIN = 0, URxDataOUT = 0,
     URxDataEND = 0, uart_written = []\<rparr>"

theorem rs485_echo_witness:
  "\<exists>s'. Option.bind (rs485_ptr_init rs485_zero) (rs485_handle [Some [1, 2], None, Some [], Some [3]]) = Some s' \<and>
     uart_written s' = [[1, 2], [3]]"
  using rs485_echo [of rs485_zero "[Some [1, 2], None, Some [], Some [3]]"]
  by (auto simp: rs485_zero_def received_def)

end
