(* ===== verification/At_Ids.thy ===== *)
theory At_Ids
  imports Prelude
begin

text \<open>
  Transaction ids and waiting events (at_common.c). The ids are the entries of a table of 199;
  the unused ones form a list linked by indices, taken at its header and returned at its tail.
  The waiting events are a table of 20 entries.
\<close>

section \<open>Transaction ids\<close>

definition AT_USER_TRANS_ID_SIZE :: nat where [simp]: "AT_USER_TRANS_ID_SIZE = 199"

record AT_UTI_TABLE =
  nUTI :: u8
  nNextUTISpareTable :: "32 word"

definition UTI_ZERO :: AT_UTI_TABLE where
  "UTI_ZERO = \<lparr>nUTI = 0, nNextUTISpareTable = 0\<rparr>"

record uti_state =
  ATUserTransIdTable :: "AT_UTI_TABLE list"
  nATUserTransIdSpareHeader :: u16
  nATUserTransIdSpareTail :: u16

text \<open>The loop of the initialisation, from index \<open>n\<close> on.\<close>

fun uti_link :: "nat \<Rightarrow> nat \<Rightarrow> AT_UTI_TABLE list \<Rightarrow> AT_UTI_TABLE list option" where
  "uti_link 0 n t = Some t"
| "uti_link (Suc k) n t = do {
     e \<leftarrow> rd t n;
     t \<leftarrow> wr t n (e\<lparr>nNextUTISpareTable := of_nat (n + 1)\<rparr>);
     uti_link k (n + 1) t }"

definition AT_InitUtiTable :: "uti_state option" where
  "AT_InitUtiTable = do {
     let t = replicate AT_USER_TRANS_ID_SIZE UTI_ZERO;
     t \<leftarrow> uti_link (AT_USER_TRANS_ID_SIZE - 2) 1 t;
     let tail = AT_USER_TRANS_ID_SIZE - 1;
     e \<leftarrow> rd t tail;
     t \<leftarrow> wr t tail (e\<lparr>nNextUTISpareTable := 0\<rparr>);
     Some \<lparr>ATUserTransIdTable = t, nATUserTransIdSpareHeader = 1,
           nATUserTransIdSpareTail = of_nat tail\<rparr> }"

definition AT_AllocUserTransID :: "uti_state \<Rightarrow> (u16 \<times> uti_state) option" where
  "AT_AllocUserTransID s =
     (if nATUserTransIdSpareHeader s \<le> 0
         \<or> unat (nATUserTransIdSpareTail s) > AT_USER_TRANS_ID_SIZE - 1
         \<or> nATUserTransIdSpareHeader s = nATUserTransIdSpareTail s
      then Some (0, s)
      else do {
        let i = nATUserTransIdSpareHeader s;
        e \<leftarrow> rd (ATUserTransIdTable s) (unat i);
        t \<leftarrow> wr (ATUserTransIdTable s) (unat i) UTI_ZERO;
        Some (i, s\<lparr>nATUserTransIdSpareHeader := ucast (nNextUTISpareTable e), ATUserTransIdTable := t\<rparr>) })"

definition AT_FreeUserTransID :: "u16 \<Rightarrow> uti_state \<Rightarrow> uti_state option" where
  "AT_FreeUserTransID i s =
     (if unat i \<ge> AT_USER_TRANS_ID_SIZE then Some s
      else do {
        e \<leftarrow> rd (ATUserTransIdTable s) (unat i);
        if nNextUTISpareTable e \<noteq> 0 then Some s
        else do {
          f \<leftarrow> rd (ATUserTransIdTable s) (unat (nATUserTransIdSpareTail s));
          t \<leftarrow> wr (ATUserTransIdTable s) (unat (nATUserTransIdSpareTail s))
                 (f\<lparr>nNextUTISpareTable := ucast i\<rparr>);
          t \<leftarrow> wr t (unat i) UTI_ZERO;
          Some (s\<lparr>ATUserTransIdTable := t, nATUserTransIdSpareTail := i\<rparr>) } })"

text \<open>The unused ids, from the header to the tail.\<close>

definition uti_next :: "uti_state \<Rightarrow> nat \<Rightarrow> nat" where
  "uti_next s i = unat (nNextUTISpareTable (ATUserTransIdTable s ! i))"

fun linked :: "(nat \<Rightarrow> nat) \<Rightarrow> nat list \<Rightarrow> bool" where
  "linked nxt (x # y # xs) \<longleftrightarrow> nxt x = y \<and> linked nxt (y # xs)"
| "linked nxt _ \<longleftrightarrow> True"

definition spare :: "uti_state \<Rightarrow> nat list \<Rightarrow> bool" where
  "spare s fs \<longleftrightarrow>
     length (ATUserTransIdTable s) = AT_USER_TRANS_ID_SIZE \<and>
     fs \<noteq> [] \<and> distinct fs \<and> set fs \<subseteq> {1..<AT_USER_TRANS_ID_SIZE} \<and>
     unat (nATUserTransIdSpareHeader s) = hd fs \<and> unat (nATUserTransIdSpareTail s) = last fs \<and>
     linked (uti_next s) fs \<and>
     (\<forall>i < AT_USER_TRANS_ID_SIZE. i \<notin> set (butlast fs) \<longrightarrow> uti_next s i = 0)"

lemma linked_cong: "(\<And>x. x \<in> set (butlast xs) \<Longrightarrow> f x = g x) \<Longrightarrow> linked f xs = linked g xs"
  by (induction g xs rule: linked.induct) auto

lemma linked_in: "linked f xs \<Longrightarrow> x \<in> set (butlast xs) \<Longrightarrow> f x \<in> set xs"
  by (induction f xs rule: linked.induct) auto

lemma linked_snoc: "linked f (xs @ [y]) \<longleftrightarrow> linked f xs \<and> (xs \<noteq> [] \<longrightarrow> f (last xs) = y)"
  by (induction f xs rule: linked.induct) auto

lemma u16_eq: "(i :: u16) = j \<longleftrightarrow> unat i = unat j"
  by (simp add: word_unat_eq_iff)

lemma uti_next_upd:
  "length t = 199 \<Longrightarrow> k < 199 \<Longrightarrow>
     uti_next (s\<lparr>ATUserTransIdTable := t[k := e]\<rparr>) i =
       (if i = k then unat (nNextUTISpareTable e) else uti_next (s\<lparr>ATUserTransIdTable := t\<rparr>) i)"
  by (simp add: uti_next_def nth_list_update)

lemma spareI:
  assumes "length t = 199" "fs \<noteq> []" "distinct fs" "set fs \<subseteq> {1..<199}"
    and "unat h = hd fs" "unat l = last fs" "linked (\<lambda>i. unat (nNextUTISpareTable (t ! i))) fs"
    and "\<And>i. i < 199 \<Longrightarrow> i \<notin> set (butlast fs) \<Longrightarrow> nNextUTISpareTable (t ! i) = 0"
  shows "spare (s\<lparr>ATUserTransIdTable := t, nATUserTransIdSpareHeader := h, nATUserTransIdSpareTail := l\<rparr>) fs"
  using assms by (simp add: spare_def uti_next_def [abs_def])

text \<open>An id is taken from the front; the last one is never given out.\<close>

lemma alloc_spare:
  assumes "spare s fs"
  shows "if length fs = 1 then AT_AllocUserTransID s = Some (0, s)
    else \<exists>s'. AT_AllocUserTransID s = Some (of_nat (hd fs), s') \<and> spare s' (tl fs)"
proof -
  note S = assms [unfolded spare_def AT_USER_TRANS_ID_SIZE_def]
  obtain x xs where fs: "fs = x # xs" using S by (cases fs) auto
  show ?thesis
  proof (cases xs)
    case Nil
    then show ?thesis using S fs by (simp add: AT_AllocUserTransID_def u16_eq)
  next
    case (Cons y ys)
    let ?i = "nATUserTransIdSpareHeader s" and ?t = "ATUserTransIdTable s"
    have x: "unat ?i = x" "?i = of_nat x" "0 < x" "x < 199" "y < 199" "uti_next s x = y" "x \<notin> set xs"
      using S fs Cons by (auto simp flip: word_unat_eq_iff)
    have "last fs \<noteq> x" using x(7) fs Cons by (metis last_ConsR last_in_set list.distinct(1))
    then have ne: "?i \<noteq> nATUserTransIdSpareTail s" "\<not> ?i \<le> 0" "unat (nATUserTransIdSpareTail s) < 199"
      using S x fs by (auto simp: u16_eq word_le_nat_alt intro: last_in_set)
    let ?n = "ucast (nNextUTISpareTable (?t ! x)) :: u16"
    have n: "unat ?n = y" using x(5,6) by (simp add: uti_next_def unsigned_ucast_eq take_bit_nat_eq_self)
    have alloc: "AT_AllocUserTransID s = Some (of_nat x, s\<lparr>ATUserTransIdTable := ?t[x := UTI_ZERO],
        nATUserTransIdSpareHeader := ?n, nATUserTransIdSpareTail := nATUserTransIdSpareTail s\<rparr>)"
      using S x ne by (simp add: AT_AllocUserTransID_def Let_def rd_def wr_def)
    have "spare (s\<lparr>ATUserTransIdTable := ?t[x := UTI_ZERO],
        nATUserTransIdSpareHeader := ?n, nATUserTransIdSpareTail := nATUserTransIdSpareTail s\<rparr>) xs"
    proof (rule spareI)
      show "linked (\<lambda>i. unat (nNextUTISpareTable (?t[x := UTI_ZERO] ! i))) xs"
      proof (subst linked_cong [where g = "uti_next s"])
        fix z assume "z \<in> set (butlast xs)"
        then have "z \<noteq> x" using x(7) by (auto dest: in_set_butlastD)
        then show "unat (nNextUTISpareTable (?t[x := UTI_ZERO] ! z)) = uti_next s z"
          by (simp add: uti_next_def)
      qed (use S fs Cons in simp)
      show "nNextUTISpareTable (?t[x := UTI_ZERO] ! i) = 0" if "i < 199" "i \<notin> set (butlast xs)" for i
      proof (cases "i = x")
        case False
        then have "i \<notin> set (butlast fs)" using that fs Cons by simp
        then have "uti_next s i = 0" using S that(1) by blast
        then show ?thesis using False by (simp add: uti_next_def unat_eq_zero)
      qed (use x S in \<open>simp add: UTI_ZERO_def\<close>)
    qed (use S fs Cons n in auto)
    then show ?thesis using alloc fs Cons by auto
  qed
qed

text \<open>An id in use is returned to the end; an unused one, or a number out of range, is ignored.\<close>

lemma free_spare:
  assumes "spare s fs" and "i \<noteq> 0"
  shows "\<exists>s'. AT_FreeUserTransID i s = Some s' \<and>
    spare s' (if unat i \<in> set fs \<or> unat i \<ge> 199 then fs else fs @ [unat i])"
proof (cases "unat i \<ge> 199")
  case True
  then show ?thesis using assms by (simp add: AT_FreeUserTransID_def)
next
  case False
  note S = assms(1) [unfolded spare_def AT_USER_TRANS_ID_SIZE_def]
  let ?t = "ATUserTransIdTable s" and ?l = "nATUserTransIdSpareTail s"
  have i: "unat i < 199" "0 < unat i" using False assms(2) by (auto simp: unat_gt_0)
  have l: "unat ?l = last fs" "last fs \<in> set fs" "last fs < 199" "last fs \<notin> set (butlast fs)"
  proof -
    show "unat ?l = last fs" "last fs \<in> set fs" using S by auto
    then show "last fs < 199" using S by (meson atLeastLessThan_iff subsetD)
    have "distinct (butlast fs @ [last fs])" using S by simp
    then show "last fs \<notin> set (butlast fs)" by simp
  qed
  have split: "set fs = insert (last fs) (set (butlast fs))"
    using S by (metis append_butlast_last_id list.simps(15) rotate1.simps(2) set_rotate1)
  consider (inner) "unat i \<in> set (butlast fs)" | (tail) "unat i = last fs" | (used) "unat i \<notin> set fs"
    using split by auto
  then show ?thesis
  proof cases
    case inner
    then have "uti_next s (unat i) \<in> set fs" using S linked_in by blast
    then have "uti_next s (unat i) \<noteq> 0" using S by auto
    then show ?thesis using i assms(1) inner S
      by (auto simp: AT_FreeUserTransID_def rd_def uti_next_def dest: in_set_butlastD)
  next
    case tail
    then have z: "nNextUTISpareTable (?t ! unat i) = 0"
      using S l by (simp add: uti_next_def unat_eq_zero)
    let ?t' = "?t[unat i := UTI_ZERO]"
    have free: "AT_FreeUserTransID i s = Some (s\<lparr>ATUserTransIdTable := ?t',
        nATUserTransIdSpareHeader := nATUserTransIdSpareHeader s, nATUserTransIdSpareTail := i\<rparr>)"
      using S i l z tail by (simp add: AT_FreeUserTransID_def rd_def wr_def)
    have "spare (s\<lparr>ATUserTransIdTable := ?t',
        nATUserTransIdSpareHeader := nATUserTransIdSpareHeader s, nATUserTransIdSpareTail := i\<rparr>) fs"
    proof (rule spareI)
      show "linked (\<lambda>k. unat (nNextUTISpareTable (?t' ! k))) fs"
      proof (subst linked_cong [where g = "uti_next s"])
        fix k assume "k \<in> set (butlast fs)"
        then have "k \<noteq> unat i" using l tail by auto
        then show "unat (nNextUTISpareTable (?t' ! k)) = uti_next s k" by (simp add: uti_next_def)
      qed (use S in simp)
      show "nNextUTISpareTable (?t' ! k) = 0" if "k < 199" "k \<notin> set (butlast fs)" for k
        using that S by (cases "k = unat i") (auto simp: UTI_ZERO_def uti_next_def unat_eq_zero)
    qed (use S tail in auto)
    then show ?thesis using free tail l by auto
  next
    case used
    then have z: "nNextUTISpareTable (?t ! unat i) = 0" "unat i \<noteq> last fs" using S i l split
      by (auto simp: uti_next_def unat_eq_zero)
    let ?t' = "?t[last fs := (?t ! last fs)\<lparr>nNextUTISpareTable := ucast i\<rparr>, unat i := UTI_ZERO]"
    have u: "unat (ucast i :: 32 word) = unat i"
      by (simp add: unsigned_ucast_eq take_bit_nat_eq_self less_trans [OF unsigned_less])
    have free: "AT_FreeUserTransID i s = Some (s\<lparr>ATUserTransIdTable := ?t',
        nATUserTransIdSpareHeader := nATUserTransIdSpareHeader s, nATUserTransIdSpareTail := i\<rparr>)"
      using S i l z by (simp add: AT_FreeUserTransID_def rd_def wr_def)
    have "spare (s\<lparr>ATUserTransIdTable := ?t',
        nATUserTransIdSpareHeader := nATUserTransIdSpareHeader s, nATUserTransIdSpareTail := i\<rparr>) (fs @ [unat i])"
    proof (rule spareI)
      have "linked (\<lambda>k. unat (nNextUTISpareTable (?t' ! k))) fs"
      proof (subst linked_cong [where g = "uti_next s"])
        fix k assume "k \<in> set (butlast fs)"
        then have "k \<noteq> unat i" "k \<noteq> last fs" using l used by (auto dest: in_set_butlastD)
        then show "unat (nNextUTISpareTable (?t' ! k)) = uti_next s k" by (simp add: uti_next_def)
      qed (use S in simp)
      then show "linked (\<lambda>k. unat (nNextUTISpareTable (?t' ! k))) (fs @ [unat i])"
        using z l S u by (simp add: linked_snoc)
      show "nNextUTISpareTable (?t' ! k) = 0" if "k < 199" "k \<notin> set (butlast (fs @ [unat i]))" for k
      proof -
        have "k \<noteq> last fs" "k \<notin> set (butlast fs)" using that l split by auto
        then show ?thesis using that(1) S by (cases "k = unat i") (auto simp: UTI_ZERO_def uti_next_def unat_eq_zero)
      qed
    qed (use S used i in auto)
    then show ?thesis using free used i by auto
  qed
qed

text \<open>After the initialisation the ids 1 to 198 are unused, in this order.\<close>

lemma uti_link_result:
  "n + k \<le> length t \<Longrightarrow> \<exists>t'. uti_link k n t = Some t' \<and> length t' = length t \<and>
     (\<forall>i < length t. t' ! i = (if n \<le> i \<and> i < n + k
        then (t ! i)\<lparr>nNextUTISpareTable := of_nat (i + 1)\<rparr> else t ! i))"
proof (induction k n t rule: uti_link.induct)
  case (1 n t)
  then show ?case by auto
next
  case (2 k n t)
  let ?t = "t[n := (t ! n)\<lparr>nNextUTISpareTable := of_nat (n + 1)\<rparr>]"
  have n: "n < length t" using 2(2) by simp
  then obtain t' where "uti_link k (n + 1) ?t = Some t'" "length t' = length t"
    "\<forall>i < length t. t' ! i = (if n + 1 \<le> i \<and> i < n + 1 + k
        then (?t ! i)\<lparr>nNextUTISpareTable := of_nat (i + 1)\<rparr> else ?t ! i)"
    using 2(1) [of "t ! n" ?t] 2(2) by (auto simp: rd_def wr_def)
  then show ?case using n by (auto simp: rd_def wr_def nth_list_update)
qed

lemma linked_upt: "(\<And>i. m \<le> i \<Longrightarrow> i + 1 < n \<Longrightarrow> f i = i + 1) \<Longrightarrow> linked f [m..<n]"
proof (induction "n - m" arbitrary: m)
  case (Suc k)
  then have "linked f [Suc m..<n]" by auto
  moreover have "[m..<n] = m # [Suc m..<n]" using Suc(2) by (simp add: upt_conv_Cons)
  ultimately show ?case
    using Suc(3) [of m] by (cases "Suc m < n") (simp_all add: upt_conv_Cons)
qed simp

lemma init_spare: "\<exists>s. AT_InitUtiTable = Some s \<and> spare s [1..<199]"
proof -
  obtain t where t: "uti_link 197 1 (replicate 199 UTI_ZERO) = Some t" "length t = 199"
    "\<forall>i < 199. t ! i = (if 1 \<le> i \<and> i < 198 then UTI_ZERO\<lparr>nNextUTISpareTable := of_nat (i + 1)\<rparr>
       else UTI_ZERO)"
    using uti_link_result [of 1 197 "replicate 199 UTI_ZERO"] by auto
  let ?t = "t[198 := (t ! 198)\<lparr>nNextUTISpareTable := 0\<rparr>]"
  let ?s = "\<lparr>ATUserTransIdTable = ?t, nATUserTransIdSpareHeader = 1, nATUserTransIdSpareTail = 198\<rparr>"
  have b: "butlast [1..<199] = [1..<198 :: nat]"
    by (simp add: butlast_conv_take)
  have u: "unat (of_nat (Suc i) :: 32 word) = Suc i" if "i < 199" for i
    using that by (simp add: unsigned_of_nat take_bit_nat_eq_self del: of_nat_Suc)
  have n: "uti_next ?s i = (if 1 \<le> i \<and> i < 198 then i + 1 else 0)" if "i < 199" for i
    using that t(2,3) u [of i] by (simp add: uti_next_def UTI_ZERO_def nth_list_update del: of_nat_Suc)
  have "linked (uti_next ?s) [1..<199]" by (rule linked_upt) (simp add: n)
  moreover have "uti_next ?s i = 0" if "i < 199" "i \<notin> set (butlast [1..<199])" for i
    using that n unfolding b by auto
  moreover have "last [1..<199] = (198 :: nat)" by simp
  ultimately have "spare ?s [1..<199]" using t(2) by (auto simp: spare_def)
  then show ?thesis using t by (simp add: AT_InitUtiTable_def rd_def wr_def)
qed

text \<open>A sequence of requests: \<open>None\<close> takes an id, \<open>Some i\<close> returns \<open>i\<close>.\<close>

fun uti_run :: "u16 option list \<Rightarrow> uti_state \<Rightarrow> (u16 list \<times> uti_state) option" where
  "uti_run [] s = Some ([], s)"
| "uti_run (None # rs) s = do {
     (i, s) \<leftarrow> AT_AllocUserTransID s;
     (is, s) \<leftarrow> uti_run rs s;
     Some (i # is, s) }"
| "uti_run (Some i # rs) s = do { s \<leftarrow> AT_FreeUserTransID i s; uti_run rs s }"

fun uti_spec :: "u16 option list \<Rightarrow> nat list \<Rightarrow> u16 list \<times> nat list" where
  "uti_spec [] fs = ([], fs)"
| "uti_spec (None # rs) fs =
     (if length fs = 1 then apfst (Cons 0) (uti_spec rs fs)
      else apfst (Cons (of_nat (hd fs))) (uti_spec rs (tl fs)))"
| "uti_spec (Some i # rs) fs =
     uti_spec rs (if unat i \<in> set fs \<or> unat i \<ge> 199 then fs else fs @ [unat i])"

text \<open>The transaction ids behave as a queue of the unused numbers 1 to 198: for any sequence
  of requests in which 0 is not returned, no access leaves the table, an id is taken from the
  front of the queue (0 when only one is left), an id in use goes to its end, and returning an
  unused id or a number out of range changes nothing.\<close>

theorem uti_queue:
  assumes "Some 0 \<notin> set rs"
  shows "\<exists>s s'. AT_InitUtiTable = Some s \<and> uti_run rs s = Some (fst (uti_spec rs [1..<199]), s') \<and>
    spare s' (snd (uti_spec rs [1..<199]))"
proof -
  have "\<exists>s'. uti_run rs s = Some (fst (uti_spec rs fs), s') \<and> spare s' (snd (uti_spec rs fs))"
    if "spare s fs" for s fs
    using that assms
  proof (induction rs fs arbitrary: s rule: uti_spec.induct)
    case (2 rs fs)
    show ?case
    proof (cases "length fs = 1")
      case True
      then show ?thesis using alloc_spare [OF 2(3)] 2(1) [OF True 2(3)] 2(4) by auto
    next
      case False
      then obtain s' where "AT_AllocUserTransID s = Some (of_nat (hd fs), s')" "spare s' (tl fs)"
        using alloc_spare [OF 2(3)] by auto
      then show ?thesis using 2(2) [OF False] 2(4) False by fastforce
    qed
  next
    case (3 i rs fs)
    then obtain s' where "AT_FreeUserTransID i s = Some s'"
      "spare s' (if unat i \<in> set fs \<or> unat i \<ge> 199 then fs else fs @ [unat i])"
      using free_spare [of s fs i] by auto
    then show ?case using 3(1) 3(3) by fastforce
  qed simp
  then show ?thesis using init_spare by blast
qed

definition uti_broken :: "uti_state \<Rightarrow> bool" where
  "uti_broken s \<longleftrightarrow> length (ATUserTransIdTable s) = 199 \<and> nATUserTransIdSpareHeader s = 0 \<and>
     unat (nATUserTransIdSpareTail s) < 199"

lemma uti_broken_stays:
  assumes "uti_broken s"
  shows "\<exists>s'. uti_run rs s = Some (replicate (length (filter (\<lambda>r. r = None) rs)) 0, s')"
  using assms
proof (induction rs arbitrary: s)
  case (Cons r rs)
  show ?case
  proof (cases r)
    case None
    obtain s' where "uti_run rs s = Some (replicate (length (filter (\<lambda>r. r = None) rs)) 0, s')"
      using Cons by blast
    then show ?thesis using Cons.prems None by (auto simp: AT_AllocUserTransID_def uti_broken_def)
  next
    case (Some i)
    have "\<exists>s'. AT_FreeUserTransID i s = Some s' \<and> uti_broken s'"
      using Cons.prems by (auto simp: AT_FreeUserTransID_def uti_broken_def rd_def wr_def)
    then show ?thesis using Cons.IH Some by auto
  qed
qed simp

text \<open>The chain after 0 was released: it ends at 0, the header of nothing.\<close>

definition half_broken :: "uti_state \<Rightarrow> nat list \<Rightarrow> bool" where
  "half_broken s fs \<longleftrightarrow>
     length (ATUserTransIdTable s) = 199 \<and> set fs \<subseteq> {1..<199} \<and> distinct fs \<and>
     unat (nATUserTransIdSpareHeader s) = hd (fs @ [0]) \<and> nATUserTransIdSpareTail s = 0 \<and>
     linked (uti_next s) (fs @ [0])"

lemma half_broken_alloc:
  assumes "half_broken s (x # xs)"
  shows "\<exists>s'. AT_AllocUserTransID s = Some (of_nat x, s') \<and> half_broken s' xs"
proof -
  let ?i = "nATUserTransIdSpareHeader s" and ?t = "ATUserTransIdTable s"
  note S = assms [unfolded half_broken_def]
  have x: "unat ?i = x" "?i = of_nat x" "0 < x" "x < 199" "x \<notin> set xs" "x \<notin> set (xs @ [0])"
    using S by (auto simp flip: word_unat_eq_iff)
  have nx: "uti_next s x = hd (xs @ [0])" "hd (xs @ [0]) < 199" using S by (cases xs; auto)+
  let ?n = "ucast (nNextUTISpareTable (?t ! x)) :: u16"
  have n: "unat ?n = hd (xs @ [0])"
    using nx by (simp add: uti_next_def unsigned_ucast_eq take_bit_nat_eq_self)
  let ?s = "s\<lparr>nATUserTransIdSpareHeader := ?n, ATUserTransIdTable := ?t[x := UTI_ZERO]\<rparr>"
  have "AT_AllocUserTransID s = Some (of_nat x, ?s)"
    using S x by (simp add: AT_AllocUserTransID_def Let_def rd_def wr_def u16_eq word_le_nat_alt)
  moreover have "linked (uti_next ?s) (xs @ [0])"
  proof (subst linked_cong [where g = "uti_next s"])
    fix z assume "z \<in> set (butlast (xs @ [0]))"
    then have "z \<noteq> x" using x(5) by auto
    then show "uti_next ?s z = uti_next s z" by (simp add: uti_next_def)
  qed (use S in \<open>cases xs; simp\<close>)
  ultimately show ?thesis using S n by (auto simp: half_broken_def)
qed

text \<open>The guard of the release admits 0, the number that a failed request returns: once 0 was
  released, the remaining unused ids are given out (the last one included) and then every
  request fails for good, whatever is returned to the table.\<close>

theorem uti_free0_breaks:
  assumes "spare s fs"
  shows "\<exists>s' s''. AT_FreeUserTransID 0 s = Some s' \<and>
    uti_run (replicate (length fs) None @ rs) s' =
      Some (map of_nat fs @ replicate (length (filter (\<lambda>r. r = None) rs)) 0, s'')"
proof -
  have run: "\<exists>s''. uti_run (replicate (length fs) None @ rs) s =
      Some (map of_nat fs @ replicate (length (filter (\<lambda>r. r = None) rs)) 0, s'')"
    if "half_broken s fs" for s fs
    using that
  proof (induction fs arbitrary: s)
    case Nil
    then have "uti_broken s" by (simp add: half_broken_def uti_broken_def unat_eq_zero)
    then show ?case using uti_broken_stays by simp
  next
    case (Cons x xs)
    obtain s' where s': "AT_AllocUserTransID s = Some (of_nat x, s')" "half_broken s' xs"
      using half_broken_alloc [OF Cons.prems] by blast
    then show ?case using Cons.IH [OF s'(2)] by auto
  qed
  note S = assms [unfolded spare_def AT_USER_TRANS_ID_SIZE_def]
  let ?t = "ATUserTransIdTable s"
  let ?t' = "?t[last fs := (?t ! last fs)\<lparr>nNextUTISpareTable := 0\<rparr>, 0 := UTI_ZERO]"
  let ?s = "s\<lparr>ATUserTransIdTable := ?t', nATUserTransIdSpareTail := 0\<rparr>"
  have l: "last fs \<in> set fs" "0 \<notin> set fs" using S by auto
  then have l2: "last fs < 199" "last fs \<noteq> 0" using S by (meson atLeastLessThan_iff subsetD, metis)
  have "distinct (butlast fs @ [last fs])" using S by simp
  then have l3: "last fs \<notin> set (butlast fs)" by simp
  have "0 \<notin> set (butlast fs)" using l(2) by (auto dest: in_set_butlastD)
  then have z: "nNextUTISpareTable (?t ! 0) = 0" using S by (simp add: uti_next_def unat_eq_zero)
  have "?t \<noteq> []" using S by auto
  then have "AT_FreeUserTransID 0 s = Some ?s"
    using S z l2 by (simp add: AT_FreeUserTransID_def rd_def wr_def)
  moreover have "half_broken ?s fs"
  proof -
    have "linked (uti_next ?s) fs"
    proof (subst linked_cong [where g = "uti_next s"])
      fix k assume "k \<in> set (butlast fs)"
      then have "k \<noteq> 0" "k \<noteq> last fs" using \<open>0 \<notin> set (butlast fs)\<close> l3 by metis+
      then show "uti_next ?s k = uti_next s k" by (simp add: uti_next_def)
    qed (use S in simp)
    moreover have "uti_next ?s (last fs) = 0" using S l2 by (simp add: uti_next_def)
    ultimately show ?thesis using S by (simp add: half_broken_def linked_snoc)
  qed
  ultimately show ?thesis using run by blast
qed

theorem uti_queue_witness:
  "\<exists>s s'. AT_InitUtiTable = Some s \<and> uti_run [None, None, Some 1, None] s = Some ([1, 2, 3], s') \<and>
     spare s' ([4..<199] @ [1])"
proof -
  have *: "uti_spec [None, None, Some 1, None] [1..<199] = ([1, 2, 3], [4..<199] @ [1])"
    by code_simp
  have "Some (0 :: u16) \<notin> set [None, None, Some 1, None]" by simp
  from uti_queue [OF this, unfolded *] show ?thesis by simp
qed

theorem uti_free0_breaks_witness:
  "\<exists>s s' s''. AT_InitUtiTable = Some s \<and> AT_FreeUserTransID 0 s = Some s' \<and>
     uti_run (replicate 198 None @ [Some 5, None]) s' = Some (map of_nat [1..<199] @ [0], s'')"
proof -
  obtain s where "AT_InitUtiTable = Some s" "spare s [1..<199]" using init_spare by blast
  moreover have "length [1..<199] = 198" "length (filter (\<lambda>r. r = None) [Some (5 :: u16), None]) = 1"
    by simp_all
  ultimately show ?thesis
    using uti_free0_breaks [of s "[1..<199]" "[Some 5, None]"] by (metis replicate_0 replicate_Suc One_nat_def)
qed

end
