(* ===== verification/At_Events.thy ===== *)
theory At_Events
  imports Prelude "HOL-Library.Multiset"
begin

text \<open>
  Waiting events (at_common.c): a table of 20 entries in which a channel (DLCI) of a SIM enters
  the event of the protocol stack it waits for.
\<close>

definition AT_WAITING_EVENT_MAX :: nat where [simp]: "AT_WAITING_EVENT_MAX = 20"

record ATWaitingEvent =
  nEvent :: u32
  nSim :: u8
  nDLCI :: u8
  enable :: u8

definition EVENT_ZERO :: ATWaitingEvent where
  "EVENT_ZERO = \<lparr>nEvent = 0, nSim = 0, nDLCI = 0, enable = 0\<rparr>"

text \<open>The loops: the first of the entries, from index \<open>i\<close> on, that satisfies a condition.\<close>

fun event_loop :: "nat \<Rightarrow> nat \<Rightarrow> (ATWaitingEvent \<Rightarrow> bool) \<Rightarrow> ATWaitingEvent list \<Rightarrow> nat option option" where
  "event_loop 0 i P t = Some None"
| "event_loop (Suc n) i P t = do {
     e \<leftarrow> rd t i;
     if P e then Some (Some i) else event_loop n (i + 1) P t }"

abbreviation (input) find_event ::
  "(ATWaitingEvent \<Rightarrow> bool) \<Rightarrow> ATWaitingEvent list \<Rightarrow> nat option option" where
  "find_event P t \<equiv> event_loop AT_WAITING_EVENT_MAX 0 P t"

definition AT_GetWaitingEventOnDLCI :: "u8 \<Rightarrow> u8 \<Rightarrow> ATWaitingEvent list \<Rightarrow> u32 option" where
  "AT_GetWaitingEventOnDLCI sim dlci t = do {
     r \<leftarrow> find_event (\<lambda>e. enable e \<noteq> 0 \<and> nDLCI e = dlci \<and> nSim e = sim) t;
     case r of Some i \<Rightarrow> map_option nEvent (rd t i) | None \<Rightarrow> Some 0 }"

definition AT_AddWaitingEvent ::
  "u32 \<Rightarrow> u8 \<Rightarrow> u8 \<Rightarrow> ATWaitingEvent list \<Rightarrow> ATWaitingEvent list option" where
  "AT_AddWaitingEvent event sim dlci t = do {
     r \<leftarrow> find_event (\<lambda>e. enable e = 0) t;
     case r of Some i \<Rightarrow> wr t i \<lparr>nEvent = event, nSim = sim, nDLCI = dlci, enable = 1\<rparr>
     | None \<Rightarrow> Some t }"

definition AT_isWaitingEvent :: "u32 \<Rightarrow> u8 \<Rightarrow> u8 \<Rightarrow> ATWaitingEvent list \<Rightarrow> bool option" where
  "AT_isWaitingEvent event sim dlci t = do {
     r \<leftarrow> find_event (\<lambda>e. enable e \<noteq> 0 \<and> nEvent e = event \<and> nSim e = sim) t;
     Some (r \<noteq> None) }"

definition AT_DelWaitingEventOnDLCI :: "u8 \<Rightarrow> ATWaitingEvent list \<Rightarrow> ATWaitingEvent list option" where
  "AT_DelWaitingEventOnDLCI dlci t = do {
     r \<leftarrow> find_event (\<lambda>e. enable e \<noteq> 0 \<and> nDLCI e = dlci) t;
     case r of Some i \<Rightarrow> wr t i EVENT_ZERO | None \<Rightarrow> Some t }"

definition AT_DelWaitingEvent ::
  "u32 \<Rightarrow> u8 \<Rightarrow> u8 \<Rightarrow> ATWaitingEvent list \<Rightarrow> ATWaitingEvent list option" where
  "AT_DelWaitingEvent event sim dlci t = do {
     r \<leftarrow> find_event (\<lambda>e. enable e \<noteq> 0 \<and> nEvent e = event \<and> nSim e = sim) t;
     case r of Some i \<Rightarrow> wr t i EVENT_ZERO | None \<Rightarrow> Some t }"

definition AT_GetDLCIFromWaitingEvent :: "u32 \<Rightarrow> u8 \<Rightarrow> ATWaitingEvent list \<Rightarrow> u8 option" where
  "AT_GetDLCIFromWaitingEvent event sim t = do {
     r \<leftarrow> find_event (\<lambda>e. enable e \<noteq> 0 \<and> nEvent e = event \<and> nSim e = sim) t;
     case r of Some i \<Rightarrow> map_option nDLCI (rd t i) | None \<Rightarrow> Some 0 }"

section \<open>The loops\<close>

lemma event_loop_first:
  "i + n = length t \<Longrightarrow> event_loop n i P t = Some (map_option ((+) i) (first_index P (drop i t)))"
proof (induction n arbitrary: i)
  case (Suc n)
  have i: "i < length t" using Suc.prems by simp
  have IH: "event_loop n (Suc i) P t = Some (map_option ((+) (Suc i)) (first_index P (drop (Suc i) t)))"
    by (rule Suc.IH) (use Suc.prems in simp)
  have step: "map_option ((+) (Suc i)) r = map_option ((+) i) (map_option Suc r)" for r
    by (cases r) simp_all
  have "event_loop (Suc n) i P t = (if P (t ! i) then Some (Some i) else event_loop n (Suc i) P t)"
    using i by (simp add: rd_def)
  then show ?case unfolding IH step first_index_drop_step [OF i] by simp
qed simp

lemma find_event_first:
  "length t = AT_WAITING_EVENT_MAX \<Longrightarrow> find_event P t = Some (first_index P t)"
  using event_loop_first [of 0 20 t P] by (cases "first_index P t") simp_all

lemma find_event_cases:
  assumes "length t = AT_WAITING_EVENT_MAX"
  obtains (found) j where "find_event P t = Some (Some j)" "j < length t" "P (t ! j)"
      "\<And>k. k < j \<Longrightarrow> \<not> P (t ! k)"
  | (none) "find_event P t = Some None" "\<And>e. e \<in> set t \<Longrightarrow> \<not> P e"
proof -
  show ?thesis
    using that find_event_first [OF assms, of P] first_index_Some [of P t] first_index_min [of P t] first_index_None [of P t]
    by (cases "first_index P t") auto
qed

section \<open>The contents\<close>

text \<open>What is waited for: event, SIM and channel.\<close>

definition entry :: "ATWaitingEvent \<Rightarrow> u32 \<times> u8 \<times> u8" where
  "entry e = (nEvent e, nSim e, nDLCI e)"

definition waiting :: "ATWaitingEvent list \<Rightarrow> (u32 \<times> u8 \<times> u8) multiset" where
  "waiting t = image_mset entry (filter_mset (\<lambda>e. enable e \<noteq> 0) (mset t))"

lemma filter_mset_none: "filter_mset P M = {#} \<longleftrightarrow> (\<forall>x \<in># M. \<not> P x)"
  by (induction M) auto

lemma mset_update_eq: "j < length t \<Longrightarrow> mset (t[j := e]) = mset t - {#t ! j#} + {#e#}"
  by (simp add: mset_update)

lemma waiting_free:
  "j < length t \<Longrightarrow> enable (t ! j) \<noteq> 0 \<Longrightarrow>
     waiting (t[j := EVENT_ZERO]) = waiting t - {#entry (t ! j)#}"
  by (simp add: waiting_def mset_update_eq EVENT_ZERO_def image_mset_Diff)

lemma waiting_add:
  "j < length t \<Longrightarrow> enable (t ! j) = 0 \<Longrightarrow> enable e \<noteq> 0 \<Longrightarrow>
     waiting (t[j := e]) = add_mset (entry e) (waiting t)"
  by (simp add: waiting_def mset_update_eq)

lemma in_waiting: "x \<in># waiting t \<longleftrightarrow> (\<exists>e \<in> set t. enable e \<noteq> 0 \<and> entry e = x)"
  by (auto simp: waiting_def)

section \<open>The operations\<close>

lemma add_waiting:
  assumes t: "length t = AT_WAITING_EVENT_MAX"
  shows "\<exists>t'. AT_AddWaitingEvent ev sim dlci t = Some t' \<and> length t' = AT_WAITING_EVENT_MAX \<and>
    waiting t' = (if size (waiting t) < AT_WAITING_EVENT_MAX then add_mset (ev, sim, dlci) (waiting t)
                  else waiting t)"
proof (cases rule: find_event_cases [OF t, of "\<lambda>e. enable e = 0", case_names found none])
  case (found j)
  have "t ! j \<in># mset t" "t ! j \<notin># filter_mset (\<lambda>e. enable e \<noteq> 0) (mset t)" using found by simp_all
  then have "filter_mset (\<lambda>e. enable e \<noteq> 0) (mset t) \<subset># mset t"
    by (metis multiset_filter_subset subset_mset.le_neq_trans)
  then have "size (waiting t) < AT_WAITING_EVENT_MAX"
    using t mset_subset_size by (fastforce simp: waiting_def)
  then show ?thesis using found t
    by (simp add: AT_AddWaitingEvent_def wr_def waiting_add entry_def)
next
  case none
  then have "filter_mset (\<lambda>e. enable e \<noteq> 0) (mset t) = mset t" by (simp add: filter_mset_eq_conv)
  then have "size (waiting t) = AT_WAITING_EVENT_MAX" using t by (simp add: waiting_def)
  then show ?thesis using none t by (simp add: AT_AddWaitingEvent_def)
qed

text \<open>Releasing the first entry that satisfies a condition.\<close>

lemma del_waiting:
  assumes t: "length t = AT_WAITING_EVENT_MAX"
    and P: "\<And>e. P e \<longleftrightarrow> enable e \<noteq> 0 \<and> Q (entry e)"
    and f: "f t = do { r \<leftarrow> find_event P t; case r of Some i \<Rightarrow> wr t i EVENT_ZERO | None \<Rightarrow> Some t }"
  shows "\<exists>t'. f t = Some t' \<and> length t' = AT_WAITING_EVENT_MAX \<and>
    (if \<exists>v m d. (v, m, d) \<in># waiting t \<and> Q (v, m, d)
     then \<exists>v m d. (v, m, d) \<in># waiting t \<and> Q (v, m, d) \<and> waiting t' = waiting t - {#(v, m, d)#}
     else t' = t)"
proof (cases rule: find_event_cases [OF t, of P, case_names found none])
  case (found j)
  then have j: "enable (t ! j) \<noteq> 0" "Q (entry (t ! j))" using P by auto
  have x: "entry (t ! j) \<in># waiting t" using j(1) found(2) by (auto simp: in_waiting)
  have "f t = Some (t[j := EVENT_ZERO])" using found f by (simp add: wr_def)
  moreover obtain v m d where "entry (t ! j) = (v, m, d)" by (cases "entry (t ! j)")
  ultimately show ?thesis using x j(2) waiting_free [OF found(2) j(1)] t by auto
next
  case none
  then have "\<not> (\<exists>v m d. (v, m, d) \<in># waiting t \<and> Q (v, m, d))" using P by (metis in_waiting)
  then show ?thesis using none f t by auto
qed

text \<open>A table of 20 entries holds the events waited for: adding enters the event unless the
  table is full, and then nothing changes; asking for an event of a SIM is asking for an entry of
  any channel; deleting by event and SIM, or by channel, removes one such entry if there is one;
  the channel found for an event and the event found for a channel are those of an entry, or 0.\<close>

theorem waiting_events:
  assumes t: "length t = AT_WAITING_EVENT_MAX"
  shows "(\<exists>t'. AT_AddWaitingEvent ev sim dlci t = Some t' \<and> length t' = AT_WAITING_EVENT_MAX \<and>
      waiting t' = (if size (waiting t) < AT_WAITING_EVENT_MAX
                    then add_mset (ev, sim, dlci) (waiting t) else waiting t)) \<and>
    AT_isWaitingEvent ev sim dlci t = Some (\<exists>d. (ev, sim, d) \<in># waiting t) \<and>
    (\<exists>t'. AT_DelWaitingEvent ev sim dlci t = Some t' \<and> length t' = AT_WAITING_EVENT_MAX \<and>
      (if \<exists>d. (ev, sim, d) \<in># waiting t
       then \<exists>d. (ev, sim, d) \<in># waiting t \<and> waiting t' = waiting t - {#(ev, sim, d)#}
       else t' = t)) \<and>
    (\<exists>t'. AT_DelWaitingEventOnDLCI dlci t = Some t' \<and> length t' = AT_WAITING_EVENT_MAX \<and>
      (if \<exists>v m. (v, m, dlci) \<in># waiting t
       then \<exists>v m. (v, m, dlci) \<in># waiting t \<and> waiting t' = waiting t - {#(v, m, dlci)#}
       else t' = t)) \<and>
    (\<exists>d. AT_GetDLCIFromWaitingEvent ev sim t = Some d \<and>
      (if \<exists>d. (ev, sim, d) \<in># waiting t then (ev, sim, d) \<in># waiting t else d = 0)) \<and>
    (\<exists>v. AT_GetWaitingEventOnDLCI sim dlci t = Some v \<and>
      (if \<exists>v. (v, sim, dlci) \<in># waiting t then (v, sim, dlci) \<in># waiting t else v = 0))"
proof (intro conjI)
  let ?P = "\<lambda>e. enable e \<noteq> 0 \<and> nEvent e = ev \<and> nSim e = sim"
  let ?R = "\<lambda>e. enable e \<noteq> 0 \<and> nDLCI e = dlci \<and> nSim e = sim"
  note C = find_event_cases [OF t, of ?P, case_names found none]
  show "\<exists>t'. AT_AddWaitingEvent ev sim dlci t = Some t' \<and> length t' = AT_WAITING_EVENT_MAX \<and>
      waiting t' = (if size (waiting t) < AT_WAITING_EVENT_MAX
                    then add_mset (ev, sim, dlci) (waiting t) else waiting t)"
    by (rule add_waiting [OF t])
  show "AT_isWaitingEvent ev sim dlci t = Some (\<exists>d. (ev, sim, d) \<in># waiting t)"
  proof (cases rule: C)
    case (found j)
    then have "(ev, sim, nDLCI (t ! j)) \<in># waiting t"
      unfolding in_waiting by (intro bexI [of _ "t ! j"]) (simp_all add: entry_def)
    then show ?thesis using found by (auto simp: AT_isWaitingEvent_def)
  next
    case none
    then show ?thesis by (auto simp: AT_isWaitingEvent_def in_waiting entry_def)
  qed
  show "\<exists>t'. AT_DelWaitingEvent ev sim dlci t = Some t' \<and> length t' = AT_WAITING_EVENT_MAX \<and>
      (if \<exists>d. (ev, sim, d) \<in># waiting t
       then \<exists>d. (ev, sim, d) \<in># waiting t \<and> waiting t' = waiting t - {#(ev, sim, d)#}
       else t' = t)"
    using del_waiting [OF t, of ?P "\<lambda>x. fst x = ev \<and> fst (snd x) = sim"
      "AT_DelWaitingEvent ev sim dlci"]
    by (auto simp: AT_DelWaitingEvent_def entry_def split: if_splits)
  show "\<exists>t'. AT_DelWaitingEventOnDLCI dlci t = Some t' \<and> length t' = AT_WAITING_EVENT_MAX \<and>
      (if \<exists>v m. (v, m, dlci) \<in># waiting t
       then \<exists>v m. (v, m, dlci) \<in># waiting t \<and> waiting t' = waiting t - {#(v, m, dlci)#}
       else t' = t)"
    using del_waiting [OF t, of "\<lambda>e. enable e \<noteq> 0 \<and> nDLCI e = dlci" "\<lambda>x. snd (snd x) = dlci"
      "AT_DelWaitingEventOnDLCI dlci"]
    by (auto simp: AT_DelWaitingEventOnDLCI_def entry_def split: if_splits)
  show "\<exists>d. AT_GetDLCIFromWaitingEvent ev sim t = Some d \<and>
      (if \<exists>d. (ev, sim, d) \<in># waiting t then (ev, sim, d) \<in># waiting t else d = 0)"
  proof (cases rule: C)
    case (found j)
    then have "(ev, sim, nDLCI (t ! j)) \<in># waiting t"
      unfolding in_waiting by (intro bexI [of _ "t ! j"]) (simp_all add: entry_def)
    then show ?thesis using found by (auto simp: AT_GetDLCIFromWaitingEvent_def rd_def)
  next
    case none
    then show ?thesis by (auto simp: AT_GetDLCIFromWaitingEvent_def in_waiting entry_def)
  qed
  show "\<exists>v. AT_GetWaitingEventOnDLCI sim dlci t = Some v \<and>
      (if \<exists>v. (v, sim, dlci) \<in># waiting t then (v, sim, dlci) \<in># waiting t else v = 0)"
  proof (cases rule: find_event_cases [OF t, of ?R, case_names found none])
    case (found j)
    then have "(nEvent (t ! j), sim, dlci) \<in># waiting t"
      unfolding in_waiting by (intro bexI [of _ "t ! j"]) (simp_all add: entry_def)
    then show ?thesis using found by (auto simp: AT_GetWaitingEventOnDLCI_def rd_def)
  next
    case none
    then show ?thesis by (auto simp: AT_GetWaitingEventOnDLCI_def in_waiting entry_def)
  qed
qed

definition no_events :: "ATWaitingEvent list" where
  "no_events = replicate 20 EVENT_ZERO"

theorem waiting_events_witness:
  "\<exists>t. AT_AddWaitingEvent 7 1 2 no_events = Some t \<and> waiting t = {#(7, 1, 2)#}"
proof -
  have "length no_events = AT_WAITING_EVENT_MAX" "waiting no_events = {#}"
    by (simp_all add: no_events_def waiting_def EVENT_ZERO_def filter_mset_none)
  then show ?thesis using waiting_events [of no_events 7 1 2] by auto
qed

text \<open>The channel given to the deletion is not compared: when two channels wait for the same
  event of a SIM, the second one's deletion removes the entry of the first, so that the event,
  when it comes, is given to the channel that no longer waits.\<close>

theorem del_waiting_wrong_channel:
  assumes "length t = AT_WAITING_EVENT_MAX" "waiting t = {#}" "d1 \<noteq> d2"
  shows "\<exists>t1 t2 t3. AT_AddWaitingEvent ev sim d1 t = Some t1 \<and> AT_AddWaitingEvent ev sim d2 t1 = Some t2 \<and>
    AT_DelWaitingEvent ev sim d2 t2 = Some t3 \<and> waiting t3 = {#(ev, sim, d2)#}"
proof -
  obtain a b ts where ab: "t = a # b # ts" "length ts = 18"
    using assms(1) by (auto simp: numeral_eq_Suc length_Suc_conv)
  have off: "enable e = 0" if "e \<in> set t" for e
    using assms(2) that by (auto simp: waiting_def filter_mset_none)
  let ?e1 = "\<lparr>nEvent = ev, nSim = sim, nDLCI = d1, enable = 1\<rparr>"
  let ?e2 = "\<lparr>nEvent = ev, nSim = sim, nDLCI = d2, enable = 1\<rparr>"
  have "AT_AddWaitingEvent ev sim d1 t = Some (?e1 # b # ts)"
    using off ab by (simp add: AT_AddWaitingEvent_def find_event_first [simplified] wr_def)
  moreover have "AT_AddWaitingEvent ev sim d2 (?e1 # b # ts) = Some (?e1 # ?e2 # ts)"
    using off ab by (simp add: AT_AddWaitingEvent_def find_event_first [simplified] wr_def)
  moreover have "AT_DelWaitingEvent ev sim d2 (?e1 # ?e2 # ts) = Some (EVENT_ZERO # ?e2 # ts)"
    using ab by (simp add: AT_DelWaitingEvent_def find_event_first [simplified] wr_def)
  moreover have "waiting (EVENT_ZERO # ?e2 # ts) = {#(ev, sim, d2)#}"
  proof -
    have "filter_mset (\<lambda>e. enable e \<noteq> 0) (mset ts) = {#}"
      using off ab by (simp add: filter_mset_none)
    then show ?thesis by (simp add: waiting_def EVENT_ZERO_def entry_def)
  qed
  ultimately show ?thesis by blast
qed

theorem del_waiting_wrong_channel_witness:
  "\<exists>t1 t2 t3. AT_AddWaitingEvent 7 0 1 no_events = Some t1 \<and> AT_AddWaitingEvent 7 0 2 t1 = Some t2 \<and>
     AT_DelWaitingEvent 7 0 2 t2 = Some t3 \<and> waiting t3 = {#(7, 0, 2)#}"
proof -
  have "length no_events = AT_WAITING_EVENT_MAX" "waiting no_events = {#}"
    by (simp_all add: no_events_def waiting_def EVENT_ZERO_def filter_mset_none)
  then show ?thesis using del_waiting_wrong_channel [of no_events 1 2 7 0] by simp
qed

end
