(* ===== verification/Checksum.thy ===== *)
theory Checksum
  imports Prelude
begin

text \<open>
  The checksums of the AT engine: the frame check sequence of the multiplexer
  (at_CmuxCheckFcs and at_CmuxCalcFcs of at_utils.c, an 8-bit table-driven CRC) and the
  routines of crc32.c (CRC-32 in its standard and its "variant" form, the ROHC CRC-8, the
  bitwise CRC-16 used for stored data and the MSB-first CRC-16 of the ROM loader).

  A locale states what a 256-entry table must satisfy to drive a reflected CRC of a given
  polynomial; it is interpreted on the tables of the code, which gives that every
  table-driven routine computes the bitwise CRC.
\<close>

unbundle bit_operations_syntax

section \<open>Tables of the code\<close>

definition r_crctable :: "u8 list" where
  "r_crctable =
    [0x00, 0x91, 0xe3, 0x72, 0x07, 0x96, 0xe4, 0x75,
     0x0e, 0x9f, 0xed, 0x7c, 0x09, 0x98, 0xea, 0x7b,
     0x1c, 0x8d, 0xff, 0x6e, 0x1b, 0x8a, 0xf8, 0x69,
     0x12, 0x83, 0xf1, 0x60, 0x15, 0x84, 0xf6, 0x67,
     0x38, 0xa9, 0xdb, 0x4a, 0x3f, 0xae, 0xdc, 0x4d,
     0x36, 0xa7, 0xd5, 0x44, 0x31, 0xa0, 0xd2, 0x43,
     0x24, 0xb5, 0xc7, 0x56, 0x23, 0xb2, 0xc0, 0x51,
     0x2a, 0xbb, 0xc9, 0x58, 0x2d, 0xbc, 0xce, 0x5f,
     0x70, 0xe1, 0x93, 0x02, 0x77, 0xe6, 0x94, 0x05,
     0x7e, 0xef, 0x9d, 0x0c, 0x79, 0xe8, 0x9a, 0x0b,
     0x6c, 0xfd, 0x8f, 0x1e, 0x6b, 0xfa, 0x88, 0x19,
     0x62, 0xf3, 0x81, 0x10, 0x65, 0xf4, 0x86, 0x17,
     0x48, 0xd9, 0xab, 0x3a, 0x4f, 0xde, 0xac, 0x3d,
     0x46, 0xd7, 0xa5, 0x34, 0x41, 0xd0, 0xa2, 0x33,
     0x54, 0xc5, 0xb7, 0x26, 0x53, 0xc2, 0xb0, 0x21,
     0x5a, 0xcb, 0xb9, 0x28, 0x5d, 0xcc, 0xbe, 0x2f,
     0xe0, 0x71, 0x03, 0x92, 0xe7, 0x76, 0x04, 0x95,
     0xee, 0x7f, 0x0d, 0x9c, 0xe9, 0x78, 0x0a, 0x9b,
     0xfc, 0x6d, 0x1f, 0x8e, 0xfb, 0x6a, 0x18, 0x89,
     0xf2, 0x63, 0x11, 0x80, 0xf5, 0x64, 0x16, 0x87,
     0xd8, 0x49, 0x3b, 0xaa, 0xdf, 0x4e, 0x3c, 0xad,
     0xd6, 0x47, 0x35, 0xa4, 0xd1, 0x40, 0x32, 0xa3,
     0xc4, 0x55, 0x27, 0xb6, 0xc3, 0x52, 0x20, 0xb1,
     0xca, 0x5b, 0x29, 0xb8, 0xcd, 0x5c, 0x2e, 0xbf,
     0x90, 0x01, 0x73, 0xe2, 0x97, 0x06, 0x74, 0xe5,
     0x9e, 0x0f, 0x7d, 0xec, 0x99, 0x08, 0x7a, 0xeb,
     0x8c, 0x1d, 0x6f, 0xfe, 0x8b, 0x1a, 0x68, 0xf9,
     0x82, 0x13, 0x61, 0xf0, 0x85, 0x14, 0x66, 0xf7,
     0xa8, 0x39, 0x4b, 0xda, 0xaf, 0x3e, 0x4c, 0xdd,
     0xa6, 0x37, 0x45, 0xd4, 0xa1, 0x30, 0x42, 0xd3,
     0xb4, 0x25, 0x57, 0xc6, 0xb3, 0x22, 0x50, 0xc1,
     0xba, 0x2b, 0x59, 0xc8, 0xbd, 0x2c, 0x5e, 0xcf]"

definition gCrc8Table :: "u8 list" where
  "gCrc8Table =
    [0x00, 0x91, 0xe3, 0x72, 0x07, 0x96, 0xe4, 0x75,
     0x0e, 0x9f, 0xed, 0x7c, 0x09, 0x98, 0xea, 0x7b,
     0x1c, 0x8d, 0xff, 0x6e, 0x1b, 0x8a, 0xf8, 0x69,
     0x12, 0x83, 0xf1, 0x60, 0x15, 0x84, 0xf6, 0x67,
     0x38, 0xa9, 0xdb, 0x4a, 0x3f, 0xae, 0xdc, 0x4d,
     0x36, 0xa7, 0xd5, 0x44, 0x31, 0xa0, 0xd2, 0x43,
     0x24, 0xb5, 0xc7, 0x56, 0x23, 0xb2, 0xc0, 0x51,
     0x2a, 0xbb, 0xc9, 0x58, 0x2d, 0xbc, 0xce, 0x5f,
     0x70, 0xe1, 0x93, 0x02, 0x77, 0xe6, 0x94, 0x05,
     0x7e, 0xef, 0x9d, 0x0c, 0x79, 0xe8, 0x9a, 0x0b,
     0x6c, 0xfd, 0x8f, 0x1e, 0x6b, 0xfa, 0x88, 0x19,
     0x62, 0xf3, 0x81, 0x10, 0x65, 0xf4, 0x86, 0x17,
     0x48, 0xd9, 0xab, 0x3a, 0x4f, 0xde, 0xac, 0x3d,
     0x46, 0xd7, 0xa5, 0x34, 0x41, 0xd0, 0xa2, 0x33,
     0x54, 0xc5, 0xb7, 0x26, 0x53, 0xc2, 0xb0, 0x21,
     0x5a, 0xcb, 0xb9, 0x28, 0x5d, 0xcc, 0xbe, 0x2f,
     0xe0, 0x71, 0x03, 0x92, 0xe7, 0x76, 0x04, 0x95,
     0xee, 0x7f, 0x0d, 0x9c, 0xe9, 0x78, 0x0a, 0x9b,
     0xfc, 0x6d, 0x1f, 0x8e, 0xfb, 0x6a, 0x18, 0x89,
     0xf2, 0x63, 0x11, 0x80, 0xf5, 0x64, 0x16, 0x87,
     0xd8, 0x49, 0x3b, 0xaa, 0xdf, 0x4e, 0x3c, 0xad,
     0xd6, 0x47, 0x35, 0xa4, 0xd1, 0x40, 0x32, 0xa3,
     0xc4, 0x55, 0x27, 0xb6, 0xc3, 0x52, 0x20, 0xb1,
     0xca, 0x5b, 0x29, 0xb8, 0xcd, 0x5c, 0x2e, 0xbf,
     0x90, 0x01, 0x73, 0xe2, 0x97, 0x06, 0x74, 0xe5,
     0x9e, 0x0f, 0x7d, 0xec, 0x99, 0x08, 0x7a, 0xeb,
     0x8c, 0x1d, 0x6f, 0xfe, 0x8b, 0x1a, 0x68, 0xf9,
     0x82, 0x13, 0x61, 0xf0, 0x85, 0x14, 0x66, 0xf7,
     0xa8, 0x39, 0x4b, 0xda, 0xaf, 0x3e, 0x4c, 0xdd,
     0xa6, 0x37, 0x45, 0xd4, 0xa1, 0x30, 0x42, 0xd3,
     0xb4, 0x25, 0x57, 0xc6, 0xb3, 0x22, 0x50, 0xc1,
     0xba, 0x2b, 0x59, 0xc8, 0xbd, 0x2c, 0x5e, 0xcf]"

definition vds_crc32_table :: "u32 list" where
  "vds_crc32_table =
    [0x00000000, 0x77073096, 0xee0e612c, 0x990951ba,
     0x076dc419, 0x706af48f, 0xe963a535, 0x9e6495a3,
     0x0edb8832, 0x79dcb8a4, 0xe0d5e91e, 0x97d2d988,
     0x09b64c2b, 0x7eb17cbd, 0xe7b82d07, 0x90bf1d91,
     0x1db71064, 0x6ab020f2, 0xf3b97148, 0x84be41de,
     0x1adad47d, 0x6ddde4eb, 0xf4d4b551, 0x83d385c7,
     0x136c9856, 0x646ba8c0, 0xfd62f97a, 0x8a65c9ec,
     0x14015c4f, 0x63066cd9, 0xfa0f3d63, 0x8d080df5,
     0x3b6e20c8, 0x4c69105e, 0xd56041e4, 0xa2677172,
     0x3c03e4d1, 0x4b04d447, 0xd20d85fd, 0xa50ab56b,
     0x35b5a8fa, 0x42b2986c, 0xdbbbc9d6, 0xacbcf940,
     0x32d86ce3, 0x45df5c75, 0xdcd60dcf, 0xabd13d59,
     0x26d930ac, 0x51de003a, 0xc8d75180, 0xbfd06116,
     0x21b4f4b5, 0x56b3c423, 0xcfba9599, 0xb8bda50f,
     0x2802b89e, 0x5f058808, 0xc60cd9b2, 0xb10be924,
     0x2f6f7c87, 0x58684c11, 0xc1611dab, 0xb6662d3d,
     0x76dc4190, 0x01db7106, 0x98d220bc, 0xefd5102a,
     0x71b18589, 0x06b6b51f, 0x9fbfe4a5, 0xe8b8d433,
     0x7807c9a2, 0x0f00f934, 0x9609a88e, 0xe10e9818,
     0x7f6a0dbb, 0x086d3d2d, 0x91646c97, 0xe6635c01,
     0x6b6b51f4, 0x1c6c6162, 0x856530d8, 0xf262004e,
     0x6c0695ed, 0x1b01a57b, 0x8208f4c1, 0xf50fc457,
     0x65b0d9c6, 0x12b7e950, 0x8bbeb8ea, 0xfcb9887c,
     0x62dd1ddf, 0x15da2d49, 0x8cd37cf3, 0xfbd44c65,
     0x4db26158, 0x3ab551ce, 0xa3bc0074, 0xd4bb30e2,
     0x4adfa541, 0x3dd895d7, 0xa4d1c46d, 0xd3d6f4fb,
     0x4369e96a, 0x346ed9fc, 0xad678846, 0xda60b8d0,
     0x44042d73, 0x33031de5, 0xaa0a4c5f, 0xdd0d7cc9,
     0x5005713c, 0x270241aa, 0xbe0b1010, 0xc90c2086,
     0x5768b525, 0x206f85b3, 0xb966d409, 0xce61e49f,
     0x5edef90e, 0x29d9c998, 0xb0d09822, 0xc7d7a8b4,
     0x59b33d17, 0x2eb40d81, 0xb7bd5c3b, 0xc0ba6cad,
     0xedb88320, 0x9abfb3b6, 0x03b6e20c, 0x74b1d29a,
     0xead54739, 0x9dd277af, 0x04db2615, 0x73dc1683,
     0xe3630b12, 0x94643b84, 0x0d6d6a3e, 0x7a6a5aa8,
     0xe40ecf0b, 0x9309ff9d, 0x0a00ae27, 0x7d079eb1,
     0xf00f9344, 0x8708a3d2, 0x1e01f268, 0x6906c2fe,
     0xf762575d, 0x806567cb, 0x196c3671, 0x6e6b06e7,
     0xfed41b76, 0x89d32be0, 0x10da7a5a, 0x67dd4acc,
     0xf9b9df6f, 0x8ebeeff9, 0x17b7be43, 0x60b08ed5,
     0xd6d6a3e8, 0xa1d1937e, 0x38d8c2c4, 0x4fdff252,
     0xd1bb67f1, 0xa6bc5767, 0x3fb506dd, 0x48b2364b,
     0xd80d2bda, 0xaf0a1b4c, 0x36034af6, 0x41047a60,
     0xdf60efc3, 0xa867df55, 0x316e8eef, 0x4669be79,
     0xcb61b38c, 0xbc66831a, 0x256fd2a0, 0x5268e236,
     0xcc0c7795, 0xbb0b4703, 0x220216b9, 0x5505262f,
     0xc5ba3bbe, 0xb2bd0b28, 0x2bb45a92, 0x5cb36a04,
     0xc2d7ffa7, 0xb5d0cf31, 0x2cd99e8b, 0x5bdeae1d,
     0x9b64c2b0, 0xec63f226, 0x756aa39c, 0x026d930a,
     0x9c0906a9, 0xeb0e363f, 0x72076785, 0x05005713,
     0x95bf4a82, 0xe2b87a14, 0x7bb12bae, 0x0cb61b38,
     0x92d28e9b, 0xe5d5be0d, 0x7cdcefb7, 0x0bdbdf21,
     0x86d3d2d4, 0xf1d4e242, 0x68ddb3f8, 0x1fda836e,
     0x81be16cd, 0xf6b9265b, 0x6fb077e1, 0x18b74777,
     0x88085ae6, 0xff0f6a70, 0x66063bca, 0x11010b5c,
     0x8f659eff, 0xf862ae69, 0x616bffd3, 0x166ccf45,
     0xa00ae278, 0xd70dd2ee, 0x4e048354, 0x3903b3c2,
     0xa7672661, 0xd06016f7, 0x4969474d, 0x3e6e77db,
     0xaed16a4a, 0xd9d65adc, 0x40df0b66, 0x37d83bf0,
     0xa9bcae53, 0xdebb9ec5, 0x47b2cf7f, 0x30b5ffe9,
     0xbdbdf21c, 0xcabac28a, 0x53b39330, 0x24b4a3a6,
     0xbad03605, 0xcdd70693, 0x54de5729, 0x23d967bf,
     0xb3667a2e, 0xc4614ab8, 0x5d681b02, 0x2a6f2b94,
     0xb40bbe37, 0xc30c8ea1, 0x5a05df1b, 0x2d02ef8d]"

section \<open>Table-driven reflected CRCs\<close>

text \<open>
  The state of a reflected CRC is shifted to the right; the polynomial (reflected, with its
  top coefficient in the most significant bit) is added when a 1 is shifted out.
\<close>

definition crc_step :: "'a::len word \<Rightarrow> 'a word \<Rightarrow> 'a word" where
  "crc_step poly s = (if odd s then drop_bit 1 s XOR poly else drop_bit 1 s)"

definition crc_byte :: "'a::len word \<Rightarrow> 'a word \<Rightarrow> u8 \<Rightarrow> 'a word" where
  "crc_byte poly s b = (crc_step poly ^^ 8) (s XOR ucast b)"

definition crc_ref :: "'a::len word \<Rightarrow> 'a word \<Rightarrow> bytes \<Rightarrow> 'a word" where
  "crc_ref poly s bs = foldl (crc_byte poly) s bs"

lemma crc_ref_append: "crc_ref p s (xs @ ys) = crc_ref p (crc_ref p s xs) ys"
  by (simp add: crc_ref_def)

lemma drop_bit_xor_word:
  "drop_bit n (a XOR b) = drop_bit n a XOR drop_bit n (b :: 'a::len word)"
  by (rule drop_bit_xor)

lemma odd_xor_word: "odd (a XOR b :: 'a::len word) \<longleftrightarrow> odd a \<noteq> odd b"
  using bit_xor_iff [of a b 0] by (simp add: bit_0)

lemma crc_step_xor: "crc_step p (a XOR b) = crc_step p a XOR crc_step p b"
  by (simp add: crc_step_def odd_xor_word drop_bit_xor_word ac_simps)

lemma crc_steps_xor:
  "(crc_step p ^^ n) (a XOR b) = (crc_step p ^^ n) a XOR (crc_step p ^^ n) b"
  by (induction n) (simp_all add: crc_step_xor)

lemma crc_step_zero [simp]: "crc_step p 0 = 0"
  by (simp add: crc_step_def)

lemma crc_steps_zero [simp]: "(crc_step p ^^ n) 0 = 0"
  by (induction n) simp_all

text \<open>Bits above the ones shifted out move down unchanged.\<close>

lemma crc_step_even: "even s \<Longrightarrow> crc_step p s = drop_bit 1 s"
  by (simp add: crc_step_def)

lemma crc_steps_shift:
  "take_bit n s = 0 \<Longrightarrow> (crc_step p ^^ n) s = drop_bit n (s :: 'a::len word)"
proof (induction n arbitrary: s)
  case 0
  then show ?case by simp
next
  case (Suc n)
  have b: "\<not> bit s k" if "k < Suc n" for k
    using Suc.prems that by (metis bit_0_eq bit_take_bit_iff bot_apply bot_bool_def)
  have ev: "even s" using b [of 0] by (simp add: bit_0)
  have "take_bit n (drop_bit 1 s) = 0"
    by (rule bit_word_eqI) (auto simp: bit_take_bit_iff bit_drop_bit_eq b)
  then have "(crc_step p ^^ n) (drop_bit 1 s) = drop_bit n (drop_bit 1 s)"
    by (rule Suc.IH)
  then show ?case
    using ev by (simp add: funpow_swap1 crc_step_even del: drop_bit_Suc)
qed

lemma crc_steps_split:
  "(crc_step p ^^ 8) s = (crc_step p ^^ 8) (take_bit 8 s) XOR drop_bit 8 (s :: 'a::len word)"
proof -
  have split: "s = take_bit 8 s XOR (s AND NOT (mask 8))"
    by (rule bit_word_eqI) (auto simp: bit_xor_iff bit_take_bit_iff bit_and_iff bit_not_iff bit_mask_iff)
  have hi0: "take_bit 8 (s AND NOT (mask 8)) = 0"
    by (rule bit_word_eqI) (auto simp: bit_take_bit_iff bit_and_iff bit_not_iff bit_mask_iff)
  have hi: "drop_bit 8 (s AND NOT (mask 8)) = drop_bit 8 s"
    by (rule bit_word_eqI) (auto simp: bit_drop_bit_eq bit_and_iff bit_not_iff bit_mask_iff
        dest: bit_imp_le_length)
  have "(crc_step p ^^ 8) s =
      (crc_step p ^^ 8) (take_bit 8 s) XOR (crc_step p ^^ 8) (s AND NOT (mask 8))"
    by (subst split) (rule crc_steps_xor)
  then show ?thesis using hi0 hi by (simp only: crc_steps_shift)
qed

lemma drop_bit_8_ucast_byte [simp]: "drop_bit 8 (ucast (b :: u8) :: 'a::len word) = 0"
  by (rule bit_word_eqI) (auto simp: bit_drop_bit_eq bit_ucast_iff dest: bit_imp_le_length)

locale reflected_crc =
  fixes poly :: "'a::len word" and tab :: "'a word list"
  assumes width: "8 \<le> LENGTH('a)"
    and poly_msb: "bit poly (LENGTH('a) - 1)"
    and tab_len: "length tab = 256"
    and tab_0: "tab ! 0 = 0"
    and tab_1: "tab ! 1 = (crc_step poly ^^ 8) 1"
    and tab_evens: "map (crc_step poly) (evens tab) = take 128 tab"
    and tab_odds: "odds tab = map (\<lambda>x. x XOR tab ! 1) (evens tab)"
begin

lemma tab_even: "y < 128 \<Longrightarrow> crc_step poly (tab ! (2 * y)) = tab ! y"
  using arg_cong [OF tab_evens, of "\<lambda>l. l ! y"] by (simp add: tab_len evens_nth)

lemma tab_odd: "y < 128 \<Longrightarrow> tab ! (2 * y + 1) = tab ! (2 * y) XOR tab ! 1"
  using arg_cong [OF tab_odds, of "\<lambda>l. l ! y"] odds_nth [of y tab]
  by (simp add: tab_len evens_nth)

lemma step_inj: "crc_step poly a = crc_step poly b \<Longrightarrow> a = b"
proof -
  assume eq: "crc_step poly a = crc_step poly b"
  define d where "d = a XOR b"
  have "crc_step poly d = 0" using eq by (simp add: d_def crc_step_xor)
  moreover have "bit (crc_step poly d) (LENGTH('a) - 1)" if "odd d"
    using that poly_msb by (simp add: crc_step_def bit_xor_iff bit_drop_bit_eq)
  ultimately have ev: "even d" by auto
  then have "drop_bit 1 d = 0" using \<open>crc_step poly d = 0\<close> by (simp add: crc_step_def)
  then have "d div 2 = 0" by (simp add: drop_bit_Suc)
  with ev have "d = 0" by (metis even_iff_mod_2_eq_zero mod_mult_div_eq mult_zero_right add_0)
  then show "a = b" by (simp add: d_def)
qed

lemma steps_inj: "(crc_step poly ^^ n) a = (crc_step poly ^^ n) b \<longleftrightarrow> a = b"
  by (induction n arbitrary: a b) (auto dest: step_inj)

lemma table_entry: "k < 256 \<Longrightarrow> tab ! k = (crc_step poly ^^ 8) (of_nat k)"
proof (induction k rule: less_induct)
  case (less k)
  define y where "y = k div 2"
  have y: "y < 128" using less.prems by (simp add: y_def)
  have ev: "tab ! (2 * y) = (crc_step poly ^^ 8) (of_nat (2 * y))"
  proof (cases "y = 0")
    case True
    then show ?thesis by (simp add: tab_0)
  next
    case False
    have "crc_step poly (of_nat (2 * y) :: 'a word) = of_nat y"
    proof -
      have lt: "2 * y < 2 ^ LENGTH('a)"
      proof -
        have "(2::nat) ^ 8 \<le> 2 ^ LENGTH('a)" using width by (rule power_increasing) simp
        then show ?thesis using y by simp
      qed
      have "even (of_nat (2 * y) :: 'a word)" by simp
      moreover have "drop_bit 1 (of_nat (2 * y) :: 'a word) = of_nat y"
        using drop_bit_of_nat_word [OF lt] by simp
      ultimately show ?thesis by (simp only: crc_step_even)
    qed
    then have "crc_step poly ((crc_step poly ^^ 8) (of_nat (2 * y))) = (crc_step poly ^^ 8) (of_nat y)"
      by (metis funpow_swap1)
    also have "\<dots> = tab ! y"
      using less.IH [of y] False y by (simp add: y_def)
    also have "\<dots> = crc_step poly (tab ! (2 * y))"
      using tab_even [OF y] by simp
    finally show ?thesis by (metis step_inj)
  qed
  show ?case
  proof (cases "even k")
    case True
    then have "k = 2 * y" by (simp add: y_def)
    with ev show ?thesis by simp
  next
    case False
    then have k: "k = 2 * y + 1" by (simp add: y_def)
    have "(of_nat (2 * y) :: 'a word) XOR 1 = of_nat (2 * y + 1)"
      by (simp add: xor_one_eq)
    then show ?thesis
      using tab_odd [OF y] by (simp only: k ev tab_1 flip: crc_steps_xor)
  qed
qed

text \<open>The state is split into its low byte, which indexes the table, and the rest.\<close>

lemma table_step:
  "(crc_step poly ^^ 8) s = tab ! unat (s AND 0xff) XOR drop_bit 8 s"
proof -
  have "(crc_step poly ^^ 8) (take_bit 8 s) = tab ! unat (take_bit 8 s)"
    using table_entry [OF unat_take_bit_8, of s] by (simp only: of_nat_unat ucast_id)
  then show ?thesis by (subst crc_steps_split) (simp only: and_0xff)
qed

lemma table_byte:
  "crc_byte poly s b = tab ! unat ((s XOR ucast b) AND 0xff) XOR drop_bit 8 s"
  unfolding crc_byte_def table_step by (simp add: drop_bit_xor_word)

lemma crc_byte_inj_state: "crc_byte poly s b = crc_byte poly t b \<longleftrightarrow> s = t"
  by (simp add: crc_byte_def steps_inj)

lemma crc_byte_inj_byte: "crc_byte poly s b = crc_byte poly s c \<longleftrightarrow> b = c"
proof -
  have "(ucast b :: 'a word) = ucast c \<longleftrightarrow> b = c"
    using width by (rule ucast_byte_inj)
  then show ?thesis by (simp add: crc_byte_def steps_inj)
qed

lemma crc_ref_inj_state: "crc_ref poly s bs = crc_ref poly t bs \<longleftrightarrow> s = t"
  by (induction bs arbitrary: s t) (simp_all add: crc_ref_def crc_byte_inj_state)

text \<open>A message that differs from another in one byte has another CRC.\<close>

lemma crc_ref_one_byte:
  "b \<noteq> c \<Longrightarrow> crc_ref poly s (xs @ b # ys) \<noteq> crc_ref poly s (xs @ c # ys)"
  by (simp add: crc_ref_def crc_ref_inj_state [unfolded crc_ref_def] crc_byte_inj_byte)

lemma index_in_table: "unat ((s XOR ucast b) AND (0xff :: 'a word)) < length tab"
  by (simp only: and_0xff tab_len unat_take_bit_8)

end

section \<open>Interpretations on the tables of the code\<close>

definition rohc_poly :: u8 where "rohc_poly = 0xe0"
definition crc32_poly :: u32 where "crc32_poly = 0xedb88320"


lemmas crc_eval = crc_step_def rohc_poly_def crc32_poly_def

lemma crc8_evens: "map (crc_step rohc_poly) (evens gCrc8Table) = take 128 gCrc8Table"
  by (simp add: gCrc8Table_def crc_eval)

lemma crc8_odds: "odds gCrc8Table = map (\<lambda>x. x XOR gCrc8Table ! 1) (evens gCrc8Table)"
  by (simp add: gCrc8Table_def)

lemma crc32_evens: "map (crc_step crc32_poly) (evens vds_crc32_table) = take 128 vds_crc32_table"
  by (simp add: vds_crc32_table_def crc_eval)

lemma crc32_odds:
  "odds vds_crc32_table = map (\<lambda>x. x XOR vds_crc32_table ! 1) (evens vds_crc32_table)"
  by (simp add: vds_crc32_table_def)

lemma r_crctable_same: "r_crctable = gCrc8Table"
  by (simp add: r_crctable_def gCrc8Table_def)

interpretation crc8: reflected_crc rohc_poly gCrc8Table
proof unfold_locales
  show "bit rohc_poly (LENGTH(8) - 1)" by (simp add: rohc_poly_def)
  show "gCrc8Table ! 1 = (crc_step rohc_poly ^^ 8) 1"
    by (simp add: gCrc8Table_def crc_eval funpow_8)
qed (simp_all add: crc8_evens crc8_odds, simp_all add: gCrc8Table_def)

interpretation crc32: reflected_crc crc32_poly vds_crc32_table
proof unfold_locales
  show "bit crc32_poly (LENGTH(32) - 1)" by (simp add: crc32_poly_def)
  show "vds_crc32_table ! 1 = (crc_step crc32_poly ^^ 8) 1"
    by (simp add: vds_crc32_table_def crc_eval funpow_8)
qed (simp_all add: crc32_evens crc32_odds, simp_all add: vds_crc32_table_def)

section \<open>The frame check sequence of the multiplexer\<close>

text \<open>
  The two loops read \<open>length\<close> bytes at \<open>data\<close>; the list holds those bytes. The received
  checksum is run through the table after them and the result compared with the constant.
\<close>

definition fcs_run :: "u8 \<Rightarrow> bytes \<Rightarrow> u8" where
  "fcs_run fcs data = foldl (\<lambda>fcs c. r_crctable ! unat (fcs XOR c)) fcs data"

definition at_CmuxCheckFcs :: "bytes \<Rightarrow> u8 \<Rightarrow> bool" where
  "at_CmuxCheckFcs data crc =
     (let fcs = fcs_run 0xff data;
          fcs = r_crctable ! unat (fcs XOR crc)
      in if fcs = 0xcf then True else False)"

definition at_CmuxCalcFcs :: "bytes \<Rightarrow> u8" where
  "at_CmuxCalcFcs data = 0xff - fcs_run 0xff data"

lemma drop_bit_8_byte [simp]: "drop_bit 8 (s :: u8) = 0"
  by (rule bit_word_eqI) (auto simp: bit_drop_bit_eq dest: bit_imp_le_length)

lemma take_bit_8_byte [simp]: "take_bit 8 (s :: u8) = s"
  by (rule bit_word_eqI) (auto simp: bit_take_bit_iff dest: bit_imp_le_length)

lemma r_crctable_byte: "r_crctable ! unat (s XOR b) = crc_byte rohc_poly s b"
  by (simp add: r_crctable_same crc8.table_byte and_0xff)

lemma fcs_run_ref: "fcs_run s data = crc_ref rohc_poly s data"
  by (simp add: fcs_run_def crc_ref_def r_crctable_byte)

lemma byte_minus: "0xff - s = NOT (s :: u8)"
proof -
  have "(0xff :: u8) = - 1" by simp
  then show ?thesis by (simp only: not_eq_complement) simp
qed

lemma r_crctable_0: "r_crctable ! unat s = crc_byte rohc_poly s 0"
  using r_crctable_byte [of s 0] by simp

lemma table_magic_ff: "crc_byte rohc_poly 0xff 0 = 0xcf"
proof -
  have "r_crctable ! unat (0xff :: u8) = 0xcf" by (simp add: r_crctable_def)
  then show ?thesis by (simp only: r_crctable_0)
qed

lemma table_magic: "r_crctable ! unat (x :: u8) = 0xcf \<longleftrightarrow> x = 0xff"
  using crc8.crc_byte_inj_state [of x 0 "0xff"]
  by (simp only: r_crctable_0 table_magic_ff)

lemma xor_not_self: "s XOR c = 0xff \<longleftrightarrow> c = 0xff - (s :: u8)"
proof -
  have m: "(0xff :: u8) = - 1" by simp
  have "s XOR c = - 1 \<longleftrightarrow> c = NOT s"
  proof
    assume "s XOR c = - 1"
    then have "s XOR (s XOR c) = s XOR - 1" by simp
    then show "c = NOT s" by simp
  qed simp
  then show ?thesis unfolding byte_minus by (simp only: m)
qed

lemma fcs_accepts [simp]: "at_CmuxCheckFcs data (at_CmuxCalcFcs data)"
  by (simp add: at_CmuxCheckFcs_def at_CmuxCalcFcs_def table_magic xor_not_self)

text \<open>The receiver accepts a checksum exactly when it is the one the sender computes.\<close>

theorem fcs_check_iff_calc: "at_CmuxCheckFcs data crc \<longleftrightarrow> crc = at_CmuxCalcFcs data"
  by (simp add: at_CmuxCheckFcs_def at_CmuxCalcFcs_def table_magic xor_not_self)

text \<open>A frame header damaged in one byte never passes the check of the original.\<close>

theorem fcs_detects_one_byte:
  assumes "b \<noteq> c"
  shows "\<not> at_CmuxCheckFcs (xs @ c # ys) (at_CmuxCalcFcs (xs @ b # ys))"
proof -
  have "fcs_run 0xff (xs @ b # ys) \<noteq> fcs_run 0xff (xs @ c # ys)"
    using crc8.crc_ref_one_byte [OF assms] by (simp add: fcs_run_ref)
  then show ?thesis
    by (simp add: at_CmuxCheckFcs_def at_CmuxCalcFcs_def table_magic xor_not_self)
qed

theorem fcs_detects_one_byte_witness:
  "(0x05 :: u8) \<noteq> 0x07 \<and> \<not> at_CmuxCheckFcs [0x07, 0xef, 0x0b] (at_CmuxCalcFcs [0x05, 0xef, 0x0b])"
  using fcs_detects_one_byte [where b = "0x05" and c = "0x07" and xs = "[]" and ys = "[0xef, 0x0b]"]
  by simp

section \<open>CRC-32\<close>

text \<open>
  A pointer that may be NULL is an option; the \<open>len\<close> bytes it points to are the list.
\<close>

definition crc32_run :: "u32 \<Rightarrow> bytes \<Rightarrow> u32" where
  "crc32_run crc bs =
     foldl (\<lambda>crc b. vds_crc32_table ! unat ((crc XOR ucast b) AND 0xff) XOR drop_bit 8 crc) crc bs"

definition crc32Init :: u32 where
  "crc32Init = 0"

definition crc32Update :: "u32 \<Rightarrow> bytes option \<Rightarrow> u32" where
  "crc32Update crc p =
     (case p of None \<Rightarrow> crc
      | Some bs \<Rightarrow>
          if length bs = 0 then crc
          else crc32_run (crc XOR 0xffffffff) bs XOR 0xffffffff)"

definition crc32Calc :: "bytes option \<Rightarrow> u32" where
  "crc32Calc p =
     (case p of None \<Rightarrow> 0
      | Some bs \<Rightarrow>
          if length bs = 0 then 0
          else crc32_run (0 XOR 0xffffffff) bs XOR 0xffffffff)"

definition crc32VariantInit :: u32 where
  "crc32VariantInit = 0"

definition crc32VariantUpdate :: "u32 \<Rightarrow> bytes option \<Rightarrow> u32" where
  "crc32VariantUpdate crc p =
     (case p of None \<Rightarrow> crc | Some bs \<Rightarrow> if length bs = 0 then crc else crc32_run crc bs)"

definition crc32VariantCalc :: "bytes option \<Rightarrow> u32" where
  "crc32VariantCalc p =
     (case p of None \<Rightarrow> 0 | Some bs \<Rightarrow> if length bs = 0 then 0 else crc32_run 0 bs)"

lemma crc32_run_ref: "crc32_run crc bs = crc_ref crc32_poly crc bs"
  by (simp add: crc32_run_def crc_ref_def fun_eq_iff flip: crc32.table_byte)

lemma crc_ref_Nil [simp]: "crc_ref p s [] = s"
  by (simp add: crc_ref_def)

text \<open>
  The table-driven CRC-32 of a message fed in pieces is the bitwise CRC of the whole
  message, with both complements; the one-shot routine is the update from the initial value.
\<close>

theorem crc32_pieces:
  "crc32Update (crc32Update c (Some xs)) (Some ys) = crc32Update c (Some (xs @ ys)) \<and>
   crc32Update c (Some xs) = (NOT (crc_ref crc32_poly (NOT c) xs)) \<and>
   crc32Calc p = crc32Update crc32Init p"
proof -
  have compl: "x XOR 0xffffffff = NOT x" for x :: u32
  proof -
    have "(0xffffffff :: u32) = - 1" by simp
    then show ?thesis by (simp only: bit.xor_one_right)
  qed
  show ?thesis
    by (auto simp: crc32Update_def crc32Calc_def crc32Init_def crc32_run_ref compl crc_ref_append
        split: option.splits)
qed

text \<open>The variant leaves both complements out.\<close>

lemma crc32Variant_pieces:
  "crc32VariantUpdate (crc32VariantUpdate c (Some xs)) (Some ys) =
     crc32VariantUpdate c (Some (xs @ ys)) \<and>
   crc32VariantCalc p = crc32VariantUpdate crc32VariantInit p"
  by (auto simp: crc32VariantUpdate_def crc32VariantCalc_def crc32VariantInit_def crc32_run_ref
      crc_ref_append split: option.splits)

section \<open>ROHC CRC-8\<close>

definition crc8_run :: "u8 \<Rightarrow> bytes \<Rightarrow> u8" where
  "crc8_run crc bs = foldl (\<lambda>crc b. gCrc8Table ! unat ((crc XOR b) AND 0xff)) crc bs"

definition crc8RohcInit :: u8 where
  "crc8RohcInit = 0xff"

definition crc8RohcUpdate :: "u8 \<Rightarrow> bytes option \<Rightarrow> u8" where
  "crc8RohcUpdate crc p =
     (case p of None \<Rightarrow> crc | Some bs \<Rightarrow> if length bs = 0 then crc else crc8_run crc bs)"

definition crc8RohcCalc :: "bytes option \<Rightarrow> u8" where
  "crc8RohcCalc p =
     (case p of None \<Rightarrow> 0xff | Some bs \<Rightarrow> if length bs = 0 then 0xff else crc8_run 0xff bs)"

lemma crc8_run_fcs: "crc8_run c bs = fcs_run c bs"
  by (simp add: crc8_run_def fcs_run_def and_0xff r_crctable_same)

text \<open>The multiplexer's checksum is the complement of the ROHC CRC-8 of the same bytes.\<close>

lemma fcs_is_complemented_rohc: "at_CmuxCalcFcs data = NOT (crc8RohcCalc (Some data))"
  by (simp add: at_CmuxCalcFcs_def crc8RohcCalc_def crc8_run_fcs byte_minus)
    (simp add: fcs_run_def)

section \<open>Bitwise CRC-16 of stored data\<close>

text \<open>
  The inner loop keeps the shifted byte \<open>c\<close> and the remainder \<open>crc2\<close> apart; their sum is the
  state of the reflected CRC.
\<close>

definition nv_bit :: "u16 \<times> u16 \<Rightarrow> u16 \<times> u16" where
  "nv_bit = (\<lambda>(crc2, c).
     (if (crc2 XOR c) AND 0x0001 \<noteq> 0 then drop_bit 1 crc2 XOR 0xA001 else drop_bit 1 crc2,
      drop_bit 1 c))"

definition crc16NvCalc :: "bytes \<Rightarrow> u16" where
  "crc16NvCalc p =
     foldl (\<lambda>crc b.
       let c = (crc XOR ucast b) AND 0xff;
           (crc2, c) = (nv_bit ^^ 8) (0, c)
       in drop_bit 8 crc XOR crc2) 0 p"

lemma and_1_odd: "x AND 1 \<noteq> 0 \<longleftrightarrow> odd (x :: 'a::len word)"
  by (simp add: and_one_eq odd_iff_mod_2_eq_one)

lemma nv_bit_step:
  "fst (nv_bit rc) XOR snd (nv_bit rc) = crc_step 0xA001 (fst rc XOR snd rc)"
proof -
  have "(fst rc XOR snd rc) AND 0x0001 \<noteq> 0 \<longleftrightarrow> odd (fst rc XOR snd rc)"
    using and_1_odd by simp
  then show ?thesis
    by (cases rc) (simp add: nv_bit_def crc_step_def drop_bit_xor_word ac_simps)
qed

lemma nv_bits:
  "fst ((nv_bit ^^ n) rc) XOR snd ((nv_bit ^^ n) rc) = (crc_step 0xA001 ^^ n) (fst rc XOR snd rc)"
  by (induction n) (simp_all add: nv_bit_step)

lemma nv_bits_snd: "snd ((nv_bit ^^ n) rc) = drop_bit n (snd rc)"
  by (induction n) (simp_all add: nv_bit_def case_prod_unfold)

lemma nv_byte:
  "drop_bit 8 crc XOR fst ((nv_bit ^^ 8) (0, (crc XOR ucast b) AND 0xff)) = crc_byte 0xA001 crc b"
proof -
  let ?c = "(crc XOR ucast b) AND 0xff :: u16"
  have z: "snd ((nv_bit ^^ 8) (0, ?c)) = 0"
    unfolding nv_bits_snd and_0xff snd_conv
    by (rule bit_word_eqI) (auto simp: bit_drop_bit_eq bit_take_bit_iff bit_xor_iff)
  have "fst ((nv_bit ^^ 8) (0, ?c)) = (crc_step 0xA001 ^^ 8) ?c"
    using nv_bits [of 8 "(0, ?c)"] by (simp only: z) simp
  then show ?thesis
    using crc_steps_split [of "0xA001" "crc XOR ucast b"]
    by (simp add: crc_byte_def and_0xff drop_bit_xor_word ac_simps)
qed

text \<open>The split inner loop computes the reflected CRC-16 of polynomial 0xA001.\<close>

theorem crc16Nv_is_crc: "crc16NvCalc p = crc_ref 0xA001 0 p"
  by (simp add: crc16NvCalc_def crc_ref_def case_prod_unfold Let_def nv_byte fun_eq_iff)

section \<open>MSB-first CRC-16 of the ROM loader\<close>

definition romBsl_bit :: "u8 \<Rightarrow> u16 \<Rightarrow> u32 \<Rightarrow> u16" where
  "romBsl_bit b crc i =
     (let crc = (if crc AND 0x8000 \<noteq> 0 then push_bit 1 crc XOR 0x1021 else push_bit 1 crc)
      in if ucast b AND i \<noteq> 0 then crc XOR 0x1021 else crc)"

definition romBsl_byte :: "u16 \<Rightarrow> u8 \<Rightarrow> u16" where
  "romBsl_byte crc b = foldl (romBsl_bit b) crc [0x80, 0x40, 0x20, 0x10, 0x08, 0x04, 0x02, 0x01]"

definition romBslCrc16 :: "bytes \<Rightarrow> u16" where
  "romBslCrc16 p = foldl romBsl_byte 0 p"

definition romBslCrc16Check :: "bytes \<Rightarrow> bool" where
  "romBslCrc16Check p = (romBslCrc16 p = 0x00)"

lemma and_exp_bit: "x AND 2 ^ n \<noteq> 0 \<longleftrightarrow> bit (x :: 'a::len word) n"
  by (auto simp: and_exp_eq_0_iff_not_bit)

text \<open>A byte equal to the top byte of the state only shifts the state.\<close>

lemma romBsl_bit_match:
  "n < 8 \<Longrightarrow> bit crc 15 = bit b n \<Longrightarrow> romBsl_bit b crc (2 ^ n) = push_bit 1 crc"
  using and_exp_bit [of crc 15]
  by (auto simp: xor.assoc romBsl_bit_def and_exp_bit bit_ucast_iff)

lemma romBsl_byte_match:
  fixes s :: u16
  defines "b \<equiv> (ucast (drop_bit 8 s) :: u8)"
  shows "romBsl_byte s b = push_bit 8 s"
proof -
  define f where "f k = push_bit k s" for k
  have st: "romBsl_bit b (f k) (2 ^ (7 - k)) = f (Suc k)" if "k < 8" for k
  proof -
    have "bit (push_bit k s) 15 = bit b (7 - k)"
      using that by (auto simp: b_def bit_push_bit_iff bit_ucast_iff bit_drop_bit_eq)
    then have "romBsl_bit b (push_bit k s) (2 ^ (7 - k)) = push_bit 1 (push_bit k s)"
      by (intro romBsl_bit_match) auto
    then show ?thesis by (simp add: f_def)
  qed
  have "f 0 = s" by (simp add: f_def)
  moreover have "romBsl_byte (f 0) b = f 8"
    using st [of 0] st [of 1] st [of 2] st [of 3] st [of 4] st [of 5] st [of 6] st [of 7]
    by (simp add: romBsl_byte_def flip: numeral_2_eq_2)
  ultimately show ?thesis by (simp add: f_def)
qed

text \<open>A block followed by its own CRC-16, high byte first, passes the loader's check.\<close>

theorem romBsl_append_check:
  "romBslCrc16Check (p @ [ucast (drop_bit 8 (romBslCrc16 p)), ucast (romBslCrc16 p)])"
proof -
  define s where "s = romBslCrc16 p"
  have lo: "(ucast (drop_bit 8 (push_bit 8 s)) :: u8) = ucast s"
    by (rule bit_word_eqI) (auto simp: bit_ucast_iff bit_drop_bit_eq bit_push_bit_iff)
  have z: "push_bit 8 (push_bit 8 s) = 0"
    by (simp only: push_bit_push_bit) (rule bit_word_eqI, simp only: bit_push_bit_iff, simp)
  have "romBslCrc16 (p @ [ucast (drop_bit 8 s), ucast s]) =
      romBsl_byte (romBsl_byte s (ucast (drop_bit 8 s))) (ucast s)"
    by (simp add: romBslCrc16_def s_def)
  also have "\<dots> = 0"
    using romBsl_byte_match [of "push_bit 8 s"] by (simp only: romBsl_byte_match lo z)
  finally show ?thesis by (simp add: romBslCrc16Check_def s_def)
qed

end
