(* ===== verification/Ring_Buffer.thy ===== *)
theory Ring_Buffer
  imports Prelude
begin

text \<open>
  The ring buffer between the AT engine's output and the application
  (ModemApp/src/at_ringbuf.c). The fields have the code's types; the storage is the region
  \<open>bufPtr\<close> points to, \<open>None\<close> for NULL. An access outside the region makes an operation
  \<open>None\<close>. A locale states what a bounded byte queue promises; the ring buffer is an
  instance. The mutex only protects the update of \<open>count\<close>: the last section models the
  writer and the reader as two threads whose steps interleave.
\<close>

section \<open>State and operations\<close>

record AT_RING_BUF_S =
  rb_size :: u32
  inPoint :: u32
  outPoint :: u32
  bufPtr :: "bytes option"
  rb_count :: u32

definition AtRingBuf_Init :: "bytes option \<Rightarrow> u32 \<Rightarrow> AT_RING_BUF_S" where
  "AtRingBuf_Init pBuf sz =
     \<lparr>rb_size = sz, inPoint = 0, outPoint = 0, bufPtr = pBuf, rb_count = 0\<rparr>"

definition AtRingBuf_Reset :: "AT_RING_BUF_S \<Rightarrow> AT_RING_BUF_S" where
  "AtRingBuf_Reset rb = rb\<lparr>inPoint := 0, outPoint := 0, rb_count := 0\<rparr>"

definition AtRingBuf_IsInited :: "AT_RING_BUF_S \<Rightarrow> bool" where
  "AtRingBuf_IsInited rb \<longleftrightarrow> bufPtr rb \<noteq> None \<and> rb_size rb > 0"

definition AtRingBuf_Uninit :: "AT_RING_BUF_S \<Rightarrow> AT_RING_BUF_S" where
  "AtRingBuf_Uninit rb =
     rb\<lparr>bufPtr := None, rb_size := 0, inPoint := 0, outPoint := 0, rb_count := 0\<rparr>"

definition AtRingBuf_Space :: "AT_RING_BUF_S \<Rightarrow> u32" where
  "AtRingBuf_Space rb = rb_size rb - rb_count rb"

definition AtRingBuf_DataSize :: "AT_RING_BUF_S \<Rightarrow> u32" where
  "AtRingBuf_DataSize rb = rb_count rb"

text \<open>One pass of the loop of \<open>AtRingBuf_In\<close> and of \<open>AtRingBuf_Out\<close>.\<close>

definition rb_put1 :: "u8 \<Rightarrow> AT_RING_BUF_S \<Rightarrow> AT_RING_BUF_S option" where
  "rb_put1 c rb = do {
     m \<leftarrow> bufPtr rb;
     m \<leftarrow> wr m (unat (inPoint rb)) c;
     let p = inPoint rb + 1;
     Some (rb\<lparr>bufPtr := Some m, inPoint := if p \<ge> rb_size rb then 0 else p\<rparr>)
   }"

definition rb_get1 :: "AT_RING_BUF_S \<Rightarrow> (u8 \<times> AT_RING_BUF_S) option" where
  "rb_get1 rb = do {
     m \<leftarrow> bufPtr rb;
     c \<leftarrow> rd m (unat (outPoint rb));
     let p = outPoint rb + 1;
     Some (c, rb\<lparr>outPoint := if p \<ge> rb_size rb then 0 else p\<rparr>)
   }"

fun rb_in_loop :: "nat \<Rightarrow> nat \<Rightarrow> bytes \<Rightarrow> AT_RING_BUF_S \<Rightarrow> AT_RING_BUF_S option" where
  "rb_in_loop 0 i pData rb = Some rb"
| "rb_in_loop (Suc n) i pData rb = do {
     c \<leftarrow> rd pData i;
     rb \<leftarrow> rb_put1 c rb;
     rb_in_loop n (Suc i) pData rb
   }"

definition AtRingBuf_In :: "bytes \<Rightarrow> u32 \<Rightarrow> AT_RING_BUF_S \<Rightarrow> (u32 \<times> AT_RING_BUF_S) option" where
  "AtRingBuf_In pData len rb =
     (let space = AtRingBuf_Space rb;
          actual_size = (if space \<ge> len then len else space)
      in do {
        rb \<leftarrow> rb_in_loop (unat actual_size) 0 pData rb;
        Some (actual_size, rb\<lparr>rb_count := rb_count rb + actual_size\<rparr>)
      })"

fun rb_out_loop :: "nat \<Rightarrow> nat \<Rightarrow> bytes \<Rightarrow> AT_RING_BUF_S \<Rightarrow> (bytes \<times> AT_RING_BUF_S) option" where
  "rb_out_loop 0 i pBuf rb = Some (pBuf, rb)"
| "rb_out_loop (Suc n) i pBuf rb = do {
     (c, rb) \<leftarrow> rb_get1 rb;
     pBuf \<leftarrow> wr pBuf i c;
     rb_out_loop n (Suc i) pBuf rb
   }"

definition AtRingBuf_Out ::
  "bytes \<Rightarrow> u32 \<Rightarrow> AT_RING_BUF_S \<Rightarrow> (u32 \<times> bytes \<times> AT_RING_BUF_S) option" where
  "AtRingBuf_Out pBuf len rb =
     (let data_size = rb_count rb;
          actual_size = (if data_size > len then len else data_size)
      in do {
        (pBuf, rb) \<leftarrow> rb_out_loop (unat actual_size) 0 pBuf rb;
        Some (actual_size, pBuf, rb\<lparr>rb_count := rb_count rb - actual_size\<rparr>)
      })"

section \<open>The circular view\<close>

definition rview :: "bytes \<Rightarrow> nat \<Rightarrow> nat \<Rightarrow> nat \<Rightarrow> bytes" where
  "rview m sz b n = map (\<lambda>k. m ! ((b + k) mod sz)) [0..<n]"

lemma length_rview [simp]: "length (rview m sz b n) = n"
  by (simp add: rview_def)

lemma rview_0 [simp]: "rview m sz b 0 = []"
  by (simp add: rview_def)

lemma rview_mod: "rview m sz (b mod sz) n = rview m sz b n"
  by (simp add: rview_def mod_add_left_eq)

lemma rview_Cons: "rview m sz b (Suc n) = m ! (b mod sz) # rview m sz (Suc b) n"
proof -
  have "[0..<Suc n] = 0 # map Suc [0..<n]" by (simp add: map_Suc_upt upt_conv_Cons del: upt_Suc)
  then show ?thesis by (simp add: rview_def del: upt_Suc)
qed

lemma rview_write:
  assumes "n < sz" "sz \<le> length m"
  shows "rview (m[(b + n) mod sz := c]) sz b (Suc n) = rview m sz b n @ [c]"
proof -
  have ne: "(b + n) mod sz \<noteq> (b + k) mod sz" if "k < n" for k
  proof
    assume "(b + n) mod sz = (b + k) mod sz"
    then have "sz dvd (b + n) - (b + k)" by (simp add: mod_eq_dvd_iff_nat that less_imp_le)
    then have "sz dvd n - k" by simp
    then show False using that assms by (auto dest: dvd_imp_le)
  qed
  have "(b + n) mod sz < length m"
    using assms mod_less_divisor [of sz "b + n"] by linarith
  then show ?thesis using ne by (simp add: rview_def)
qed

section \<open>Invariant, content and the operations on them\<close>

text \<open>
  \<open>rb_view b w rb\<close>: the bytes from position \<open>b\<close> on, \<open>w\<close> of them; the layout holds when the
  read position is at \<open>b\<close> and the write position \<open>w\<close> bytes after it.
\<close>

definition rb_ok :: "AT_RING_BUF_S \<Rightarrow> bool" where
  "rb_ok rb \<longleftrightarrow>
     0 < rb_size rb \<and> outPoint rb < rb_size rb \<and> rb_count rb \<le> rb_size rb \<and>
     (\<exists>m. bufPtr rb = Some m \<and> unat (rb_size rb) \<le> length m) \<and>
     unat (inPoint rb) =
       (unat (outPoint rb) + unat (rb_count rb)) mod unat (rb_size rb)"

definition rb_content :: "AT_RING_BUF_S \<Rightarrow> bytes" where
  "rb_content rb =
     (case bufPtr rb of None \<Rightarrow> []
      | Some m \<Rightarrow> rview m (unat (rb_size rb)) (unat (outPoint rb)) (unat (rb_count rb)))"

definition rb_cap :: "AT_RING_BUF_S \<Rightarrow> nat" where
  "rb_cap rb = unat (rb_size rb)"

lemma unat_next:
  fixes p sz :: u32
  assumes "p < sz"
  shows "unat (if p + 1 \<ge> sz then 0 else p + 1) = Suc (unat p) mod unat sz"
proof -
  have lt: "unat p < unat sz" using assms by (simp add: word_less_nat_alt)
  have "unat sz < 2 ^ 32" using unsigned_less [of sz, where ?'a = nat] by simp
  then have s: "unat (p + 1) = Suc (unat p)"
    using lt unat_add_lem [of p 1] by simp
  show ?thesis
  proof (cases "sz \<le> p + 1")
    case True
    then have "Suc (unat p) = unat sz" using lt s by (simp add: word_le_nat_alt)
    then show ?thesis using True by simp
  qed (use s in \<open>simp add: word_le_nat_alt\<close>)
qed

lemma rb_put1_view:
  assumes "bufPtr rb = Some m" "unat (rb_size rb) \<le> length m" "0 < rb_size rb"
    and "unat (inPoint rb) = (b + w) mod unat (rb_size rb)" "w < unat (rb_size rb)"
  shows "\<exists>m' p. rb_put1 c rb = Some (rb\<lparr>bufPtr := Some m', inPoint := p\<rparr>) \<and>
    length m' = length m \<and> unat p = (b + Suc w) mod unat (rb_size rb) \<and>
    rview m' (unat (rb_size rb)) b (Suc w) = rview m (unat (rb_size rb)) b w @ [c]"
proof -
  let ?sz = "unat (rb_size rb)"
  have sz: "0 < ?sz" using assms(3) by (simp add: word_less_nat_alt)
  have in_lt: "unat (inPoint rb) < ?sz" using assms(4) sz by simp
  define m' where "m' = m[unat (inPoint rb) := c]"
  define p where "p = (if inPoint rb + 1 \<ge> rb_size rb then 0 else inPoint rb + 1)"
  have "wr m (unat (inPoint rb)) c = Some m'"
    using in_lt assms(2) by (simp add: m'_def wr_in)
  then have "rb_put1 c rb = Some (rb\<lparr>bufPtr := Some m', inPoint := p\<rparr>)"
    using assms(1) by (simp add: rb_put1_def p_def)
  moreover have "unat p = (b + Suc w) mod ?sz"
    using unat_next [of "inPoint rb" "rb_size rb"] in_lt assms(4)
    by (simp add: p_def word_less_nat_alt mod_Suc_eq)
  moreover have "rview m' ?sz b (Suc w) = rview m ?sz b w @ [c]"
    unfolding m'_def assms(4) using assms by (intro rview_write) auto
  ultimately show ?thesis by (intro exI [of _ m'] exI [of _ p]) (simp add: m'_def)
qed

lemma rb_in_loop_view:
  assumes "bufPtr rb = Some m" "unat (rb_size rb) \<le> length m" "0 < rb_size rb"
    and "unat (inPoint rb) = (b + w) mod unat (rb_size rb)" "w + n \<le> unat (rb_size rb)"
    and "i + n \<le> length d"
  shows "\<exists>m' p. rb_in_loop n i d rb = Some (rb\<lparr>bufPtr := Some m', inPoint := p\<rparr>) \<and>
    length m' = length m \<and> unat p = (b + (w + n)) mod unat (rb_size rb) \<and>
    rview m' (unat (rb_size rb)) b (w + n) =
       rview m (unat (rb_size rb)) b w @ take n (drop i d)"
  using assms
proof (induction n arbitrary: rb m w i)
  case 0
  then show ?case by (intro exI [of _ m] exI [of _ "inPoint rb"]) simp
next
  case (Suc n)
  from Suc.prems obtain m1 p1 where 1:
    "rb_put1 (d ! i) rb = Some (rb\<lparr>bufPtr := Some m1, inPoint := p1\<rparr>)"
    "length m1 = length m" "unat p1 = (b + Suc w) mod unat (rb_size rb)"
    "rview m1 (unat (rb_size rb)) b (Suc w) = rview m (unat (rb_size rb)) b w @ [d ! i]"
    using rb_put1_view [of rb m b w "d ! i"] by auto
  let ?rb1 = "rb\<lparr>bufPtr := Some m1, inPoint := p1\<rparr>"
  have "\<exists>m' p. rb_in_loop n (Suc i) d ?rb1 = Some (?rb1\<lparr>bufPtr := Some m', inPoint := p\<rparr>) \<and>
      length m' = length m1 \<and> unat p = (b + (Suc w + n)) mod unat (rb_size ?rb1) \<and>
      rview m' (unat (rb_size ?rb1)) b (Suc w + n) =
        rview m1 (unat (rb_size ?rb1)) b (Suc w) @ take n (drop (Suc i) d)"
    using Suc.prems 1 by (intro Suc.IH) auto
  moreover have "take (Suc n) (drop i d) = d ! i # take n (drop (Suc i) d)"
    using Suc.prems(6) by (simp flip: Cons_nth_drop_Suc)
  ultimately show ?case using 1 Suc.prems by (auto simp: rd_in)
qed

lemma rb_get1_view:
  assumes "bufPtr rb = Some m" "unat (rb_size rb) \<le> length m" "0 < rb_size rb"
    and "unat (outPoint rb) = b mod unat (rb_size rb)"
  shows "\<exists>p. rb_get1 rb = Some (m ! (b mod unat (rb_size rb)), rb\<lparr>outPoint := p\<rparr>) \<and>
    unat p = Suc b mod unat (rb_size rb)"
proof -
  let ?sz = "unat (rb_size rb)"
  have sz: "0 < ?sz" using assms(3) by (simp add: word_less_nat_alt)
  have out_lt: "unat (outPoint rb) < ?sz" using assms(4) sz by simp
  define p where "p = (if outPoint rb + 1 \<ge> rb_size rb then 0 else outPoint rb + 1)"
  have "rd m (unat (outPoint rb)) = Some (m ! (b mod ?sz))"
    using order_less_le_trans [OF out_lt assms(2)] by (simp add: rd_in flip: assms(4))
  then have "rb_get1 rb = Some (m ! (b mod ?sz), rb\<lparr>outPoint := p\<rparr>)"
    using assms(1) by (simp add: rb_get1_def p_def Let_def)
  moreover have "unat p = Suc b mod ?sz"
    using unat_next [of "outPoint rb" "rb_size rb"] out_lt assms(4)
    by (simp add: p_def word_less_nat_alt mod_Suc_eq)
  ultimately show ?thesis by auto
qed

lemma rb_out_loop_view:
  assumes "bufPtr rb = Some m" "unat (rb_size rb) \<le> length m" "0 < rb_size rb"
    and "unat (outPoint rb) = b mod unat (rb_size rb)" "i + n \<le> length d"
  shows "\<exists>p. rb_out_loop n i d rb =
       Some (take i d @ rview m (unat (rb_size rb)) b n @ drop (i + n) d, rb\<lparr>outPoint := p\<rparr>) \<and>
    unat p = (b + n) mod unat (rb_size rb)"
  using assms
proof (induction n arbitrary: rb b i d)
  case 0
  then show ?case by (intro exI [of _ "outPoint rb"]) simp
next
  case (Suc n)
  let ?c = "m ! (b mod unat (rb_size rb))"
  from Suc.prems obtain p1 where 1:
    "rb_get1 rb = Some (?c, rb\<lparr>outPoint := p1\<rparr>)" "unat p1 = Suc b mod unat (rb_size rb)"
    using rb_get1_view [of rb m b] by auto
  let ?rb1 = "rb\<lparr>outPoint := p1\<rparr>" and ?d1 = "d[i := ?c]"
  have "\<exists>p. rb_out_loop n (Suc i) ?d1 ?rb1 =
      Some (take (Suc i) ?d1 @ rview m (unat (rb_size ?rb1)) (Suc b) n @ drop (Suc i + n) ?d1,
        ?rb1\<lparr>outPoint := p\<rparr>) \<and>
      unat p = (Suc b + n) mod unat (rb_size ?rb1)"
    using Suc.prems 1 by (intro Suc.IH) auto
  moreover have "take (Suc i) ?d1 = take i d @ [?c]"
    using Suc.prems(5) by (simp add: take_Suc_snoc)
  ultimately show ?case using 1 Suc.prems by (auto simp: rview_Cons wr_in)
qed

text \<open>The two transfers on a well-formed buffer.\<close>

lemma rb_space: "rb_ok rb \<Longrightarrow> unat (AtRingBuf_Space rb) = rb_cap rb - length (rb_content rb)"
  by (auto simp: rb_ok_def AtRingBuf_Space_def rb_cap_def rb_content_def unat_sub)

lemma rb_room: "rb_ok rb \<Longrightarrow> length (rb_content rb) \<le> rb_cap rb"
  by (auto simp: rb_ok_def rb_cap_def rb_content_def word_le_nat_alt)

lemma unat_add_within:
  fixes a b c :: "'a::len word"
  shows "unat a + unat b \<le> unat c \<Longrightarrow> unat (a + b) = unat a + unat b"
  using order_le_less_trans [OF _ unsigned_less [of c, where ?'a = nat]]
  by (simp flip: unat_add_lem)

lemma unat_if_le: "unat (if b \<le> a then b else a) = min (unat a) (unat (b :: 'a::len word))"
  by (simp add: word_le_nat_alt)

lemma AtRingBuf_In_ok:
  assumes ok: "rb_ok rb" and len: "unat len \<le> length d"
  defines "k \<equiv> min (unat len) (unat (AtRingBuf_Space rb))"
  shows "\<exists>rb'. AtRingBuf_In d len rb = Some (of_nat k, rb') \<and> rb_ok rb' \<and> rb_cap rb' = rb_cap rb \<and>
    rb_content rb' = rb_content rb @ take k d"
proof -
  from ok obtain m where m: "bufPtr rb = Some m" "unat (rb_size rb) \<le> length m" "0 < rb_size rb"
    "rb_count rb \<le> rb_size rb" "outPoint rb < rb_size rb"
    and i: "unat (inPoint rb) = (unat (outPoint rb) + unat (rb_count rb)) mod unat (rb_size rb)"
    by (auto simp: rb_ok_def)
  define a where "a = (if AtRingBuf_Space rb \<ge> len then len else AtRingBuf_Space rb)"
  have ka: "unat a = k" by (simp add: a_def k_def unat_if_le min.commute)
  have fit: "unat (rb_count rb) + k \<le> unat (rb_size rb)"
    using m(4) by (simp add: k_def AtRingBuf_Space_def unat_sub word_le_nat_alt)
  have "0 + k \<le> length d" using len by (simp add: k_def)
  with rb_in_loop_view [OF m(1,2,3) i fit, of 0 d]
  obtain m' p where l: "rb_in_loop k 0 d rb = Some (rb\<lparr>bufPtr := Some m', inPoint := p\<rparr>)"
    "length m' = length m" "unat p = (unat (outPoint rb) + (unat (rb_count rb) + k)) mod unat (rb_size rb)"
    "rview m' (unat (rb_size rb)) (unat (outPoint rb)) (unat (rb_count rb) + k) =
       rview m (unat (rb_size rb)) (unat (outPoint rb)) (unat (rb_count rb)) @ take k d"
    by auto
  have sum: "unat (rb_count rb + a) = unat (rb_count rb) + k"
    using fit unat_add_within [of "rb_count rb" a "rb_size rb"] by (simp add: ka)
  let ?rb' = "rb\<lparr>bufPtr := Some m', inPoint := p, rb_count := rb_count rb + a\<rparr>"
  have "AtRingBuf_In d len rb = Some (of_nat k, ?rb')"
    using l(1) by (simp add: AtRingBuf_In_def ka flip: a_def) (simp flip: ka)
  moreover have "rb_ok ?rb'"
    using m l fit by (simp add: rb_ok_def sum word_le_nat_alt)
  ultimately show ?thesis
    using l m by (intro exI [of _ ?rb']) (simp add: rb_content_def rb_cap_def sum)
qed

lemma AtRingBuf_Out_ok:
  assumes ok: "rb_ok rb" and len: "unat len \<le> length d"
  defines "k \<equiv> min (unat len) (length (rb_content rb))"
  shows "\<exists>rb'. AtRingBuf_Out d len rb =
      Some (of_nat k, take k (rb_content rb) @ drop k d, rb') \<and> rb_ok rb' \<and> rb_cap rb' = rb_cap rb \<and>
    rb_content rb' = drop k (rb_content rb)"
proof -
  from ok obtain m where m: "bufPtr rb = Some m" "unat (rb_size rb) \<le> length m" "0 < rb_size rb"
    "rb_count rb \<le> rb_size rb" "outPoint rb < rb_size rb"
    and i: "unat (inPoint rb) = (unat (outPoint rb) + unat (rb_count rb)) mod unat (rb_size rb)"
    by (auto simp: rb_ok_def)
  let ?sz = "unat (rb_size rb)" and ?b = "unat (outPoint rb)" and ?n = "unat (rb_count rb)"
  have sz: "0 < ?sz" using m(3) by (simp add: word_less_nat_alt)
  have cont: "rb_content rb = rview m ?sz ?b ?n" using m(1) by (simp add: rb_content_def)
  have k: "k = min (unat len) ?n" by (simp add: k_def cont)
  define a where "a = (if rb_count rb > len then len else rb_count rb)"
  have ka: "unat a = k" by (auto simp: a_def k word_less_nat_alt min_def)
  have o: "?b = ?b mod ?sz" using m(5) by (simp add: word_less_nat_alt)
  have "0 + k \<le> length d" using len by (simp add: k)
  from rb_out_loop_view [OF m(1,2,3) o this]
  obtain p where l: "rb_out_loop k 0 d rb =
      Some (rview m ?sz ?b k @ drop k d, rb\<lparr>outPoint := p\<rparr>)"
    "unat p = (?b + k) mod ?sz" by auto
  have dif: "unat (rb_count rb - a) = ?n - k"
    using k by (simp add: unat_sub word_le_nat_alt ka)
  have tk: "take k (rview m ?sz ?b ?n) = rview m ?sz ?b k"
    using k by (simp add: rview_def take_map)
  have dk: "drop k (rview m ?sz ?b ?n) = rview m ?sz (?b + k) (?n - k)"
    using k by (auto intro!: nth_equalityI simp: rview_def add.assoc)
  let ?rb' = "rb\<lparr>outPoint := p, rb_count := rb_count rb - a\<rparr>"
  have "AtRingBuf_Out d len rb = Some (of_nat k, take k (rb_content rb) @ drop k d, ?rb')"
    using l(1) by (simp add: AtRingBuf_Out_def ka cont tk flip: a_def) (simp flip: ka)
  moreover have "rb_ok ?rb'"
  proof -
    have "(?b + k) mod ?sz < ?sz" using sz by simp
    moreover have "?n - k \<le> ?sz" using m(4) by (simp add: word_le_nat_alt)
    moreover have "unat (inPoint rb) = ((?b + k) mod ?sz + (?n - k)) mod ?sz"
    proof -
      have "?b + k + (?n - k) = ?b + ?n" using k by simp
      then show ?thesis using i by (simp only: mod_add_left_eq)
    qed
    ultimately show ?thesis
      using m(1,2,3) by (simp add: rb_ok_def l(2) dif word_less_nat_alt word_le_nat_alt)
  qed
  moreover have "rb_content ?rb' = drop k (rb_content rb)"
    using m(1) l(2) by (simp add: rb_content_def dif dk cont rview_mod)
  ultimately show ?thesis by (intro exI [of _ ?rb']) (simp add: rb_cap_def)
qed

section \<open>The bounded byte queue as an interface\<close>

text \<open>
  What a client of the buffer relies on: a transfer moves as many bytes as fit (or as there
  are), in order, and keeps the queue well formed. \<open>lim\<close> bounds the length of a transfer.
\<close>

locale byte_queue =
  fixes ok :: "'q \<Rightarrow> bool" and content :: "'q \<Rightarrow> bytes" and cap :: "'q \<Rightarrow> nat"
    and put :: "bytes \<Rightarrow> 'q \<Rightarrow> (nat \<times> 'q) option"
    and get :: "nat \<Rightarrow> 'q \<Rightarrow> (bytes \<times> 'q) option"
    and lim :: nat
  assumes room: "ok q \<Longrightarrow> length (content q) \<le> cap q"
    and put: "ok q \<Longrightarrow> length d < lim \<Longrightarrow> k = min (length d) (cap q - length (content q)) \<Longrightarrow>
      \<exists>q'. put d q = Some (k, q') \<and> ok q' \<and> cap q' = cap q \<and> content q' = content q @ take k d"
    and get: "ok q \<Longrightarrow> n < lim \<Longrightarrow>
      \<exists>q'. get n q = Some (take n (content q), q') \<and> ok q' \<and> cap q' = cap q \<and>
        content q' = drop n (content q)"

datatype queue_op = Put bytes | Get nat

text \<open>A run of operations: of each the bytes accepted or delivered, and the final queue.\<close>

fun queue_run ::
  "(bytes \<Rightarrow> 'q \<Rightarrow> (nat \<times> 'q) option) \<Rightarrow> (nat \<Rightarrow> 'q \<Rightarrow> (bytes \<times> 'q) option) \<Rightarrow>
   queue_op list \<Rightarrow> 'q \<Rightarrow> (bytes list \<times> 'q) option" where
  "queue_run put get [] q = Some ([], q)"
| "queue_run put get (Put d # ops) q = do {
     (k, q) \<leftarrow> put d q;
     (rs, q) \<leftarrow> queue_run put get ops q;
     Some (take k d # rs, q)
   }"
| "queue_run put get (Get n # ops) q = do {
     (d, q) \<leftarrow> get n q;
     (rs, q) \<leftarrow> queue_run put get ops q;
     Some (d # rs, q)
   }"

text \<open>The same on a list of bytes that holds at most \<open>c\<close>: what fits is accepted, what is there is delivered.\<close>

fun fifo_run :: "nat \<Rightarrow> queue_op list \<Rightarrow> bytes \<Rightarrow> bytes list \<times> bytes" where
  "fifo_run c [] bs = ([], bs)"
| "fifo_run c (Put d # ops) bs =
     (let x = take (c - length bs) d; (rs, bs) = fifo_run c ops (bs @ x) in (x # rs, bs))"
| "fifo_run c (Get n # ops) bs =
     (let (rs, bs') = fifo_run c ops (drop n bs) in (take n bs # rs, bs'))"

fun op_fits :: "nat \<Rightarrow> queue_op \<Rightarrow> bool" where
  "op_fits lim (Put d) = (length d < lim)"
| "op_fits lim (Get n) = (n < lim)"

context byte_queue
begin

lemma run_fifo:
  "ok q \<Longrightarrow> list_all (op_fits lim) ops \<Longrightarrow>
   \<exists>q'. queue_run put get ops q = Some (fst (fifo_run (cap q) ops (content q)), q') \<and> ok q' \<and> cap q' = cap q \<and>
     content q' = snd (fifo_run (cap q) ops (content q))"
proof (induction ops arbitrary: q)
  case (Cons x ops)
  show ?case
  proof (cases x)
    case (Put d)
    let ?k = "min (length d) (cap q - length (content q))"
    have k: "take ?k d = take (cap q - length (content q)) d"
      by (simp add: min_def)
    from Cons.prems put [OF Cons.prems(1) _ refl, of d] Put obtain q1 where
      "put d q = Some (?k, q1)" "ok q1" "cap q1 = cap q" "content q1 = content q @ take (cap q - length (content q)) d"
      unfolding k by auto
    then show ?thesis using Cons.IH [of q1] Cons.prems Put k by (auto simp: Let_def split: prod.splits)
  next
    case (Get n)
    with Cons.prems get [OF Cons.prems(1), of n] obtain q1 where
      "get n q = Some (take n (content q), q1)" "ok q1" "cap q1 = cap q"
      "content q1 = drop n (content q)" by auto
    then show ?thesis using Cons.IH [of q1] Cons.prems Get by (auto simp: Let_def split: prod.splits)
  qed
qed auto

text \<open>A transfer that fits is accepted whole, and read back it is the same bytes.\<close>

lemma put_get:
  assumes "ok q" "content q = []" "length d \<le> cap q" "length d < lim"
  shows "\<exists>q1 q2. put d q = Some (length d, q1) \<and> get (length d) q1 = Some (d, q2) \<and> content q2 = []"
proof -
  obtain q1 where q1: "put d q = Some (length d, q1)" "ok q1" "content q1 = d"
    using put [OF assms(1,4) refl] assms by auto
  then show ?thesis using get [OF q1(2) assms(4)] by auto
qed

end

definition ring_put :: "bytes \<Rightarrow> AT_RING_BUF_S \<Rightarrow> (nat \<times> AT_RING_BUF_S) option" where
  "ring_put d rb = do {
     (n, rb) \<leftarrow> AtRingBuf_In d (of_nat (length d)) rb;
     Some (unat n, rb)
   }"

definition ring_get :: "nat \<Rightarrow> AT_RING_BUF_S \<Rightarrow> (bytes \<times> AT_RING_BUF_S) option" where
  "ring_get n rb = do {
     (k, p, rb) \<leftarrow> AtRingBuf_Out (replicate n 0) (of_nat n) rb;
     Some (take (unat k) p, rb)
   }"

lemma unat_of_nat_u32: "n < 2 ^ 32 \<Longrightarrow> unat (of_nat n :: u32) = n"
  by (simp add: unat_of_nat take_bit_nat_eq_self)

lemma rb_cap_less: "rb_cap rb < 2 ^ 32"
  using unsigned_less [of "rb_size rb", where ?'a = nat] by (simp add: rb_cap_def)

interpretation ring: byte_queue rb_ok rb_content rb_cap ring_put ring_get "2 ^ 32"
proof (unfold_locales, goal_cases)
  case (1 q)
  then show ?case by (rule rb_room)
next
  case (2 q d k)
  have k: "k < 2 ^ 32" using 2 by simp
  show ?case
    using AtRingBuf_In_ok [OF 2(1), of "of_nat (length d)" d] 2
    by (auto simp: ring_put_def unat_of_nat_u32 rb_space unat_of_nat_u32 [OF k])
next
  case (3 q n)
  let ?k = "min n (length (rb_content q))"
  have k: "?k < 2 ^ 32" using 3 by simp
  have "take n (rb_content q) = take ?k (rb_content q)" "drop n (rb_content q) = drop ?k (rb_content q)"
    by (simp_all add: min_def)
  then show ?case
    using AtRingBuf_Out_ok [OF 3(1), of "of_nat n" "replicate n 0"] 3 unat_of_nat_u32 [OF k]
    by (auto simp: ring_get_def unat_of_nat_u32)
qed

section \<open>Properties of the operations\<close>

text \<open>
  C22: \<open>AtRingBuf_In\<close> on a well-formed buffer takes as many of the bytes as there is room
  for, appends them to the content and keeps the buffer well formed.
\<close>

theorem ring_in_appends:
  assumes "rb_ok rb" "unat len \<le> length d" "k = min (unat len) (unat (AtRingBuf_Space rb))"
  shows "\<exists>rb'. AtRingBuf_In d len rb = Some (of_nat k, rb') \<and> rb_ok rb' \<and>
    rb_content rb' = rb_content rb @ take k d"
  using AtRingBuf_In_ok [OF assms(1,2)] assms(3) by blast

definition demo_ring :: AT_RING_BUF_S where
  "demo_ring = \<lparr>rb_size = 4, inPoint = 1, outPoint = 3, bufPtr = Some [7, 0, 0, 9], rb_count = 2\<rparr>"

lemma demo_ring_ok: "rb_ok demo_ring"
  by (simp add: rb_ok_def demo_ring_def)

theorem ring_in_appends_witness:
  "\<exists>rb'. AtRingBuf_In [1, 2, 3] 3 demo_ring = Some (of_nat 2, rb') \<and> rb_ok rb' \<and>
    rb_content rb' = rb_content demo_ring @ take 2 [1, 2, 3]"
  by (rule ring_in_appends [OF demo_ring_ok]) (simp_all add: AtRingBuf_Space_def demo_ring_def)

text \<open>
  C37: any sequence of transfers on a well-formed buffer is the sequence on a list of bytes that holds at most as many
  as the buffer has room for: each \<open>AtRingBuf_In\<close> accepts exactly as many of its bytes as fit, up to all of them, each
  \<open>AtRingBuf_Out\<close> delivers the first bytes, as many as asked for or as there are, and what is left at the end is the same;
  none of them leaves the storage.
\<close>

theorem ring_fifo:
  assumes "rb_ok rb" "list_all (op_fits (2 ^ 32)) ops"
  shows "\<exists>rb'. queue_run ring_put ring_get ops rb = Some (fst (fifo_run (unat (rb_size rb)) ops (rb_content rb)), rb') \<and>
    rb_ok rb' \<and> rb_size rb' = rb_size rb \<and> rb_content rb' = snd (fifo_run (unat (rb_size rb)) ops (rb_content rb))"
  using ring.run_fifo [OF assms] unfolding rb_cap_def by (metis unsigned_word_eqI)

theorem ring_fifo_witness:
  "\<exists>rb'. queue_run ring_put ring_get [Get 1, Put [1, 2, 3, 4], Get 9] demo_ring = Some ([[9], [1, 2, 3], [7, 1, 2, 3]], rb') \<and>
    rb_ok rb' \<and> rb_content rb' = []"
proof -
  have c: "rb_content demo_ring = [9, 7]"
    by (simp add: rb_content_def demo_ring_def rview_def upt_rec)
  have f: "fifo_run (unat (rb_size demo_ring)) [Get 1, Put [1, 2, 3, 4], Get 9] (rb_content demo_ring) = ([[9], [1, 2, 3], [7, 1, 2, 3]], [])"
    unfolding c by (simp add: demo_ring_def Let_def)
  have "list_all (op_fits (2 ^ 32)) [Get 1, Put [1, 2, 3, 4], Get 9]" by simp
  from ring_fifo [OF demo_ring_ok this] show ?thesis unfolding f fst_conv snd_conv by blast
qed

section \<open>A writer thread and a reader thread\<close>

text \<open>
  The loops run without the mutex, one byte at a time; \<open>count\<close> is updated under the mutex at
  the end of a transfer. A state holds the buffer, the bytes the writer has still to store
  and the amount it will add to \<open>count\<close>, the bytes the reader has still to fetch and the
  amount it will subtract, and, for the statement only, all bytes stored and all fetched.
\<close>

record spsc =
  ring_of :: AT_RING_BUF_S
  w_left :: bytes
  w_act :: u32
  r_left :: nat
  r_act :: u32
  stored :: bytes
  fetched :: bytes

definition w_idle :: "spsc \<Rightarrow> bool" where
  "w_idle s \<longleftrightarrow> w_left s = [] \<and> w_act s = 0"

definition r_idle :: "spsc \<Rightarrow> bool" where
  "r_idle s \<longleftrightarrow> r_left s = 0 \<and> r_act s = 0"

inductive spsc_step :: "spsc \<Rightarrow> spsc \<Rightarrow> bool" where
  w_start: "w_idle s \<Longrightarrow> unat len \<le> length d \<Longrightarrow>
    a = (if AtRingBuf_Space (ring_of s) \<ge> len then len else AtRingBuf_Space (ring_of s)) \<Longrightarrow>
    spsc_step s (s\<lparr>w_left := take (unat a) d, w_act := a\<rparr>)"
| w_byte: "w_left s = c # cs \<Longrightarrow> rb_put1 c (ring_of s) = Some rb \<Longrightarrow>
    spsc_step s (s\<lparr>ring_of := rb, w_left := cs, stored := stored s @ [c]\<rparr>)"
| w_commit: "w_left s = [] \<Longrightarrow>
    spsc_step s (s\<lparr>ring_of := (ring_of s)\<lparr>rb_count := rb_count (ring_of s) + w_act s\<rparr>, w_act := 0\<rparr>)"
| r_start: "r_idle s \<Longrightarrow>
    a = (if rb_count (ring_of s) > len then len else rb_count (ring_of s)) \<Longrightarrow>
    spsc_step s (s\<lparr>r_left := unat a, r_act := a\<rparr>)"
| r_byte: "r_left s = Suc n \<Longrightarrow> rb_get1 (ring_of s) = Some (c, rb) \<Longrightarrow>
    spsc_step s (s\<lparr>ring_of := rb, r_left := n, fetched := fetched s @ [c]\<rparr>)"
| r_commit: "r_left s = 0 \<Longrightarrow>
    spsc_step s (s\<lparr>ring_of := (ring_of s)\<lparr>rb_count := rb_count (ring_of s) - r_act s\<rparr>, r_act := 0\<rparr>)"

inductive_cases spsc_stepE: "spsc_step s t"

text \<open>
  \<open>b\<close> is the position of the first byte that \<open>count\<close> still counts; \<open>r\<close> of the counted bytes
  are fetched and \<open>w\<close> bytes after the counted ones stored.
\<close>

definition spsc_at :: "spsc \<Rightarrow> bytes \<Rightarrow> nat \<Rightarrow> nat \<Rightarrow> nat \<Rightarrow> bool" where
  "spsc_at s m b r w \<longleftrightarrow>
     (let rb = ring_of s; sz = unat (rb_size rb); n = unat (rb_count rb) in
      0 < rb_size rb \<and> bufPtr rb = Some m \<and> sz \<le> length m \<and>
      unat (inPoint rb) = (b + n + w) mod sz \<and> unat (outPoint rb) = (b + r) mod sz \<and>
      w + length (w_left s) = unat (w_act s) \<and> n + unat (w_act s) \<le> sz \<and>
      r + r_left s = unat (r_act s) \<and> unat (r_act s) \<le> n \<and>
      stored s = fetched s @ rview m sz (b + r) (n - r + w))"

definition spsc_inv :: "spsc \<Rightarrow> bool" where
  "spsc_inv s \<longleftrightarrow> (\<exists>m b r w. spsc_at s m b r w)"

lemma spsc_put_step:
  assumes "spsc_at s m b r w" "w_left s = c # cs"
  shows "\<exists>m' rb. rb_put1 c (ring_of s) = Some rb \<and>
    spsc_at (s\<lparr>ring_of := rb, w_left := cs, stored := stored s @ [c]\<rparr>) m' b r (Suc w)"
proof -
  let ?rb = "ring_of s"
  let ?n = "unat (rb_count ?rb)"
  let ?sz = "unat (rb_size ?rb)"
  have r: "r \<le> ?n" and w: "?n + w < ?sz"
    using assms by (auto simp: spsc_at_def Let_def)
  have pos: "(b + r) + (?n - r + w) = b + ?n + w" and suc: "Suc (?n - r + w) = ?n - r + Suc w"
    using r by simp_all
  have ip: "unat (inPoint ?rb) = ((b + r) + (?n - r + w)) mod ?sz"
    using assms(1) by (simp only: pos) (simp add: spsc_at_def Let_def)
  have lt: "?n - r + w < ?sz" using w by simp
  have m: "bufPtr ?rb = Some m" "?sz \<le> length m" "0 < rb_size ?rb"
    using assms(1) by (simp_all add: spsc_at_def Let_def)
  from rb_put1_view [OF m ip lt, of c]
  obtain m' p where "rb_put1 c ?rb = Some (?rb\<lparr>bufPtr := Some m', inPoint := p\<rparr>)"
    "length m' = length m" "unat p = ((b + r) + Suc (?n - r + w)) mod ?sz"
    "rview m' ?sz (b + r) (Suc (?n - r + w)) = rview m ?sz (b + r) (?n - r + w) @ [c]"
    by blast
  moreover have "(b + r) + Suc (?n - r + w) = b + ?n + Suc w" using r by simp
  ultimately have "rb_put1 c ?rb = Some (?rb\<lparr>bufPtr := Some m', inPoint := p\<rparr>)"
    "length m' = length m" "unat p = (b + ?n + Suc w) mod ?sz"
    "rview m' ?sz (b + r) (?n - r + Suc w) = rview m ?sz (b + r) (?n - r + w) @ [c]"
    by (simp_all only: suc)
  then show ?thesis using assms by (auto simp: spsc_at_def Let_def)
qed

lemma spsc_get_step:
  assumes "spsc_at s m b r w" "r_left s = Suc n"
  shows "\<exists>c rb. rb_get1 (ring_of s) = Some (c, rb) \<and>
    spsc_at (s\<lparr>ring_of := rb, r_left := n, fetched := fetched s @ [c]\<rparr>) m b (Suc r) w"
proof -
  let ?rb = "ring_of s"
  have n: "unat (rb_count ?rb) - r + w = Suc (unat (rb_count ?rb) - Suc r + w)"
    using assms by (auto simp: spsc_at_def Let_def)
  obtain p where "rb_get1 ?rb = Some (m ! ((b + r) mod unat (rb_size ?rb)), ?rb\<lparr>outPoint := p\<rparr>)"
    "unat p = Suc (b + r) mod unat (rb_size ?rb)"
    using rb_get1_view [of ?rb m "b + r"] assms(1) by (auto simp: spsc_at_def Let_def)
  then show ?thesis using assms n by (auto simp: spsc_at_def Let_def rview_Cons)
qed

lemma spsc_step_inv: "spsc_step s t \<Longrightarrow> spsc_inv s \<Longrightarrow> spsc_inv t"
proof (induction rule: spsc_step.induct)
  case (w_start s len d a)
  then obtain m b r w where at: "spsc_at s m b r w" by (auto simp: spsc_inv_def)
  have "unat a \<le> length d"
    using w_start by (auto simp: word_le_nat_alt)
  moreover have "unat (rb_count (ring_of s)) + unat a \<le> unat (rb_size (ring_of s))"
    using at w_start(3)
    by (auto simp: spsc_at_def Let_def AtRingBuf_Space_def unat_sub word_le_nat_alt)
  ultimately have "spsc_at (s\<lparr>w_left := take (unat a) d, w_act := a\<rparr>) m b r 0"
    using at w_start(1) by (auto simp: spsc_at_def Let_def w_idle_def)
  then show ?case by (auto simp: spsc_inv_def)
next
  case (w_byte s c cs rb)
  then show ?case using spsc_put_step [of s _ _ _ _ c cs] by (force simp: spsc_inv_def)
next
  case (w_commit s)
  then obtain m b r w where at: "spsc_at s m b r w" by (auto simp: spsc_inv_def)
  let ?rb = "ring_of s"
  have "unat (rb_count ?rb + w_act s) = unat (rb_count ?rb) + w"
    using at w_commit(1) unat_add_within [of "rb_count ?rb" "w_act s" "rb_size ?rb"]
    by (simp add: spsc_at_def Let_def)
  then have "spsc_at (s\<lparr>ring_of := ?rb\<lparr>rb_count := rb_count ?rb + w_act s\<rparr>, w_act := 0\<rparr>) m b r 0"
    using at w_commit(1) by (auto simp: spsc_at_def Let_def add.assoc)
  then show ?case by (auto simp: spsc_inv_def)
next
  case (r_start s a len)
  then obtain m b r w where at: "spsc_at s m b r w" by (auto simp: spsc_inv_def)
  have "unat a \<le> unat (rb_count (ring_of s))"
    using r_start(2) by (auto simp: word_less_nat_alt)
  then have "spsc_at (s\<lparr>r_left := unat a, r_act := a\<rparr>) m b 0 w"
    using at r_start(1) by (auto simp: spsc_at_def Let_def r_idle_def)
  then show ?case by (auto simp: spsc_inv_def)
next
  case (r_byte s n c rb)
  then show ?case using spsc_get_step [of s _ _ _ _ n] by (force simp: spsc_inv_def)
next
  case (r_commit s)
  then obtain m b r w where at: "spsc_at s m b r w" by (auto simp: spsc_inv_def)
  let ?rb = "ring_of s"
  have "unat (rb_count ?rb - r_act s) = unat (rb_count ?rb) - r"
    using at r_commit(1) by (auto simp: spsc_at_def Let_def unat_sub word_le_nat_alt)
  then have "spsc_at (s\<lparr>ring_of := ?rb\<lparr>rb_count := rb_count ?rb - r_act s\<rparr>, r_act := 0\<rparr>) m (b + r) 0 w"
    using at r_commit(1) by (auto simp: spsc_at_def Let_def add.assoc)
  then show ?case by (auto simp: spsc_inv_def)
qed

definition spsc_init :: "AT_RING_BUF_S \<Rightarrow> spsc" where
  "spsc_init rb = \<lparr>ring_of = rb, w_left = [], w_act = 0, r_left = 0, r_act = 0,
     stored = rb_content rb, fetched = []\<rparr>"

lemma spsc_init_inv:
  assumes "rb_ok rb"
  shows "spsc_inv (spsc_init rb)"
proof -
  obtain m where "bufPtr rb = Some m" using assms by (auto simp: rb_ok_def)
  then have "spsc_at (spsc_init rb) m (unat (outPoint rb)) 0 0"
    using assms by (auto simp: rb_ok_def spsc_init_def spsc_at_def Let_def rb_content_def
        word_less_nat_alt word_le_nat_alt)
  then show ?thesis by (auto simp: spsc_inv_def)
qed

lemma spsc_reachable_inv: "spsc_step\<^sup>*\<^sup>* s t \<Longrightarrow> spsc_inv s \<Longrightarrow> spsc_inv t"
  by (induction rule: rtranclp_induct) (auto intro: spsc_step_inv)

lemma spsc_inv_fifo: "spsc_inv s \<Longrightarrow> prefix (fetched s) (stored s)"
  by (auto simp: spsc_inv_def spsc_at_def Let_def)

lemma spsc_inv_write: "spsc_inv s \<Longrightarrow> w_left s = c # cs \<Longrightarrow> rb_put1 c (ring_of s) \<noteq> None"
  using spsc_put_step [of s] by (fastforce simp: spsc_inv_def)

lemma spsc_inv_read: "spsc_inv s \<Longrightarrow> r_left s = Suc n \<Longrightarrow> rb_get1 (ring_of s) \<noteq> None"
  using spsc_get_step [of s] by (fastforce simp: spsc_inv_def)

text \<open>
  C36: with one writer and one reader thread whose loops interleave byte by byte in any
  order, the reader has always fetched a prefix of what was stored, and neither thread is
  ever about to access a byte outside the storage.
\<close>

theorem spsc_threads_fifo:
  assumes "rb_ok rb" "spsc_step\<^sup>*\<^sup>* (spsc_init rb) s"
  shows "prefix (fetched s) (stored s) \<and>
    (\<forall>c cs. w_left s = c # cs \<longrightarrow> rb_put1 c (ring_of s) \<noteq> None) \<and>
    (\<forall>n. r_left s = Suc n \<longrightarrow> rb_get1 (ring_of s) \<noteq> None)"
  using spsc_reachable_inv [OF assms(2) spsc_init_inv [OF assms(1)]]
    spsc_inv_fifo spsc_inv_write spsc_inv_read by blast

text \<open>The reader asks for one byte and fetches it while the writer is announced.\<close>

lemma demo_spsc_run:
  "spsc_step\<^sup>*\<^sup>* (spsc_init demo_ring)
     (spsc_init demo_ring\<lparr>w_left := [5], w_act := 1, r_left := 1, r_act := 1\<rparr>)"
proof -
  have "spsc_step (spsc_init demo_ring) (spsc_init demo_ring\<lparr>w_left := take (unat (1::u32)) [5], w_act := 1\<rparr>)"
    by (rule spsc_step.w_start [where len = 1])
      (simp_all add: w_idle_def spsc_init_def demo_ring_def AtRingBuf_Space_def)
  moreover have "spsc_step (spsc_init demo_ring\<lparr>w_left := [5], w_act := 1\<rparr>)
      ((spsc_init demo_ring\<lparr>w_left := [5], w_act := 1\<rparr>)\<lparr>r_left := unat (1::u32), r_act := 1\<rparr>)"
    by (rule spsc_step.r_start [where len = 1])
      (simp_all add: r_idle_def spsc_init_def demo_ring_def)
  ultimately show ?thesis by simp
qed

theorem spsc_threads_fifo_witness:
  "\<exists>s. spsc_step\<^sup>*\<^sup>* (spsc_init demo_ring) s \<and> w_left s = [5] \<and> r_left s = 1 \<and>
     prefix (fetched s) (stored s) \<and> rb_put1 5 (ring_of s) \<noteq> None \<and> rb_get1 (ring_of s) \<noteq> None"
proof -
  let ?s = "spsc_init demo_ring\<lparr>w_left := [5], w_act := 1, r_left := 1, r_act := 1\<rparr>"
  have "w_left ?s = [5]" "r_left ?s = Suc 0" by simp_all
  then show ?thesis
    using spsc_threads_fifo [OF demo_ring_ok demo_spsc_run] demo_spsc_run by auto
qed

end
