(* ===== verification/Stream.thy ===== *)
theory Stream
  imports Prelude
begin

text \<open>
  Byte-stream engines as an interface. The dispatch layer presents the bytes it has to an
  engine, the engine says how many it consumed and the rest is presented again. A framing is
  correct when an engine that waits for a frame consumes exactly one encoded frame and
  delivers it; the locale proves once that a stream of frames is then delivered in order.
\<close>

section \<open>Presenting the rest again\<close>

fun drain :: "(bytes \<Rightarrow> 's \<Rightarrow> (nat \<times> 's) option) \<Rightarrow> nat \<Rightarrow> bytes \<Rightarrow> 's \<Rightarrow> 's option" where
  "drain push n [] s = Some s"
| "drain push 0 (c # data) s = None"
| "drain push (Suc n) (c # data) s = do {
     (k, s) \<leftarrow> push (c # data) s;
     drain push n (drop k (c # data)) s
   }"

locale frame_codec =
  fixes ready :: "'s \<Rightarrow> bool" and ctx :: "'s \<Rightarrow> 'c" and good :: "'c \<Rightarrow> 'f \<Rightarrow> bool"
    and enc :: "'f \<Rightarrow> bytes" and follow :: "bytes \<Rightarrow> bool"
    and push :: "bytes \<Rightarrow> 's \<Rightarrow> (nat \<times> 's) option"
    and log :: "'s \<Rightarrow> 'e list" and event :: "'c \<Rightarrow> 'f \<Rightarrow> 'e list"
  assumes enc_ne: "enc f \<noteq> []"
    and enc_follow: "follow (enc f @ rest)"
    and push_frame: "ready s \<Longrightarrow> good (ctx s) f \<Longrightarrow> follow rest \<Longrightarrow>
      \<exists>t. push (enc f @ rest) s = Some (length (enc f), t) \<and> ready t \<and> ctx t = ctx s \<and>
        log t = log s @ event (ctx s) f"
begin

lemma concat_follow: "follow rest \<Longrightarrow> follow (concat (map enc fs) @ rest)"
  by (cases fs) (simp_all add: enc_follow)

lemma drain_frames_then:
  "ready s \<Longrightarrow> \<forall>f \<in> set fs. good (ctx s) f \<Longrightarrow> follow rest \<Longrightarrow>
   \<exists>t. (\<forall>m. drain push (length fs + m) (concat (map enc fs) @ rest) s = drain push m rest t) \<and>
     ready t \<and> ctx t = ctx s \<and> log t = log s @ concat (map (event (ctx s)) fs)"
proof (induction fs arbitrary: s)
  case Nil
  then show ?case by (intro exI [of _ s]) simp
next
  case (Cons f fs)
  obtain t where t: "push (enc f @ concat (map enc fs) @ rest) s = Some (length (enc f), t)" "ready t"
    "ctx t = ctx s" "log t = log s @ event (ctx s) f"
    using push_frame [of s f "concat (map enc fs) @ rest"] concat_follow Cons.prems by auto
  obtain c cs where c: "enc f = c # cs" using enc_ne by (cases "enc f") auto
  have "\<exists>u. (\<forall>m. drain push (length fs + m) (concat (map enc fs) @ rest) t = drain push m rest u) \<and>
      ready u \<and> ctx u = ctx t \<and> log u = log t @ concat (map (event (ctx t)) fs)"
    using Cons.prems t by (intro Cons.IH) auto
  then show ?case using t c by auto
qed

lemma drain_frames:
  assumes "ready s" "\<forall>f \<in> set fs. good (ctx s) f" "follow []"
  shows "\<exists>t. drain push (length fs) (concat (map enc fs)) s = Some t \<and> ready t \<and> ctx t = ctx s \<and>
     log t = log s @ concat (map (event (ctx s)) fs)"
proof -
  obtain t where t: "\<forall>m. drain push (length fs + m) (concat (map enc fs) @ []) s = drain push m [] t"
    "ready t" "ctx t = ctx s" "log t = log s @ concat (map (event (ctx s)) fs)"
    using drain_frames_then [OF assms] by blast
  have "drain push (length fs) (concat (map enc fs)) s = Some t"
    using t(1) [rule_format, of 0] by simp
  then show ?thesis using t by blast
qed

end

end
