(* ===== verification/Cmux.thy ===== *)
theory Cmux
  imports Checksum
begin

text \<open>
  The multiplexer engine (at_cmux_engine.c, 3GPP 27.010): framing of the virtual channels on
  one serial line, in the basic option (length field) and in the advanced option (flags and
  escapes), the control channel and the channel states.

  A state is the engine object. Its two buffers are byte lists of the declared sizes, so
  that stale bytes and positions are those of the code; an access outside a buffer or the
  channel table, or to the engine after it was freed, makes the operation \<open>None\<close>. The calls
  the engine makes to the dispatch layer are appended to \<open>calls\<close> in their order; the
  dispatch a new channel gets from \<open>at_DispatchCreate\<close> is an argument.
\<close>

unbundle bit_operations_syntax

section \<open>Constants and bit macros\<close>

abbreviation (input) BASIC_FLAG :: u8 where "BASIC_FLAG \<equiv> 0xf9"
abbreviation (input) ADV_FLAG :: u8 where "ADV_FLAG \<equiv> 0x7e"
abbreviation (input) ADV_ESCAPE_CTRL :: u8 where "ADV_ESCAPE_CTRL \<equiv> 0x7d"
abbreviation (input) ADV_ESCAPE_MASK :: u8 where "ADV_ESCAPE_MASK \<equiv> 0x20"
abbreviation (input) CTRL_PF :: u8 where "CTRL_PF \<equiv> 0x10"
abbreviation (input) FRAME_TYPE_SABM :: u8 where "FRAME_TYPE_SABM \<equiv> 0x2f"
abbreviation (input) FRAME_TYPE_UA :: u8 where "FRAME_TYPE_UA \<equiv> 0x63"
abbreviation (input) FRAME_TYPE_DM :: u8 where "FRAME_TYPE_DM \<equiv> 0x0f"
abbreviation (input) FRAME_TYPE_DISC :: u8 where "FRAME_TYPE_DISC \<equiv> 0x43"
abbreviation (input) FRAME_TYPE_UIH :: u8 where "FRAME_TYPE_UIH \<equiv> 0xef"
abbreviation (input) CTRL_MSG_PN :: u8 where "CTRL_MSG_PN \<equiv> 0x20"
abbreviation (input) CTRL_MSG_PSC :: u8 where "CTRL_MSG_PSC \<equiv> 0x10"
abbreviation (input) CTRL_MSG_CLD :: u8 where "CTRL_MSG_CLD \<equiv> 0x30"
abbreviation (input) CTRL_MSG_TEST :: u8 where "CTRL_MSG_TEST \<equiv> 0x08"
abbreviation (input) CTRL_MSG_FCON :: u8 where "CTRL_MSG_FCON \<equiv> 0x28"
abbreviation (input) CTRL_MSG_FCOFF :: u8 where "CTRL_MSG_FCOFF \<equiv> 0x18"
abbreviation (input) CTRL_MSG_MSC :: u8 where "CTRL_MSG_MSC \<equiv> 0x38"
abbreviation (input) CTRL_MSG_NSC :: u8 where "CTRL_MSG_NSC \<equiv> 0x04"
abbreviation (input) CTRL_MSG_RPN :: u8 where "CTRL_MSG_RPN \<equiv> 0x24"
abbreviation (input) CTRL_MSG_RLS :: u8 where "CTRL_MSG_RLS \<equiv> 0x14"
abbreviation (input) CTRL_MSG_SNC :: u8 where "CTRL_MSG_SNC \<equiv> 0x34"
abbreviation (input) MSC_FC :: u8 where "MSC_FC \<equiv> 0x02"
abbreviation (input) MSC_DSR_DTR :: u8 where "MSC_DSR_DTR \<equiv> 0x04"
abbreviation (input) MSC_CTS_RFR :: u8 where "MSC_CTS_RFR \<equiv> 0x08"
abbreviation (input) CR_COMMAND :: u8 where "CR_COMMAND \<equiv> 0"
abbreviation (input) CR_RESPONSE :: u8 where "CR_RESPONSE \<equiv> 1"
abbreviation (input) CTRL_COMMAND :: u8 where "CTRL_COMMAND \<equiv> 1"
abbreviation (input) CTRL_RESPONSE :: u8 where "CTRL_RESPONSE \<equiv> 0"
abbreviation (input) MAX_DLC_NUM :: nat where "MAX_DLC_NUM \<equiv> 63"
abbreviation (input) CTRL_DLCI :: u8 where "CTRL_DLCI \<equiv> 0"
abbreviation (input) ADV_MIN_FRAME_SIZE :: nat where "ADV_MIN_FRAME_SIZE \<equiv> 5"
abbreviation (input) BASIC_MIN_FRAME_SIZE :: nat where "BASIC_MIN_FRAME_SIZE \<equiv> 6"
abbreviation (input) MAX_TEST_SIZE :: nat where "MAX_TEST_SIZE \<equiv> 32"
abbreviation (input) LENGTH_ONE_MAX :: nat where "LENGTH_ONE_MAX \<equiv> 0x7f"
abbreviation (input) CMUX_IN_BUFF_SIZE :: nat where "CMUX_IN_BUFF_SIZE \<equiv> 4096"
abbreviation (input) CMUX_OUT_BUFF_SIZE :: nat where "CMUX_OUT_BUFF_SIZE \<equiv> 4096"

definition SET_BITS :: "u8 \<Rightarrow> nat \<Rightarrow> nat \<Rightarrow> u8" where
  "SET_BITS v s l = push_bit s (v AND (push_bit l 1 - 1))"

abbreviation (input) SET_BITS26 :: "u8 \<Rightarrow> u8" where "SET_BITS26 v \<equiv> SET_BITS v 2 6"
abbreviation (input) SET_BITS17 :: "u8 \<Rightarrow> u8" where "SET_BITS17 v \<equiv> SET_BITS v 1 7"
abbreviation (input) SET_CR :: "u8 \<Rightarrow> u8" where "SET_CR v \<equiv> SET_BITS v 1 1"
abbreviation (input) SET_EA :: u8 where "SET_EA \<equiv> SET_BITS 1 0 1"

definition GET_BITS :: "u8 \<Rightarrow> nat \<Rightarrow> nat \<Rightarrow> u8" where
  "GET_BITS v s l = drop_bit s v AND (push_bit l 1 - 1)"

abbreviation (input) GET_BITS26 :: "u8 \<Rightarrow> u8" where "GET_BITS26 v \<equiv> GET_BITS v 2 6"
abbreviation (input) GET_BITS17 :: "u8 \<Rightarrow> u8" where "GET_BITS17 v \<equiv> GET_BITS v 1 7"
abbreviation (input) GET_BIT1 :: "u8 \<Rightarrow> u8" where "GET_BIT1 v \<equiv> GET_BITS v 1 1"
abbreviation (input) GET_EA :: "u8 \<Rightarrow> u8" where "GET_EA v \<equiv> GET_BITS v 0 1"

section \<open>State\<close>

datatype AT_CMUX_OPTION = BASIC_OPTION | ADV_OPTION

datatype AT_CMUX_CHANNEL_STATE = CHANNEL_DISCONNECT | CHANNEL_CONNECT | CHANNEL_FLOW_STOPPED

text \<open>The value of a constant of the enumeration in a condition.\<close>

definition ch_state_val :: "AT_CMUX_CHANNEL_STATE \<Rightarrow> nat" where
  "ch_state_val st =
     (case st of CHANNEL_DISCONNECT \<Rightarrow> 0 | CHANNEL_CONNECT \<Rightarrow> 1 | CHANNEL_FLOW_STOPPED \<Rightarrow> 2)"

record AT_CMUX_PARAM_T =
  frameType :: u8
  convergence :: u8
  priority :: u8
  ackTimer :: u8
  frameSize :: u16
  maxRetrans :: u8
  windowSize :: u8

text \<open>A dispatch object is known by a number; \<open>None\<close> is the NULL pointer.\<close>

record AT_CMUX_CHANNEL_T =
  ch_dispatch :: "nat option"
  ch_state :: AT_CMUX_CHANNEL_STATE
  ch_param :: AT_CMUX_PARAM_T

text \<open>The info field of a frame is a position in the input buffer.\<close>

record AT_CMUX_FRAME_T =
  f_dlci :: u8
  f_ctrl :: u8
  f_infoLen :: int
  f_info :: nat

record AT_CMUX_CONFIG_T =
  transparency :: u8
  subset_opt :: u8
  portSpeed :: u8
  cfg_maxFrameSize :: int
  cfg_ackTimer :: u8
  maxRetransCount :: u8
  respTimer :: u8
  wakeupRespTimer :: u8
  cfg_windowSize :: u8

datatype cmux_call =
    DispatchWrite bytes
  | DispatchPushData "nat option" bytes
  | DispatchCreate u8
  | DispatchDestroy "nat option"
  | DispatchEndCmuxMode
  | TaskEndCmuxMode
  | DispatchScheduleDrain

record AT_CMUX_ENGINE_T =
  cx_mode :: AT_CMUX_OPTION
  cx_dispatch :: "nat option"
  cx_cfg :: AT_CMUX_CONFIG_T
  cx_maxFrameSize :: int
  buff :: bytes
  buffLen :: nat
  buffSize :: nat
  escaped :: bool
  outBuff :: bytes
  outLen :: nat
  outOverflow :: bool
  channels :: "AT_CMUX_CHANNEL_T list"
  freed :: bool
  calls :: "cmux_call list"

definition call :: "cmux_call \<Rightarrow> AT_CMUX_ENGINE_T \<Rightarrow> AT_CMUX_ENGINE_T" where
  "call c th = th\<lparr>calls := calls th @ [c]\<rparr>"

section \<open>Output\<close>

definition at_CmuxPushByte :: "u8 \<Rightarrow> AT_CMUX_ENGINE_T \<Rightarrow> AT_CMUX_ENGINE_T option" where
  "at_CmuxPushByte c th = do {
     b \<leftarrow> wr (buff th) (buffLen th) c;
     Some (th\<lparr>buff := b, buffLen := buffLen th + 1\<rparr>)
   }"

definition at_CmuxIsDlciValid :: "AT_CMUX_ENGINE_T \<Rightarrow> u8 \<Rightarrow> bool" where
  "at_CmuxIsDlciValid th dlci \<longleftrightarrow>
     (cx_mode th = BASIC_OPTION \<and> dlci \<le> 61) \<or> (cx_mode th = ADV_OPTION \<and> dlci \<le> 62)"

definition at_CmuxDefaultPriority :: "u8 \<Rightarrow> u8" where
  "at_CmuxDefaultPriority dlci = (if dlci = 0 then 0 else if dlci > 55 then 61 else dlci OR 7)"

definition mode_flag :: "AT_CMUX_ENGINE_T \<Rightarrow> u8" where
  "mode_flag th = (if cx_mode th = BASIC_OPTION then BASIC_FLAG else ADV_FLAG)"

definition at_CmuxOutStart :: "AT_CMUX_ENGINE_T \<Rightarrow> AT_CMUX_ENGINE_T option" where
  "at_CmuxOutStart th = do {
     b \<leftarrow> wr (outBuff th) 0 (mode_flag th);
     Some (th\<lparr>outBuff := b, outLen := 1, outOverflow := False\<rparr>)
   }"

definition at_CmuxOutEnd :: "AT_CMUX_ENGINE_T \<Rightarrow> AT_CMUX_ENGINE_T option" where
  "at_CmuxOutEnd th = do {
     th \<leftarrow> (if \<not> outOverflow th then do {
              b \<leftarrow> wr (outBuff th) (outLen th) (mode_flag th);
              let th = th\<lparr>outBuff := b, outLen := outLen th + 1\<rparr>;
              Some (if cx_dispatch th \<noteq> None
                    then call (DispatchWrite (take (outLen th) (outBuff th))) th else th)
            } else Some th);
     Some (th\<lparr>outLen := 0\<rparr>)
   }"

definition out_byte :: "u8 \<Rightarrow> AT_CMUX_ENGINE_T \<Rightarrow> AT_CMUX_ENGINE_T option" where
  "out_byte c th = do {
     b \<leftarrow> wr (outBuff th) (outLen th) c;
     Some (th\<lparr>outBuff := b, outLen := outLen th + 1\<rparr>)
   }"

fun out_adv :: "bytes \<Rightarrow> AT_CMUX_ENGINE_T \<Rightarrow> AT_CMUX_ENGINE_T option" where
  "out_adv [] th = Some th"
| "out_adv (c # data) th =
     (if c = ADV_ESCAPE_CTRL \<or> c = ADV_FLAG
      then do {
        th \<leftarrow> out_byte ADV_ESCAPE_CTRL th;
        th \<leftarrow> out_byte (c XOR ADV_ESCAPE_MASK) th;
        out_adv data th
      }
      else do {
        th \<leftarrow> out_byte c th;
        out_adv data th
      })"

text \<open>The sum of the first test is unsigned; no caller uses the boolean result.\<close>

definition at_CmuxOutPush :: "bytes \<Rightarrow> AT_CMUX_ENGINE_T \<Rightarrow> (bool \<times> AT_CMUX_ENGINE_T) option" where
  "at_CmuxOutPush data th =
     (if outOverflow th then Some (False, th)
      else if cx_mode th = BASIC_OPTION then
        if (buffLen th + length data) mod 2 ^ 32 \<ge> CMUX_OUT_BUFF_SIZE - 1
        then Some (False, th\<lparr>outOverflow := True\<rparr>)
        else do {
          b \<leftarrow> wr_block (outBuff th) (outLen th) data;
          Some (True, th\<lparr>outBuff := b, outLen := outLen th + length data\<rparr>)
        }
      else do {
        th \<leftarrow> out_adv data th;
        Some (True, th)
      })"

definition out_push :: "bytes \<Rightarrow> AT_CMUX_ENGINE_T \<Rightarrow> AT_CMUX_ENGINE_T option" where
  "out_push data th = map_option snd (at_CmuxOutPush data th)"

definition at_CmuxSendDM :: "u8 \<Rightarrow> AT_CMUX_ENGINE_T \<Rightarrow> AT_CMUX_ENGINE_T option" where
  "at_CmuxSendDM dlci th = do {
     th \<leftarrow> at_CmuxOutStart th;
     let d0 = SET_BITS26 dlci OR SET_CR CR_RESPONSE OR SET_EA;
     let d1 = FRAME_TYPE_DM OR CTRL_PF;
     th \<leftarrow> (if cx_mode th = BASIC_OPTION
            then let d2 = SET_BITS17 0 OR SET_EA
                 in out_push [d0, d1, d2, at_CmuxCalcFcs [d0, d1, d2]] th
            else out_push [d0, d1, at_CmuxCalcFcs [d0, d1]] th);
     at_CmuxOutEnd th
   }"

definition at_CmuxSendUA :: "u8 \<Rightarrow> AT_CMUX_ENGINE_T \<Rightarrow> AT_CMUX_ENGINE_T option" where
  "at_CmuxSendUA dlci th = do {
     th \<leftarrow> at_CmuxOutStart th;
     let d0 = SET_BITS26 dlci OR SET_CR CR_RESPONSE OR SET_EA;
     let d1 = FRAME_TYPE_UA OR CTRL_PF;
     th \<leftarrow> (if cx_mode th = BASIC_OPTION
            then let d2 = SET_BITS17 0 OR SET_EA
                 in out_push [d0, d1, d2, at_CmuxCalcFcs [d0, d1, d2]] th
            else out_push [d0, d1, at_CmuxCalcFcs [d0, d1]] th);
     at_CmuxOutEnd th
   }"

definition at_CmuxSendUIH :: "bytes \<Rightarrow> u8 \<Rightarrow> AT_CMUX_ENGINE_T \<Rightarrow> AT_CMUX_ENGINE_T option" where
  "at_CmuxSendUIH indata dlci th =
     (let len = length indata in
      if len = 0 then Some th
      else do {
        th \<leftarrow> at_CmuxOutStart th;
        let d0 = SET_BITS26 dlci OR SET_CR CR_COMMAND OR SET_EA;
        let d1 = FRAME_TYPE_UIH;
        th \<leftarrow> (if cx_mode th = BASIC_OPTION
               then do {
                 let hdr = (if len \<le> LENGTH_ONE_MAX
                            then [d0, d1, SET_BITS17 (of_nat len) OR SET_EA]
                            else [d0, d1, SET_BITS17 (of_nat len), of_nat (len div 2 ^ 7)]);
                 th \<leftarrow> out_push hdr th;
                 th \<leftarrow> out_push indata th;
                 out_push [at_CmuxCalcFcs hdr] th
               }
               else do {
                 th \<leftarrow> out_push [d0, d1] th;
                 th \<leftarrow> out_push indata th;
                 out_push [at_CmuxCalcFcs [d0, d1]] th
               });
        at_CmuxOutEnd th
      })"

section \<open>Control messages\<close>

text \<open>Both work on the bytes at \<open>data[1]\<close> to \<open>data[7]\<close> of a PN value.\<close>

definition at_CmuxPNDataGet :: "bytes \<Rightarrow> AT_CMUX_PARAM_T" where
  "at_CmuxPNDataGet data =
     \<lparr>frameType = GET_BITS (data ! 1) 0 4,
      convergence = GET_BITS (data ! 1) 4 4,
      priority = GET_BITS (data ! 2) 2 6,
      ackTimer = data ! 3,
      frameSize = ucast (data ! 4) OR push_bit 8 (ucast (data ! 5)),
      maxRetrans = data ! 6,
      windowSize = GET_BITS (data ! 7) 5 3\<rparr>"

definition at_CmuxPNDataSet :: "AT_CMUX_PARAM_T \<Rightarrow> bytes" where
  "at_CmuxPNDataSet param =
     [SET_BITS (frameType param) 0 4 OR SET_BITS (convergence param) 4 4,
      SET_BITS (priority param) 2 6,
      ackTimer param,
      ucast (frameSize param AND 0xff),
      ucast (drop_bit 8 (frameSize param) AND 0xff),
      maxRetrans param,
      SET_BITS (windowSize param) 5 3]"

abbreviation ctrl_head :: "u8 \<Rightarrow> u8 \<Rightarrow> u8" where
  "ctrl_head msg cr \<equiv> SET_BITS26 msg OR SET_CR cr OR SET_EA"

definition at_CmuxSendCtrlNSC :: "u8 \<Rightarrow> u8 \<Rightarrow> AT_CMUX_ENGINE_T \<Rightarrow> AT_CMUX_ENGINE_T option" where
  "at_CmuxSendCtrlNSC cr intype th =
     at_CmuxSendUIH [ctrl_head CTRL_MSG_NSC cr, SET_BITS17 1 OR SET_EA, intype] CTRL_DLCI th"

definition at_CmuxSendCtrlPN ::
  "AT_CMUX_PARAM_T \<Rightarrow> u8 \<Rightarrow> u8 \<Rightarrow> AT_CMUX_ENGINE_T \<Rightarrow> AT_CMUX_ENGINE_T option" where
  "at_CmuxSendCtrlPN param cr dlci th =
     at_CmuxSendUIH
       ([ctrl_head CTRL_MSG_PN cr, SET_BITS17 8 OR SET_EA, SET_BITS26 dlci] @ at_CmuxPNDataSet param)
       CTRL_DLCI th"

definition at_CmuxSendCtrlPSC :: "u8 \<Rightarrow> AT_CMUX_ENGINE_T \<Rightarrow> AT_CMUX_ENGINE_T option" where
  "at_CmuxSendCtrlPSC cr th =
     at_CmuxSendUIH [ctrl_head CTRL_MSG_PSC cr, SET_BITS17 0 OR SET_EA] CTRL_DLCI th"

definition at_CmuxSendCtrlCLD :: "u8 \<Rightarrow> AT_CMUX_ENGINE_T \<Rightarrow> AT_CMUX_ENGINE_T option" where
  "at_CmuxSendCtrlCLD cr th =
     at_CmuxSendUIH [ctrl_head CTRL_MSG_CLD cr, SET_BITS17 0 OR SET_EA] CTRL_DLCI th"

text \<open>The info to echo is read from the input buffer, at position \<open>indata\<close>.\<close>

definition at_CmuxSendCtrlTEST ::
  "u8 \<Rightarrow> nat \<Rightarrow> nat \<Rightarrow> AT_CMUX_ENGINE_T \<Rightarrow> AT_CMUX_ENGINE_T option" where
  "at_CmuxSendCtrlTEST cr indata len th =
     (if len > MAX_TEST_SIZE then Some th
      else do {
        info \<leftarrow> rd_block (buff th) indata len;
        at_CmuxSendUIH ([ctrl_head CTRL_MSG_TEST cr, SET_BITS17 (of_nat len) OR SET_EA] @ info)
          CTRL_DLCI th
      })"

definition at_CmuxSendCtrlFCON :: "u8 \<Rightarrow> AT_CMUX_ENGINE_T \<Rightarrow> AT_CMUX_ENGINE_T option" where
  "at_CmuxSendCtrlFCON cr th =
     at_CmuxSendUIH [ctrl_head CTRL_MSG_FCON cr, SET_BITS17 0 OR SET_EA] CTRL_DLCI th"

definition at_CmuxSendCtrlFCOFF :: "u8 \<Rightarrow> AT_CMUX_ENGINE_T \<Rightarrow> AT_CMUX_ENGINE_T option" where
  "at_CmuxSendCtrlFCOFF cr th =
     at_CmuxSendUIH [ctrl_head CTRL_MSG_FCOFF cr, SET_BITS17 0 OR SET_EA] CTRL_DLCI th"

definition at_CmuxSendCtrlMSC ::
  "u8 \<Rightarrow> u8 \<Rightarrow> u8 \<Rightarrow> u8 \<Rightarrow> AT_CMUX_ENGINE_T \<Rightarrow> AT_CMUX_ENGINE_T option" where
  "at_CmuxSendCtrlMSC cr dlci v24 br th =
     (if br \<noteq> 0
      then at_CmuxSendUIH
             [ctrl_head CTRL_MSG_MSC cr, SET_BITS17 3 OR SET_EA,
              SET_BITS26 dlci OR SET_CR 1 OR SET_EA, v24 OR SET_EA, br OR SET_EA] CTRL_DLCI th
      else at_CmuxSendUIH
             [ctrl_head CTRL_MSG_MSC cr, SET_BITS17 2 OR SET_EA,
              SET_BITS26 dlci OR SET_CR 1 OR SET_EA, v24 OR SET_EA] CTRL_DLCI th)"

text \<open>The array has five bytes; four of them are sent.\<close>

definition at_CmuxSendCtrlSNC ::
  "u8 \<Rightarrow> u8 \<Rightarrow> u8 \<Rightarrow> u8 \<Rightarrow> AT_CMUX_ENGINE_T \<Rightarrow> AT_CMUX_ENGINE_T option" where
  "at_CmuxSendCtrlSNC cr dlci srv codec th =
     (let data = [ctrl_head CTRL_MSG_SNC cr, SET_BITS17 3 OR SET_EA,
                  SET_BITS26 dlci OR SET_CR 1 OR SET_EA,
                  SET_BITS17 srv OR SET_EA, SET_BITS17 codec OR SET_EA]
      in at_CmuxSendUIH (take 4 data) CTRL_DLCI th)"

definition set_channel :: "u8 \<Rightarrow> AT_CMUX_CHANNEL_T \<Rightarrow> AT_CMUX_ENGINE_T \<Rightarrow> AT_CMUX_ENGINE_T option" where
  "set_channel dlci ch th = do {
     cs \<leftarrow> wr (channels th) (unat dlci) ch;
     Some (th\<lparr>channels := cs\<rparr>)
   }"

definition flow_resume :: "AT_CMUX_CHANNEL_T \<Rightarrow> AT_CMUX_CHANNEL_T" where
  "flow_resume ch =
     (if ch_state ch = CHANNEL_FLOW_STOPPED then ch\<lparr>ch_state := CHANNEL_CONNECT\<rparr> else ch)"

definition flow_stop :: "AT_CMUX_CHANNEL_T \<Rightarrow> AT_CMUX_CHANNEL_T" where
  "flow_stop ch =
     (if ch_state ch = CHANNEL_CONNECT then ch\<lparr>ch_state := CHANNEL_FLOW_STOPPED\<rparr> else ch)"

text \<open>The loops over the channels start at 1.\<close>

definition all_dlc :: "(AT_CMUX_CHANNEL_T \<Rightarrow> AT_CMUX_CHANNEL_T) \<Rightarrow> AT_CMUX_ENGINE_T \<Rightarrow> AT_CMUX_ENGINE_T" where
  "all_dlc f th =
     th\<lparr>channels := (case channels th of [] \<Rightarrow> [] | ch0 # chs \<Rightarrow> ch0 # map f chs)\<rparr>"

text \<open>The cases of the switch that do more than answer.\<close>

definition ctrl_PN :: "nat \<Rightarrow> nat \<Rightarrow> AT_CMUX_ENGINE_T \<Rightarrow> AT_CMUX_ENGINE_T option" where
  "ctrl_PN val valLen th =
     (if valLen \<noteq> 8 then Some th
      else do {
        v \<leftarrow> rd_block (buff th) val 8;
        let param = at_CmuxPNDataGet v;
        let dlci = GET_BITS26 (v ! 0);
        ch \<leftarrow> rd (channels th) (unat dlci);
        let ch = (if frameSize param < frameSize (ch_param ch)
                  then ch\<lparr>ch_param := (ch_param ch)\<lparr>frameSize := frameSize param\<rparr>\<rparr> else ch);
        th \<leftarrow> set_channel dlci ch th;
        at_CmuxSendCtrlPN (ch_param ch) CTRL_RESPONSE dlci th
      })"

definition ctrl_MSC :: "nat \<Rightarrow> AT_CMUX_ENGINE_T \<Rightarrow> AT_CMUX_ENGINE_T option" where
  "ctrl_MSC val th = do {
     v0 \<leftarrow> rd (buff th) val;
     let dlci = GET_BITS26 v0;
     ch \<leftarrow> rd (channels th) (unat dlci);
     v1 \<leftarrow> rd (buff th) (val + 1);
     let ch = (if v1 AND MSC_FC \<noteq> 0 then flow_stop ch else flow_resume ch);
     th \<leftarrow> set_channel dlci ch th;
     let v24 = (if ch_state ch = CHANNEL_CONNECT \<or> ch_state_val CHANNEL_FLOW_STOPPED \<noteq> 0
                then MSC_DSR_DTR OR MSC_CTS_RFR else 0);
     at_CmuxSendCtrlMSC CTRL_RESPONSE dlci v24 0 th
   }"

definition ctrl_SNC :: "nat \<Rightarrow> nat \<Rightarrow> AT_CMUX_ENGINE_T \<Rightarrow> AT_CMUX_ENGINE_T option" where
  "ctrl_SNC val valLen th = do {
     v0 \<leftarrow> rd (buff th) val;
     let dlci = GET_BITS26 v0;
     (srv, codec) \<leftarrow>
       (if valLen = 1 then Some (SET_CR 1, 0)
        else do {
          v1 \<leftarrow> rd (buff th) (val + 1);
          Some (v1 AND SET_CR 1, 0)
        });
     at_CmuxSendCtrlSNC CTRL_RESPONSE dlci srv codec th
   }"

definition ctrl_switch :: "u8 \<Rightarrow> u8 \<Rightarrow> nat \<Rightarrow> nat \<Rightarrow> AT_CMUX_ENGINE_T \<Rightarrow> AT_CMUX_ENGINE_T option" where
  "ctrl_switch info0 type val valLen th =
     (if type = CTRL_MSG_PN then ctrl_PN val valLen th
      else if type = CTRL_MSG_PSC then at_CmuxSendCtrlPSC CTRL_RESPONSE th
      else if type = CTRL_MSG_CLD then do {
        th \<leftarrow> at_CmuxSendCtrlCLD CTRL_RESPONSE th;
        Some (call TaskEndCmuxMode th)
      }
      else if type = CTRL_MSG_TEST then at_CmuxSendCtrlTEST CTRL_RESPONSE val valLen th
      else if type = CTRL_MSG_FCON then at_CmuxSendCtrlFCON CTRL_RESPONSE (all_dlc flow_resume th)
      else if type = CTRL_MSG_FCOFF then at_CmuxSendCtrlFCOFF CTRL_RESPONSE (all_dlc flow_stop th)
      else if type = CTRL_MSG_MSC then ctrl_MSC val th
      else if type = CTRL_MSG_SNC then ctrl_SNC val valLen th
      else at_CmuxSendCtrlNSC CR_RESPONSE info0 th)"

text \<open>The length of the value and its position, from the byte or two bytes after the type.\<close>

definition ctrl_value :: "nat \<Rightarrow> AT_CMUX_ENGINE_T \<Rightarrow> (nat \<times> nat) option" where
  "ctrl_value info th = do {
     info1 \<leftarrow> rd (buff th) (info + 1);
     if GET_EA info1 = 0
     then do {
       info2 \<leftarrow> rd (buff th) (info + 2);
       Some (info + 3, unat (GET_BITS17 info1) OR push_bit 7 (unat info2))
     }
     else Some (info + 2, unat (GET_BITS17 info1))
   }"

definition at_CmuxParseCtrl :: "AT_CMUX_FRAME_T \<Rightarrow> AT_CMUX_ENGINE_T \<Rightarrow> AT_CMUX_ENGINE_T option" where
  "at_CmuxParseCtrl frame th = do {
     info0 \<leftarrow> rd (buff th) (f_info frame);
     if GET_BIT1 info0 \<noteq> CTRL_COMMAND then Some th
     else do {
       (val, valLen) \<leftarrow> ctrl_value (f_info frame) th;
       ctrl_switch info0 (GET_BITS26 info0) val valLen th
     }
   }"

section \<open>Frames\<close>

definition at_CmuxHandleUIH :: "AT_CMUX_FRAME_T \<Rightarrow> AT_CMUX_ENGINE_T \<Rightarrow> AT_CMUX_ENGINE_T option" where
  "at_CmuxHandleUIH frame th =
     (if \<not> at_CmuxIsDlciValid th (f_dlci frame) then at_CmuxSendDM (f_dlci frame) th
      else do {
        ch \<leftarrow> rd (channels th) (unat (f_dlci frame));
        if ch_state ch \<noteq> CHANNEL_CONNECT \<and> ch_state ch \<noteq> CHANNEL_FLOW_STOPPED
        then at_CmuxSendDM (f_dlci frame) th
        else if f_dlci frame = CTRL_DLCI then at_CmuxParseCtrl frame th
        else do {
          info \<leftarrow> rd_block (buff th) (f_info frame) (nat (f_infoLen frame));
          Some (call (DispatchPushData (ch_dispatch ch) info) th)
        }
      })"

definition at_CmuxParseFrame ::
  "nat option \<Rightarrow> AT_CMUX_FRAME_T \<Rightarrow> AT_CMUX_ENGINE_T \<Rightarrow> AT_CMUX_ENGINE_T option" where
  "at_CmuxParseFrame created frame th =
     (let type = f_ctrl frame AND NOT CTRL_PF; dlci = f_dlci frame in
      if type = FRAME_TYPE_SABM then
        (if \<not> at_CmuxIsDlciValid th dlci then at_CmuxSendDM dlci th
         else do {
           ch \<leftarrow> rd (channels th) (unat dlci);
           if dlci = CTRL_DLCI then set_channel dlci (ch\<lparr>ch_state := CHANNEL_CONNECT\<rparr>) th
           else if ch_dispatch ch \<noteq> None then at_CmuxSendUA dlci th
           else do {
             let th = call (DispatchCreate dlci) th;
             let ch = ch\<lparr>ch_dispatch := created\<rparr>;
             if ch_dispatch ch \<noteq> None
             then do {
               th \<leftarrow> set_channel dlci (ch\<lparr>ch_state := CHANNEL_CONNECT\<rparr>) th;
               at_CmuxSendUA dlci th
             }
             else do {
               th \<leftarrow> set_channel dlci ch th;
               at_CmuxSendDM dlci th
             }
           }
         })
      else if type = FRAME_TYPE_UA then Some th
      else if type = FRAME_TYPE_DM then Some th
      else if type = FRAME_TYPE_DISC then
        (if \<not> at_CmuxIsDlciValid th dlci then at_CmuxSendDM dlci th
         else do {
           ch \<leftarrow> rd (channels th) (unat dlci);
           if ch_state ch = CHANNEL_DISCONNECT then at_CmuxSendDM dlci th
           else do {
             th \<leftarrow> at_CmuxSendUA dlci th;
             if dlci = CTRL_DLCI then Some ((call DispatchEndCmuxMode th)\<lparr>freed := True\<rparr>)
             else set_channel dlci (ch\<lparr>ch_state := CHANNEL_DISCONNECT, ch_dispatch := None\<rparr>)
                    (call (DispatchDestroy (ch_dispatch ch)) th)
           }
         })
      else if type = FRAME_TYPE_UIH then at_CmuxHandleUIH frame th
      else Some th)"

definition at_CmuxCheckFrame :: "AT_CMUX_ENGINE_T \<Rightarrow> AT_CMUX_FRAME_T option option" where
  "at_CmuxCheckFrame th = do {
     let b = buff th;
     b1 \<leftarrow> rd b 1;
     b2 \<leftarrow> rd b 2;
     fcslen \<leftarrow> (if cx_mode th = ADV_OPTION then Some 2
                else do { b3 \<leftarrow> rd b 3; Some (if GET_EA b3 \<noteq> 0 then 3 else 4) });
     hdr \<leftarrow> rd_block b 1 fcslen;
     crc \<leftarrow> rd b (buffLen th - 2);
     if \<not> at_CmuxCheckFcs hdr crc then Some None
     else Some (Some \<lparr>f_dlci = GET_BITS26 b1, f_ctrl = b2,
                      f_infoLen = int (buffLen th) - (int fcslen + 3), f_info = fcslen + 1\<rparr>)
   }"

section \<open>Input\<close>

text \<open>
  After a frame was handled, its bytes are dropped but for the closing flag, which can open
  the next frame; the caller is told how much was consumed and presents the rest later. An
  engine that was freed while the frame was handled cannot be written any more.
\<close>

definition drop_to_flag :: "u8 \<Rightarrow> AT_CMUX_ENGINE_T \<Rightarrow> AT_CMUX_ENGINE_T option" where
  "drop_to_flag c th = (if freed th then None else at_CmuxPushByte c (th\<lparr>buffLen := 0\<rparr>))"

definition basic_lenexp :: "u8 \<Rightarrow> u8 \<Rightarrow> nat" where
  "basic_lenexp b3 b4 =
     (if GET_EA b3 = 0 then (unat (GET_BITS17 b3) OR push_bit 7 (unat b4)) + 7
      else unat (GET_BITS17 b3) + 6)"

fun basic_loop :: "nat option \<Rightarrow> bytes \<Rightarrow> AT_CMUX_ENGINE_T \<Rightarrow> (bytes \<times> AT_CMUX_ENGINE_T) option" where
  "basic_loop created [] th = Some ([], th)"
| "basic_loop created (c # data) th0 =
     (let th = (if buffLen th0 \<ge> buffSize th0 then th0\<lparr>buffLen := 0\<rparr> else th0) in
      if buffLen th = 0 \<and> c \<noteq> BASIC_FLAG then basic_loop created data th
      else if buffLen th = 1 \<and> c = BASIC_FLAG then basic_loop created data th
      else if buffLen th < BASIC_MIN_FRAME_SIZE - 1 then do {
        th \<leftarrow> at_CmuxPushByte c th;
        basic_loop created data th
      }
      else do {
        b3 \<leftarrow> rd (buff th) 3;
        b4 \<leftarrow> rd (buff th) 4;
        let lenexp = basic_lenexp b3 b4;
        th \<leftarrow> at_CmuxPushByte c th;
        if buffLen th \<ge> lenexp then
          if c \<noteq> BASIC_FLAG then basic_loop created data (th\<lparr>buffLen := 0\<rparr>)
          else do {
            fr \<leftarrow> at_CmuxCheckFrame th;
            case fr of
              Some frame \<Rightarrow> do {
                th \<leftarrow> at_CmuxParseFrame created frame th;
                th \<leftarrow> drop_to_flag c th;
                Some (data, call DispatchScheduleDrain th)
              }
            | None \<Rightarrow> do {
                th \<leftarrow> drop_to_flag c th;
                basic_loop created data th
              }
          }
        else basic_loop created data th
      })"

fun adv_loop :: "nat option \<Rightarrow> bytes \<Rightarrow> AT_CMUX_ENGINE_T \<Rightarrow> (bytes \<times> AT_CMUX_ENGINE_T) option" where
  "adv_loop created [] th = Some ([], th)"
| "adv_loop created (c # data) th0 =
     (let th = (if buffLen th0 \<ge> buffSize th0 then th0\<lparr>escaped := False, buffLen := 0\<rparr> else th0) in
      if buffLen th = 0 \<and> c \<noteq> ADV_FLAG then adv_loop created data (th\<lparr>escaped := False\<rparr>)
      else if c = ADV_FLAG then do {
        th \<leftarrow> at_CmuxPushByte c (th\<lparr>escaped := False\<rparr>);
        if buffLen th = 1 then adv_loop created data th
        else if buffLen th \<ge> ADV_MIN_FRAME_SIZE then do {
          fr \<leftarrow> at_CmuxCheckFrame th;
          case fr of
            Some frame \<Rightarrow> do {
              th \<leftarrow> at_CmuxParseFrame created frame th;
              th \<leftarrow> drop_to_flag c th;
              Some (data, call DispatchScheduleDrain th)
            }
          | None \<Rightarrow> do {
              th \<leftarrow> drop_to_flag c th;
              adv_loop created data th
            }
        }
        else do {
          th \<leftarrow> drop_to_flag c th;
          adv_loop created data th
        }
      }
      else if escaped th then do {
        th \<leftarrow> at_CmuxPushByte (c XOR ADV_ESCAPE_MASK) th;
        adv_loop created data (th\<lparr>escaped := False\<rparr>)
      }
      else if c = ADV_ESCAPE_CTRL then adv_loop created data (th\<lparr>escaped := True\<rparr>)
      else do {
        th \<leftarrow> at_CmuxPushByte c th;
        adv_loop created data th
      })"

definition at_CmuxBasicPushData ::
  "nat option \<Rightarrow> bytes \<Rightarrow> AT_CMUX_ENGINE_T \<Rightarrow> (nat \<times> AT_CMUX_ENGINE_T) option" where
  "at_CmuxBasicPushData created data th = do {
     (rest, th) \<leftarrow> basic_loop created data th;
     Some (length data - length rest, th)
   }"

definition at_CmuxAdvancedPushData ::
  "nat option \<Rightarrow> bytes \<Rightarrow> AT_CMUX_ENGINE_T \<Rightarrow> (nat \<times> AT_CMUX_ENGINE_T) option" where
  "at_CmuxAdvancedPushData created data th = do {
     (rest, th) \<leftarrow> adv_loop created data th;
     Some (length data - length rest, th)
   }"

definition at_CmuxPushData ::
  "nat option \<Rightarrow> bytes \<Rightarrow> AT_CMUX_ENGINE_T \<Rightarrow> (nat \<times> AT_CMUX_ENGINE_T) option" where
  "at_CmuxPushData created data th =
     (case cx_mode th of
        BASIC_OPTION \<Rightarrow> at_CmuxBasicPushData created data th
      | ADV_OPTION \<Rightarrow> at_CmuxAdvancedPushData created data th)"

definition at_CmuxDlcWrite :: "bytes \<Rightarrow> int \<Rightarrow> AT_CMUX_ENGINE_T \<Rightarrow> AT_CMUX_ENGINE_T option" where
  "at_CmuxDlcWrite data dlci th =
     (if dlci \<le> 0 \<or> dlci > int MAX_DLC_NUM then Some th
      else do {
        ch \<leftarrow> rd (channels th) (nat dlci);
        if ch_state ch = CHANNEL_CONNECT then at_CmuxSendUIH data (of_int dlci) th else Some th
      })"

section \<open>Creation\<close>

definition cmux_channel :: "AT_CMUX_CONFIG_T \<Rightarrow> nat \<Rightarrow> AT_CMUX_CHANNEL_T" where
  "cmux_channel cfg n =
     \<lparr>ch_dispatch = None, ch_state = CHANNEL_DISCONNECT,
      ch_param = \<lparr>frameType = 0, convergence = 0, priority = at_CmuxDefaultPriority (of_nat n),
        ackTimer = cfg_ackTimer cfg, frameSize = of_nat (CMUX_IN_BUFF_SIZE div 2),
        maxRetrans = maxRetransCount cfg, windowSize = cfg_windowSize cfg\<rparr>\<rparr>"

text \<open>\<open>ib\<close>, \<open>ob\<close> and \<open>ov\<close> are what the allocated memory holds.\<close>

definition at_CmuxEngineCreate ::
  "bytes \<Rightarrow> bytes \<Rightarrow> bool \<Rightarrow> nat option \<Rightarrow> AT_CMUX_CONFIG_T \<Rightarrow> AT_CMUX_ENGINE_T" where
  "at_CmuxEngineCreate ib ob ov dispatch cfg =
     \<lparr>cx_mode = (if transparency cfg = 0 then BASIC_OPTION else ADV_OPTION),
      cx_dispatch = dispatch, cx_cfg = cfg, cx_maxFrameSize = cfg_maxFrameSize cfg,
      buff = ib, buffLen = 0, buffSize = CMUX_IN_BUFF_SIZE, escaped = False,
      outBuff = ob, outLen = 0, outOverflow = ov,
      channels = map (cmux_channel cfg) [0..<MAX_DLC_NUM], freed = False, calls = []\<rparr>"

definition at_CmuxEngineDestroy :: "AT_CMUX_ENGINE_T option \<Rightarrow> AT_CMUX_ENGINE_T option" where
  "at_CmuxEngineDestroy pth =
     (case pth of None \<Rightarrow> None
      | Some th \<Rightarrow>
          Some (foldl (\<lambda>th ch. call (DispatchDestroy (ch_dispatch ch)) th) th (channels th)
                 \<lparr>freed := True\<rparr>))"

definition gAtCmuxDefaultCfg :: AT_CMUX_CONFIG_T where
  "gAtCmuxDefaultCfg =
     \<lparr>transparency = 0, subset_opt = 0, portSpeed = 5, cfg_maxFrameSize = 127, cfg_ackTimer = 10,
      maxRetransCount = 3, respTimer = 30, wakeupRespTimer = 10, cfg_windowSize = 2\<rparr>"

end
