(* ===== verification/Cmux_Output.thy ===== *)
theory Cmux_Output
  imports Cmux
begin

text \<open>
  The output side of the multiplexer: reading back the bit fields, bytes appended to the input
  buffer, and what the sequence start, pushes, end writes to the line, both when every push
  is accepted and when one is refused.
\<close>

unbundle bit_operations_syntax

section \<open>Facts about the bit fields\<close>

lemma low_mask: "push_bit l 1 - 1 = (mask l :: u8)"
  by (simp add: mask_eq_exp_minus_1 push_bit_eq_mult)

lemma GET_BITS_take: "GET_BITS v s l = take_bit l (drop_bit s v)"
  unfolding GET_BITS_def low_mask by (simp add: take_bit_eq_mask)

lemma SET_BITS_push: "SET_BITS v s l = push_bit s (take_bit l v)"
  unfolding SET_BITS_def low_mask by (simp add: take_bit_eq_mask)

text \<open>A field is read back whatever the bits below it.\<close>

lemma GET_SET:
  assumes "s + l \<le> 8" "take_bit s low = low"
  shows "GET_BITS (SET_BITS v s l OR low) s l = take_bit l v"
proof (rule bit_word_eqI)
  fix n assume "n < LENGTH(8)"
  have "\<not> bit low (s + n)" using assms(2) by (metis bit_take_bit_iff not_add_less1)
  then show "bit (GET_BITS (SET_BITS v s l OR low) s l) n = bit (take_bit l v) n"
    using assms(1) by (auto simp: GET_BITS_take SET_BITS_push bit_simps)
qed

lemma SET_EA_1 [unfolded One_nat_def, simp]: "SET_EA = 1"
  by (simp add: SET_BITS_def)

lemma SET_BITS_low: "s + l \<le> n \<Longrightarrow> take_bit n (SET_BITS v s l) = SET_BITS v s l"
  by (rule bit_word_eqI) (auto simp: SET_BITS_push bit_simps)

lemma GET_dlci:
  assumes "d \<le> 63"
  shows "GET_BITS26 (SET_BITS26 d OR (SET_CR c OR SET_EA)) = d"
proof -
  have "take_bit 6 d = d"
    using assms by (simp add: word_unat_eq_iff word_le_nat_alt unsigned_take_bit_eq take_bit_nat_eq_self)
  moreover have "take_bit 2 (SET_CR c OR SET_EA) = SET_CR c OR SET_EA"
    using SET_BITS_low [of 1 1 2 c] SET_BITS_low [of 0 1 2 1]
    by (simp only: take_bit_or)
  ultimately show ?thesis using GET_SET [of 2 6 "SET_CR c OR SET_EA" d] by simp
qed

lemma GET_EA_set [unfolded One_nat_def, simp]: "GET_EA (SET_BITS17 v OR 1) = 1"
  by (rule bit_word_eqI) (auto simp: GET_BITS_take SET_BITS_push bit_simps)

lemma GET_EA_clear [unfolded One_nat_def, simp]: "GET_EA (SET_BITS17 v) = 0"
  by (rule bit_word_eqI) (auto simp: GET_BITS_take SET_BITS_push bit_simps)

lemma GET_BITS17_set [unfolded One_nat_def, simp]:
  "GET_BITS17 (SET_BITS17 v OR 1) = take_bit 7 v" "GET_BITS17 (SET_BITS17 v) = take_bit 7 v"
  using GET_SET [of 1 7 1 v] GET_SET [of 1 7 0 v] by simp_all

lemma lenexp_two:
  assumes "n < 2 ^ 15"
  shows "unat (take_bit 7 (of_nat n :: u8)) OR push_bit 7 (unat (of_nat (n div 2 ^ 7) :: u8)) = n"
proof -
  have "unat (take_bit 7 (of_nat n :: u8)) = take_bit 7 n"
    by (simp add: unsigned_take_bit_eq unsigned_of_nat del: unat_of_nat)
  moreover have "unat (of_nat (n div 2 ^ 7) :: u8) = drop_bit 7 n"
    using assms by (simp add: unat_of_nat drop_bit_eq_div take_bit_nat_eq_self_iff div_less_iff_less_mult)
  moreover have "take_bit 7 n OR push_bit 7 (drop_bit 7 n) = n"
  proof (rule bit_eqI)
    fix m
    show "bit (take_bit 7 n OR push_bit 7 (drop_bit 7 n)) m = bit n m"
      by (cases "m < 7") (auto simp: bit_simps)
  qed
  ultimately show ?thesis by (simp only:)
qed

section \<open>Bytes appended to the input buffer\<close>

definition fed :: "bytes \<Rightarrow> AT_CMUX_ENGINE_T \<Rightarrow> AT_CMUX_ENGINE_T" where
  "fed bs th = th\<lparr>buff := take (buffLen th) (buff th) @ bs @ drop (buffLen th + length bs) (buff th),
     buffLen := buffLen th + length bs\<rparr>"

lemma fed_simps [simp]:
  "buffLen (fed bs th) = buffLen th + length bs" "buffSize (fed bs th) = buffSize th"
  "cx_mode (fed bs th) = cx_mode th" "escaped (fed bs th) = escaped th"
  "channels (fed bs th) = channels th" "calls (fed bs th) = calls th" "freed (fed bs th) = freed th"
  "cx_dispatch (fed bs th) = cx_dispatch th" "outBuff (fed bs th) = outBuff th"
  "outLen (fed bs th) = outLen th" "outOverflow (fed bs th) = outOverflow th"
  by (simp_all add: fed_def)

lemma length_buff_fed [simp]:
  "buffLen th + length bs \<le> length (buff th) \<Longrightarrow> length (buff (fed bs th)) = length (buff th)"
  by (simp add: fed_def)

lemma buff_fed:
  "buffLen th + length bs \<le> length (buff th) \<Longrightarrow>
   take (buffLen th + length bs) (buff (fed bs th)) = take (buffLen th) (buff th) @ bs"
  by (simp add: fed_def)

lemma fed_Nil [simp]: "fed [] th = th"
  by (simp add: fed_def)

lemma fed_fed:
  "buffLen th + length (xs @ ys) \<le> length (buff th) \<Longrightarrow> fed ys (fed xs th) = fed (xs @ ys) th"
  by (cases xs) (auto simp: fed_def min_def algebra_simps)

lemma push_fed:
  assumes "buffLen th < length (buff th)"
  shows "at_CmuxPushByte c th = Some (fed [c] th)"
  using assms by (simp add: at_CmuxPushByte_def fed_def wr_in upd_conv_take_nth_drop)

section \<open>Output of a frame\<close>

definition sent :: "bytes \<Rightarrow> AT_CMUX_ENGINE_T \<Rightarrow> AT_CMUX_ENGINE_T" where
  "sent bs th = (if cx_dispatch th \<noteq> None then call (DispatchWrite bs) th else th)"

definition out_ok :: "bytes \<Rightarrow> AT_CMUX_ENGINE_T \<Rightarrow> bool" where
  "out_ok pre th \<longleftrightarrow> length (outBuff th) = CMUX_OUT_BUFF_SIZE \<and> outLen th = length pre \<and>
     take (length pre) (outBuff th) = pre \<and> \<not> outOverflow th"

text \<open>The engine without its output buffer, which no operation but the output reads.\<close>

definition no_out :: "AT_CMUX_ENGINE_T \<Rightarrow> AT_CMUX_ENGINE_T" where
  "no_out th = th\<lparr>outBuff := [], outLen := 0, outOverflow := False\<rparr>"

fun escape :: "bytes \<Rightarrow> bytes" where
  "escape [] = []"
| "escape (c # data) =
     (if c = ADV_ESCAPE_CTRL \<or> c = ADV_FLAG then ADV_ESCAPE_CTRL # (c XOR ADV_ESCAPE_MASK) # escape data
      else c # escape data)"

lemma out_start_ok:
  "length (outBuff th) = CMUX_OUT_BUFF_SIZE \<Longrightarrow>
   \<exists>t. at_CmuxOutStart th = Some t \<and> out_ok [mode_flag th] t \<and> no_out t = no_out th"
  by (auto simp: at_CmuxOutStart_def wr_in out_ok_def no_out_def take_Suc_conv_app_nth)

lemma out_byte_ok:
  "out_ok pre th \<Longrightarrow> length pre < CMUX_OUT_BUFF_SIZE \<Longrightarrow>
   \<exists>t. out_byte c th = Some t \<and> out_ok (pre @ [c]) t \<and> no_out t = no_out th"
  by (auto simp: out_byte_def wr_in out_ok_def no_out_def take_Suc_conv_app_nth)

lemma out_adv_ok:
  "out_ok pre th \<Longrightarrow> length (pre @ escape bs) \<le> CMUX_OUT_BUFF_SIZE \<Longrightarrow>
   \<exists>t. out_adv bs th = Some t \<and> out_ok (pre @ escape bs) t \<and> no_out t = no_out th"
proof (induction bs arbitrary: pre th)
  case (Cons c bs)
  show ?case
  proof (cases "c = ADV_ESCAPE_CTRL \<or> c = ADV_FLAG")
    case True
    obtain t where t: "out_byte ADV_ESCAPE_CTRL th = Some t" "out_ok (pre @ [ADV_ESCAPE_CTRL]) t"
      "no_out t = no_out th"
      using out_byte_ok [OF Cons.prems(1), of ADV_ESCAPE_CTRL] Cons.prems(2) True by auto
    obtain u where u: "out_byte (c XOR ADV_ESCAPE_MASK) t = Some u"
      "out_ok ((pre @ [ADV_ESCAPE_CTRL]) @ [c XOR ADV_ESCAPE_MASK]) u" "no_out u = no_out t"
      using out_byte_ok [OF t(2), of "c XOR ADV_ESCAPE_MASK"] Cons.prems(2) True by auto
    show ?thesis using Cons.IH [OF u(2)] Cons.prems(2) True t u by auto
  next
    case False
    obtain t where t: "out_byte c th = Some t" "out_ok (pre @ [c]) t" "no_out t = no_out th"
      using out_byte_ok [OF Cons.prems(1), of c] Cons.prems(2) False by auto
    show ?thesis using Cons.IH [OF t(2)] Cons.prems(2) False t by auto
  qed
qed simp

text \<open>What a push appends in each mode, when it neither overflows nor is refused.\<close>

definition encoded :: "AT_CMUX_ENGINE_T \<Rightarrow> bytes \<Rightarrow> bytes" where
  "encoded th bs = (if cx_mode th = BASIC_OPTION then bs else escape bs)"

lemma no_out_sel [simp]:
  "cx_mode (no_out t) = cx_mode t" "buffLen (no_out t) = buffLen t" "buff (no_out t) = buff t"
  "cx_dispatch (no_out t) = cx_dispatch t" "channels (no_out t) = channels t"
  "calls (no_out t) = calls t" "freed (no_out t) = freed t" "buffSize (no_out t) = buffSize t"
  "escaped (no_out t) = escaped t"
  by (simp_all add: no_out_def)

lemma no_out_eqD:
  assumes "no_out t = no_out u"
  shows "cx_mode t = cx_mode u" "buffLen t = buffLen u" "buff t = buff u"
    "cx_dispatch t = cx_dispatch u" "channels t = channels u" "calls t = calls u"
    "freed t = freed u" "buffSize t = buffSize u" "escaped t = escaped u"
  using assms by (metis no_out_sel)+

lemma no_out_call [simp]: "no_out (call c t) = call c (no_out t)"
  by (simp add: no_out_def call_def)

lemma no_out_sent [simp]: "no_out (sent bs t) = sent bs (no_out t)"
  by (simp add: sent_def)

lemma mode_flag_no_out: "no_out t = no_out u \<Longrightarrow> mode_flag t = mode_flag u"
  using no_out_eqD(1) [of t u] by (simp add: mode_flag_def)

lemma encoded_no_out: "no_out t = no_out u \<Longrightarrow> encoded t = encoded u"
  using no_out_eqD(1) [of t u] by (simp add: encoded_def fun_eq_iff)

text \<open>
  The basic option refuses a push by the fill of the INPUT buffer; the advanced option never
  refuses one.
\<close>

definition accepts :: "AT_CMUX_ENGINE_T \<Rightarrow> bytes \<Rightarrow> bool" where
  "accepts th bs \<longleftrightarrow> (cx_mode th = BASIC_OPTION \<longrightarrow> buffLen th + length bs < CMUX_OUT_BUFF_SIZE - 1)"

lemma out_push_ok:
  assumes "out_ok pre th" "accepts th bs" "length (pre @ encoded th bs) \<le> CMUX_OUT_BUFF_SIZE"
  shows "\<exists>t. out_push bs th = Some t \<and> out_ok (pre @ encoded th bs) t \<and> no_out t = no_out th"
proof (cases "cx_mode th = BASIC_OPTION")
  case True
  then have "(buffLen th + length bs) mod 2 ^ 32 < CMUX_OUT_BUFF_SIZE - 1"
    using assms(2) by (simp add: accepts_def)
  then show ?thesis
    using assms True
    by (auto simp: out_push_def at_CmuxOutPush_def out_ok_def encoded_def wr_block_in no_out_def)
next
  case False
  then show ?thesis
    using out_adv_ok [OF assms(1), of bs] assms
    by (auto simp: out_push_def at_CmuxOutPush_def out_ok_def encoded_def)
qed

lemma out_end_ok:
  assumes "out_ok pre th" "length pre < CMUX_OUT_BUFF_SIZE"
  shows "\<exists>t. at_CmuxOutEnd th = Some t \<and> length (outBuff t) = CMUX_OUT_BUFF_SIZE \<and>
    no_out t = no_out (sent (pre @ [mode_flag th]) th)"
  using assms
  by (auto simp: at_CmuxOutEnd_def out_ok_def wr_in sent_def call_def no_out_def mode_flag_def
      take_Suc_conv_app_nth)

text \<open>A frame put together by pushes of \<open>parts\<close> between the flags.\<close>

fun out_parts :: "bytes list \<Rightarrow> AT_CMUX_ENGINE_T \<Rightarrow> AT_CMUX_ENGINE_T option" where
  "out_parts [] th = Some th"
| "out_parts (p # ps) th = do { th \<leftarrow> out_push p th; out_parts ps th }"

lemma out_parts_ok:
  "out_ok pre th \<Longrightarrow> list_all (accepts th) ps \<Longrightarrow>
   length (pre @ concat (map (encoded th) ps)) \<le> CMUX_OUT_BUFF_SIZE \<Longrightarrow>
   \<exists>t. out_parts ps th = Some t \<and> out_ok (pre @ concat (map (encoded th) ps)) t \<and> no_out t = no_out th"
proof (induction ps arbitrary: pre th)
  case (Cons p ps)
  obtain t where t: "out_push p th = Some t" "out_ok (pre @ encoded th p) t" "no_out t = no_out th"
    using out_push_ok [OF Cons.prems(1), of p] Cons.prems by auto
  have "accepts t = accepts th"
    using no_out_eqD [OF t(3)] by (simp add: accepts_def fun_eq_iff)
  then show ?case
    using Cons.IH [OF t(2)] Cons.prems t encoded_no_out [OF t(3)] by auto
qed simp

definition send_frame :: "bytes list \<Rightarrow> AT_CMUX_ENGINE_T \<Rightarrow> AT_CMUX_ENGINE_T option" where
  "send_frame ps th = do {
     th \<leftarrow> at_CmuxOutStart th;
     th \<leftarrow> out_parts ps th;
     at_CmuxOutEnd th
   }"

definition framed :: "AT_CMUX_ENGINE_T \<Rightarrow> bytes list \<Rightarrow> bytes" where
  "framed th ps = mode_flag th # concat (map (encoded th) ps) @ [mode_flag th]"

lemma out_frame_ok:
  assumes "length (outBuff th) = CMUX_OUT_BUFF_SIZE" "list_all (accepts th) ps"
    and "length (framed th ps) \<le> CMUX_OUT_BUFF_SIZE"
  shows "\<exists>t. send_frame ps th = Some t \<and>
    length (outBuff t) = CMUX_OUT_BUFF_SIZE \<and> no_out t = no_out (sent (framed th ps) th)"
proof -
  obtain t where t: "at_CmuxOutStart th = Some t" "out_ok [mode_flag th] t" "no_out t = no_out th"
    using out_start_ok [OF assms(1)] by auto
  have same: "accepts t = accepts th" "encoded t = encoded th"
    using no_out_eqD [OF t(3)] by (simp_all add: accepts_def encoded_def fun_eq_iff)
  obtain u where u: "out_parts ps t = Some u" "no_out u = no_out t"
    "out_ok ([mode_flag th] @ concat (map (encoded th) ps)) u"
    using out_parts_ok [OF t(2), of ps] assms(2,3) by (auto simp: same framed_def)
  have flag: "mode_flag u = mode_flag th"
    using mode_flag_no_out t(3) u(2) by metis
  obtain v where "at_CmuxOutEnd u = Some v" "length (outBuff v) = CMUX_OUT_BUFF_SIZE"
    "no_out v = no_out (sent (framed th ps) u)"
    using out_end_ok [OF u(3)] assms(3) by (auto simp: flag framed_def)
  then show ?thesis using t u by (simp add: send_frame_def)
qed

text \<open>When a part is refused, the frame is dropped and nothing is written.\<close>

definition out_any :: "bytes \<Rightarrow> AT_CMUX_ENGINE_T \<Rightarrow> bool" where
  "out_any pre th \<longleftrightarrow> out_ok pre th \<or> (outOverflow th \<and> length (outBuff th) = CMUX_OUT_BUFF_SIZE)"

lemma out_push_any:
  assumes "out_any pre th" "length (pre @ encoded th bs) \<le> CMUX_OUT_BUFF_SIZE" "length bs < 2 ^ 31"
    and "buffLen th \<le> CMUX_IN_BUFF_SIZE"
  shows "\<exists>t. out_push bs th = Some t \<and> out_any (pre @ encoded th bs) t \<and> no_out t = no_out th"
proof (cases "out_ok pre th \<and> accepts th bs")
  case True
  then show ?thesis using out_push_ok [of pre th bs] assms(2) by (auto simp: out_any_def)
next
  case False
  then have "outOverflow th \<or> (out_ok pre th \<and> cx_mode th = BASIC_OPTION \<and>
      (buffLen th + length bs) mod 2 ^ 32 \<ge> CMUX_OUT_BUFF_SIZE - 1)"
    using assms by (auto simp: out_any_def accepts_def)
  then show ?thesis
    using assms(1)
    by (auto simp: out_push_def at_CmuxOutPush_def out_any_def out_ok_def no_out_def)
qed

lemma out_parts_any:
  "out_any pre th \<Longrightarrow> length (pre @ concat (map (encoded th) ps)) \<le> CMUX_OUT_BUFF_SIZE \<Longrightarrow>
   \<forall>p \<in> set ps. length p < 2 ^ 31 \<Longrightarrow> buffLen th \<le> CMUX_IN_BUFF_SIZE \<Longrightarrow>
   \<exists>t. out_parts ps th = Some t \<and> out_any (pre @ concat (map (encoded th) ps)) t \<and> no_out t = no_out th"
proof (induction ps arbitrary: pre th)
  case (Cons p ps)
  obtain t where t: "out_push p th = Some t" "out_any (pre @ encoded th p) t" "no_out t = no_out th"
    using out_push_any [OF Cons.prems(1), of p] Cons.prems by auto
  then show ?case
    using Cons.IH [OF t(2)] Cons.prems encoded_no_out [OF t(3)] no_out_eqD [OF t(3)] by auto
qed simp

lemma length_escape: "length bs \<le> length (escape bs)"
  by (induction bs rule: escape.induct) auto

lemma length_encoded: "length bs \<le> length (encoded th bs)"
  by (simp add: encoded_def length_escape)

lemma out_frame_any:
  assumes "length (outBuff th) = CMUX_OUT_BUFF_SIZE" "buffLen th \<le> CMUX_IN_BUFF_SIZE"
    and "length (framed th ps) \<le> CMUX_OUT_BUFF_SIZE"
  shows "\<exists>t. send_frame ps th = Some t \<and>
    length (outBuff t) = CMUX_OUT_BUFF_SIZE \<and>
    (no_out t = no_out th \<or> no_out t = no_out (sent (framed th ps) th))"
proof -
  obtain t where t: "at_CmuxOutStart th = Some t" "out_ok [mode_flag th] t" "no_out t = no_out th"
    using out_start_ok [OF assms(1)] by auto
  have enc: "encoded t = encoded th" by (rule encoded_no_out [OF t(3)])
  have "length p < 2 ^ 31" if "p \<in> set ps" for p
  proof -
    have "length (encoded th p) \<le> length (concat (map (encoded th) ps))"
      using that member_le_sum_list [of "length (encoded th p)" "map length (map (encoded th) ps)"]
      by (simp add: length_concat)
    then show ?thesis using assms(3) length_encoded [of p th] by (simp add: framed_def)
  qed
  then obtain u where u: "out_parts ps t = Some u" "no_out u = no_out t"
    "out_any ([mode_flag th] @ concat (map (encoded th) ps)) u"
    using out_parts_any [of "[mode_flag th]" t ps] t(2) assms(2,3) no_out_eqD(2) [OF t(3)]
    by (auto simp: enc framed_def out_any_def)
  have flag: "mode_flag u = mode_flag th"
    using mode_flag_no_out t(3) u(2) by metis
  show ?thesis
  proof (cases "outOverflow u")
    case True
    then show ?thesis
      using t u by (auto simp: send_frame_def at_CmuxOutEnd_def out_any_def out_ok_def no_out_def)
  next
    case False
    then obtain v where "at_CmuxOutEnd u = Some v" "length (outBuff v) = CMUX_OUT_BUFF_SIZE"
      "no_out v = no_out (sent (framed th ps) u)"
      using out_end_ok [of "[mode_flag th] @ concat (map (encoded th) ps)" u] u(3) assms(3)
      by (auto simp: flag framed_def out_any_def)
    then show ?thesis using t u by (auto simp: send_frame_def)
  qed
qed

lemma start_mode: "at_CmuxOutStart th = Some t \<Longrightarrow> cx_mode t = cx_mode th"
  by (auto simp: at_CmuxOutStart_def bind_eq_Some_conv)

section \<open>The frames sent\<close>

definition frame_addr :: "u8 \<Rightarrow> u8 \<Rightarrow> u8" where
  "frame_addr dlci cr = SET_BITS26 dlci OR SET_CR cr OR SET_EA"

definition uih_head :: "AT_CMUX_OPTION \<Rightarrow> u8 \<Rightarrow> nat \<Rightarrow> bytes" where
  "uih_head m dlci len =
     (if m = ADV_OPTION then [frame_addr dlci CR_COMMAND, FRAME_TYPE_UIH]
      else if len \<le> LENGTH_ONE_MAX
      then [frame_addr dlci CR_COMMAND, FRAME_TYPE_UIH, SET_BITS17 (of_nat len) OR SET_EA]
      else [frame_addr dlci CR_COMMAND, FRAME_TYPE_UIH, SET_BITS17 (of_nat len), of_nat (len div 2 ^ 7)])"

definition uih_parts :: "AT_CMUX_OPTION \<Rightarrow> u8 \<Rightarrow> bytes \<Rightarrow> bytes list" where
  "uih_parts m dlci data =
     (let h = uih_head m dlci (length data) in [h, data, [at_CmuxCalcFcs h]])"

definition resp_parts :: "AT_CMUX_OPTION \<Rightarrow> u8 \<Rightarrow> u8 \<Rightarrow> bytes list" where
  "resp_parts m dlci type =
     (let h = (if m = BASIC_OPTION then [frame_addr dlci CR_RESPONSE, type OR CTRL_PF, SET_BITS17 0 OR SET_EA]
               else [frame_addr dlci CR_RESPONSE, type OR CTRL_PF])
      in [h @ [at_CmuxCalcFcs h]])"

lemma SendUIH_parts:
  "at_CmuxSendUIH data dlci th =
     (if data = [] then Some th else send_frame (uih_parts (cx_mode th) dlci data) th)"
proof (cases "at_CmuxOutStart th")
  case (Some t)
  show ?thesis
    using start_mode [OF Some] Some
    by (cases "cx_mode th"; cases "length data \<le> LENGTH_ONE_MAX")
      (simp_all add: send_frame_def at_CmuxSendUIH_def uih_parts_def uih_head_def frame_addr_def Let_def)
qed (simp add: send_frame_def at_CmuxSendUIH_def Let_def)

lemma SendUA_parts: "at_CmuxSendUA dlci th = send_frame (resp_parts (cx_mode th) dlci FRAME_TYPE_UA) th"
proof (cases "at_CmuxOutStart th")
  case (Some t)
  then show ?thesis
    using start_mode [OF Some] by (simp add: send_frame_def at_CmuxSendUA_def resp_parts_def frame_addr_def Let_def)
qed (simp add: send_frame_def at_CmuxSendUA_def)

lemma SendDM_parts: "at_CmuxSendDM dlci th = send_frame (resp_parts (cx_mode th) dlci FRAME_TYPE_DM) th"
proof (cases "at_CmuxOutStart th")
  case (Some t)
  then show ?thesis
    using start_mode [OF Some] by (simp add: send_frame_def at_CmuxSendDM_def resp_parts_def frame_addr_def Let_def)
qed (simp add: send_frame_def at_CmuxSendDM_def)

end
