(* ===== verification/Cmux_Safety.thy ===== *)
theory Cmux_Safety
  imports Cmux_Output
begin

text \<open>
  The invariant of the multiplexer engine and its preservation by every frame and every
  input, with the exact frames that break memory safety.
\<close>

unbundle bit_operations_syntax

section \<open>Well-formed engines\<close>

definition chan_ok :: "AT_CMUX_CHANNEL_T \<Rightarrow> bool" where
  "chan_ok ch \<longleftrightarrow> (ch_state ch = CHANNEL_DISCONNECT \<longleftrightarrow> ch_dispatch ch = None)"

fun call_ok :: "cmux_call \<Rightarrow> bool" where
  "call_ok (DispatchPushData d bs) = (d \<noteq> None)"
| "call_ok _ = True"

definition cmux_ok :: "AT_CMUX_ENGINE_T \<Rightarrow> bool" where
  "cmux_ok th \<longleftrightarrow>
     length (buff th) = CMUX_IN_BUFF_SIZE \<and> buffSize th = CMUX_IN_BUFF_SIZE \<and>
     buffLen th \<le> CMUX_IN_BUFF_SIZE \<and> length (outBuff th) = CMUX_OUT_BUFF_SIZE \<and>
     length (channels th) = MAX_DLC_NUM \<and> (\<forall>n. 0 < n \<and> n < MAX_DLC_NUM \<longrightarrow> chan_ok (channels th ! n)) \<and>
     \<not> freed th \<and> list_all call_ok (calls th)"

text \<open>What an output leaves alone.\<close>

definition same_in :: "AT_CMUX_ENGINE_T \<Rightarrow> AT_CMUX_ENGINE_T \<Rightarrow> bool" where
  "same_in t th \<longleftrightarrow> buff t = buff th \<and> buffLen t = buffLen th \<and> channels t = channels th \<and>
     cx_mode t = cx_mode th \<and> escaped t = escaped th"

lemma same_in_refl [simp]: "same_in t t"
  by (simp add: same_in_def)

lemma sent_sel [simp]:
  "cx_mode (sent bs t) = cx_mode t" "buffLen (sent bs t) = buffLen t" "buff (sent bs t) = buff t"
  "channels (sent bs t) = channels t" "freed (sent bs t) = freed t"
  "buffSize (sent bs t) = buffSize t" "escaped (sent bs t) = escaped t"
  "calls (sent bs t) = calls t @ (if cx_dispatch t \<noteq> None then [DispatchWrite bs] else [])"
  by (simp_all add: sent_def call_def)

lemma call_sel [simp]:
  "cx_mode (call c t) = cx_mode t" "buffLen (call c t) = buffLen t" "buff (call c t) = buff t"
  "channels (call c t) = channels t" "freed (call c t) = freed t"
  "buffSize (call c t) = buffSize t" "escaped (call c t) = escaped t"
  "calls (call c t) = calls t @ [c]" "outBuff (call c t) = outBuff t" "cx_dispatch (call c t) = cx_dispatch t"
  by (simp_all add: call_def)

lemma send_frame_ok:
  assumes "cmux_ok th" "length (framed th ps) \<le> CMUX_OUT_BUFF_SIZE"
  shows "\<exists>t. send_frame ps th = Some t \<and> cmux_ok t \<and> same_in t th"
proof -
  obtain t where t: "send_frame ps th = Some t" "length (outBuff t) = CMUX_OUT_BUFF_SIZE"
    "no_out t = no_out th \<or> no_out t = no_out (sent (framed th ps) th)"
    using out_frame_any [of th ps] assms by (auto simp: cmux_ok_def)
  from t(3) have "cmux_ok t \<and> same_in t th"
  proof
    assume "no_out t = no_out th"
    then show ?thesis using no_out_eqD [of t th] assms(1) t(2) by (simp add: cmux_ok_def same_in_def)
  next
    assume "no_out t = no_out (sent (framed th ps) th)"
    then show ?thesis using no_out_eqD [of t "sent (framed th ps) th"] assms(1) t(2)
      by (simp add: cmux_ok_def same_in_def)
  qed
  then show ?thesis using t(1) by auto
qed

lemma length_escape_le: "length (escape bs) \<le> 2 * length bs"
  by (induction bs rule: escape.induct) auto

lemma length_encoded_le: "length (encoded th bs) \<le> 2 * length bs"
  by (simp add: encoded_def length_escape_le)

lemma length_framed_le: "length (framed th ps) \<le> 2 + 2 * length (concat ps)"
proof -
  have "length (concat (map (encoded th) ps)) \<le> 2 * length (concat ps)"
  proof (induction ps)
    case (Cons p ps)
    then show ?case using length_encoded_le [of th p] by simp
  qed simp
  then show ?thesis by (simp add: framed_def)
qed

lemma length_uih_head: "length (uih_head m d n) \<le> 4"
  by (simp add: uih_head_def)

lemma SendUIH_ok:
  assumes "cmux_ok th" "length data \<le> 2000"
  shows "\<exists>t. at_CmuxSendUIH data dlci th = Some t \<and> cmux_ok t \<and> same_in t th"
proof -
  have "length (framed th (uih_parts (cx_mode th) dlci data)) \<le> CMUX_OUT_BUFF_SIZE"
    using length_framed_le [of th "uih_parts (cx_mode th) dlci data"] assms(2)
      length_uih_head [of "cx_mode th" dlci "length data"]
    by (simp add: uih_parts_def Let_def)
  then show ?thesis using send_frame_ok [OF assms(1)] assms(1) by (simp add: SendUIH_parts)
qed

lemma resp_framed: "length (framed th (resp_parts m dlci type)) \<le> CMUX_OUT_BUFF_SIZE"
  using length_framed_le [of th "resp_parts m dlci type"]
  by (cases m) (simp_all add: resp_parts_def Let_def)

lemma SendUA_ok: "cmux_ok th \<Longrightarrow> \<exists>t. at_CmuxSendUA dlci th = Some t \<and> cmux_ok t \<and> same_in t th"
  using send_frame_ok [OF _ resp_framed] by (simp add: SendUA_parts)

lemma SendDM_ok: "cmux_ok th \<Longrightarrow> \<exists>t. at_CmuxSendDM dlci th = Some t \<and> cmux_ok t \<and> same_in t th"
  using send_frame_ok [OF _ resp_framed] by (simp add: SendDM_parts)

lemma length_PNDataSet [simp]: "length (at_CmuxPNDataSet p) = 7"
  by (simp add: at_CmuxPNDataSet_def)

lemmas ctrl_defs = at_CmuxSendCtrlNSC_def at_CmuxSendCtrlPN_def at_CmuxSendCtrlPSC_def
  at_CmuxSendCtrlCLD_def at_CmuxSendCtrlFCON_def at_CmuxSendCtrlFCOFF_def
  at_CmuxSendCtrlMSC_def at_CmuxSendCtrlSNC_def

lemma SendTEST_ok:
  assumes "cmux_ok th" "pos + MAX_TEST_SIZE \<le> CMUX_IN_BUFF_SIZE"
  shows "\<exists>t. at_CmuxSendCtrlTEST cr pos len th = Some t \<and> cmux_ok t \<and> same_in t th"
proof (cases "len > MAX_TEST_SIZE")
  case True
  then show ?thesis using assms(1) by (simp add: at_CmuxSendCtrlTEST_def)
next
  case False
  then have "rd_block (buff th) pos len = Some (take len (drop pos (buff th)))"
    using assms by (simp add: rd_block_def cmux_ok_def)
  then show ?thesis
    using False assms(1) by (simp add: at_CmuxSendCtrlTEST_def SendUIH_ok)
qed

section \<open>Channel updates\<close>

lemma set_channel_ok:
  assumes "cmux_ok th" "unat d < MAX_DLC_NUM" "0 < unat d \<Longrightarrow> chan_ok ch"
  shows "\<exists>t. set_channel d ch th = Some t \<and> cmux_ok t \<and> buffLen t = buffLen th \<and> buff t = buff th \<and>
    cx_mode t = cx_mode th"
  using assms by (auto simp: set_channel_def wr_in cmux_ok_def nth_list_update)

lemma all_dlc_ok:
  assumes "cmux_ok th" "\<And>ch. chan_ok ch \<Longrightarrow> chan_ok (f ch)"
  shows "cmux_ok (all_dlc f th)"
proof (cases "channels th")
  case Nil
  then show ?thesis using assms(1) by (simp add: cmux_ok_def)
next
  case (Cons c cs)
  have "chan_ok (f (cs ! n))" if "n < 62" for n
    using assms that Cons by (auto simp: cmux_ok_def dest!: spec [of _ "Suc n"])
  then show ?thesis
    using assms(1) Cons by (auto simp: cmux_ok_def all_dlc_def nth_Cons split: nat.splits)
qed

lemma flow_chan_ok [simp]:
  "chan_ok ch \<Longrightarrow> chan_ok (flow_resume ch)" "chan_ok ch \<Longrightarrow> chan_ok (flow_stop ch)"
  by (auto simp: chan_ok_def flow_resume_def flow_stop_def)

lemma call_ok_state: "cmux_ok th \<Longrightarrow> call_ok c \<Longrightarrow> cmux_ok (call c th)"
  by (simp add: cmux_ok_def)

section \<open>Frames that keep the engine well formed\<close>

definition ctrl_val :: "bytes \<Rightarrow> nat \<Rightarrow> u8" where
  "ctrl_val b i = b ! (i + (if GET_EA (b ! (i + 1)) = 0 then 3 else 2))"

text \<open>
  A frame is safe unless it is a DISC of the control channel, or a control message that
  starts too near the end of the buffer, or a PN or MSC message that names the channel 63
  that the table lacks.
\<close>

definition frame_safe :: "AT_CMUX_ENGINE_T \<Rightarrow> AT_CMUX_FRAME_T \<Rightarrow> bool" where
  "frame_safe th frame \<longleftrightarrow>
     (f_dlci frame = CTRL_DLCI \<and> ch_state (channels th ! 0) \<noteq> CHANNEL_DISCONNECT \<longrightarrow>
       f_ctrl frame AND NOT CTRL_PF \<noteq> FRAME_TYPE_DISC \<and>
       (f_ctrl frame AND NOT CTRL_PF = FRAME_TYPE_UIH \<longrightarrow>
         f_info frame + 3 + MAX_TEST_SIZE \<le> CMUX_IN_BUFF_SIZE \<and>
         (GET_BITS26 (buff th ! f_info frame) \<in> {CTRL_MSG_PN, CTRL_MSG_MSC} \<longrightarrow>
           GET_BITS26 (ctrl_val (buff th) (f_info frame)) \<noteq> 63)))"

lemma GET_BITS26_le: "unat (GET_BITS26 v) \<le> 63"
proof -
  have "unat (GET_BITS26 v) = take_bit 6 (unat (drop_bit 2 v))"
    by (simp add: GET_BITS_take unsigned_take_bit_eq)
  then show ?thesis using take_bit_nat_less_exp [of 6 "unat (drop_bit 2 v)"] by simp
qed

lemma GET_BITS26_lt: "GET_BITS26 v \<noteq> 63 \<Longrightarrow> unat (GET_BITS26 v) < MAX_DLC_NUM"
  using GET_BITS26_le [of v] by (auto simp: word_unat_eq_iff)

lemma set_channel_keep:
  assumes "cmux_ok th" "unat d < MAX_DLC_NUM"
    and "0 < unat d \<Longrightarrow> chan_ok (channels th ! unat d) \<Longrightarrow> chan_ok ch"
  shows "\<exists>t. set_channel d ch th = Some t \<and> cmux_ok t \<and> buffLen t = buffLen th"
  using set_channel_ok [of th d ch] assms by (auto simp: cmux_ok_def)

definition keeps :: "AT_CMUX_ENGINE_T option \<Rightarrow> bool" where
  "keeps r \<longleftrightarrow> (\<exists>t. r = Some t \<and> cmux_ok t)"

lemma keeps_Some [simp]: "keeps (Some t) \<longleftrightarrow> cmux_ok t"
  by (simp add: keeps_def)

lemma keeps_send [simp]:
  "cmux_ok th \<Longrightarrow> length data \<le> 2000 \<Longrightarrow> keeps (at_CmuxSendUIH data d th)"
  "cmux_ok th \<Longrightarrow> keeps (at_CmuxSendUA d th)" "cmux_ok th \<Longrightarrow> keeps (at_CmuxSendDM d th)"
  "cmux_ok th \<Longrightarrow> pos + MAX_TEST_SIZE \<le> CMUX_IN_BUFF_SIZE \<Longrightarrow> keeps (at_CmuxSendCtrlTEST cr pos len th)"
  unfolding keeps_def by (meson SendUIH_ok SendUA_ok SendDM_ok SendTEST_ok)+

lemma keeps_bind:
  "keeps r \<Longrightarrow> (\<And>t. r = Some t \<Longrightarrow> cmux_ok t \<Longrightarrow> keeps (f t)) \<Longrightarrow> keeps (r \<bind> f)"
  by (auto simp: keeps_def)

lemma keeps_set_channel:
  "cmux_ok th \<Longrightarrow> unat d < MAX_DLC_NUM \<Longrightarrow>
   (0 < unat d \<Longrightarrow> chan_ok (channels th ! unat d) \<Longrightarrow> chan_ok ch) \<Longrightarrow> keeps (set_channel d ch th)"
  using set_channel_keep [of th d ch] by (auto simp: keeps_def)

lemma chan_ok_param [simp]: "chan_ok (ch\<lparr>ch_param := p\<rparr>) \<longleftrightarrow> chan_ok ch"
  by (simp add: chan_ok_def)

lemma keeps_PN:
  assumes "cmux_ok th" "val + 8 \<le> CMUX_IN_BUFF_SIZE" "GET_BITS26 (buff th ! val) \<noteq> 63"
  shows "keeps (ctrl_PN val valLen th)"
proof -
  have "rd_block (buff th) val 8 = Some (take 8 (drop val (buff th)))"
    "rd (channels th) (unat (GET_BITS26 (buff th ! val))) =
       Some (channels th ! unat (GET_BITS26 (buff th ! val)))"
    using assms GET_BITS26_lt [OF assms(3)] by (simp_all add: rd_block_in rd_in cmux_ok_def)
  then show ?thesis
    using assms GET_BITS26_lt [OF assms(3)]
    by (auto simp: ctrl_PN_def ctrl_defs Let_def cmux_ok_def [of th]
        intro!: keeps_bind keeps_set_channel)
qed

lemma keeps_MSC:
  assumes "cmux_ok th" "val + 2 \<le> CMUX_IN_BUFF_SIZE" "GET_BITS26 (buff th ! val) \<noteq> 63"
  shows "keeps (ctrl_MSC val th)"
proof -
  have "rd (buff th) val = Some (buff th ! val)" "rd (buff th) (val + 1) = Some (buff th ! (val + 1))"
    "rd (channels th) (unat (GET_BITS26 (buff th ! val))) =
       Some (channels th ! unat (GET_BITS26 (buff th ! val)))"
    using assms GET_BITS26_lt [OF assms(3)] by (simp_all add: rd_in cmux_ok_def)
  then show ?thesis
    unfolding ctrl_MSC_def ctrl_defs Let_def
    using assms(1) GET_BITS26_lt [OF assms(3)]
    by (simp add: keeps_bind keeps_set_channel)
qed

lemma keeps_SNC:
  assumes "cmux_ok th" "val + 2 \<le> CMUX_IN_BUFF_SIZE"
  shows "keeps (ctrl_SNC val valLen th)"
proof -
  have "rd (buff th) val = Some (buff th ! val)" "rd (buff th) (val + 1) = Some (buff th ! (val + 1))"
    using assms by (simp_all add: rd_in cmux_ok_def)
  then show ?thesis
    using assms(1) by (simp add: ctrl_SNC_def ctrl_defs Let_def)
qed

lemma keeps_switch:
  assumes "cmux_ok th" "val + MAX_TEST_SIZE \<le> CMUX_IN_BUFF_SIZE"
    and "type \<in> {CTRL_MSG_PN, CTRL_MSG_MSC} \<longrightarrow> GET_BITS26 (buff th ! val) \<noteq> 63"
  shows "keeps (ctrl_switch info0 type val valLen th)"
  using assms
  by (simp add: ctrl_switch_def keeps_PN keeps_MSC keeps_SNC ctrl_defs keeps_bind all_dlc_ok call_ok_state)

lemma ctrl_value_in:
  assumes "cmux_ok th" "i + 3 \<le> CMUX_IN_BUFF_SIZE"
  shows "\<exists>n. ctrl_value i th = Some (i + (if GET_EA (buff th ! (i + 1)) = 0 then 3 else 2), n)"
  using assms by (simp add: ctrl_value_def rd_in cmux_ok_def)

lemma ParseCtrl_ok:
  assumes "cmux_ok th" "f_info frame + 3 + MAX_TEST_SIZE \<le> CMUX_IN_BUFF_SIZE"
    and "GET_BITS26 (buff th ! f_info frame) \<in> {CTRL_MSG_PN, CTRL_MSG_MSC} \<longrightarrow>
      GET_BITS26 (ctrl_val (buff th) (f_info frame)) \<noteq> 63"
  shows "keeps (at_CmuxParseCtrl frame th)"
proof -
  obtain n where "ctrl_value (f_info frame) th =
      Some (f_info frame + (if GET_EA (buff th ! (f_info frame + 1)) = 0 then 3 else 2), n)"
    using ctrl_value_in [of th "f_info frame"] assms by auto
  moreover have "rd (buff th) (f_info frame) = Some (buff th ! f_info frame)"
    using assms by (simp add: rd_in cmux_ok_def)
  ultimately show ?thesis
    using assms by (auto simp: at_CmuxParseCtrl_def ctrl_val_def intro!: keeps_switch)
qed

section \<open>Every safe frame keeps the engine well formed\<close>

lemma valid_dlci: "at_CmuxIsDlciValid th d \<Longrightarrow> unat d < MAX_DLC_NUM"
  by (auto simp: at_CmuxIsDlciValid_def word_le_nat_alt)

lemma chan_rd:
  "cmux_ok th \<Longrightarrow> unat d < MAX_DLC_NUM \<Longrightarrow> rd (channels th) (unat d) = Some (channels th ! unat d)"
  by (simp add: rd_in cmux_ok_def)

lemma chan_ok_nth: "cmux_ok th \<Longrightarrow> 0 < unat d \<Longrightarrow> unat d < MAX_DLC_NUM \<Longrightarrow> chan_ok (channels th ! unat d)"
  by (simp add: cmux_ok_def)

lemma HandleUIH_ok:
  assumes "cmux_ok th" "f_info frame + nat (f_infoLen frame) \<le> CMUX_IN_BUFF_SIZE"
    and "frame_safe th frame" "f_ctrl frame AND NOT CTRL_PF = FRAME_TYPE_UIH"
  shows "keeps (at_CmuxHandleUIH frame th)"
proof (cases "at_CmuxIsDlciValid th (f_dlci frame)")
  case True
  note d = valid_dlci [OF True]
  have blk: "rd_block (buff th) (f_info frame) (nat (f_infoLen frame)) =
      Some (take (nat (f_infoLen frame)) (drop (f_info frame) (buff th)))"
    using assms by (simp add: rd_block_in cmux_ok_def)
  have pos: "0 < unat (f_dlci frame)" if "f_dlci frame \<noteq> 0"
    using that by (simp add: unat_gt_0)
  show ?thesis
    using assms True chan_rd [OF assms(1) d] chan_ok_nth [OF assms(1) pos d] blk
    by (auto simp: at_CmuxHandleUIH_def frame_safe_def chan_ok_def intro!: ParseCtrl_ok call_ok_state)
qed (use assms in \<open>simp add: at_CmuxHandleUIH_def\<close>)

lemma ParseFrame_SABM_ok:
  assumes "cmux_ok th" "f_ctrl frame AND NOT CTRL_PF = FRAME_TYPE_SABM"
  shows "keeps (at_CmuxParseFrame created frame th)"
proof (cases "at_CmuxIsDlciValid th (f_dlci frame)")
  case True
  note d = valid_dlci [OF True]
  have pos: "0 < unat (f_dlci frame)" if "f_dlci frame \<noteq> 0"
    using that by (simp add: unat_gt_0)
  show ?thesis
    using assms True chan_rd [OF assms(1) d] chan_ok_nth [OF assms(1) pos d] d
    by (auto simp: at_CmuxParseFrame_def Let_def chan_ok_def
        intro!: keeps_bind keeps_set_channel call_ok_state)
qed (use assms in \<open>simp add: at_CmuxParseFrame_def\<close>)

lemma ParseFrame_DISC_ok:
  assumes "cmux_ok th" "f_ctrl frame AND NOT CTRL_PF = FRAME_TYPE_DISC" "frame_safe th frame"
  shows "keeps (at_CmuxParseFrame created frame th)"
proof (cases "at_CmuxIsDlciValid th (f_dlci frame)")
  case True
  note d = valid_dlci [OF True]
  show ?thesis
    using assms True chan_rd [OF assms(1) d] d
    by (auto simp: at_CmuxParseFrame_def Let_def chan_ok_def frame_safe_def
        intro!: keeps_bind keeps_set_channel call_ok_state)
qed (use assms in \<open>simp add: at_CmuxParseFrame_def\<close>)

lemma ParseFrame_ok:
  assumes "cmux_ok th" "frame_safe th frame"
    and "f_info frame + nat (f_infoLen frame) \<le> CMUX_IN_BUFF_SIZE"
  shows "keeps (at_CmuxParseFrame created frame th)"
proof -
  consider "f_ctrl frame AND NOT CTRL_PF = FRAME_TYPE_SABM"
    | "f_ctrl frame AND NOT CTRL_PF = FRAME_TYPE_DISC"
    | "f_ctrl frame AND NOT CTRL_PF = FRAME_TYPE_UIH"
    | "f_ctrl frame AND NOT CTRL_PF \<notin> {FRAME_TYPE_SABM, FRAME_TYPE_DISC, FRAME_TYPE_UIH}"
    by auto
  then show ?thesis
  proof cases
    case 1
    then show ?thesis using assms by (simp add: ParseFrame_SABM_ok)
  next
    case 2
    then show ?thesis using assms by (simp add: ParseFrame_DISC_ok)
  next
    case 3
    then show ?thesis using assms HandleUIH_ok by (simp add: at_CmuxParseFrame_def Let_def)
  next
    case 4
    then show ?thesis using assms by (simp add: at_CmuxParseFrame_def Let_def)
  qed
qed

section \<open>The input loops\<close>

lemma fed_ok: "cmux_ok th \<Longrightarrow> buffLen th + length bs \<le> CMUX_IN_BUFF_SIZE \<Longrightarrow> cmux_ok (fed bs th)"
  by (auto simp: cmux_ok_def fed_def)

lemma push_ok: "cmux_ok th \<Longrightarrow> buffLen th < CMUX_IN_BUFF_SIZE \<Longrightarrow> at_CmuxPushByte c th = Some (fed [c] th)"
  by (simp add: push_fed cmux_ok_def)

lemma buffLen_ok: "cmux_ok th \<Longrightarrow> n \<le> CMUX_IN_BUFF_SIZE \<Longrightarrow> cmux_ok (th\<lparr>buffLen := n\<rparr>)"
  by (simp add: cmux_ok_def)

lemma escaped_ok [simp]: "cmux_ok (th\<lparr>escaped := e\<rparr>) \<longleftrightarrow> cmux_ok th"
  by (simp add: cmux_ok_def)

lemma drop_to_flag_ok:
  "cmux_ok th \<Longrightarrow> drop_to_flag c th = Some (fed [c] (th\<lparr>buffLen := 0\<rparr>))"
  by (simp add: drop_to_flag_def cmux_ok_def push_fed)

lemma drop_to_flag_state: "cmux_ok th \<Longrightarrow> cmux_ok (fed [c] (th\<lparr>buffLen := 0\<rparr>))"
  by (intro fed_ok buffLen_ok) simp_all

lemma CheckFrame_ok:
  assumes "cmux_ok th" "5 \<le> buffLen th"
  shows "\<exists>fr. at_CmuxCheckFrame th = Some fr \<and>
    (\<forall>f. fr = Some f \<longrightarrow> f_info f + nat (f_infoLen f) \<le> CMUX_IN_BUFF_SIZE)"
proof -
  have "length (buff th) = CMUX_IN_BUFF_SIZE" using assms(1) by (simp add: cmux_ok_def)
  then show ?thesis
    using assms by (auto simp: at_CmuxCheckFrame_def Let_def rd_in rd_block_in cmux_ok_def)
qed

text \<open>
  The input completes a frame that is not safe: the byte \<open>c\<close>, a flag, closes a frame with a correct
  checksum in the buffer, after the bytes \<open>pre\<close> before it have been taken in without a frame being
  handled.
\<close>

definition bad_input :: "(bytes \<Rightarrow> AT_CMUX_ENGINE_T \<Rightarrow> (bytes \<times> AT_CMUX_ENGINE_T) option) \<Rightarrow> u8 \<Rightarrow> AT_CMUX_ENGINE_T \<Rightarrow> bytes \<Rightarrow> bool" where
  "bad_input L flag th data \<longleftrightarrow> (\<exists>pre post t f. data = pre @ flag # post \<and> L pre th = Some ([], t) \<and>
     cmux_ok t \<and> channels t = channels th \<and> 4 \<le> buffLen t \<and>
     at_CmuxCheckFrame (fed [flag] t) = Some (Some f) \<and> \<not> frame_safe (fed [flag] t) f)"

text \<open>
  A loop either ends with a well-formed engine and a rest of its input, or it meets such a frame.
\<close>

definition loop_post :: "(bytes \<Rightarrow> AT_CMUX_ENGINE_T \<Rightarrow> (bytes \<times> AT_CMUX_ENGINE_T) option) \<Rightarrow> u8 \<Rightarrow> AT_CMUX_ENGINE_T \<Rightarrow> bytes \<Rightarrow> bool" where
  "loop_post L flag th data \<longleftrightarrow>
     (\<exists>rest t. L data th = Some (rest, t) \<and> cmux_ok t \<and> suffix rest data) \<or> bad_input L flag th data"

lemma loop_post_cons:
  assumes "loop_post L flag t data" "\<And>d. L (c # d) th = L d t" "channels t = channels th"
  shows "loop_post L flag th (c # data)"
proof -
  have "bad_input L flag th (c # data)" if bad: "bad_input L flag t data"
  proof -
    obtain pre post u f where "data = pre @ flag # post" "L pre t = Some ([], u)" "cmux_ok u" "channels u = channels t"
      "4 \<le> buffLen u" "at_CmuxCheckFrame (fed [flag] u) = Some (Some f)" "\<not> frame_safe (fed [flag] u) f"
      using bad by (auto simp: bad_input_def)
    then show ?thesis using assms(2,3) unfolding bad_input_def
      by (intro exI [of _ "c # pre"] exI [of _ post] exI [of _ u] exI [of _ f]) simp
  qed
  then show ?thesis using assms by (auto simp: loop_post_def intro: suffix_ConsI)
qed

lemma CheckFrame_escaped [simp]: "at_CmuxCheckFrame (th\<lparr>escaped := b\<rparr>) = at_CmuxCheckFrame th"
  by (simp add: at_CmuxCheckFrame_def cong: if_cong)

lemma frame_safe_escaped [simp]: "frame_safe (th\<lparr>escaped := b\<rparr>) f = frame_safe th f"
  by (simp add: frame_safe_def)

lemma fed_escaped: "fed bs (th\<lparr>escaped := b\<rparr>) = (fed bs th)\<lparr>escaped := b\<rparr>"
  by (simp add: fed_def)

text \<open>The loop at a flag that closes a frame.\<close>

lemma frame_done:
  assumes "cmux_ok th" "cmux_ok (fed [flag] th)" "4 \<le> buffLen th" "at_CmuxCheckFrame (fed [flag] th) = Some (Some f)"
    and "L [] th = Some ([], th)" "t = (fed [flag] th)\<lparr>escaped := b\<rparr>"
    and "L (flag # data) th = do {
      th \<leftarrow> at_CmuxParseFrame created f t;
      th \<leftarrow> drop_to_flag flag th;
      Some (data, call DispatchScheduleDrain th)
    }"
  shows "loop_post L flag th (flag # data)"
proof (cases "frame_safe (fed [flag] th) f")
  case True
  then have t: "cmux_ok t" "frame_safe t f" "at_CmuxCheckFrame t = Some (Some f)" "5 \<le> buffLen t"
    using assms(2-4,6) by simp_all
  obtain u where "at_CmuxParseFrame created f t = Some u" "cmux_ok u"
    using ParseFrame_ok [OF t(1,2)] CheckFrame_ok [OF t(1,4)] t(3)
    by (auto simp: keeps_def)
  then show ?thesis
    using assms(7) by (auto simp: loop_post_def drop_to_flag_ok intro!: call_ok_state drop_to_flag_state suffix_ConsI)
next
  case False
  then have "bad_input L flag th (flag # data)"
    unfolding bad_input_def using assms(1,3-5) by (intro exI [of _ "[]"] exI [of _ data] exI [of _ th] exI [of _ f]) simp
  then show ?thesis by (simp add: loop_post_def)
qed

lemma basic_loop_post: "cmux_ok th \<Longrightarrow> loop_post (basic_loop created) BASIC_FLAG th data"
proof (induction data arbitrary: th)
  case Nil
  then show ?case by (simp add: loop_post_def)
next
  case (Cons c data)
  define t where "t = (if buffLen th \<ge> buffSize th then th\<lparr>buffLen := 0\<rparr> else th)"
  have t: "cmux_ok t" "channels t = channels th" "buffLen t < CMUX_IN_BUFF_SIZE"
    using Cons.prems by (auto simp: t_def cmux_ok_def)
  note next_ok = loop_post_cons [OF Cons.IH]
  note f = push_ok [OF t(1,3)] fed_ok [OF t(1), of "[c]"]
  have r: "rd (buff t) 3 = Some (buff t ! 3)" "rd (buff t) 4 = Some (buff t ! 4)"
    using t(1) by (simp_all add: rd_in cmux_ok_def)
  let ?t' = "fed [c] t"
  consider "buffLen t = 0 \<and> c \<noteq> BASIC_FLAG \<or> buffLen t = 1 \<and> c = BASIC_FLAG"
    | "\<not> (buffLen t = 0 \<and> c \<noteq> BASIC_FLAG)" "\<not> (buffLen t = 1 \<and> c = BASIC_FLAG)" "buffLen t < 5"
    | "\<not> buffLen t < 5" "buffLen ?t' < basic_lenexp (buff t ! 3) (buff t ! 4)"
    | "\<not> buffLen t < 5" "\<not> buffLen ?t' < basic_lenexp (buff t ! 3) (buff t ! 4)" "c \<noteq> BASIC_FLAG"
    | "\<not> buffLen t < 5" "c = BASIC_FLAG" "basic_lenexp (buff t ! 3) (buff t ! 4) \<le> buffLen ?t'"
    by linarith
  then show ?case
  proof cases
    case 1
    then show ?thesis using t by (intro next_ok [of t]) (auto simp: Let_def simp flip: t_def)
  next
    case 2
    then show ?thesis using t f by (intro next_ok [of ?t']) (auto simp: Let_def simp flip: t_def)
  next
    case 3
    then show ?thesis using t f r by (intro next_ok [of ?t']) (auto simp: Let_def simp flip: t_def)
  next
    case 4
    then show ?thesis using t f r
      by (intro next_ok [of "?t'\<lparr>buffLen := 0\<rparr>"]) (auto simp: Let_def simp flip: t_def intro!: buffLen_ok)
  next
    case 5
    then have th: "t = th" by (auto simp: t_def)
    obtain fr where fr: "at_CmuxCheckFrame ?t' = Some fr"
      using CheckFrame_ok [of ?t'] f(2) t(3) 5(1) by auto
    show ?thesis
    proof (cases fr)
      case None
      then show ?thesis using t f r fr 5
        by (intro next_ok [of "fed [c] (?t'\<lparr>buffLen := 0\<rparr>)"]) (auto simp: Let_def drop_to_flag_ok simp flip: t_def intro!: drop_to_flag_state)
    next
      case (Some g)
      have u: "?t' = (fed [BASIC_FLAG] th)\<lparr>escaped := escaped th\<rparr>" using 5(2) th by (simp add: fed_def)
      have "basic_loop created (BASIC_FLAG # data) th = do {
          th \<leftarrow> at_CmuxParseFrame created g ?t';
          th \<leftarrow> drop_to_flag BASIC_FLAG th;
          Some (data, call DispatchScheduleDrain th) }"
        using t f r fr 5 Some by (simp add: Let_def flip: t_def)
      then show ?thesis
        using frame_done [of th BASIC_FLAG g "basic_loop created" ?t' "escaped th" data created] u Cons.prems f(2) t(3) fr Some 5(1,2) th
        by simp
    qed
  qed
qed

lemma adv_loop_post: "cmux_ok th \<Longrightarrow> loop_post (adv_loop created) ADV_FLAG th data"
proof (induction data arbitrary: th)
  case Nil
  then show ?case by (simp add: loop_post_def)
next
  case (Cons c data)
  define t where "t = (if buffLen th \<ge> buffSize th then th\<lparr>escaped := False, buffLen := 0\<rparr> else th)"
  have t: "cmux_ok t" "channels t = channels th" "buffLen t < CMUX_IN_BUFF_SIZE"
    using Cons.prems by (auto simp: t_def cmux_ok_def)
  note next_ok = loop_post_cons [OF Cons.IH]
  define u where "u = t\<lparr>escaped := False\<rparr>"
  have u: "cmux_ok u" "channels u = channels th" "buffLen u < CMUX_IN_BUFF_SIZE"
    using t by (simp_all add: u_def)
  let ?u' = "fed [c] u"
  have pt: "at_CmuxPushByte x t = Some (fed [x] t)" "cmux_ok (fed [x] t)" for x
    using push_ok [OF t(1,3)] fed_ok [OF t(1), of "[x]"] t(3) by auto
  have pu: "at_CmuxPushByte c u = Some ?u'" "cmux_ok ?u'" "channels ?u' = channels th"
    using push_ok [OF u(1,3)] fed_ok [OF u(1), of "[c]"] u by auto
  consider "buffLen t = 0 \<and> c \<noteq> ADV_FLAG"
    | "c = ADV_FLAG" "buffLen ?u' = 1"
    | "c = ADV_FLAG" "buffLen ?u' \<noteq> 1" "buffLen ?u' < 5"
    | "c = ADV_FLAG" "5 \<le> buffLen ?u'"
    | "\<not> (buffLen t = 0 \<and> c \<noteq> ADV_FLAG)" "c \<noteq> ADV_FLAG" "escaped t"
    | "\<not> (buffLen t = 0 \<and> c \<noteq> ADV_FLAG)" "c \<noteq> ADV_FLAG" "\<not> escaped t" "c = ADV_ESCAPE_CTRL"
    | "\<not> (buffLen t = 0 \<and> c \<noteq> ADV_FLAG)" "c \<noteq> ADV_FLAG" "\<not> escaped t" "c \<noteq> ADV_ESCAPE_CTRL"
    by linarith
  then show ?case
  proof cases
    case 1
    then show ?thesis using t u by (intro next_ok [of u]) (auto simp: Let_def simp flip: t_def u_def)
  next
    case 2
    then show ?thesis using u pu by (intro next_ok [of ?u']) (auto simp: Let_def simp flip: t_def u_def)
  next
    case 3
    then show ?thesis using u pu
      by (intro next_ok [of "fed [c] (?u'\<lparr>buffLen := 0\<rparr>)"])
        (auto simp: Let_def drop_to_flag_ok simp flip: t_def u_def intro!: drop_to_flag_state)
  next
    case 4
    obtain fr where fr: "at_CmuxCheckFrame ?u' = Some fr"
      using CheckFrame_ok [OF pu(2) 4(2)] by auto
    show ?thesis
    proof (cases fr)
      case None
      then show ?thesis using u pu fr 4
        by (intro next_ok [of "fed [c] (?u'\<lparr>buffLen := 0\<rparr>)"])
          (auto simp: Let_def drop_to_flag_ok simp flip: t_def u_def intro!: drop_to_flag_state)
    next
      case (Some g)
      have "t = th" using 4(2) by (auto simp: t_def u_def split: if_splits)
      then have w: "?u' = (fed [ADV_FLAG] th)\<lparr>escaped := False\<rparr>" "4 \<le> buffLen th"
        using 4 by (simp_all add: u_def fed_escaped)
      have "adv_loop created (ADV_FLAG # data) th = do {
          th \<leftarrow> at_CmuxParseFrame created g ?u';
          th \<leftarrow> drop_to_flag ADV_FLAG th;
          Some (data, call DispatchScheduleDrain th) }"
        using pu fr 4 Some by (simp add: Let_def flip: t_def u_def)
      moreover have "cmux_ok (fed [ADV_FLAG] th)" using pt(2) [of ADV_FLAG] \<open>t = th\<close> by simp
      moreover have "at_CmuxCheckFrame (fed [ADV_FLAG] th) = Some (Some g)" using fr Some w(1) by simp
      ultimately show ?thesis
        using frame_done [of th ADV_FLAG g "adv_loop created" ?u' False data created] w Cons.prems 4(1) by simp
    qed
  next
    case 5
    then show ?thesis using t pt
      by (intro next_ok [of "(fed [c XOR ADV_ESCAPE_MASK] t)\<lparr>escaped := False\<rparr>"]) (auto simp: Let_def simp flip: t_def)
  next
    case 6
    then show ?thesis using t pt by (intro next_ok [of "t\<lparr>escaped := True\<rparr>"]) (auto simp: Let_def simp flip: t_def)
  next
    case 7
    then show ?thesis using t pt by (intro next_ok [of "fed [c] t"]) (auto simp: Let_def simp flip: t_def)
  qed
qed

text \<open>The same of the whole operation.\<close>

definition cmux_flag :: "AT_CMUX_ENGINE_T \<Rightarrow> u8" where
  "cmux_flag th = (if cx_mode th = BASIC_OPTION then BASIC_FLAG else ADV_FLAG)"

definition completes_unsafe :: "nat option \<Rightarrow> AT_CMUX_ENGINE_T \<Rightarrow> bytes \<Rightarrow> bool" where
  "completes_unsafe created th data \<longleftrightarrow> (\<exists>pre post t f. data = pre @ cmux_flag th # post \<and>
     at_CmuxPushData created pre th = Some (length pre, t) \<and> cmux_ok t \<and> channels t = channels th \<and> 4 \<le> buffLen t \<and>
     at_CmuxCheckFrame (fed [cmux_flag th] t) = Some (Some f) \<and> \<not> frame_safe (fed [cmux_flag th] t) f)"

lemma PushData_post:
  assumes "cmux_ok th"
  shows "(\<exists>n t. at_CmuxPushData created data th = Some (n, t) \<and> cmux_ok t \<and> n \<le> length data) \<or>
    completes_unsafe created th data"
proof (cases "cx_mode th")
  case BASIC_OPTION
  have "completes_unsafe created th data" if "bad_input (basic_loop created) BASIC_FLAG th data"
    using that BASIC_OPTION
    by (fastforce simp: bad_input_def completes_unsafe_def cmux_flag_def at_CmuxPushData_def at_CmuxBasicPushData_def)
  then show ?thesis
    using basic_loop_post [OF assms, of created data] BASIC_OPTION
    by (auto simp: at_CmuxPushData_def at_CmuxBasicPushData_def loop_post_def suffix_def)
next
  case ADV_OPTION
  have "completes_unsafe created th data" if "bad_input (adv_loop created) ADV_FLAG th data"
    using that ADV_OPTION
    by (fastforce simp: bad_input_def completes_unsafe_def cmux_flag_def at_CmuxPushData_def at_CmuxAdvancedPushData_def)
  then show ?thesis
    using adv_loop_post [OF assms, of created data] ADV_OPTION
    by (auto simp: at_CmuxPushData_def at_CmuxAdvancedPushData_def loop_post_def suffix_def)
qed

text \<open>While the control channel is closed, every frame is safe.\<close>

lemma closed_not_bad: "ch_state (channels th ! 0) = CHANNEL_DISCONNECT \<Longrightarrow> \<not> completes_unsafe created th data"
  by (auto simp: completes_unsafe_def frame_safe_def)

lemma Create_ok:
  assumes "length ib = CMUX_IN_BUFF_SIZE" "length ob = CMUX_OUT_BUFF_SIZE"
  shows "cmux_ok (at_CmuxEngineCreate ib ob ov d cfg)"
  using assms by (simp add: cmux_ok_def at_CmuxEngineCreate_def cmux_channel_def chan_ok_def del: upt_rec_numeral)

end
