(* ===== verification/Cmux_Link.thy ===== *)
theory Cmux_Link
  imports Cmux_Safety Stream
begin

text \<open>
  Two engines at the ends of a line: the frames sent by one are the frames delivered by the
  other, through the interface of byte-stream engines. Then flow control, parameter
  negotiation and the behaviour on the control channel.
\<close>

unbundle bit_operations_syntax

section \<open>The frame on the line\<close>

definition flag_of :: "AT_CMUX_OPTION \<Rightarrow> u8" where
  "flag_of m = (if m = BASIC_OPTION then BASIC_FLAG else ADV_FLAG)"

definition line_enc :: "AT_CMUX_OPTION \<Rightarrow> bytes \<Rightarrow> bytes" where
  "line_enc m bs = (if m = BASIC_OPTION then bs else escape bs)"

definition uih_body :: "AT_CMUX_OPTION \<Rightarrow> u8 \<Rightarrow> bytes \<Rightarrow> bytes" where
  "uih_body m dlci data = concat (uih_parts m dlci data)"

definition uih_wire :: "AT_CMUX_OPTION \<Rightarrow> u8 \<Rightarrow> bytes \<Rightarrow> bytes" where
  "uih_wire m dlci data = flag_of m # line_enc m (uih_body m dlci data) @ [flag_of m]"

lemma escape_append: "escape (xs @ ys) = escape xs @ escape ys"
  by (induction xs rule: escape.induct) auto

lemma escape_concat: "concat (map escape ps) = escape (concat ps)"
  by (induction ps) (simp_all add: escape_append)

lemma encoded_line: "encoded th = line_enc (cx_mode th)"
  by (simp add: fun_eq_iff encoded_def line_enc_def)

lemma line_enc_concat: "concat (map (line_enc m) ps) = line_enc m (concat ps)"
proof (cases "m = BASIC_OPTION")
  case True
  then have "line_enc m = (\<lambda>bs. bs)" by (simp add: fun_eq_iff line_enc_def)
  then show ?thesis by simp
next
  case False
  then have "line_enc m = escape" by (simp add: fun_eq_iff line_enc_def)
  then show ?thesis by (simp add: escape_concat)
qed

lemma framed_uih: "framed th (uih_parts (cx_mode th) dlci data) = uih_wire (cx_mode th) dlci data"
  by (simp add: framed_def uih_wire_def mode_flag_def flag_of_def uih_body_def encoded_line
      line_enc_concat)

lemma uih_body_eq:
  "uih_body m dlci data =
     uih_head m dlci (length data) @ data @ [at_CmuxCalcFcs (uih_head m dlci (length data))]"
  by (simp add: uih_body_def uih_parts_def Let_def)

text \<open>Data and frame fit: in the buffers, and below the refusal of the basic option.\<close>

definition uih_fits :: "AT_CMUX_OPTION \<Rightarrow> u8 \<Rightarrow> bytes \<Rightarrow> bool" where
  "uih_fits m dlci data \<longleftrightarrow> data \<noteq> [] \<and> length (uih_wire m dlci data) \<le> CMUX_OUT_BUFF_SIZE"

section \<open>A received UIH frame\<close>

lemma uih_head_fields:
  assumes "dlci \<le> 62"
  shows "GET_BITS26 (frame_addr dlci cr) = dlci"
  using assms GET_dlci [of dlci cr] by (simp add: frame_addr_def word_le_nat_alt)

lemma frame_slices:
  assumes "take n b = f # h @ d @ [x, g]" "n = length h + length d + 3" "n \<le> length b"
  shows "take (length h) (drop 1 b) = h" "take (length d) (drop (length h + 1) b) = d"
    "b ! (n - 2) = x" "\<And>i. i < length h \<Longrightarrow> b ! (i + 1) = h ! i" "b ! 0 = f"
proof -
  have "b = (f # h @ d @ [x, g]) @ drop n b"
    using assms(1) by (metis append_take_drop_id)
  then obtain r where b: "b = f # h @ d @ x # g # r" by auto
  show "take (length h) (drop 1 b) = h" "take (length d) (drop (length h + 1) b) = d"
    "b ! (n - 2) = x" "b ! 0 = f"
    using assms(2) by (simp_all add: b nth_append nth_Cons')
  show "b ! (i + 1) = h ! i" if "i < length h" for i
    using that by (simp add: b nth_append)
qed

lemma CheckFrame_uih:
  fixes data :: bytes and m :: AT_CMUX_OPTION and dlci :: u8
  defines "h \<equiv> uih_head m dlci (length data)"
  assumes "cmux_ok th" "cx_mode th = m" "dlci \<le> 62"
    and "take (buffLen th) (buff th) = f # h @ data @ [at_CmuxCalcFcs h, g]"
  shows "at_CmuxCheckFrame th = Some (Some \<lparr>f_dlci = dlci, f_ctrl = FRAME_TYPE_UIH,
    f_infoLen = int (length data), f_info = length h + 1\<rparr>)"
    and "rd_block (buff th) (length h + 1) (length data) = Some data"
proof -
  let ?b = "buff th"
  have n: "buffLen th = length h + length data + 3" "buffLen th \<le> length ?b"
    using arg_cong [OF assms(5), of length] assms(2) by (simp_all add: cmux_ok_def)
  note sl = frame_slices [OF assms(5) n]
  show "rd_block ?b (length h + 1) (length data) = Some data"
    using sl(2) n by (simp add: rd_block_in)
  have h: "h ! 0 = frame_addr dlci 0" "h ! 1 = FRAME_TYPE_UIH" "2 \<le> length h" "h \<noteq> []"
    by (simp_all add: h_def uih_head_def)
  then have b12: "rd ?b 1 = Some (frame_addr dlci 0)" "rd ?b 2 = Some FRAME_TYPE_UIH"
    using sl(4) [of 0] sl(4) [of 1] n by (simp_all add: rd_in numeral_2_eq_2)
  have fcs: "rd ?b (buffLen th - 2) = Some (at_CmuxCalcFcs h)"
    using sl(3) n by (simp add: rd_in)
  have hd: "rd_block ?b 1 (length h) = Some h"
    using sl(1) n by (simp add: rd_block_in)
  have len: "(if cx_mode th = ADV_OPTION then Some 2
      else do { b3 \<leftarrow> rd ?b 3; Some (if GET_EA b3 \<noteq> 0 then 3 else 4) }) = Some (length h)"
  proof (cases m)
    case ADV_OPTION
    then show ?thesis using assms(3) by (simp add: h_def uih_head_def)
  next
    case BASIC_OPTION
    then have "2 < length h" by (simp add: h_def uih_head_def)
    then have "rd ?b 3 = Some (h ! 2)"
      using sl(4) [of 2] n by (simp add: rd_in)
    then show ?thesis
      using assms(3) BASIC_OPTION by (simp add: h_def uih_head_def)
  qed
  show "at_CmuxCheckFrame th = Some (Some \<lparr>f_dlci = dlci, f_ctrl = FRAME_TYPE_UIH,
    f_infoLen = int (length data), f_info = length h + 1\<rparr>)"
    unfolding at_CmuxCheckFrame_def Let_def b12 len fcs bind.bind_lunit hd
    using n by (simp add: uih_head_fields [OF assms(4)])
qed

definition uih_event :: "AT_CMUX_CHANNEL_T list \<Rightarrow> u8 \<times> bytes \<Rightarrow> cmux_call list" where
  "uih_event chs = (\<lambda>(dlci, data).
     [DispatchPushData (ch_dispatch (chs ! unat dlci)) data, DispatchScheduleDrain])"

text \<open>A frame the receiver delivers: an open data channel of its option.\<close>

definition uih_good :: "AT_CMUX_OPTION \<Rightarrow> AT_CMUX_CHANNEL_T list \<Rightarrow> u8 \<times> bytes \<Rightarrow> bool" where
  "uih_good m chs = (\<lambda>(dlci, data).
     0 < dlci \<and> dlci \<le> (if m = BASIC_OPTION then 61 else 62) \<and>
     ch_state (chs ! unat dlci) \<noteq> CHANNEL_DISCONNECT \<and> data \<noteq> [] \<and>
     length (uih_body m dlci data) + 2 \<le> CMUX_IN_BUFF_SIZE)"

definition cx_ready :: "AT_CMUX_OPTION \<Rightarrow> AT_CMUX_ENGINE_T \<Rightarrow> bool" where
  "cx_ready m th \<longleftrightarrow> cmux_ok th \<and> cx_mode th = m \<and> \<not> escaped th \<and>
     (buffLen th = 0 \<or> buffLen th = 1 \<and> buff th ! 0 = flag_of m)"

text \<open>The whole frame is in the buffer: it is handled and only its closing flag stays.\<close>

lemma uih_received:
  fixes data :: bytes and m :: AT_CMUX_OPTION and dlci :: u8
  assumes "cmux_ok th" "cx_mode th = m" "\<not> escaped th" "uih_good m (channels th) (dlci, data)"
    and "take (buffLen th) (buff th) = flag_of m # uih_body m dlci data @ [flag_of m]"
  shows "\<exists>fr t. at_CmuxCheckFrame th = Some (Some fr) \<and>
    do { th \<leftarrow> at_CmuxParseFrame created fr th;
         th \<leftarrow> drop_to_flag (flag_of m) th;
         Some (rest, call DispatchScheduleDrain th) } = Some (rest, t) \<and>
    cx_ready m t \<and> channels t = channels th \<and> calls t = calls th @ uih_event (channels th) (dlci, data)"
proof -
  let ?h = "uih_head m dlci (length data)"
  let ?fr = "\<lparr>f_dlci = dlci, f_ctrl = FRAME_TYPE_UIH, f_infoLen = int (length data), f_info = length ?h + 1\<rparr>"
  let ?ch = "channels th ! unat dlci"
  have d62: "dlci \<le> 62"
    using assms(4) by (auto simp: uih_good_def word_le_nat_alt split: if_splits)
  have t: "take (buffLen th) (buff th) = flag_of m # ?h @ data @ [at_CmuxCalcFcs ?h, flag_of m]"
    using assms(5) by (simp add: uih_body_eq)
  note cf = CheckFrame_uih [OF assms(1,2) d62 t]
  have valid: "at_CmuxIsDlciValid th dlci"
    using assms(2,4) by (cases m) (auto simp: at_CmuxIsDlciValid_def uih_good_def)
  have ch: "rd (channels th) (unat dlci) = Some ?ch"
    by (rule chan_rd [OF assms(1) valid_dlci [OF valid]])
  have st: "ch_state ?ch = CHANNEL_CONNECT \<or> ch_state ?ch = CHANNEL_FLOW_STOPPED"
    using assms(4) by (cases "ch_state ?ch") (auto simp: uih_good_def)
  have ne0: "dlci \<noteq> 0" using assms(4) by (auto simp: uih_good_def)
  have some: "ch_dispatch ?ch \<noteq> None"
    using chan_ok_nth [OF assms(1) _ valid_dlci [OF valid]] st ne0
    by (auto simp: chan_ok_def unat_gt_0)
  let ?u = "call (DispatchPushData (ch_dispatch ?ch) data) th"
  have pf: "at_CmuxParseFrame created ?fr th = Some ?u"
    using valid ch st ne0 cf(2) by (auto simp: at_CmuxParseFrame_def at_CmuxHandleUIH_def Let_def)
  have u: "cmux_ok ?u" using assms(1) some by (intro call_ok_state) simp_all
  let ?v = "fed [flag_of m] (?u\<lparr>buffLen := 0\<rparr>)"
  have v: "drop_to_flag (flag_of m) ?u = Some ?v" "cmux_ok ?v"
    using drop_to_flag_ok [OF u] drop_to_flag_state [OF u] by auto
  moreover have "cx_ready m (call DispatchScheduleDrain ?v)"
    using v(2) assms(2,3) by (auto simp: cx_ready_def fed_def intro: call_ok_state)
  ultimately show ?thesis
    using cf(1) pf by (intro exI [of _ ?fr] exI [of _ "call DispatchScheduleDrain ?v"])
      (simp add: uih_event_def)
qed

section \<open>Feeding the body\<close>

lemma adv_feed:
  "cmux_ok th \<Longrightarrow> \<not> escaped th \<Longrightarrow> 1 \<le> buffLen th \<Longrightarrow> buffLen th + length bs \<le> CMUX_IN_BUFF_SIZE \<Longrightarrow>
   adv_loop created (escape bs @ rest) th = adv_loop created rest (fed bs th)"
proof (induction bs arbitrary: th)
  case (Cons c bs)
  have lt: "buffLen th < buffSize th" "buffLen th < CMUX_IN_BUFF_SIZE"
    using Cons.prems by (simp_all add: cmux_ok_def)
  have step: "adv_loop created (escape bs @ rest) (fed [c] th) = adv_loop created rest (fed (c # bs) th)"
    using Cons.IH [of "fed [c] th"] Cons.prems fed_ok [OF Cons.prems(1), of "[c]"]
      fed_fed [of th "[c]" bs] by (simp add: cmux_ok_def)
  have unesc: "(fed [c] (th\<lparr>escaped := True\<rparr>))\<lparr>escaped := False\<rparr> = fed [c] th"
    using Cons.prems(2) by (simp add: fed_def)
  have push: "at_CmuxPushByte c th = Some (fed [c] th)"
    "at_CmuxPushByte c (th\<lparr>escaped := True\<rparr>) = Some (fed [c] (th\<lparr>escaped := True\<rparr>))"
    using push_ok [OF Cons.prems(1) lt(2)] push_ok [of "th\<lparr>escaped := True\<rparr>" c] Cons.prems(1) lt(2)
    by simp_all
  show ?case
  proof (cases "c = ADV_ESCAPE_CTRL \<or> c = ADV_FLAG")
    case True
    then have "c XOR ADV_ESCAPE_MASK \<noteq> ADV_FLAG" "c \<noteq> 0" by auto
    then show ?thesis
      using True lt Cons.prems(2,3) push step unesc by (auto simp: Let_def xor.assoc)
  next
    case False
    then show ?thesis using lt Cons.prems(2,3) push step by (simp add: Let_def)
  qed
qed simp

lemma basic_feed:
  "cmux_ok th \<Longrightarrow> 2 \<le> buffLen th \<Longrightarrow> buffLen th + length bs \<le> CMUX_IN_BUFF_SIZE \<Longrightarrow>
   (6 \<le> buffLen th + length bs \<Longrightarrow>
      buffLen th + length bs < basic_lenexp (buff (fed bs th) ! 3) (buff (fed bs th) ! 4)) \<Longrightarrow>
   basic_loop created (bs @ rest) th = basic_loop created rest (fed bs th)"
proof (induction bs arbitrary: th)
  case (Cons c bs)
  have len: "length (buff th) = CMUX_IN_BUFF_SIZE" "buffSize th = CMUX_IN_BUFF_SIZE"
    using Cons.prems(1) by (simp_all add: cmux_ok_def)
  have ff: "fed bs (fed [c] th) = fed (c # bs) th"
    using fed_fed [of th "[c]" bs] Cons.prems(3) len by simp
  have step: "basic_loop created (bs @ rest) (fed [c] th) = basic_loop created rest (fed (c # bs) th)"
    using Cons.IH [of "fed [c] th"] Cons.prems fed_ok [OF Cons.prems(1), of "[c]"] by (simp add: ff)
  have push: "at_CmuxPushByte c th = Some (fed [c] th)"
    using push_ok [OF Cons.prems(1)] Cons.prems(3) by simp
  show ?case
  proof (cases "buffLen th < 5")
    case True
    then show ?thesis using Cons.prems len push step by (simp add: Let_def)
  next
    case False
    then have "buff (fed (c # bs) th) ! 3 = buff th ! 3" "buff (fed (c # bs) th) ! 4 = buff th ! 4"
      using len by (simp_all add: fed_def nth_append)
    then have "buffLen th + 1 < basic_lenexp (buff th ! 3) (buff th ! 4)"
      using Cons.prems(4) False by simp
    moreover have "rd (buff th) 3 = Some (buff th ! 3)" "rd (buff th) 4 = Some (buff th ! 4)"
      using len by (simp_all add: rd_in)
    ultimately show ?thesis using False Cons.prems len push step by (simp add: Let_def)
  qed
qed simp

lemma uih_body_lenexp:
  assumes "take n b = f # uih_body BASIC_OPTION dlci data @ r" "data \<noteq> []" "length data < 2 ^ 15" "n \<le> length b"
  shows "basic_lenexp (b ! 3) (b ! 4) = length (uih_body BASIC_OPTION dlci data) + 2"
proof -
  have "b = (f # uih_body BASIC_OPTION dlci data @ r) @ drop n b"
    using assms(1) by (metis append_take_drop_id)
  then obtain q where b: "b = f # uih_body BASIC_OPTION dlci data @ q" by auto
  show ?thesis
  proof (cases "length data \<le> LENGTH_ONE_MAX")
    case True
    then have "unat (take_bit 7 (of_nat (length data) :: u8)) = length data"
      by (simp add: unsigned_take_bit_eq unsigned_of_nat take_bit_nat_eq_self del: unat_of_nat)
    then show ?thesis
      using True by (simp add: b uih_body_eq uih_head_def basic_lenexp_def)
  next
    case False
    then show ?thesis
      using lenexp_two [OF assms(3)] by (simp add: b uih_body_eq uih_head_def basic_lenexp_def)
  qed
qed

lemma body_length: "length (uih_body m dlci data) = length (uih_head m dlci (length data)) + length data + 1"
  by (simp add: uih_body_eq)

lemma data_less: "length (uih_body m d data) + 2 \<le> CMUX_IN_BUFF_SIZE \<Longrightarrow> length data < 2 ^ 15"
  by (simp add: body_length)

text \<open>A receiver that waits for a frame holds its opening flag after reading one.\<close>

definition opened :: "AT_CMUX_OPTION \<Rightarrow> AT_CMUX_ENGINE_T \<Rightarrow> AT_CMUX_ENGINE_T \<Rightarrow> bool" where
  "opened m th t \<longleftrightarrow> cmux_ok t \<and> cx_mode t = m \<and> \<not> escaped t \<and> buffLen t = 1 \<and>
     take 1 (buff t) = [flag_of m] \<and> channels t = channels th \<and> calls t = calls th"

lemma fed_buff:
  assumes "cmux_ok th" "buffLen th + length bs \<le> CMUX_IN_BUFF_SIZE"
  shows "take (buffLen (fed bs th)) (buff (fed bs th)) = take (buffLen th) (buff th) @ bs"
  using assms by (simp add: buff_fed cmux_ok_def)

lemma fed_opened:
  assumes "cmux_ok th" "cx_mode th = m" "\<not> escaped th" "buffLen th = 0"
  shows "opened m th (fed [flag_of m] th)"
  using assms fed_ok [of th "[flag_of m]"] by (simp add: opened_def fed_def)

lemma ready_opened: "cx_ready m th \<Longrightarrow> buffLen th = 1 \<Longrightarrow> opened m th th"
  by (auto simp: opened_def cx_ready_def cmux_ok_def take_Suc_conv_app_nth)

lemma escaped_id: "\<not> escaped th \<Longrightarrow> th\<lparr>escaped := False\<rparr> = th"
  by simp

lemma adv_open:
  assumes "cx_ready ADV_OPTION th"
  shows "\<exists>t. adv_loop created (ADV_FLAG # rest) th = adv_loop created rest t \<and> opened ADV_OPTION th t"
proof -
  have th: "cmux_ok th" "\<not> escaped th" "cx_mode th = ADV_OPTION"
    and bl: "buffLen th = 0 \<or> buffLen th = 1"
    and len: "length (buff th) = CMUX_IN_BUFF_SIZE" "buffSize th = CMUX_IN_BUFF_SIZE"
    using assms by (auto simp: cx_ready_def flag_of_def cmux_ok_def)
  have p: "at_CmuxPushByte ADV_FLAG th = Some (fed [ADV_FLAG] th)"
    using push_ok [OF th(1)] bl by auto
  from bl show ?thesis
  proof
    assume b: "buffLen th = 0"
    then have "adv_loop created (ADV_FLAG # rest) th = adv_loop created rest (fed [ADV_FLAG] th)"
      using p len by (simp add: Let_def escaped_id [OF th(2)])
    then show ?thesis using fed_opened [OF th(1,3,2) b] by (auto simp: flag_of_def)
  next
    assume b: "buffLen th = 1"
    let ?u = "fed [ADV_FLAG] th"
    have u: "cmux_ok ?u" using th(1) b by (intro fed_ok) simp_all
    have "drop_to_flag ADV_FLAG ?u = Some (fed [ADV_FLAG] (?u\<lparr>buffLen := 0\<rparr>))"
      using u by (rule drop_to_flag_ok)
    then have "adv_loop created (ADV_FLAG # rest) th =
        adv_loop created rest (fed [ADV_FLAG] (?u\<lparr>buffLen := 0\<rparr>))"
      using p len b by (simp add: Let_def escaped_id [OF th(2)])
    moreover have "opened ADV_OPTION th (fed [flag_of ADV_OPTION] (?u\<lparr>buffLen := 0\<rparr>))"
      using fed_opened [of "?u\<lparr>buffLen := 0\<rparr>" ADV_OPTION] u th by (simp add: opened_def buffLen_ok)
    ultimately show ?thesis by (auto simp: flag_of_def)
  qed
qed

lemma basic_open:
  assumes "cx_ready BASIC_OPTION th"
  shows "\<exists>t. basic_loop created (BASIC_FLAG # rest) th = basic_loop created rest t \<and> opened BASIC_OPTION th t"
proof -
  have th: "cmux_ok th" "\<not> escaped th" "cx_mode th = BASIC_OPTION"
    and bl: "buffLen th = 0 \<or> buffLen th = 1"
    and len: "length (buff th) = CMUX_IN_BUFF_SIZE" "buffSize th = CMUX_IN_BUFF_SIZE"
    using assms by (auto simp: cx_ready_def flag_of_def cmux_ok_def)
  from bl show ?thesis
  proof
    assume b: "buffLen th = 0"
    then have "basic_loop created (BASIC_FLAG # rest) th = basic_loop created rest (fed [BASIC_FLAG] th)"
      using push_ok [OF th(1)] len by (simp add: Let_def)
    then show ?thesis using fed_opened [OF th(1,3,2) b] by (auto simp: flag_of_def)
  next
    assume b: "buffLen th = 1"
    then have "basic_loop created (BASIC_FLAG # rest) th = basic_loop created rest th"
      using len by (simp add: Let_def)
    then show ?thesis using ready_opened [OF assms b] by auto
  qed
qed

lemma opened_fed:
  assumes "opened m th t" "length bs + 1 \<le> CMUX_IN_BUFF_SIZE"
  shows "cmux_ok (fed bs t)" "take (buffLen (fed bs t)) (buff (fed bs t)) = flag_of m # bs"
    "cx_mode (fed bs t) = m" "\<not> escaped (fed bs t)" "channels (fed bs t) = channels th"
    "calls (fed bs t) = calls th" "buffLen (fed bs t) = length bs + 1"
  using assms fed_ok [of t bs] fed_buff [of t bs] by (auto simp: opened_def)

text \<open>The receiver consumes exactly the frame, delivers its data and is ready again.\<close>

lemma adv_receive:
  assumes "cx_ready ADV_OPTION th" "uih_good ADV_OPTION (channels th) (dlci, data)"
  shows "\<exists>t. adv_loop created (uih_wire ADV_OPTION dlci data @ rest) th = Some (rest, t) \<and>
    cx_ready ADV_OPTION t \<and> channels t = channels th \<and>
    calls t = calls th @ uih_event (channels th) (dlci, data)"
proof -
  let ?b = "uih_body ADV_OPTION dlci data"
  have fit: "length ?b + 2 \<le> CMUX_IN_BUFF_SIZE" using assms(2) by (simp add: uih_good_def)
  obtain t where t: "opened ADV_OPTION th t"
    "adv_loop created (uih_wire ADV_OPTION dlci data @ rest) th =
      adv_loop created (escape ?b @ ADV_FLAG # rest) t"
    using adv_open [OF assms(1)] by (auto simp: uih_wire_def flag_of_def line_enc_def)
  let ?u = "fed ?b t"
  have bl: "length ?b + 1 \<le> CMUX_IN_BUFF_SIZE" using fit by simp
  note u = opened_fed [OF t(1) bl]
  have body: "adv_loop created (escape ?b @ ADV_FLAG # rest) t = adv_loop created (ADV_FLAG # rest) ?u"
    using t(1) fit by (intro adv_feed) (auto simp: opened_def)
  have v: "at_CmuxPushByte ADV_FLAG ?u = Some (fed (?b @ [ADV_FLAG]) t)"
    using push_ok [OF u(1)] u(7) fit fed_fed [of t ?b "[ADV_FLAG]"] t(1)
    by (simp add: opened_def cmux_ok_def)
  have fit': "length (?b @ [ADV_FLAG]) + 1 \<le> CMUX_IN_BUFF_SIZE" using fit by simp
  note w = opened_fed [OF t(1) fit']
  obtain fr t' where r: "at_CmuxCheckFrame (fed (?b @ [ADV_FLAG]) t) = Some (Some fr)"
    "do { th \<leftarrow> at_CmuxParseFrame created fr (fed (?b @ [ADV_FLAG]) t);
         th \<leftarrow> drop_to_flag ADV_FLAG th;
         Some (rest, call DispatchScheduleDrain th) } = Some (rest, t')"
    "cx_ready ADV_OPTION t'" "channels t' = channels th"
    "calls t' = calls th @ uih_event (channels th) (dlci, data)"
    using uih_received [OF w(1,3,4), of dlci data created rest] assms(2) w
    by (auto simp: flag_of_def)
  have "4 \<le> length ?b" using assms(2) by (cases data) (auto simp: body_length uih_head_def uih_good_def)
  then have "adv_loop created (ADV_FLAG # rest) ?u = Some (rest, t')"
    using v r(1,2) u(1,7) fit escaped_id [OF u(4)] by (simp add: Let_def cmux_ok_def)
  then show ?thesis using t(2) body r by simp
qed

text \<open>No address byte of a valid data channel is the basic flag: channel 62 would have it.\<close>

lemma frame_addr_not_flag: "dlci \<le> 61 \<Longrightarrow> frame_addr dlci cr \<noteq> BASIC_FLAG"
proof
  assume "dlci \<le> 61" "frame_addr dlci cr = BASIC_FLAG"
  moreover have "dlci \<le> 62" using \<open>dlci \<le> 61\<close> by (auto simp: word_le_nat_alt)
  ultimately have "dlci = GET_BITS26 BASIC_FLAG" using uih_head_fields [of dlci cr] by simp
  then have "dlci = 62" by (simp add: GET_BITS_def)
  then show False using \<open>dlci \<le> 61\<close> by simp
qed

lemma basic_receive:
  assumes "cx_ready BASIC_OPTION th" "uih_good BASIC_OPTION (channels th) (dlci, data)"
  shows "\<exists>t. basic_loop created (uih_wire BASIC_OPTION dlci data @ rest) th = Some (rest, t) \<and>
    cx_ready BASIC_OPTION t \<and> channels t = channels th \<and>
    calls t = calls th @ uih_event (channels th) (dlci, data)"
proof -
  let ?b = "uih_body BASIC_OPTION dlci data"
  let ?a = "frame_addr dlci CR_COMMAND" and ?r = "tl (uih_body BASIC_OPTION dlci data)"
  have fit: "length ?b + 2 \<le> CMUX_IN_BUFF_SIZE" "data \<noteq> []" "dlci \<le> 61"
    using assms(2) by (simp_all add: uih_good_def)
  have b: "?b = ?a # ?r" by (simp add: uih_body_eq uih_head_def)
  have five: "5 \<le> length ?b"
    using fit(2) by (cases data) (auto simp: body_length uih_head_def)
  obtain t where t: "opened BASIC_OPTION th t"
    "basic_loop created (uih_wire BASIC_OPTION dlci data @ rest) th =
      basic_loop created (?b @ BASIC_FLAG # rest) t"
    using basic_open [OF assms(1)] by (auto simp: uih_wire_def flag_of_def line_enc_def)
  have tt: "cmux_ok t" "buffLen t = 1" "buffSize t = CMUX_IN_BUFF_SIZE" "length (buff t) = CMUX_IN_BUFF_SIZE"
    using t(1) by (auto simp: opened_def cmux_ok_def)
  have ff: "fed ?r (fed [?a] t) = fed ?b t"
    using fed_fed [of t "[?a]" ?r] tt fit(1) b by simp
  let ?u = "fed ?b t"
  have bl: "length ?b + 1 \<le> CMUX_IN_BUFF_SIZE" using fit by simp
  note u = opened_fed [OF t(1) bl]
  have lenexp: "basic_lenexp (buff ?u ! 3) (buff ?u ! 4) = length ?b + 2"
    using u(2,7) fit tt data_less [OF fit(1)]
    by (intro uih_body_lenexp [where n = "buffLen ?u" and f = BASIC_FLAG and r = "[]"])
      (auto simp: flag_of_def)
  have "basic_loop created (?b @ BASIC_FLAG # rest) t = basic_loop created (?r @ BASIC_FLAG # rest) (fed [?a] t)"
    using push_ok [OF tt(1)] tt frame_addr_not_flag [OF fit(3)] by (subst b) (simp add: Let_def)
  also have "\<dots> = basic_loop created (BASIC_FLAG # rest) ?u"
    using tt fit five lenexp unfolding ff [symmetric]
    by (intro basic_feed fed_ok) (auto simp: ff)
  finally have body: "basic_loop created (?b @ BASIC_FLAG # rest) t = basic_loop created (BASIC_FLAG # rest) ?u" .
  have v: "at_CmuxPushByte BASIC_FLAG ?u = Some (fed (?b @ [BASIC_FLAG]) t)"
    using push_ok [OF u(1)] u(7) fit fed_fed [of t ?b "[BASIC_FLAG]"] tt by simp
  have fit': "length (?b @ [BASIC_FLAG]) + 1 \<le> CMUX_IN_BUFF_SIZE" using fit by simp
  note w = opened_fed [OF t(1) fit']
  obtain fr t' where r: "at_CmuxCheckFrame (fed (?b @ [BASIC_FLAG]) t) = Some (Some fr)"
    "do { th \<leftarrow> at_CmuxParseFrame created fr (fed (?b @ [BASIC_FLAG]) t);
         th \<leftarrow> drop_to_flag BASIC_FLAG th;
         Some (rest, call DispatchScheduleDrain th) } = Some (rest, t')"
    "cx_ready BASIC_OPTION t'" "channels t' = channels th"
    "calls t' = calls th @ uih_event (channels th) (dlci, data)"
    using uih_received [OF w(1,3,4), of dlci data created rest] assms(2) w
    by (auto simp: flag_of_def)
  have "rd (buff ?u) 3 = Some (buff ?u ! 3)" "rd (buff ?u) 4 = Some (buff ?u ! 4)" "buffSize ?u = CMUX_IN_BUFF_SIZE"
    using u(1) by (simp_all add: rd_in cmux_ok_def)
  moreover have "?b \<noteq> []" using five by auto
  ultimately have "basic_loop created (BASIC_FLAG # rest) ?u = Some (rest, t')"
    using v r(1,2) u(7) fit(1) five lenexp tt by (simp add: Let_def)
  then show ?thesis using t(2) body r by simp
qed

definition uih_frame :: "AT_CMUX_OPTION \<Rightarrow> u8 \<times> bytes \<Rightarrow> bytes" where
  "uih_frame m = (\<lambda>(dlci, data). uih_wire m dlci data)"

interpretation cmux_basic: frame_codec "cx_ready BASIC_OPTION" channels "uih_good BASIC_OPTION"
  "uih_frame BASIC_OPTION" "\<lambda>_. True" "at_CmuxPushData created" calls uih_event for created
proof (unfold_locales, goal_cases)
  case (1 f)
  then show ?case by (simp add: uih_frame_def uih_wire_def case_prod_unfold)
next
  case (3 s f rest)
  obtain dlci data where f: "f = (dlci, data)" by fastforce
  have "cx_mode s = BASIC_OPTION" using 3(1) by (simp add: cx_ready_def)
  then show ?case using basic_receive [of s dlci data created rest] 3
    by (auto simp: at_CmuxPushData_def at_CmuxBasicPushData_def uih_frame_def f)
qed simp

interpretation cmux_adv: frame_codec "cx_ready ADV_OPTION" channels "uih_good ADV_OPTION"
  "uih_frame ADV_OPTION" "\<lambda>_. True" "at_CmuxPushData created" calls uih_event for created
proof (unfold_locales, goal_cases)
  case (1 f)
  then show ?case by (simp add: uih_frame_def uih_wire_def case_prod_unfold)
next
  case (3 s f rest)
  obtain dlci data where f: "f = (dlci, data)" by fastforce
  have "cx_mode s = ADV_OPTION" using 3(1) by (simp add: cx_ready_def)
  then show ?case using adv_receive [of s dlci data created rest] 3
    by (auto simp: at_CmuxPushData_def at_CmuxAdvancedPushData_def uih_frame_def f)
qed simp

section \<open>Sender and receiver\<close>

fun send_all :: "(u8 \<times> bytes) list \<Rightarrow> AT_CMUX_ENGINE_T \<Rightarrow> AT_CMUX_ENGINE_T option" where
  "send_all [] th = Some th"
| "send_all ((dlci, data) # fs) th = do {
     th \<leftarrow> at_CmuxSendUIH data dlci th;
     send_all fs th
   }"

text \<open>The bytes written to the line by the calls.\<close>

fun written :: "cmux_call list \<Rightarrow> bytes" where
  "written [] = []"
| "written (DispatchWrite bs # cs) = bs @ written cs"
| "written (_ # cs) = written cs"

definition sendable :: "AT_CMUX_ENGINE_T \<Rightarrow> u8 \<times> bytes \<Rightarrow> bool" where
  "sendable th = (\<lambda>(dlci, data). uih_fits (cx_mode th) dlci data \<and>
     (cx_mode th = BASIC_OPTION \<longrightarrow> buffLen th + max 4 (length data) < CMUX_OUT_BUFF_SIZE - 1))"

lemma SendUIH_full:
  assumes "cmux_ok th" "sendable th (dlci, data)" "cx_dispatch th \<noteq> None"
  shows "\<exists>t. at_CmuxSendUIH data dlci th = Some t \<and> cmux_ok t \<and> same_in t th \<and>
    cx_dispatch t \<noteq> None \<and> calls t = calls th @ [DispatchWrite (uih_wire (cx_mode th) dlci data)]"
proof -
  have "list_all (accepts th) (uih_parts (cx_mode th) dlci data)"
    using assms(2) length_uih_head [of "cx_mode th" dlci "length data"]
    by (auto simp: uih_parts_def Let_def accepts_def sendable_def)
  then obtain t where t: "send_frame (uih_parts (cx_mode th) dlci data) th = Some t"
    "length (outBuff t) = CMUX_OUT_BUFF_SIZE"
    "no_out t = no_out (sent (uih_wire (cx_mode th) dlci data) th)"
    using out_frame_ok [of th "uih_parts (cx_mode th) dlci data"] assms(1,2)
    by (auto simp: framed_uih uih_fits_def sendable_def cmux_ok_def)
  have "cx_dispatch (sent (uih_wire (cx_mode th) dlci data) th) = cx_dispatch th"
    by (simp add: sent_def)
  then show ?thesis
    using no_out_eqD [OF t(3)] t(1,2) assms
    by (auto simp: SendUIH_parts sendable_def uih_fits_def cmux_ok_def same_in_def)
qed

lemma sendable_same: "same_in t th \<Longrightarrow> sendable t = sendable th"
  by (simp add: fun_eq_iff sendable_def same_in_def)

lemma send_all_ok:
  "cmux_ok th \<Longrightarrow> cx_dispatch th \<noteq> None \<Longrightarrow> \<forall>f \<in> set fs. sendable th f \<Longrightarrow>
   \<exists>t. send_all fs th = Some t \<and> calls t = calls th @ map (DispatchWrite \<circ> uih_frame (cx_mode th)) fs"
proof (induction fs arbitrary: th)
  case (Cons f fs)
  obtain dlci data where f: "f = (dlci, data)" by fastforce
  obtain t where t: "at_CmuxSendUIH data dlci th = Some t" "cmux_ok t" "same_in t th"
    "cx_dispatch t \<noteq> None" "calls t = calls th @ [DispatchWrite (uih_wire (cx_mode th) dlci data)]"
    using SendUIH_full [OF Cons.prems(1) _ Cons.prems(2), of dlci data] Cons.prems(3) f by auto
  have "\<exists>u. send_all fs t = Some u \<and> calls u = calls t @ map (DispatchWrite \<circ> uih_frame (cx_mode t)) fs"
    using Cons.prems(3) t sendable_same [OF t(3)] by (intro Cons.IH) auto
  then show ?case using t f by (auto simp: same_in_def uih_frame_def)
qed simp

lemma written_map: "written (map (DispatchWrite \<circ> g) fs) = concat (map g fs)"
  by (induction fs) simp_all

section \<open>Properties\<close>

text \<open>
  C1: the frames one engine sends with \<open>at_CmuxSendUIH\<close>, in either option, are taken from the
  line by another engine one by one and delivered to the channels' dispatches, with the data
  unchanged and in order.
\<close>

theorem cmux_link:
  assumes "cmux_ok s" "cx_dispatch s \<noteq> None" "cx_ready (cx_mode s) r"
    and "\<forall>f \<in> set fs. sendable s f \<and> uih_good (cx_mode s) (channels r) f"
  shows "\<exists>s' r'. send_all fs s = Some s' \<and>
    drain (at_CmuxPushData created) (length fs) (written (drop (length (calls s)) (calls s'))) r = Some r' \<and>
    cx_ready (cx_mode s) r' \<and>
    calls r' = calls r @ concat (map (\<lambda>(dlci, data).
      [DispatchPushData (ch_dispatch (channels r ! unat dlci)) data, DispatchScheduleDrain]) fs)"
proof -
  obtain s' where s': "send_all fs s = Some s'"
    "calls s' = calls s @ map (DispatchWrite \<circ> uih_frame (cx_mode s)) fs"
    using send_all_ok [OF assms(1,2)] assms(4) by blast
  have "\<forall>f \<in> set fs. uih_good (cx_mode s) (channels r) f" using assms(4) by blast
  then have "\<exists>r'. drain (at_CmuxPushData created) (length fs) (concat (map (uih_frame (cx_mode s)) fs)) r = Some r' \<and>
      cx_ready (cx_mode s) r' \<and> channels r' = channels r \<and>
      calls r' = calls r @ concat (map (uih_event (channels r)) fs)"
    using cmux_basic.drain_frames [of r fs created] cmux_adv.drain_frames [of r fs created] assms(3)
    by (cases "cx_mode s") auto
  then show ?thesis using s' by (auto simp: written_map uih_event_def)
qed

text \<open>
  C2: input of any kind keeps a well-formed engine well formed and inside its memory, unless the
  input itself completes an unsafe frame: after the bytes \<open>pre\<close> of the input, which the engine takes in
  without handling a frame, the next byte is the flag that closes a frame with a correct checksum, and
  this frame closes the open control channel, or is a control message placed at the very end of the
  buffer or naming channel 63.
\<close>

theorem cmux_input_safe:
  assumes "cmux_ok th"
  shows "(\<exists>n t. at_CmuxPushData created data th = Some (n, t) \<and> cmux_ok t \<and> n \<le> length data) \<or>
    (\<exists>pre post t f. data = pre @ cmux_flag th # post \<and>
      at_CmuxPushData created pre th = Some (length pre, t) \<and> cmux_ok t \<and> channels t = channels th \<and> 4 \<le> buffLen t \<and>
      at_CmuxCheckFrame (fed [cmux_flag th] t) = Some (Some f) \<and> \<not> frame_safe (fed [cmux_flag th] t) f)"
  using PushData_post [OF assms] unfolding completes_unsafe_def by blast

definition demo_cmux :: "AT_CMUX_ENGINE_T" where
  "demo_cmux = at_CmuxEngineCreate (replicate 4096 0) (replicate 4096 0) False (Some 1) gAtCmuxDefaultCfg"

lemma demo_cmux_ok: "cmux_ok demo_cmux"
  unfolding demo_cmux_def by (rule Create_ok) simp_all

lemma demo_cmux_sel:
  "cx_mode demo_cmux = BASIC_OPTION" "buffLen demo_cmux = 0" "cx_dispatch demo_cmux = Some 1"
  "calls demo_cmux = []" "\<not> escaped demo_cmux"
  "channels demo_cmux = map (cmux_channel gAtCmuxDefaultCfg) [0..<MAX_DLC_NUM]"
  by (simp_all add: demo_cmux_def at_CmuxEngineCreate_def gAtCmuxDefaultCfg_def del: upt_rec_numeral)

lemma demo_cmux_chan: "n < MAX_DLC_NUM \<Longrightarrow> channels demo_cmux ! n = cmux_channel gAtCmuxDefaultCfg n"
  by (simp add: demo_cmux_sel del: upt_rec_numeral)

text \<open>An engine with channel 1 open, and one where the control channel is open as well.\<close>

definition demo_chan :: AT_CMUX_CHANNEL_T where
  "demo_chan = (cmux_channel gAtCmuxDefaultCfg 1)\<lparr>ch_dispatch := Some 7, ch_state := CHANNEL_CONNECT\<rparr>"

definition demo_open :: AT_CMUX_ENGINE_T where
  "demo_open = demo_cmux\<lparr>channels := (channels demo_cmux)[1 := demo_chan]\<rparr>"

lemma demo_open_ok: "cmux_ok demo_open" "cx_ready BASIC_OPTION demo_open"
  "channels demo_open ! 1 = demo_chan"
  using demo_cmux_ok
  by (auto simp: demo_open_def cmux_ok_def cx_ready_def demo_cmux_sel chan_ok_def demo_chan_def nth_list_update)

theorem cmux_link_witness:
  "\<exists>s' r'. send_all [(1, [0x41, 0xf9]), (1, [0x54])] demo_cmux = Some s' \<and>
    drain (at_CmuxPushData None) 2 (written (calls s')) demo_open = Some r' \<and>
    calls r' = [DispatchPushData (Some 7) [0x41, 0xf9], DispatchScheduleDrain,
      DispatchPushData (Some 7) [0x54], DispatchScheduleDrain]"
proof -
  have sendable: "sendable demo_cmux (1, [0x41, 0xf9])" "sendable demo_cmux (1, [0x54])"
    by (simp_all add: sendable_def uih_fits_def uih_wire_def line_enc_def body_length uih_head_def demo_cmux_sel)
  have good: "uih_good BASIC_OPTION (channels demo_open) (1, [0x41, 0xf9])"
    "uih_good BASIC_OPTION (channels demo_open) (1, [0x54])"
    using demo_open_ok(3) by (simp_all add: uih_good_def demo_chan_def body_length uih_head_def)
  have "calls demo_open = []" by (simp add: demo_open_def demo_cmux_sel)
  then show ?thesis
    using cmux_link [of demo_cmux demo_open "[(1, [0x41, 0xf9]), (1, [0x54])]" None]
      demo_cmux_ok demo_open_ok sendable good
    by (auto simp: demo_cmux_sel demo_chan_def numeral_2_eq_2)
qed

theorem cmux_input_safe_witness:
  "\<exists>n t. at_CmuxPushData None [0xf9, 0x03, 0x3f, 0x01] demo_open = Some (n, t) \<and> cmux_ok t \<and> n \<le> 4"
proof -
  have "cmux_flag demo_open = 0xf9" by (simp add: cmux_flag_def demo_open_def demo_cmux_sel)
  moreover have "pre = []" if "[0xf9, 0x03, 0x3f, 0x01] = pre @ (0xf9 :: u8) # post" for pre post
    using that by (auto simp: Cons_eq_append_conv)
  moreover have "buffLen t = 0" if "at_CmuxPushData None [] demo_open = Some (0, t)" for t
    using that by (auto simp: at_CmuxPushData_def at_CmuxBasicPushData_def demo_open_def demo_cmux_sel)
  moreover have "length [0xf9 :: u8, 0x03, 0x3f, 0x01] = 4" by simp
  ultimately show ?thesis
    using cmux_input_safe [OF demo_open_ok(1), of None "[0xf9, 0x03, 0x3f, 0x01]"] by fastforce
qed

text \<open>
  C3: as long as the control channel is closed, no input whatever makes the engine leave its
  memory, and it stays well formed: in particular no data is pushed to a NULL dispatch.
\<close>

theorem cmux_closed_safe:
  assumes "cmux_ok th" "ch_state (channels th ! 0) = CHANNEL_DISCONNECT"
  shows "\<exists>n t. at_CmuxPushData created data th = Some (n, t) \<and> cmux_ok t \<and> n \<le> length data \<and>
    DispatchPushData None bs \<notin> set (calls t)"
proof -
  obtain n t where t: "at_CmuxPushData created data th = Some (n, t)" "cmux_ok t" "n \<le> length data"
    using PushData_post [OF assms(1), of created data] closed_not_bad [OF assms(2)] by blast
  then have "DispatchPushData None bs \<notin> set (calls t)"
    by (auto simp: cmux_ok_def list_all_iff)
  then show ?thesis using t by blast
qed

theorem cmux_closed_safe_witness:
  "\<exists>n t. at_CmuxPushData (Some 3) [0xf9, 0x07, 0x3f, 0x01] demo_cmux = Some (n, t) \<and> cmux_ok t \<and>
    n \<le> 4 \<and> DispatchPushData None [1] \<notin> set (calls t)"
  using cmux_closed_safe [OF demo_cmux_ok, of "Some 3" "[0xf9, 0x07, 0x3f, 0x01]" "[1]"]
  by (simp add: demo_cmux_chan cmux_channel_def eval_nat_numeral)

text \<open>
  A DISC frame on the open control channel frees the engine while it is handled, and the
  code that drops the frame then writes to the freed engine.
\<close>

theorem disc_control_use_after_free:
  assumes "cmux_ok th" "ch_state (channels th ! 0) \<noteq> CHANNEL_DISCONNECT"
    and "f_dlci frame = CTRL_DLCI" "f_ctrl frame AND NOT CTRL_PF = FRAME_TYPE_DISC"
  shows "\<exists>t. at_CmuxParseFrame created frame th = Some t \<and> freed t \<and> drop_to_flag c t = None"
proof -
  have "at_CmuxIsDlciValid th 0" by (cases "cx_mode th") (simp_all add: at_CmuxIsDlciValid_def)
  moreover have "rd (channels th) 0 = Some (channels th ! 0)"
    using chan_rd [OF assms(1), of 0] by simp
  moreover obtain u where "at_CmuxSendUA 0 th = Some u" using SendUA_ok [OF assms(1)] by auto
  ultimately show ?thesis
    using assms(2,3,4) by (simp add: at_CmuxParseFrame_def Let_def drop_to_flag_def)
qed

definition demo_ctrl :: AT_CMUX_ENGINE_T where
  "demo_ctrl = demo_cmux\<lparr>channels :=
     (channels demo_cmux)[0 := (cmux_channel gAtCmuxDefaultCfg 0)\<lparr>ch_state := CHANNEL_CONNECT\<rparr>]\<rparr>"

lemma demo_ctrl_ok: "cmux_ok demo_ctrl" "ch_state (channels demo_ctrl ! 0) = CHANNEL_CONNECT"
  using demo_cmux_ok by (auto simp: demo_ctrl_def cmux_ok_def)

theorem disc_control_use_after_free_witness:
  "\<exists>t. at_CmuxParseFrame None \<lparr>f_dlci = 0, f_ctrl = 0x53, f_infoLen = 0, f_info = 4\<rparr> demo_ctrl = Some t \<and>
    freed t \<and> drop_to_flag 0xf9 t = None"
  by (rule disc_control_use_after_free) (simp_all add: demo_ctrl_ok)

text \<open>Opening the control channel with SABM is not answered by UA (nor by anything).\<close>

theorem sabm_control_unanswered:
  assumes "cmux_ok th" "f_dlci frame = CTRL_DLCI" "f_ctrl frame AND NOT CTRL_PF = FRAME_TYPE_SABM"
  shows "\<exists>t. at_CmuxParseFrame created frame th = Some t \<and> cmux_ok t \<and>
    ch_state (channels t ! 0) = CHANNEL_CONNECT \<and> calls t = calls th"
proof -
  have "at_CmuxIsDlciValid th 0" by (cases "cx_mode th") (simp_all add: at_CmuxIsDlciValid_def)
  moreover have "rd (channels th) 0 = Some (channels th ! 0)"
    using chan_rd [OF assms(1), of 0] by simp
  moreover have "length (channels th) = MAX_DLC_NUM" using assms(1) by (simp add: cmux_ok_def)
  ultimately show ?thesis
    using assms by (auto simp: at_CmuxParseFrame_def Let_def set_channel_def wr_in cmux_ok_def)
qed

theorem sabm_control_unanswered_witness:
  "\<exists>t. at_CmuxParseFrame None \<lparr>f_dlci = 0, f_ctrl = 0x3f, f_infoLen = 0, f_info = 4\<rparr> demo_cmux = Some t \<and>
    cmux_ok t \<and> ch_state (channels t ! 0) = CHANNEL_CONNECT \<and> calls t = calls demo_cmux"
  by (rule sabm_control_unanswered) (simp_all add: demo_cmux_ok)

text \<open>
  In the basic option the room for output is judged by the fill of the input buffer, so
  data close to the size of the output buffer is copied past its end.
\<close>

theorem basic_output_overflow:
  assumes "cmux_ok th" "cx_mode th = BASIC_OPTION"
    and "buffLen th + length data < CMUX_OUT_BUFF_SIZE - 1" "4091 < length data"
  shows "at_CmuxSendUIH data dlci th = None"
proof -
  let ?h = "uih_head BASIC_OPTION dlci (length data)"
  obtain t where t: "at_CmuxOutStart th = Some t" "out_ok [mode_flag th] t" "no_out t = no_out th"
    using out_start_ok [of th] assms(1) by (auto simp: cmux_ok_def)
  have m: "cx_mode t = BASIC_OPTION" "buffLen t = buffLen th"
    using no_out_eqD [OF t(3)] assms(2) by auto
  have h4: "length ?h = 4" using assms(4) by (simp add: uih_head_def)
  have "accepts t ?h" using m assms(3,4) h4 by (simp add: accepts_def)
  then obtain u where u: "out_push ?h t = Some u" "out_ok (mode_flag th # ?h) u" "no_out u = no_out t"
    using out_push_ok [OF t(2), of ?h] m h4 by (auto simp: encoded_def)
  have "cx_mode u = BASIC_OPTION" "buffLen u = buffLen th" "outLen u = 5" "length (outBuff u) = 4096"
    "\<not> outOverflow u"
    using no_out_eqD [OF u(3)] m u(2) h4 by (auto simp: out_ok_def)
  then have "out_push data u = None"
    using assms(3,4) by (simp add: out_push_def at_CmuxOutPush_def wr_block_def)
  then show ?thesis
    using t(1) u(1) assms(2,4) by (auto simp: SendUIH_parts send_frame_def uih_parts_def Let_def)
qed

theorem basic_output_overflow_witness:
  "at_CmuxSendUIH (replicate 4092 0x41) 1 demo_cmux = None"
  by (rule basic_output_overflow) (simp_all add: demo_cmux_ok demo_cmux_sel)

section \<open>Flow control and parameter negotiation\<close>

lemma PN_fields:
  assumes "frameType p < 16" "convergence p < 16" "priority p < 64" "windowSize p < 8"
  shows "at_CmuxPNDataGet (d0 # at_CmuxPNDataSet p) = p"
proof -
  have low: "take_bit k (w :: u8) = w" if "unat w < 2 ^ k" for k w
    using that by (simp add: word_unat_eq_iff unsigned_take_bit_eq take_bit_nat_eq_self)
  have tb: "take_bit 4 (frameType p) = frameType p" "take_bit 4 (convergence p) = convergence p"
    "take_bit 6 (priority p) = priority p" "take_bit 3 (windowSize p) = windowSize p"
    using assms by (auto intro!: low simp: word_less_nat_alt)
  have ft: "GET_BITS (SET_BITS (frameType p) 0 4 OR SET_BITS (convergence p) 4 4) 0 4 = frameType p"
  proof -
    have "GET_BITS (SET_BITS (frameType p) 0 4 OR SET_BITS (convergence p) 4 4) 0 4 =
        take_bit 4 (frameType p)"
      by (rule bit_word_eqI) (auto simp: GET_BITS_take SET_BITS_push bit_simps)
    then show ?thesis by (simp only: tb(1))
  qed
  have cv: "GET_BITS (SET_BITS (frameType p) 0 4 OR SET_BITS (convergence p) 4 4) 4 4 = convergence p"
    using GET_SET [of 4 4 "SET_BITS (frameType p) 0 4" "convergence p"] SET_BITS_low [of 0 4 4 "frameType p"] tb(2)
    by (simp add: or.commute)
  have pr: "GET_BITS (SET_BITS (priority p) 2 6) 2 6 = priority p"
    "GET_BITS (SET_BITS (windowSize p) 5 3) 5 3 = windowSize p"
    using GET_SET [of 2 6 0 "priority p"] GET_SET [of 5 3 0 "windowSize p"] tb(3,4) by simp_all
  show ?thesis
    using ft cv pr by (simp add: at_CmuxPNDataGet_def at_CmuxPNDataSet_def and_0xff word16_bytes)
qed

text \<open>Negotiated parameters read back from an encoded PN value are the parameters.\<close>

theorem PN_roundtrip:
  assumes "frameType p < 16" "convergence p < 16" "priority p < 64" "windowSize p < 8"
  shows "at_CmuxPNDataGet (dlci # at_CmuxPNDataSet p) = p"
  using PN_fields [OF assms] .

theorem PN_roundtrip_witness:
  "at_CmuxPNDataGet (4 # at_CmuxPNDataSet (ch_param demo_chan)) = ch_param demo_chan"
  by (rule PN_roundtrip) (simp_all add: demo_chan_def cmux_channel_def gAtCmuxDefaultCfg_def at_CmuxDefaultPriority_def)

lemma ParseCtrl_head:
  assumes "cmux_ok th" "f_info frame + 3 \<le> CMUX_IN_BUFF_SIZE"
    and "buff th ! f_info frame = ctrl_head msg 1" "msg \<le> 63"
  shows "\<exists>val valLen. at_CmuxParseCtrl frame th = ctrl_switch (ctrl_head msg 1) msg val valLen th"
proof -
  have "rd (buff th) (f_info frame) = Some (ctrl_head msg 1)"
    using assms by (simp add: rd_in cmux_ok_def)
  moreover have "GET_BITS26 (ctrl_head msg 1) = msg" using GET_dlci [OF assms(4), of 1] by simp
  moreover have "GET_BIT1 (ctrl_head msg 1) = CTRL_COMMAND"
    by (rule bit_word_eqI) (auto simp: GET_BITS_take SET_BITS_push bit_simps)
  moreover obtain n where "ctrl_value (f_info frame) th =
      Some (f_info frame + (if GET_EA (buff th ! (f_info frame + 1)) = 0 then 3 else 2), n)"
    using ctrl_value_in [OF assms(1,2)] by auto
  ultimately show ?thesis by (auto simp: at_CmuxParseCtrl_def)
qed

lemma all_dlc_nth:
  "0 < n \<Longrightarrow> n < length (channels th) \<Longrightarrow> channels (all_dlc f th) ! n = f (channels th ! n)"
  by (cases "channels th") (auto simp: all_dlc_def nth_Cons split: nat.splits)

lemma SendFCOFF_ok:
  "cmux_ok th \<Longrightarrow> \<exists>t. at_CmuxSendCtrlFCOFF cr th = Some t \<and> cmux_ok t \<and> same_in t th"
  by (simp add: at_CmuxSendCtrlFCOFF_def SendUIH_ok)

lemma SendPN_ok:
  "cmux_ok th \<Longrightarrow> \<exists>t. at_CmuxSendCtrlPN p cr d th = Some t \<and> cmux_ok t \<and> same_in t th"
  by (simp add: at_CmuxSendCtrlPN_def SendUIH_ok)

text \<open>
  After a flow control off message every data written to a data channel is discarded
  without a frame, until the flow is switched on again.
\<close>

theorem flow_off_discards:
  assumes "cmux_ok th" "f_info frame + 3 \<le> CMUX_IN_BUFF_SIZE"
    and "buff th ! f_info frame = ctrl_head CTRL_MSG_FCOFF 1" "0 < d" "d < int MAX_DLC_NUM"
  shows "\<exists>t. at_CmuxParseCtrl frame th = Some t \<and> cmux_ok t \<and> at_CmuxDlcWrite data d t = Some t"
proof -
  obtain val valLen where "at_CmuxParseCtrl frame th =
      ctrl_switch (ctrl_head CTRL_MSG_FCOFF 1) CTRL_MSG_FCOFF val valLen th"
    using ParseCtrl_head [OF assms(1,2,3)] by auto
  moreover have "cmux_ok (all_dlc flow_stop th)" using assms(1) by (intro all_dlc_ok) simp_all
  then obtain t where t: "at_CmuxSendCtrlFCOFF CTRL_RESPONSE (all_dlc flow_stop th) = Some t"
    "cmux_ok t" "same_in t (all_dlc flow_stop th)"
    using SendFCOFF_ok by blast
  moreover have "ch_state (channels t ! nat d) \<noteq> CHANNEL_CONNECT"
    using t(3) assms(1,4,5) all_dlc_nth [of "nat d" th flow_stop]
    by (auto simp: same_in_def cmux_ok_def flow_stop_def)
  moreover have "rd (channels t) (nat d) = Some (channels t ! nat d)"
    using t(2) assms(5) by (simp add: rd_in cmux_ok_def)
  ultimately show ?thesis using assms(4,5) by (simp add: ctrl_switch_def at_CmuxDlcWrite_def)
qed

definition demo_fcoff :: AT_CMUX_ENGINE_T where
  "demo_fcoff = demo_open\<lparr>buff := (buff demo_open)[4 := ctrl_head CTRL_MSG_FCOFF 1]\<rparr>"

theorem flow_off_discards_witness:
  "\<exists>t. at_CmuxParseCtrl \<lparr>f_dlci = 0, f_ctrl = 0xef, f_infoLen = 2, f_info = 4\<rparr> demo_fcoff = Some t \<and>
    cmux_ok t \<and> at_CmuxDlcWrite [0x41] 1 t = Some t"
proof -
  have "cmux_ok demo_fcoff" "buff demo_fcoff ! 4 = ctrl_head CTRL_MSG_FCOFF 1"
    using demo_open_ok(1) by (auto simp: demo_fcoff_def cmux_ok_def)
  then show ?thesis by (intro flow_off_discards) simp_all
qed

text \<open>
  A parameter negotiation for an existing channel leaves it with the smaller of its
  frame size and the requested one, and nothing but that frame size changes.
\<close>

theorem PN_min_frame_size:
  assumes "cmux_ok th" "val + 8 \<le> CMUX_IN_BUFF_SIZE" "GET_BITS26 (buff th ! val) = dlci" "dlci < 63"
  defines "req \<equiv> frameSize (at_CmuxPNDataGet (take 8 (drop val (buff th))))"
    and "ch \<equiv> channels th ! unat dlci"
  shows "\<exists>t. ctrl_PN val 8 th = Some t \<and> cmux_ok t \<and>
    channels t = (channels th)[unat dlci :=
      ch\<lparr>ch_param := (ch_param ch)\<lparr>frameSize := min (frameSize (ch_param ch)) req\<rparr>\<rparr>]"
proof -
  have d: "unat dlci < MAX_DLC_NUM" using assms(4) by (simp add: word_less_nat_alt)
  let ?ch = "if req < frameSize (ch_param ch)
     then ch\<lparr>ch_param := (ch_param ch)\<lparr>frameSize := req\<rparr>\<rparr> else ch"
  let ?th = "th\<lparr>channels := (channels th)[unat dlci := ?ch]\<rparr>"
  have blk: "rd_block (buff th) val 8 = Some (take 8 (drop val (buff th)))"
    "take 8 (drop val (buff th)) ! 0 = buff th ! val"
    using assms(1,2) by (simp_all add: rd_block_in cmux_ok_def)
  have set: "set_channel dlci ?ch th = Some ?th"
    using assms(1) d by (simp add: set_channel_def wr_in cmux_ok_def)
  have "cmux_ok ?th"
    using set_channel_keep [OF assms(1) d, of ?ch] set by (auto simp: ch_def)
  then obtain t where "at_CmuxSendCtrlPN (ch_param ?ch) CTRL_RESPONSE dlci ?th = Some t" "cmux_ok t"
    "same_in t ?th"
    using SendPN_ok [OF \<open>cmux_ok ?th\<close>] by blast
  then show ?thesis
    using blk set chan_rd [OF assms(1) d] assms(3)
    by (cases "req < frameSize (ch_param ch)")
      (auto simp: ctrl_PN_def Let_def same_in_def min_def simp flip: req_def ch_def)
qed

theorem PN_min_frame_size_witness:
  "\<exists>t. ctrl_PN 6 8 demo_cmux = Some t \<and> cmux_ok t \<and>
    frameSize (ch_param (channels t ! 0)) = 0"
proof -
  have b: "buff demo_cmux = replicate 4096 0" by (simp add: demo_cmux_def at_CmuxEngineCreate_def)
  have "frameSize (at_CmuxPNDataGet (take 8 (drop 6 (buff demo_cmux)))) = 0"
    by (simp add: b at_CmuxPNDataGet_def)
  then show ?thesis
    using PN_min_frame_size [OF demo_cmux_ok, of 6 0] demo_cmux_ok
    by (auto simp: b cmux_ok_def GET_BITS_def)
qed

end
