(* ===== verification/Cmd_Engine.thy ===== *)
theory Cmd_Engine
  imports Prelude
begin

text \<open>
  The command engine (at_cmd_engine.c): it collects the bytes of a channel into command lines,
  prompts or blocks of fixed length and hands them to the AT module.

  The module (parser and command handlers) is an argument: for each line whether the parser
  accepts it, and for each line and each extra input the calls its handlers make back into the
  engine, as a list that the model executes. The calls of the engine to other components are
  appended to \<open>ce_calls\<close> in their order. Characters are those of the settings S3, S4 and S5.
\<close>

section \<open>State\<close>

abbreviation (input) CMD_LINE_BUFF_SIZE :: nat where "CMD_LINE_BUFF_SIZE \<equiv> 5120"
abbreviation (input) LF_TIMER_PERIOD :: nat where "LF_TIMER_PERIOD \<equiv> 20"
abbreviation (input) CHAR_CTRL_Z :: u8 where "CHAR_CTRL_Z \<equiv> 0x1a"
abbreviation (input) CHAR_ESC :: u8 where "CHAR_ESC \<equiv> 0x1b"

record char_settings =
  CHAR_CR :: u8
  CHAR_LF :: u8
  CHAR_BACKSPACE :: u8
  EchoMode :: bool

datatype CMD_PARSER_MODE =
  CMD_PARSE_MODE_LINE | CMD_PARSE_MODE_PROMPT | CMD_PARSE_MODE_FIXED | CMD_PARSE_MODE_BYPASS

record AT_CMD_BUF =
  DataLen :: nat
  DataBuf :: bytes

datatype cmd_call =
    CmdWrite bytes
  | ProcessLine bytes
  | RespCmeInvalidLine
  | RunCommand
  | RunCommandExtra bytes
  | KillAsyncTimer
  | StartLFTimer nat
  | StopLFTimer
  | DeviceSetFormat
  | CmdScheduleDrain

record AT_CMD_ENGINE_T =
  ce_mode :: CMD_PARSER_MODE
  errSync :: bool
  ce_buff :: bytes
  ce_buffLen :: nat
  ce_buffSize :: nat
  fixedLen :: nat
  setFormatNeeded :: bool
  cmds_pending :: bool
  cmd_buf :: AT_CMD_BUF
  cmd_buf_bak :: AT_CMD_BUF
  ce_calls :: "cmd_call list"

text \<open>The calls a handler can make back, and what the module does with a line.\<close>

datatype eng_op =
    Op_SetLine | Op_SetPrompt | Op_SetRaw nat | Op_SetBypass | Op_FormatNeeded | Op_Finished
  | Op_SetCmds bool

datatype module_out = ParseError "eng_op list" | LineRun "eng_op list"

record cmd_module =
  on_line :: "bytes \<Rightarrow> module_out"
  on_extra :: "bytes \<Rightarrow> eng_op list"
  on_bypass :: "bytes \<Rightarrow> int"

definition ccall :: "cmd_call \<Rightarrow> AT_CMD_ENGINE_T \<Rightarrow> AT_CMD_ENGINE_T" where
  "ccall c th = th\<lparr>ce_calls := ce_calls th @ [c]\<rparr>"

section \<open>Modes\<close>

definition at_CmdEngineCreate :: "bytes \<Rightarrow> bytes \<Rightarrow> bytes \<Rightarrow> AT_CMD_ENGINE_T" where
  "at_CmdEngineCreate mem buf bak =
     \<lparr>ce_mode = CMD_PARSE_MODE_LINE, errSync = False, ce_buff = mem, ce_buffLen = 0,
      ce_buffSize = CMD_LINE_BUFF_SIZE, fixedLen = 0, setFormatNeeded = False,
      cmds_pending = False, cmd_buf = \<lparr>DataLen = 0, DataBuf = buf\<rparr>,
      cmd_buf_bak = \<lparr>DataLen = 0, DataBuf = bak\<rparr>, ce_calls = []\<rparr>"

definition at_CmdSetLineMode :: "AT_CMD_ENGINE_T \<Rightarrow> AT_CMD_ENGINE_T" where
  "at_CmdSetLineMode th = th\<lparr>ce_mode := CMD_PARSE_MODE_LINE, ce_buffLen := 0\<rparr>"

definition at_CmdSetPromptMode :: "AT_CMD_ENGINE_T \<Rightarrow> AT_CMD_ENGINE_T" where
  "at_CmdSetPromptMode th = th\<lparr>ce_mode := CMD_PARSE_MODE_PROMPT, ce_buffLen := 0\<rparr>"

definition at_CmdSetRawMode :: "nat \<Rightarrow> AT_CMD_ENGINE_T \<Rightarrow> bool \<times> AT_CMD_ENGINE_T" where
  "at_CmdSetRawMode len th =
     (if len > ce_buffSize th then (False, th)
      else (True, th\<lparr>fixedLen := len, ce_mode := CMD_PARSE_MODE_FIXED, ce_buffLen := 0\<rparr>))"

definition at_CmdSetBypassMode :: "AT_CMD_ENGINE_T \<Rightarrow> AT_CMD_ENGINE_T" where
  "at_CmdSetBypassMode th = th\<lparr>ce_mode := CMD_PARSE_MODE_BYPASS\<rparr>"

definition at_CmdDeviceSetFormatNeeded :: "AT_CMD_ENGINE_T \<Rightarrow> AT_CMD_ENGINE_T" where
  "at_CmdDeviceSetFormatNeeded th = th\<lparr>setFormatNeeded := True\<rparr>"

definition at_CmdCommandFinished :: "AT_CMD_ENGINE_T \<Rightarrow> AT_CMD_ENGINE_T" where
  "at_CmdCommandFinished th =
     (if \<not> cmds_pending th
      then let th = (if setFormatNeeded th
                     then (ccall DeviceSetFormat th)\<lparr>setFormatNeeded := False\<rparr> else th)
           in ccall CmdScheduleDrain th
      else th)"

fun exec_op :: "eng_op \<Rightarrow> AT_CMD_ENGINE_T \<Rightarrow> AT_CMD_ENGINE_T" where
  "exec_op Op_SetLine th = at_CmdSetLineMode th"
| "exec_op Op_SetPrompt th = at_CmdSetPromptMode th"
| "exec_op (Op_SetRaw n) th = snd (at_CmdSetRawMode n th)"
| "exec_op Op_SetBypass th = at_CmdSetBypassMode th"
| "exec_op Op_FormatNeeded th = at_CmdDeviceSetFormatNeeded th"
| "exec_op Op_Finished th = at_CmdCommandFinished th"
| "exec_op (Op_SetCmds b) th = th\<lparr>cmds_pending := b\<rparr>"

definition exec_ops :: "eng_op list \<Rightarrow> AT_CMD_ENGINE_T \<Rightarrow> AT_CMD_ENGINE_T" where
  "exec_ops ops th = fold exec_op ops th"

section \<open>Lines\<close>

definition at_CmdCachePushByte :: "u8 \<Rightarrow> AT_CMD_ENGINE_T \<Rightarrow> AT_CMD_ENGINE_T option" where
  "at_CmdCachePushByte c th = do {
     b \<leftarrow> wr (ce_buff th) (ce_buffLen th) c;
     Some (th\<lparr>ce_buff := b, ce_buffLen := ce_buffLen th + 1\<rparr>)
   }"

text \<open>On overflow the length left is the one of the buffer just emptied, that is none.\<close>

definition at_CmdAppendToCache :: "bytes \<Rightarrow> AT_CMD_ENGINE_T \<Rightarrow> AT_CMD_ENGINE_T option" where
  "at_CmdAppendToCache data th =
     (let (p, th) =
        (if ce_buffLen th + length data > ce_buffSize th
         then let th = th\<lparr>ce_buffLen := 0\<rparr>
              in (if length data > ce_buffLen th
                  then take (ce_buffLen th) (drop (length data - ce_buffLen th) data) else data, th)
         else (data, th))
      in do {
        b \<leftarrow> wr_block (ce_buff th) (ce_buffLen th) p;
        Some (th\<lparr>ce_buff := b, ce_buffLen := ce_buffLen th + length p\<rparr>)
      })"

definition at_CmdBackupCmdBuff :: "AT_CMD_ENGINE_T \<Rightarrow> AT_CMD_ENGINE_T" where
  "at_CmdBackupCmdBuff th = (if DataLen (cmd_buf th) \<noteq> 0 then th\<lparr>cmd_buf_bak := cmd_buf th\<rparr> else th)"

definition at_CmdRunCommandBuff :: "cmd_module \<Rightarrow> AT_CMD_ENGINE_T \<Rightarrow> AT_CMD_ENGINE_T option" where
  "at_CmdRunCommandBuff M th = do {
     line \<leftarrow> rd_block (DataBuf (cmd_buf th)) 0 (DataLen (cmd_buf th));
     let th = ccall (ProcessLine line) th;
     Some (case on_line M line of
       ParseError ops \<Rightarrow>
         let th = th\<lparr>cmd_buf_bak := (cmd_buf_bak th)\<lparr>DataLen := 0\<rparr>\<rparr>;
             th = exec_ops ops (ccall RespCmeInvalidLine th)
         in th\<lparr>cmds_pending := False\<rparr>
     | LineRun ops \<Rightarrow>
         let th = at_CmdBackupCmdBuff (th\<lparr>setFormatNeeded := False\<rparr>)
         in exec_ops ops (ccall RunCommand th))
   }"

definition at_CmdRunCommandLine ::
  "cmd_module \<Rightarrow> nat \<Rightarrow> AT_CMD_ENGINE_T \<Rightarrow> AT_CMD_ENGINE_T option" where
  "at_CmdRunCommandLine M len th =
     (if len = 0 then Some th
      else do {
        data \<leftarrow> rd_block (ce_buff th) 0 len;
        b \<leftarrow> wr_block (DataBuf (cmd_buf th)) 0 data;
        b \<leftarrow> wr b len 0;
        at_CmdRunCommandBuff M (th\<lparr>cmd_buf := \<lparr>DataLen = len, DataBuf = b\<rparr>\<rparr>)
      })"

text \<open>An access at index \<open>buffLen - 1\<close> with an empty buffer is before its start.\<close>

definition last_byte :: "AT_CMD_ENGINE_T \<Rightarrow> u8 option" where
  "last_byte th = (if ce_buffLen th = 0 then None else rd (ce_buff th) (ce_buffLen th - 1))"

definition at_CmdLineFinished ::
  "char_settings \<Rightarrow> cmd_module \<Rightarrow> AT_CMD_ENGINE_T \<Rightarrow> AT_CMD_ENGINE_T option" where
  "at_CmdLineFinished S M th = do {
     c \<leftarrow> last_byte th;
     let th = (if c = CHAR_LF S then th\<lparr>ce_buffLen := ce_buffLen th - 1\<rparr> else th);
     c \<leftarrow> last_byte th;
     let th = (if c = CHAR_CR S then th\<lparr>ce_buff := (ce_buff th)[ce_buffLen th - 1 := 0x0d]\<rparr> else th);
     at_CmdRunCommandLine M (ce_buffLen th) th
   }"

definition at_CmdLineRepeat :: "cmd_module \<Rightarrow> AT_CMD_ENGINE_T \<Rightarrow> AT_CMD_ENGINE_T option" where
  "at_CmdLineRepeat M th =
     (if DataLen (cmd_buf_bak th) \<noteq> 0 then at_CmdRunCommandBuff M (th\<lparr>cmd_buf := cmd_buf_bak th\<rparr>)
      else Some th)"

definition at_CmdPromptFinished :: "cmd_module \<Rightarrow> AT_CMD_ENGINE_T \<Rightarrow> AT_CMD_ENGINE_T option" where
  "at_CmdPromptFinished M th = do {
     let th = ccall KillAsyncTimer (th\<lparr>ce_mode := CMD_PARSE_MODE_LINE\<rparr>);
     data \<leftarrow> rd_block (ce_buff th) 0 (ce_buffLen th);
     Some (exec_ops (on_extra M data) (ccall (RunCommandExtra data) th))
   }"

definition at_CmdRawFinished :: "cmd_module \<Rightarrow> AT_CMD_ENGINE_T \<Rightarrow> AT_CMD_ENGINE_T option" where
  "at_CmdRawFinished M th = do {
     let th = ccall KillAsyncTimer (th\<lparr>ce_mode := CMD_PARSE_MODE_LINE\<rparr>);
     data \<leftarrow> rd_block (ce_buff th) 0 (ce_buffLen th);
     Some (exec_ops (on_extra M data) (ccall (RunCommandExtra data) th))
   }"

definition at_CmdLFTimeout ::
  "char_settings \<Rightarrow> cmd_module \<Rightarrow> AT_CMD_ENGINE_T \<Rightarrow> AT_CMD_ENGINE_T option" where
  "at_CmdLFTimeout S M th =
     (if ce_mode th = CMD_PARSE_MODE_LINE \<and> ce_buffLen th > 0
      then do {
        c \<leftarrow> rd (ce_buff th) (ce_buffLen th - 1);
        if c = CHAR_CR S
        then do {
          th \<leftarrow> at_CmdLineFinished S M th;
          Some (th\<lparr>ce_buffLen := 0\<rparr>)
        }
        else Some th
      }
      else Some th)"

section \<open>Input\<close>

text \<open>
  The echo is written from \<open>n\<close> bytes before the read position \<open>ptr\<close>, where \<open>n\<close> is the
  number of bytes consumed; \<open>m\<close> is the length written.
\<close>

definition echo :: "char_settings \<Rightarrow> bytes \<Rightarrow> nat \<Rightarrow> nat \<Rightarrow> nat \<Rightarrow> AT_CMD_ENGINE_T \<Rightarrow> AT_CMD_ENGINE_T option" where
  "echo S whole ptr n m th =
     (if EchoMode S
      then do {
        data \<leftarrow> rd_block whole (ptr - n) m;
        Some (ccall (CmdWrite data) th)
      }
      else Some th)"

text \<open>
  One pass of the loop over the input: \<open>Inl\<close> goes on with the next byte, \<open>Inr\<close> returns.
  \<open>data\<close> is what follows the byte \<open>c\<close>, so that \<open>ptr\<close> is the read position after \<open>c\<close>.
\<close>

type_synonym pass = "(AT_CMD_ENGINE_T + int \<times> AT_CMD_ENGINE_T) option"

definition go_on :: "AT_CMD_ENGINE_T option \<Rightarrow> pass" where
  "go_on r = map_option Inl r"

definition stop_at :: "nat \<Rightarrow> AT_CMD_ENGINE_T option \<Rightarrow> pass" where
  "stop_at n r = map_option (\<lambda>th. Inr (int n, th\<lparr>ce_buffLen := 0\<rparr>)) r"

definition finish_line ::
  "char_settings \<Rightarrow> cmd_module \<Rightarrow> bytes \<Rightarrow> nat \<Rightarrow> nat \<Rightarrow> nat \<Rightarrow> AT_CMD_ENGINE_T \<Rightarrow> pass" where
  "finish_line S M whole ptr n m th =
     stop_at n (do { th \<leftarrow> echo S whole ptr n m th; at_CmdLineFinished S M th })"

text \<open>The cases of the switch on \<open>buffLen\<close>.\<close>

definition line_case0 :: "u8 \<Rightarrow> AT_CMD_ENGINE_T \<Rightarrow> pass" where
  "line_case0 c th = go_on (if c = 0x61 \<or> c = 0x41 then at_CmdCachePushByte c th else Some th)"

definition line_case1 ::
  "char_settings \<Rightarrow> cmd_module \<Rightarrow> bytes \<Rightarrow> nat \<Rightarrow> u8 \<Rightarrow> AT_CMD_ENGINE_T \<Rightarrow> pass" where
  "line_case1 S M whole ptr c th =
     (if c = 0x2f
      then stop_at ptr (do {
        th \<leftarrow> at_CmdCachePushByte c th;
        th \<leftarrow> echo S whole ptr ptr ptr th;
        at_CmdLineRepeat M th
      })
      else if c = 0x74 \<or> c = 0x54 then go_on (at_CmdCachePushByte c th)
      else go_on (Some (th\<lparr>ce_buffLen := 0\<rparr>)))"

definition line_default ::
  "char_settings \<Rightarrow> cmd_module \<Rightarrow> bytes \<Rightarrow> nat \<Rightarrow> u8 \<Rightarrow> bytes \<Rightarrow> AT_CMD_ENGINE_T \<Rightarrow> pass" where
  "line_default S M whole ptr c data th = do {
     l \<leftarrow> last_byte th;
     if l = CHAR_CR S
     then (if c = CHAR_LF S
           then do {
             th \<leftarrow> at_CmdCachePushByte c th;
             finish_line S M whole ptr ptr (ptr - 1) th
           }
           else finish_line S M whole ptr (ptr - 1) (ptr - 1) th)
     else do {
       th \<leftarrow> at_CmdCachePushByte c th;
       if c = CHAR_CR S
       then (case data of
           [] \<Rightarrow> go_on (Some (ccall (StartLFTimer LF_TIMER_PERIOD) th))
         | nxt # _ \<Rightarrow>
             if nxt = CHAR_LF S
             then do {
               th \<leftarrow> at_CmdCachePushByte nxt th;
               finish_line S M whole (ptr + 1) (ptr + 1) ptr th
             }
             else finish_line S M whole ptr ptr ptr th)
       else go_on (Some th)
     }
   }"

definition drop_overflow :: "nat \<Rightarrow> AT_CMD_ENGINE_T \<Rightarrow> AT_CMD_ENGINE_T" where
  "drop_overflow n th =
     (if ce_buffLen th \<ge> n then th\<lparr>errSync := True, ce_buffLen := 0\<rparr> else th)"

definition line_pass ::
  "char_settings \<Rightarrow> cmd_module \<Rightarrow> bytes \<Rightarrow> u8 \<Rightarrow> bytes \<Rightarrow> AT_CMD_ENGINE_T \<Rightarrow> pass" where
  "line_pass S M whole c data th =
     (let ptr = length whole - length data in
      if c = CHAR_BACKSPACE S \<and> CHAR_BACKSPACE S \<noteq> CHAR_CR S
      then go_on (Some (th\<lparr>ce_buffLen := ce_buffLen th - 1\<rparr>))
      else
        let th = drop_overflow (ce_buffSize th - 1) th in
        if errSync th then go_on (Some (if c = CHAR_CR S then th\<lparr>errSync := False\<rparr> else th))
        else if ce_buffLen th = 0 then line_case0 c th
        else if ce_buffLen th = 1 then line_case1 S M whole ptr c th
        else line_default S M whole ptr c data th)"

fun line_loop ::
  "char_settings \<Rightarrow> cmd_module \<Rightarrow> bytes \<Rightarrow> bytes \<Rightarrow> AT_CMD_ENGINE_T \<Rightarrow> (int \<times> AT_CMD_ENGINE_T) option" where
  "line_loop S M whole [] th = do {
     th \<leftarrow> echo S whole (length whole) (length whole) (length whole) th;
     Some (int (length whole), th)
   }"
| "line_loop S M whole (c # data) th = do {
     r \<leftarrow> line_pass S M whole c data th;
     case r of Inl th \<Rightarrow> line_loop S M whole data th | Inr res \<Rightarrow> Some res
   }"

definition at_CmdPushInLineMode ::
  "char_settings \<Rightarrow> cmd_module \<Rightarrow> bytes \<Rightarrow> AT_CMD_ENGINE_T \<Rightarrow> (int \<times> AT_CMD_ENGINE_T) option" where
  "at_CmdPushInLineMode S M data th =
     (if cmds_pending th then Some (- 1, th)
      else line_loop S M data data (if length data > 0 then ccall StopLFTimer th else th))"

definition prompt_pass ::
  "char_settings \<Rightarrow> cmd_module \<Rightarrow> bytes \<Rightarrow> u8 \<Rightarrow> bytes \<Rightarrow> AT_CMD_ENGINE_T \<Rightarrow> pass" where
  "prompt_pass S M whole c data th =
     (let ptr = length whole - length data in
      if c = CHAR_BACKSPACE S \<and> CHAR_BACKSPACE S \<noteq> CHAR_CTRL_Z \<and> CHAR_BACKSPACE S \<noteq> CHAR_ESC
      then go_on (Some (th\<lparr>ce_buffLen := ce_buffLen th - 1\<rparr>))
      else
        let th = drop_overflow (ce_buffSize th) th in
        if c = CHAR_CTRL_Z \<or> c = CHAR_ESC
        then stop_at ptr (do {
          th \<leftarrow> at_CmdCachePushByte c (th\<lparr>errSync := False\<rparr>);
          th \<leftarrow> echo S whole ptr ptr ptr th;
          at_CmdPromptFinished M th
        })
        else go_on (if \<not> errSync th then at_CmdCachePushByte c th else Some th))"

fun prompt_loop ::
  "char_settings \<Rightarrow> cmd_module \<Rightarrow> bytes \<Rightarrow> bytes \<Rightarrow> AT_CMD_ENGINE_T \<Rightarrow> (int \<times> AT_CMD_ENGINE_T) option" where
  "prompt_loop S M whole [] th = do {
     th \<leftarrow> echo S whole (length whole) (length whole) (length whole) th;
     Some (int (length whole), th)
   }"
| "prompt_loop S M whole (c # data) th = do {
     r \<leftarrow> prompt_pass S M whole c data th;
     case r of Inl th \<Rightarrow> prompt_loop S M whole data th | Inr res \<Rightarrow> Some res
   }"

definition at_CmdPushInPromptMode ::
  "char_settings \<Rightarrow> cmd_module \<Rightarrow> bytes \<Rightarrow> AT_CMD_ENGINE_T \<Rightarrow> (int \<times> AT_CMD_ENGINE_T) option" where
  "at_CmdPushInPromptMode S M data th = prompt_loop S M data data th"

text \<open>The comparison of \<open>length\<close> with \<open>needed\<close> is unsigned.\<close>

definition at_CmdPushInRawMode ::
  "char_settings \<Rightarrow> cmd_module \<Rightarrow> bytes \<Rightarrow> AT_CMD_ENGINE_T \<Rightarrow> (int \<times> AT_CMD_ENGINE_T) option" where
  "at_CmdPushInRawMode S M data th =
     (let needed = int (fixedLen th) - int (ce_buffLen th) in
      if needed = 0 then Some (0, th)
      else do {
        th \<leftarrow> echo S data 0 0 (length data) th;
        if int (length data) \<ge> needed mod 2 ^ 32
        then do {
          th \<leftarrow> at_CmdAppendToCache (take (nat (needed mod 2 ^ 32)) data) th;
          th \<leftarrow> at_CmdRawFinished M th;
          Some (int (length data), th)
        }
        else do {
          th \<leftarrow> at_CmdAppendToCache data th;
          Some (int (length data), th)
        }
      })"

definition at_CmdPushData ::
  "char_settings \<Rightarrow> cmd_module \<Rightarrow> bytes \<Rightarrow> AT_CMD_ENGINE_T \<Rightarrow> (int \<times> AT_CMD_ENGINE_T) option" where
  "at_CmdPushData S M data th =
     (case ce_mode th of
        CMD_PARSE_MODE_LINE \<Rightarrow> at_CmdPushInLineMode S M data th
      | CMD_PARSE_MODE_PROMPT \<Rightarrow> at_CmdPushInPromptMode S M data th
      | CMD_PARSE_MODE_FIXED \<Rightarrow> at_CmdPushInRawMode S M data th
      | CMD_PARSE_MODE_BYPASS \<Rightarrow> Some (on_bypass M data, th))"

end
