(* ===== verification/Cmd_Engine_Line.thy ===== *)
theory Cmd_Engine_Line
  imports Cmd_Engine
begin

text \<open>
  The invariant of the command engine, its preservation by input in every mode, and the lines it
  hands to the module.
\<close>

section \<open>The engine invariant\<close>

fun ccall_ok :: "cmd_call \<Rightarrow> bool" where
  "ccall_ok (ProcessLine x) = (x \<noteq> [] \<and> length x < CMD_LINE_BUFF_SIZE)"
| "ccall_ok (RunCommandExtra x) = (length x \<le> CMD_LINE_BUFF_SIZE)"
| "ccall_ok _ = True"

definition cmd_buf_ok :: "AT_CMD_BUF \<Rightarrow> bool" where
  "cmd_buf_ok b \<longleftrightarrow> length (DataBuf b) = CMD_LINE_BUFF_SIZE \<and> DataLen b < CMD_LINE_BUFF_SIZE"

definition ce_ok :: "AT_CMD_ENGINE_T \<Rightarrow> bool" where
  "ce_ok th \<longleftrightarrow> length (ce_buff th) = CMD_LINE_BUFF_SIZE \<and> ce_buffSize th = CMD_LINE_BUFF_SIZE \<and>
     ce_buffLen th \<le> CMD_LINE_BUFF_SIZE \<and> cmd_buf_ok (cmd_buf th) \<and> cmd_buf_ok (cmd_buf_bak th) \<and>
     (ce_mode th = CMD_PARSE_MODE_FIXED \<longrightarrow> ce_buffLen th \<le> fixedLen th \<and> fixedLen th \<le> CMD_LINE_BUFF_SIZE) \<and>
     list_all ccall_ok (ce_calls th)"

lemma ce_ok_call: "ce_ok th \<Longrightarrow> ccall_ok c \<Longrightarrow> ce_ok (ccall c th)"
  by (simp add: ce_ok_def ccall_def)

lemma ce_ok_upd:
  "ce_ok th \<Longrightarrow> ce_ok (th\<lparr>ce_buffLen := 0\<rparr>)" "ce_ok th \<Longrightarrow> ce_ok (th\<lparr>errSync := e\<rparr>)"
  "ce_ok th \<Longrightarrow> ce_ok (th\<lparr>setFormatNeeded := e\<rparr>)" "ce_ok th \<Longrightarrow> ce_ok (th\<lparr>cmds_pending := e\<rparr>)"
  "ce_ok th \<Longrightarrow> ce_ok (th\<lparr>ce_mode := CMD_PARSE_MODE_LINE\<rparr>)"
  "ce_ok th \<Longrightarrow> ce_ok (th\<lparr>ce_buffLen := ce_buffLen th - 1\<rparr>)"
  "ce_ok th \<Longrightarrow> ce_ok (th\<lparr>ce_buffLen := ce_buffLen th - Suc 0\<rparr>)"
  "ce_ok th \<Longrightarrow> ce_ok (th\<lparr>errSync := e, ce_buffLen := 0\<rparr>)"
  by (auto simp: ce_ok_def)

lemma exec_op_ok: "ce_ok th \<Longrightarrow> ce_ok (exec_op x th)"
  by (cases x) (auto simp: ce_ok_def at_CmdSetLineMode_def at_CmdSetPromptMode_def at_CmdSetRawMode_def
      at_CmdSetBypassMode_def at_CmdDeviceSetFormatNeeded_def at_CmdCommandFinished_def ccall_def Let_def)

lemma exec_ops_ok: "ce_ok th \<Longrightarrow> ce_ok (exec_ops ops th)"
  unfolding exec_ops_def by (induction ops arbitrary: th) (auto intro: exec_op_ok)

lemma RunCommandBuff_ok:
  assumes "ce_ok th" "DataLen (cmd_buf th) \<noteq> 0"
  shows "\<exists>t. at_CmdRunCommandBuff M th = Some t \<and> ce_ok t"
proof -
  let ?l = "take (DataLen (cmd_buf th)) (DataBuf (cmd_buf th))"
  have rd: "rd_block (DataBuf (cmd_buf th)) 0 (DataLen (cmd_buf th)) = Some ?l"
    using assms(1) by (simp add: rd_block_in ce_ok_def cmd_buf_ok_def)
  have ok: "ce_ok (ccall (ProcessLine ?l) th)"
    using assms by (intro ce_ok_call) (auto simp: ce_ok_def cmd_buf_ok_def)
  let ?u = "ccall (ProcessLine ?l) th"
  have bak: "ce_ok (?u\<lparr>cmd_buf_bak := (cmd_buf_bak ?u)\<lparr>DataLen := 0\<rparr>\<rparr>)"
    and run: "ce_ok (at_CmdBackupCmdBuff (?u\<lparr>setFormatNeeded := False\<rparr>))"
    using ok by (auto simp: ce_ok_def cmd_buf_ok_def at_CmdBackupCmdBuff_def)
  show ?thesis
    using bak run rd
    by (auto simp: at_CmdRunCommandBuff_def Let_def intro!: exec_ops_ok ce_ok_call ce_ok_upd
        split: module_out.splits)
qed

lemma RunCommandLine_ok:
  assumes "ce_ok th" "len < CMD_LINE_BUFF_SIZE"
  shows "\<exists>t. at_CmdRunCommandLine M len th = Some t \<and> ce_ok t"
proof (cases "len = 0")
  case False
  have len: "length (ce_buff th) = CMD_LINE_BUFF_SIZE" "length (DataBuf (cmd_buf th)) = CMD_LINE_BUFF_SIZE"
    using assms(1) by (simp_all add: ce_ok_def cmd_buf_ok_def)
  let ?d = "take len (ce_buff th)"
  let ?b = "?d @ drop len (DataBuf (cmd_buf th))"
  have "ce_ok (th\<lparr>cmd_buf := \<lparr>DataLen = len, DataBuf = ?b[len := 0]\<rparr>\<rparr>)"
    using assms len by (simp add: ce_ok_def cmd_buf_ok_def)
  then have "\<exists>t. at_CmdRunCommandBuff M (th\<lparr>cmd_buf := \<lparr>DataLen = len, DataBuf = ?b[len := 0]\<rparr>\<rparr>) = Some t \<and> ce_ok t"
    using False by (intro RunCommandBuff_ok) simp_all
  then show ?thesis
    using False assms(2) len by (simp add: at_CmdRunCommandLine_def rd_block_in wr_block_in wr_in min_def)
qed (use assms in \<open>simp add: at_CmdRunCommandLine_def\<close>)

lemma LineFinished_ok:
  assumes "ce_ok th" "2 \<le> ce_buffLen th"
    and "ce_buffLen th < CMD_LINE_BUFF_SIZE \<or> last_byte th = Some (CHAR_LF S)"
  shows "\<exists>t. at_CmdLineFinished S M th = Some t \<and> ce_ok t"
proof -
  have len: "length (ce_buff th) = CMD_LINE_BUFF_SIZE" "ce_buffLen th \<le> CMD_LINE_BUFF_SIZE"
    using assms(1) by (simp_all add: ce_ok_def)
  define c where "c = ce_buff th ! (ce_buffLen th - 1)"
  have c: "last_byte th = Some c"
    using assms(2) len by (simp add: last_byte_def rd_in c_def)
  define u where "u = (if c = CHAR_LF S then th\<lparr>ce_buffLen := ce_buffLen th - 1\<rparr> else th)"
  have u: "ce_ok u" "0 < ce_buffLen u" "ce_buffLen u < CMD_LINE_BUFF_SIZE"
    using assms c len by (auto simp: u_def ce_ok_def)
  define d where "d = ce_buff u ! (ce_buffLen u - 1)"
  have d: "last_byte u = Some d"
    using u by (simp add: last_byte_def rd_in d_def ce_ok_def)
  define v where "v = (if d = CHAR_CR S then u\<lparr>ce_buff := (ce_buff u)[ce_buffLen u - 1 := 0x0d]\<rparr> else u)"
  have "ce_ok v" "ce_buffLen v < CMD_LINE_BUFF_SIZE"
    using u by (auto simp: v_def ce_ok_def)
  then show ?thesis
    using RunCommandLine_ok [of v "ce_buffLen v" M] c d
    by (simp add: at_CmdLineFinished_def flip: u_def v_def)
qed

lemma line_push_ok:
  assumes "ce_ok th" "ce_buffLen th < CMD_LINE_BUFF_SIZE" "ce_mode th \<noteq> CMD_PARSE_MODE_FIXED"
  shows "\<exists>t. at_CmdCachePushByte c th = Some t \<and> ce_ok t \<and> ce_buffLen t = Suc (ce_buffLen th) \<and>
    ce_mode t = ce_mode th \<and> last_byte t = Some c"
  using assms by (simp add: at_CmdCachePushByte_def wr_in ce_ok_def last_byte_def rd_in)

lemma echo_ok:
  assumes "ce_ok th" "ptr - n + m \<le> length whole"
  shows "\<exists>t. echo S whole ptr n m th = Some t \<and> ce_ok t \<and> ce_buffLen t = ce_buffLen th \<and>
    ce_mode t = ce_mode th \<and> last_byte t = last_byte th"
  using assms ce_ok_call [OF assms(1), of "CmdWrite x" for x]
  by (simp add: echo_def rd_block_in ccall_def last_byte_def)

lemma LineRepeat_ok:
  assumes "ce_ok th"
  shows "\<exists>t. at_CmdLineRepeat M th = Some t \<and> ce_ok t"
proof (cases "DataLen (cmd_buf_bak th) \<noteq> 0")
  case True
  have "ce_ok (th\<lparr>cmd_buf := cmd_buf_bak th\<rparr>)" using assms by (simp add: ce_ok_def)
  then show ?thesis using RunCommandBuff_ok [of "th\<lparr>cmd_buf := cmd_buf_bak th\<rparr>" M] True
    by (simp add: at_CmdLineRepeat_def)
qed (use assms in \<open>simp add: at_CmdLineRepeat_def\<close>)

text \<open>What a pass leaves: a well-formed engine in the same mode, or a result in range.\<close>

definition pass_ok :: "bytes \<Rightarrow> CMD_PARSER_MODE \<Rightarrow> pass \<Rightarrow> bool" where
  "pass_ok whole m r \<longleftrightarrow> (\<exists>x. r = Some x \<and>
     (case x of Inl t \<Rightarrow> ce_ok t \<and> ce_mode t = m
      | Inr (n, t) \<Rightarrow> ce_ok t \<and> 0 \<le> n \<and> n \<le> int (length whole)))"

lemma pass_okE:
  assumes "pass_ok whole m r"
  obtains (go) t where "r = Some (Inl t)" "ce_ok t" "ce_mode t = m"
    | (stop) n t where "r = Some (Inr (n, t))" "ce_ok t" "0 \<le> n" "n \<le> int (length whole)"
proof -
  obtain x where x: "r = Some x" "case x of Inl t \<Rightarrow> ce_ok t \<and> ce_mode t = m
      | Inr (n, t) \<Rightarrow> ce_ok t \<and> 0 \<le> n \<and> n \<le> int (length whole)"
    using assms by (auto simp: pass_ok_def)
  show thesis using x by (cases x) (auto intro: go stop)
qed

lemma pass_go_on: "pass_ok whole m (go_on r) \<longleftrightarrow> (\<exists>t. r = Some t \<and> ce_ok t \<and> ce_mode t = m)"
  by (auto simp: pass_ok_def go_on_def)

lemma pass_stop: "r = Some t \<Longrightarrow> ce_ok t \<Longrightarrow> n \<le> length whole \<Longrightarrow> pass_ok whole m (stop_at n r)"
  by (simp add: pass_ok_def stop_at_def ce_ok_upd)

lemma finish_ok:
  assumes "ce_ok th" "2 \<le> ce_buffLen th" "n \<le> length whole" "ptr - n + k \<le> length whole"
    and "ce_buffLen th < CMD_LINE_BUFF_SIZE \<or> last_byte th = Some (CHAR_LF S)"
  shows "pass_ok whole m (finish_line S M whole ptr n k th)"
proof -
  obtain t where t: "echo S whole ptr n k th = Some t" "ce_ok t" "ce_buffLen t = ce_buffLen th"
    "last_byte t = last_byte th"
    using echo_ok [OF assms(1,4)] by auto
  then obtain u where "at_CmdLineFinished S M t = Some u" "ce_ok u"
    using LineFinished_ok [of t S M] assms by auto
  then show ?thesis using t assms(3) by (simp add: finish_line_def pass_stop)
qed

lemma line_default_ok:
  assumes "ce_ok t" "ce_mode t = CMD_PARSE_MODE_LINE" "2 \<le> ce_buffLen t" "ce_buffLen t < 5119"
    and "1 \<le> ptr" "ptr + length data = length whole"
  shows "pass_ok whole CMD_PARSE_MODE_LINE (line_default S M whole ptr c data t)"
proof -
  obtain l where l: "last_byte t = Some l"
    using assms by (auto simp: last_byte_def rd_in ce_ok_def)
  obtain u where u: "at_CmdCachePushByte c t = Some u" "ce_ok u" "ce_buffLen u = Suc (ce_buffLen t)"
    "ce_mode u = CMD_PARSE_MODE_LINE" "last_byte u = Some c"
    using line_push_ok [OF assms(1), of c] assms by auto
  show ?thesis
  proof (cases "l = CHAR_CR S")
    case True
    then show ?thesis using l u assms by (auto simp: line_default_def intro!: finish_ok)
  next
    case False
    show ?thesis
    proof (cases "c = CHAR_CR S \<and> data \<noteq> []")
      case True
      then obtain n ds where d: "data = n # ds" by (cases data) auto
      obtain v where v: "at_CmdCachePushByte n u = Some v" "ce_ok v" "ce_buffLen v = Suc (ce_buffLen u)"
        "last_byte v = Some n"
        using line_push_ok [OF u(2), of n] u assms(4) by auto
      show ?thesis using True \<open>l \<noteq> CHAR_CR S\<close> d l u v assms
        by (auto simp: line_default_def intro!: finish_ok)
    next
      case c: False
      then show ?thesis using False l u assms
        by (auto simp: line_default_def pass_go_on ce_ok_call ccall_def [of _ u] ce_ok_call [of u, unfolded ccall_def])
    qed
  qed
qed

lemma line_pass_ok:
  assumes "ce_ok th" "ce_mode th = CMD_PARSE_MODE_LINE" "length data < length whole"
  shows "pass_ok whole CMD_PARSE_MODE_LINE (line_pass S M whole c data th)"
proof -
  define ptr where "ptr = length whole - length data"
  have p: "1 \<le> ptr" "ptr \<le> length whole" "ptr + length data = length whole"
    using assms(3) by (simp_all add: ptr_def)
  define t where "t = drop_overflow (ce_buffSize th - 1) th"
  have t: "ce_ok t" "ce_mode t = CMD_PARSE_MODE_LINE" "ce_buffLen t < 5119"
    using assms by (auto simp: t_def drop_overflow_def ce_ok_def)
  obtain u where u: "at_CmdCachePushByte c t = Some u" "ce_ok u" "ce_mode u = CMD_PARSE_MODE_LINE"
    using line_push_ok [OF t(1), of c] t by auto
  have c0: "pass_ok whole CMD_PARSE_MODE_LINE (line_case0 c t)"
    using t u by (auto simp: line_case0_def pass_go_on)
  have c1: "pass_ok whole CMD_PARSE_MODE_LINE (line_case1 S M whole ptr c t)"
  proof (cases "c = 0x2f")
    case True
    obtain v where v: "echo S whole ptr ptr ptr u = Some v" "ce_ok v"
      using echo_ok [OF u(2), of ptr ptr ptr whole S] p by auto
    obtain w where "at_CmdLineRepeat M v = Some w" "ce_ok w"
      using LineRepeat_ok [OF v(2)] by auto
    then show ?thesis using True u v p by (simp add: line_case1_def pass_stop)
  qed (use t u in \<open>auto simp: line_case1_def pass_go_on ce_ok_upd\<close>)
  have c2: "pass_ok whole CMD_PARSE_MODE_LINE (line_default S M whole ptr c data t)" if "2 \<le> ce_buffLen t"
    using line_default_ok [OF t(1,2) that t(3) p(1,3)] .
  have "pass_ok whole CMD_PARSE_MODE_LINE (go_on (Some (th\<lparr>ce_buffLen := ce_buffLen th - 1\<rparr>)))"
    "pass_ok whole CMD_PARSE_MODE_LINE (go_on (Some (if c = CHAR_CR S then t\<lparr>errSync := False\<rparr> else t)))"
    using assms(1,2) t by (auto simp: pass_go_on ce_ok_upd)
  then show ?thesis
    using c0 c1 c2 unfolding line_pass_def Let_def t_def [symmetric] ptr_def [symmetric] by (simp del: One_nat_def)
qed

lemma extra_ok:
  assumes "ce_ok v"
  shows "\<exists>w. at_CmdPromptFinished M v = Some w \<and> ce_ok w" "\<exists>w. at_CmdRawFinished M v = Some w \<and> ce_ok w"
proof -
  let ?d = "take (ce_buffLen v) (ce_buff v)"
  let ?u = "ccall KillAsyncTimer (v\<lparr>ce_mode := CMD_PARSE_MODE_LINE\<rparr>)"
  have "ce_ok (ccall (RunCommandExtra ?d) ?u)"
    using assms by (intro ce_ok_call ce_ok_upd) (simp_all add: ce_ok_def)
  then have "ce_ok (exec_ops (on_extra M ?d) (ccall (RunCommandExtra ?d) ?u))" by (rule exec_ops_ok)
  moreover have "rd_block (ce_buff v) 0 (ce_buffLen v) = Some ?d"
    using assms by (simp add: rd_block_in ce_ok_def)
  ultimately show "\<exists>w. at_CmdPromptFinished M v = Some w \<and> ce_ok w"
    "\<exists>w. at_CmdRawFinished M v = Some w \<and> ce_ok w"
    by (simp_all add: at_CmdPromptFinished_def at_CmdRawFinished_def ccall_def)
qed

lemma prompt_pass_ok:
  assumes "ce_ok th" "ce_mode th = CMD_PARSE_MODE_PROMPT" "length data < length whole"
  shows "pass_ok whole CMD_PARSE_MODE_PROMPT (prompt_pass S M whole c data th)"
proof -
  define ptr where "ptr = length whole - length data"
  have p: "ptr \<le> length whole" using assms(3) by (simp add: ptr_def)
  define t where "t = drop_overflow (ce_buffSize th) th"
  have t: "ce_ok t" "ce_mode t = CMD_PARSE_MODE_PROMPT" "ce_buffLen t < CMD_LINE_BUFF_SIZE"
    using assms by (auto simp: t_def drop_overflow_def ce_ok_def)
  have push: "\<exists>u. at_CmdCachePushByte c t = Some u \<and> ce_ok u \<and> ce_mode u = CMD_PARSE_MODE_PROMPT"
    using line_push_ok [OF t(1), of c] t by auto
  obtain u where u: "at_CmdCachePushByte c (t\<lparr>errSync := False\<rparr>) = Some u" "ce_ok u"
    using line_push_ok [of "t\<lparr>errSync := False\<rparr>" c] t by (auto simp: ce_ok_upd)
  obtain v where v: "echo S whole ptr ptr ptr u = Some v" "ce_ok v"
    using echo_ok [OF u(2), of ptr ptr ptr whole S] p by auto
  obtain w where w: "at_CmdPromptFinished M v = Some w" "ce_ok w"
    using extra_ok [OF v(2), of M] by auto
  have "pass_ok whole CMD_PARSE_MODE_PROMPT (go_on (Some (th\<lparr>ce_buffLen := ce_buffLen th - 1\<rparr>)))"
    using assms(1,2) by (auto simp: pass_go_on ce_ok_upd)
  moreover have "pass_ok whole CMD_PARSE_MODE_PROMPT
      (go_on (if \<not> errSync t then at_CmdCachePushByte c t else Some t))"
    using t push by (auto simp: pass_go_on)
  moreover have "pass_ok whole CMD_PARSE_MODE_PROMPT (stop_at ptr (do {
          th \<leftarrow> at_CmdCachePushByte c (t\<lparr>errSync := False\<rparr>);
          th \<leftarrow> echo S whole ptr ptr ptr th;
          at_CmdPromptFinished M th }))"
    using u v w p by (simp add: pass_stop)
  ultimately show ?thesis unfolding prompt_pass_def Let_def t_def [symmetric] ptr_def [symmetric] by simp
qed

definition cpost :: "bytes \<Rightarrow> (int \<times> AT_CMD_ENGINE_T) option \<Rightarrow> bool" where
  "cpost whole r \<longleftrightarrow> (\<exists>n t. r = Some (n, t) \<and> ce_ok t \<and> 0 \<le> n \<and> n \<le> int (length whole))"

lemma loop_end_ok:
  "ce_ok th \<Longrightarrow> cpost whole (do {
     th \<leftarrow> echo S whole (length whole) (length whole) (length whole) th;
     Some (int (length whole), th) })"
  using echo_ok [of th "length whole" "length whole" "length whole" whole S] by (auto simp: cpost_def)

lemma line_loop_ok:
  "ce_ok th \<Longrightarrow> ce_mode th = CMD_PARSE_MODE_LINE \<Longrightarrow> suffix data whole \<Longrightarrow>
   cpost whole (line_loop S M whole data th)"
proof (induction data arbitrary: th)
  case (Cons c data)
  have "suffix data whole" "length data < length whole"
    using Cons.prems(3) suffix_length_le [OF Cons.prems(3)] by (auto dest: suffix_ConsD)
  then show ?case
    using Cons.IH
    by (cases rule: pass_okE [OF line_pass_ok [OF Cons.prems(1,2), of data whole S M c]])
      (simp_all add: cpost_def)
qed (simp add: loop_end_ok)

lemma prompt_loop_ok:
  "ce_ok th \<Longrightarrow> ce_mode th = CMD_PARSE_MODE_PROMPT \<Longrightarrow> suffix data whole \<Longrightarrow>
   cpost whole (prompt_loop S M whole data th)"
proof (induction data arbitrary: th)
  case (Cons c data)
  have "suffix data whole" "length data < length whole"
    using Cons.prems(3) suffix_length_le [OF Cons.prems(3)] by (auto dest: suffix_ConsD)
  then show ?case
    using Cons.IH
    by (cases rule: pass_okE [OF prompt_pass_ok [OF Cons.prems(1,2), of data whole S M c]])
      (simp_all add: cpost_def)
qed (simp add: loop_end_ok)

lemma append_fits:
  assumes "ce_ok th" "ce_buffLen th + length d \<le> CMD_LINE_BUFF_SIZE"
    and "ce_mode th = CMD_PARSE_MODE_FIXED \<longrightarrow> ce_buffLen th + length d \<le> fixedLen th"
  shows "\<exists>t. at_CmdAppendToCache d th = Some t \<and> ce_ok t \<and> ce_buffLen t = ce_buffLen th + length d \<and>
    take (ce_buffLen t) (ce_buff t) = take (ce_buffLen th) (ce_buff th) @ d \<and> ce_calls t = ce_calls th"
  using assms by (auto simp: at_CmdAppendToCache_def wr_block_in ce_ok_def)

lemma raw_ok:
  assumes "ce_ok th" "ce_mode th = CMD_PARSE_MODE_FIXED"
  shows "cpost data (at_CmdPushInRawMode S M data th)"
proof -
  define k where "k = fixedLen th - ce_buffLen th"
  have k: "int (fixedLen th) - int (ce_buffLen th) = int k" "k \<le> CMD_LINE_BUFF_SIZE"
    "ce_buffLen th + k = fixedLen th" "fixedLen th \<le> CMD_LINE_BUFF_SIZE"
    using assms by (auto simp: k_def ce_ok_def)
  have km: "int k mod 2 ^ 32 = int k" "int k mod 4294967296 = int k" using k(2) by simp_all
  obtain t where t: "echo S data 0 0 (length data) th = Some t" "ce_ok t" "ce_buffLen t = ce_buffLen th"
    "ce_mode t = CMD_PARSE_MODE_FIXED" "fixedLen t = fixedLen th"
    using assms ce_ok_call [OF assms(1), of "CmdWrite data"]
    by (cases "EchoMode S") (simp_all add: echo_def rd_block_in ccall_def)
  show ?thesis
  proof (cases "k = 0")
    case True
    then show ?thesis using assms(1) k(1) by (simp add: at_CmdPushInRawMode_def cpost_def)
  next
    case False
    let ?d = "if k \<le> length data then take k data else data"
    have dl: "ce_buffLen th + length ?d \<le> fixedLen th" using k(3) by (simp split: if_splits)
    obtain u where u: "at_CmdAppendToCache ?d t = Some u" "ce_ok u"
      using append_fits [OF t(2), of ?d] t(3,4,5) dl k(4) by auto
    obtain v where "at_CmdRawFinished M u = Some v" "ce_ok v" using extra_ok(2) [OF u(2)] by auto
    then show ?thesis
      using False t u by (auto simp: at_CmdPushInRawMode_def Let_def k(1) km cpost_def split: if_splits)
  qed
qed

lemma PushData_safe:
  assumes "ce_ok th" "ce_mode th \<noteq> CMD_PARSE_MODE_BYPASS"
  shows "\<exists>n t. at_CmdPushData S M data th = Some (n, t) \<and> ce_ok t \<and> n \<le> int (length data) \<and>
    (0 \<le> n \<or> n = - 1 \<and> t = th \<and> cmds_pending th)"
proof (cases "ce_mode th")
  case CMD_PARSE_MODE_LINE
  have "ce_ok (if length data > 0 then ccall StopLFTimer th else th)"
    "ce_mode (if length data > 0 then ccall StopLFTimer th else th) = CMD_PARSE_MODE_LINE"
    using assms(1) CMD_PARSE_MODE_LINE ce_ok_call [OF assms(1)] by (auto simp: ccall_def)
  from line_loop_ok [OF this, of data data S M] show ?thesis
    using assms(1) CMD_PARSE_MODE_LINE
    by (auto simp: at_CmdPushData_def at_CmdPushInLineMode_def cpost_def)
next
  case CMD_PARSE_MODE_PROMPT
  then show ?thesis using prompt_loop_ok [OF assms(1), of data data S M]
    by (auto simp: at_CmdPushData_def at_CmdPushInPromptMode_def cpost_def)
next
  case CMD_PARSE_MODE_FIXED
  then show ?thesis using raw_ok [OF assms(1), of data S M] by (auto simp: at_CmdPushData_def cpost_def)
qed (use assms in simp)

text \<open>
  C27: in every mode but the bypass, any input is handled within the engine's buffers and
  keeps the engine well formed; between 0 and all bytes are consumed, or the call is refused
  with -1 while commands are pending. Every line handed to the parser fits its buffer.
\<close>

theorem cmd_input_safe:
  assumes "ce_ok th" "ce_mode th \<noteq> CMD_PARSE_MODE_BYPASS"
  shows "\<exists>n t. at_CmdPushData S M data th = Some (n, t) \<and> ce_ok t \<and> n \<le> int (length data) \<and>
    (0 \<le> n \<or> n = - 1 \<and> t = th \<and> cmds_pending th)"
  by (rule PushData_safe [OF assms])

lemma create_ok:
  "length mem = CMD_LINE_BUFF_SIZE \<Longrightarrow> length buf = CMD_LINE_BUFF_SIZE \<Longrightarrow> length bak = CMD_LINE_BUFF_SIZE \<Longrightarrow>
   ce_ok (at_CmdEngineCreate mem buf bak)"
  by (simp add: ce_ok_def at_CmdEngineCreate_def cmd_buf_ok_def)

definition demo_chars :: char_settings where
  "demo_chars = \<lparr>CHAR_CR = 13, CHAR_LF = 10, CHAR_BACKSPACE = 8, EchoMode = True\<rparr>"

definition demo_module :: cmd_module where
  "demo_module = \<lparr>on_line = (\<lambda>_. LineRun [Op_SetCmds True]), on_extra = (\<lambda>_. [Op_SetLine]), on_bypass = (\<lambda>_. 0)\<rparr>"

definition demo_engine :: AT_CMD_ENGINE_T where
  "demo_engine = at_CmdEngineCreate (replicate 5120 0) (replicate 5120 0) (replicate 5120 0)"

lemma demo_engine_ok: "ce_ok demo_engine"
  unfolding demo_engine_def by (rule create_ok) simp_all

lemma demo_engine_sel:
  "ce_mode demo_engine = CMD_PARSE_MODE_LINE" "ce_buffLen demo_engine = 0" "\<not> cmds_pending demo_engine"
  "\<not> errSync demo_engine" "ce_calls demo_engine = []"
  by (simp_all add: demo_engine_def at_CmdEngineCreate_def)

theorem cmd_input_safe_witness:
  "\<exists>n t. at_CmdPushData demo_chars demo_module [0x41, 0x2f] demo_engine = Some (n, t) \<and> ce_ok t \<and>
    n \<le> int (length [0x41 :: u8, 0x2f]) \<and> (0 \<le> n \<or> n = - 1 \<and> t = demo_engine \<and> cmds_pending demo_engine)"
  by (rule cmd_input_safe) (simp_all add: demo_engine_ok demo_engine_sel)


section \<open>A line is run as typed, however its bytes arrive\<close>

definition cfed :: "bytes \<Rightarrow> AT_CMD_ENGINE_T \<Rightarrow> AT_CMD_ENGINE_T" where
  "cfed bs th = th\<lparr>ce_buff := take (ce_buffLen th) (ce_buff th) @ bs @ drop (ce_buffLen th + length bs) (ce_buff th),
     ce_buffLen := ce_buffLen th + length bs\<rparr>"

lemma cfed_simps [simp]:
  "ce_buffLen (cfed bs th) = ce_buffLen th + length bs" "ce_buffSize (cfed bs th) = ce_buffSize th"
  "ce_mode (cfed bs th) = ce_mode th" "errSync (cfed bs th) = errSync th"
  "cmds_pending (cfed bs th) = cmds_pending th" "ce_calls (cfed bs th) = ce_calls th"
  "cmd_buf (cfed bs th) = cmd_buf th" "cmd_buf_bak (cfed bs th) = cmd_buf_bak th"
  by (simp_all add: cfed_def)

lemma cfed_Nil [simp]: "cfed [] th = th"
  by (simp add: cfed_def)

lemma cfed_cfed:
  "ce_buffLen th + length (xs @ ys) \<le> length (ce_buff th) \<Longrightarrow> cfed ys (cfed xs th) = cfed (xs @ ys) th"
  by (cases xs) (auto simp: cfed_def min_def algebra_simps)

definition content :: "AT_CMD_ENGINE_T \<Rightarrow> bytes" where
  "content th = take (ce_buffLen th) (ce_buff th)"

lemma content_cfed:
  "ce_ok th \<Longrightarrow> ce_buffLen th + length bs \<le> CMD_LINE_BUFF_SIZE \<Longrightarrow> content (cfed bs th) = content th @ bs"
  by (simp add: content_def cfed_def ce_ok_def)

lemma cfed_ok:
  "ce_ok th \<Longrightarrow> ce_mode th = CMD_PARSE_MODE_LINE \<Longrightarrow> ce_buffLen th + length bs \<le> CMD_LINE_BUFF_SIZE \<Longrightarrow>
   ce_ok (cfed bs th)"
  by (simp add: ce_ok_def cfed_def)

lemma push_cfed:
  "ce_ok th \<Longrightarrow> ce_buffLen th < CMD_LINE_BUFF_SIZE \<Longrightarrow> at_CmdCachePushByte c th = Some (cfed [c] th)"
  by (simp add: at_CmdCachePushByte_def wr_in cfed_def ce_ok_def upd_conv_take_nth_drop)

lemma last_content: "ce_ok th \<Longrightarrow> content th \<noteq> [] \<Longrightarrow> last_byte th = Some (last (content th))"
proof -
  assume ok: "ce_ok th" "content th \<noteq> []"
  then have len: "length (content th) = ce_buffLen th" "ce_buffLen th \<le> length (ce_buff th)"
    by (simp_all add: content_def ce_ok_def)
  moreover have "0 < length (content th)" using ok(2) by (simp only: length_greater_0_conv not_False_eq_True)
  ultimately have "0 < ce_buffLen th" by linarith
  then show ?thesis using ok(2) len by (simp add: last_byte_def rd_in last_conv_nth) (simp add: content_def)
qed

text \<open>A command line without its end: "AT" in either case, then no control character.\<close>

definition at_line :: "char_settings \<Rightarrow> bytes \<Rightarrow> bool" where
  "at_line S l \<longleftrightarrow> (\<exists>a t body. l = a # t # body \<and> a \<in> {0x61, 0x41} \<and> t \<in> {0x74, 0x54}) \<and>
     CHAR_CR S \<notin> set l \<and> CHAR_BACKSPACE S \<notin> set l \<and> length l + 2 < CMD_LINE_BUFF_SIZE"

lemma line_absorb1:
  assumes "ce_ok th" "\<not> errSync th" "ce_mode th = CMD_PARSE_MODE_LINE"
    and "at_line S l" "prefix (content th @ [c]) l"
  shows "line_pass S M whole c data th = Some (Inl (cfed [c] th))"
proof -
  obtain r where l: "l = content th @ c # r" using assms(5) by (auto simp: prefix_def)
  have len: "length (content th) = ce_buffLen th" using assms(1) by (simp add: content_def ce_ok_def)
  have bound: "ce_buffLen th + 2 < 5119" using assms(4) l len by (simp add: at_line_def)
  have nc: "c \<noteq> CHAR_BACKSPACE S" "c \<noteq> CHAR_CR S" using assms(4) l by (auto simp: at_line_def)
  have room: "drop_overflow (ce_buffSize th - 1) th = th"
    using assms(1) bound by (simp add: drop_overflow_def ce_ok_def)
  have push: "at_CmdCachePushByte c th = Some (cfed [c] th)"
    using push_cfed [OF assms(1)] bound by simp
  consider "ce_buffLen th = 0" | "ce_buffLen th = 1" | "2 \<le> ce_buffLen th" by linarith
  then show ?thesis
  proof cases
    case 1
    then have "c \<in> {0x61, 0x41}" using assms(4) l len by (auto simp: at_line_def)
    then show ?thesis using 1 nc room push assms(2)
      by (auto simp: line_pass_def Let_def line_case0_def go_on_def)
  next
    case 2
    then obtain x where "content th = [x]" using len by (cases "content th") auto
    then have c: "c \<in> {0x74, 0x54}" using assms(4) l by (auto simp: at_line_def)
    then have "c \<noteq> 0x2f" by auto
    then show ?thesis using c 2 nc room push assms(2)
      by (auto simp: line_pass_def Let_def line_case1_def go_on_def)
  next
    case 3
    then have ne: "content th \<noteq> []" using len by auto
    then have "last (content th) \<noteq> CHAR_CR S"
      using assms(4) l last_in_set [OF ne] by (auto simp: at_line_def simp del: last_in_set)
    then show ?thesis using 3 nc room push assms(2) last_content [OF assms(1) ne]
      by (auto simp: line_pass_def Let_def line_default_def go_on_def)
  qed
qed

lemma line_absorb:
  "ce_ok th \<Longrightarrow> \<not> errSync th \<Longrightarrow> ce_mode th = CMD_PARSE_MODE_LINE \<Longrightarrow> at_line S l \<Longrightarrow>
   prefix (content th @ p) l \<Longrightarrow>
   line_loop S M whole (p @ rest) th = line_loop S M whole rest (cfed p th)"
proof (induction p arbitrary: th)
  case (Cons c p)
  have pre: "prefix (content th @ [c]) l" using Cons.prems(5) by (auto simp: prefix_def)
  have len: "length (content th) = ce_buffLen th" using Cons.prems(1) by (simp add: content_def ce_ok_def)
  have bound: "ce_buffLen th + Suc (length p) \<le> CMD_LINE_BUFF_SIZE"
    using Cons.prems(4) prefix_length_le [OF Cons.prems(5)] by (simp add: at_line_def len)
  have "line_loop S M whole ((c # p) @ rest) th = line_loop S M whole (p @ rest) (cfed [c] th)"
    using line_absorb1 [OF Cons.prems(1,2,3,4) pre] by simp
  also have "\<dots> = line_loop S M whole rest (cfed p (cfed [c] th))"
    using Cons.prems bound cfed_ok [OF Cons.prems(1,3), of "[c]"] content_cfed [OF Cons.prems(1), of "[c]"]
    by (intro Cons.IH) simp_all
  also have "cfed p (cfed [c] th) = cfed (c # p) th"
    using cfed_cfed [of th "[c]" p] bound Cons.prems(1) by (simp add: ce_ok_def)
  finally show ?case .
qed simp

text \<open>The end of a line: CR and LF are in the buffer or still to come.\<close>

text \<open>The line is handed to the parser, and after that neither a line nor an echo is.\<close>

definition quiet :: "cmd_call \<Rightarrow> bool" where
  "quiet c \<longleftrightarrow> (case c of ProcessLine _ \<Rightarrow> False | CmdWrite _ \<Rightarrow> False | _ \<Rightarrow> True)"

definition ran_once :: "cmd_call list \<Rightarrow> bytes \<Rightarrow> cmd_call list \<Rightarrow> bool" where
  "ran_once cs l cs' \<longleftrightarrow> (\<exists>k. cs' = cs @ ProcessLine l # k \<and> list_all quiet k)"

lemma exec_op_quiet: "\<exists>k. ce_calls (exec_op x u) = ce_calls u @ k \<and> list_all quiet k"
  by (cases x) (auto simp: at_CmdSetLineMode_def at_CmdSetPromptMode_def at_CmdSetRawMode_def
      at_CmdSetBypassMode_def at_CmdDeviceSetFormatNeeded_def at_CmdCommandFinished_def ccall_def Let_def quiet_def)

lemma exec_ops_quiet: "\<exists>k. ce_calls (exec_ops xs u) = ce_calls u @ k \<and> list_all quiet k"
  unfolding exec_ops_def
proof (induction xs arbitrary: u)
  case (Cons x xs)
  obtain k k' where "ce_calls (exec_op x u) = ce_calls u @ k" "list_all quiet k"
    "ce_calls (fold exec_op xs (exec_op x u)) = ce_calls (exec_op x u) @ k'" "list_all quiet k'"
    using exec_op_quiet Cons.IH by metis
  then show ?case by (intro exI [of _ "k @ k'"]) simp
qed simp

lemma exec_ops_ran_once:
  assumes "ran_once cs l (ce_calls u)"
  shows "ran_once cs l (ce_calls (exec_ops xs u))"
proof -
  obtain k k' where "ce_calls u = cs @ ProcessLine l # k" "list_all quiet k"
    "ce_calls (exec_ops xs u) = ce_calls u @ k'" "list_all quiet k'"
    using assms exec_ops_quiet [of xs u] by (auto simp: ran_once_def)
  then show ?thesis unfolding ran_once_def by (intro exI [of _ "k @ k'"]) simp
qed

lemma ran_once_now: "ran_once cs l (cs @ [ProcessLine l])" "ran_once cs l (cs @ [ProcessLine l, RunCommand])"
  "ran_once cs l (cs @ [ProcessLine l, RespCmeInvalidLine])"
  by (simp_all add: ran_once_def quiet_def)

lemma RunCommandBuff_calls:
  assumes "DataLen (cmd_buf th) \<le> length (DataBuf (cmd_buf th))"
  shows "\<exists>t. at_CmdRunCommandBuff M th = Some t \<and>
    ran_once (ce_calls th) (take (DataLen (cmd_buf th)) (DataBuf (cmd_buf th))) (ce_calls t)"
  using assms
  by (auto simp: at_CmdRunCommandBuff_def rd_block_in ccall_def Let_def at_CmdBackupCmdBuff_def ran_once_now
      intro!: exec_ops_ran_once split: module_out.splits)

lemma RunCommandLine_calls:
  assumes "ce_ok th" "len < CMD_LINE_BUFF_SIZE" "0 < len"
  shows "\<exists>t. at_CmdRunCommandLine M len th = Some t \<and>
    ran_once (ce_calls th) (take len (ce_buff th)) (ce_calls t)"
proof -
  have len: "length (ce_buff th) = CMD_LINE_BUFF_SIZE" "length (DataBuf (cmd_buf th)) = CMD_LINE_BUFF_SIZE"
    using assms(1) by (simp_all add: ce_ok_def cmd_buf_ok_def)
  let ?b = "(take len (ce_buff th) @ drop len (DataBuf (cmd_buf th)))[len := 0]"
  let ?u = "th\<lparr>cmd_buf := \<lparr>DataLen = len, DataBuf = ?b\<rparr>\<rparr>"
  have "take len ?b = take len (ce_buff th)" using assms(2) len by simp
  then have "\<exists>t. at_CmdRunCommandBuff M ?u = Some t \<and>
      ran_once (ce_calls th) (take len (ce_buff th)) (ce_calls t)"
    using RunCommandBuff_calls [of ?u M] assms(2) len by simp
  then show ?thesis
    using assms(2,3) len by (simp add: at_CmdRunCommandLine_def rd_block_in wr_block_in wr_in min_def)
qed

lemma LineFinished_calls:
  assumes "ce_ok th" "content th = l @ CHAR_CR S # lf" "lf = [] \<or> lf = [CHAR_LF S]"
    and "length l + 2 < CMD_LINE_BUFF_SIZE" "CHAR_CR S \<noteq> CHAR_LF S" "ce_mode th = CMD_PARSE_MODE_LINE"
  shows "\<exists>t. at_CmdLineFinished S M th = Some t \<and>
    ran_once (ce_calls th) (l @ [0x0d]) (ce_calls t)"
proof -
  define u where "u = th\<lparr>ce_buffLen := length l + 1\<rparr>"
  have tl: "take (ce_buffLen th) (ce_buff th) = l @ CHAR_CR S # lf" using assms(2) by (simp add: content_def)
  have bl: "ce_buffLen th = length l + 1 + length lf" "length l + 1 + length lf \<le> length (ce_buff th)"
    using arg_cong [OF tl, of length] assms(1) by (simp_all add: ce_ok_def)
  have buf: "take (length l + 1) (ce_buff th) = l @ [CHAR_CR S]"
    using arg_cong [OF tl, of "take (length l + 1)"] bl by (simp add: min_def)
  then have nth: "ce_buff th ! length l = CHAR_CR S"
    using bl by (metis Suc_eq_plus1 add_lessD1 append_eq_append_conv length_append_singleton
        length_take less_add_one min.absorb2 nth_append_length nth_take)
  have u: "ce_ok u" using assms(1,4,6) by (simp add: u_def ce_ok_def)
  have ne: "content th \<noteq> []" using assms(2) by simp
  have lu: "last_byte u = Some (CHAR_CR S)"
    using nth bl by (simp add: last_byte_def u_def rd_in)
  have same: "lf = [] \<Longrightarrow> u = th" using bl(1) by (cases th) (simp add: u_def)
  have first: "do { c \<leftarrow> last_byte th;
      let th = (if c = CHAR_LF S then th\<lparr>ce_buffLen := ce_buffLen th - 1\<rparr> else th);
      f th } = f u" for f :: "AT_CMD_ENGINE_T \<Rightarrow> AT_CMD_ENGINE_T option"
    using assms(3)
  proof
    assume "lf = []"
    then show ?thesis using last_content [OF assms(1) ne] assms(2,5) by (simp add: same)
  next
    assume "lf = [CHAR_LF S]"
    then show ?thesis using last_content [OF assms(1) ne] assms(2) bl(1) by (simp add: u_def)
  qed
  define v where "v = u\<lparr>ce_buff := (ce_buff u)[length l := 0x0d]\<rparr>"
  have v: "ce_ok v" "ce_buffLen v = length l + 1" "ce_calls v = ce_calls th"
    using u by (simp_all add: v_def u_def ce_ok_def)
  have "take (length l + 1) (ce_buff v) = l @ [0x0d]"
    using arg_cong [OF buf, of "\<lambda>x. x[length l := 0x0d]"] bl
    by (simp add: v_def u_def take_update_swap)
  then have "\<exists>t. at_CmdRunCommandLine M (ce_buffLen v) v = Some t \<and>
      ran_once (ce_calls th) (l @ [0x0d]) (ce_calls t)"
    using RunCommandLine_calls [OF v(1), of "length l + 1" M] v assms(4) by simp
  moreover have "at_CmdLineFinished S M th = at_CmdRunCommandLine M (ce_buffLen v) v"
    using lu by (simp add: at_CmdLineFinished_def first) (simp add: v_def u_def)
  ultimately show ?thesis by simp
qed

definition echo_call :: "char_settings \<Rightarrow> bytes \<Rightarrow> cmd_call list" where
  "echo_call S bs = (if EchoMode S then [CmdWrite bs] else [])"

lemma echo_whole: "echo S whole (length whole) (length whole) (length whole) th =
    Some (th\<lparr>ce_calls := ce_calls th @ echo_call S whole\<rparr>)"
  by (simp add: echo_def rd_block_in ccall_def echo_call_def)

definition stop_call :: "bytes \<Rightarrow> cmd_call list" where
  "stop_call bs = (if bs = [] then [] else [StopLFTimer])"

text \<open>An engine in line mode whose buffer holds \<open>p\<close>.\<close>

definition line_at :: "bytes \<Rightarrow> AT_CMD_ENGINE_T \<Rightarrow> bool" where
  "line_at p th \<longleftrightarrow> ce_ok th \<and> ce_mode th = CMD_PARSE_MODE_LINE \<and> \<not> errSync th \<and>
     \<not> cmds_pending th \<and> content th = p"

lemma ce_ok_calls: "ce_ok th \<Longrightarrow> list_all ccall_ok cs \<Longrightarrow> ce_ok (th\<lparr>ce_calls := ce_calls th @ cs\<rparr>)"
  by (simp add: ce_ok_def)

lemma PushData_line:
  assumes "line_at p th"
  shows "at_CmdPushData S M data th =
    line_loop S M data data (th\<lparr>ce_calls := ce_calls th @ stop_call data\<rparr>)"
  using assms
  by (auto simp: line_at_def at_CmdPushData_def at_CmdPushInLineMode_def ccall_def stop_call_def)

lemma line_at_calls: "line_at p th \<Longrightarrow> line_at p (th\<lparr>ce_calls := ce_calls th @ stop_call d\<rparr>)"
  by (auto simp: line_at_def content_def ce_ok_def stop_call_def)

lemma line_at_len: "line_at p th \<Longrightarrow> ce_buffLen th = length p"
  by (auto simp: line_at_def content_def ce_ok_def)

lemma line_at_cfed:
  assumes "line_at p th" "at_line S l" "prefix (p @ q) l"
  shows "line_at (p @ q) (cfed q th)"
proof -
  have "length p + length q + 2 < CMD_LINE_BUFF_SIZE"
    using assms(2) prefix_length_le [OF assms(3)] by (simp add: at_line_def)
  then show ?thesis
    using assms(1) line_at_len [OF assms(1)] content_cfed [of th q] cfed_ok [of th q]
    by (auto simp: line_at_def)
qed

text \<open>A piece of a line is kept; it is echoed.\<close>

lemma push_piece:
  assumes "line_at p th" "at_line S l" "prefix (p @ q) l"
  shows "\<exists>t. at_CmdPushData S M q th = Some (int (length q), t) \<and> line_at (p @ q) t \<and>
    ce_calls t = ce_calls th @ stop_call q @ echo_call S q"
proof -
  let ?u = "th\<lparr>ce_calls := ce_calls th @ stop_call q\<rparr>"
  have u: "line_at p ?u" by (rule line_at_calls [OF assms(1)])
  let ?t = "(cfed q ?u)\<lparr>ce_calls := ce_calls ?u @ echo_call S q\<rparr>"
  have "line_loop S M q (q @ []) ?u = line_loop S M q [] (cfed q ?u)"
    using u assms(2,3) by (intro line_absorb [where l = l]) (auto simp: line_at_def)
  moreover have "line_at (p @ q) (cfed q ?u)" by (rule line_at_cfed [OF u assms(2,3)])
  then have "line_at (p @ q) ?t"
    by (auto simp: line_at_def content_def ce_ok_def echo_call_def)
  ultimately show ?thesis using PushData_line [OF assms(1), of S M q] by (simp add: echo_whole)
qed

lemma line_pass_crlf:
  assumes "\<not> errSync v" "2 \<le> ce_buffLen v" "ce_buffLen v < ce_buffSize v - 1"
    and "last_byte v = Some b" "b \<noteq> CHAR_CR S"
    and "at_CmdCachePushByte (CHAR_CR S) v = Some v1" "at_CmdCachePushByte (CHAR_LF S) v1 = Some w"
    and "ptr = length whole - Suc (length rest)"
    and "echo S whole (ptr + 1) (ptr + 1) ptr w = Some x" "at_CmdLineFinished S M x = Some y"
  shows "line_pass S M whole (CHAR_CR S) (CHAR_LF S # rest) v =
    Some (Inr (int (ptr + 1), y\<lparr>ce_buffLen := 0\<rparr>))"
proof -
  have "drop_overflow (ce_buffSize v - 1) v = v" using assms(3) by (simp add: drop_overflow_def)
  then have "line_pass S M whole (CHAR_CR S) (CHAR_LF S # rest) v =
      line_default S M whole ptr (CHAR_CR S) (CHAR_LF S # rest) v"
    using assms(1,2,8) by (auto simp: line_pass_def Let_def)
  also have "\<dots> = Some (Inr (int (ptr + 1), y\<lparr>ce_buffLen := 0\<rparr>))"
    using assms(4-7,9,10) by (simp add: line_default_def finish_line_def stop_at_def)
  finally show ?thesis .
qed

text \<open>The rest of a line and its end run the line.\<close>

lemma push_end:
  assumes "line_at p th" "at_line S (p @ q)" "CHAR_CR S \<noteq> CHAR_LF S"
  shows "\<exists>t. at_CmdPushData S M (q @ CHAR_CR S # CHAR_LF S # rest) th = Some (int (length q) + 2, t) \<and>
    ce_buffLen t = 0 \<and>
    ran_once (ce_calls th @ [StopLFTimer] @ echo_call S (q @ [CHAR_CR S])) (p @ q @ [0x0d]) (ce_calls t)"
proof -
  let ?d = "q @ CHAR_CR S # CHAR_LF S # rest"
  let ?u = "th\<lparr>ce_calls := ce_calls th @ stop_call ?d\<rparr>"
  have u: "line_at p ?u" by (rule line_at_calls [OF assms(1)])
  let ?v = "cfed q ?u"
  have v: "line_at (p @ q) ?v" by (rule line_at_cfed [OF u assms(2)]) simp
  obtain a t body where "p @ q = a # t # body" using assms(2) by (auto simp: at_line_def)
  from arg_cong [OF this, of length]
  have len: "length (p @ q) + 2 < CMD_LINE_BUFF_SIZE" "2 \<le> length (p @ q)"
    using assms(2) by (auto simp: at_line_def)
  have vv: "ce_ok ?v" "ce_mode ?v = CMD_PARSE_MODE_LINE" "\<not> errSync ?v" "content ?v = p @ q"
    "ce_buffLen ?v = length (p @ q)" "ce_buffSize ?v = CMD_LINE_BUFF_SIZE"
    using v line_at_len [OF v] by (auto simp: line_at_def ce_ok_def)
  have ne: "p @ q \<noteq> []" using len(2) by auto
  have last: "last_byte ?v = Some (last (p @ q))" "last (p @ q) \<noteq> CHAR_CR S"
    using last_content [OF vv(1)] vv(4) ne last_in_set [OF ne] assms(2)
    by (auto simp: at_line_def simp del: last_in_set)
  let ?w = "cfed [CHAR_CR S, CHAR_LF S] ?v"
  have w: "ce_ok ?w" "content ?w = (p @ q) @ CHAR_CR S # [CHAR_LF S]"
    using cfed_ok [OF vv(1,2)] content_cfed [OF vv(1)] vv(4,5) len by simp_all
  have push: "at_CmdCachePushByte (CHAR_CR S) ?v = Some (cfed [CHAR_CR S] ?v)"
    "at_CmdCachePushByte (CHAR_LF S) (cfed [CHAR_CR S] ?v) = Some ?w"
    using push_cfed [OF vv(1)] push_cfed [of "cfed [CHAR_CR S] ?v"] cfed_ok [OF vv(1,2), of "[CHAR_CR S]"]
      cfed_cfed [of ?v "[CHAR_CR S]" "[CHAR_LF S]"] vv(1,5) len
    by (simp_all add: ce_ok_def)
  let ?x = "?w\<lparr>ce_calls := ce_calls ?w @ echo_call S (q @ [CHAR_CR S])\<rparr>"
  have ek: "echo S ?d (length q + 2) (length q + 2) (length q + 1) ?w = Some ?x"
    by (simp add: echo_def echo_call_def rd_block_in ccall_def)
  have x: "ce_ok ?x" "content ?x = (p @ q) @ CHAR_CR S # [CHAR_LF S]" "ce_mode ?x = CMD_PARSE_MODE_LINE"
    using w vv(2) by (auto simp: ce_ok_def content_def echo_call_def)
  obtain y where y: "at_CmdLineFinished S M ?x = Some y"
    "ran_once (ce_calls ?x) ((p @ q) @ [0x0d]) (ce_calls y)"
    using LineFinished_calls [OF x(1,2) _ _ assms(3) x(3), of M] len by auto
  have pass: "line_pass S M ?d (CHAR_CR S) (CHAR_LF S # rest) ?v =
      Some (Inr (int (length q + 2), y\<lparr>ce_buffLen := 0\<rparr>))"
    by (rule line_pass_crlf [OF vv(3) _ _ last push refl, THEN trans])
      (use ek y(1) vv(5,6) len in simp_all)
  have "line_loop S M ?d ?d ?u = line_loop S M ?d (CHAR_CR S # CHAR_LF S # rest) ?v"
    using u assms(2) by (intro line_absorb [where l = "p @ q"]) (auto simp: line_at_def)
  also have "\<dots> = Some (int (length q + 2), y\<lparr>ce_buffLen := 0\<rparr>)"
    by (simp only: line_loop.simps pass bind.bind_lunit sum.case)
  finally show ?thesis
    using PushData_line [OF assms(1), of S M ?d] y(2) by (simp add: stop_call_def)
qed

text \<open>The line and its carriage return: the engine waits for the line feed.\<close>

lemma push_cr:
  assumes "line_at [] th" "at_line S l" "CHAR_CR S \<noteq> CHAR_LF S"
  shows "\<exists>t. at_CmdPushData S M (l @ [CHAR_CR S]) th = Some (int (length l) + 1, t) \<and> line_at (l @ [CHAR_CR S]) t \<and>
    ce_calls t = ce_calls th @ [StopLFTimer, StartLFTimer LF_TIMER_PERIOD] @ echo_call S (l @ [CHAR_CR S])"
proof -
  let ?d = "l @ [CHAR_CR S]"
  let ?u = "th\<lparr>ce_calls := ce_calls th @ [StopLFTimer]\<rparr>"
  have u: "line_at [] ?u" using line_at_calls [OF assms(1), of ?d] by (simp add: stop_call_def)
  let ?v = "cfed l ?u"
  have v: "line_at l ?v" using line_at_cfed [OF u assms(2), of l] by simp
  obtain a t body where "l = a # t # body" using assms(2) by (auto simp: at_line_def)
  from arg_cong [OF this, of length]
  have len: "length l + 2 < CMD_LINE_BUFF_SIZE" "2 \<le> length l"
    using assms(2) by (auto simp: at_line_def)
  have vv: "ce_ok ?v" "ce_mode ?v = CMD_PARSE_MODE_LINE" "\<not> errSync ?v" "content ?v = l" "\<not> cmds_pending ?v"
    "ce_buffLen ?v = length l" "ce_buffSize ?v = CMD_LINE_BUFF_SIZE"
    using v line_at_len [OF v] by (auto simp: line_at_def ce_ok_def)
  have ne: "l \<noteq> []" using len(2) by auto
  have last: "last_byte ?v = Some (last l)" "last l \<noteq> CHAR_CR S"
    using last_content [OF vv(1)] vv(4) ne last_in_set [OF ne] assms(2)
    by (auto simp: at_line_def simp del: last_in_set)
  let ?w = "cfed [CHAR_CR S] ?v"
  have push: "at_CmdCachePushByte (CHAR_CR S) ?v = Some ?w" using push_cfed [OF vv(1)] vv(6) len by simp
  have w: "ce_ok ?w" "content ?w = l @ [CHAR_CR S]"
    using cfed_ok [OF vv(1,2), of "[CHAR_CR S]"] content_cfed [OF vv(1), of "[CHAR_CR S]"] vv(4,6) len by simp_all
  let ?x = "ccall (StartLFTimer LF_TIMER_PERIOD) ?w"
  have "CHAR_CR S = CHAR_BACKSPACE S \<Longrightarrow> CHAR_BACKSPACE S = CHAR_CR S" by simp
  then have pass: "line_pass S M ?d (CHAR_CR S) [] ?v = Some (Inl ?x)"
    using last push vv len by (auto simp: line_pass_def Let_def drop_overflow_def line_default_def go_on_def)
  have "line_loop S M ?d (l @ [CHAR_CR S]) ?u = line_loop S M ?d [CHAR_CR S] ?v"
    using u assms(2) by (intro line_absorb [where l = l]) (auto simp: line_at_def)
  also have "\<dots> = Some (int (length l) + 1, ?x\<lparr>ce_calls := ce_calls ?x @ echo_call S ?d\<rparr>)"
    using pass echo_whole [of S ?d ?x] by simp
  finally have "at_CmdPushData S M ?d th = Some (int (length l) + 1, ?x\<lparr>ce_calls := ce_calls ?x @ echo_call S ?d\<rparr>)"
    using PushData_line [OF assms(1), of S M ?d] by (simp add: stop_call_def)
  then show ?thesis using w vv
    by (auto simp: line_at_def content_def ce_ok_def ccall_def echo_call_def)
qed

text \<open>The line feed, or the end of the time it has, runs the line.\<close>

lemma push_lf:
  assumes "line_at (l @ [CHAR_CR S]) th" "at_line S l" "CHAR_CR S \<noteq> CHAR_LF S"
    "CHAR_LF S = CHAR_BACKSPACE S \<longrightarrow> CHAR_BACKSPACE S = CHAR_CR S"
  shows "\<exists>t. at_CmdPushData S M (CHAR_LF S # rest) th = Some (1, t) \<and> ce_buffLen t = 0 \<and>
    ran_once (ce_calls th @ [StopLFTimer] @ echo_call S []) (l @ [0x0d]) (ce_calls t)"
    "\<exists>t. at_CmdLFTimeout S M th = Some t \<and> ce_buffLen t = 0 \<and> ran_once (ce_calls th) (l @ [0x0d]) (ce_calls t)"
proof -
  let ?d = "CHAR_LF S # rest"
  let ?v = "th\<lparr>ce_calls := ce_calls th @ [StopLFTimer]\<rparr>"
  have v: "line_at (l @ [CHAR_CR S]) ?v" using line_at_calls [OF assms(1), of ?d] by (simp add: stop_call_def)
  have len: "length l + 2 < CMD_LINE_BUFF_SIZE" using assms(2) by (simp add: at_line_def)
  have vv: "ce_ok ?v" "ce_mode ?v = CMD_PARSE_MODE_LINE" "\<not> errSync ?v" "content ?v = l @ [CHAR_CR S]"
    "ce_buffLen ?v = length l + 1" "ce_buffSize ?v = CMD_LINE_BUFF_SIZE"
    using v line_at_len [OF v] by (auto simp: line_at_def ce_ok_def)
  have two: "2 \<le> length l" using assms(2) by (auto simp: at_line_def)
  have last: "last_byte ?v = Some (CHAR_CR S)" using last_content [OF vv(1)] vv(4) by simp
  let ?w = "cfed [CHAR_LF S] ?v"
  have push: "at_CmdCachePushByte (CHAR_LF S) ?v = Some ?w" using push_cfed [OF vv(1)] vv(5) len by simp
  have w: "ce_ok ?w" "content ?w = l @ CHAR_CR S # [CHAR_LF S]" "ce_mode ?w = CMD_PARSE_MODE_LINE"
    using cfed_ok [OF vv(1,2), of "[CHAR_LF S]"] content_cfed [OF vv(1), of "[CHAR_LF S]"] vv(2,4,5) len by simp_all
  let ?x = "?w\<lparr>ce_calls := ce_calls ?w @ echo_call S []\<rparr>"
  have ek: "echo S ?d 1 1 0 ?w = Some ?x" by (simp add: echo_def echo_call_def rd_block_def ccall_def)
  have x: "ce_ok ?x" "content ?x = l @ CHAR_CR S # [CHAR_LF S]" "ce_mode ?x = CMD_PARSE_MODE_LINE"
    using w by (auto simp: ce_ok_def content_def echo_call_def)
  obtain y where y: "at_CmdLineFinished S M ?x = Some y" "ran_once (ce_calls ?x) (l @ [0x0d]) (ce_calls y)"
    using LineFinished_calls [OF x(1,2) _ len assms(3) x(3), of M] by auto
  have "line_pass S M ?d (CHAR_LF S) rest ?v = Some (Inr (1, y\<lparr>ce_buffLen := 0\<rparr>))"
    using last push vv len two y(1) ek assms(4)
    by (auto simp: line_pass_def Let_def drop_overflow_def line_default_def finish_line_def stop_at_def)
  then have "line_loop S M ?d ?d ?v = Some (1, y\<lparr>ce_buffLen := 0\<rparr>)" by simp
  then show "\<exists>t. at_CmdPushData S M ?d th = Some (1, t) \<and> ce_buffLen t = 0 \<and>
    ran_once (ce_calls th @ [StopLFTimer] @ echo_call S []) (l @ [0x0d]) (ce_calls t)"
    using PushData_line [OF assms(1), of S M ?d] y(2) by (simp add: stop_call_def)
  have t: "ce_ok th" "ce_mode th = CMD_PARSE_MODE_LINE" "content th = l @ CHAR_CR S # []" "ce_buffLen th = length l + 1"
    using assms(1) line_at_len [OF assms(1)] by (auto simp: line_at_def)
  obtain z where z: "at_CmdLineFinished S M th = Some z" "ran_once (ce_calls th) (l @ [0x0d]) (ce_calls z)"
    using LineFinished_calls [OF t(1,3) _ len assms(3) t(2), of M] by auto
  have "last_byte th = Some (CHAR_CR S)" using last_content [OF t(1)] t(3) by simp
  then have "rd (ce_buff th) (ce_buffLen th - 1) = Some (CHAR_CR S)" using t(4) by (simp add: last_byte_def)
  then show "\<exists>t. at_CmdLFTimeout S M th = Some t \<and> ce_buffLen t = 0 \<and> ran_once (ce_calls th) (l @ [0x0d]) (ce_calls t)"
    using t(2,4) z by (simp add: at_CmdLFTimeout_def)
qed

text \<open>
  C26: a command line with its CR and LF that reaches the engine in two pieces, cut anywhere, also between
  the CR and the LF, is handed to the parser exactly once, whole and ended by a carriage return, after
  its two pieces have been echoed; what follows the line is left for the next call. When the line feed
  does not come, the timer that the carriage return started hands the line over in the same way.
\<close>

theorem cmd_line_split:
  assumes "line_at [] th" "at_line S l" "CHAR_CR S \<noteq> CHAR_LF S" "k \<le> length l + 1"
    and "CHAR_LF S = CHAR_BACKSPACE S \<longrightarrow> CHAR_BACKSPACE S = CHAR_CR S"
  shows "\<exists>t1 t2. at_CmdPushData S M (take k (l @ [CHAR_CR S, CHAR_LF S])) th = Some (int k, t1) \<and>
    ce_calls t1 = ce_calls th @ (if k = 0 then [] else [StopLFTimer]) @
      (if k = length l + 1 then [StartLFTimer LF_TIMER_PERIOD] else []) @ echo_call S (take k (l @ [CHAR_CR S])) \<and>
    at_CmdPushData S M (drop k (l @ [CHAR_CR S, CHAR_LF S]) @ rest) t1 = Some (int (length l + 2 - k), t2) \<and>
    ce_buffLen t2 = 0 \<and>
    ran_once (ce_calls t1 @ [StopLFTimer] @ echo_call S (drop k (l @ [CHAR_CR S]))) (l @ [0x0d]) (ce_calls t2) \<and>
    (k = length l + 1 \<longrightarrow>
      (\<exists>t3. at_CmdLFTimeout S M t1 = Some t3 \<and> ce_buffLen t3 = 0 \<and> ran_once (ce_calls t1) (l @ [0x0d]) (ce_calls t3)))"
proof (cases "k \<le> length l")
  case True
  have l: "take k l @ drop k l = l" "length (take k l) = k" "take k l = [] \<longleftrightarrow> k = 0" using True by auto
  have al: "at_line S (take k l @ drop k l)" using assms(2) by simp
  obtain t1 where t1: "at_CmdPushData S M (take k l) th = Some (int k, t1)" "line_at (take k l) t1"
    "ce_calls t1 = ce_calls th @ stop_call (take k l) @ echo_call S (take k l)"
    using push_piece [OF assms(1,2), of "take k l" M] l(2) take_is_prefix [of k l] by auto
  obtain t2 where t2: "at_CmdPushData S M (drop k l @ CHAR_CR S # CHAR_LF S # rest) t1 = Some (int (length (drop k l)) + 2, t2)"
    "ce_buffLen t2 = 0" "ran_once (ce_calls t1 @ [StopLFTimer] @ echo_call S (drop k l @ [CHAR_CR S])) (l @ [0x0d]) (ce_calls t2)"
    using push_end [OF t1(2) al assms(3), of M rest] l(1) by (auto simp flip: append_assoc)
  show ?thesis
    by (rule exI [of _ t1], rule exI [of _ t2])
      (use True t1 t2 l in \<open>simp add: stop_call_def\<close>)
next
  case False
  then have k: "k = Suc (length l)" using assms(4) by simp
  obtain t1 where t1: "at_CmdPushData S M (l @ [CHAR_CR S]) th = Some (int (length l) + 1, t1)" "line_at (l @ [CHAR_CR S]) t1"
    "ce_calls t1 = ce_calls th @ [StopLFTimer, StartLFTimer LF_TIMER_PERIOD] @ echo_call S (l @ [CHAR_CR S])"
    using push_cr [OF assms(1-3)] by blast
  from push_lf(1) [OF t1(2) assms(2,3,5), of M rest] push_lf(2) [OF t1(2) assms(2,3,5), of M] obtain t2 t3 where
    "at_CmdPushData S M (CHAR_LF S # rest) t1 = Some (1, t2)" "ce_buffLen t2 = 0"
    "ran_once (ce_calls t1 @ [StopLFTimer] @ echo_call S []) (l @ [0x0d]) (ce_calls t2)"
    "at_CmdLFTimeout S M t1 = Some t3" "ce_buffLen t3 = 0" "ran_once (ce_calls t1) (l @ [0x0d]) (ce_calls t3)" by blast
  then show ?thesis using t1 k by (intro exI [of _ t1] exI [of _ t2]) (simp add: algebra_simps)
qed

theorem cmd_line_split_witness:
  "\<exists>t1 t2. at_CmdPushData demo_chars demo_module [0x41] demo_engine = Some (1, t1) \<and>
    at_CmdPushData demo_chars demo_module [0x54, 0x49, 13, 10, 0x41] t1 = Some (4, t2) \<and>
    ran_once [StopLFTimer, CmdWrite [0x41], StopLFTimer, CmdWrite [0x54, 0x49, 13]] [0x41, 0x54, 0x49, 13] (ce_calls t2)"
proof -
  have "line_at [] demo_engine"
    by (simp add: line_at_def demo_engine_ok demo_engine_sel content_def)
  moreover have "at_line demo_chars [0x41, 0x54, 0x49]"
    by (simp add: at_line_def demo_chars_def)
  ultimately show ?thesis
    using cmd_line_split [of demo_engine demo_chars "[0x41, 0x54, 0x49]" 1 demo_module "[0x41]"]
    by (auto simp: demo_chars_def echo_call_def demo_engine_sel)
qed

end
