(* ===== verification/Data_Engine.thy ===== *)
theory Data_Engine
  imports Stream
begin

text \<open>
  The data engine (at_data_engine.c): in PPP mode it cuts the bytes of a channel into frames
  between flags 0x7e. A frame is handed to the PPP stack of the platform, a call that the
  build enables by CFW_PPP_SUPPORT (the argument \<open>ppp\<close>); in bypass mode all bytes go to the
  callback of the client (the argument \<open>bypass\<close>, the number of bytes it accepts). Calls to
  other components are appended to \<open>de_calls\<close>.
\<close>

section \<open>State\<close>

abbreviation (input) SYNC_FLAG :: u8 where "SYNC_FLAG \<equiv> 0x7e"
abbreviation (input) MIN_FRAME_SIZE :: nat where "MIN_FRAME_SIZE \<equiv> 5"
abbreviation (input) DATA_BUFF_SIZE :: nat where "DATA_BUFF_SIZE \<equiv> 3072"

datatype DATA_MODE = DATA_MODE_PPP | DATA_MODE_BYPASS

datatype data_call = PppSendData bytes | DataScheduleDrain | DataDispatchWrite bytes

record AT_DATA_ENGINE_T =
  de_mode :: DATA_MODE
  de_buff :: bytes
  de_buffLen :: nat
  de_buffSize :: nat
  dropCount :: nat
  de_calls :: "data_call list"

definition dcall :: "data_call \<Rightarrow> AT_DATA_ENGINE_T \<Rightarrow> AT_DATA_ENGINE_T" where
  "dcall c th = th\<lparr>de_calls := de_calls th @ [c]\<rparr>"

text \<open>The buffer comes from \<open>at_malloc\<close>; its content is the argument.\<close>

definition at_DataEngineCreate :: "bytes \<Rightarrow> AT_DATA_ENGINE_T" where
  "at_DataEngineCreate b =
     \<lparr>de_mode = DATA_MODE_PPP, de_buff = b, de_buffLen = 0, de_buffSize = DATA_BUFF_SIZE,
      dropCount = 0, de_calls = []\<rparr>"

definition at_DataSetPPPMode :: "AT_DATA_ENGINE_T \<Rightarrow> AT_DATA_ENGINE_T" where
  "at_DataSetPPPMode th = th\<lparr>de_mode := DATA_MODE_PPP\<rparr>"

definition at_DataSetBypassMode :: "AT_DATA_ENGINE_T \<Rightarrow> AT_DATA_ENGINE_T" where
  "at_DataSetBypassMode th = th\<lparr>de_mode := DATA_MODE_BYPASS\<rparr>"

section \<open>Input\<close>

definition at_DataPushByte :: "u8 \<Rightarrow> AT_DATA_ENGINE_T \<Rightarrow> AT_DATA_ENGINE_T option" where
  "at_DataPushByte c th = do {
     b \<leftarrow> wr (de_buff th) (de_buffLen th) c;
     Some (th\<lparr>de_buff := b, de_buffLen := de_buffLen th + 1\<rparr>)
   }"

definition at_DataDataFinished :: "bool \<Rightarrow> AT_DATA_ENGINE_T \<Rightarrow> AT_DATA_ENGINE_T option" where
  "at_DataDataFinished ppp th =
     (if de_buffLen th = 0 then Some th
      else do {
        p \<leftarrow> rd_block (de_buff th) 0 (de_buffLen th);
        Some ((if ppp then dcall (PppSendData p) th else th)\<lparr>de_buffLen := 0\<rparr>)
      })"

text \<open>The buffer is dropped when it is full.\<close>

definition data_overflow :: "AT_DATA_ENGINE_T \<Rightarrow> AT_DATA_ENGINE_T" where
  "data_overflow th =
     (if de_buffLen th \<ge> de_buffSize th
      then th\<lparr>dropCount := dropCount th + (de_buffLen th + 1), de_buffLen := 0\<rparr> else th)"

text \<open>One byte: \<open>Inl\<close> goes on with the next, \<open>Inr\<close> returns.\<close>

definition data_byte ::
  "bool \<Rightarrow> u8 \<Rightarrow> AT_DATA_ENGINE_T \<Rightarrow> (AT_DATA_ENGINE_T + AT_DATA_ENGINE_T) option" where
  "data_byte ppp c th =
     (let th = data_overflow th in
      if c = SYNC_FLAG then do {
        th \<leftarrow> at_DataPushByte c th;
        if de_buffLen th = 1 then Some (Inl th)
        else if de_buffLen th \<ge> MIN_FRAME_SIZE then do {
          th \<leftarrow> at_DataDataFinished ppp (th\<lparr>dropCount := 0\<rparr>);
          Some (Inr (dcall DataScheduleDrain th))
        }
        else map_option Inl (at_DataPushByte c (th\<lparr>de_buffLen := 0\<rparr>))
      }
      else if de_buffLen th > 0 then map_option Inl (at_DataPushByte c th)
      else Some (Inl (th\<lparr>dropCount := dropCount th + 1\<rparr>)))"

text \<open>The loop over the bytes of one call, with the number of bytes consumed.\<close>

fun data_loop :: "bool \<Rightarrow> bytes \<Rightarrow> AT_DATA_ENGINE_T \<Rightarrow> (nat \<times> AT_DATA_ENGINE_T) option" where
  "data_loop ppp [] th = Some (0, th)"
| "data_loop ppp (c # data) th = do {
     r \<leftarrow> data_byte ppp c th;
     case r of
       Inl th \<Rightarrow> do { (n, th) \<leftarrow> data_loop ppp data th; Some (Suc n, th) }
     | Inr th \<Rightarrow> Some (0, th)
   }"

definition at_DataPushData ::
  "bool \<Rightarrow> (bytes \<Rightarrow> int) \<Rightarrow> bytes \<Rightarrow> AT_DATA_ENGINE_T \<Rightarrow> (int \<times> AT_DATA_ENGINE_T) option" where
  "at_DataPushData ppp bypass data th =
     (if de_mode th = DATA_MODE_BYPASS then Some (bypass data, th)
      else do { (n, th) \<leftarrow> data_loop ppp data th; Some (int n, th) })"

definition at_DataWrite :: "bool \<Rightarrow> bytes \<Rightarrow> AT_DATA_ENGINE_T \<Rightarrow> AT_DATA_ENGINE_T" where
  "at_DataWrite is_data_mode data th =
     (if is_data_mode then dcall (DataDispatchWrite data) th else th)"

section \<open>Safety\<close>

definition de_ok :: "AT_DATA_ENGINE_T \<Rightarrow> bool" where
  "de_ok th \<longleftrightarrow> length (de_buff th) = de_buffSize th \<and> de_buffLen th \<le> de_buffSize th \<and>
     MIN_FRAME_SIZE \<le> de_buffSize th"

lemma Create_data_ok: "length b = DATA_BUFF_SIZE \<Longrightarrow> de_ok (at_DataEngineCreate b)"
  by (simp add: at_DataEngineCreate_def de_ok_def)

lemma overflow_ok:
  "de_ok th \<Longrightarrow> de_ok (data_overflow th) \<and> de_buffLen (data_overflow th) < de_buffSize (data_overflow th)"
  by (auto simp: data_overflow_def de_ok_def)

lemma DataPushByte_ok:
  "de_ok th \<Longrightarrow> de_buffLen th < de_buffSize th \<Longrightarrow>
   \<exists>t. at_DataPushByte c th = Some t \<and> de_ok t \<and> de_buffLen t = Suc (de_buffLen th) \<and> de_buffSize t = de_buffSize th"
  by (simp add: at_DataPushByte_def wr_in de_ok_def)

lemma data_byte_ok:
  assumes "de_ok th"
  shows "\<exists>r. data_byte ppp c th = Some r \<and> (case r of Inl t \<Rightarrow> de_ok t | Inr t \<Rightarrow> de_ok t)"
proof -
  let ?o = "data_overflow th"
  have o: "de_ok ?o" "de_buffLen ?o < de_buffSize ?o" using overflow_ok [OF assms] by auto
  then obtain t where t: "at_DataPushByte c ?o = Some t" "de_ok t" using DataPushByte_ok by blast
  have "de_ok (t\<lparr>de_buffLen := 0\<rparr>)" "0 < de_buffSize t" using t(2) by (simp_all add: de_ok_def)
  then obtain u where u: "at_DataPushByte c (t\<lparr>de_buffLen := 0\<rparr>) = Some u" "de_ok u"
    using DataPushByte_ok [of "t\<lparr>de_buffLen := 0\<rparr>" c] by auto
  have f: "\<exists>v. at_DataDataFinished ppp (t\<lparr>dropCount := 0\<rparr>) = Some v \<and> de_ok v"
    using t(2) by (simp add: at_DataDataFinished_def rd_block_in de_ok_def dcall_def)
  then obtain v where v: "at_DataDataFinished ppp (t\<lparr>dropCount := 0\<rparr>) = Some v" "de_ok v" by blast
  have w: "de_ok (dcall DataScheduleDrain v)" "de_ok (?o\<lparr>dropCount := dropCount ?o + 1\<rparr>)"
    using v(2) o(1) by (simp_all add: de_ok_def dcall_def)
  show ?thesis
    unfolding data_byte_def Let_def using t u v w by auto
qed

lemma data_loop_ok:
  "de_ok th \<Longrightarrow> \<exists>n t. data_loop ppp data th = Some (n, t) \<and> de_ok t \<and> n \<le> length data"
proof (induction data arbitrary: th)
  case (Cons c data)
  obtain r where r: "data_byte ppp c th = Some r" "case r of Inl t \<Rightarrow> de_ok t | Inr t \<Rightarrow> de_ok t"
    using data_byte_ok [OF Cons.prems] by blast
  then show ?case using Cons.IH by (cases r) force+
qed simp

section \<open>Input in pieces\<close>

text \<open>
  As long as no frame ends in the first piece, cutting the input in two changes neither
  what the engine does nor how many bytes it consumes.
\<close>

theorem data_split:
  assumes "data_loop ppp p th = Some (length p, t)"
  shows "data_loop ppp (p @ q) th = map_option (\<lambda>(n, u). (length p + n, u)) (data_loop ppp q t)"
  using assms
proof (induction p arbitrary: th)
  case Nil
  then show ?case by (cases "data_loop ppp q t") auto
next
  case (Cons c p)
  obtain r where r: "data_byte ppp c th = Some r" using Cons.prems by (cases "data_byte ppp c th") auto
  show ?case
  proof (cases r)
    case (Inl u)
    then have "data_loop ppp p u = Some (length p, t)"
      using Cons.prems r by (auto split: bind_splits)
    from Cons.IH [OF this] show ?thesis
      using Inl r by (cases "data_loop ppp q t") auto
  next
    case (Inr u)
    then show ?thesis using Cons.prems r by simp
  qed
qed

section \<open>Frames\<close>

definition dfed :: "bytes \<Rightarrow> AT_DATA_ENGINE_T \<Rightarrow> AT_DATA_ENGINE_T" where
  "dfed bs th = th\<lparr>de_buff := take (de_buffLen th) (de_buff th) @ bs @ drop (de_buffLen th + length bs) (de_buff th),
     de_buffLen := de_buffLen th + length bs\<rparr>"

lemma dfed_simps [simp]:
  "de_buffLen (dfed bs th) = de_buffLen th + length bs" "de_buffSize (dfed bs th) = de_buffSize th"
  "de_mode (dfed bs th) = de_mode th" "dropCount (dfed bs th) = dropCount th"
  "de_calls (dfed bs th) = de_calls th"
  by (simp_all add: dfed_def)

lemma dfed_ok: "de_ok th \<Longrightarrow> de_buffLen th + length bs \<le> de_buffSize th \<Longrightarrow> de_ok (dfed bs th)"
  by (simp add: de_ok_def dfed_def)

lemma dfed_dfed:
  "de_ok th \<Longrightarrow> de_buffLen th + length (xs @ ys) \<le> de_buffSize th \<Longrightarrow> dfed ys (dfed xs th) = dfed (xs @ ys) th"
  by (cases xs) (auto simp: dfed_def min_def algebra_simps de_ok_def)

lemma DataPushByte_dfed:
  "de_ok th \<Longrightarrow> de_buffLen th < de_buffSize th \<Longrightarrow> at_DataPushByte c th = Some (dfed [c] th)"
  by (simp add: at_DataPushByte_def wr_in dfed_def de_ok_def upd_conv_take_nth_drop)

lemma dfed_content:
  "de_ok th \<Longrightarrow> de_buffLen th + length bs \<le> de_buffSize th \<Longrightarrow>
   take (de_buffLen th + length bs) (de_buff (dfed bs th)) = take (de_buffLen th) (de_buff th) @ bs"
  by (simp add: dfed_def de_ok_def)

lemma data_absorb:
  "de_ok th \<Longrightarrow> 0 < de_buffLen th \<Longrightarrow> SYNC_FLAG \<notin> set b \<Longrightarrow> de_buffLen th + length b \<le> de_buffSize th \<Longrightarrow>
   data_loop ppp (b @ rest) th = map_option (\<lambda>(n, u). (length b + n, u)) (data_loop ppp rest (dfed b th))"
proof (induction b arbitrary: th)
  case Nil
  have "dfed [] th = th" by (simp add: dfed_def)
  then show ?case by (cases "data_loop ppp rest th") auto
next
  case (Cons c b)
  have "data_byte ppp c th = Some (Inl (dfed [c] th))"
    using Cons.prems DataPushByte_dfed [of th c] by (simp add: data_byte_def data_overflow_def)
  moreover have "data_loop ppp (b @ rest) (dfed [c] th) =
      map_option (\<lambda>(n, u). (length b + n, u)) (data_loop ppp rest (dfed b (dfed [c] th)))"
    using Cons.prems dfed_ok [of th "[c]"] by (intro Cons.IH) simp_all
  moreover have "dfed b (dfed [c] th) = dfed (c # b) th"
    using dfed_dfed [of th "[c]" b] Cons.prems by simp
  ultimately show ?case by (cases "data_loop ppp rest (dfed (c # b) th)") auto
qed

text \<open>What a frame with body \<open>f\<close> makes the engine call.\<close>

definition data_event :: "bool \<Rightarrow> bytes \<Rightarrow> data_call list" where
  "data_event ppp f = (if ppp then [PppSendData (SYNC_FLAG # f @ [SYNC_FLAG])] else []) @ [DataScheduleDrain]"

definition de_ready :: "AT_DATA_ENGINE_T \<Rightarrow> bool" where
  "de_ready th \<longleftrightarrow> de_ok th \<and> de_buffLen th = 0"

definition frame_good :: "nat \<Rightarrow> bytes \<Rightarrow> bool" where
  "frame_good cap f \<longleftrightarrow> SYNC_FLAG \<notin> set f \<and> 3 \<le> length f \<and> length f + 2 \<le> cap"

lemma data_frame:
  assumes "de_ready th" "frame_good (de_buffSize th) f"
  shows "\<exists>t. data_loop ppp ((SYNC_FLAG # f) @ SYNC_FLAG # rest) th = Some (length (SYNC_FLAG # f), t) \<and>
    de_ready t \<and> de_buffSize t = de_buffSize th \<and> de_calls t = de_calls th @ data_event ppp f"
proof -
  have ok: "de_ok th" "de_buffLen th = 0" "0 < de_buffSize th"
    using assms(1) by (auto simp: de_ready_def de_ok_def)
  let ?a = "dfed [SYNC_FLAG] th"
  let ?b = "dfed f ?a"
  let ?c = "dfed [SYNC_FLAG] ?b"
  have first: "data_byte ppp SYNC_FLAG th = Some (Inl ?a)"
    using ok DataPushByte_dfed [OF ok(1)] by (simp add: data_byte_def data_overflow_def)
  have a: "de_ok ?a" "de_buffLen ?a = 1" using dfed_ok [OF ok(1), of "[SYNC_FLAG]"] ok by simp_all
  have b: "de_ok ?b" "de_buffLen ?b = length f + 1"
    using dfed_ok [OF a(1), of f] assms(2) a(2) by (simp_all add: frame_good_def)
  have c: "de_ok ?c" "de_buffLen ?c = length f + 2"
    using dfed_ok [OF b(1), of "[SYNC_FLAG]"] assms(2) b(2) by (simp_all add: frame_good_def)
  have "?c = dfed (SYNC_FLAG # f @ [SYNC_FLAG]) th"
    using dfed_dfed [OF a(1), of f "[SYNC_FLAG]"] dfed_dfed [OF ok(1), of "[SYNC_FLAG]" "f @ [SYNC_FLAG]"]
      assms(2) ok a(2) by (simp add: frame_good_def)
  then have content: "take (length f + 2) (de_buff ?c) = SYNC_FLAG # f @ [SYNC_FLAG]"
    using dfed_content [OF ok(1), of "SYNC_FLAG # f @ [SYNC_FLAG]"] assms(2) ok(2) by (simp add: frame_good_def)
  have len: "length f + 2 \<le> length (de_buff ?c)" using c by (simp add: de_ok_def)
  let ?d = "?c\<lparr>dropCount := 0\<rparr>"
  let ?t = "dcall DataScheduleDrain ((if ppp then dcall (PppSendData (SYNC_FLAG # f @ [SYNC_FLAG])) ?d else ?d)\<lparr>de_buffLen := 0\<rparr>)"
  have "at_DataDataFinished ppp ?d = Some
      ((if ppp then dcall (PppSendData (SYNC_FLAG # f @ [SYNC_FLAG])) ?d else ?d)\<lparr>de_buffLen := 0\<rparr>)"
    using c content len by (simp add: at_DataDataFinished_def rd_block_in del: dfed_simps(1))
  moreover have "data_overflow ?b = ?b" "at_DataPushByte SYNC_FLAG ?b = Some ?c"
    using b DataPushByte_dfed [OF b(1)] assms(2) by (auto simp: data_overflow_def frame_good_def)
  ultimately have last: "data_byte ppp SYNC_FLAG ?b = Some (Inr ?t)"
    using c(2) assms(2) by (simp add: data_byte_def frame_good_def)
  have "data_loop ppp (f @ SYNC_FLAG # rest) ?a = Some (length f, ?t)"
    using data_absorb [OF a(1), of f ppp "SYNC_FLAG # rest"] last assms(2) a(2) by (simp add: frame_good_def)
  then show ?thesis using first c(1)
    by (auto simp: de_ready_def de_ok_def dcall_def data_event_def)
qed

text \<open>A closing flag also opens the next frame, so what follows a frame starts with a flag.\<close>

definition starts_flag :: "bytes \<Rightarrow> bool" where
  "starts_flag bs \<longleftrightarrow> (case bs of [] \<Rightarrow> False | c # _ \<Rightarrow> c = SYNC_FLAG)"

interpretation data_frames: frame_codec de_ready de_buffSize frame_good "(#) SYNC_FLAG" starts_flag
  "data_loop ppp" de_calls "\<lambda>_. data_event ppp" for ppp
proof (unfold_locales, goal_cases)
  case (3 s f rest)
  then obtain r where "rest = SYNC_FLAG # r" by (auto simp: starts_flag_def split: list.splits)
  then show ?case using data_frame [OF 3(1,2), of ppp r] by simp
qed (simp_all add: starts_flag_def)

text \<open>
  C31: presented with the bytes of any number of frames that share their flags, each pass
  resuming where the one before stopped, the engine delivers every frame once, in order,
  between its flags, and keeps the last flag as the start of the next frame.
\<close>

theorem data_frames_delivered:
  assumes "de_ready th" "\<forall>f \<in> set fs. frame_good (de_buffSize th) f"
  shows "\<exists>t. drain (data_loop ppp) (length fs + 1) (concat (map ((#) SYNC_FLAG) fs) @ [SYNC_FLAG]) th = Some t \<and>
    de_buffLen t = 1 \<and> de_buff t ! 0 = SYNC_FLAG \<and> de_ok t \<and>
    de_calls t = de_calls th @ concat (map (data_event ppp) fs)"
proof -
  obtain u where u: "\<forall>m. drain (data_loop ppp) (length fs + m) (concat (map ((#) SYNC_FLAG) fs) @ [SYNC_FLAG]) th =
      drain (data_loop ppp) m [SYNC_FLAG] u"
    "de_ready u" "de_calls u = de_calls th @ concat (map (data_event ppp) fs)"
    using data_frames.drain_frames_then [OF assms, of "[SYNC_FLAG]" ppp] by (auto simp: starts_flag_def)
  have ok: "de_ok u" "de_buffLen u = 0" "0 < de_buffSize u" using u(2) by (auto simp: de_ready_def de_ok_def)
  have "data_loop ppp [SYNC_FLAG] u = Some (1, dfed [SYNC_FLAG] u)"
    using ok DataPushByte_dfed [OF ok(1)] by (simp add: data_byte_def data_overflow_def)
  then have "drain (data_loop ppp) 1 [SYNC_FLAG] u = Some (dfed [SYNC_FLAG] u)" by simp
  then show ?thesis
    using u(1) [rule_format, of 1] u(3) ok dfed_ok [OF ok(1), of "[SYNC_FLAG]"] by (simp add: dfed_def)
qed

definition demo_data :: AT_DATA_ENGINE_T where
  "demo_data = at_DataEngineCreate (replicate 3072 0)"

lemma demo_data_ready: "de_ready demo_data" "de_buffSize demo_data = 3072" "de_calls demo_data = []"
  by (simp_all add: demo_data_def de_ready_def Create_data_ok) (simp_all add: at_DataEngineCreate_def)

theorem data_frames_delivered_witness:
  "\<exists>t. drain (data_loop True) 2 [0x7e, 0xff, 0x03, 0xc0, 0x7e] demo_data = Some t \<and>
    de_calls t = [PppSendData [0x7e, 0xff, 0x03, 0xc0, 0x7e], DataScheduleDrain]"
proof -
  have "\<forall>f \<in> set [[0xff, 0x03, 0xc0]]. frame_good (de_buffSize demo_data) f"
    by (simp add: demo_data_ready frame_good_def)
  from data_frames_delivered [OF demo_data_ready(1) this, of True] show ?thesis
    by (auto simp: demo_data_ready data_event_def numeral_2_eq_2 simp del: drain.simps data_loop.simps)
qed

theorem data_split_witness:
  "data_loop True ([0x41] @ [0x42]) demo_data = map_option (\<lambda>(n, u). (1 + n, u))
    (data_loop True [0x42] (demo_data\<lparr>dropCount := 1\<rparr>))"
proof -
  have "data_loop True [0x41] demo_data = Some (length [0x41 :: u8], demo_data\<lparr>dropCount := 1\<rparr>)"
    by (simp add: demo_data_def at_DataEngineCreate_def data_byte_def data_overflow_def)
  from data_split [OF this, of "[0x42]"] show ?thesis by simp
qed

end
