(* ===== verification/Dispatch.thy ===== *)
theory Dispatch
  imports Cmux Cmd_Engine Data_Engine
begin

text \<open>
  The dispatch layer (at_dispatch.c) between a device, or a channel of a multiplexer, and the
  engine of the current mode: it buffers input until the engine takes it, detects the escape
  sequence +++ in data mode, and keeps the list of channels.

  The engines are those of the other theories. Calls to components outside the object (the
  device, the parent multiplexer, the timers, the task queue, the AT module) are appended to
  \<open>d_calls\<close>. The tick counter of the system and the device are arguments.
\<close>

section \<open>State\<close>

abbreviation (input) FETCH_BUF_SIZE :: int where "FETCH_BUF_SIZE \<equiv> 32"
abbreviation (input) BUF_FRAME_COUNT :: int where "BUF_FRAME_COUNT \<equiv> 2"
abbreviation (input) TPLUS_BYTE_COUNT :: nat where "TPLUS_BYTE_COUNT \<equiv> 3"
abbreviation (input) CHAR_PLUS :: u8 where "CHAR_PLUS \<equiv> 0x2b"

datatype DISPATCH_MODE = DISPATCH_MODE_CMD | DISPATCH_MODE_DATA | DISPATCH_MODE_CMUX

datatype disp_call =
    ScheduleDrain
  | DlcWrite nat bytes int
  | DeviceWrite nat bytes
  | StartTplusTimer u16
  | StopTplusTimer
  | ModeSwitchDataEscape int
  | CmdEngineDestroy | DataEngineDestroy | CmuxEngineDestroy

text \<open>Devices and parent multiplexers are known by numbers; \<open>None\<close> is the NULL pointer.\<close>

record AT_DISPATCH_T =
  channelId :: int
  d_mode :: DISPATCH_MODE
  d_buff :: bytes
  d_buffLen :: nat
  d_buffSize :: nat
  device :: "nat option"
  cmdEngine :: AT_CMD_ENGINE_T
  dataEngine :: "AT_DATA_ENGINE_T option"
  cmuxEngine :: "AT_CMUX_ENGINE_T option"
  prevRecvTick :: u32
  tplusStartTick :: u32
  tplusCount :: nat
  cmuxParent :: "nat option"
  cmuxDlci :: int
  d_calls :: "disp_call list"

record tplus_ticks =
  uPlusLeadingTick :: u16
  uPlusDurationTick :: u16
  uPlusTrailingTick :: u16

text \<open>What the engines depend on, as in their theories.\<close>

record engine_env =
  env_chars :: char_settings
  env_module :: cmd_module
  env_ppp :: bool
  env_bypass :: "bytes \<Rightarrow> int"
  env_created :: "nat option"

definition dpcall :: "disp_call \<Rightarrow> AT_DISPATCH_T \<Rightarrow> AT_DISPATCH_T" where
  "dpcall c th = th\<lparr>d_calls := d_calls th @ [c]\<rparr>"

section \<open>The list of channels\<close>

text \<open>The linked list from \<open>gAtDispatchHead\<close>: the objects with their addresses.\<close>

type_synonym channel_list = "(nat \<times> AT_DISPATCH_T) list"

fun at_DispatchRegisterChannel :: "nat \<Rightarrow> AT_DISPATCH_T \<Rightarrow> channel_list \<Rightarrow> channel_list" where
  "at_DispatchRegisterChannel p d [] = [(p, d)]"
| "at_DispatchRegisterChannel p d (node # nodes) = node # at_DispatchRegisterChannel p d nodes"

fun at_DispatchUnregisterChannel :: "nat \<Rightarrow> channel_list \<Rightarrow> channel_list" where
  "at_DispatchUnregisterChannel p [] = []"
| "at_DispatchUnregisterChannel p (node # nodes) =
     (if fst node = p then nodes else node # at_DispatchUnregisterChannel p nodes)"

fun at_DispatchFindByChannel :: "int \<Rightarrow> channel_list \<Rightarrow> nat option" where
  "at_DispatchFindByChannel ch [] = None"
| "at_DispatchFindByChannel ch (node # nodes) =
     (if channelId (snd node) = ch then Some (fst node) else at_DispatchFindByChannel ch nodes)"

definition at_DispatchGetByChannel :: "int \<Rightarrow> channel_list \<Rightarrow> nat option" where
  "at_DispatchGetByChannel ch head =
     (case at_DispatchFindByChannel ch head of
        Some p \<Rightarrow> Some p
      | None \<Rightarrow> (case head of [] \<Rightarrow> None | node # _ \<Rightarrow> Some (fst node)))"

text \<open>
  The command engines of the channels in command mode are written to the array of the caller;
  the number found is compared with its length after each channel. An engine stands for
  itself by the address of its channel.
\<close>

fun all_engines_loop :: "nat \<Rightarrow> channel_list \<Rightarrow> nat \<Rightarrow> nat list \<Rightarrow> (nat \<times> nat list) option" where
  "all_engines_loop count [] found engines = Some (found, engines)"
| "all_engines_loop count (node # nodes) found engines = do {
     (found, engines) \<leftarrow>
       (if d_mode (snd node) = DISPATCH_MODE_CMD
        then do { engines \<leftarrow> wr engines found (fst node); Some (found + 1, engines) }
        else Some (found, engines));
     if found \<ge> count then Some (found, engines) else all_engines_loop count nodes found engines
   }"

definition at_DispatchGetAllCmdEngine :: "nat list \<Rightarrow> nat \<Rightarrow> channel_list \<Rightarrow> (nat \<times> nat list) option" where
  "at_DispatchGetAllCmdEngine engines count head = all_engines_loop count head 0 engines"

section \<open>Engines\<close>

definition at_DispatchPushToEngine ::
  "engine_env \<Rightarrow> bytes \<Rightarrow> AT_DISPATCH_T \<Rightarrow> (int \<times> AT_DISPATCH_T) option" where
  "at_DispatchPushToEngine E data th =
     (case d_mode th of
        DISPATCH_MODE_CMD \<Rightarrow> do {
          (n, e) \<leftarrow> at_CmdPushData (env_chars E) (env_module E) data (cmdEngine th);
          Some (n, th\<lparr>cmdEngine := e\<rparr>)
        }
      | DISPATCH_MODE_DATA \<Rightarrow> do {
          e \<leftarrow> dataEngine th;
          (n, e) \<leftarrow> at_DataPushData (env_ppp E) (env_bypass E) data e;
          Some (n, th\<lparr>dataEngine := Some e\<rparr>)
        }
      | DISPATCH_MODE_CMUX \<Rightarrow> do {
          e \<leftarrow> cmuxEngine th;
          (n, e) \<leftarrow> at_CmuxPushData (env_created E) data e;
          Some (int n, th\<lparr>cmuxEngine := Some e\<rparr>)
        })"

section \<open>Detection of +++\<close>

definition at_DispatchScheduleDrain :: "AT_DISPATCH_T \<Rightarrow> AT_DISPATCH_T" where
  "at_DispatchScheduleDrain th = dpcall ScheduleDrain th"

definition at_DispatchTplusTimeout :: "AT_DISPATCH_T \<Rightarrow> AT_DISPATCH_T" where
  "at_DispatchTplusTimeout th =
     (if tplusCount th = TPLUS_BYTE_COUNT \<and> d_mode th = DISPATCH_MODE_DATA
      then dpcall (ModeSwitchDataEscape (channelId th)) (th\<lparr>tplusCount := 0, d_buffLen := 0\<rparr>)
      else at_DispatchScheduleDrain (th\<lparr>tplusCount := 0\<rparr>))"

text \<open>The label \<open>tplus_reset\<close>: the plus signs held back go to the buffer.\<close>

definition tplus_reset :: "AT_DISPATCH_T \<Rightarrow> AT_DISPATCH_T option" where
  "tplus_reset th = do {
     b \<leftarrow> wr_block (d_buff th) (d_buffLen th) (replicate (tplusCount th) CHAR_PLUS);
     let u = th\<lparr>d_buff := b, d_buffLen := d_buffLen th + tplusCount th\<rparr>;
     let u = (if tplusCount th = TPLUS_BYTE_COUNT then dpcall StopTplusTimer u else u);
     Some (u\<lparr>tplusCount := 0\<rparr>)
   }"

definition tplus_count :: "tplus_ticks \<Rightarrow> nat \<Rightarrow> AT_DISPATCH_T \<Rightarrow> AT_DISPATCH_T" where
  "tplus_count T n th =
     (let th = th\<lparr>tplusCount := tplusCount th + n\<rparr> in
      if tplusCount th = TPLUS_BYTE_COUNT then dpcall (StartTplusTimer (uPlusTrailingTick T)) th else th)"

definition at_DispatchTplusDetect ::
  "tplus_ticks \<Rightarrow> u32 \<Rightarrow> bytes \<Rightarrow> AT_DISPATCH_T \<Rightarrow> AT_DISPATCH_T option" where
  "at_DispatchTplusDetect T tick data th =
     (let prev = prevRecvTick th;
          th = th\<lparr>prevRecvTick := tick\<rparr> in
      if tplusCount th + length data > TPLUS_BYTE_COUNT then tplus_reset th
      else if list_ex (\<lambda>c. c \<noteq> CHAR_PLUS) data then tplus_reset th
      else if tplusCount th = 0
      then (let th = th\<lparr>tplusStartTick := tick\<rparr> in
            if tick - prev < ucast (uPlusLeadingTick T) then tplus_reset th
            else Some (tplus_count T (length data) th))
      else if tick - tplusStartTick th > ucast (uPlusDurationTick T) then tplus_reset th
      else Some (tplus_count T (length data) th))"

section \<open>Input\<close>

text \<open>The engine is offered the buffer; what it used is removed.\<close>

definition remove_used :: "nat \<Rightarrow> AT_DISPATCH_T \<Rightarrow> AT_DISPATCH_T option" where
  "remove_used n th = do {
     rest \<leftarrow> rd_block (d_buff th) n (d_buffLen th - n);
     b \<leftarrow> wr_block (d_buff th) 0 rest;
     Some (th\<lparr>d_buff := b, d_buffLen := d_buffLen th - n\<rparr>)
   }"

definition push_existing :: "engine_env \<Rightarrow> AT_DISPATCH_T \<Rightarrow> AT_DISPATCH_T option" where
  "push_existing E th = do {
     data \<leftarrow> rd_block (d_buff th) 0 (d_buffLen th);
     (len, th) \<leftarrow> at_DispatchPushToEngine E data th;
     if len \<ge> int (d_buffLen th) then Some (th\<lparr>d_buffLen := 0\<rparr>)
     else do {
       th \<leftarrow> (if len > 0 then remove_used (nat len) th else Some th);
       Some (at_DispatchScheduleDrain th)
     }
   }"

definition append_input :: "bytes \<Rightarrow> AT_DISPATCH_T \<Rightarrow> AT_DISPATCH_T option" where
  "append_input data th =
     (if tplusCount th = 0
      then do {
        b \<leftarrow> wr_block (d_buff th) (d_buffLen th) data;
        Some (th\<lparr>d_buff := b, d_buffLen := d_buffLen th + length data\<rparr>)
      }
      else Some th)"

definition at_DispatchPushData ::
  "tplus_ticks \<Rightarrow> engine_env \<Rightarrow> u32 \<Rightarrow> bytes \<Rightarrow> AT_DISPATCH_T \<Rightarrow> AT_DISPATCH_T option" where
  "at_DispatchPushData T E tick data th =
     (if d_buffLen th + length data + TPLUS_BYTE_COUNT > d_buffSize th then Some th
      else do {
        th \<leftarrow> (if length data > 0
               then do {
                 th \<leftarrow> (if d_mode th = DISPATCH_MODE_DATA
                        then at_DispatchTplusDetect T tick data th else Some th);
                 append_input data th
               }
               else Some th);
        push_existing E th
      })"

text \<open>
  The device as an argument: a read of at most \<open>n\<close> bytes gives the bytes, the tick counter
  after it and the device. The first part of a pass of the loop tells whether the pass ends
  there (\<open>continue\<close>).
\<close>

type_synonym 'd dev_read = "nat \<Rightarrow> 'd \<Rightarrow> bytes \<times> u32 \<times> 'd"

definition read_fetched ::
  "tplus_ticks \<Rightarrow> u32 \<Rightarrow> bytes \<Rightarrow> AT_DISPATCH_T \<Rightarrow> (bool \<times> AT_DISPATCH_T) option" where
  "read_fetched T tick data th =
     (if length data > 0
      then do {
        b \<leftarrow> wr_block (d_buff th) (d_buffLen th) data;
        let th = th\<lparr>d_buff := b\<rparr>;
        th \<leftarrow> (if d_mode th = DISPATCH_MODE_DATA then at_DispatchTplusDetect T tick data th else Some th);
        let th = (if tplusCount th = 0 then th\<lparr>d_buffLen := d_buffLen th + length data\<rparr> else th);
        Some (tplusCount th > 0, th)
      }
      else Some (False, th))"

definition read_part ::
  "'d dev_read \<Rightarrow> tplus_ticks \<Rightarrow> AT_DISPATCH_T \<times> 'd \<Rightarrow> (bool \<times> AT_DISPATCH_T \<times> 'd) option" where
  "read_part rdev T = (\<lambda>(th, d).
     if d_buffLen th + TPLUS_BYTE_COUNT < d_buffSize th
     then (case rdev (d_buffSize th - (d_buffLen th + TPLUS_BYTE_COUNT)) d of (data, tick, d) \<Rightarrow>
       do { (c, th) \<leftarrow> read_fetched T tick data th; Some (c, th, d) })
     else Some (False, th, d))"

text \<open>The second part: \<open>True\<close> when the loop goes on.\<close>

definition push_part :: "engine_env \<Rightarrow> AT_DISPATCH_T \<Rightarrow> (bool \<times> AT_DISPATCH_T) option" where
  "push_part E th =
     (if d_buffLen th = 0 then Some (False, th)
      else do {
        data \<leftarrow> rd_block (d_buff th) 0 (d_buffLen th);
        (len, th) \<leftarrow> at_DispatchPushToEngine E data th;
        if len = int (d_buffLen th) then Some (True, th\<lparr>d_buffLen := 0\<rparr>)
        else do {
          th \<leftarrow> (if len > 0 then remove_used (nat len) th else Some th);
          Some (False, th)
        }
      })"

fun read_loop ::
  "nat \<Rightarrow> 'd dev_read \<Rightarrow> tplus_ticks \<Rightarrow> engine_env \<Rightarrow> AT_DISPATCH_T \<times> 'd \<Rightarrow> (AT_DISPATCH_T \<times> 'd) option" where
  "read_loop 0 rdev T E s = None"
| "read_loop (Suc fuel) rdev T E s = do {
     (c, th, d) \<leftarrow> read_part rdev T s;
     if c then read_loop fuel rdev T E (th, d)
     else do {
       (c, th) \<leftarrow> push_part E th;
       if c then read_loop fuel rdev T E (th, d) else Some (th, d)
     }
   }"

definition at_DispatchRead ::
  "nat \<Rightarrow> 'd dev_read \<Rightarrow> tplus_ticks \<Rightarrow> engine_env \<Rightarrow> AT_DISPATCH_T \<times> 'd \<Rightarrow> (AT_DISPATCH_T \<times> 'd) option" where
  "at_DispatchRead fuel rdev T E s =
     (if device (fst s) = None then Some s else read_loop fuel rdev T E s)"

definition at_DispatchDrain ::
  "nat \<Rightarrow> 'd dev_read \<Rightarrow> tplus_ticks \<Rightarrow> engine_env \<Rightarrow> u32 \<Rightarrow> AT_DISPATCH_T \<times> 'd \<Rightarrow> (AT_DISPATCH_T \<times> 'd) option" where
  "at_DispatchDrain fuel rdev T E tick s =
     (if device (fst s) = None
      then map_option (\<lambda>th. (th, snd s)) (at_DispatchPushData T E tick [] (fst s))
      else at_DispatchRead fuel rdev T E s)"

section \<open>Output and modes\<close>

definition at_DispatchWrite :: "bytes \<Rightarrow> AT_DISPATCH_T \<Rightarrow> AT_DISPATCH_T" where
  "at_DispatchWrite data th =
     (case cmuxParent th of
        Some p \<Rightarrow> dpcall (DlcWrite p data (cmuxDlci th)) th
      | None \<Rightarrow> (case device th of Some d \<Rightarrow> dpcall (DeviceWrite d data) th | None \<Rightarrow> th))"

definition at_DispatchSetCmdMode :: "AT_DISPATCH_T \<Rightarrow> AT_DISPATCH_T" where
  "at_DispatchSetCmdMode th = th\<lparr>d_mode := DISPATCH_MODE_CMD\<rparr>"

text \<open>The memory of the new engines is an argument.\<close>

definition at_DispatchSetDataMode :: "bytes \<Rightarrow> AT_DISPATCH_T \<Rightarrow> AT_DISPATCH_T" where
  "at_DispatchSetDataMode mem th =
     (let th = (if dataEngine th = None then th\<lparr>dataEngine := Some (at_DataEngineCreate mem)\<rparr> else th)
      in th\<lparr>d_mode := DISPATCH_MODE_DATA, tplusCount := 0\<rparr>)"

definition at_DispatchSetCmuxMode ::
  "bytes \<Rightarrow> bytes \<Rightarrow> bool \<Rightarrow> nat \<Rightarrow> AT_CMUX_CONFIG_T \<Rightarrow> AT_DISPATCH_T \<Rightarrow> AT_DISPATCH_T" where
  "at_DispatchSetCmuxMode ib ob ov self cfg th =
     (let th = (if cmuxEngine th = None
                then th\<lparr>cmuxEngine := Some (at_CmuxEngineCreate ib ob ov (Some self) cfg)\<rparr> else th)
      in th\<lparr>d_mode := DISPATCH_MODE_CMUX\<rparr>)"

definition at_DispatchEndCmuxMode :: "AT_DISPATCH_T \<Rightarrow> AT_DISPATCH_T" where
  "at_DispatchEndCmuxMode th =
     (dpcall CmuxEngineDestroy th)\<lparr>cmuxEngine := None, d_mode := DISPATCH_MODE_CMD\<rparr>"

definition at_DispatchEndDataMode :: "AT_DISPATCH_T \<Rightarrow> AT_DISPATCH_T" where
  "at_DispatchEndDataMode th =
     (dpcall DataEngineDestroy (dpcall StopTplusTimer th))\<lparr>dataEngine := None, d_mode := DISPATCH_MODE_CMD\<rparr>"

definition at_DispatchSetPlusLeadingTick :: "u16 \<Rightarrow> tplus_ticks \<Rightarrow> tplus_ticks" where
  "at_DispatchSetPlusLeadingTick tick T = T\<lparr>uPlusLeadingTick := tick\<rparr>"

definition at_DispatchSetPlusDurationTick :: "u16 \<Rightarrow> tplus_ticks \<Rightarrow> tplus_ticks" where
  "at_DispatchSetPlusDurationTick tick T = T\<lparr>uPlusDurationTick := tick\<rparr>"

definition at_DispatchSetPlusTrailingTick :: "u16 \<Rightarrow> tplus_ticks \<Rightarrow> tplus_ticks" where
  "at_DispatchSetPlusTrailingTick tick T = T\<lparr>uPlusTrailingTick := tick\<rparr>"

definition at_ChannelFromDeviceDlci :: "u8 \<Rightarrow> u8 \<Rightarrow> int" where
  "at_ChannelFromDeviceDlci devno dlci = uint (push_bit 6 ((ucast devno :: u32) AND 3) OR ucast dlci)"

definition at_ChannelFromDevice :: "u8 \<Rightarrow> int" where
  "at_ChannelFromDevice devno = at_ChannelFromDeviceDlci devno 0"

text \<open>
  \<open>devno\<close> is the number of the device, or of the device of the parent; \<open>frame\<close> the frame size
  of the parent; \<open>mem\<close> the memory of the buffer and \<open>ce\<close> the engine that
  \<open>at_CmdEngineCreate\<close> returns.
\<close>

definition at_DispatchCreate ::
  "nat \<Rightarrow> nat option \<Rightarrow> u8 \<Rightarrow> nat option \<Rightarrow> int \<Rightarrow> int \<Rightarrow> bytes \<Rightarrow> AT_CMD_ENGINE_T \<Rightarrow>
   channel_list \<Rightarrow> AT_DISPATCH_T \<times> channel_list" where
  "at_DispatchCreate self dev devno parent frame dlci mem ce head =
     (let th = \<lparr>channelId = (if parent = None then at_ChannelFromDevice devno
                             else at_ChannelFromDeviceDlci devno (of_int dlci)),
          d_mode = DISPATCH_MODE_CMD, d_buff = mem, d_buffLen = 0,
          d_buffSize = nat (if parent = None then FETCH_BUF_SIZE
                            else frame * BUF_FRAME_COUNT + int TPLUS_BYTE_COUNT),
          device = dev, cmdEngine = ce, dataEngine = None, cmuxEngine = None,
          prevRecvTick = 0, tplusStartTick = 0, tplusCount = 0,
          cmuxParent = parent, cmuxDlci = dlci, d_calls = []\<rparr>
      in (th, at_DispatchRegisterChannel self th head))"

text \<open>The calls that destroy the engines, and the list left.\<close>

definition at_DispatchDestroy :: "nat option \<Rightarrow> channel_list \<Rightarrow> disp_call list \<times> channel_list" where
  "at_DispatchDestroy self head =
     (case self of
        None \<Rightarrow> ([], head)
      | Some p \<Rightarrow> ([CmdEngineDestroy, DataEngineDestroy, CmuxEngineDestroy],
                  at_DispatchUnregisterChannel p head))"

end
