(* ===== verification/Dispatch_Order.thy ===== *)
theory Dispatch_Order
  imports Dispatch Cmd_Engine_Line
begin

text \<open>
  Properties of the dispatch layer: the interface to the engines with its instances, the
  invariant, the order of the bytes from the device to the engine, the
  termination of reading, and the list of channels.
\<close>

section \<open>What the dispatch layer needs of an engine\<close>

text \<open>
  An engine that is well formed accepts any input, stays well formed, and does not claim more
  bytes than it was offered.
\<close>

locale engine =
  fixes ok :: "'s \<Rightarrow> bool" and push :: "bytes \<Rightarrow> 's \<Rightarrow> (int \<times> 's) option"
  assumes push_ok: "ok s \<Longrightarrow> \<exists>n t. push data s = Some (n, t) \<and> ok t \<and> n \<le> int (length data)"
begin

definition left :: "int \<Rightarrow> bytes \<Rightarrow> bytes" where
  "left n data = drop (nat n) data"

text \<open>What is left of an input after one push is an end of it, and is offered again.\<close>

lemma push_left:
  assumes "ok s"
  shows "\<exists>n t. push data s = Some (n, t) \<and> ok t \<and> n \<le> int (length data) \<and>
    suffix (left n data) data \<and> (n = int (length data) \<longleftrightarrow> 0 \<le> n \<and> left n data = [])"
proof -
  obtain n t where "push data s = Some (n, t)" "ok t" "n \<le> int (length data)"
    using push_ok [OF assms] by blast
  then show ?thesis by (auto simp: left_def suffix_drop)
qed

end

definition cmd_ready :: "cmd_module \<Rightarrow> AT_CMD_ENGINE_T \<Rightarrow> bool" where
  "cmd_ready M e \<longleftrightarrow> ce_ok e \<and> (\<forall>d. on_bypass M d \<le> int (length d))"

definition data_ready :: "(bytes \<Rightarrow> int) \<Rightarrow> AT_DATA_ENGINE_T \<Rightarrow> bool" where
  "data_ready bypass e \<longleftrightarrow> de_ok e \<and> (\<forall>d. bypass d \<le> int (length d))"

interpretation cmd_eng: engine "cmd_ready M" "at_CmdPushData S M" for S M
proof
  fix s data
  assume ok: "cmd_ready M s"
  show "\<exists>n t. at_CmdPushData S M data s = Some (n, t) \<and> cmd_ready M t \<and> n \<le> int (length data)"
  proof (cases "ce_mode s = CMD_PARSE_MODE_BYPASS")
    case True
    then show ?thesis using ok by (simp add: at_CmdPushData_def cmd_ready_def)
  next
    case False
    then show ?thesis using PushData_safe [of s S M data] ok by (auto simp: cmd_ready_def)
  qed
qed

interpretation data_eng: engine "data_ready bypass" "at_DataPushData ppp bypass" for ppp bypass
proof
  fix s data
  assume "data_ready bypass s"
  then show "\<exists>n t. at_DataPushData ppp bypass data s = Some (n, t) \<and> data_ready bypass t \<and>
      n \<le> int (length data)"
    using data_loop_ok [of s ppp data] by (auto simp: at_DataPushData_def data_ready_def)
qed

section \<open>The invariant\<close>

text \<open>
  The state of a channel in command or data mode. While plus signs are held back the buffer
  keeps room for them.
\<close>

definition engines_ok :: "engine_env \<Rightarrow> AT_DISPATCH_T \<Rightarrow> bool" where
  "engines_ok E th \<longleftrightarrow>
     cmd_ready (env_module E) (cmdEngine th) \<and>
     (case dataEngine th of None \<Rightarrow> d_mode th \<noteq> DISPATCH_MODE_DATA | Some e \<Rightarrow> data_ready (env_bypass E) e) \<and>
     d_mode th \<noteq> DISPATCH_MODE_CMUX"

lemma engines_ok_upd [simp]:
  "engines_ok E (th\<lparr>d_buff := b\<rparr>) = engines_ok E th" "engines_ok E (th\<lparr>d_buffLen := n\<rparr>) = engines_ok E th"
  "engines_ok E (th\<lparr>tplusCount := n\<rparr>) = engines_ok E th" "engines_ok E (th\<lparr>d_calls := cs\<rparr>) = engines_ok E th"
  "engines_ok E (th\<lparr>prevRecvTick := k\<rparr>) = engines_ok E th" "engines_ok E (th\<lparr>tplusStartTick := k\<rparr>) = engines_ok E th"
  by (simp_all add: engines_ok_def cong: option.case_cong)

definition disp_ok :: "engine_env \<Rightarrow> AT_DISPATCH_T \<Rightarrow> bool" where
  "disp_ok E th \<longleftrightarrow> engines_ok E th \<and> length (d_buff th) = d_buffSize th \<and>
     d_buffLen th \<le> d_buffSize th \<and> tplusCount th \<le> TPLUS_BYTE_COUNT"

lemma disp_ok_engines: "disp_ok E th \<Longrightarrow> engines_ok E th"
  by (simp add: disp_ok_def)

text \<open>The engines and the mode that selects one.\<close>

definition eng :: "AT_DISPATCH_T \<Rightarrow> DISPATCH_MODE \<times> AT_CMD_ENGINE_T \<times> AT_DATA_ENGINE_T option \<times> AT_CMUX_ENGINE_T option" where
  "eng th = (d_mode th, cmdEngine th, dataEngine th, cmuxEngine th)"

lemma push_eng:
  "eng u = eng th \<Longrightarrow> at_DispatchPushToEngine E data u = Some (n, v) \<Longrightarrow>
   \<exists>w. at_DispatchPushToEngine E data th = Some (n, w) \<and> eng w = eng v"
  by (auto simp: at_DispatchPushToEngine_def eng_def split: DISPATCH_MODE.splits bind_splits)

text \<open>A push leaves everything but the engine alone.\<close>

definition no_eng :: "AT_DISPATCH_T \<Rightarrow> AT_DISPATCH_T" where
  "no_eng th = th\<lparr>cmdEngine := undefined, dataEngine := undefined, cmuxEngine := undefined\<rparr>"

lemma no_eng_sel:
  "no_eng t = no_eng u \<Longrightarrow> d_mode t = d_mode u \<and> d_buff t = d_buff u \<and> d_buffLen t = d_buffLen u \<and>
   d_buffSize t = d_buffSize u \<and> device t = device u \<and> tplusCount t = tplusCount u \<and> d_calls t = d_calls u \<and>
   prevRecvTick t = prevRecvTick u \<and> tplusStartTick t = tplusStartTick u \<and> channelId t = channelId u"
  by (cases t; cases u) (simp add: no_eng_def)

lemma PushToEngine_ok:
  assumes "engines_ok E th"
  shows "\<exists>n t. at_DispatchPushToEngine E data th = Some (n, t) \<and> engines_ok E t \<and> no_eng t = no_eng th \<and>
    n \<le> int (length data)"
proof (cases "d_mode th")
  case DISPATCH_MODE_CMD
  have "cmd_ready (env_module E) (cmdEngine th)" using assms by (simp add: engines_ok_def)
  from cmd_eng.push_ok [OF this, of "env_chars E" data] obtain n e where
    "at_CmdPushData (env_chars E) (env_module E) data (cmdEngine th) = Some (n, e)"
    "cmd_ready (env_module E) e" "n \<le> int (length data)" by blast
  then show ?thesis using assms DISPATCH_MODE_CMD
    by (simp add: at_DispatchPushToEngine_def engines_ok_def no_eng_def cong: option.case_cong)
next
  case DISPATCH_MODE_DATA
  then obtain e where e: "dataEngine th = Some e" "data_ready (env_bypass E) e"
    using assms by (auto simp: engines_ok_def split: option.splits)
  from data_eng.push_ok [OF e(2), of "env_ppp E" data] obtain n f where
    "at_DataPushData (env_ppp E) (env_bypass E) data e = Some (n, f)"
    "data_ready (env_bypass E) f" "n \<le> int (length data)" by blast
  then show ?thesis using assms DISPATCH_MODE_DATA e(1)
    by (simp add: at_DispatchPushToEngine_def engines_ok_def no_eng_def)
next
  case DISPATCH_MODE_CMUX
  then show ?thesis using assms by (simp add: engines_ok_def)
qed

lemma disp_ok_no_eng: "disp_ok E th \<Longrightarrow> engines_ok E t \<Longrightarrow> no_eng t = no_eng th \<Longrightarrow> disp_ok E t"
  by (drule no_eng_sel) (simp add: disp_ok_def)

lemma remove_used_ok:
  assumes "disp_ok E th" "n \<le> d_buffLen th"
  shows "\<exists>t. remove_used n th = Some t \<and> disp_ok E t \<and> d_buffLen t = d_buffLen th - n \<and>
    take (d_buffLen t) (d_buff t) = drop n (take (d_buffLen th) (d_buff th)) \<and>
    d_calls t = d_calls th \<and> tplusCount t = tplusCount th \<and> eng t = eng th"
proof -
  let ?r = "take (d_buffLen th - n) (drop n (d_buff th))"
  have len: "length ?r = d_buffLen th - n" "n + (d_buffLen th - n) \<le> length (d_buff th)"
    using assms by (auto simp: disp_ok_def)
  then have "rd_block (d_buff th) n (d_buffLen th - n) = Some ?r"
    "wr_block (d_buff th) 0 ?r = Some (?r @ drop (d_buffLen th - n) (d_buff th))"
    by (simp_all add: rd_block_in wr_block_def)
  then show ?thesis using assms len by (simp add: remove_used_def disp_ok_def drop_take eng_def)
qed

definition d_content :: "AT_DISPATCH_T \<Rightarrow> bytes" where
  "d_content th = take (d_buffLen th) (d_buff th)"

lemma length_content: "disp_ok E th \<Longrightarrow> length (d_content th) = d_buffLen th"
  by (simp add: d_content_def disp_ok_def)

text \<open>The buffer after the engine had its turn.\<close>

lemma push_existing_ok:
  assumes "disp_ok E th"
  shows "\<exists>n u t. at_DispatchPushToEngine E (d_content th) th = Some (n, u) \<and> push_existing E th = Some t \<and>
    disp_ok E t \<and> d_content t = drop (nat n) (d_content th) \<and> n \<le> int (d_buffLen th) \<and>
    d_calls t = d_calls th @ (if n = int (d_buffLen th) then [] else [ScheduleDrain]) \<and>
    tplusCount t = tplusCount th \<and> eng t = eng u"
proof -
  obtain n u where u: "at_DispatchPushToEngine E (d_content th) th = Some (n, u)" "engines_ok E u"
    "no_eng u = no_eng th" "n \<le> int (length (d_content th))"
    using PushToEngine_ok [OF disp_ok_engines [OF assms]] by blast
  have ok: "disp_ok E u" by (rule disp_ok_no_eng [OF assms u(2,3)])
  note sel = no_eng_sel [OF u(3)]
  have rd: "rd_block (d_buff th) 0 (d_buffLen th) = Some (d_content th)"
    using assms by (simp add: rd_block_in d_content_def eng_def disp_ok_def)
  have len: "n \<le> int (d_buffLen th)" using u(4) length_content [OF assms] by simp
  show ?thesis
  proof (cases "n = int (d_buffLen th)")
    case True
    then show ?thesis using ok u(1) sel rd
      by (auto simp: push_existing_def d_content_def eng_def disp_ok_def)
  next
    case ne: False
    show ?thesis
    proof (cases "0 < n")
      case True
      obtain t where "remove_used (nat n) u = Some t" "disp_ok E t" "d_buffLen t = d_buffLen u - nat n"
        "take (d_buffLen t) (d_buff t) = drop (nat n) (take (d_buffLen u) (d_buff u))"
        "d_calls t = d_calls u" "tplusCount t = tplusCount u"
        "eng t = eng u"
        using remove_used_ok [OF ok, of "nat n"] len sel by (auto simp: nat_le_iff)
      then show ?thesis using True ne u(1) sel rd len
        by (auto simp: push_existing_def d_content_def eng_def disp_ok_def
            at_DispatchScheduleDrain_def dpcall_def)
    next
      case False
      then show ?thesis using ne ok u(1) sel rd len
        by (auto simp: push_existing_def d_content_def eng_def disp_ok_def
            at_DispatchScheduleDrain_def dpcall_def)
    qed
  qed
qed

section \<open>Order of the bytes\<close>

definition plus :: "AT_DISPATCH_T \<Rightarrow> bytes" where
  "plus th = replicate (tplusCount th) CHAR_PLUS"

text \<open>All the bytes received that no engine has taken: those in the buffer, then the plus signs held back.\<close>

definition pending :: "AT_DISPATCH_T \<Rightarrow> bytes" where
  "pending th = d_content th @ plus th"

lemma tplus_reset_ok:
  assumes "disp_ok E th" "d_buffLen th + TPLUS_BYTE_COUNT \<le> d_buffSize th"
  shows "\<exists>t. tplus_reset th = Some t \<and> disp_ok E t \<and> tplusCount t = 0 \<and> d_content t = pending th \<and>
    d_buffLen t = d_buffLen th + tplusCount th \<and> d_buffSize t = d_buffSize th \<and> eng t = eng th \<and> device t = device th"
  using assms
  by (auto simp: tplus_reset_def wr_block_in disp_ok_def dpcall_def d_content_def pending_def plus_def eng_def Let_def)

lemma tplus_count_ok:
  assumes "disp_ok E th" "tplusCount th + n \<le> TPLUS_BYTE_COUNT"
  shows "disp_ok E (tplus_count T n th)" "tplusCount (tplus_count T n th) = tplusCount th + n"
    "d_content (tplus_count T n th) = d_content th" "d_buffLen (tplus_count T n th) = d_buffLen th"
    "d_buffSize (tplus_count T n th) = d_buffSize th" "eng (tplus_count T n th) = eng th"
    "device (tplus_count T n th) = device th"
  using assms
  by (simp_all add: tplus_count_def Let_def disp_ok_def dpcall_def d_content_def eng_def)

lemma disp_ok_ticks [simp]:
  "disp_ok E (th\<lparr>prevRecvTick := k\<rparr>) = disp_ok E th" "disp_ok E (th\<lparr>tplusStartTick := k\<rparr>) = disp_ok E th"
  by (simp_all add: disp_ok_def)

lemma pending_ticks [simp]:
  "pending (th\<lparr>prevRecvTick := k\<rparr>) = pending th" "pending (th\<lparr>tplusStartTick := k\<rparr>) = pending th"
  "d_content (th\<lparr>prevRecvTick := k\<rparr>) = d_content th" "d_content (th\<lparr>tplusStartTick := k\<rparr>) = d_content th"
  "eng (th\<lparr>prevRecvTick := k\<rparr>) = eng th" "eng (th\<lparr>tplusStartTick := k\<rparr>) = eng th"
  by (simp_all add: pending_def plus_def d_content_def eng_def)

text \<open>What the detection may do: hold the input back, or give up and release what it held.\<close>

definition held :: "bytes \<Rightarrow> AT_DISPATCH_T \<Rightarrow> AT_DISPATCH_T \<Rightarrow> bool" where
  "held data th t \<longleftrightarrow> list_all (\<lambda>c. c = CHAR_PLUS) data \<and> tplusCount t = tplusCount th + length data \<and>
     d_content t = d_content th \<and> d_buffLen t = d_buffLen th"

definition released :: "AT_DISPATCH_T \<Rightarrow> AT_DISPATCH_T \<Rightarrow> bool" where
  "released th t \<longleftrightarrow> tplusCount t = 0 \<and> d_content t = pending th \<and> d_buffLen t = d_buffLen th + tplusCount th"

lemma Detect_ok:
  assumes "disp_ok E th" "d_buffLen th + TPLUS_BYTE_COUNT \<le> d_buffSize th"
  shows "\<exists>t. at_DispatchTplusDetect T tick data th = Some t \<and> disp_ok E t \<and> eng t = eng th \<and>
    d_buffSize t = d_buffSize th \<and> device t = device th \<and> (held data th t \<or> released th t)"
proof -
  let ?u = "th\<lparr>prevRecvTick := tick\<rparr>"
  have room: "disp_ok E ?u" "disp_ok E (?u\<lparr>tplusStartTick := tick\<rparr>)" using assms(1) by simp_all
  from tplus_reset_ok [OF room(1)] obtain r where r: "tplus_reset ?u = Some r" "disp_ok E r" "released th r"
    "eng r = eng th" "d_buffSize r = d_buffSize th" "device r = device th"
    using assms(2) by (auto simp: released_def)
  from tplus_reset_ok [OF room(2)] obtain s where s: "tplus_reset (?u\<lparr>tplusStartTick := tick\<rparr>) = Some s"
    "disp_ok E s" "released th s" "eng s = eng th" "d_buffSize s = d_buffSize th" "device s = device th"
    using assms(2) by (auto simp: released_def)
  have "held data th (tplus_count T (length data) u)" "disp_ok E (tplus_count T (length data) u)"
    if "disp_ok E u" "list_all (\<lambda>c. c = CHAR_PLUS) data" "tplusCount th + length data \<le> TPLUS_BYTE_COUNT"
      "tplusCount u = tplusCount th" "d_content u = d_content th" "d_buffLen u = d_buffLen th" for u
    using that tplus_count_ok [of E u "length data" T] by (simp_all add: held_def)
  note h = this [of ?u] this [of "?u\<lparr>tplusStartTick := tick\<rparr>"]
  show ?thesis
  proof (cases "tplusCount th + length data > TPLUS_BYTE_COUNT \<or> list_ex (\<lambda>c. c \<noteq> CHAR_PLUS) data")
    case True
    then show ?thesis using r by (auto simp: at_DispatchTplusDetect_def Let_def)
  next
    case False
    then have p: "list_all (\<lambda>c. c = CHAR_PLUS) data" "tplusCount th + length data \<le> TPLUS_BYTE_COUNT"
      by (auto simp: list_ex_iff list_all_iff)
    have k: "eng (tplus_count T n u) = eng u" "d_buffSize (tplus_count T n u) = d_buffSize u"
      "device (tplus_count T n u) = device u" for n u
      by (simp_all add: tplus_count_def Let_def dpcall_def eng_def)
    show ?thesis using False r s h [OF _ p] room k
      by (simp add: at_DispatchTplusDetect_def Let_def)
  qed
qed

lemma append_input_ok:
  assumes "disp_ok E th" "tplusCount th = 0" "d_buffLen th + length data \<le> d_buffSize th"
  shows "\<exists>t. append_input data th = Some t \<and> disp_ok E t \<and> d_content t = d_content th @ data \<and>
    tplusCount t = 0 \<and> eng t = eng th"
  using assms by (simp add: append_input_def wr_block_in disp_ok_def d_content_def eng_def)

lemma held_pending: "held data th t \<Longrightarrow> d_content t @ plus t = pending th @ data"
  by (auto simp: held_def pending_def plus_def replicate_add list_all_iff intro: replicate_length_same)

text \<open>The input is behind what was pending, and the order is kept.\<close>

lemma take_input_ok:
  assumes "disp_ok E th" "d_mode th \<noteq> DISPATCH_MODE_DATA \<Longrightarrow> tplusCount th = 0"
    and "d_buffLen th + length data + TPLUS_BYTE_COUNT \<le> d_buffSize th"
  shows "\<exists>t. (do { th \<leftarrow> (if d_mode th = DISPATCH_MODE_DATA then at_DispatchTplusDetect T tick data th else Some th);
      append_input data th }) = Some t \<and> disp_ok E t \<and> eng t = eng th \<and> pending t = pending th @ data"
proof (cases "d_mode th = DISPATCH_MODE_DATA")
  case True
  from Detect_ok [OF assms(1), of T tick data] assms(3) obtain u where
    u: "at_DispatchTplusDetect T tick data th = Some u" "disp_ok E u" "eng u = eng th"
      "d_buffSize u = d_buffSize th" "held data th u \<or> released th u" by auto
  show ?thesis
  proof (cases "tplusCount u = 0")
    case zero: True
    have "tplusCount th \<le> TPLUS_BYTE_COUNT" using assms(1) by (simp add: disp_ok_def)
    then have "d_buffLen u + length data \<le> d_buffSize u"
      using u(4,5) assms(3) by (auto simp: held_def released_def)
    from append_input_ok [OF u(2) zero this] obtain t where
      "append_input data u = Some t" "disp_ok E t" "d_content t = d_content u @ data" "tplusCount t = 0"
      "eng t = eng u" by auto
    moreover have "d_content u @ data = pending th @ data"
      using u(5)
    proof
      assume "held data th u"
      then show ?thesis using zero by (auto simp: held_def pending_def plus_def)
    qed (simp add: released_def)
    ultimately show ?thesis using True u by (simp add: pending_def plus_def)
  next
    case False
    then have "held data th u" using u(5) by (auto simp: released_def)
    then show ?thesis using False True u held_pending [of data th u]
      by (simp add: append_input_def pending_def)
  qed
next
  case False
  then show ?thesis
    using append_input_ok [OF assms(1) assms(2) [OF False], of data] assms(3) assms(2) [OF False]
    by (auto simp: pending_def plus_def)
qed

text \<open>
  C28: input to a channel in command or data mode is never reordered: what the engine is
  offered, followed by the plus signs held back, is what was pending followed by the input,
  and what the engine does not take stays at the front of the buffer.
\<close>

theorem dispatch_push_in_order:
  assumes "disp_ok E th" "d_mode th \<noteq> DISPATCH_MODE_DATA \<Longrightarrow> tplusCount th = 0"
    and "d_buffLen th + length data + TPLUS_BYTE_COUNT \<le> d_buffSize th"
  shows "\<exists>t c n v. at_DispatchPushData T E tick data th = Some t \<and> disp_ok E t \<and>
    c @ plus t = pending th @ data \<and> at_DispatchPushToEngine E c th = Some (n, v) \<and> eng t = eng v \<and>
    n \<le> int (length c) \<and> d_content t = drop (nat n) c"
proof -
  obtain u where u: "disp_ok E u" "eng u = eng th" "pending u = pending th @ data"
    "at_DispatchPushData T E tick data th = push_existing E u"
  proof (cases "data = []")
    case True
    then show thesis using that [of th] assms(1,3) by (simp add: at_DispatchPushData_def)
  next
    case False
    from take_input_ok [OF assms, of T tick] obtain t where
      t: "(do { th \<leftarrow> (if d_mode th = DISPATCH_MODE_DATA then at_DispatchTplusDetect T tick data th else Some th);
        append_input data th }) = Some t" "disp_ok E t" "eng t = eng th" "pending t = pending th @ data"
      by auto
    then show thesis using that [of t] False assms(3) by (simp add: at_DispatchPushData_def)
  qed
  from push_existing_ok [OF u(1)] obtain n v t where
    t: "at_DispatchPushToEngine E (d_content u) u = Some (n, v)" "push_existing E u = Some t"
      "disp_ok E t" "d_content t = drop (nat n) (d_content u)" "n \<le> int (d_buffLen u)"
      "tplusCount t = tplusCount u" "eng t = eng v" by auto
  obtain w where "at_DispatchPushToEngine E (d_content u) th = Some (n, w)" "eng w = eng v"
    using push_eng [OF u(2) t(1)] by blast
  then show ?thesis
    using t u length_content [OF u(1)] by (auto simp: pending_def plus_def)
qed

lemma push_overflow_drops:
  "d_buffSize th < d_buffLen th + length data + TPLUS_BYTE_COUNT \<Longrightarrow> at_DispatchPushData T E tick data th = Some th"
  by (simp add: at_DispatchPushData_def)

section \<open>Leaving data mode with plus signs held back\<close>

text \<open>
  C33: a channel that leaves data mode while plus signs are held back is deaf in command mode:
  no input reaches its buffer, and only what was already there is offered to the engine.
\<close>

theorem end_data_mode_deaf:
  assumes "disp_ok E th" "0 < tplusCount th"
  shows "\<exists>t. at_DispatchPushData T E tick data (at_DispatchEndDataMode th) = Some t \<and>
    suffix (d_content t) (d_content th) \<and> tplusCount t = tplusCount th \<and> d_mode t = DISPATCH_MODE_CMD"
proof -
  let ?u = "at_DispatchEndDataMode th"
  have u: "disp_ok E ?u" "d_mode ?u = DISPATCH_MODE_CMD" "tplusCount ?u = tplusCount th" "d_content ?u = d_content th"
    using assms(1) by (auto simp: at_DispatchEndDataMode_def dpcall_def disp_ok_def engines_ok_def d_content_def)
  from push_existing_ok [OF u(1)] obtain n v t where
    v: "at_DispatchPushToEngine E (d_content ?u) ?u = Some (n, v)" and
    t: "push_existing E ?u = Some t" "d_content t = drop (nat n) (d_content ?u)" "tplusCount t = tplusCount ?u"
      "eng t = eng v" by auto
  have "d_mode v = d_mode ?u"
    using v by (auto simp: at_DispatchPushToEngine_def u(2) split: bind_splits)
  then have mode: "d_mode t = DISPATCH_MODE_CMD" using t(4) u(2) by (simp add: eng_def)
  show ?thesis
  proof (cases "d_buffLen ?u + length data + TPLUS_BYTE_COUNT > d_buffSize ?u")
    case True
    then show ?thesis using u push_overflow_drops [of ?u data T E tick] by auto
  next
    case False
    then have "at_DispatchPushData T E tick data ?u = push_existing E ?u"
      using u(2,3) assms(2) by (simp add: at_DispatchPushData_def append_input_def)
    then show ?thesis using t u mode by (simp add: suffix_drop)
  qed
qed

section \<open>Reading from the device\<close>

text \<open>
  C32: when plus signs held back are released by a read from the device, they overwrite the
  first bytes of the data just read, and as many stale bytes of the buffer are taken for
  input behind it.
\<close>

theorem read_release_corrupts:
  assumes "disp_ok E th" "d_mode th = DISPATCH_MODE_DATA" "0 < tplusCount th" "tplusCount th \<le> length data"
    and "list_ex (\<lambda>c. c \<noteq> CHAR_PLUS) data" "d_buffLen th + length data + TPLUS_BYTE_COUNT \<le> d_buffSize th"
  shows "\<exists>t. read_fetched T tick data th = Some (False, t) \<and>
    d_content t = d_content th @ plus th @ drop (tplusCount th) data @
      take (tplusCount th) (drop (d_buffLen th + length data) (d_buff th))"
proof -
  let ?L = "d_buffLen th" and ?k = "tplusCount th"
  let ?b = "take ?L (d_buff th) @ data @ drop (?L + length data) (d_buff th)"
  have len: "length (d_buff th) = d_buffSize th" "?k \<le> 3" using assms(1) by (simp_all add: disp_ok_def)
  have wb: "wr_block (d_buff th) ?L data = Some ?b" using assms(6) len by (simp add: wr_block_in)
  let ?c = "take ?L (d_buff th) @ plus th @ drop ?k data @ drop (?L + length data) (d_buff th)"
  let ?w = "(th\<lparr>d_buff := ?b\<rparr>)\<lparr>prevRecvTick := tick\<rparr>"
  have "wr_block ?b ?L (plus th) = Some ?c"
    using assms(4,6) len by (simp add: wr_block_in plus_def)
  then have "\<exists>t. tplus_reset ?w = Some t \<and> d_buff t = ?c \<and> d_buffLen t = ?L + ?k \<and> tplusCount t = 0"
    by (auto simp: tplus_reset_def plus_def dpcall_def Let_def)
  then obtain t where t: "tplus_reset ?w = Some t" "d_buff t = ?c" "d_buffLen t = ?L + ?k" "tplusCount t = 0"
    by blast
  have "at_DispatchTplusDetect T tick data (th\<lparr>d_buff := ?b\<rparr>) = Some t"
    using t(1) assms(5) by (simp add: at_DispatchTplusDetect_def Let_def)
  then have "read_fetched T tick data th = Some (False, t\<lparr>d_buffLen := d_buffLen t + length data\<rparr>)"
    using wb t(4) assms(2,3,4) by (cases data) (simp_all add: read_fetched_def Let_def)
  moreover have "take (?L + ?k + length data) ?c = d_content th @ plus th @ drop ?k data @
      take ?k (drop (?L + length data) (d_buff th))"
    using assms(4,6) len by (simp add: d_content_def plus_def min_def)
  ultimately show ?thesis using t by (simp add: d_content_def)
qed

text \<open>A device that gives no more than it is asked for, and that has finitely many bytes.\<close>

definition device_ok :: "'d dev_read \<Rightarrow> ('d \<Rightarrow> nat) \<Rightarrow> bool" where
  "device_ok rdev pend \<longleftrightarrow>
     (\<forall>n d. length (fst (rdev n d)) \<le> n \<and>
        pend (snd (snd (rdev n d))) + length (fst (rdev n d)) \<le> pend d)"

lemma read_fetched_ok:
  assumes "disp_ok E th" "d_buffLen th + length data + TPLUS_BYTE_COUNT \<le> d_buffSize th" "data \<noteq> []"
  shows "\<exists>c t. read_fetched T tick data th = Some (c, t) \<and> disp_ok E t \<and> device t = device th"
proof -
  let ?b = "take (d_buffLen th) (d_buff th) @ data @ drop (d_buffLen th + length data) (d_buff th)"
  let ?u = "th\<lparr>d_buff := ?b\<rparr>"
  have ok: "disp_ok E ?u" "wr_block (d_buff th) (d_buffLen th) data = Some ?b" "tplusCount th \<le> 3"
    using assms(1,2) by (simp_all add: disp_ok_def wr_block_in)
  show ?thesis
  proof (cases "d_mode th = DISPATCH_MODE_DATA")
    case True
    from Detect_ok [OF ok(1), of T tick data] assms(2) obtain t where
      t: "at_DispatchTplusDetect T tick data ?u = Some t" "disp_ok E t" "device t = device th"
        "d_buffSize t = d_buffSize th" "held data ?u t \<or> released ?u t" by auto
    have "disp_ok E (t\<lparr>d_buffLen := d_buffLen t + length data\<rparr>)"
      using t(2,4,5) assms(2) ok(3) by (auto simp: disp_ok_def held_def released_def)
    then show ?thesis using t ok(2) True assms(3) by (auto simp: read_fetched_def)
  next
    case False
    have "disp_ok E (?u\<lparr>d_buffLen := d_buffLen th + length data\<rparr>)"
      using ok(1) assms(2) by (simp add: disp_ok_def)
    then show ?thesis using False ok assms(3) by (simp add: read_fetched_def Let_def)
  qed
qed

lemma read_part_ok:
  assumes "disp_ok E th" "device_ok rdev pend"
  shows "\<exists>c t d'. read_part rdev T (th, d) = Some (c, t, d') \<and> disp_ok E t \<and> device t = device th \<and>
    (pend d' < pend d \<or> pend d' \<le> pend d \<and> t = th \<and> \<not> c)"
proof (cases "d_buffLen th + TPLUS_BYTE_COUNT < d_buffSize th")
  case False
  then show ?thesis using assms(1) by (intro exI [of _ False]) (simp add: read_part_def)
next
  case True
  let ?n = "d_buffSize th - (d_buffLen th + TPLUS_BYTE_COUNT)"
  obtain data tick d' where r: "rdev ?n d = (data, tick, d')" by (cases "rdev ?n d")
  have "length (fst (rdev ?n d)) \<le> ?n \<and> pend (snd (snd (rdev ?n d))) + length (fst (rdev ?n d)) \<le> pend d"
    using assms(2) by (simp only: device_ok_def)
  then have dev: "length data \<le> ?n" "pend d' + length data \<le> pend d" by (simp_all add: r)
  show ?thesis
  proof (cases "data = []")
    case True
    then have "read_part rdev T (th, d) = Some (False, th, d')"
      using r \<open>d_buffLen th + TPLUS_BYTE_COUNT < d_buffSize th\<close> by (simp add: read_part_def read_fetched_def)
    then show ?thesis using dev assms(1) by auto
  next
    case False
    have "d_buffLen th + length data + TPLUS_BYTE_COUNT \<le> d_buffSize th" using dev(1) True by simp
    from read_fetched_ok [OF assms(1) this False, of T tick] obtain c t where
      t: "read_fetched T tick data th = Some (c, t)" "disp_ok E t" "device t = device th" by auto
    have "pend d' < pend d" using dev(2) False by (cases data) auto
    then show ?thesis using t r True by (simp add: read_part_def)
  qed
qed

lemma push_part_ok:
  assumes "disp_ok E th"
  shows "\<exists>c t. push_part E th = Some (c, t) \<and> disp_ok E t \<and> device t = device th \<and>
    (c \<longrightarrow> 0 < d_buffLen th \<and> d_buffLen t = 0)"
proof (cases "d_buffLen th = 0")
  case True
  then show ?thesis using assms by (intro exI [of _ False]) (simp add: push_part_def)
next
  case False
  obtain n u where u: "at_DispatchPushToEngine E (d_content th) th = Some (n, u)" "engines_ok E u"
    "no_eng u = no_eng th" "n \<le> int (length (d_content th))"
    using PushToEngine_ok [OF disp_ok_engines [OF assms]] by blast
  have ok: "disp_ok E u" by (rule disp_ok_no_eng [OF assms u(2,3)])
  note sel = no_eng_sel [OF u(3)]
  have rd: "rd_block (d_buff th) 0 (d_buffLen th) = Some (d_content th)"
    using assms by (simp add: rd_block_in d_content_def disp_ok_def)
  have len: "n \<le> int (d_buffLen th)" using u(4) length_content [OF assms] by simp
  have zero: "disp_ok E (u\<lparr>d_buffLen := 0\<rparr>)" using ok by (simp add: disp_ok_def)
  have "\<exists>t. remove_used (nat n) u = Some t \<and> disp_ok E t \<and> device t = device u"
    using remove_used_ok [OF ok, of "nat n"] len sel
    by (auto simp: nat_le_iff remove_used_def split: bind_splits)
  then show ?thesis using False u(1) ok rd zero sel by (auto simp: push_part_def)
qed

lemma read_loop_ok:
  assumes "device_ok rdev pend"
  shows "disp_ok E th \<Longrightarrow> 2 * pend d + (if d_buffLen th = 0 then 0 else 1) < fuel \<Longrightarrow>
    \<exists>t d'. read_loop fuel rdev T E (th, d) = Some (t, d') \<and> disp_ok E t"
proof (induction fuel arbitrary: th d)
  case (Suc fuel)
  obtain c t d' where r: "read_part rdev T (th, d) = Some (c, t, d')" "disp_ok E t"
    "pend d' < pend d \<or> pend d' \<le> pend d \<and> t = th \<and> \<not> c"
    using read_part_ok [OF Suc.prems(1) assms, of T d] by auto
  show ?case
  proof (cases c)
    case True
    then show ?thesis using Suc.IH [OF r(2), of d'] Suc.prems(2) r by (auto split: if_splits)
  next
    case False
    obtain e u where u: "push_part E t = Some (e, u)" "disp_ok E u" "e \<longrightarrow> 0 < d_buffLen t \<and> d_buffLen u = 0"
      using push_part_ok [OF r(2)] by auto
    then show ?thesis using False Suc.IH [OF u(2), of d'] Suc.prems(2) r by (auto split: if_splits)
  qed
qed simp

text \<open>
  C29: reading a channel from a device with finitely many bytes ends, within as many passes as
  twice the bytes of the device and two more; no access is outside a buffer, and the channel
  and its engines stay well formed.
\<close>

theorem dispatch_read_safe:
  assumes "disp_ok E th" "device_ok rdev pend" "2 * pend d + 2 \<le> fuel"
  shows "\<exists>t d'. at_DispatchRead fuel rdev T E (th, d) = Some (t, d') \<and> disp_ok E t"
proof (cases "device th = None")
  case True
  then show ?thesis using assms(1) by (simp add: at_DispatchRead_def)
next
  case False
  have "2 * pend d + (if d_buffLen th = 0 then 0 else 1) < fuel" using assms(3) by auto
  from read_loop_ok [OF assms(2,1) this, of T] show ?thesis
    unfolding at_DispatchRead_def fst_conv if_not_P [OF False] .
qed

section \<open>The list of channels\<close>

lemma find_register:
  "at_DispatchFindByChannel ch (at_DispatchRegisterChannel p d nodes) =
     (case at_DispatchFindByChannel ch nodes of
        Some q \<Rightarrow> Some q | None \<Rightarrow> if channelId d = ch then Some p else None)"
  by (induction nodes) auto

lemma register_append: "at_DispatchRegisterChannel p d nodes = nodes @ [(p, d)]"
  by (induction nodes) auto

text \<open>
  A channel created with a new number is found under it, the others are found as before,
  and destroying it gives the list back; a number that no channel has yields the first one.
\<close>

theorem channel_lifecycle:
  assumes "at_DispatchCreate p dev devno parent frame dlci mem ce nodes = (d, nodes')"
    and "at_DispatchFindByChannel (channelId d) nodes = None" "p \<notin> set (map fst nodes)"
  shows "at_DispatchGetByChannel (channelId d) nodes' = Some p \<and>
    (ch \<noteq> channelId d \<longrightarrow> at_DispatchFindByChannel ch nodes' = at_DispatchFindByChannel ch nodes) \<and>
    snd (at_DispatchDestroy (Some p) nodes') = nodes \<and>
    (nodes \<noteq> [] \<longrightarrow> at_DispatchGetByChannel (channelId d) nodes = Some (fst (hd nodes)))"
proof -
  have n: "nodes' = at_DispatchRegisterChannel p d nodes"
    using assms(1) by (auto simp: at_DispatchCreate_def Let_def)
  have "at_DispatchUnregisterChannel p (nodes @ [(p, d)]) = nodes"
    using assms(3) by (induction nodes) auto
  then show ?thesis using assms(2)
    by (auto simp: n find_register at_DispatchGetByChannel_def at_DispatchDestroy_def register_append
        split: option.splits list.splits simp flip: register_append)
qed

text \<open>The channels in command mode, in the order of the list.\<close>

definition cmd_channels :: "channel_list \<Rightarrow> nat list" where
  "cmd_channels nodes = map fst (filter (\<lambda>n. d_mode (snd n) = DISPATCH_MODE_CMD) nodes)"

lemma cmd_channels_simps [simp]:
  "cmd_channels [] = []"
  "cmd_channels (n # nodes) =
     (if d_mode (snd n) = DISPATCH_MODE_CMD then fst n # cmd_channels nodes else cmd_channels nodes)"
  by (simp_all add: cmd_channels_def)

lemma all_engines_loop_ok:
  "found < count \<Longrightarrow> count \<le> length es \<Longrightarrow>
   \<exists>es'. all_engines_loop count nodes found es = Some (min count (found + length (cmd_channels nodes)), es') \<and>
     length es' = length es \<and>
     take (min count (found + length (cmd_channels nodes))) es' =
       take found es @ take (count - found) (cmd_channels nodes)"
proof (induction nodes arbitrary: found es)
  case (Cons n nodes)
  show ?case
  proof (cases "d_mode (snd n) = DISPATCH_MODE_CMD")
    case False
    then show ?thesis using Cons.IH [OF Cons.prems] Cons.prems by simp
  next
    case True
    let ?es = "es[found := fst n]"
    have wr: "wr es found (fst n) = Some ?es" using Cons.prems by (simp add: wr_in)
    have tk: "take (Suc found) ?es = take found es @ [fst n]"
      using Cons.prems by (simp add: take_Suc_snoc)
    show ?thesis
    proof (cases "found + 1 \<ge> count")
      case full: True
      then have "count = Suc found" using Cons.prems by simp
      then show ?thesis using True wr tk by simp
    next
      case False
      then have "take (count - found) (fst n # cmd_channels nodes) = fst n # take (count - Suc found) (cmd_channels nodes)"
        using Cons.prems by (cases "count - found") (simp_all, metis diff_Suc_1 diff_commute plus_1_eq_Suc diff_diff_left)
      moreover obtain es' where "all_engines_loop count nodes (Suc found) ?es =
          Some (min count (Suc found + length (cmd_channels nodes)), es')" "length es' = length ?es"
        "take (min count (Suc found + length (cmd_channels nodes))) es' =
          take (Suc found) ?es @ take (count - Suc found) (cmd_channels nodes)"
        using Cons.IH [of "Suc found" ?es] False Cons.prems by auto
      ultimately show ?thesis using True wr tk False by simp
    qed
  qed
qed simp

text \<open>
  With a count of at least one that the array has room for, the engines returned are those
  of the first channels in command mode, in order, as many as there are up to the count.
\<close>

theorem all_cmd_engines:
  assumes "0 < count" "count \<le> length engines"
  shows "\<exists>es. at_DispatchGetAllCmdEngine engines count nodes = Some (min count (length (cmd_channels nodes)), es) \<and>
    take (min count (length (cmd_channels nodes))) es = take count (cmd_channels nodes)"
  using all_engines_loop_ok [of 0 count engines nodes] assms by (auto simp: at_DispatchGetAllCmdEngine_def)

section \<open>Witnesses\<close>

definition demo_env :: engine_env where
  "demo_env = \<lparr>env_chars = demo_chars, env_module = demo_module, env_ppp = True, env_bypass = (\<lambda>_. 0),
     env_created = None\<rparr>"

definition demo_ticks :: tplus_ticks where
  "demo_ticks = \<lparr>uPlusLeadingTick = 1000, uPlusDurationTick = 500, uPlusTrailingTick = 500\<rparr>"

definition demo_disp :: AT_DISPATCH_T where
  "demo_disp = fst (at_DispatchCreate 1 (Some 0) 1 None 0 0 (replicate 32 0) demo_engine [])"

definition demo_disp_data :: AT_DISPATCH_T where
  "demo_disp_data = at_DispatchSetDataMode (replicate 3072 0) demo_disp"

lemma demo_disp_ok: "disp_ok demo_env demo_disp" "disp_ok demo_env demo_disp_data"
  by (simp_all add: demo_disp_data_def demo_disp_def at_DispatchCreate_def Let_def disp_ok_def engines_ok_def
      cmd_ready_def data_ready_def demo_engine_ok demo_env_def demo_module_def at_DispatchSetDataMode_def Create_data_ok)

lemma demo_disp_sel:
  "d_mode demo_disp = DISPATCH_MODE_CMD" "d_buffLen demo_disp = 0" "d_buffSize demo_disp = 32"
  "tplusCount demo_disp = 0" "d_mode demo_disp_data = DISPATCH_MODE_DATA" "d_buffLen demo_disp_data = 0"
  "d_buffSize demo_disp_data = 32" "tplusCount demo_disp_data = 0" "prevRecvTick demo_disp_data = 0"
  "d_buff demo_disp_data = replicate 32 0"
  by (simp_all add: demo_disp_data_def demo_disp_def at_DispatchCreate_def Let_def at_DispatchSetDataMode_def)

theorem dispatch_push_in_order_witness:
  "\<exists>t c n v. at_DispatchPushData demo_ticks demo_env 5 [0x41] demo_disp = Some t \<and> disp_ok demo_env t \<and>
    c @ plus t = pending demo_disp @ [0x41] \<and> at_DispatchPushToEngine demo_env c demo_disp = Some (n, v) \<and>
    eng t = eng v \<and> n \<le> int (length c) \<and> d_content t = drop (nat n) c"
  by (rule dispatch_push_in_order) (simp_all add: demo_disp_ok demo_disp_sel)

definition demo_held :: AT_DISPATCH_T where
  "demo_held = demo_disp_data\<lparr>tplusCount := 1\<rparr>"

lemma demo_held_ok: "disp_ok demo_env demo_held"
  using demo_disp_ok(2) by (simp add: disp_ok_def demo_held_def)

theorem end_data_mode_deaf_witness:
  "\<exists>t. at_DispatchPushData demo_ticks demo_env 9 [0x41, 0x54, 13] (at_DispatchEndDataMode demo_held) = Some t \<and>
    suffix (d_content t) (d_content demo_held) \<and> tplusCount t = tplusCount demo_held \<and> d_mode t = DISPATCH_MODE_CMD"
  by (rule end_data_mode_deaf [OF demo_held_ok]) (simp add: demo_held_def)

theorem read_release_corrupts_witness:
  "\<exists>t. read_fetched demo_ticks 9 [0x41, 0x42] demo_held = Some (False, t) \<and>
    d_content t = [0x2b, 0x42, 0]"
  using read_release_corrupts [OF demo_held_ok, of "[0x41, 0x42]" demo_ticks 9]
  by (simp add: demo_held_def demo_disp_sel d_content_def plus_def)

definition list_device :: "bytes dev_read" where
  "list_device n d = (take n d, 0, drop n d)"

theorem dispatch_read_safe_witness:
  "\<exists>t d'. at_DispatchRead 8 list_device demo_ticks demo_env (demo_disp, [0x41, 0x54, 13]) = Some (t, d') \<and>
    disp_ok demo_env t"
  by (rule dispatch_read_safe [OF demo_disp_ok(1), of list_device length])
    (simp_all add: device_ok_def list_device_def min_def)

theorem channel_lifecycle_witness:
  "\<exists>d nodes'. at_DispatchCreate 1 (Some 0) 1 None 0 0 (replicate 32 0) demo_engine [] = (d, nodes') \<and>
    at_DispatchGetByChannel (channelId d) nodes' = Some 1"
proof -
  obtain d nodes' where c: "at_DispatchCreate 1 (Some 0) 1 None 0 0 (replicate 32 0) demo_engine [] = (d, nodes')"
    by fastforce
  then show ?thesis using channel_lifecycle [OF c] by auto
qed

theorem all_cmd_engines_witness:
  "\<exists>es. at_DispatchGetAllCmdEngine [0, 0] 2 [(5, demo_disp_data), (7, demo_disp)] = Some (1, es) \<and> take 1 es = [7]"
  using all_cmd_engines [of 2 "[0, 0]" "[(5, demo_disp_data), (7, demo_disp)]"] by (auto simp: demo_disp_sel)

end
