(* ===== verification/Cmd_Table.thy ===== *)
theory Cmd_Table
  imports Checksum
begin

text \<open>
  The command table (at_command_table.c): a command is found by the CRC-32 of its name in
  upper case, and the name is compared without case (strnicmp of at_utility.c). A handler
  stands for itself by its name; the class and the status mask of an entry, which the lookup
  does not read, are left out.
\<close>

section \<open>Comparison without case\<close>

definition is_upper :: "u8 \<Rightarrow> bool" where
  "is_upper c \<longleftrightarrow> 0x41 \<le> c \<and> c \<le> 0x5a"

definition is_lower :: "u8 \<Rightarrow> bool" where
  "is_lower c \<longleftrightarrow> 0x61 \<le> c \<and> c \<le> 0x7a"

text \<open>The two characters as they are compared.\<close>

definition fold_pair :: "u8 \<Rightarrow> u8 \<Rightarrow> u8 \<times> u8" where
  "fold_pair c1 c2 =
     (if c1 = c2 then (c1, c2)
      else if is_upper c1 \<and> is_lower c2 then (c1 + 32, c2)
      else if is_lower c1 \<and> is_upper c2 then (c1, c2 + 32)
      else (c1, c2))"

fun strnicmp_loop :: "nat \<Rightarrow> bytes \<Rightarrow> bytes \<Rightarrow> int option" where
  "strnicmp_loop 0 s1 s2 = Some 0"
| "strnicmp_loop (Suc n) (c1 # s1) (c2 # s2) =
     (case fold_pair c1 c2 of (d1, d2) \<Rightarrow>
        if d1 \<noteq> d2 then Some (uint d1 - uint d2)
        else if d1 = 0 then Some 0
        else strnicmp_loop n s1 s2)"
| "strnicmp_loop (Suc n) s1 s2 = None"

definition strnicmp :: "bytes \<Rightarrow> bytes \<Rightarrow> nat \<Rightarrow> int option" where
  "strnicmp s1 s2 n = strnicmp_loop n s1 s2"

definition AT_StrCaselessCmp :: "bytes \<Rightarrow> bytes \<Rightarrow> int option" where
  "AT_StrCaselessCmp s1 s2 = do {
     l1 \<leftarrow> c_strlen s1;
     l2 \<leftarrow> c_strlen s2;
     strnicmp s1 s2 (if l1 > l2 then l1 else l2)
   }"

section \<open>The table\<close>

record SA_COMMAND_TABLE_T =
  pName :: bytes
  cmd_crc32 :: u32
  pFunc :: string
  mode_enable_flags :: u16

definition ascii :: "string \<Rightarrow> bytes" where
  "ascii s = map of_char s"

definition cmd_entry :: "string \<Rightarrow> u32 \<Rightarrow> string \<Rightarrow> u16 \<Rightarrow> SA_COMMAND_TABLE_T" where
  "cmd_entry n c f m = \<lparr>pName = ascii n, cmd_crc32 = c, pFunc = f, mode_enable_flags = m\<rparr>"

definition cmds_general :: "SA_COMMAND_TABLE_T list" where
  "cmds_general =
   [cmd_entry ''AT'' 0xC4BDF956 ''SA_DefaultCmdHandler_AT'' 1,
    cmd_entry ''E'' 0xD4B45A92 ''AT_CmdFunc_E'' 3,
    cmd_entry ''+CGMR'' 0x4CF5840E ''AT_CmdFunc_GMR'' 3,
    cmd_entry ''+GMR'' 0xE3106DF6 ''AT_CmdFunc_GMR'' 3,
    cmd_entry ''+CZESVER'' 0x30394BF3 ''AT_CmdFunc_CZESVER'' 3,
    cmd_entry ''+CGSN'' 0x8CB5E79E ''AT_CmdFunc_CGSN'' 3,
    cmd_entry ''&W'' 0x7708558C ''AT_CmdFunc_AndW'' 1,
    cmd_entry ''+IPR'' 0x16E22CE0 ''AT_CmdFunc_IPR'' 3,
    cmd_entry ''+CFUN'' 0xDB2D2A2F ''AT_CmdFunc_CFUN'' 1,
    cmd_entry ''+CCLK'' 0x368CB553 ''AT_CmdFunc_CCLK'' 1,
    cmd_entry ''+WSOP'' 0x54994CC4 ''AT_CmdFunc_WSOP'' 3,
    cmd_entry ''+CZCHIPID'' 0xFDFF58AF ''AT_CmdFunc_CZCHIPID'' 3,
    cmd_entry ''+CZEDUMPEN'' 0x1C6F6B05 ''AT_CmdFunc_CZEDUMPEN'' 3,
    cmd_entry ''+QPOWD'' 0xED5A3968 ''AT_CmdFunc_QPOWD'' 1,
    cmd_entry ''+QSCLK'' 0xCF7CB9E9 ''AT_CmdFunc_QSCLK'' 1,
    cmd_entry ''+QADC'' 0x091AFC13 ''AT_CmdFunc_QADC'' 1,
    cmd_entry ''+CZLDO'' 0x6CBC3BAD ''AT_CmdFunc_CZLDO'' 1]"

definition cmds_tts :: "SA_COMMAND_TABLE_T list" where
  "cmds_tts =
   [cmd_entry ''+QTTS'' 0x44829FBD ''AT_CmdFunc_QTTS'' 1,
    cmd_entry ''+QTTSETUP'' 0x2BCF1F50 ''AT_CmdFunc_QTTSETUP'' 1]"

definition cmds_modem :: "SA_COMMAND_TABLE_T list" where
  "cmds_modem =
   [cmd_entry ''+CLVL'' 0x13999D16 ''AT_CmdFunc_CLVL'' 1,
    cmd_entry ''+CZAUDPLAY'' 0x2DDAB58F ''AT_CmdFunc_CZAudPlay'' 1,
    cmd_entry ''+CZFPCM'' 0xAA43150A ''AT_CmdFunc_CZFPCM'' 1,
    cmd_entry ''+CZGETPCMVER'' 0xE507CC01 ''AT_CmdFunc_CZGetPcmVer'' 1,
    cmd_entry ''+CIMI'' 0xCC0E60E8 ''AT_CmdFunc_CIMI'' 3,
    cmd_entry ''+CCID'' 0xDB445C87 ''AT_CmdFunc_CCID'' 1,
    cmd_entry ''+CPIN'' 0x25F1A8B0 ''AT_CmdFunc_CPIN'' 1,
    cmd_entry ''+SIMCROSS'' 0x3934F479 ''AT_CmdFunc_SIMCROSS'' 3,
    cmd_entry ''+SIMHOTPLUGCFG'' 0x9BA3C2CC ''AT_CmdFunc_SIMHOTPLUGCFG'' 3,
    cmd_entry ''+QSIMDET'' 0x6480885A ''AT_CmdFunc_QSIMDET'' 3,
    cmd_entry ''+QSIMSTAT'' 0xD2410277 ''AT_CmdFunc_QSIMSTAT'' 3,
    cmd_entry ''+QNWINFO'' 0x27A53852 ''AT_CmdFunc_QNWINFO'' 1,
    cmd_entry ''+QENG'' 0xF391785C ''AT_CmdFunc_QENG'' 1,
    cmd_entry ''+COPS'' 0xCA8D893C ''AT_CmdFunc_COPS'' 1,
    cmd_entry ''+CREG'' 0xF31C8B76 ''AT_CmdFunc_CREG'' 1,
    cmd_entry ''+CEREG'' 0x65BE4B6D ''AT_CmdFunc_CEREG'' 1,
    cmd_entry ''+CESQ'' 0x02393E05 ''AT_CmdFunc_CESQ'' 1,
    cmd_entry ''+CGATT'' 0x06B0FC01 ''AT_CmdFunc_CGATT'' 1,
    cmd_entry ''+CMUX'' 0x23AC709F ''SA_DefaultCmdHandler_CMUX'' 1,
    cmd_entry ''+CPMS'' 0x229B016D ''AT_CmdFunc_CPMS'' 1,
    cmd_entry ''+CNMI'' 0xC941766D ''AT_CmdFunc_CNMI'' 1,
    cmd_entry ''+CMGR'' 0xBB8DE952 ''AT_CmdFunc_CMGR'' 1,
    cmd_entry ''+CMGS'' 0xCC8AD9C4 ''AT_CmdFunc_CMGS'' 1,
    cmd_entry ''+CMGD'' 0x4F595C03 ''AT_CmdFunc_CMGD'' 1,
    cmd_entry ''+QICSGP'' 0xF1EFBC7E ''AT_CmdFunc_QICSGP'' 1,
    cmd_entry ''+QIACT'' 0xF9CCCB46 ''AT_CmdFunc_QIACT'' 1,
    cmd_entry ''+QIDEACT'' 0xAB782094 ''AT_CmdFunc_QIDEACT'' 1,
    cmd_entry ''+QIOPEN'' 0x7146E27E ''AT_CmdFunc_QIOPEN'' 1,
    cmd_entry ''+QICLOSE'' 0x4EBCACA7 ''AT_CmdFunc_QICLOSE'' 1,
    cmd_entry ''+QISEND'' 0x72455B17 ''AT_CmdFunc_QISEND'' 1,
    cmd_entry ''+QISENDEX'' 0x505D0ED6 ''AT_CmdFunc_QISENDEX'' 1,
    cmd_entry ''+QIRD'' 0x85F58DDF ''AT_CmdFunc_QIRD'' 1,
    cmd_entry ''+QISTATE'' 0xFE2EFF98 ''AT_CmdFunc_QISTATE'' 1,
    cmd_entry ''+QIDNSGIP'' 0x3B05FBC1 ''AT_CmdFunc_QIDNSGIP'' 1,
    cmd_entry ''D'' 0xA3B36A04 ''atCmdHandleD'' 1,
    cmd_entry ''A'' 0xD3D99E8B ''atCmdHandleA'' 1,
    cmd_entry ''H'' 0xAA05262F ''atCmdHandleH'' 1,
    cmd_entry ''S0'' 0xF6962CC4 ''atCmdHandleS0'' 1]"

definition cmds_ftm :: "SA_COMMAND_TABLE_T list" where
  "cmds_ftm =
   [cmd_entry ''+CZPENTER'' 0x42928613 ''AT_CmdFunc_CzpEnter'' 1,
    cmd_entry ''+CZPTEST'' 0xEE756673 ''AT_CmdFunc_CzpTest'' 1,
    cmd_entry ''+CZPIMEI'' 0x3D8B6187 ''AT_CmdFunc_CzpImei'' 1,
    cmd_entry ''+CZPCSN'' 0x129A438B ''AT_CmdFunc_CzpCsn'' 1,
    cmd_entry ''+CZPMEID'' 0x6EFE94D9 ''AT_CmdFunc_CzpMeid'' 1,
    cmd_entry ''+CZPIPR'' 0x2021C9D1 ''AT_CmdFunc_CzpIpr'' 1,
    cmd_entry ''+CZPAUTOON'' 0xB9C05D0D ''AT_CmdFunc_CzpAutoOn'' 1,
    cmd_entry ''+CZPCODE'' 0x411F28E7 ''AT_CmdFunc_CzpCode'' 1,
    cmd_entry ''+CZPWMAC'' 0x09F46D31 ''AT_CmdFunc_CzpWmac'' 1,
    cmd_entry ''+CZPNVBAK'' 0xB8437A74 ''AT_CmdFunc_CzpNvback'' 1,
    cmd_entry ''+CZPAUDTEST'' 0xD50F6856 ''AT_CmdFunc_CzpAudTest'' 1,
    cmd_entry ''+CZPCHGTEST'' 0xBA7812EA ''AT_CmdFunc_CzpChgTest'' 1,
    cmd_entry ''+CZPLDOTEST'' 0x0B82E9B9 ''AT_CmdFunc_CzpLdoTest'' 1,
    cmd_entry ''+CZPSDTEST'' 0xBCDC615E ''AT_CmdFunc_CzpSdTest'' 1,
    cmd_entry ''+CZPUARTTEST'' 0x3D799EBC ''AT_CmdFunc_CzpUartTest'' 1,
    cmd_entry ''+CZPKEYTEST'' 0xEAD966B0 ''AT_CmdFunc_CzpKeyTest'' 1,
    cmd_entry ''+CZPGPIOTEST'' 0xBC6F6B5B ''AT_CmdFunc_CzpGpioTest'' 1]"

definition cmds_services :: "SA_COMMAND_TABLE_T list" where
  "cmds_services =
   [cmd_entry ''+IMQTTMODE'' 0xCBAB46DB ''AT_CmdFunc_IMQTTMODE'' 1,
    cmd_entry ''+IMQTTOPEN'' 0xF81182D4 ''AT_CmdFunc_IMQTTOPEN'' 1,
    cmd_entry ''+IMQTTAUTH'' 0xA4BFB129 ''AT_CmdFunc_IMQTTAUTH'' 1,
    cmd_entry ''+IMQTTPARA'' 0x78B3955D ''AT_CmdFunc_IMQTTPARA'' 1,
    cmd_entry ''+IMQTTCONN'' 0x464900EA ''AT_CmdFunc_IMQTTCONN'' 1,
    cmd_entry ''+IMQTTDISCONN'' 0xA988E78A ''AT_CmdFunc_IMQTTDISCONN'' 1,
    cmd_entry ''+IMQTTSUB'' 0x8A69F647 ''AT_CmdFunc_IMQTTSUB'' 1,
    cmd_entry ''+IMQTTUNSUB'' 0xE09D73A9 ''AT_CmdFunc_IMQTTUNSUB'' 1,
    cmd_entry ''+IMQTTPUB'' 0x882F481E ''AT_CmdFunc_IMQTTPUB'' 1,
    cmd_entry ''+IMQTTSTATE'' 0xC8A4E20E ''AT_CmdFunc_IMQTTSTATE'' 1,
    cmd_entry ''+IMQTTRCVPUB'' 0x34390B48 ''AT_CmdFunc_IMQTTRCVPUB'' 1,
    cmd_entry ''+IMQTTRCVCFG'' 0x3BDCA37C ''AT_CmdFunc_IMQTTRCVCFG'' 1,
    cmd_entry ''+IMQTTPUBIN'' 0x5D40F476 ''AT_CmdFunc_IMQTTPUBIN'' 1,
    cmd_entry ''+IMQTTRCVPUBIN'' 0x5E74A298 ''AT_CmdFunc_IMQTTRCVPUBIN'' 1,
    cmd_entry ''+QHTTPCFG'' 0xA503E3F7 ''AT_CmdFunc_QHTTPCFG'' 1,
    cmd_entry ''+QHTTPURL'' 0x04D432E8 ''AT_CmdFunc_QHTTPURL'' 1,
    cmd_entry ''+QHTTPGET'' 0x0D995936 ''AT_CmdFunc_QHTTPGET'' 1,
    cmd_entry ''+QHTTPREAD'' 0x3C76277D ''AT_CmdFunc_QHTTPREAD'' 1,
    cmd_entry ''+CWLSCAN'' 0xEB37C28C ''AT_CmdFunc_CWLSCAN'' 1,
    cmd_entry ''+CZUPCHK'' 0x8944C489 ''AT_CmdFunc_CZUPCHK'' 1,
    cmd_entry ''+CZUPDL'' 0xD0A94B2A ''AT_CmdFunc_CZUPDL'' 1,
    cmd_entry ''+CZUPDATE'' 0x1F05287A ''AT_CmdFunc_CZUPDATE'' 1,
    cmd_entry ''+QURCCFG'' 0xEFEABE7F ''AT_CmdFunc_QURCCFG'' 1,
    cmd_entry ''+CBTENABLE'' 0xBD9009B0 ''AT_CmdFunc_CBTENABLE'' 1,
    cmd_entry ''+CBTNAME'' 0x722C404F ''AT_CmdFunc_CBTNAME'' 1,
    cmd_entry ''+CBTMAC'' 0xC1B329FB ''AT_CmdFunc_CBTMAC'' 1,
    cmd_entry ''+CBTIBEACON'' 0x2E5EAC09 ''AT_CmdFunc_CBTIBEACON'' 1,
    cmd_entry ''+CBTADVCFG'' 0xB45CDFB0 ''AT_CmdFunc_CBTADVCFG'' 1,
    cmd_entry ''+CBTADVEN'' 0x008AD829 ''AT_CmdFunc_CBTADVEN'' 1,
    cmd_entry ''+CBTBCONCFG'' 0x5DC8204C ''AT_CmdFunc_CBTBCONCFG'' 1,
    cmd_entry ''+CBLESEND'' 0xCA00BCC5 ''AT_CmdFunc_CBLESEND'' 1,
    cmd_entry ''+CBLEDISCONN'' 0x7411A197 ''AT_CmdFunc_CBLEDISCONN'' 1,
    cmd_entry ''+CBLESCAN'' 0xA9C035A6 ''AT_CmdFunc_CBLESCAN'' 1,
    cmd_entry ''+CBLECONN'' 0x775B8792 ''AT_CmdFunc_CBLECONN'' 1,
    cmd_entry ''+CBLEUUID'' 0xBC0CD6AE ''AT_CmdFunc_CBLEUUID'' 1,
    cmd_entry ''+CBLEMTU'' 0x7A105B15 ''AT_CmdFunc_CBLEMTU'' 1,
    cmd_entry ''+CBTADVDATA'' 0xE17B1E76 ''AT_CmdFunc_CBTADVDATA'' 1,
    cmd_entry ''+QGPS'' 0x3E8E4790 ''AT_CmdFunc_QGPS'' 1,
    cmd_entry ''+QGPSEND'' 0xDE70BE10 ''AT_CmdFunc_QGPSEND'' 1,
    cmd_entry ''+QGPSLOC'' 0x56DE217D ''AT_CmdFunc_QGPSLOC'' 1,
    cmd_entry ''+CZSCANCODE'' 0xB1826824 ''AT_CmdFunc_CZSCANCODE'' 1,
    cmd_entry ''+CZCAMPARAM'' 0x3FEF2561 ''AT_CmdFunc_CZCAMPARAM'' 1,
    cmd_entry ''^DSS'' 0x1EF18C48 ''AT_CmdFunc_DSS'' 1,
    cmd_entry ''^DSSWITCH'' 0xCDA09C4A ''AT_CmdFunc_SIMSWITCH'' 1,
    cmd_entry ''+CZLCDONOFF'' 0x20E11845 ''AT_CmdFunc_CZLCDONOFF'' 1,
    cmd_entry ''+CZLCDBRIGHTNESS'' 0xB8DD9F00 ''AT_CmdFunc_CZLCDBRIGHTNESS'' 1,
    cmd_entry ''+CZCRMODE'' 0x8D1EEA4D ''AT_CmdFunc_Czcrmode'' 1,
    cmd_entry ''+CZEM2SD'' 0x276D0825 ''AT_CmdFunc_CZEM2SD'' 1,
    cmd_entry ''+SET7SRESET'' 0x5F455425 ''AT_CmdFunc_SET7SRESET'' 1]"

text \<open>Two groups of commands depend on switches of the build.\<close>

definition g_AtCommandTable :: "bool \<Rightarrow> bool \<Rightarrow> SA_COMMAND_TABLE_T list" where
  "g_AtCommandTable tts ftm =
     cmds_general @ (if tts then cmds_tts else []) @ cmds_modem @ (if ftm then cmds_ftm else []) @ cmds_services"

section \<open>Lookup\<close>

definition upcase :: "u8 \<Rightarrow> u8" where
  "upcase c = (if 0x61 \<le> c \<and> c \<le> 0x7a then c - 32 else c)"

fun find_crc :: "u32 \<Rightarrow> SA_COMMAND_TABLE_T list \<Rightarrow> nat option" where
  "find_crc c [] = None"
| "find_crc c (e # es) = (if c = cmd_crc32 e then Some 0 else map_option Suc (find_crc c es))"

text \<open>The name is changed in place; the index is \<open>None\<close> where the code returns -1.\<close>

definition atSearch :: "SA_COMMAND_TABLE_T list \<Rightarrow> bytes \<Rightarrow> nat \<Rightarrow> (nat option \<times> bytes) option" where
  "atSearch table name len = do {
     s \<leftarrow> rd_block name 0 len;
     Some (find_crc (crc32Calc (Some (map upcase s))) table, map upcase s @ drop len name)
   }"

definition at_GetCmdDescriptor ::
  "SA_COMMAND_TABLE_T list \<Rightarrow> bytes \<Rightarrow> nat \<Rightarrow> (SA_COMMAND_TABLE_T option \<times> bytes) option" where
  "at_GetCmdDescriptor table name len = do {
     (index, name) \<leftarrow> atSearch table name len;
     case index of
       None \<Rightarrow> Some (None, name)
     | Some i \<Rightarrow> do {
         e \<leftarrow> rd table i;
         cmp \<leftarrow> AT_StrCaselessCmp name (pName e @ [0]);
         Some (if cmp = 0 then Some e else None, name)
       }
   }"

definition SA_IsCmdEnabledByMode :: "nat \<Rightarrow> SA_COMMAND_TABLE_T \<Rightarrow> bool" where
  "SA_IsCmdEnabledByMode g_AtEngineMode desc =
     ((ucast (mode_enable_flags desc) :: u32) AND push_bit g_AtEngineMode 1 \<noteq> 0)"

end
