(* ===== verification/At_Errors.thy ===== *)
theory At_Errors
  imports Str_Tokens Cmd_Table Decimal
begin

text \<open>
  Result and error codes (at_errinfo.c): three tables from numbers to texts that are searched
  by bisection; a number that is not in its table is its own text. Codes are differences away
  from the ends of the 32-bit range, so that subtracting them does not overflow.
\<close>

section \<open>The tables\<close>

type_synonym AT_CODE_TEXT = "int \<times> string"

definition g_sResultCodeInfo :: "AT_CODE_TEXT list" where
  "g_sResultCodeInfo =
  [(0, ''OK''), (1, ''CONNECT''), (2, ''RING''), (3, ''NO CARRIER''), (4, ''ERROR''),
   (5, ''NO DIALTONE''), (6, ''BUSY''), (7, ''NO ANSWER''), (8, ''NOT SUPPORT''),
   (9, ''INVALID COMMAND LINE''), (10, ''''), (11, ''SIM not inserted'')]"

definition g_sCmeErrInfo :: "AT_CODE_TEXT list" where
  "g_sCmeErrInfo =
  [(0, ''phone failure''), (1, ''no connection to phone''), (2, ''phone-adapter link reserved''),
   (3, ''Operation not allowed''), (4, ''Operation not supported''), (5, ''PH-SIM PIN required''),
   (6, ''PH-FSIM PIN required''), (7, ''PH-FSIM PUK required''), (10, ''SIM not inserted''),
   (11, ''SIM PIN required''), (12, ''SIM PUK required''), (13, ''SIM failure''),
   (14, ''SIM busy''), (15, ''SIM wrong''), (16, ''Incorrect password''),
   (17, ''SIM PIN2 required''), (18, ''SIM PUK2 required''), (20, ''Memory full''),
   (21, ''invalid index''), (22, ''not found''), (23, ''Memory failure''),
   (24, ''text string too long''), (25, ''invalid characters in text string''),
   (26, ''dial string too long''), (27, ''invalid characters in dial string''),
   (30, ''no network service''), (31, ''Network timeout''),
   (32, ''Network not allowed emergency calls only''),
   (40, ''Network personalization PIN required''), (41, ''Network personalization PUK required''),
   (42, ''Network subset personalization PIN required''),
   (43, ''Network subset personalization PUK required''),
   (44, ''service provider personalization PIN required''),
   (45, ''service provider personalization PUK required''),
   (46, ''Corporate personalization PIN required''),
   (47, ''Corporate personalization PUK required''),
   (48, ''PH-SIM PUK required (PH-SIM PUK may also be referred to as Master Phone Code. For further details''),
   (49, ''The excute command not support''), (50, ''Excute command failure''), (51, ''no memory''),
   (52, ''The command not support,check your input,pls''), (53, ''parameters are invalid''),
   (54, ''REG not exit in flash''), (55, ''SMS not eixt in flash''),
   (56, ''Phone book not eixt in flash''), (57, ''file system  not eixt in flash''),
   (58, ''invalid command line''), (103, ''Illegal MS''), (106, ''Illegal ME''),
   (107, ''GPRS services not allowed''), (111, ''PLMN not allowed''),
   (112, ''Location area not allowed''), (113, ''Roaming not allowed in this location area''),
   (132, ''Service option not supported''), (133, ''Requested service option not subscribed''),
   (134, ''Service option temporarily out of order''), (148, ''Unspecified GPRS error''),
   (149, ''PDP authentication failure''), (150, ''Invalid mobile class''),
   (264, ''SIM card verify failure''), (265, ''Unblock SIM card fail''),
   (266, ''Condition not fullfilled''), (267, ''Unblock SIM card failed, no rest time''),
   (268, ''Verify SIM card failed, no rest time''), (269, ''Input parameter is invalid''),
   (270, ''file is inconsistent with the command''),
   (271, ''wrong instruction class given in the command''),
   (272, ''SIM returned technical problem''), (273, ''CHV need unblock''),
   (274, ''NO SIM EF selected''), (275, ''SIM file unmatch command''),
   (276, ''contradiction CHV''), (277, ''contradiction invalidation''),
   (278, ''SIM MAX value reached''), (279, ''SIM returned pattern not found''),
   (280, ''SIM file ID not found''), (281, ''STK busy''), (282, ''SIM returned UNKNOWN''),
   (283, ''SIM profile ERR'')]"

definition g_sCmsErrInfo :: "AT_CODE_TEXT list" where
  "g_sCmsErrInfo =
  [(1, ''Unassigned (unallocated) number''), (8, ''Operator determined barring''),
   (10, ''Call barred''), (21, ''Short message transfer rejected''),
   (27, ''Destination out of service''), (28, ''Unidentified subscriber''),
   (29, ''Facility rejected''), (30, ''Unknown subscriber''), (38, ''Network out of order''),
   (41, ''Temporary failure''), (42, ''Congestion''), (47, ''Resources unavailable, unspecified''),
   (50, ''Requested facility not subscribed''), (69, ''Requested facility not implemented''),
   (81, ''Invalid short message transfer reference value''),
   (95, ''Invalid message, unspecified''), (96, ''Invalid mandatory information''),
   (97, ''Message type non-existent or not implemented''),
   (98, ''Message not compatible with short message protocol state''),
   (99, ''Information element non-existent or not implemented''),
   (111, '' Protocol error, unspecified''), (127, ''Interworking, unspecified''),
   (128, ''Telematic interworking not supported''), (129, ''Short message Type 0 not supported''),
   (130, ''Cannot replace short message''), (143, ''Unspecified TP-PID error''),
   (144, ''Data coding scheme (alphabet) not supported''), (145, ''Message class not supported''),
   (159, ''Unspecified TP-DCS error''), (160, ''Command cannot be actioned ''),
   (161, ''Command unsupported''), (175, ''Unspecified TP-Command error''),
   (176, ''TPDU not supported''), (192, ''SC busy''), (193, ''No SC subscription''),
   (194, ''SC system failure''), (195, ''Invalid SME address''), (196, ''Destination SME barred''),
   (197, ''SM Rejected-Duplicate SM''), (198, ''TP-VPF not supported''),
   (199, ''TP-VP not supported''), (208, ''D0 SIM SMS storage full''),
   (209, ''No SMS storage capability in SIM''), (210, ''Error in MS''),
   (211, ''Memory Capacity Exceeded''), (212, ''SIM Application Toolkit Busy''),
   (213, ''SIM data download error''), (255, ''Unspecified error cause''), (300, ''ME failure''),
   (301, ''SMS service of ME reserved''), (302, ''Operation not allowed''),
   (303, ''Operation not supported''), (304, ''Invalid PDU mode parameter''),
   (305, ''Invalid text mode parameter''), (310, ''SIM not inserted''),
   (311, ''SIM PIN required''), (312, ''PH-SIM PIN required''), (313, ''SIM failure''),
   (314, ''SIM busy''), (315, ''SIM wrong''), (316, ''SIM PUK required''),
   (317, ''SIM PIN2 required''), (318, ''SIM PUK2 required''), (320, ''Memory failure''),
   (321, ''Invalid memory index''), (322, ''Memory full''), (330, ''SMSC address unknown''),
   (331, ''no network service''), (332, ''Network timeout''), (340, ''NO +CNMA ACK EXPECTED''),
   (500, ''Unknown error''), (512, ''User abort''), (513, ''unable to store''),
   (514, ''invalid status''), (515, ''invalid character in address string''),
   (516, ''invalid length''), (517, ''invalid character in pdu''), (518, ''invalid parameter''),
   (519, ''invalid length or character''), (520, ''invalid character in text''),
   (521, ''timer expired'')]"

section \<open>Lookup\<close>

text \<open>The text of a number, as \<open>sprintf\<close> writes it.\<close>

definition int_text :: "int \<Rightarrow> bytes" where
  "int_text v = (if v < 0 then 0x2d # decimal (nat (- v)) else decimal (nat v))"

definition at_CodeTextCmp :: "int \<Rightarrow> AT_CODE_TEXT \<Rightarrow> int" where
  "at_CodeTextCmp code ct = code - fst ct"

definition at_GetCodeInfo :: "int \<Rightarrow> AT_CODE_TEXT list \<Rightarrow> nat \<Rightarrow> bytes option" where
  "at_GetCodeInfo code info count = do {
     p \<leftarrow> bsearch code info count at_CodeTextCmp;
     case p of
       Some i \<Rightarrow> do { ct \<leftarrow> rd info i; Some (ascii (snd ct)) }
     | None \<Rightarrow> do {
         text \<leftarrow> wr_block (replicate 16 0) 0 (int_text code @ [0]);
         Some (cstr text) } }"

definition at_GetResultCodeInfo :: "int \<Rightarrow> bytes option" where
  "at_GetResultCodeInfo code = at_GetCodeInfo code g_sResultCodeInfo (length g_sResultCodeInfo)"

definition at_GetCmeCodeInfo :: "int \<Rightarrow> bytes option" where
  "at_GetCmeCodeInfo code = at_GetCodeInfo code g_sCmeErrInfo (length g_sCmeErrInfo)"

definition at_GetCmsCodeInfo :: "int \<Rightarrow> bytes option" where
  "at_GetCmsCodeInfo code = at_GetCodeInfo code g_sCmsErrInfo (length g_sCmsErrInfo)"

text \<open>The check of the order reports the entries that are not above the one before.\<close>

fun at_ErrCodeInfoArrayCheck :: "AT_CODE_TEXT list \<Rightarrow> AT_CODE_TEXT list" where
  "at_ErrCodeInfoArrayCheck (x # y # info) =
     (if fst y \<le> fst x then [y] else []) @ at_ErrCodeInfoArrayCheck (y # info)"
| "at_ErrCodeInfoArrayCheck info = []"

definition at_ErrCodeInfoCheck :: "AT_CODE_TEXT list" where
  "at_ErrCodeInfoCheck = at_ErrCodeInfoArrayCheck g_sResultCodeInfo @
     at_ErrCodeInfoArrayCheck g_sCmeErrInfo @ at_ErrCodeInfoArrayCheck g_sCmsErrInfo"

section \<open>Properties\<close>

text \<open>The check reports nothing exactly when the table is in strictly ascending order.\<close>

lemma array_check: "at_ErrCodeInfoArrayCheck info = [] \<longleftrightarrow> sorted_wrt (<) (map fst info)"
  by (induction info rule: at_ErrCodeInfoArrayCheck.induct) (auto simp: not_le)

lemma tables_checked: "at_ErrCodeInfoCheck = []"
  by code_simp

lemma tables_sorted:
  "sorted_wrt (<) (map fst g_sResultCodeInfo)" "sorted_wrt (<) (map fst g_sCmeErrInfo)"
  "sorted_wrt (<) (map fst g_sCmsErrInfo)"
  using tables_checked by (simp_all add: at_ErrCodeInfoCheck_def array_check)

lemma length_decimal: "n < 10 ^ k \<Longrightarrow> 0 < k \<Longrightarrow> length (decimal n) \<le> k"
proof (induction n arbitrary: k rule: decimal.induct)
  case (1 n)
  show ?case
  proof (cases "n < 10")
    case True
    then show ?thesis using 1(3) by (subst decimal.simps) simp
  next
    case False
    then obtain j where j: "k = Suc j" "0 < j" using 1(2,3) by (cases k; cases "k - 1") auto
    then have "n div 10 < 10 ^ j" using 1(2) by (simp add: div_less_iff_less_mult mult.commute)
    then show ?thesis using 1(1) [OF False, of j] j False by (subst decimal.simps) simp
  qed
qed

lemma int_text_short:
  assumes "- (2 ^ 31) \<le> v" "v < 2 ^ 31"
  shows "length (int_text v) \<le> 11" "0 \<notin> set (int_text v)"
proof -
  have "nat (- v) < 10 ^ 10" "nat v < 10 ^ 10" using assms by simp_all
  then show "length (int_text v) \<le> 11"
    using length_decimal [of "nat (- v)" 10] length_decimal [of "nat v" 10] by (simp add: int_text_def)
  show "0 \<notin> set (int_text v)" using decimal_digits by (auto simp: int_text_def)
qed

lemma sorted_ordered_for:
  assumes "sorted_wrt (<) (map fst info)"
  shows "ordered_for at_CodeTextCmp code info"
proof -
  have "fst (info ! j) < fst (info ! i)" if "i < length info" "j < i" for i j
    using sorted_wrt_nth_less [OF assms, of j i] that by simp
  then show ?thesis by (force simp: ordered_for_def at_CodeTextCmp_def)
qed

lemma map_of_sorted:
  fixes info :: "AT_CODE_TEXT list"
  assumes "sorted_wrt (<) (map fst info)" "i < length info"
  shows "map_of info (fst (info ! i)) = Some (snd (info ! i))"
proof -
  have "distinct (map fst info)" using assms(1) by (simp add: strict_sorted_iff)
  moreover have "(fst (info ! i), snd (info ! i)) \<in> set info" using nth_mem [OF assms(2)] by simp
  ultimately show ?thesis by (rule map_of_eq_Some_iff [THEN iffD2])
qed

lemma code_info:
  assumes "sorted_wrt (<) (map fst info)" "- (2 ^ 31) \<le> code" "code < 2 ^ 31"
  shows "at_GetCodeInfo code info (length info) =
    Some (case map_of info code of Some t \<Rightarrow> ascii t | None \<Rightarrow> int_text code)"
proof -
  obtain x where x: "bsearch code info (length info) at_CodeTextCmp = Some x"
    "case x of None \<Rightarrow> \<forall>i < length info. at_CodeTextCmp code (info ! i) \<noteq> 0
     | Some i \<Rightarrow> i < length info \<and> at_CodeTextCmp code (info ! i) = 0"
    using bsearch_result [OF sorted_ordered_for [OF assms(1)], of code] by blast
  show ?thesis
  proof (cases x)
    case None
    then have "map_of info code = None"
      using x(2) by (force simp: map_of_eq_None_iff in_set_conv_nth at_CodeTextCmp_def)
    moreover have "wr_block (replicate 16 0) 0 (int_text code @ [0]) =
        Some (int_text code @ 0 # replicate (15 - length (int_text code)) 0)"
      using int_text_short(1) [OF assms(2,3)] by (simp add: wr_block_def)
    ultimately show ?thesis using x(1) None int_text_short(2) [OF assms(2,3)]
      by (simp add: at_GetCodeInfo_def)
  next
    case (Some i)
    then have "i < length info" "fst (info ! i) = code" using x(2) by (simp_all add: at_CodeTextCmp_def)
    then show ?thesis using x(1) Some map_of_sorted [OF assms(1), of i]
      by (simp add: at_GetCodeInfo_def rd_def)
  qed
qed

text \<open>The three tables pass their check, and every code is found by bisection: it has the text of its
  entry, or its decimal text when it has none.\<close>

theorem code_texts:
  assumes "- (2 ^ 31) \<le> code" "code < 2 ^ 31"
  shows "at_ErrCodeInfoCheck = [] \<and>
    at_GetResultCodeInfo code = Some (case map_of g_sResultCodeInfo code of Some t \<Rightarrow> ascii t | None \<Rightarrow> int_text code) \<and>
    at_GetCmeCodeInfo code = Some (case map_of g_sCmeErrInfo code of Some t \<Rightarrow> ascii t | None \<Rightarrow> int_text code) \<and>
    at_GetCmsCodeInfo code = Some (case map_of g_sCmsErrInfo code of Some t \<Rightarrow> ascii t | None \<Rightarrow> int_text code)"
  using tables_checked code_info [OF tables_sorted(1) assms] code_info [OF tables_sorted(2) assms]
    code_info [OF tables_sorted(3) assms]
  by (simp add: at_GetResultCodeInfo_def at_GetCmeCodeInfo_def at_GetCmsCodeInfo_def)

lemma code_texts_witness:
  "at_GetCmeCodeInfo 10 = Some (ascii ''SIM not inserted'') \<and> at_GetCmeCodeInfo 9 = Some [0x39]"
proof -
  have "map_of g_sCmeErrInfo 10 = Some ''SIM not inserted''" "map_of g_sCmeErrInfo 9 = None" by code_simp+
  moreover have "int_text 9 = [0x39]" by (simp add: int_text_def decimal.simps)
  ultimately show ?thesis using code_texts [of 10] code_texts [of 9] by simp
qed

end
