(* ===== verification/Cmd_Parse.thy ===== *)
theory Cmd_Parse
  imports Cmd_Table Decimal
begin

text \<open>
  Parsing of command lines (at_parse.c): the actions that the generated parser runs while it
  reads a line build a list of commands with their parameters as text; handlers later read a
  parameter as a number, a string with escapes, hexadecimal data or DTMF.

  The generated parser itself is an argument: for a line, the actions its rules run, in order,
  and whether it accepts the line when they all succeed. Memory comes from an allocator that
  does not fail, as the code assumes for parameters.
\<close>

section \<open>Data\<close>

abbreviation (input) AT_COMMAND_PARAM_MAX :: nat where "AT_COMMAND_PARAM_MAX \<equiv> 22"
abbreviation (input) AT_PARSE_ERR_UNKNOWN_CMD :: int where "AT_PARSE_ERR_UNKNOWN_CMD \<equiv> 2000"
abbreviation (input) AT_PARSE_ERR_NOMEM :: int where "AT_PARSE_ERR_NOMEM \<equiv> 2001"
abbreviation (input) AT_PARSE_ERR_SYNTAX :: int where "AT_PARSE_ERR_SYNTAX \<equiv> 2002"
abbreviation (input) AT_PARSE_ERR_NO_CMD :: int where "AT_PARSE_ERR_NO_CMD \<equiv> 2003"
abbreviation (input) AT_PARSE_ERR_TOO_MANY_PARAM :: int where "AT_PARSE_ERR_TOO_MANY_PARAM \<equiv> 2004"

datatype AT_CMDPARAM_TYPE_T =
    AT_CMDPARAM_EMPTY | AT_CMDPARAM_NUMBER | AT_CMDPARAM_STRING | AT_CMDPARAM_DSTRING | AT_CMDPARAM_RAWTEXT
  | AT_CMDPARAM_STRING_PARSED | AT_CMDPARAM_DTMF_PARSED | AT_CMDPARAM_HEXDATA_PARSED

datatype AT_CMD_TYPE_T = AT_CMD_SET | AT_CMD_TEST | AT_CMD_READ | AT_CMD_EXE

text \<open>The value of a parameter is the memory behind its header.\<close>

record AT_COMMAND_PARAM_T =
  par_type :: AT_CMDPARAM_TYPE_T
  par_length :: u16
  par_value :: bytes

text \<open>The parameters in use; their number is \<open>paramCount\<close>.\<close>

record AT_COMMAND_T =
  cmd_desc :: SA_COMMAND_TABLE_T
  cmd_type :: AT_CMD_TYPE_T
  cmd_params :: "AT_COMMAND_PARAM_T list"

text \<open>The list of commands, and the place of the current one in it.\<close>

record AT_PARSE_CONTEXT_T =
  pc_cmds :: "AT_COMMAND_T list"
  currcmd :: "nat option"

section \<open>Lists of commands\<close>

fun at_CmdlistTail :: "AT_COMMAND_T list \<Rightarrow> AT_COMMAND_T option" where
  "at_CmdlistTail [] = None"
| "at_CmdlistTail [c] = Some c"
| "at_CmdlistTail (c # d # cs) = at_CmdlistTail (d # cs)"

fun at_CmdlistCount :: "AT_COMMAND_T list \<Rightarrow> nat" where
  "at_CmdlistCount [] = 0"
| "at_CmdlistCount (c # cs) = Suc (at_CmdlistCount cs)"

definition at_CmdlistPushBack :: "AT_COMMAND_T list \<Rightarrow> AT_COMMAND_T \<Rightarrow> AT_COMMAND_T list" where
  "at_CmdlistPushBack head node = head @ [node]"

definition at_CmdlistPopFront :: "AT_COMMAND_T list \<Rightarrow> AT_COMMAND_T option \<times> AT_COMMAND_T list" where
  "at_CmdlistPopFront head = (case head of [] \<Rightarrow> (None, []) | c # cs \<Rightarrow> (Some c, cs))"

text \<open>The blocks released: the parameters of a command and the command itself.\<close>

datatype freed_block = FreeParam AT_COMMAND_PARAM_T | FreeCommand AT_COMMAND_T

definition at_CmdlistFree :: "AT_COMMAND_T \<Rightarrow> freed_block list" where
  "at_CmdlistFree c = map FreeParam (cmd_params c) @ [FreeCommand (c\<lparr>cmd_params := []\<rparr>)]"

text \<open>The commands are popped and released from the first on; nothing is left in the list.\<close>

fun at_CmdlistFreeAll :: "AT_COMMAND_T list \<Rightarrow> freed_block list" where
  "at_CmdlistFreeAll [] = []"
| "at_CmdlistFreeAll (c # cs) = at_CmdlistFree c @ at_CmdlistFreeAll cs"

section \<open>Actions of the parser\<close>

datatype parse_action =
    StartCmd bytes
  | StartCmdNone
  | SetCmdType AT_CMD_TYPE_T
  | PushNumber bytes | PushString bytes | PushDString bytes | PushRawText bytes
  | PushEmpty

definition at_ParseStartCmdText ::
  "(nat \<Rightarrow> bool) \<Rightarrow> SA_COMMAND_TABLE_T list \<Rightarrow> nat \<Rightarrow> bytes \<Rightarrow> AT_PARSE_CONTEXT_T \<Rightarrow> (int \<times> AT_PARSE_CONTEXT_T) option" where
  "at_ParseStartCmdText mem table mode text ctx = do {
     (desc, _) \<leftarrow> at_GetCmdDescriptor table (text @ [0]) (length text);
     case desc of
       None \<Rightarrow> Some (AT_PARSE_ERR_UNKNOWN_CMD, ctx)
     | Some e \<Rightarrow>
         if \<not> SA_IsCmdEnabledByMode mode e then Some (AT_PARSE_ERR_UNKNOWN_CMD, ctx)
         else if \<not> mem (length (pc_cmds ctx)) then Some (AT_PARSE_ERR_NOMEM, ctx)
         else Some (0, ctx\<lparr>
           pc_cmds := at_CmdlistPushBack (pc_cmds ctx) \<lparr>cmd_desc = e, cmd_type = AT_CMD_SET, cmd_params = []\<rparr>,
           currcmd := Some (length (pc_cmds ctx))\<rparr>)
   }"

definition at_ParseSetCmdType :: "AT_CMD_TYPE_T \<Rightarrow> AT_PARSE_CONTEXT_T \<Rightarrow> (int \<times> AT_PARSE_CONTEXT_T) option" where
  "at_ParseSetCmdType type ctx =
     (case currcmd ctx of
        None \<Rightarrow> Some (AT_PARSE_ERR_NO_CMD, ctx)
      | Some i \<Rightarrow> do {
          c \<leftarrow> rd (pc_cmds ctx) i;
          cs \<leftarrow> wr (pc_cmds ctx) i (c\<lparr>cmd_type := type\<rparr>);
          Some (0, ctx\<lparr>pc_cmds := cs\<rparr>)
        })"

text \<open>The length that is copied: the last semicolon of a dialling string is left out.\<close>

definition param_leng :: "AT_CMDPARAM_TYPE_T \<Rightarrow> bytes \<Rightarrow> nat option" where
  "param_leng type text =
     (if type = AT_CMDPARAM_DSTRING
      then (if text = [] then None else Some (if last text = 0x3b then length text - 1 else length text))
      else Some (length text))"

definition at_ParsePushParamText ::
  "AT_CMDPARAM_TYPE_T \<Rightarrow> bytes \<Rightarrow> AT_PARSE_CONTEXT_T \<Rightarrow> (int \<times> AT_PARSE_CONTEXT_T) option" where
  "at_ParsePushParamText type text ctx =
     (case currcmd ctx of
        None \<Rightarrow> Some (AT_PARSE_ERR_NO_CMD, ctx)
      | Some i \<Rightarrow> do {
          c \<leftarrow> rd (pc_cmds ctx) i;
          if length (cmd_params c) \<ge> AT_COMMAND_PARAM_MAX then Some (AT_PARSE_ERR_TOO_MANY_PARAM, ctx)
          else do {
            leng \<leftarrow> param_leng type text;
            let param = \<lparr>par_type = type, par_length = of_nat leng, par_value = take leng text @ [0]\<rparr>;
            cs \<leftarrow> wr (pc_cmds ctx) i (c\<lparr>cmd_params := cmd_params c @ [param]\<rparr>);
            Some (0, ctx\<lparr>pc_cmds := cs\<rparr>)
          }
        })"

fun run_action ::
  "(nat \<Rightarrow> bool) \<Rightarrow> SA_COMMAND_TABLE_T list \<Rightarrow> nat \<Rightarrow> parse_action \<Rightarrow> AT_PARSE_CONTEXT_T \<Rightarrow> (int \<times> AT_PARSE_CONTEXT_T) option" where
  "run_action mem table mode (StartCmd text) ctx = at_ParseStartCmdText mem table mode text ctx"
| "run_action mem table mode StartCmdNone ctx = at_ParseStartCmdText mem table mode (ascii ''AT'') ctx"
| "run_action mem table mode (SetCmdType t) ctx = at_ParseSetCmdType t ctx"
| "run_action mem table mode (PushNumber text) ctx = at_ParsePushParamText AT_CMDPARAM_NUMBER text ctx"
| "run_action mem table mode (PushString text) ctx = at_ParsePushParamText AT_CMDPARAM_STRING text ctx"
| "run_action mem table mode (PushDString text) ctx = at_ParsePushParamText AT_CMDPARAM_DSTRING text ctx"
| "run_action mem table mode (PushRawText text) ctx = at_ParsePushParamText AT_CMDPARAM_RAWTEXT text ctx"
| "run_action mem table mode PushEmpty ctx = at_ParsePushParamText AT_CMDPARAM_EMPTY [] ctx"

text \<open>The actions run until one fails, whose code the parser returns.\<close>

fun run_actions ::
  "(nat \<Rightarrow> bool) \<Rightarrow> SA_COMMAND_TABLE_T list \<Rightarrow> nat \<Rightarrow> parse_action list \<Rightarrow> AT_PARSE_CONTEXT_T \<Rightarrow> (int \<times> AT_PARSE_CONTEXT_T) option" where
  "run_actions mem table mode [] ctx = Some (0, ctx)"
| "run_actions mem table mode (a # as) ctx = do {
     (r, ctx) \<leftarrow> run_action mem table mode a ctx;
     if r \<noteq> 0 then Some (r, ctx) else run_actions mem table mode as ctx
   }"

text \<open>
  \<open>lex_ok\<close> tells whether the scanner could be created. The commands parsed before an error
  are returned with it, for the caller to release.
\<close>

definition at_ParseLine ::
  "(bytes \<Rightarrow> parse_action list \<times> bool) \<Rightarrow> bool \<Rightarrow> (nat \<Rightarrow> bool) \<Rightarrow> SA_COMMAND_TABLE_T list \<Rightarrow> nat \<Rightarrow> bytes \<Rightarrow>
   (int \<times> AT_COMMAND_T list) option" where
  "at_ParseLine grammar lex_ok mem table mode cmdline =
     (if \<not> lex_ok then Some (AT_PARSE_ERR_NOMEM, [])
      else do {
        (r, ctx) \<leftarrow> run_actions mem table mode (fst (grammar cmdline)) \<lparr>pc_cmds = [], currcmd = None\<rparr>;
        Some (if r = 0 \<and> snd (grammar cmdline) then 0 else AT_PARSE_ERR_SYNTAX, pc_cmds ctx)
      })"

section \<open>Numbers\<close>

text \<open>
  The functions below take the parameter, which may be NULL, and the flag \<open>paramok\<close>, and give
  the result and the flag.
\<close>

definition is_numeric :: "AT_COMMAND_PARAM_T \<Rightarrow> bool" where
  "is_numeric p \<longleftrightarrow> par_type p = AT_CMDPARAM_NUMBER \<or> par_type p = AT_CMDPARAM_RAWTEXT"

definition at_ParamUint :: "AT_COMMAND_PARAM_T option \<Rightarrow> bool \<Rightarrow> u32 \<times> bool" where
  "at_ParamUint param paramok =
     (case param of
        None \<Rightarrow> (0, False)
      | Some p \<Rightarrow>
          if \<not> paramok then (0, False)
          else if is_numeric p
          then (case strtoul10 (cstr (par_value p)) of (value, rest) \<Rightarrow>
                  if rest \<noteq> [] then (0, False) else (value, paramok))
          else (0, False))"

text \<open>An optional parameter that is absent.\<close>

definition absent :: "AT_COMMAND_PARAM_T option \<Rightarrow> bool" where
  "absent param = (case param of None \<Rightarrow> True | Some p \<Rightarrow> par_type p = AT_CMDPARAM_EMPTY)"

definition at_ParamUintInRange :: "AT_COMMAND_PARAM_T option \<Rightarrow> u32 \<Rightarrow> u32 \<Rightarrow> bool \<Rightarrow> u32 \<times> bool" where
  "at_ParamUintInRange param minval maxval paramok =
     (case at_ParamUint param paramok of (res, ok) \<Rightarrow>
        if ok \<and> res \<ge> minval \<and> res \<le> maxval then (res, ok) else (minval, False))"

definition at_ParamDefUintInRange :: "AT_COMMAND_PARAM_T option \<Rightarrow> u32 \<Rightarrow> u32 \<Rightarrow> u32 \<Rightarrow> bool \<Rightarrow> u32 \<times> bool" where
  "at_ParamDefUintInRange param defval minval maxval paramok =
     (if paramok \<and> absent param then (defval, paramok)
      else at_ParamUintInRange param minval maxval paramok)"

fun at_ParamUintCheckList :: "u32 \<Rightarrow> u32 list \<Rightarrow> bool" where
  "at_ParamUintCheckList val [] = False"
| "at_ParamUintCheckList val (x # xs) = (if val = x then True else at_ParamUintCheckList val xs)"

definition at_ParamUintInList :: "AT_COMMAND_PARAM_T option \<Rightarrow> u32 list \<Rightarrow> bool \<Rightarrow> (u32 \<times> bool) option" where
  "at_ParamUintInList param list paramok =
     (case at_ParamUint param paramok of (res, ok) \<Rightarrow>
        if ok \<and> at_ParamUintCheckList res list then Some (res, ok)
        else do { x \<leftarrow> rd list 0; Some (x, False) })"

definition at_ParamDefUintInList ::
  "AT_COMMAND_PARAM_T option \<Rightarrow> u32 \<Rightarrow> u32 list \<Rightarrow> bool \<Rightarrow> (u32 \<times> bool) option" where
  "at_ParamDefUintInList param defval list paramok =
     (if paramok \<and> absent param then Some (defval, paramok)
      else at_ParamUintInList param list paramok)"

text \<open>Signed values are read as unsigned ones and converted.\<close>

definition at_ParamInt :: "AT_COMMAND_PARAM_T option \<Rightarrow> bool \<Rightarrow> int \<times> bool" where
  "at_ParamInt param paramok =
     (case param of
        None \<Rightarrow> (0, False)
      | Some p \<Rightarrow>
          if \<not> paramok then (0, False)
          else if is_numeric p
          then (case strtoul10 (cstr (par_value p)) of (value, rest) \<Rightarrow>
                  if rest \<noteq> [] then (0, False) else (sint value, paramok))
          else (0, False))"

definition at_ParamIntInRange :: "AT_COMMAND_PARAM_T option \<Rightarrow> int \<Rightarrow> int \<Rightarrow> bool \<Rightarrow> int \<times> bool" where
  "at_ParamIntInRange param minval maxval paramok =
     (case at_ParamInt param paramok of (res, ok) \<Rightarrow>
        if ok \<and> res \<ge> minval \<and> res \<le> maxval then (res, ok) else (minval, False))"

definition at_ParamDefIntInRange :: "AT_COMMAND_PARAM_T option \<Rightarrow> int \<Rightarrow> int \<Rightarrow> int \<Rightarrow> bool \<Rightarrow> int \<times> bool" where
  "at_ParamDefIntInRange param defval minval maxval paramok =
     (if paramok \<and> absent param then (defval, paramok)
      else at_ParamIntInRange param minval maxval paramok)"

fun at_ParamIntCheckList :: "int \<Rightarrow> int list \<Rightarrow> bool" where
  "at_ParamIntCheckList val [] = False"
| "at_ParamIntCheckList val (x # xs) = (if val = x then True else at_ParamIntCheckList val xs)"

definition at_ParamIntInList :: "AT_COMMAND_PARAM_T option \<Rightarrow> int list \<Rightarrow> bool \<Rightarrow> (int \<times> bool) option" where
  "at_ParamIntInList param list paramok =
     (case at_ParamInt param paramok of (res, ok) \<Rightarrow>
        if ok \<and> at_ParamIntCheckList res list then Some (res, ok)
        else do { x \<leftarrow> rd list 0; Some (x, False) })"

definition at_ParamDefIntInList ::
  "AT_COMMAND_PARAM_T option \<Rightarrow> int \<Rightarrow> int list \<Rightarrow> bool \<Rightarrow> (int \<times> bool) option" where
  "at_ParamDefIntInList param defval list paramok =
     (if paramok \<and> absent param then Some (defval, paramok)
      else at_ParamIntInList param list paramok)"

section \<open>Strings\<close>

text \<open>The character classes of at_sul.h: upper case, lower case and digits, in Latin-1.\<close>

definition SUL_isalnum :: "u8 \<Rightarrow> bool" where
  "SUL_isalnum c \<longleftrightarrow>
     0x30 \<le> c \<and> c \<le> 0x39 \<or> 0x41 \<le> c \<and> c \<le> 0x5a \<or> 0x61 \<le> c \<and> c \<le> 0x7a \<or>
     0xc0 \<le> c \<and> c \<noteq> 0xd7 \<and> c \<noteq> 0xf7"

text \<open>The macro computes on \<open>int\<close> and gives a number for every character.\<close>

definition HEX2NUM :: "u8 \<Rightarrow> int" where
  "HEX2NUM c =
     (if 0x30 \<le> c \<and> c \<le> 0x39 then uint c - 48
      else if 0x41 \<le> c \<and> c \<le> 0x46 then uint c - 55
      else uint c - 87)"

definition hex_pair :: "u8 \<Rightarrow> u8 \<Rightarrow> u8" where
  "hex_pair a b = of_int (push_bit 4 (HEX2NUM a) OR HEX2NUM b)"

text \<open>Whether the backslash before position \<open>s\<close>, with \<open>n\<close> characters left, starts an escape.\<close>

definition is_escape :: "nat \<Rightarrow> nat \<Rightarrow> u8 \<Rightarrow> bytes \<Rightarrow> bool option" where
  "is_escape n s c v =
     (if c = 0x5c \<and> n \<ge> 2
      then do {
        a \<leftarrow> rd v s;
        if SUL_isalnum a then do { b \<leftarrow> rd v (s + 1); Some (SUL_isalnum b) } else Some False
      }
      else Some False)"

definition escape_char :: "nat \<Rightarrow> bytes \<Rightarrow> u8 option" where
  "escape_char s v = do { a \<leftarrow> rd v s; b \<leftarrow> rd v (s + 1); Some (hex_pair a b) }"

text \<open>The loop, with the number of characters left, the read and the write position.\<close>

fun str_loop :: "nat \<Rightarrow> nat \<Rightarrow> nat \<Rightarrow> bytes \<Rightarrow> (nat \<times> bytes) option" where
  "str_loop 0 s d v = Some (d, v)"
| "str_loop (Suc n) s d v = do {
     c \<leftarrow> rd v s;
     esc \<leftarrow> is_escape n (s + 1) c v;
     if esc
     then do {
       x \<leftarrow> escape_char (s + 1) v;
       v \<leftarrow> wr v d x;
       str_loop (n - 2) (s + 3) (d + 1) v
     }
     else do {
       v \<leftarrow> wr v d c;
       str_loop n (s + 1) (d + 1) v
     }
   }"

definition at_ParamStrParse :: "AT_COMMAND_PARAM_T \<Rightarrow> AT_COMMAND_PARAM_T option" where
  "at_ParamStrParse p =
     (if par_type p = AT_CMDPARAM_STRING_PARSED then Some p
      else do {
        (d, v) \<leftarrow> str_loop (unat (par_length p - 2)) 1 0 (par_value p);
        v \<leftarrow> wr v d 0;
        Some (p\<lparr>par_length := of_nat d, par_value := v, par_type := AT_CMDPARAM_STRING_PARSED\<rparr>)
      })"

definition at_ParamHex2Num :: "u8 \<Rightarrow> int" where
  "at_ParamHex2Num c =
     (if 0x30 \<le> c \<and> c \<le> 0x39 then uint c - 48
      else if 0x41 \<le> c \<and> c \<le> 0x46 then 10 + (uint c - 65)
      else if 0x61 \<le> c \<and> c \<le> 0x66 then 10 + (uint c - 97)
      else - 1)"

fun hex_check :: "nat \<Rightarrow> nat \<Rightarrow> bytes \<Rightarrow> bool option" where
  "hex_check 0 i v = Some True"
| "hex_check (Suc n) i v = do {
     c \<leftarrow> rd v i;
     if at_ParamHex2Num c < 0 then Some False else hex_check n (i + 1) v
   }"

fun hex_loop :: "nat \<Rightarrow> nat \<Rightarrow> bytes \<Rightarrow> bytes option" where
  "hex_loop 0 d v = Some v"
| "hex_loop (Suc n) d v = do {
     a \<leftarrow> rd v (2 * d);
     b \<leftarrow> rd v (2 * d + 1);
     v \<leftarrow> wr v d (of_int (push_bit 4 (at_ParamHex2Num a) OR at_ParamHex2Num b));
     hex_loop n (d + 1) v
   }"

definition at_ParamHexDataParse :: "AT_COMMAND_PARAM_T \<Rightarrow> (bool \<times> AT_COMMAND_PARAM_T) option" where
  "at_ParamHexDataParse p =
     (if par_type p = AT_CMDPARAM_HEXDATA_PARSED then Some (True, p)
      else do {
        ok \<leftarrow> hex_check (unat (par_length p)) 0 (par_value p);
        if \<not> ok then Some (False, p)
        else do {
          let p = p\<lparr>par_length := par_length p div 2\<rparr>;
          v \<leftarrow> hex_loop (unat (par_length p)) 0 (par_value p);
          Some (True, p\<lparr>par_value := v, par_type := AT_CMDPARAM_HEXDATA_PARSED\<rparr>)
        }
      })"

text \<open>A returned string: the value of the parameter, or a string of its own.\<close>

datatype str_ret = ParamValue | Literal bytes

type_synonym str_result = "(str_ret \<times> AT_COMMAND_PARAM_T option \<times> bool) option"

abbreviation (input) str_failed :: "AT_COMMAND_PARAM_T option \<Rightarrow> str_result" where
  "str_failed param \<equiv> Some (Literal [0], param, False)"

definition at_ParamStr :: "AT_COMMAND_PARAM_T option \<Rightarrow> bool \<Rightarrow> str_result" where
  "at_ParamStr param paramok =
     (case param of
        None \<Rightarrow> str_failed param
      | Some p \<Rightarrow>
          if \<not> paramok then str_failed param
          else if par_type p = AT_CMDPARAM_STRING_PARSED then Some (ParamValue, param, paramok)
          else if par_type p = AT_CMDPARAM_STRING \<and> par_length p \<ge> 2
          then do { q \<leftarrow> at_ParamStrParse p; Some (ParamValue, Some q, paramok) }
          else str_failed param)"

definition at_ParamOptStr :: "AT_COMMAND_PARAM_T option \<Rightarrow> bool \<Rightarrow> str_result" where
  "at_ParamOptStr param paramok =
     (if paramok \<and> absent param then Some (Literal [0], param, paramok) else at_ParamStr param paramok)"

definition at_ParamDefStr :: "AT_COMMAND_PARAM_T option \<Rightarrow> bytes \<Rightarrow> bool \<Rightarrow> str_result" where
  "at_ParamDefStr param def paramok =
     (if paramok \<and> absent param then Some (Literal def, param, paramok) else at_ParamStr param paramok)"

definition at_ParamDStr :: "AT_COMMAND_PARAM_T option \<Rightarrow> bool \<Rightarrow> str_result" where
  "at_ParamDStr param paramok =
     (case param of
        None \<Rightarrow> str_failed param
      | Some p \<Rightarrow>
          if paramok \<and> par_type p = AT_CMDPARAM_DSTRING then Some (ParamValue, param, paramok)
          else str_failed param)"

fun dtmf_loop :: "nat \<Rightarrow> nat \<Rightarrow> nat \<Rightarrow> bytes \<Rightarrow> (nat \<times> bytes) option" where
  "dtmf_loop 0 n np v = Some (np, v)"
| "dtmf_loop (Suc k) n np v = do {
     c \<leftarrow> rd v n;
     if c = 0x2c \<or> c = 0x20 then dtmf_loop k (n + 1) np v
     else do { v \<leftarrow> wr v np c; dtmf_loop k (n + 1) (np + 1) v }
   }"

definition at_ParamDtmf :: "AT_COMMAND_PARAM_T option \<Rightarrow> bool \<Rightarrow> str_result" where
  "at_ParamDtmf param paramok =
     (case param of
        None \<Rightarrow> str_failed param
      | Some p \<Rightarrow>
          if \<not> paramok then str_failed param
          else if par_type p = AT_CMDPARAM_DTMF_PARSED then Some (ParamValue, param, paramok)
          else if is_numeric p \<and> par_length p = 1 then Some (ParamValue, param, paramok)
          else if par_type p = AT_CMDPARAM_STRING \<and> par_length p \<ge> 2
          then do {
            (np, v) \<leftarrow> dtmf_loop (unat (par_length p) - 2) 1 0 (par_value p);
            v \<leftarrow> wr v np 0;
            Some (ParamValue,
              Some (p\<lparr>par_length := of_nat np, par_value := v, par_type := AT_CMDPARAM_DTMF_PARSED\<rparr>), paramok)
          }
          else str_failed param)"

text \<open>The number of digits is compared with twice the length as 32-bit numbers.\<close>

definition at_ParamHexData :: "AT_COMMAND_PARAM_T option \<Rightarrow> u32 \<Rightarrow> bool \<Rightarrow> str_result" where
  "at_ParamHexData param len paramok =
     (case param of
        None \<Rightarrow> str_failed param
      | Some p \<Rightarrow>
          if \<not> paramok then str_failed param
          else if par_type p = AT_CMDPARAM_HEXDATA_PARSED \<or> par_type p = AT_CMDPARAM_STRING_PARSED
          then Some (ParamValue, param, paramok)
          else if is_numeric p \<and> ucast (par_length p) = len * 2
          then do {
            (ok, q) \<leftarrow> at_ParamHexDataParse p;
            if ok then Some (ParamValue, Some q, paramok) else str_failed (Some q)
          }
          else if par_type p = AT_CMDPARAM_STRING
          then do { q \<leftarrow> at_ParamStrParse p; Some (ParamValue, Some q, paramok) }
          else str_failed param)"

definition at_ParamRawText :: "AT_COMMAND_PARAM_T option \<Rightarrow> bool \<Rightarrow> str_result" where
  "at_ParamRawText param paramok =
     (case param of
        None \<Rightarrow> str_failed param
      | Some p \<Rightarrow>
          if paramok \<and> par_type p = AT_CMDPARAM_RAWTEXT then Some (ParamValue, param, paramok)
          else str_failed param)"

definition at_ParamStrOrText :: "AT_COMMAND_PARAM_T option \<Rightarrow> bool \<Rightarrow> str_result" where
  "at_ParamStrOrText param paramok =
     (case param of
        None \<Rightarrow> str_failed param
      | Some p \<Rightarrow>
          if \<not> paramok then str_failed param
          else if par_type p = AT_CMDPARAM_RAWTEXT then at_ParamRawText param paramok
          else at_ParamStr param paramok)"

end
