(* ===== verification/At_Module.thy ===== *)
theory At_Module
  imports At_Errors At_Result Cmd_Parse Cmd_Engine
begin

text \<open>
  The AT module (at_module.c): it has a line parsed into a list of commands, runs the handler of
  the first one, turns what handlers answer into result codes and texts, and goes on with the
  next command or drops the rest of the line.

  The functions of the module change its own state and make calls: to the command engine (as the
  operations \<open>eng_op\<close> that the model of the engine executes), to the channel (\<open>MWrite\<close>), to the
  timers, the task queue, the dispatch layer and the handlers. The calls are recorded in order.
  A pointer to a command that was released is a list whose end dangles; following it is \<open>None\<close>.
\<close>

section \<open>State\<close>

text \<open>The settings the module reads. \<open>resultCodeFormat\<close> is true for the verbose format (ATV1),
  \<open>resultCodePresent\<close> for no result codes at all (ATQ1, the value 1 of the code).\<close>

record at_setting =
  nS3 :: u8
  nS4 :: u8
  resultCodeFormat :: bool
  resultCodePresent :: bool
  cmee :: u8
  crc_ext :: bool

text \<open>What a handler is given: the text of the parameters, the parameters, and the data of a prompt.\<close>

record AT_CMD_PARA =
  pa_type :: AT_CMD_TYPE_T
  pPara :: bytes
  pa_params :: "AT_COMMAND_PARAM_T list"
  pExData :: "bytes option"

datatype mod_call =
    Eng eng_op
  | MWrite bytes
  | MDirectWrite bytes
  | ScheduleNext
  | StartAsyncTimer u32
  | MKillTimer
  | RunHandler string AT_CMD_PARA
  | MFree "freed_block list"
  | EndDataMode | SetDataMode | SetCmdMode | EscapeTransparent
  | DelWaitingEvents
  | PostWrite bytes

datatype AT_DATA_STATE_T = AT_PPP_STATE_END | AT_PPP_STATE_START | AT_PPP_STATE_ESCAPE | AT_PPP_STATE_RESUME

abbreviation (input) AT_CMD_PARA_SIZE :: nat where "AT_CMD_PARA_SIZE \<equiv> 1024"
abbreviation (input) AT_RSP_STR_LEN :: nat where "AT_RSP_STR_LEN \<equiv> 2048"

text \<open>\<open>mod_freed\<close> is not a field of the code but says in which state its memory is: the pointer \<open>next\<close> of
  the last command in the list points to a command that was released, where it is otherwise NULL.\<close>

record AT_ModuleInfo =
  firstInfoText :: bool
  mod_cmds :: "AT_COMMAND_T list"
  mod_freed :: bool
  mod_param :: bytes
  cmssNum :: int
  gPppState :: AT_DATA_STATE_T
  mod_calls :: "mod_call list"

definition mcall :: "mod_call \<Rightarrow> AT_ModuleInfo \<Rightarrow> AT_ModuleInfo" where
  "mcall c s = s\<lparr>mod_calls := mod_calls s @ [c]\<rparr>"

definition cmds_null :: "AT_ModuleInfo \<Rightarrow> bool" where
  "cmds_null s \<longleftrightarrow> mod_cmds s = [] \<and> \<not> mod_freed s"

text \<open>The command engine tests the pointer \<open>th->module.cmds\<close> of the module, which both objects share in the
  code. In the model the engine is a record of its own and has the outcome of that test as its field
  \<open>cmds_pending\<close>: writing the pointer in the module sets it. This is the assignment
  to the shared field and no call that the code makes.\<close>

definition tell_cmds :: "AT_ModuleInfo \<Rightarrow> AT_ModuleInfo" where
  "tell_cmds s = mcall (Eng (Op_SetCmds (\<not> cmds_null s))) s"

section \<open>The list of commands\<close>

definition pop_front :: "AT_ModuleInfo \<Rightarrow> (AT_COMMAND_T option \<times> AT_ModuleInfo) option" where
  "pop_front s =
     (case at_CmdlistPopFront (mod_cmds s) of
        (None, _) \<Rightarrow> if mod_freed s then None else Some (None, s)
      | (Some c, cs) \<Rightarrow> Some (Some c, tell_cmds (s\<lparr>mod_cmds := cs\<rparr>)))"

definition free_cmd :: "AT_COMMAND_T option \<Rightarrow> AT_ModuleInfo \<Rightarrow> AT_ModuleInfo" where
  "free_cmd c s = (case c of None \<Rightarrow> s | Some c \<Rightarrow> mcall (MFree (at_CmdlistFree c)) s)"

definition free_all :: "AT_ModuleInfo \<Rightarrow> AT_ModuleInfo option" where
  "free_all s =
     (if mod_freed s then None
      else Some (tell_cmds (mcall (MFree (at_CmdlistFreeAll (mod_cmds s))) s\<lparr>mod_cmds := []\<rparr>)))"

text \<open>The commands behind the first one are released, and the first one keeps its pointer to them.\<close>

definition at_CmdClearRemainCmds :: "AT_ModuleInfo \<Rightarrow> AT_ModuleInfo option" where
  "at_CmdClearRemainCmds s =
     (if cmds_null s then Some s
      else case mod_cmds s of
        [] \<Rightarrow> None
      | c # cs \<Rightarrow>
          if mod_freed s then None
          else Some (mcall (MFree (at_CmdlistFreeAll cs)) s\<lparr>mod_cmds := [c], mod_freed := cs \<noteq> []\<rparr>))"

definition AT_KillAsyncTimerMux :: "AT_ModuleInfo \<Rightarrow> AT_ModuleInfo" where
  "AT_KillAsyncTimerMux s = mcall MKillTimer s"

definition AT_SetAsyncTimerMux :: "u32 \<Rightarrow> AT_ModuleInfo \<Rightarrow> AT_ModuleInfo option" where
  "AT_SetAsyncTimerMux nElapse s =
     (if cmds_null s then Some s
      else if mod_cmds s = [] then None
      else Some (mcall (StartAsyncTimer ((if nElapse = 0 then 40 else nElapse) * 1000)) s))"

definition at_ModuleScheduleNextCommand :: "AT_ModuleInfo \<Rightarrow> AT_ModuleInfo" where
  "at_ModuleScheduleNextCommand s = mcall ScheduleNext s"

definition at_CmdFinalHandle :: "bool \<Rightarrow> AT_ModuleInfo \<Rightarrow> AT_ModuleInfo option" where
  "at_CmdFinalHandle ok s = do {
     let s = AT_KillAsyncTimerMux s;
     s \<leftarrow> (if ok then do { (c, s) \<leftarrow> pop_front s; Some (free_cmd c s) } else free_all s);
     let s = mcall (Eng Op_SetLine) s;
     Some (if \<not> cmds_null s then at_ModuleScheduleNextCommand s else s) }"

definition at_ModuleClearCmdList :: "AT_ModuleInfo \<Rightarrow> AT_ModuleInfo option" where
  "at_ModuleClearCmdList s = map_option (mcall (Eng Op_SetLine)) (free_all s)"

definition at_ModuleClearCurCmd :: "AT_ModuleInfo \<Rightarrow> AT_ModuleInfo option" where
  "at_ModuleClearCurCmd s = do {
     (c, s) \<leftarrow> pop_front (AT_KillAsyncTimerMux s);
     Some (mcall (Eng Op_SetLine) (free_cmd c s)) }"

definition finished :: "AT_ModuleInfo \<Rightarrow> AT_ModuleInfo" where
  "finished s = mcall (Eng Op_Finished) s"

section \<open>Texts and result codes\<close>

definition crlf :: "at_setting \<Rightarrow> bytes" where
  "crlf S = [nS3 S, nS4 S]"

definition first_crlf :: "at_setting \<Rightarrow> AT_ModuleInfo \<Rightarrow> AT_ModuleInfo" where
  "first_crlf S s =
     (if firstInfoText s \<and> resultCodeFormat S then mcall (MWrite (crlf S)) s else s)\<lparr>firstInfoText := False\<rparr>"

text \<open>The texts are given with their lengths, so the number of bytes written is that of the text.\<close>

definition at_CmdRespInfoNText :: "at_setting \<Rightarrow> bytes option \<Rightarrow> AT_ModuleInfo \<Rightarrow> AT_ModuleInfo" where
  "at_CmdRespInfoNText S t s =
     (case t of None \<Rightarrow> s
      | Some t \<Rightarrow> if t = [] then s else mcall (MWrite (crlf S)) (mcall (MWrite t) (first_crlf S s)))"

definition at_CmdRespInfoNTextBegin :: "at_setting \<Rightarrow> bytes option \<Rightarrow> AT_ModuleInfo \<Rightarrow> AT_ModuleInfo" where
  "at_CmdRespInfoNTextBegin S t s =
     (case t of None \<Rightarrow> s
      | Some t \<Rightarrow> let s = first_crlf S s in if t \<noteq> [] then mcall (MWrite t) s else s)"

definition at_CmdRespInfoNTextEnd :: "at_setting \<Rightarrow> bytes option \<Rightarrow> AT_ModuleInfo \<Rightarrow> AT_ModuleInfo" where
  "at_CmdRespInfoNTextEnd S t s =
     (case t of None \<Rightarrow> s
      | Some t \<Rightarrow> mcall (MWrite (crlf S)) (if t \<noteq> [] then mcall (MWrite t) s else s))"

text \<open>The same for texts that end with a NUL.\<close>

definition with_strlen :: "(bytes option \<Rightarrow> AT_ModuleInfo \<Rightarrow> AT_ModuleInfo) \<Rightarrow> bytes \<Rightarrow> AT_ModuleInfo \<Rightarrow> AT_ModuleInfo option" where
  "with_strlen f t s = do { n \<leftarrow> c_strlen t; Some (f (Some (take n t)) s) }"

definition at_CmdRespInfoText :: "at_setting \<Rightarrow> bytes \<Rightarrow> AT_ModuleInfo \<Rightarrow> AT_ModuleInfo option" where
  "at_CmdRespInfoText S = with_strlen (at_CmdRespInfoNText S)"

definition at_CmdRespInfoTextBegin :: "at_setting \<Rightarrow> bytes \<Rightarrow> AT_ModuleInfo \<Rightarrow> AT_ModuleInfo option" where
  "at_CmdRespInfoTextBegin S = with_strlen (at_CmdRespInfoNTextBegin S)"

definition at_CmdRespInfoTextEnd :: "at_setting \<Rightarrow> bytes \<Rightarrow> AT_ModuleInfo \<Rightarrow> AT_ModuleInfo option" where
  "at_CmdRespInfoTextEnd S = with_strlen (at_CmdRespInfoNTextEnd S)"

text \<open>The code in the array \<open>resp\<close> of 32 bytes.\<close>

definition at_CmdRespOutputResultCode :: "at_setting \<Rightarrow> int \<Rightarrow> AT_ModuleInfo \<Rightarrow> AT_ModuleInfo option" where
  "at_CmdRespOutputResultCode S code s =
     (if resultCodePresent S then Some s
      else do {
        t \<leftarrow> (if \<not> resultCodeFormat S then Some (decimal (nat (code mod 2 ^ 32)) @ [nS3 S])
             else do { t \<leftarrow> at_GetResultCodeInfo code; Some (crlf S @ t @ crlf S) });
        resp \<leftarrow> wr_block (replicate 32 0) 0 t;
        Some (mcall (MWrite (take (length t) resp)) s) })"

definition at_CmdRespOK :: "at_setting \<Rightarrow> AT_ModuleInfo \<Rightarrow> AT_ModuleInfo option" where
  "at_CmdRespOK S s = do {
     s \<leftarrow> at_CmdFinalHandle True s;
     s \<leftarrow> (if cmds_null s then at_CmdRespOutputResultCode S 0 s else Some s);
     Some (finished s) }"

definition write_line :: "at_setting \<Rightarrow> bytes list \<Rightarrow> AT_ModuleInfo \<Rightarrow> AT_ModuleInfo" where
  "write_line S ts s = mcall (MWrite (crlf S)) (fold (mcall \<circ> MWrite) ts (mcall (MWrite (crlf S)) s))"

definition at_CmdRespOKText :: "at_setting \<Rightarrow> bytes \<Rightarrow> AT_ModuleInfo \<Rightarrow> AT_ModuleInfo option" where
  "at_CmdRespOKText S t s = do {
     s \<leftarrow> at_CmdFinalHandle True s;
     Some (finished (write_line S [t] s)) }"

definition at_CmdRespErrorCode :: "at_setting \<Rightarrow> int \<Rightarrow> AT_ModuleInfo \<Rightarrow> AT_ModuleInfo option" where
  "at_CmdRespErrorCode S code s = do {
     s \<leftarrow> at_CmdFinalHandle False s;
     s \<leftarrow> at_CmdRespOutputResultCode S code s;
     Some (finished s) }"

definition at_CmdRespError :: "at_setting \<Rightarrow> AT_ModuleInfo \<Rightarrow> AT_ModuleInfo option" where
  "at_CmdRespError S s = map_option finished (at_CmdRespErrorCode S 4 s)"

definition at_CmdRespErrorText :: "at_setting \<Rightarrow> bytes \<Rightarrow> AT_ModuleInfo \<Rightarrow> AT_ModuleInfo option" where
  "at_CmdRespErrorText S t s = do {
     s \<leftarrow> at_CmdFinalHandle False s;
     Some (finished (write_line S [t] s)) }"

definition at_CmdRespIntermCode :: "at_setting \<Rightarrow> int \<Rightarrow> AT_ModuleInfo \<Rightarrow> AT_ModuleInfo option" where
  "at_CmdRespIntermCode = at_CmdRespOutputResultCode"

definition at_CmdRespIntermText :: "bytes \<Rightarrow> AT_ModuleInfo \<Rightarrow> AT_ModuleInfo" where
  "at_CmdRespIntermText t s = mcall (MWrite t) s"

definition at_CmdRespOutputText :: "bytes option \<Rightarrow> AT_ModuleInfo \<Rightarrow> AT_ModuleInfo" where
  "at_CmdRespOutputText t s = (case t of None \<Rightarrow> s | Some t \<Rightarrow> mcall (MWrite t) s)"

definition at_CmdRespOutputNText :: "bytes option \<Rightarrow> AT_ModuleInfo \<Rightarrow> AT_ModuleInfo" where
  "at_CmdRespOutputNText t s =
     (case t of None \<Rightarrow> s | Some t \<Rightarrow> if t = [] then s else mcall (MWrite t) s)"

definition at_CmdRespOutputPrompt :: "at_setting \<Rightarrow> AT_ModuleInfo \<Rightarrow> AT_ModuleInfo" where
  "at_CmdRespOutputPrompt S s = mcall (MWrite (crlf S @ [0x3e, 0x20])) s"

text \<open>A number in the array \<open>str\<close> of 256 bytes, or its text.\<close>

definition write_cme ::
  "at_setting \<Rightarrow> string \<Rightarrow> (int \<Rightarrow> bytes option) \<Rightarrow> int \<Rightarrow> AT_ModuleInfo \<Rightarrow> AT_ModuleInfo option" where
  "write_cme S head info code s =
     (if cmee S = 1 then do {
        str \<leftarrow> wr_block (replicate 256 0) 0 (ascii head @ int_text code @ [0]);
        Some (write_line S [cstr str] s) }
      else do { t \<leftarrow> info code; Some (write_line S [ascii head, t] s) })"

definition at_CmdRespCmeError :: "at_setting \<Rightarrow> int \<Rightarrow> AT_ModuleInfo \<Rightarrow> AT_ModuleInfo option" where
  "at_CmdRespCmeError S code s = do {
     s \<leftarrow> at_CmdFinalHandle False s;
     s \<leftarrow> (if resultCodePresent S then Some s
          else if cmee S = 0 then at_CmdRespOutputResultCode S 4 s
          else write_cme S ''+CME ERROR: '' at_GetCmeCodeInfo code s);
     Some (finished s) }"

definition at_CmdRespCmsError :: "at_setting \<Rightarrow> int \<Rightarrow> AT_ModuleInfo \<Rightarrow> AT_ModuleInfo option" where
  "at_CmdRespCmsError S code s = do {
     s \<leftarrow> at_CmdFinalHandle False s;
     s \<leftarrow> (if resultCodePresent S then Some s
          else if cmee S = 0 then at_CmdRespErrorCode S 4 s
          else write_cme S ''+CMS ERROR: '' at_GetCmsCodeInfo code s);
     Some (finished s) }"

section \<open>Unsolicited results\<close>

text \<open>The switch that sends them to all channels of the multiplexer is not set in this source.\<close>

definition at_CmdRespUrcCode :: "at_setting \<Rightarrow> int \<Rightarrow> AT_ModuleInfo \<Rightarrow> AT_ModuleInfo option" where
  "at_CmdRespUrcCode S code s =
     (if resultCodePresent S then Some s else at_CmdRespOutputResultCode S code s)"

definition at_CmdRespUrcNText :: "at_setting \<Rightarrow> bytes \<Rightarrow> AT_ModuleInfo \<Rightarrow> AT_ModuleInfo option" where
  "at_CmdRespUrcNText S t s =
     (if resultCodePresent S then Some s
      else do {
        let g_rspStrEx = replicate (AT_RSP_STR_LEN + 4) 0;
        b \<leftarrow> wr_block g_rspStrEx 0 (crlf S);
        b \<leftarrow> wr_block b 2 t;
        b \<leftarrow> wr_block b (2 + length t) (crlf S);
        Some (mcall (MWrite (take (length t + 4) b)) s) })"

definition at_CmdRespUrcText :: "at_setting \<Rightarrow> bytes \<Rightarrow> AT_ModuleInfo \<Rightarrow> AT_ModuleInfo option" where
  "at_CmdRespUrcText S t s = do { n \<leftarrow> c_strlen t; at_CmdRespUrcNText S (take n t) s }"

text \<open>
  The channel for unsolicited results: \<open>chans\<close> says for a channel that exists whether it is in
  multiplexer mode, and then the one behind it is meant. \<open>mods\<close> are the modules of the channels.
\<close>

definition urc_target :: "(int \<Rightarrow> bool option) \<Rightarrow> int \<Rightarrow> int option" where
  "urc_target chans urcChannel =
     (case chans urcChannel of
        None \<Rightarrow> None
      | Some cmux \<Rightarrow> if cmux then (case chans (urcChannel + 1) of None \<Rightarrow> None | Some _ \<Rightarrow> Some (urcChannel + 1))
                    else Some urcChannel)"

type_synonym modules = "int \<Rightarrow> AT_ModuleInfo option"

definition to_urc ::
  "(AT_ModuleInfo \<Rightarrow> AT_ModuleInfo option) \<Rightarrow> (int \<Rightarrow> bool option) \<Rightarrow> int \<Rightarrow> modules \<Rightarrow> modules option" where
  "to_urc f chans urcChannel mods =
     (case urc_target chans urcChannel of
        None \<Rightarrow> Some mods
      | Some ch \<Rightarrow> do { s \<leftarrow> mods ch; s \<leftarrow> f s; Some (mods(ch \<mapsto> s)) })"

definition at_CmdReportUrcCode :: "at_setting \<Rightarrow> int \<Rightarrow> (int \<Rightarrow> bool option) \<Rightarrow> int \<Rightarrow> modules \<Rightarrow> modules option" where
  "at_CmdReportUrcCode S code = to_urc (at_CmdRespUrcCode S code)"

definition at_CmdReportUrcText :: "at_setting \<Rightarrow> bytes \<Rightarrow> (int \<Rightarrow> bool option) \<Rightarrow> int \<Rightarrow> modules \<Rightarrow> modules option" where
  "at_CmdReportUrcText S t = to_urc (at_CmdRespUrcNText S t)"

definition at_CmdReportOutputText :: "bytes option \<Rightarrow> (int \<Rightarrow> bool option) \<Rightarrow> int \<Rightarrow> modules \<Rightarrow> modules option" where
  "at_CmdReportOutputText t = to_urc (Some \<circ> at_CmdRespOutputText t)"

definition at_CmdRingInd :: "at_setting \<Rightarrow> (int \<Rightarrow> bool option) \<Rightarrow> int \<Rightarrow> modules \<Rightarrow> modules option" where
  "at_CmdRingInd S =
     (if crc_ext S then at_CmdReportUrcText S (ascii ''+CRING: <voice>'') else at_CmdReportUrcCode S 2)"

section \<open>Running commands\<close>

text \<open>The parameters joined by commas, in the buffer of the module.\<close>

fun join_params :: "AT_COMMAND_PARAM_T list \<Rightarrow> nat \<Rightarrow> nat \<Rightarrow> bytes \<Rightarrow> (nat \<times> bytes) option" where
  "join_params [] n paramlen m = Some (paramlen, m)"
| "join_params (p # ps) n paramlen m = do {
     (paramlen, m) \<leftarrow> (if n \<noteq> 0 then map_option (Pair (paramlen + 1)) (wr m paramlen 0x2c) else Some (paramlen, m));
     v \<leftarrow> rd_block (par_value p) 0 (unat (par_length p));
     m \<leftarrow> wr_block m paramlen v;
     join_params ps (n + 1) (paramlen + unat (par_length p)) m }"

definition command_para :: "AT_COMMAND_T \<Rightarrow> bytes option \<Rightarrow> bytes \<Rightarrow> (bytes \<times> AT_CMD_PARA) option" where
  "command_para cmd data m = do {
     (paramlen, m) \<leftarrow> join_params (cmd_params cmd) 0 0 m;
     m \<leftarrow> wr m paramlen 0;
     Some (m, \<lparr>pa_type = cmd_type cmd, pPara = cstr m, pa_params = cmd_params cmd, pExData = data\<rparr>) }"

definition at_ModuleRunCommand :: "AT_ModuleInfo \<Rightarrow> AT_ModuleInfo option" where
  "at_ModuleRunCommand s =
     (if cmds_null s then Some s
      else do {
        cmd \<leftarrow> rd (mod_cmds s) 0;
        (m, para) \<leftarrow> command_para cmd None (mod_param s);
        Some (mcall (RunHandler (pFunc (cmd_desc cmd)) para) (s\<lparr>mod_param := m, firstInfoText := True\<rparr>)) })"

definition at_ModuleRunCommandExtra :: "bytes \<Rightarrow> AT_ModuleInfo \<Rightarrow> AT_ModuleInfo option" where
  "at_ModuleRunCommandExtra data s =
     (if cmds_null s then Some (mcall (Eng Op_SetLine) s)
      else do {
        cmd \<leftarrow> rd (mod_cmds s) 0;
        (m, para) \<leftarrow> command_para cmd (Some data) (mod_param s);
        Some (mcall (RunHandler (pFunc (cmd_desc cmd)) para) (s\<lparr>mod_param := m\<rparr>)) })"

text \<open>The line is parsed into the list of the module, whatever it was before. \<open>parse\<close> is \<open>at_ParseLine\<close>
  with the grammar and the table.\<close>

definition at_ModuleProcessLine ::
  "(bytes \<Rightarrow> (int \<times> AT_COMMAND_T list) option) \<Rightarrow> bytes option \<Rightarrow> AT_ModuleInfo \<Rightarrow> (int \<times> AT_ModuleInfo) option" where
  "at_ModuleProcessLine parse pBuf s =
     (case pBuf of None \<Rightarrow> Some (-1, s)
      | Some line \<Rightarrow> do {
          (result, cmds) \<leftarrow> parse line;
          let s = tell_cmds (s\<lparr>mod_cmds := cmds, mod_freed := False\<rparr>);
          if result \<noteq> 0 then map_option (Pair result) (free_all s)
          else case mod_cmds s of
            [] \<Rightarrow> Some (0, s)
          | c # _ \<Rightarrow> do {
              d \<leftarrow> AT_StrCaselessCmp (ascii ''+CMMS'' @ [0]) (pName (cmd_desc c) @ [0]);
              Some (0, if d = 0 then s\<lparr>cmssNum := int (at_CmdlistCount (mod_cmds s)) - 1\<rparr> else s) } })"

text \<open>The result of a command, for the engine it names.\<close>

definition at_ModuleNotifyResult :: "at_setting \<Rightarrow> AT_CMD_RESULT option \<Rightarrow> AT_ModuleInfo \<Rightarrow> (int \<times> AT_ModuleInfo) option" where
  "at_ModuleNotifyResult S r s =
     (case r of None \<Rightarrow> Some (-1, s)
      | Some r \<Rightarrow> do {
          t \<leftarrow> rd_block (pData r) 0 (unat (nDataSize r));
          let info = at_CmdRespInfoNText S (Some t);
          let v = uReturnValue r;
          s \<leftarrow> (if v = 2 then
                 let s = info s in
                 if nErrorType r = 0 then at_CmdRespCmeError S (sint (uErrorCode r)) s
                 else if nErrorType r = 1 then at_CmdRespCmsError S (sint (uErrorCode r)) s
                 else at_CmdRespErrorCode S (sint (uResultCode r)) s
               else if v = 0 then at_CmdRespOK S (info s)
               else if v = 1 then map_option info (AT_SetAsyncTimerMux (nDelayTime r) s)
               else if v = 4 \<or> v = 6 then
                 map_option (mcall (Eng Op_SetPrompt) \<circ> info) (AT_SetAsyncTimerMux (nDelayTime r) s)
               else if v = 3 then Some (info s)
               else if v = 5 then at_CmdRespUrcText S (pData r) s
               else Some s);
          Some (0, s) })"

section \<open>Data mode, time-outs and the rest\<close>

datatype AT_MODE_SWITCH_CAUSE_T =
    AT_CMD_MODE_SWITCH_CC_RELEASE_CALL | AT_CMD_MODE_SWITCH_CC_SPEECH_IND
  | AT_CMD_MODE_SWITCH_CC_ACCEPT_CALL | AT_CMD_MODE_SWITCH_CC_INITIATE_SPEECH_CALL
  | AT_CMD_MODE_SWITCH_ATH
  | AT_MODE_SWITCH_DATA_START | AT_MODE_SWITCH_DATA_END
  | AT_MODE_SWITCH_DATA_ESCAPE | AT_MODE_SWITCH_DATA_RESUME

text \<open>\<open>tt\<close>: whether a transparent TCP connection is open.\<close>

definition at_ModuleModeSwitch ::
  "at_setting \<Rightarrow> bool \<Rightarrow> AT_MODE_SWITCH_CAUSE_T \<Rightarrow> AT_ModuleInfo \<Rightarrow> AT_ModuleInfo option" where
  "at_ModuleModeSwitch S tt cause s =
     (case cause of
        AT_MODE_SWITCH_DATA_END \<Rightarrow> do {
          let s = mcall EndDataMode s;
          s \<leftarrow> (if tt then map_option (mcall (Eng Op_SetLine) \<circ> finished) (at_CmdFinalHandle True s)
               else at_CmdRespOK S s);
          Some (s\<lparr>gPppState := AT_PPP_STATE_END\<rparr>) }
      | AT_MODE_SWITCH_DATA_START \<Rightarrow> do {
          s \<leftarrow> at_CmdClearRemainCmds s;
          s \<leftarrow> at_CmdRespIntermCode S 1 s;
          Some ((mcall SetDataMode s)\<lparr>gPppState := AT_PPP_STATE_START\<rparr>) }
      | AT_MODE_SWITCH_DATA_ESCAPE \<Rightarrow> do {
          let s = mcall (Eng Op_SetLine) (mcall SetCmdMode s);
          s \<leftarrow> at_CmdRespOK S (if tt then mcall EscapeTransparent s else s);
          Some (s\<lparr>gPppState := AT_PPP_STATE_ESCAPE\<rparr>) }
      | AT_MODE_SWITCH_DATA_RESUME \<Rightarrow> do {
          s \<leftarrow> at_CmdRespIntermCode S 1 s;
          Some ((mcall SetDataMode s)\<lparr>gPppState := AT_PPP_STATE_RESUME\<rparr>) }
      | _ \<Rightarrow> Some s)"

text \<open>The SIM of a channel: \<open>dlci\<close> is negative when it is not one of a multiplexer.\<close>

definition at_ModuleGetChannelSimID :: "int \<Rightarrow> nat" where
  "at_ModuleGetChannelSimID dlci = (if dlci < 0 then 0 else if dlci < 10 div 2 then 0 else 1)"

definition at_ModuleGetSimDlci :: "nat \<Rightarrow> int" where
  "at_ModuleGetSimDlci sim = (if sim = 0 then 0 else 10 div 2)"

text \<open>The flags of the SIMs; there is one SIM.\<close>

record AT_GLOBAL_T =
  smsReady :: bool
  pbkReady :: bool
  copsFlag :: "bool list"
  urcChannel :: int

definition gAtGlobal :: AT_GLOBAL_T where
  "gAtGlobal = \<lparr>smsReady = False, pbkReady = False, copsFlag = [False], urcChannel = 0\<rparr>"

definition at_ModuleSetCopsFlag :: "nat \<Rightarrow> bool \<Rightarrow> AT_GLOBAL_T \<Rightarrow> AT_GLOBAL_T option" where
  "at_ModuleSetCopsFlag sim flag g = do { f \<leftarrow> wr (copsFlag g) sim flag; Some (g\<lparr>copsFlag := f\<rparr>) }"

definition at_ModuleGetCopsFlag :: "nat \<Rightarrow> AT_GLOBAL_T \<Rightarrow> bool option" where
  "at_ModuleGetCopsFlag sim g = rd (copsFlag g) sim"

definition at_SetUrcChannel :: "int \<Rightarrow> AT_GLOBAL_T \<Rightarrow> bool \<times> AT_GLOBAL_T" where
  "at_SetUrcChannel channel g = (True, g\<lparr>urcChannel := channel\<rparr>)"

definition at_ModuleHandleTimeout ::
  "at_setting \<Rightarrow> int \<Rightarrow> AT_ModuleInfo \<times> AT_GLOBAL_T \<Rightarrow> (AT_ModuleInfo \<times> AT_GLOBAL_T) option" where
  "at_ModuleHandleTimeout S dlci = (\<lambda>(s, g). do {
     let s = AT_KillAsyncTimerMux s;
     g \<leftarrow> at_ModuleSetCopsFlag (at_ModuleGetChannelSimID dlci) False g;
     let s = mcall DelWaitingEvents (write_line S [ascii ''COMMAND NO RESPONSE!''] s);
     s \<leftarrow> at_ModuleClearCmdList s;
     Some (mcall (Eng Op_SetLine) s, g) })"

definition AT_Clear_CurCMD :: "AT_ModuleInfo \<Rightarrow> AT_ModuleInfo option" where
  "AT_Clear_CurCMD = at_ModuleClearCurCmd"

definition AT_GetCMSSNum :: "AT_ModuleInfo \<Rightarrow> u8" where
  "AT_GetCMSSNum s = of_int (cmssNum s)"

definition AT_SetCMSSNum :: "u8 \<Rightarrow> AT_ModuleInfo \<Rightarrow> AT_ModuleInfo" where
  "AT_SetCMSSNum num s = s\<lparr>cmssNum := uint num\<rparr>"

definition AT_IsAsynCmdAvailable :: "bytes \<Rightarrow> AT_ModuleInfo \<Rightarrow> bool option" where
  "AT_IsAsynCmdAvailable name s =
     (if cmds_null s then Some False
      else do { c \<leftarrow> rd (mod_cmds s) 0; Some (name = pName (cmd_desc c)) })"

text \<open>The data is copied and written later by the task; the two allocations are not checked.\<close>

definition AT_AsyncWriteUart :: "bool \<Rightarrow> bool \<Rightarrow> bytes \<Rightarrow> AT_ModuleInfo \<Rightarrow> AT_ModuleInfo option" where
  "AT_AsyncWriteUart mem1 mem2 data s = (if mem1 \<and> mem2 then Some (mcall (PostWrite data) s) else None)"

definition write_uart_at_AT :: "bytes \<Rightarrow> AT_ModuleInfo \<Rightarrow> AT_ModuleInfo" where
  "write_uart_at_AT data s = mcall (MWrite data) s"

definition AT_WriteUart :: "bytes \<Rightarrow> AT_ModuleInfo \<Rightarrow> AT_ModuleInfo" where
  "AT_WriteUart data s = mcall (MDirectWrite data) s"

end
