(* ===== verification/At_Module_Line.thy ===== *)
theory At_Module_Line
  imports At_Module
begin

text \<open>
  A line of commands from the first handler to the last answer: which handlers run, what is
  written, what is released and how the engine is left.
\<close>

section \<open>What calls show\<close>

definition ran :: "mod_call list \<Rightarrow> string list" where
  "ran k = concat (map (\<lambda>c. case c of RunHandler f _ \<Rightarrow> [f] | _ \<Rightarrow> []) k)"

definition text_out :: "mod_call list \<Rightarrow> bytes" where
  "text_out k = concat (map (\<lambda>c. case c of MWrite b \<Rightarrow> b | _ \<Rightarrow> []) k)"

definition blocks_freed :: "mod_call list \<Rightarrow> freed_block list" where
  "blocks_freed k = concat (map (\<lambda>c. case c of MFree b \<Rightarrow> b | _ \<Rightarrow> []) k)"

text \<open>The engine when the calls are made.\<close>

definition apply_call :: "mod_call \<Rightarrow> AT_CMD_ENGINE_T \<Rightarrow> AT_CMD_ENGINE_T" where
  "apply_call c e = (case c of Eng p \<Rightarrow> exec_op p e | MWrite b \<Rightarrow> ccall (CmdWrite b) e
     | MKillTimer \<Rightarrow> ccall KillAsyncTimer e | _ \<Rightarrow> e)"

lemma ran_simps [simp]: "ran [] = []" "ran (c # k) = (case c of RunHandler f _ \<Rightarrow> [f] | _ \<Rightarrow> []) @ ran k"
  "ran (k @ k') = ran k @ ran k'"
  by (simp_all add: ran_def)

lemma text_out_simps [simp]: "text_out [] = []" "text_out (c # k) = (case c of MWrite b \<Rightarrow> b | _ \<Rightarrow> []) @ text_out k"
  "text_out (k @ k') = text_out k @ text_out k'"
  by (simp_all add: text_out_def)

lemma blocks_freed_simps [simp]: "blocks_freed [] = []" "blocks_freed (c # k) = (case c of MFree b \<Rightarrow> b | _ \<Rightarrow> []) @ blocks_freed k"
  "blocks_freed (k @ k') = blocks_freed k @ blocks_freed k'"
  by (simp_all add: blocks_freed_def)

lemma mcall_sel [simp]:
  "mod_calls (mcall c s) = mod_calls s @ [c]" "mod_cmds (mcall c s) = mod_cmds s" "mod_freed (mcall c s) = mod_freed s"
  "mod_param (mcall c s) = mod_param s" "firstInfoText (mcall c s) = firstInfoText s" "cmds_null (mcall c s) = cmds_null s"
  by (simp_all add: mcall_def cmds_null_def)

section \<open>Parameters\<close>

definition par_ok :: "AT_COMMAND_PARAM_T \<Rightarrow> bool" where
  "par_ok p \<longleftrightarrow> unat (par_length p) \<le> length (par_value p)"

definition par_text :: "AT_COMMAND_PARAM_T \<Rightarrow> bytes" where
  "par_text p = take (unat (par_length p)) (par_value p)"

fun joined :: "nat \<Rightarrow> AT_COMMAND_PARAM_T list \<Rightarrow> bytes" where
  "joined n [] = []"
| "joined n (p # ps) = (if n \<noteq> 0 then [0x2c] else []) @ par_text p @ joined (n + 1) ps"

lemma join_params_result:
  assumes "list_all par_ok ps"
  shows "join_params ps n (length pre) (pre @ rest) =
    (if length (joined n ps) \<le> length rest
     then Some (length pre + length (joined n ps), pre @ joined n ps @ drop (length (joined n ps)) rest) else None)"
  using assms
proof (induction ps arbitrary: n pre rest)
  case (Cons p ps)
  let ?c = "if n \<noteq> 0 then [0x2c :: u8] else []" and ?v = "par_text p"
  have v: "rd_block (par_value p) 0 (unat (par_length p)) = Some ?v" "length ?v = unat (par_length p)"
    using Cons.prems by (simp_all add: par_ok_def rd_block_def par_text_def)
  have step: "join_params (p # ps) n (length pre) (pre @ rest) =
      (if length (?c @ ?v) \<le> length rest
       then join_params ps (n + 1) (length (pre @ ?c @ ?v)) ((pre @ ?c @ ?v) @ drop (length (?c @ ?v)) rest)
       else None)"
  proof (cases "length ?c \<le> length rest")
    case False
    then show ?thesis by (cases rest; cases n) (auto simp: wr_def)
  next
    case True
    then have "(if n \<noteq> 0 then map_option (Pair (length pre + 1)) (wr (pre @ rest) (length pre) 0x2c) else Some (length pre, pre @ rest)) =
        Some (length (pre @ ?c), (pre @ ?c) @ drop (length ?c) rest)"
      by (cases rest) (auto simp: wr_def list_update_append split: if_splits)
    moreover have "wr_block ((pre @ ?c) @ drop (length ?c) rest) (length (pre @ ?c)) ?v =
        (if length ?v \<le> length rest - length ?c then Some ((pre @ ?c @ ?v) @ drop (length (?c @ ?v)) rest) else None)"
      using True by (auto simp: wr_block_def add.commute)
    ultimately show ?thesis using v True by auto
  qed
  have "length (joined n (p # ps)) \<le> length rest \<longleftrightarrow>
      length (?c @ ?v) \<le> length rest \<and> length (joined (n + 1) ps) \<le> length (drop (length (?c @ ?v)) rest)"
    by auto
  then show ?case using Cons.IH [of "n + 1" "pre @ ?c @ ?v" "drop (length (?c @ ?v)) rest"] Cons.prems
    unfolding step by (auto simp: add.commute add.left_commute)
qed simp

text \<open>What the handler of a command is given.\<close>

definition para_of :: "AT_COMMAND_T \<Rightarrow> bytes option \<Rightarrow> AT_CMD_PARA" where
  "para_of c data = \<lparr>pa_type = cmd_type c, pPara = takeWhile (\<lambda>c. c \<noteq> 0) (joined 0 (cmd_params c)),
     pa_params = cmd_params c, pExData = data\<rparr>"

lemma cstr_joined: "cstr (t @ 0 # r) = takeWhile (\<lambda>c. c \<noteq> 0) t"
  unfolding cstr_def by (induction t) auto

lemma command_para_result:
  assumes "list_all par_ok (cmd_params c)" "length m = AT_CMD_PARA_SIZE + 1"
  shows "if length (joined 0 (cmd_params c)) \<le> AT_CMD_PARA_SIZE
    then \<exists>m'. command_para c data m = Some (m', para_of c data) \<and> length m' = AT_CMD_PARA_SIZE + 1
    else command_para c data m = None"
proof -
  let ?j = "joined 0 (cmd_params c)"
  have j: "join_params (cmd_params c) 0 0 m =
      (if length ?j \<le> length m then Some (length ?j, ?j @ drop (length ?j) m) else None)"
    using join_params_result [OF assms(1), of 0 "[]" m] by simp
  show ?thesis
  proof (cases "length ?j \<le> AT_CMD_PARA_SIZE")
    case True
    then have "wr (?j @ drop (length ?j) m) (length ?j) 0 = Some (?j @ 0 # drop (Suc (length ?j)) m)"
      using assms(2) by (simp add: wr_def list_update_append flip: Cons_nth_drop_Suc)
    then have "command_para c data m = Some (?j @ 0 # drop (Suc (length ?j)) m, para_of c data)"
      using j True assms(2) by (simp add: command_para_def para_of_def cstr_joined)
    then show ?thesis using True assms(2) by simp
  next
    case False
    then have "command_para c data m = None"
      using j assms(2) by (auto simp: command_para_def wr_def)
    then show ?thesis using False by simp
  qed
qed

text \<open>A module with the command \<open>c\<close> first in its list.\<close>

definition at_command :: "AT_COMMAND_T \<Rightarrow> AT_COMMAND_T list \<Rightarrow> AT_ModuleInfo \<Rightarrow> bool" where
  "at_command c cs s \<longleftrightarrow> mod_cmds s = c # cs \<and> \<not> mod_freed s \<and> length (mod_param s) = AT_CMD_PARA_SIZE + 1 \<and>
     list_all (\<lambda>c. list_all par_ok (cmd_params c)) (c # cs)"

lemma module_run_command:
  assumes "at_command c cs s" "length (joined 0 (cmd_params c)) \<le> AT_CMD_PARA_SIZE"
  shows "\<exists>m. at_ModuleRunCommand s = Some (mcall (RunHandler (pFunc (cmd_desc c)) (para_of c None))
      (s\<lparr>mod_param := m, firstInfoText := True\<rparr>)) \<and> length m = AT_CMD_PARA_SIZE + 1"
  using command_para_result [of c "mod_param s" None] assms
  by (auto simp: at_ModuleRunCommand_def at_command_def cmds_null_def rd_def)

text \<open>C6: the text of the parameters, joined by commas, is built in a buffer of 1025 bytes without a check:
  a command, also one that takes the data of a prompt, can be run exactly when the text has at
  most 1024 characters; a longer one, which a line of 5119 can hold, is written past the buffer.\<close>

theorem param_text_bound:
  assumes "at_command c cs s"
  shows "(at_ModuleRunCommand s \<noteq> None \<longleftrightarrow> length (joined 0 (cmd_params c)) \<le> AT_CMD_PARA_SIZE) \<and>
    (at_ModuleRunCommandExtra data s \<noteq> None \<longleftrightarrow> length (joined 0 (cmd_params c)) \<le> AT_CMD_PARA_SIZE)"
proof -
  have "list_all par_ok (cmd_params c)" "length (mod_param s) = AT_CMD_PARA_SIZE + 1" "rd (mod_cmds s) 0 = Some c" "\<not> cmds_null s"
    using assms by (simp_all add: at_command_def rd_def cmds_null_def)
  then show ?thesis
    using command_para_result [of c "mod_param s" None] command_para_result [of c "mod_param s" "Some data"]
    by (cases "length (joined 0 (cmd_params c)) \<le> AT_CMD_PARA_SIZE")
      (auto simp: at_ModuleRunCommand_def at_ModuleRunCommandExtra_def)
qed

text \<open>A command with one parameter of \<open>k\<close> digits.\<close>

definition long_command :: "nat \<Rightarrow> AT_COMMAND_T" where
  "long_command k = \<lparr>cmd_desc = cmd_entry ''+CSQ'' 0 ''AT_CmdFunc_CSQ'' 1, cmd_type = AT_CMD_SET,
     cmd_params = [\<lparr>par_type = AT_CMDPARAM_NUMBER, par_length = of_nat k, par_value = replicate k 0x31 @ [0]\<rparr>]\<rparr>"

definition module_with :: "AT_COMMAND_T list \<Rightarrow> AT_ModuleInfo" where
  "module_with cs = \<lparr>firstInfoText = False, mod_cmds = cs, mod_freed = False, mod_param = replicate 1025 0,
     cmssNum = 0, gPppState = AT_PPP_STATE_END, mod_calls = []\<rparr>"

lemma long_command_at:
  assumes "k < 2 ^ 16"
  shows "at_command (long_command k) [] (module_with [long_command k])"
    "length (joined 0 (cmd_params (long_command k))) = k"
proof -
  have "unat (of_nat k :: u16) = k" using assms by (simp add: unsigned_of_nat take_bit_nat_eq_self)
  then show "at_command (long_command k) [] (module_with [long_command k])"
    "length (joined 0 (cmd_params (long_command k))) = k"
    by (simp_all add: at_command_def module_with_def long_command_def par_ok_def par_text_def)
qed

lemma param_text_bound_witness:
  "at_ModuleRunCommand (module_with [long_command 1024]) \<noteq> None \<and>
   at_ModuleRunCommand (module_with [long_command 1025]) = None"
  using param_text_bound [OF long_command_at(1) [of 1024]] param_text_bound [OF long_command_at(1) [of 1025]]
    long_command_at(2) [of 1024] long_command_at(2) [of 1025] by simp

section \<open>Answers\<close>

datatype answer = OK | ErrorCode int | CmeError int

definition give_answer :: "at_setting \<Rightarrow> answer \<Rightarrow> AT_ModuleInfo \<Rightarrow> AT_ModuleInfo option" where
  "give_answer S a = (case a of OK \<Rightarrow> at_CmdRespOK S | ErrorCode c \<Rightarrow> at_CmdRespErrorCode S c
     | CmeError c \<Rightarrow> at_CmdRespCmeError S c)"

text \<open>A handler writes information texts and then answers.\<close>

definition handler_run :: "at_setting \<Rightarrow> bytes list \<times> answer \<Rightarrow> AT_ModuleInfo \<Rightarrow> AT_ModuleInfo option" where
  "handler_run S h s = give_answer S (snd h) (fold (\<lambda>t. at_CmdRespInfoNText S (Some t)) (fst h) s)"

fun serve :: "at_setting \<Rightarrow> (bytes list \<times> answer) list \<Rightarrow> AT_ModuleInfo \<Rightarrow> AT_ModuleInfo option" where
  "serve S [] s = Some s"
| "serve S (h # hs) s = do {
     s \<leftarrow> at_ModuleRunCommand s;
     s \<leftarrow> handler_run S h s;
     serve S hs s }"

text \<open>What is to be written.\<close>

definition code_text :: "at_setting \<Rightarrow> int \<Rightarrow> bytes" where
  "code_text S c =
     (if resultCodePresent S then []
      else if \<not> resultCodeFormat S then decimal (nat (c mod 2 ^ 32)) @ [nS3 S]
      else crlf S @ (case map_of g_sResultCodeInfo c of Some t \<Rightarrow> ascii t | None \<Rightarrow> int_text c) @ crlf S)"

definition cme_text :: "at_setting \<Rightarrow> int \<Rightarrow> bytes" where
  "cme_text S c =
     (if resultCodePresent S then []
      else if cmee S = 0 then code_text S 4
      else crlf S @ ascii ''+CME ERROR: '' @
        (if cmee S = 1 then int_text c
         else case map_of g_sCmeErrInfo c of Some t \<Rightarrow> ascii t | None \<Rightarrow> int_text c) @ crlf S)"

definition answer_text :: "at_setting \<Rightarrow> answer \<Rightarrow> bytes" where
  "answer_text S a = (case a of OK \<Rightarrow> code_text S 0 | ErrorCode c \<Rightarrow> code_text S c | CmeError c \<Rightarrow> cme_text S c)"

fun info_text :: "at_setting \<Rightarrow> bool \<Rightarrow> bytes list \<Rightarrow> bytes" where
  "info_text S b [] = []"
| "info_text S b (t # ts) =
     (if t = [] then info_text S b ts
      else (if b \<and> resultCodeFormat S then crlf S else []) @ t @ crlf S @ info_text S False ts)"

definition code_ok :: "answer \<Rightarrow> bool" where
  "code_ok a = (case a of OK \<Rightarrow> True | ErrorCode c \<Rightarrow> - (2 ^ 31) \<le> c \<and> c < 2 ^ 31
     | CmeError c \<Rightarrow> - (2 ^ 31) \<le> c \<and> c < 2 ^ 31)"

text \<open>Every result code fits into the array of 32 bytes.\<close>

lemma result_texts_short: "list_all (\<lambda>(c, t). length t \<le> 20) g_sResultCodeInfo"
  by code_simp

lemma result_code:
  assumes "- (2 ^ 31) \<le> c" "c < 2 ^ 31"
  shows "\<exists>k. at_CmdRespOutputResultCode S c s = Some (s\<lparr>mod_calls := mod_calls s @ k\<rparr>) \<and>
    k = (if resultCodePresent S then [] else [MWrite (code_text S c)])"
proof (cases "resultCodePresent S")
  case True
  then show ?thesis by (simp add: at_CmdRespOutputResultCode_def)
next
  case False
  let ?t = "code_text S c"
  have "nat (c mod 2 ^ 32) < 10 ^ 10" by (simp add: nat_less_iff)
  then have d: "length (decimal (nat (c mod 2 ^ 32))) \<le> 10" by (rule length_decimal) simp
  have "length (case map_of g_sResultCodeInfo c of Some t \<Rightarrow> ascii t | None \<Rightarrow> int_text c) \<le> 20"
    using result_texts_short int_text_short(1) [OF assms]
    by (auto simp: ascii_def list_all_iff dest!: map_of_SomeD split: option.split)
  then have len: "length ?t \<le> 32" using d by (auto simp: code_text_def crlf_def False)
  have "(if \<not> resultCodeFormat S then Some (decimal (nat (c mod 2 ^ 32)) @ [nS3 S])
      else do { t \<leftarrow> at_GetResultCodeInfo c; Some (crlf S @ t @ crlf S) }) = Some ?t"
    using code_info [OF tables_sorted(1) assms] False
    by (simp add: code_text_def at_GetResultCodeInfo_def)
  then show ?thesis using False len
    by (simp add: at_CmdRespOutputResultCode_def wr_block_def mcall_def)
qed

end
