(* ===== verification/At_Serve.thy ===== *)
theory At_Serve
  imports At_Module_Line
begin

text \<open>
  Serving the commands of a line: each handler writes its texts and answers; the module then runs
  the next command or drops the rest.
\<close>

section \<open>Answers\<close>

text \<open>The calls of an operation are appended to those made before.\<close>

definition with_calls :: "AT_ModuleInfo \<Rightarrow> AT_COMMAND_T list \<Rightarrow> mod_call list \<Rightarrow> AT_ModuleInfo" where
  "with_calls s cs k = s\<lparr>mod_cmds := cs, mod_calls := mod_calls s @ k\<rparr>"

lemma with_calls_sel [simp]:
  "mod_cmds (with_calls s cs k) = cs" "mod_freed (with_calls s cs k) = mod_freed s"
  "mod_calls (with_calls s cs k) = mod_calls s @ k" "mod_param (with_calls s cs k) = mod_param s"
  "firstInfoText (with_calls s cs k) = firstInfoText s"
  "with_calls (with_calls s cs k) cs' k' = with_calls s cs' (k @ k')"
  "mcall c (with_calls s cs k) = with_calls s cs (k @ [c])"
  "finished (with_calls s cs k) = with_calls s cs (k @ [Eng Op_Finished])"
  by (simp_all add: with_calls_def mcall_def finished_def)

lemma cmds_null_with [simp]: "cmds_null (with_calls s cs k) \<longleftrightarrow> cs = [] \<and> \<not> mod_freed s"
  by (simp add: cmds_null_def)

lemma final_ok:
  assumes "mod_cmds s = c # cs" "\<not> mod_freed s"
  shows "at_CmdFinalHandle True s = Some (with_calls s cs
    ([MKillTimer, Eng (Op_SetCmds (cs \<noteq> [])), MFree (at_CmdlistFree c), Eng Op_SetLine] @
     (if cs \<noteq> [] then [ScheduleNext] else [])))"
  using assms by (simp add: at_CmdFinalHandle_def pop_front_def at_CmdlistPopFront_def AT_KillAsyncTimerMux_def
    free_cmd_def tell_cmds_def at_ModuleScheduleNextCommand_def mcall_def cmds_null_def with_calls_def)

lemma final_error:
  assumes "\<not> mod_freed s"
  shows "at_CmdFinalHandle False s = Some (with_calls s []
    [MKillTimer, MFree (at_CmdlistFreeAll (mod_cmds s)), Eng (Op_SetCmds False), Eng Op_SetLine])"
  using assms by (simp add: at_CmdFinalHandle_def free_all_def AT_KillAsyncTimerMux_def
    tell_cmds_def mcall_def cmds_null_def with_calls_def)

lemma code_output:
  assumes "- (2 ^ 31) \<le> c" "c < 2 ^ 31"
  shows "at_CmdRespOutputResultCode S c (with_calls s cs k) =
    Some (with_calls s cs (k @ (if resultCodePresent S then [] else [MWrite (code_text S c)])))"
  using result_code [OF assms, of S "with_calls s cs k"] by (auto simp: with_calls_def)

lemma answer_ok:
  assumes "mod_cmds s = c # cs" "\<not> mod_freed s"
  shows "at_CmdRespOK S s = Some (with_calls s cs
    ([MKillTimer, Eng (Op_SetCmds (cs \<noteq> [])), MFree (at_CmdlistFree c), Eng Op_SetLine] @
     (if cs \<noteq> [] then [ScheduleNext] else if resultCodePresent S then [] else [MWrite (code_text S 0)]) @
     [Eng Op_Finished]))"
  using assms by (simp add: at_CmdRespOK_def final_ok code_output)

lemma write_line_calls:
  "write_line S ts (with_calls s cs k) = with_calls s cs (k @ MWrite (crlf S) # map MWrite ts @ [MWrite (crlf S)])"
proof -
  have "fold (mcall \<circ> MWrite) ts (with_calls s cs k) = with_calls s cs (k @ map MWrite ts)" for k
    by (induction ts arbitrary: k) simp_all
  then show ?thesis by (simp add: write_line_def)
qed

lemma cme_written:
  assumes "- (2 ^ 31) \<le> c" "c < 2 ^ 31" "cmee S \<noteq> 0"
  shows "\<exists>w. write_cme S ''+CME ERROR: '' at_GetCmeCodeInfo c (with_calls s cs k) = Some (with_calls s cs (k @ map MWrite w)) \<and>
    (\<not> resultCodePresent S \<longrightarrow> concat w = cme_text S c)"
proof (cases "cmee S = 1")
  case True
  let ?t = "ascii ''+CME ERROR: '' @ int_text c"
  have l: "length ?t \<le> 24" "0 \<notin> set ?t"
    using int_text_short [OF assms(1,2)] by (simp_all add: ascii_def)
  then have "wr_block (replicate 256 0) 0 (?t @ [0]) = Some (?t @ 0 # replicate (255 - length ?t) 0)"
    by (simp add: wr_block_def)
  moreover have "cstr (?t @ 0 # r) = ?t" for r
    unfolding cstr_joined takeWhile_eq_all_conv using l(2) by blast
  ultimately have "write_cme S ''+CME ERROR: '' at_GetCmeCodeInfo c (with_calls s cs k) =
      Some (with_calls s cs (k @ map MWrite [crlf S, ?t, crlf S]))"
    using True by (simp add: write_cme_def write_line_calls)
  then show ?thesis using True by (intro exI [of _ "[crlf S, ?t, crlf S]"]) (simp add: cme_text_def)
next
  case False
  let ?t = "case map_of g_sCmeErrInfo c of Some t \<Rightarrow> ascii t | None \<Rightarrow> int_text c"
  have "at_GetCmeCodeInfo c = Some ?t"
    using code_info [OF tables_sorted(2) assms(1,2)] by (simp add: at_GetCmeCodeInfo_def)
  then have "write_cme S ''+CME ERROR: '' at_GetCmeCodeInfo c (with_calls s cs k) =
      Some (with_calls s cs (k @ map MWrite [crlf S, ascii ''+CME ERROR: '', ?t, crlf S]))"
    using False by (simp add: write_cme_def write_line_calls)
  then show ?thesis using False assms(3)
    by (intro exI [of _ "[crlf S, ascii ''+CME ERROR: '', ?t, crlf S]"]) (simp add: cme_text_def)
qed

text \<open>An error drops what is left of the line.\<close>

lemma answer_error:
  assumes "\<not> mod_freed s" "a \<noteq> OK" "code_ok a"
  shows "\<exists>w. give_answer S a s = Some (with_calls s []
    ([MKillTimer, MFree (at_CmdlistFreeAll (mod_cmds s)), Eng (Op_SetCmds False), Eng Op_SetLine] @ map MWrite w @
     [Eng Op_Finished])) \<and> concat w = answer_text S a"
proof -
  let ?k = "[MKillTimer, MFree (at_CmdlistFreeAll (mod_cmds s)), Eng (Op_SetCmds False), Eng Op_SetLine]"
  note f = final_error [OF assms(1)]
  show ?thesis
  proof (cases a)
    case OK
    then show ?thesis using assms(2) by simp
  next
    case (ErrorCode c)
    then have "- (2 ^ 31) \<le> c" "c < 2 ^ 31" using assms(3) by (simp_all add: code_ok_def)
    note c = code_output [OF this, of S s "[]" ?k]
    show ?thesis
      by (rule exI [of _ "if resultCodePresent S then [] else [code_text S c]"])
        (simp add: give_answer_def at_CmdRespErrorCode_def answer_text_def ErrorCode f c code_text_def)
  next
    case (CmeError c)
    then have r: "- (2 ^ 31) \<le> c" "c < 2 ^ 31" using assms(3) by (simp_all add: code_ok_def)
    have c4: "at_CmdRespOutputResultCode S 4 (with_calls s [] ?k) =
        Some (with_calls s [] (?k @ (if resultCodePresent S then [] else [MWrite (code_text S 4)])))"
      by (rule code_output) simp_all
    consider "resultCodePresent S" | "\<not> resultCodePresent S" "cmee S = 0" | "\<not> resultCodePresent S" "cmee S \<noteq> 0"
      by blast
    then show ?thesis
    proof cases
      case 1
      then show ?thesis
        by (intro exI [of _ "[]"]) (simp add: give_answer_def at_CmdRespCmeError_def answer_text_def CmeError f cme_text_def)
    next
      case 2
      then show ?thesis using c4
        by (intro exI [of _ "[code_text S 4]"])
          (simp add: give_answer_def at_CmdRespCmeError_def answer_text_def CmeError f cme_text_def)
    next
      case 3
      obtain w where "write_cme S ''+CME ERROR: '' at_GetCmeCodeInfo c (with_calls s [] ?k) =
          Some (with_calls s [] (?k @ map MWrite w))" "concat w = cme_text S c"
        using cme_written [OF r 3(2), of s "[]" ?k] 3(1) by blast
      then show ?thesis using 3
        by (intro exI [of _ w]) (simp add: give_answer_def at_CmdRespCmeError_def answer_text_def CmeError f)
    qed
  qed
qed

section \<open>Information texts\<close>

lemma info_calls:
  "\<exists>w b. fold (\<lambda>t. at_CmdRespInfoNText S (Some t)) ts s =
      with_calls s (mod_cmds s) (map MWrite w)\<lparr>firstInfoText := b\<rparr> \<and>
    concat w = info_text S (firstInfoText s) ts"
proof (induction ts arbitrary: s)
  case Nil
  show ?case by (intro exI [of _ "[]"] exI [of _ "firstInfoText s"]) (simp add: with_calls_def)
next
  case (Cons t ts)
  let ?s = "at_CmdRespInfoNText S (Some t) s"
  obtain w b where w: "fold (\<lambda>t. at_CmdRespInfoNText S (Some t)) ts ?s =
      with_calls ?s (mod_cmds ?s) (map MWrite w)\<lparr>firstInfoText := b\<rparr>"
    "concat w = info_text S (firstInfoText ?s) ts"
    using Cons.IH by blast
  let ?h = "if t = [] then [] else (if firstInfoText s \<and> resultCodeFormat S then [crlf S] else []) @ [t, crlf S]"
  have "with_calls ?s (mod_cmds ?s) (map MWrite w)\<lparr>firstInfoText := b\<rparr> =
      with_calls s (mod_cmds s) (map MWrite (?h @ w))\<lparr>firstInfoText := b\<rparr>"
    by (simp add: at_CmdRespInfoNText_def first_crlf_def with_calls_def mcall_def)
  moreover have "concat (?h @ w) = info_text S (firstInfoText s) (t # ts)"
    using w(2) by (cases "t = []") (auto simp: at_CmdRespInfoNText_def first_crlf_def)
  ultimately show ?case using w(1) by (intro exI [of _ "?h @ w"] exI [of _ b]) simp
qed

section \<open>A line\<close>

text \<open>The commands of a line whose parameters fit, in a module that is about to run the first.\<close>

definition command_fits :: "AT_COMMAND_T \<Rightarrow> bool" where
  "command_fits c \<longleftrightarrow> list_all par_ok (cmd_params c) \<and> length (joined 0 (cmd_params c)) \<le> AT_CMD_PARA_SIZE"

definition line_loaded :: "AT_COMMAND_T list \<Rightarrow> AT_ModuleInfo \<Rightarrow> bool" where
  "line_loaded cs s \<longleftrightarrow> mod_cmds s = cs \<and> \<not> mod_freed s \<and> length (mod_param s) = AT_CMD_PARA_SIZE + 1 \<and>
     list_all command_fits cs"

text \<open>The handlers answer OK up to the last command, or one of them answers with an error.\<close>

fun answered :: "(bytes list \<times> answer) list \<Rightarrow> AT_COMMAND_T list \<Rightarrow> bool" where
  "answered [] cs = (cs = [])"
| "answered (h # hs) [] = False"
| "answered (h # hs) (c # cs) = (if snd h = OK then answered hs cs else hs = [] \<and> code_ok (snd h))"

definition engine_ready :: "AT_CMD_ENGINE_T \<Rightarrow> bool" where
  "engine_ready e \<longleftrightarrow> ce_mode e = CMD_PARSE_MODE_LINE \<and> ce_buffLen e = 0 \<and> \<not> cmds_pending e \<and> \<not> setFormatNeeded e \<and>
     (\<exists>p. ce_calls e = p @ [CmdScheduleDrain])"

lemma writes:
  "fold apply_call (map MWrite w) e = e\<lparr>ce_calls := ce_calls e @ map CmdWrite w\<rparr>"
  "ran (map MWrite w) = []" "blocks_freed (map MWrite w) = []" "text_out (map MWrite w) = concat w"
  by (induction w arbitrary: e) (simp_all add: apply_call_def ccall_def)

lemma last_answer_ready:
  "engine_ready (fold apply_call (k @ [Eng (Op_SetCmds False), Eng Op_SetLine] @ map MWrite w @ [Eng Op_Finished]) e)"
  "engine_ready (fold apply_call (k @ [Eng (Op_SetCmds False), MFree b, Eng Op_SetLine] @ map MWrite w @ [Eng Op_Finished]) e)"
  by (simp_all add: writes apply_call_def at_CmdSetLineMode_def at_CmdCommandFinished_def ccall_def engine_ready_def Let_def)

text \<open>What is seen of the calls when the line has been served.\<close>

definition served :: "at_setting \<Rightarrow> (bytes list \<times> answer) list \<Rightarrow> AT_COMMAND_T list \<Rightarrow> mod_call list \<Rightarrow> bool" where
  "served S hs cs k \<longleftrightarrow>
     ran k = map (pFunc \<circ> cmd_desc) (take (length hs) cs) \<and>
     text_out k = concat (map (info_text S True \<circ> fst) hs) @ answer_text S (snd (last hs)) \<and>
     blocks_freed k = at_CmdlistFreeAll cs \<and>
     (\<forall>e. engine_ready (fold apply_call k e))"

lemma run_one:
  assumes "line_loaded (c # cs) s"
  shows "\<exists>s1 p w. (do { s \<leftarrow> at_ModuleRunCommand s; handler_run S h s }) = give_answer S (snd h) s1 \<and>
    line_loaded (c # cs) s1 \<and> mod_calls s1 = mod_calls s @ RunHandler (pFunc (cmd_desc c)) p # map MWrite w \<and>
    concat w = info_text S True (fst h)"
proof -
  have "at_command c cs s" "length (joined 0 (cmd_params c)) \<le> AT_CMD_PARA_SIZE"
    using assms by (auto simp: line_loaded_def at_command_def command_fits_def list_all_iff)
  then obtain m where m: "at_ModuleRunCommand s = Some (mcall (RunHandler (pFunc (cmd_desc c)) (para_of c None))
      (s\<lparr>mod_param := m, firstInfoText := True\<rparr>))" "length m = AT_CMD_PARA_SIZE + 1"
    using module_run_command by blast
  let ?s = "mcall (RunHandler (pFunc (cmd_desc c)) (para_of c None)) (s\<lparr>mod_param := m, firstInfoText := True\<rparr>)"
  obtain w b where w: "fold (\<lambda>t. at_CmdRespInfoNText S (Some t)) (fst h) ?s =
      with_calls ?s (mod_cmds ?s) (map MWrite w)\<lparr>firstInfoText := b\<rparr>" "concat w = info_text S (firstInfoText ?s) (fst h)"
    using info_calls by blast
  show ?thesis
    by (rule exI [of _ "with_calls ?s (mod_cmds ?s) (map MWrite w)\<lparr>firstInfoText := b\<rparr>"],
        rule exI [of _ "para_of c None"], rule exI [of _ w])
      (use assms m w in \<open>simp add: handler_run_def line_loaded_def with_calls_def mcall_def\<close>)
qed

lemma serve_line:
  assumes "line_loaded (c # cs) s" "answered hs (c # cs)"
  shows "\<exists>s' k. serve S hs s = Some s' \<and> cmds_null s' \<and> mod_calls s' = mod_calls s @ k \<and> served S hs (c # cs) k"
  using assms
proof (induction hs arbitrary: c cs s)
  case (Cons h hs)
  obtain s1 p w where s1: "(do { s \<leftarrow> at_ModuleRunCommand s; handler_run S h s }) = give_answer S (snd h) s1"
    "line_loaded (c # cs) s1" "mod_calls s1 = mod_calls s @ RunHandler (pFunc (cmd_desc c)) p # map MWrite w"
    "concat w = info_text S True (fst h)"
    using run_one [OF Cons.prems(1)] by blast
  have serve: "serve S (h # hs) s = give_answer S (snd h) s1 \<bind> serve S hs"
    unfolding s1(1) [symmetric] by simp
  let ?k = "RunHandler (pFunc (cmd_desc c)) p # map MWrite w"
  show ?case
  proof (cases "snd h = OK")
    case False
    then have hs: "hs = []" "code_ok (snd h)" using Cons.prems(2) by (simp_all split: if_splits)
    obtain v where v: "give_answer S (snd h) s1 = Some (with_calls s1 []
        ([MKillTimer, MFree (at_CmdlistFreeAll (mod_cmds s1)), Eng (Op_SetCmds False), Eng Op_SetLine] @ map MWrite v @
         [Eng Op_Finished]))" "concat v = answer_text S (snd h)"
      using answer_error [of s1 "snd h" S] s1(2) False hs(2) by (auto simp: line_loaded_def)
    let ?e = "?k @ [MKillTimer, MFree (at_CmdlistFreeAll (mod_cmds s1)), Eng (Op_SetCmds False), Eng Op_SetLine] @
      map MWrite v @ [Eng Op_Finished]"
    have "served S [h] (c # cs) ?e"
      using last_answer_ready(1) [of "?k @ [MKillTimer, MFree (at_CmdlistFreeAll (mod_cmds s1))]" v] s1(2,4) v(2)
      by (simp add: served_def writes line_loaded_def)
    then show ?thesis using serve v(1) s1(2,3) hs(1) by (auto simp: line_loaded_def)
  next
    case True
    then have hs: "answered hs cs" using Cons.prems(2) by simp
    have m: "mod_cmds s1 = c # cs" "\<not> mod_freed s1" using s1(2) by (simp_all add: line_loaded_def)
    let ?v = "if cs \<noteq> [] \<or> resultCodePresent S then [] else [code_text S 0]"
    let ?a = "[MKillTimer, Eng (Op_SetCmds (cs \<noteq> [])), MFree (at_CmdlistFree c), Eng Op_SetLine] @
      (if cs \<noteq> [] then [ScheduleNext] else map MWrite ?v) @ [Eng Op_Finished]"
    have a: "give_answer S (snd h) s1 = Some (with_calls s1 cs ?a)"
      using answer_ok [OF m, of S] True by (simp add: give_answer_def)
    show ?thesis
    proof (cases cs)
      case Nil
      then have [simp]: "hs = []" using hs by (cases hs) auto
      have "served S [h] [c] (?k @ ?a)"
        using last_answer_ready(2) [of "?k @ [MKillTimer]" "at_CmdlistFree c" ?v] s1(4) True Nil
        by (auto simp: served_def writes answer_text_def code_text_def)
      then show ?thesis using serve a s1(3) m(2) Nil by auto
    next
      case (Cons d ds)
      have "line_loaded (d # ds) (with_calls s1 cs ?a)" using s1(2) Cons by (simp add: line_loaded_def)
      then obtain s' k where s': "serve S hs (with_calls s1 cs ?a) = Some s'" "cmds_null s'"
        "mod_calls s' = mod_calls (with_calls s1 cs ?a) @ k" "served S hs (d # ds) k"
        using Cons.IH hs Cons by blast
      then have "served S (h # hs) (c # cs) (?k @ ?a @ k)"
        using s1(4) Cons hs by (cases hs) (auto simp: served_def writes)
      then show ?thesis using serve a s' s1(3) by auto
    qed
  qed
qed simp

text \<open>A line of commands that fit is served in order: as long as the handlers answer OK the next
  one runs, the first error drops the rest; what is written is the texts of the handlers followed by
  exactly one final code, every command and parameter of the line is released once, and the command
  engine is left in line mode, without commands, told to go on with its input.\<close>

theorem line_served:
  assumes "line_loaded (c # cs) s" "answered hs (c # cs)"
  shows "\<exists>s' k. serve S hs s = Some s' \<and> cmds_null s' \<and> mod_calls s' = mod_calls s @ k \<and>
    ran k = map (pFunc \<circ> cmd_desc) (take (length hs) (c # cs)) \<and>
    text_out k = concat (map (info_text S True \<circ> fst) hs) @ answer_text S (snd (last hs)) \<and>
    blocks_freed k = at_CmdlistFreeAll (c # cs) \<and>
    (\<forall>e. engine_ready (fold apply_call k e))"
  using serve_line [OF assms, of S] by (auto simp: served_def)

text \<open>Three commands, the second of which answers with an error.\<close>

definition plain_settings :: at_setting where
  "plain_settings = \<lparr>nS3 = 0x0d, nS4 = 0x0a, resultCodeFormat = True, resultCodePresent = False, cmee = 1, crc_ext = False\<rparr>"

theorem line_served_witness:
  "\<exists>s' k. serve plain_settings [([ascii ''+CSQ: 9''], OK), ([], CmeError 10)] (module_with [long_command 1, long_command 2, long_command 3]) = Some s' \<and>
    mod_calls s' = k \<and> ran k = [''AT_CmdFunc_CSQ'', ''AT_CmdFunc_CSQ''] \<and>
    text_out k = [13, 10] @ ascii ''+CSQ: 9'' @ [13, 10, 13, 10] @ ascii ''+CME ERROR: 10'' @ [13, 10]"
proof -
  let ?cs = "[long_command 1, long_command 2, long_command 3]" and ?hs = "[([ascii ''+CSQ: 9''], OK), ([], CmeError 10)]"
  have fits: "command_fits (long_command k)" if "k \<le> 1024" for k
    using long_command_at [of k] that by (simp add: command_fits_def at_command_def)
  have l: "line_loaded ?cs (module_with ?cs)"
    using fits [of 1] fits [of 2] fits [of 3] by (simp add: line_loaded_def module_with_def)
  have a: "answered ?hs ?cs" by (simp add: code_ok_def)
  obtain s' k where k: "serve plain_settings ?hs (module_with ?cs) = Some s'" "mod_calls s' = mod_calls (module_with ?cs) @ k"
    "ran k = map (pFunc \<circ> cmd_desc) (take (length ?hs) ?cs)"
    "text_out k = concat (map (info_text plain_settings True \<circ> fst) ?hs) @ answer_text plain_settings (snd (last ?hs))"
    using line_served [OF l a, of plain_settings] by blast
  have t: "int_text 10 = [0x31, 0x30]" by (simp add: int_text_def decimal.simps)
  have "ran k = [''AT_CmdFunc_CSQ'', ''AT_CmdFunc_CSQ'']"
    using k(3) by (simp add: long_command_def cmd_entry_def)
  moreover have "text_out k = [13, 10] @ ascii ''+CSQ: 9'' @ [13, 10, 13, 10] @ ascii ''+CME ERROR: 10'' @ [13, 10]"
    using k(4) t by (simp add: plain_settings_def crlf_def answer_text_def cme_text_def ascii_def)
  moreover have "mod_calls s' = k" using k(2) by (simp add: module_with_def)
  ultimately show ?thesis using k(1) by blast
qed

end
