(* ===== verification/At_Module_Steps.thy ===== *)
theory At_Module_Steps
  imports At_Serve
begin

text \<open>
  The module over any sequence of events: what every operation keeps, when the list of commands can
  dangle, and what a time-out does.
\<close>

section \<open>Events\<close>

datatype mod_event =
    EvLine bytes
  | EvRun
  | EvExtra bytes
  | EvInfo bytes
  | EvAnswer answer
  | EvError
  | EvCmsError int
  | EvText bytes
  | EvErrorText bytes
  | EvInterm int
  | EvPrompt
  | EvUrc bytes
  | EvResult "AT_CMD_RESULT"
  | EvTimer u32
  | EvSwitch bool AT_MODE_SWITCH_CAUSE_T
  | EvClearCurrent
  | EvClearList
  | EvTimeout

text \<open>The time-out without the flags of the SIMs, which it does not read.\<close>

definition timeout_on :: "at_setting \<Rightarrow> AT_ModuleInfo \<Rightarrow> AT_ModuleInfo option" where
  "timeout_on S s = map_option fst (at_ModuleHandleTimeout S 0 (s, gAtGlobal))"

fun mod_exec ::
  "at_setting \<Rightarrow> (bytes \<Rightarrow> (int \<times> AT_COMMAND_T list) option) \<Rightarrow> mod_event \<Rightarrow> AT_ModuleInfo \<Rightarrow> AT_ModuleInfo option" where
  "mod_exec S parse (EvLine l) s = map_option snd (at_ModuleProcessLine parse (Some l) s)"
| "mod_exec S parse EvRun s = at_ModuleRunCommand s"
| "mod_exec S parse (EvExtra d) s = at_ModuleRunCommandExtra d s"
| "mod_exec S parse (EvInfo t) s = Some (at_CmdRespInfoNText S (Some t) s)"
| "mod_exec S parse (EvAnswer a) s = give_answer S a s"
| "mod_exec S parse EvError s = at_CmdRespError S s"
| "mod_exec S parse (EvCmsError c) s = at_CmdRespCmsError S c s"
| "mod_exec S parse (EvText t) s = at_CmdRespOKText S t s"
| "mod_exec S parse (EvErrorText t) s = at_CmdRespErrorText S t s"
| "mod_exec S parse (EvInterm c) s = at_CmdRespIntermCode S c s"
| "mod_exec S parse EvPrompt s = Some (at_CmdRespOutputPrompt S s)"
| "mod_exec S parse (EvUrc t) s = at_CmdRespUrcNText S t s"
| "mod_exec S parse (EvResult r) s = map_option snd (at_ModuleNotifyResult S (Some r) s)"
| "mod_exec S parse (EvTimer t) s = AT_SetAsyncTimerMux t s"
| "mod_exec S parse (EvSwitch tt c) s = at_ModuleModeSwitch S tt c s"
| "mod_exec S parse EvClearCurrent s = at_ModuleClearCurCmd s"
| "mod_exec S parse EvClearList s = at_ModuleClearCmdList s"
| "mod_exec S parse EvTimeout s = timeout_on S s"

inductive mod_reach ::
  "at_setting \<Rightarrow> (bytes \<Rightarrow> (int \<times> AT_COMMAND_T list) option) \<Rightarrow> AT_ModuleInfo \<Rightarrow> mod_event list \<Rightarrow> AT_ModuleInfo \<Rightarrow> bool"
  for S parse s where
  start: "mod_reach S parse s [] s"
| event: "mod_reach S parse s evs t \<Longrightarrow> mod_exec S parse ev t = Some u \<Longrightarrow> mod_reach S parse s (evs @ [ev]) u"

inductive_cases mod_reach_snoc: "mod_reach S parse s (evs @ [ev]) u"

section \<open>Properties that the operations keep\<close>

text \<open>The laws under which a property of the module is kept by every operation but the one that
  releases the commands behind the current one, and with a further law by that one as well.\<close>

locale mod_property =
  fixes parse :: "bytes \<Rightarrow> (int \<times> AT_COMMAND_T list) option"
    and P :: "AT_ModuleInfo \<Rightarrow> bool"
  assumes call [simp]: "(\<And>b. c \<noteq> Eng (Op_SetCmds b)) \<Longrightarrow> P (mcall c s) = P s"
    and first [simp]: "P (s\<lparr>firstInfoText := b\<rparr>) = P s"
    and cmss [simp]: "P (s\<lparr>cmssNum := n\<rparr>) = P s"
    and ppp [simp]: "P (s\<lparr>gPppState := g\<rparr>) = P s"
    and para: "P s \<Longrightarrow> command_para cmd d (mod_param s) = Some (m, q) \<Longrightarrow> P (s\<lparr>mod_param := m\<rparr>)"
    and tail: "P s \<Longrightarrow> mod_cmds s = c1 # cs \<Longrightarrow> P (tell_cmds (s\<lparr>mod_cmds := cs\<rparr>))"
    and none: "P s \<Longrightarrow> P (tell_cmds (s\<lparr>mod_cmds := []\<rparr>))"
    and new_line: "P s \<Longrightarrow> parse line = Some (r, cs) \<Longrightarrow> P (tell_cmds (s\<lparr>mod_cmds := cs, mod_freed := False\<rparr>))"
begin

lemma finished_keeps [simp]: "P (finished s) = P s"
  by (simp add: finished_def)

lemma free_cmd_keeps [simp]: "P (free_cmd c s) = P s"
  by (cases c) (simp_all add: free_cmd_def)

lemma pop_front_keeps: "pop_front s = Some (c, s') \<Longrightarrow> P s \<Longrightarrow> P s'"
  by (auto simp: pop_front_def at_CmdlistPopFront_def tail split: list.splits if_splits)

lemma free_all_keeps: "free_all s = Some s' \<Longrightarrow> P s \<Longrightarrow> P s'"
  by (auto simp: free_all_def none split: if_splits)

lemma final_keeps: "at_CmdFinalHandle ok s = Some s' \<Longrightarrow> P s \<Longrightarrow> P s'"
  by (cases ok) (auto simp: at_CmdFinalHandle_def AT_KillAsyncTimerMux_def at_ModuleScheduleNextCommand_def Let_def
    split: Option.bind_splits if_splits dest: pop_front_keeps free_all_keeps)

lemma code_keeps: "at_CmdRespOutputResultCode S c s = Some s' \<Longrightarrow> P s \<Longrightarrow> P s'"
  by (auto simp: at_CmdRespOutputResultCode_def split: if_splits Option.bind_splits)

lemma line_keeps [simp]: "P (write_line S ts s) = P s"
proof -
  have "P (fold (mcall \<circ> MWrite) ts s) = P s" for s
    by (induction ts arbitrary: s) simp_all
  then show ?thesis by (simp add: write_line_def)
qed

lemma info_keeps [simp]: "P (at_CmdRespInfoNText S t s) = P s"
  by (simp add: at_CmdRespInfoNText_def first_crlf_def split: option.split)

lemma cme_keeps: "write_cme S h f c s = Some s' \<Longrightarrow> P s \<Longrightarrow> P s'"
  by (auto simp: write_cme_def split: if_splits Option.bind_splits)

lemma ok_keeps: "at_CmdRespOK S s = Some s' \<Longrightarrow> P s \<Longrightarrow> P s'"
  by (auto simp: at_CmdRespOK_def split: Option.bind_splits if_splits dest: final_keeps code_keeps)

lemma error_code_keeps: "at_CmdRespErrorCode S c s = Some s' \<Longrightarrow> P s \<Longrightarrow> P s'"
  by (auto simp: at_CmdRespErrorCode_def split: Option.bind_splits dest: final_keeps code_keeps)

lemma cme_error_keeps: "at_CmdRespCmeError S c s = Some s' \<Longrightarrow> P s \<Longrightarrow> P s'"
  by (auto simp: at_CmdRespCmeError_def split: Option.bind_splits if_splits dest: final_keeps code_keeps cme_keeps)

lemma cms_error_keeps: "at_CmdRespCmsError S c s = Some s' \<Longrightarrow> P s \<Longrightarrow> P s'"
  by (auto simp: at_CmdRespCmsError_def split: Option.bind_splits if_splits dest: final_keeps error_code_keeps cme_keeps)

lemma answer_keeps: "give_answer S a s = Some s' \<Longrightarrow> P s \<Longrightarrow> P s'"
  by (auto simp: give_answer_def split: answer.splits dest: ok_keeps error_code_keeps cme_error_keeps)

lemma run_keeps: "at_ModuleRunCommand s = Some s' \<Longrightarrow> P s \<Longrightarrow> P s'"
  by (auto simp: at_ModuleRunCommand_def split: if_splits Option.bind_splits dest: para)

lemma extra_keeps: "at_ModuleRunCommandExtra d s = Some s' \<Longrightarrow> P s \<Longrightarrow> P s'"
  by (auto simp: at_ModuleRunCommandExtra_def split: if_splits Option.bind_splits dest: para)

lemma drop_line_keeps: "free_all (tell_cmds (s\<lparr>mod_cmds := cs, mod_freed := False\<rparr>)) = Some s' \<Longrightarrow>
    parse line = Some (r, cs) \<Longrightarrow> P s \<Longrightarrow> P s'"
  by (rule free_all_keeps, assumption, rule new_line)

lemma process_keeps: "at_ModuleProcessLine parse l s = Some (r, s') \<Longrightarrow> P s \<Longrightarrow> P s'"
  by (auto simp: at_ModuleProcessLine_def Let_def new_line
    split: option.splits Option.bind_splits if_splits list.splits dest: drop_line_keeps)

lemma timer_keeps: "AT_SetAsyncTimerMux t s = Some s' \<Longrightarrow> P s \<Longrightarrow> P s'"
  by (auto simp: AT_SetAsyncTimerMux_def split: if_splits)

lemma urc_keeps: "at_CmdRespUrcNText S t s = Some s' \<Longrightarrow> P s \<Longrightarrow> P s'"
  by (auto simp: at_CmdRespUrcNText_def Let_def split: if_splits Option.bind_splits)

lemma urc_text_keeps: "at_CmdRespUrcText S t s = Some s' \<Longrightarrow> P s \<Longrightarrow> P s'"
  by (auto simp: at_CmdRespUrcText_def split: Option.bind_splits dest: urc_keeps)

lemma result_keeps: "at_ModuleNotifyResult S r s = Some (n, s') \<Longrightarrow> P s \<Longrightarrow> P s'"
  by (auto simp: at_ModuleNotifyResult_def Let_def split: option.splits Option.bind_splits if_splits
    dest: ok_keeps error_code_keeps cme_error_keeps cms_error_keeps
      timer_keeps urc_text_keeps)

lemma clear_list_keeps: "at_ModuleClearCmdList s = Some s' \<Longrightarrow> P s \<Longrightarrow> P s'"
  by (auto simp: at_ModuleClearCmdList_def dest: free_all_keeps)

lemma clear_current_keeps: "at_ModuleClearCurCmd s = Some s' \<Longrightarrow> P s \<Longrightarrow> P s'"
  by (auto simp: at_ModuleClearCurCmd_def AT_KillAsyncTimerMux_def split: Option.bind_splits dest: pop_front_keeps)

lemma timeout_keeps: "at_ModuleHandleTimeout S d (s, g) = Some (s', g') \<Longrightarrow> P s \<Longrightarrow> P s'"
  by (auto simp: at_ModuleHandleTimeout_def AT_KillAsyncTimerMux_def Let_def split: Option.bind_splits
    dest: clear_list_keeps)

lemma switch_keeps:
  "P s \<Longrightarrow> at_ModuleModeSwitch S tt c s = Some s' \<Longrightarrow> c \<noteq> AT_MODE_SWITCH_DATA_START \<Longrightarrow> P s'"
  by (cases c) (auto simp: at_ModuleModeSwitch_def at_CmdRespIntermCode_def Let_def split: Option.bind_splits if_splits
    dest: ok_keeps final_keeps code_keeps)

lemma error_keeps: "at_CmdRespError S s = Some s' \<Longrightarrow> P s \<Longrightarrow> P s'"
  by (auto simp: at_CmdRespError_def dest: error_code_keeps)

lemma text_keeps:
  "at_CmdRespOKText S t s = Some s' \<Longrightarrow> P s \<Longrightarrow> P s'"
  "at_CmdRespErrorText S t s = Some s' \<Longrightarrow> P s \<Longrightarrow> P s'"
  by (auto simp: at_CmdRespOKText_def at_CmdRespErrorText_def split: Option.bind_splits dest: final_keeps)

lemma exec_keeps:
  assumes "mod_exec S parse ev s = Some s'" "P s" "\<And>tt. ev \<noteq> EvSwitch tt AT_MODE_SWITCH_DATA_START"
  shows "P s'"
  using assms
  by (cases ev) (auto simp: at_CmdRespIntermCode_def at_CmdRespOutputPrompt_def timeout_on_def
    intro: process_keeps run_keeps extra_keeps answer_keeps error_keeps cms_error_keeps text_keeps code_keeps
      urc_keeps result_keeps timer_keeps switch_keeps clear_current_keeps clear_list_keeps timeout_keeps)

lemma reach_keeps:
  assumes "mod_reach S parse s evs t" "P s" "\<And>tt. EvSwitch tt AT_MODE_SWITCH_DATA_START \<notin> set evs"
  shows "P t"
  using assms by (induction rule: mod_reach.induct) (auto intro: exec_keeps)

end

locale mod_property_all = mod_property +
  assumes clear: "P s \<Longrightarrow> at_CmdClearRemainCmds s = Some s' \<Longrightarrow> P s'"
begin

lemma exec_keeps_all:
  assumes "mod_exec S parse ev s = Some s'" "P s"
  shows "P s'"
proof (cases "\<exists>tt. ev = EvSwitch tt AT_MODE_SWITCH_DATA_START")
  case True
  then obtain x xa where "at_CmdClearRemainCmds s = Some x" "at_CmdRespOutputResultCode S 1 x = Some xa"
    "s' = (mcall SetDataMode xa)\<lparr>gPppState := AT_PPP_STATE_START\<rparr>"
    using assms(1) by (auto simp: at_ModuleModeSwitch_def at_CmdRespIntermCode_def split: Option.bind_splits)
  then show ?thesis using code_keeps clear [OF assms(2)] by auto
next
  case False
  then show ?thesis using exec_keeps [OF assms] by blast
qed

lemma reach_keeps_all: "mod_reach S parse s evs t \<Longrightarrow> P s \<Longrightarrow> P t"
  by (induction rule: mod_reach.induct) (auto intro: exec_keeps_all)

end

interpretation valid: mod_property parse "\<lambda>s. \<not> mod_freed s" for parse
  by unfold_locales (simp_all add: mcall_def tell_cmds_def)

interpretation buffer: mod_property_all parse "\<lambda>s. length (mod_param s) = AT_CMD_PARA_SIZE + 1" for parse
proof unfold_locales
  have j: "length m' = length m" if "join_params ps n k m = Some (k', m')" for ps n k m k' m'
    using that by (induction ps n k m rule: join_params.induct)
      (auto simp: wr_def wr_block_def split: Option.bind_splits if_splits)
  show "length (mod_param (s\<lparr>mod_param := m\<rparr>)) = AT_CMD_PARA_SIZE + 1"
    if "length (mod_param s) = AT_CMD_PARA_SIZE + 1" "command_para cmd d (mod_param s) = Some (m, q)" for s cmd d m q
    using that j by (fastforce simp: command_para_def wr_def split: Option.bind_splits if_splits)
  show "length (mod_param s') = AT_CMD_PARA_SIZE + 1"
    if "length (mod_param s) = AT_CMD_PARA_SIZE + 1" "at_CmdClearRemainCmds s = Some s'" for s s'
    using that by (auto simp: at_CmdClearRemainCmds_def mcall_def split: if_splits list.splits)
qed (simp_all add: mcall_def tell_cmds_def)

section \<open>Data connections\<close>

text \<open>C7: when a data connection starts while more commands of the line wait, those are released but the
  current command still points to them: when the connection ends, the module takes the dangling
  pointer for the next command, writes no final code and schedules it, and running it reads
  released memory. With no command waiting the connection ends with a final code.\<close>

theorem data_mode_use_after_free:
  assumes "line_loaded (c # cs) s"
  shows "\<exists>s1 s2. at_ModuleModeSwitch S tt AT_MODE_SWITCH_DATA_START s = Some s1 \<and>
    at_ModuleModeSwitch S False AT_MODE_SWITCH_DATA_END s1 = Some s2 \<and>
    MFree (at_CmdlistFreeAll cs) \<in> set (mod_calls s1) \<and>
    (if cs = [] then cmds_null s2 \<and> at_ModuleRunCommand s2 \<noteq> None
     else ScheduleNext \<in> set (mod_calls s2) \<and> at_ModuleRunCommand s2 = None)"
proof -
  let ?s = "mcall (MFree (at_CmdlistFreeAll cs)) s\<lparr>mod_cmds := [c], mod_freed := cs \<noteq> []\<rparr>"
  have clear: "at_CmdClearRemainCmds s = Some ?s"
    using assms by (simp add: at_CmdClearRemainCmds_def line_loaded_def cmds_null_def)
  obtain k where k: "at_CmdRespOutputResultCode S 1 ?s = Some (?s\<lparr>mod_calls := mod_calls ?s @ k\<rparr>)"
    using result_code [of 1 S ?s] by auto
  let ?t = "(mcall SetDataMode (?s\<lparr>mod_calls := mod_calls ?s @ k\<rparr>))\<lparr>gPppState := AT_PPP_STATE_START\<rparr>"
  have start: "at_ModuleModeSwitch S tt AT_MODE_SWITCH_DATA_START s = Some ?t"
    using clear k by (simp add: at_ModuleModeSwitch_def at_CmdRespIntermCode_def)
  have "MFree (at_CmdlistFreeAll cs) \<in> set (mod_calls ?t)" by (simp add: mcall_def)
  moreover have "\<exists>s2. at_ModuleModeSwitch S False AT_MODE_SWITCH_DATA_END ?t = Some s2 \<and>
      (if cs = [] then cmds_null s2 \<and> at_ModuleRunCommand s2 \<noteq> None
       else ScheduleNext \<in> set (mod_calls s2) \<and> at_ModuleRunCommand s2 = None)"
  proof (cases "cs = []")
    case True
    let ?u = "mcall EndDataMode ?t"
    obtain y where y: "at_CmdRespOK S ?u = Some y" "cmds_null y"
      using answer_ok [of ?u c "[]" S] True by (simp add: mcall_def cmds_null_def)
    have "at_ModuleModeSwitch S False AT_MODE_SWITCH_DATA_END ?t = Some (y\<lparr>gPppState := AT_PPP_STATE_END\<rparr>)"
      using y(1) by (simp add: at_ModuleModeSwitch_def)
    then show ?thesis using y(2) True
      by (intro exI [of _ "y\<lparr>gPppState := AT_PPP_STATE_END\<rparr>"]) (simp add: at_ModuleRunCommand_def cmds_null_def)
  next
    case False
    then show ?thesis
      by (simp add: at_ModuleModeSwitch_def at_CmdRespOK_def at_CmdFinalHandle_def pop_front_def at_CmdlistPopFront_def
        AT_KillAsyncTimerMux_def free_cmd_def tell_cmds_def at_ModuleScheduleNextCommand_def mcall_def cmds_null_def
        finished_def at_ModuleRunCommand_def rd_def)
  qed
  ultimately show ?thesis using start by blast
qed

theorem data_mode_use_after_free_witness:
  "\<exists>s1 s2. at_ModuleModeSwitch plain_settings False AT_MODE_SWITCH_DATA_START (module_with [long_command 1, long_command 2]) = Some s1 \<and>
    at_ModuleModeSwitch plain_settings False AT_MODE_SWITCH_DATA_END s1 = Some s2 \<and> at_ModuleRunCommand s2 = None"
proof -
  have "command_fits (long_command k)" if "k \<le> 1024" for k
    using long_command_at [of k] that by (simp add: command_fits_def at_command_def)
  then have "line_loaded [long_command 1, long_command 2] (module_with [long_command 1, long_command 2])"
    by (simp add: line_loaded_def module_with_def)
  from data_mode_use_after_free [OF this, of plain_settings False] show ?thesis by auto
qed

section \<open>Time-outs\<close>

text \<open>C8: when the answer to a command does not come in time, the text is written and every command of the
  line is released, whichever it was; the engine is in line mode and takes lines again, but unlike
  after an answer it is not told to go on with the input it holds. For the channels of the second
  SIM the flag that is cleared is behind the end of the array of one flag.\<close>

theorem timeout_clears:
  assumes "\<not> mod_freed s" "length (copsFlag g) = 1"
  shows "if dlci < 5
    then \<exists>s' g' k. at_ModuleHandleTimeout S dlci (s, g) = Some (s', g') \<and> copsFlag g' = [False] \<and> cmds_null s' \<and>
      mod_calls s' = mod_calls s @ k \<and> text_out k = crlf S @ ascii ''COMMAND NO RESPONSE!'' @ crlf S \<and>
      blocks_freed k = at_CmdlistFreeAll (mod_cmds s) \<and>
      (\<forall>e. ce_mode (fold apply_call k e) = CMD_PARSE_MODE_LINE \<and> \<not> cmds_pending (fold apply_call k e) \<and>
        set (ce_calls (fold apply_call k e)) \<subseteq> set (ce_calls e) \<union> {KillAsyncTimer} \<union> range CmdWrite)
    else at_ModuleHandleTimeout S dlci (s, g) = None"
proof (cases "dlci < 5")
  case True
  have "wr (copsFlag g) 0 False = Some [False]" using assms(2) by (cases "copsFlag g") (auto simp: wr_def)
  then have "at_ModuleHandleTimeout S dlci (s, g) = Some (with_calls s []
      (MKillTimer # map MWrite [crlf S, ascii ''COMMAND NO RESPONSE!'', crlf S] @
       [DelWaitingEvents, MFree (at_CmdlistFreeAll (mod_cmds s)), Eng (Op_SetCmds False), Eng Op_SetLine, Eng Op_SetLine]),
      g\<lparr>copsFlag := [False]\<rparr>)"
    using True assms(1) by (simp add: at_ModuleHandleTimeout_def at_ModuleSetCopsFlag_def at_ModuleGetChannelSimID_def
      write_line_def AT_KillAsyncTimerMux_def at_ModuleClearCmdList_def free_all_def tell_cmds_def mcall_def
      cmds_null_def with_calls_def)
  then show ?thesis using True assms(1)
    by (auto simp: apply_call_def ccall_def at_CmdSetLineMode_def)
next
  case False
  then show ?thesis using assms(2)
    by (simp add: at_ModuleHandleTimeout_def at_ModuleSetCopsFlag_def at_ModuleGetChannelSimID_def wr_def)
qed

theorem timeout_clears_witness:
  "at_ModuleHandleTimeout plain_settings 5 (module_with [long_command 1], gAtGlobal) = None \<and>
   at_ModuleHandleTimeout plain_settings 0 (module_with [long_command 1], gAtGlobal) \<noteq> None"
  using timeout_clears [of "module_with [long_command 1]" gAtGlobal 5 plain_settings]
    timeout_clears [of "module_with [long_command 1]" gAtGlobal 0 plain_settings]
  by (auto simp: module_with_def gAtGlobal_def)

section \<open>Errors\<close>

text \<open>The plain error tells the engine twice that the command is finished, and the error of a message
  service does the final handling of a command twice when the texts are switched off.\<close>

lemma error_twice:
  assumes "\<not> mod_freed s" "cmee S = 0" "\<not> resultCodePresent S"
  shows "\<exists>k. at_CmdRespCmsError S c s = Some (with_calls s [] k) \<and> text_out k = code_text S 4 \<and>
    blocks_freed k = at_CmdlistFreeAll (mod_cmds s) \<and> length (filter ((=) (Eng Op_Finished)) k) = 2 \<and>
    length (filter ((=) MKillTimer) k) = 2"
proof -
  let ?k = "[MKillTimer, MFree (at_CmdlistFreeAll (mod_cmds s)), Eng (Op_SetCmds False), Eng Op_SetLine]"
  have "at_CmdRespErrorCode S 4 (with_calls s [] ?k) = Some (with_calls s []
      (?k @ [MKillTimer, MFree [], Eng (Op_SetCmds False), Eng Op_SetLine, MWrite (code_text S 4), Eng Op_Finished]))"
    using assms final_error [of "with_calls s [] ?k"] code_output [of 4 S] by (simp add: at_CmdRespErrorCode_def)
  then have "at_CmdRespCmsError S c s = Some (with_calls s []
      (?k @ [MKillTimer, MFree [], Eng (Op_SetCmds False), Eng Op_SetLine, MWrite (code_text S 4), Eng Op_Finished,
        Eng Op_Finished]))"
    using assms final_error [of s] by (simp add: at_CmdRespCmsError_def)
  then show ?thesis by (rule_tac exI, rule_tac conjI, assumption) simp
qed

end
