(* ===== verification/Dispatch_Escape.thy ===== *)
theory Dispatch_Escape
  imports Dispatch_Order At_Module_Steps
begin

text \<open>
  The escape sequence from the plus signs to the command mode: the dispatch layer holds the plus
  signs back (\<open>at_DispatchPushData\<close>), its timer asks for the switch
  (\<open>at_DispatchTplusTimeout\<close>), and the module (\<open>at_ModuleModeSwitch\<close>) switches the channel and
  answers.
\<close>

section \<open>The calls of the module on the channel\<close>

text \<open>
  The module is given the number of the channel and finds its dispatcher and its command engine:
  \<open>SetCmdMode\<close> and \<open>EndDataMode\<close> are calls on the dispatcher, the others act on the engine.
\<close>

definition serve_call :: "mod_call \<Rightarrow> AT_DISPATCH_T \<Rightarrow> AT_DISPATCH_T" where
  "serve_call c th =
     (case c of
        SetCmdMode \<Rightarrow> at_DispatchSetCmdMode th
      | EndDataMode \<Rightarrow> at_DispatchEndDataMode th
      | _ \<Rightarrow> th\<lparr>cmdEngine := apply_call c (cmdEngine th)\<rparr>)"

text \<open>The calls but those that ask for another round.\<close>

definition timer_calls :: "disp_call list \<Rightarrow> disp_call list" where
  "timer_calls = filter (\<lambda>c. c \<noteq> ScheduleDrain)"

section \<open>What a push leaves alone\<close>

lemma push_engine_keeps:
  assumes "at_DispatchPushToEngine E data th = Some (n, t)"
  shows "tplusStartTick t = tplusStartTick th \<and> channelId t = channelId th \<and> d_buffSize t = d_buffSize th \<and>
    d_buffLen t = d_buffLen th \<and> d_mode t = d_mode th"
  using assms by (auto simp: at_DispatchPushToEngine_def split: DISPATCH_MODE.splits bind_splits)

lemma push_existing_keeps:
  assumes "push_existing E th = Some t"
  shows "tplusStartTick t = tplusStartTick th \<and> channelId t = channelId th \<and> d_buffSize t = d_buffSize th \<and>
    d_buffLen t \<le> d_buffLen th \<and> d_mode t = d_mode th"
  using assms
  by (auto simp: push_existing_def at_DispatchScheduleDrain_def dpcall_def remove_used_def
      split: bind_splits if_splits dest!: push_engine_keeps)

text \<open>Two channels with the same engine and the same input in the buffer do the same.\<close>

definition alike :: "AT_DISPATCH_T \<Rightarrow> AT_DISPATCH_T \<Rightarrow> bool" where
  "alike u v \<longleftrightarrow> eng u = eng v \<and> d_content u = d_content v"

lemma push_existing_alike:
  assumes "disp_ok E u" "disp_ok E v" "alike u v"
  shows "\<exists>s t. push_existing E u = Some s \<and> push_existing E v = Some t \<and> disp_ok E s \<and> disp_ok E t \<and> alike s t \<and>
    timer_calls (d_calls s) = timer_calls (d_calls u) \<and> tplusCount s = tplusCount u"
proof -
  from push_existing_ok [OF assms(1)] obtain n a s where
    s: "at_DispatchPushToEngine E (d_content u) u = Some (n, a)" "push_existing E u = Some s" "disp_ok E s"
      "d_content s = drop (nat n) (d_content u)" "eng s = eng a" "tplusCount s = tplusCount u"
      "d_calls s = d_calls u @ (if n = int (d_buffLen u) then [] else [ScheduleDrain])" by blast
  from push_existing_ok [OF assms(2)] obtain m b t where
    t: "at_DispatchPushToEngine E (d_content v) v = Some (m, b)" "push_existing E v = Some t" "disp_ok E t"
      "d_content t = drop (nat m) (d_content v)" "eng t = eng b" by blast
  have "\<exists>w. at_DispatchPushToEngine E (d_content u) v = Some (n, w) \<and> eng w = eng a"
    using push_eng [OF _ s(1)] assms(3) by (simp add: alike_def)
  then have "m = n" "eng b = eng a" using t(1) assms(3) by (auto simp: alike_def)
  then show ?thesis using s t assms(3) by (auto simp: alike_def timer_calls_def)
qed

section \<open>One plus sign\<close>

text \<open>The plus sign comes in time: the first one after the silence, another one within the duration.\<close>

definition in_time :: "tplus_ticks \<Rightarrow> u32 \<Rightarrow> AT_DISPATCH_T \<Rightarrow> bool" where
  "in_time T t th \<longleftrightarrow>
     (if tplusCount th = 0 then \<not> t - prevRecvTick th < ucast (uPlusLeadingTick T)
      else t - tplusStartTick th \<le> ucast (uPlusDurationTick T))"

lemma plus_held:
  assumes "disp_ok E x" "d_mode x = DISPATCH_MODE_DATA" "tplusCount x < TPLUS_BYTE_COUNT" "in_time T t x"
    and "d_buffLen x + 1 + TPLUS_BYTE_COUNT \<le> d_buffSize x" "disp_ok E z" "alike x z" "d_buffLen z + TPLUS_BYTE_COUNT \<le> d_buffSize z"
  shows "\<exists>y w. at_DispatchPushData T E t [CHAR_PLUS] x = Some y \<and> at_DispatchPushData T E t [] z = Some w \<and>
    disp_ok E y \<and> disp_ok E w \<and> alike y w \<and> d_mode y = DISPATCH_MODE_DATA \<and> tplusCount y = tplusCount x + 1 \<and>
    tplusStartTick y = (if tplusCount x = 0 then t else tplusStartTick x) \<and> channelId y = channelId x \<and>
    d_buffLen y + 1 + TPLUS_BYTE_COUNT \<le> d_buffSize y \<and> d_buffLen w + TPLUS_BYTE_COUNT \<le> d_buffSize w \<and>
    timer_calls (d_calls y) = timer_calls (d_calls x) @
      (if tplusCount x = 2 then [StartTplusTimer (uPlusTrailingTick T)] else [])"
proof -
  let ?u = "x\<lparr>prevRecvTick := t, tplusStartTick := (if tplusCount x = 0 then t else tplusStartTick x)\<rparr>"
  let ?v = "tplus_count T 1 ?u"
  have step: "at_DispatchTplusDetect T t [CHAR_PLUS] x = Some ?v"
    using assms(3,4) by (auto simp: at_DispatchTplusDetect_def Let_def in_time_def not_less)
  have v: "disp_ok E ?v" "alike ?v z" "tplusCount ?v = tplusCount x + 1" "d_buffLen ?v = d_buffLen x"
    "d_buffSize ?v = d_buffSize x" "tplusStartTick ?v = tplusStartTick ?u" "channelId ?v = channelId x" "d_mode ?v = d_mode x"
    "timer_calls (d_calls ?v) = timer_calls (d_calls x) @ (if tplusCount x = 2 then [StartTplusTimer (uPlusTrailingTick T)] else [])"
    using assms(1,3,7) by (auto simp: tplus_count_def Let_def dpcall_def disp_ok_def alike_def d_content_def eng_def timer_calls_def)
  have push: "at_DispatchPushData T E t [CHAR_PLUS] x = push_existing E ?v"
    using step assms(2,5) v(3) by (simp add: at_DispatchPushData_def append_input_def)
  have idle: "at_DispatchPushData T E t [] z = push_existing E z"
    using assms(8) by (simp add: at_DispatchPushData_def)
  from push_existing_alike [OF v(1) assms(6) v(2)] obtain y w where
    y: "push_existing E ?v = Some y" "push_existing E z = Some w" "disp_ok E y" "disp_ok E w" "alike y w"
      "timer_calls (d_calls y) = timer_calls (d_calls ?v)" "tplusCount y = tplusCount ?v" by blast
  show ?thesis
    using push idle y v push_existing_keeps [OF y(1)] push_existing_keeps [OF y(2)] assms(2,5,8)
    by (intro exI [of _ y] exI [of _ w]) auto
qed

section \<open>The whole sequence\<close>

text \<open>The mode switch of the module: no more than the command that started the data connection is left.\<close>

lemma serve_calls:
  "SetCmdMode \<notin> set k \<Longrightarrow> EndDataMode \<notin> set k \<Longrightarrow>
   fold serve_call k th = th\<lparr>cmdEngine := fold apply_call k (cmdEngine th)\<rparr>"
  by (induction k arbitrary: th) (auto simp: serve_call_def split: mod_call.split)

lemma escape_answered:
  assumes "mod_cmds m = [c]" "\<not> mod_freed m"
  shows "\<exists>m' k. at_ModuleModeSwitch S tt AT_MODE_SWITCH_DATA_ESCAPE m = Some m' \<and> mod_calls m' = mod_calls m @ k \<and>
    gPppState m' = AT_PPP_STATE_ESCAPE \<and> cmds_null m' \<and> text_out k = answer_text S OK \<and>
    (\<forall>th. d_mode (fold serve_call k th) = DISPATCH_MODE_CMD \<and> d_content (fold serve_call k th) = d_content th \<and>
      tplusCount (fold serve_call k th) = tplusCount th \<and> engine_ready (cmdEngine (fold serve_call k th)))"
proof -
  let ?h = "[SetCmdMode, Eng Op_SetLine] @ (if tt then [EscapeTransparent] else [])"
  let ?w = "if resultCodePresent S then [] else [code_text S 0]"
  let ?k = "?h @ MKillTimer # [Eng (Op_SetCmds False), MFree (at_CmdlistFree c), Eng Op_SetLine] @ map MWrite ?w @ [Eng Op_Finished]"
  let ?m = "with_calls m [c] ?h"
  have "mcall (Eng Op_SetLine) (mcall SetCmdMode m) = with_calls m [c] [SetCmdMode, Eng Op_SetLine]"
    using assms(1) by (simp add: mcall_def with_calls_def)
  then have "at_ModuleModeSwitch S tt AT_MODE_SWITCH_DATA_ESCAPE m = Some ((with_calls m [] ?k)\<lparr>gPppState := AT_PPP_STATE_ESCAPE\<rparr>)"
    using answer_ok [of ?m c "[]" S] assms(2) by (cases tt) (simp_all add: at_ModuleModeSwitch_def)
  moreover have "text_out ?k = answer_text S OK"
    by (simp add: answer_text_def code_text_def)
  moreover have "fold serve_call ?k th = (at_DispatchSetCmdMode th)\<lparr>cmdEngine := fold apply_call ?k (cmdEngine th)\<rparr>" for th
    by (simp add: serve_call_def apply_call_def at_DispatchSetCmdMode_def serve_calls)
  moreover have "engine_ready (fold apply_call ?k e)" for e
    using last_answer_ready(2) [of "?h @ [MKillTimer]" _ ?w e] by simp
  ultimately show ?thesis using assms(2)
    by (intro exI [of _ "(with_calls m [] ?k)\<lparr>gPppState := AT_PPP_STATE_ESCAPE\<rparr>"] exI [of _ ?k])
      (simp add: cmds_null_def at_DispatchSetCmdMode_def d_content_def)
qed


section \<open>Witness\<close>


end
