(* ===== verification/Cmd_Table_Lookup.thy ===== *)
theory Cmd_Table_Lookup
  imports Cmd_Table
begin

text \<open>
  The checksums stored in the command table are those of the names, no two are the same, and
  looking a command up is therefore looking its name up.
\<close>

section \<open>The checksums of the table\<close>

text \<open>The bitwise CRC on natural numbers, for evaluation.\<close>

definition nstep :: "nat \<Rightarrow> nat" where
  "nstep s = (if odd s then drop_bit 1 s XOR 0xedb88320 else drop_bit 1 s)"

definition nbyte :: "nat \<Rightarrow> nat \<Rightarrow> nat" where
  "nbyte s b = nstep (nstep (nstep (nstep (nstep (nstep (nstep (nstep (s XOR b))))))))"

definition ncrc :: "nat list \<Rightarrow> nat" where
  "ncrc bs = foldl nbyte 0xffffffff bs XOR 0xffffffff"

lemma odd_unat: "odd (unat s) = odd (s :: 'a::len word)"
  by (simp add: bit_unsigned_iff flip: bit_0)

lemma unat_byte_u32: "unat (ucast (b :: u8) :: u32) = unat b"
  using less_trans [OF unat_lt_256 [of b], of "2 ^ 32"] by (simp add: unsigned_ucast_eq take_bit_nat_eq_self)

lemma nstep_unat: "nstep (unat s) = unat (crc_step crc32_poly s)"
  by (simp add: nstep_def crc_step_def crc32_poly_def unsigned_xor_eq unat_drop_bit_eq odd_unat del: drop_bit_Suc)

lemma nbyte_unat: "nbyte (unat s) (unat b) = unat (crc_byte crc32_poly s b)"
proof -
  have "unat (s XOR ucast b) = unat s XOR unat b" by (simp add: unsigned_xor_eq unat_byte_u32)
  then show ?thesis by (simp add: nbyte_def crc_byte_def funpow_8 flip: nstep_unat)
qed

lemma ncrc_unat: "ncrc (map unat bs) = unat (crc_ref crc32_poly 0xffffffff bs XOR 0xffffffff)"
proof -
  have "foldl nbyte (unat s) (map unat bs) = unat (crc_ref crc32_poly s bs)" for s
    unfolding crc_ref_def by (induction bs arbitrary: s) (simp_all add: nbyte_unat)
  from this [of "0xffffffff"] show ?thesis by (simp add: ncrc_def unsigned_xor_eq)
qed

lemma unat_ascii: "map unat (ascii n) = map of_char n"
proof -
  have "unat (of_char c :: u8) = of_char c" for c :: char
  proof -
    have "unat (of_nat (of_char c) :: u8) = of_char c mod 256" by (simp add: unat_of_nat)
    then have "unat (of_nat (of_char c) :: u8) = of_char c" by simp
    then show ?thesis by (simp only: of_nat_of_char)
  qed
  then show ?thesis by (simp add: ascii_def)
qed

definition entry_ok :: "SA_COMMAND_TABLE_T \<Rightarrow> bool" where
  "entry_ok e \<longleftrightarrow> cmd_crc32 e = crc32Calc (Some (pName e)) \<and> map upcase (pName e) = pName e \<and> 0 \<notin> set (pName e)"

lemma entry_okI:
  assumes "n \<noteq> []" "unat c = ncrc (map of_char n)" "list_all (\<lambda>x. 0 < x \<and> x < 97) (map of_char n :: nat list)"
  shows "entry_ok (cmd_entry n c f m)"
proof -
  have crc: "c = crc_ref crc32_poly 0xffffffff (ascii n) XOR 0xffffffff"
    using assms(2) by (simp add: ncrc_unat word_unat_eq_iff flip: unat_ascii)
  have b: "0 < unat b \<and> unat b < 97" if "b \<in> set (ascii n)" for b
    using assms(3) that unfolding unat_ascii [symmetric] by (simp add: list_all_iff)
  have "upcase b = b \<and> b \<noteq> 0" if "b \<in> set (ascii n)" for b
    using b [OF that] by (auto simp: upcase_def word_le_nat_alt)
  then have "map upcase (ascii n) = ascii n" "0 \<notin> set (ascii n)"
    by (auto intro!: map_idI)
  then show ?thesis using crc assms(1)
    by (simp add: entry_ok_def cmd_entry_def crc32Calc_def crc32_run_ref ascii_def)
qed

lemmas entry_eval = ncrc_def nbyte_def nstep_def of_char_def

lemma cmds_general_ok: "list_all entry_ok cmds_general"
  unfolding cmds_general_def list.pred_inject by (intro conjI entry_okI TrueI) (simp_all add: entry_eval)

lemma cmds_tts_ok: "list_all entry_ok cmds_tts"
  unfolding cmds_tts_def list.pred_inject by (intro conjI entry_okI TrueI) (simp_all add: entry_eval)

lemma cmds_modem_ok: "list_all entry_ok cmds_modem"
  unfolding cmds_modem_def list.pred_inject by (intro conjI entry_okI TrueI) (simp_all add: entry_eval)

lemma cmds_ftm_ok: "list_all entry_ok cmds_ftm"
  unfolding cmds_ftm_def list.pred_inject by (intro conjI entry_okI TrueI) (simp_all add: entry_eval)

lemma cmds_services_ok: "list_all entry_ok cmds_services"
  unfolding cmds_services_def list.pred_inject by (intro conjI entry_okI TrueI) (simp_all add: entry_eval)

lemma table_ok: "list_all entry_ok (g_AtCommandTable tts ftm)"
  by (simp add: g_AtCommandTable_def cmds_general_ok cmds_tts_ok cmds_modem_ok cmds_ftm_ok cmds_services_ok)

lemma entry_crc: "unat (cmd_crc32 (cmd_entry n c f m)) = unat c"
  by (simp add: cmd_entry_def)

lemma all_crcs_distinct: "distinct (map (\<lambda>e. unat (cmd_crc32 e)) (g_AtCommandTable True True))"
  unfolding g_AtCommandTable_def cmds_general_def cmds_tts_def cmds_modem_def cmds_ftm_def cmds_services_def
    if_True append.simps list.map entry_crc
  by simp

lemma crcs_distinct: "distinct (map cmd_crc32 (g_AtCommandTable tts ftm))"
proof -
  have "distinct (map cmd_crc32 (g_AtCommandTable True True))"
    using distinct_map [of unat "map cmd_crc32 (g_AtCommandTable True True)"] all_crcs_distinct
    by (simp add: comp_def)
  then show ?thesis by (cases tts; cases ftm) (auto simp: g_AtCommandTable_def)
qed

section \<open>Lookup is by name\<close>

lemma is_upper_unat: "is_upper c \<longleftrightarrow> 65 \<le> unat c \<and> unat c \<le> 90"
  by (simp add: is_upper_def word_le_nat_alt)

lemma is_lower_unat: "is_lower c \<longleftrightarrow> 97 \<le> unat c \<and> unat c \<le> 122"
  by (simp add: is_lower_def word_le_nat_alt)

lemma unat_up: "is_upper c \<Longrightarrow> unat (c + 32) = unat c + 32"
  by (simp add: is_upper_unat unat_plus_if')

lemma unat_upcase: "unat (upcase c) = (if is_lower c then unat c - 32 else unat c)"
  by (auto simp: upcase_def is_lower_def word_le_nat_alt unat_sub_if')

lemma upcase_fold:
  "fst (fold_pair a b) = snd (fold_pair a b) \<longleftrightarrow> upcase a = upcase b"
  by (auto simp: fold_pair_def word_unat_eq_iff unat_upcase unat_up) (auto simp: is_upper_unat is_lower_unat)

lemma upcase_0 [simp]: "upcase c = 0 \<longleftrightarrow> c = 0"
  by (auto simp: word_unat_eq_iff unat_upcase is_lower_unat)

lemma upcase_idem [simp]: "upcase (upcase c) = upcase c"
  by (auto simp: word_unat_eq_iff unat_upcase is_lower_unat)

lemma fold_0: "fold_pair 0 b = (0, b)" "fold_pair a 0 = (a, 0)"
  by (auto simp: fold_pair_def is_upper_unat is_lower_unat)

lemma fold_ne_0: "a \<noteq> 0 \<Longrightarrow> fst (fold_pair a b) \<noteq> 0"
  by (auto simp: fold_pair_def word_unat_eq_iff unat_up)

lemma strnicmp_equal:
  "0 \<notin> set a \<Longrightarrow> 0 \<notin> set b \<Longrightarrow> n = max (length a) (length b) \<Longrightarrow>
   \<exists>r. strnicmp_loop n (a @ 0 # x) (b @ 0 # y) = Some r \<and> (r = 0 \<longleftrightarrow> map upcase a = map upcase b)"
proof (induction n arbitrary: a b)
  case (Suc n)
  show ?case
  proof (cases "a = [] \<or> b = []")
    case True
    then show ?thesis using Suc.prems by (cases a; cases b) (auto simp: fold_0 uint_0_iff)
  next
    case False
    then obtain c a' d b' where ab: "a = c # a'" "b = d # b'" by (cases a; cases b) auto
    obtain e f where ef: "fold_pair c d = (e, f)" by fastforce
    have "c \<noteq> 0" using Suc.prems(1) ab by auto
    then have e: "e \<noteq> 0" using fold_ne_0 [of c d] ef by simp
    have eq: "e = f \<longleftrightarrow> upcase c = upcase d" using upcase_fold [of c d] ef by simp
    have "\<exists>r. strnicmp_loop n (a' @ 0 # x) (b' @ 0 # y) = Some r \<and> (r = 0 \<longleftrightarrow> map upcase a' = map upcase b')"
      using Suc.prems ab by (intro Suc.IH) auto
    then show ?thesis using e eq by (auto simp: ab ef simp flip: word_uint_eq_iff)
  qed
qed simp

lemma StrCaselessCmp_equal:
  assumes "0 \<notin> set a" "0 \<notin> set b"
  shows "\<exists>r. AT_StrCaselessCmp (a @ 0 # x) (b @ 0 # y) = Some r \<and> (r = 0 \<longleftrightarrow> map upcase a = map upcase b)"
proof -
  have m: "(if length b < length a then length a else length b) = max (length a) (length b)" by simp
  show ?thesis
    using strnicmp_equal [OF assms refl, of x y] assms
    unfolding AT_StrCaselessCmp_def strnicmp_def by (simp add: m)
qed

lemma find_crc_None: "find_crc c t = None \<longleftrightarrow> c \<notin> set (map cmd_crc32 t)"
  by (induction t) auto

lemma find_crc_Some: "find_crc c t = Some i \<Longrightarrow> i < length t \<and> cmd_crc32 (t ! i) = c"
  by (induction t arbitrary: i) (auto split: if_splits)

lemma lookup_find:
  assumes "list_all entry_ok t" "distinct (map cmd_crc32 t)" "0 \<notin> set n"
  shows "at_GetCmdDescriptor t (n @ [0]) (length n) =
    Some (find (\<lambda>e. pName e = map upcase n) t, map upcase n @ [0])"
proof -
  let ?u = "map upcase n"
  have u: "map upcase ?u = ?u" "0 \<notin> set ?u"
    using assms(3) by (simp_all add: image_iff eq_commute [of 0])
  have search: "atSearch t (n @ [0]) (length n) = Some (find_crc (crc32Calc (Some ?u)) t, ?u @ [0])"
    by (simp add: atSearch_def rd_block_def)
  have ok: "cmd_crc32 e = crc32Calc (Some (pName e))" "map upcase (pName e) = pName e" "0 \<notin> set (pName e)"
    if "e \<in> set t" for e
    using assms(1) that by (auto simp: list_all_iff entry_ok_def)
  show ?thesis
  proof (cases "find_crc (crc32Calc (Some ?u)) t")
    case None
    then have "find (\<lambda>e. pName e = ?u) t = None"
      using ok(1) by (force simp: find_crc_None find_None_iff)
    then show ?thesis using None search by (simp add: at_GetCmdDescriptor_def)
  next
    case (Some i)
    then have i: "i < length t" "cmd_crc32 (t ! i) = crc32Calc (Some ?u)" using find_crc_Some by auto
    then have mem: "t ! i \<in> set t" by simp
    obtain r where r: "AT_StrCaselessCmp (?u @ 0 # []) (pName (t ! i) @ 0 # []) = Some r"
      "r = 0 \<longleftrightarrow> ?u = pName (t ! i)"
      using StrCaselessCmp_equal [OF u(2) ok(3) [OF mem], of "[]" "[]"] unfolding u(1) ok(2) [OF mem] by blast
    have only: "t ! j = t ! i" if "j < length t" "pName (t ! j) = ?u" for j
    proof -
      have "cmd_crc32 (t ! j) = cmd_crc32 (t ! i)" using ok(1) [of "t ! j"] that i(2) by simp
      then have "j = i" using nth_eq_iff_index_eq [OF assms(2), of j i] that(1) i(1) by simp
      then show ?thesis by simp
    qed
    have "find (\<lambda>e. pName e = ?u) t = (if pName (t ! i) = ?u then Some (t ! i) else None)"
    proof (cases "find (\<lambda>e. pName e = ?u) t")
      case None
      then show ?thesis using mem by (auto simp: find_None_iff)
    next
      case (Some e)
      then obtain j where "j < length t" "pName (t ! j) = ?u" "e = t ! j" by (auto simp: find_Some_iff)
      then show ?thesis using only [of j] Some by simp
    qed
    then show ?thesis using Some search i(1) r by (auto simp: at_GetCmdDescriptor_def rd_in)
  qed
qed

text \<open>
  C39: whatever the build switches, looking a name up in the command table, in upper or lower
  case, yields the entry of that name where the table has one and none otherwise: every
  stored checksum is that of its name, and no two names share one.
\<close>

theorem command_lookup:
  assumes "0 \<notin> set n"
  shows "at_GetCmdDescriptor (g_AtCommandTable tts ftm) (n @ [0]) (length n) =
    Some (find (\<lambda>e. pName e = map upcase n) (g_AtCommandTable tts ftm), map upcase n @ [0])"
  by (rule lookup_find [OF table_ok crcs_distinct assms])

theorem command_lookup_witness:
  "at_GetCmdDescriptor (g_AtCommandTable False True) [0x61, 0x54, 0] 2 =
     Some (Some (cmd_entry ''AT'' 0xC4BDF956 ''SA_DefaultCmdHandler_AT'' 1), [0x41, 0x54, 0])"
proof -
  have m: "map upcase [0x61, 0x54] = [0x41, 0x54]" by (simp add: upcase_def)
  have f: "find (\<lambda>e. pName e = [0x41, 0x54]) (g_AtCommandTable False True) =
      Some (cmd_entry ''AT'' 0xC4BDF956 ''SA_DefaultCmdHandler_AT'' 1)"
    by (simp add: g_AtCommandTable_def cmds_general_def cmd_entry_def ascii_def of_char_def)
  have "0 \<notin> set [0x61, 0x54 :: u8]" by simp
  from command_lookup [OF this, of False True] show ?thesis
    by (simp only: m f append.simps list.size numeral_2_eq_2 add_0 add_Suc_right add_0_right)
qed

end
