(* ===== verification/Cmd_Param.thy ===== *)
theory Cmd_Param
  imports Cmd_Parse
begin

text \<open>
  Reading parameters: strings with escapes, numbers, hexadecimal data and DTMF. Every reader
  works in the memory of the parameter; the lemmas on the loops keep track of what is written,
  what is still to be read and the gap between them.
\<close>

section \<open>Strings with escapes\<close>

lemma rd_at: "rd (a @ c # r) (length a) = Some c"
  by (simp add: rd_def)

lemma wr_at: "length out = d \<Longrightarrow> wr (out @ h # t) d x = Some (out @ x # t)"
  by (auto simp: wr_def)

text \<open>The text between the quotes with its escapes replaced.\<close>

fun unescape :: "bytes \<Rightarrow> bytes" where
  "unescape [] = []"
| "unescape [c] = [c]"
| "unescape [c, a] = [c, a]"
| "unescape (c # a # b # r) =
     (if c = 0x5c \<and> SUL_isalnum a \<and> SUL_isalnum b then hex_pair a b # unescape r
      else c # unescape (a # b # r))"

lemma is_escape_at:
  "is_escape (length (a # b # r)) (length o1) 0x5c (o1 @ a # b # r @ rest) = Some (SUL_isalnum a \<and> SUL_isalnum b)"
  using rd_at [of o1 a "b # r @ rest"] rd_at [of "o1 @ [a]" b "r @ rest"] by (simp add: is_escape_def)

lemma str_loop_unescape:
  "length out = d \<Longrightarrow> junk \<noteq> [] \<Longrightarrow> s = d + length junk \<Longrightarrow>
   \<exists>junk'. str_loop (length body) s d (out @ junk @ body @ rest) =
       Some (d + length (unescape body), out @ unescape body @ junk' @ rest) \<and>
     length (unescape body) + length junk' = length junk + length body \<and> junk' \<noteq> []"
proof (induction body arbitrary: out d junk s rule: unescape.induct)
  case 1
  then show ?case by (intro exI [of _ junk]) simp
next
  case (2 c)
  obtain h t where junk: "junk = h # t" using 2(2) by (cases junk) auto
  have r: "rd (out @ junk @ [c] @ rest) s = Some c"
    using rd_at [of "out @ junk" c rest] 2 by simp
  then show ?case using 2(1) by (simp add: is_escape_def junk wr_at)
next
  case (3 c a)
  obtain h t where junk: "junk = h # t" using 3(2) by (cases junk) auto
  have r: "rd (out @ junk @ [c, a] @ rest) s = Some c" "rd (out @ c # t @ [c, a] @ rest) (s + 1) = Some a"
    using rd_at [of "out @ junk" c "a # rest"] rd_at [of "out @ c # t @ [c]" a rest] 3 junk by simp_all
  have w: "wr ((out @ [c]) @ (t @ [c, a]) @ rest) (d + 1) a = Some ((out @ [c]) @ (a # tl (t @ [c, a])) @ rest)"
    using 3(1) wr_at [of "out @ [c]" "d + 1" "hd (t @ [c, a])" "tl (t @ [c, a]) @ rest" a] by (cases t) simp_all
  show ?case using r w 3(1) by (intro exI [of _ "tl (t @ [c, a])"]) (cases t; simp add: is_escape_def junk wr_at)
next
  case (4 c a b r)
  obtain h t where junk: "junk = h # t" using 4(4) by (cases junk) auto
  have rc: "rd (out @ junk @ (c # a # b # r) @ rest) s = Some c"
    using rd_at [of "out @ junk" c "a # b # r @ rest"] 4(3,5) by simp
  have esc: "is_escape (length (a # b # r)) (s + 1) c (out @ junk @ (c # a # b # r) @ rest) =
      Some (c = 0x5c \<and> SUL_isalnum a \<and> SUL_isalnum b)"
    using is_escape_at [of a b r "out @ junk @ [c]" rest] 4(3,5) by (cases "c = 0x5c") (simp_all add: is_escape_def)
  show ?case
  proof (cases "c = 0x5c \<and> SUL_isalnum a \<and> SUL_isalnum b")
    case True
    have ch: "escape_char (s + 1) (out @ junk @ (c # a # b # r) @ rest) = Some (hex_pair a b)"
      using rd_at [of "out @ junk @ [c]" a "b # r @ rest"] rd_at [of "out @ junk @ [c, a]" b "r @ rest"] 4(3,5)
      by (simp add: escape_char_def)
    have "\<exists>junk'. str_loop (length r) (s + 3) (d + 1) ((out @ [hex_pair a b]) @ (t @ [c, a, b]) @ r @ rest) =
        Some (d + 1 + length (unescape r), (out @ [hex_pair a b]) @ unescape r @ junk' @ rest) \<and>
        length (unescape r) + length junk' = length (t @ [c, a, b]) + length r \<and> junk' \<noteq> []"
      using 4(3-5) junk by (intro 4(1) [OF True]) simp_all
    then show ?thesis using rc esc ch True 4(3) by (auto simp: junk wr_at)
  next
    case False
    have "\<exists>junk'. str_loop (length (a # b # r)) (s + 1) (d + 1) ((out @ [c]) @ (t @ [c]) @ (a # b # r) @ rest) =
        Some (d + 1 + length (unescape (a # b # r)), (out @ [c]) @ unescape (a # b # r) @ junk' @ rest) \<and>
        length (unescape (a # b # r)) + length junk' = length (t @ [c]) + length (a # b # r) \<and> junk' \<noteq> []"
      using 4(3-5) junk by (intro 4(2) [OF False]) simp_all
    then show ?thesis using rc esc False 4(3)
      by (auto simp: junk wr_at simp del: str_loop.simps(2) unescape.simps) (simp_all add: junk wr_at)
  qed
qed

text \<open>A parameter as the parser makes it: quotes around the text, a NUL behind it.\<close>

definition quoted :: "bytes \<Rightarrow> AT_COMMAND_PARAM_T" where
  "quoted body = \<lparr>par_type = AT_CMDPARAM_STRING, par_length = of_nat (length body + 2),
     par_value = 0x22 # body @ [0x22, 0]\<rparr>"

lemma unat_of_nat_u16: "n < 65536 \<Longrightarrow> unat (of_nat n :: u16) = n"
  by (simp add: unat_of_nat)

lemma quoted_length:
  assumes "length body + 2 < 65536"
  shows "unat (par_length (quoted body) - 2) = length body" "2 \<le> par_length (quoted body)"
proof -
  have u: "unat (of_nat (length body + 2) :: u16) = length body + 2" using assms by (rule unat_of_nat_u16)
  then show "2 \<le> par_length (quoted body)" by (simp add: quoted_def word_le_nat_alt)
  then show "unat (par_length (quoted body) - 2) = length body"
    using unat_of_nat_u16 [of "length body"] assms by (simp add: quoted_def)
qed

lemma StrParse_quoted:
  assumes "length body + 2 < 65536"
  shows "\<exists>q. at_ParamStrParse (quoted body) = Some q \<and> par_type q = AT_CMDPARAM_STRING_PARSED \<and>
    unat (par_length q) = length (unescape body) \<and>
    take (length (unescape body) + 1) (par_value q) = unescape body @ [0]"
proof -
  have "\<exists>junk'. str_loop (length body) 1 0 ([] @ [0x22] @ body @ [0x22, 0]) =
      Some (0 + length (unescape body), [] @ unescape body @ junk' @ [0x22, 0]) \<and>
      length (unescape body) + length junk' = length [0x22 :: u8] + length body \<and> junk' \<noteq> []"
    by (rule str_loop_unescape) simp_all
  then obtain junk' where
    l: "str_loop (length body) 1 0 (0x22 # body @ [0x22, 0]) =
      Some (length (unescape body), unescape body @ junk' @ [0x22, 0])" and
    len: "length (unescape body) + length junk' = 1 + length body" and ne: "junk' \<noteq> []" by auto
  obtain h t where j: "junk' = h # t" using ne by (cases junk') auto
  have "length (unescape body) < 65536" using len assms by simp
  then have "unat (of_nat (length (unescape body)) :: u16) = length (unescape body)" by (rule unat_of_nat_u16)
  moreover have "at_ParamStrParse (quoted body) = Some ((quoted body)\<lparr>par_length := of_nat (length (unescape body)),
      par_value := unescape body @ 0 # t @ [0x22, 0], par_type := AT_CMDPARAM_STRING_PARSED\<rparr>)"
    using l quoted_length(1) [OF assms] by (simp add: at_ParamStrParse_def quoted_def j wr_at)
  ultimately show ?thesis by simp
qed

text \<open>
  A quoted string parameter is read as its text with the escapes replaced, in place and
  within its memory, ended by a NUL, and reading it again gives the same.
\<close>

theorem string_param:
  assumes "length body + 2 < 65536"
  shows "\<exists>q. at_ParamStr (Some (quoted body)) True = Some (ParamValue, Some q, True) \<and>
    take (length (unescape body) + 1) (par_value q) = unescape body @ [0] \<and>
    unat (par_length q) = length (unescape body) \<and>
    at_ParamStr (Some q) True = Some (ParamValue, Some q, True)"
  using StrParse_quoted [OF assms] quoted_length(2) [OF assms]
  by (auto simp: at_ParamStr_def) (auto simp: quoted_def)

section \<open>Escaping\<close>

definition hexdigit :: "u8 \<Rightarrow> u8" where
  "hexdigit n = (if n < 10 then 48 + n else 55 + n)"

definition hex_of :: "u8 \<Rightarrow> bytes" where
  "hex_of c = [hexdigit (drop_bit 4 c), hexdigit (take_bit 4 c)]"

lemma nibble_less: "unat (drop_bit 4 (c :: u8)) < 16" "unat (take_bit 4 (c :: u8)) < 16"
proof -
  show "unat (drop_bit 4 c) < 16"
    unfolding unat_drop_bit_eq using unat_lt_256 [of c] by (simp add: drop_bit_eq_div del: unat_lt_256)
  have "unat (take_bit 4 c) = take_bit 4 (unat c)" by (rule unsigned_take_bit_eq)
  then show "unat (take_bit 4 c) < 16" using take_bit_nat_less_exp [of 4 "unat c"] by simp
qed

lemma unat_hexdigit: "unat n < 16 \<Longrightarrow> unat (hexdigit n) = (if unat n < 10 then 48 + unat n else 55 + unat n)"
  by (simp add: hexdigit_def word_less_nat_alt unat_plus_if')

lemma uint_hexdigit:
  assumes "unat n < 16"
  shows "uint (hexdigit n) = int (if unat n < 10 then 48 + unat n else 55 + unat n)"
  by (simp only: uint_nat unat_hexdigit [OF assms])

lemma HEX2NUM_hexdigit: "unat n < 16 \<Longrightarrow> HEX2NUM (hexdigit n) = int (unat n)"
  using unat_hexdigit [of n] uint_hexdigit [of n] by (simp add: HEX2NUM_def word_le_nat_alt split: if_splits)

lemma Hex2Num_hexdigit: "unat n < 16 \<Longrightarrow> at_ParamHex2Num (hexdigit n) = int (unat n)"
  using unat_hexdigit [of n] uint_hexdigit [of n] by (simp add: at_ParamHex2Num_def word_le_nat_alt split: if_splits)

lemma alnum_hexdigit: "unat n < 16 \<Longrightarrow> SUL_isalnum (hexdigit n)"
  using unat_hexdigit [of n] by (simp add: SUL_isalnum_def word_le_nat_alt split: if_splits)

lemma nibbles_join: "of_int (push_bit 4 (int (unat (drop_bit 4 c))) OR int (unat (take_bit 4 c))) = (c :: u8)"
proof -
  have "(of_int (push_bit 4 (uint (drop_bit 4 c)) OR uint (take_bit 4 c)) :: u8) = push_bit 4 (drop_bit 4 c) OR take_bit 4 c"
    by (simp only: of_int_or_eq push_bit_of_int [symmetric]) simp
  also have "\<dots> = c" by (rule bit_word_eqI) (auto simp: bit_or_iff bit_push_bit_iff bit_drop_bit_eq bit_take_bit_iff)
  finally show ?thesis by simp
qed

definition esc_char :: "u8 \<Rightarrow> bytes" where
  "esc_char c = (if c = 0x22 \<or> c = 0x5c \<or> c < 0x20 then 0x5c # hex_of c else [c])"

definition escape_text :: "bytes \<Rightarrow> bytes" where
  "escape_text s = concat (map esc_char s)"

lemma unescape_plain: "c \<noteq> 0x5c \<Longrightarrow> unescape (c # r) = c # unescape r"
  by (cases r rule: unescape.cases) auto

lemma unescape_esc: "unescape (0x5c # hex_of c @ r) = c # unescape r"
  using nibbles_join [of c]
  by (simp add: hex_of_def alnum_hexdigit nibble_less hex_pair_def HEX2NUM_hexdigit)

lemma unescape_escape: "unescape (escape_text s) = s"
proof (induction s)
  case (Cons c s)
  then show ?case using unescape_esc [of c "escape_text s"]
    by (auto simp: escape_text_def esc_char_def unescape_plain simp del: unescape.simps)
qed (simp add: escape_text_def)

text \<open>
  Any text written with its quotes, backslashes and control characters escaped is read
  back as it was.
\<close>

theorem string_roundtrip:
  assumes "length (escape_text s) + 2 < 65536"
  shows "\<exists>q. at_ParamStr (Some (quoted (escape_text s))) True = Some (ParamValue, Some q, True) \<and>
    take (length s + 1) (par_value q) = s @ [0] \<and> 0x22 \<notin> set (escape_text s)"
proof -
  have "0x22 \<notin> set (esc_char c)" for c
    using nibble_less [of c] unat_hexdigit [of "drop_bit 4 c"] unat_hexdigit [of "take_bit 4 c"]
    by (auto simp: esc_char_def hex_of_def word_unat_eq_iff split: if_splits)
  then have "0x22 \<notin> set (escape_text s)" by (auto simp: escape_text_def)
  then show ?thesis
    using StrParse_quoted [OF assms] quoted_length(2) [OF assms] unescape_escape [of s]
    by (auto simp: at_ParamStr_def) (auto simp: quoted_def)
qed

section \<open>Short strings\<close>

lemma is_escape_True: "is_escape m s c v = Some True \<Longrightarrow> 2 \<le> m \<and> s + 1 < length v"
  by (auto simp: is_escape_def rd_def split: if_splits bind_splits)

lemma str_loop_beyond: "length v < s + n \<Longrightarrow> 0 < n \<Longrightarrow> str_loop n s d v = None"
proof (induction n arbitrary: s d v rule: less_induct)
  case (less n)
  then obtain m where n: "n = Suc m" by (cases n) auto
  show ?case
  proof (cases "rd v s")
    case None
    then show ?thesis by (simp add: n)
  next
    case (Some c)
    then have s: "s < length v" by (simp add: rd_eq_Some)
    have plain: "str_loop m (s + 1) (d + 1) w = None" if "wr v d x = Some w" for w x
      using that less s n by (auto simp: wr_eq_Some)
    have esc: "str_loop (m - 2) (s + 3) (d + 1) w = None"
      if "wr v d x = Some w" "2 \<le> m" "s + 2 < length v" for w x
      using that less(2) n by (intro less.IH) (auto simp: wr_eq_Some)
    show ?thesis
    proof (cases "is_escape m (s + 1) c v")
      case None
      then show ?thesis using Some by (simp add: n)
    next
      case (Some e)
      show ?thesis
      proof (cases e)
        case True
        then have "2 \<le> m" "s + 2 < length v" using is_escape_True [of m "s + 1" c v] Some by auto
        then have "str_loop (m - 2) (s + 3) (d + 1) w = None" if "wr v d x = Some w" for w x
          using esc that by blast
        then show ?thesis using Some True \<open>rd v s = Some c\<close> by (auto simp: n split: bind_splits)
      next
        case False
        then show ?thesis using Some plain \<open>rd v s = Some c\<close> by (auto simp: n split: bind_splits)
      qed
    qed
  qed
qed

text \<open>
  Read as hexadecimal data, a string parameter of fewer than two characters makes the
  parser run out of the parameter: its length less the quotes wraps around.
\<close>

theorem short_string_overrun:
  assumes "par_type p = AT_CMDPARAM_STRING" "par_length p < 2" "length (par_value p) \<le> 65534"
  shows "at_ParamHexData (Some p) len True = None"
proof -
  have "par_length p = 0 \<or> par_length p = 1"
    using assms(2) by (auto simp: word_less_nat_alt word_unat_eq_iff)
  then have "unat (par_length p - 2) \<ge> 65534" by (elim disjE) (simp_all add: unsigned_minus_1_eq_mask mask_eq_exp_minus_1)
  then have "str_loop (unat (par_length p - 2)) 1 0 (par_value p) = None"
    using assms(3) by (intro str_loop_beyond) simp_all
  then show ?thesis using assms(1) by (simp add: at_ParamHexData_def is_numeric_def at_ParamStrParse_def)
qed


section \<open>Numbers\<close>

text \<open>A numeric parameter with text \<open>t\<close>.\<close>

definition number :: "bytes \<Rightarrow> AT_COMMAND_PARAM_T" where
  "number t = \<lparr>par_type = AT_CMDPARAM_NUMBER, par_length = of_nat (length t), par_value = t @ [0]\<rparr>"

text \<open>
  An unsigned number is read as it was written, and one that does not fit into 32 bits as
  the largest number; both are accepted.
\<close>

theorem uint_decimal:
  "at_ParamUint (Some (number (decimal n))) True = (if n < 2 ^ 32 then of_nat n else 0xffffffff, True)"
  using decimal_digits [of n] by (simp add: at_ParamUint_def number_def is_numeric_def strtoul_decimal)

text \<open>
  A number too large for 32 bits is accepted as the signed value -1, in every range and
  list that has it.
\<close>

theorem int_overflow_minus_one:
  assumes "2 ^ 32 \<le> n" "lo \<le> - 1" "- 1 \<le> hi" "- 1 \<in> set vs"
  shows "at_ParamInt (Some (number (decimal n))) True = (- 1, True) \<and>
    at_ParamIntInRange (Some (number (decimal n))) lo hi True = (- 1, True) \<and>
    at_ParamIntInList (Some (number (decimal n))) vs True = Some (- 1, True)"
proof -
  have "sint (0xffffffff :: u32) = - 1" by simp
  then have i: "at_ParamInt (Some (number (decimal n))) True = (- 1, True)"
    using decimal_digits [of n] assms(1) by (simp add: at_ParamInt_def number_def is_numeric_def strtoul_decimal)
  have "at_ParamIntCheckList x xs \<longleftrightarrow> x \<in> set xs" for x xs by (induction xs) auto
  then show ?thesis using i assms by (simp add: at_ParamIntInRange_def at_ParamIntInList_def)
qed

lemma CheckList_mem: "at_ParamUintCheckList x xs \<longleftrightarrow> x \<in> set xs"
  by (induction xs) auto

text \<open>
  What the readers of ranges and lists accept is in the range or list, and an optional
  parameter is only replaced by its default when it is absent.
\<close>

theorem uint_checked:
  assumes "at_ParamDefUintInRange param def lo hi ok = (r, True)" "at_ParamDefUintInList param def' vs ok = Some (r', True)"
  shows "ok \<and> (lo \<le> r \<and> r \<le> hi \<or> r = def \<and> absent param) \<and> (r' \<in> set vs \<or> r' = def' \<and> absent param)"
  using assms
  by (auto simp: at_ParamDefUintInRange_def at_ParamUintInRange_def at_ParamDefUintInList_def at_ParamUintInList_def
      at_ParamUint_def CheckList_mem split: if_splits prod.splits option.splits bind_splits)

section \<open>Hexadecimal data\<close>

definition hex_text :: "bytes \<Rightarrow> bytes" where
  "hex_text bs = concat (map hex_of bs)"

lemma hex_text_simps [simp]: "hex_text [] = []" "hex_text (c # bs) = hex_of c @ hex_text bs"
  by (simp_all add: hex_text_def)

lemma length_hex_text [simp]: "length (hex_text bs) = 2 * length bs"
  by (induction bs) (simp_all add: hex_of_def)

lemma hex_text_digit: "c \<in> set (hex_text bs) \<Longrightarrow> 0 \<le> at_ParamHex2Num c"
  using nibble_less by (auto simp: hex_text_def hex_of_def Hex2Num_hexdigit)

lemma hex_check_all:
  "\<forall>c \<in> set t. 0 \<le> at_ParamHex2Num c \<Longrightarrow> i = length p \<Longrightarrow> hex_check (length t) i (p @ t @ r) = Some True"
proof (induction t arbitrary: i p)
  case (Cons c t)
  have "hex_check (length t) (i + 1) ((p @ [c]) @ t @ r) = Some True"
    using Cons.prems by (intro Cons.IH) simp_all
  then show ?case using Cons.prems rd_at [of p c "t @ r"] by simp
qed simp

lemma hex_loop_text:
  "length out = d \<Longrightarrow> length junk = d \<Longrightarrow>
   \<exists>junk'. hex_loop (length bs) d (out @ junk @ hex_text bs @ rest) = Some (out @ bs @ junk' @ rest)"
proof (induction bs arbitrary: out d junk)
  case Nil
  then show ?case by (intro exI [of _ junk]) simp
next
  case (Cons c bs)
  let ?a = "hexdigit (drop_bit 4 c)" and ?b = "hexdigit (take_bit 4 c)"
  have rds: "rd (out @ junk @ ?a # ?b # hex_text bs @ rest) (2 * d) = Some ?a"
    "rd (out @ junk @ ?a # ?b # hex_text bs @ rest) (2 * d + 1) = Some ?b"
    using rd_at [of "out @ junk" ?a "?b # hex_text bs @ rest"] rd_at [of "out @ junk @ [?a]" ?b "hex_text bs @ rest"] Cons.prems
    by (simp_all add: mult_2)
  obtain h t where ht: "junk @ [?a, ?b] = h # t" by (cases "junk @ [?a, ?b]") auto
  have len: "length t = d + 1" using arg_cong [OF ht, of length] Cons.prems by simp
  have val: "of_int (push_bit 4 (at_ParamHex2Num ?a) OR at_ParamHex2Num ?b) = c"
    using nibbles_join [of c] nibble_less [of c] by (simp add: Hex2Num_hexdigit)
  have mem: "out @ junk @ ?a # ?b # hex_text bs @ rest = out @ h # t @ hex_text bs @ rest"
    using ht by (metis append.assoc append_Cons append_Nil)
  have "wr (out @ junk @ ?a # ?b # hex_text bs @ rest) d c = Some (out @ c # t @ hex_text bs @ rest)"
    unfolding mem using Cons.prems(1) by (rule wr_at)
  moreover have "\<exists>junk'. hex_loop (length bs) (d + 1) ((out @ [c]) @ t @ hex_text bs @ rest) =
      Some ((out @ [c]) @ bs @ junk' @ rest)"
    using Cons.prems(1) len by (intro Cons.IH) simp_all
  ultimately show ?case using rds val by (simp add: hex_of_def)
qed

text \<open>
  The digits of any bytes are read back as the bytes, in place, when the length asked for
  is theirs.
\<close>

theorem hexdata_roundtrip:
  assumes "length bs < 32768"
  shows "\<exists>q. at_ParamHexData (Some (number (hex_text bs))) (of_nat (length bs)) True = Some (ParamValue, Some q, True) \<and>
    take (length bs) (par_value q) = bs \<and> unat (par_length q) = length bs"
proof -
  have len: "unat (of_nat (2 * length bs) :: u16) = 2 * length bs" using assms by (intro unat_of_nat_u16) simp
  have "unat (ucast (of_nat (2 * length bs) :: u16) :: u32) = unat (of_nat (length bs) * 2 :: u32)"
    using assms len by (simp add: unat_word_ariths unat_of_nat unsigned_ucast_eq take_bit_nat_eq_self del: of_nat_mult)
  then have eq: "(ucast (of_nat (2 * length bs) :: u16) :: u32) = of_nat (length bs) * 2"
    by (simp only: word_unat_eq_iff)
  have half: "unat (of_nat (2 * length bs) div 2 :: u16) = length bs"
    using len by (simp add: unat_div_distrib del: of_nat_mult)
  have chk: "hex_check (2 * length bs) 0 (hex_text bs @ [0]) = Some True"
    using hex_check_all [of "hex_text bs" 0 "[]" "[0]"] hex_text_digit by auto
  obtain junk where "hex_loop (length bs) 0 (hex_text bs @ [0]) = Some (bs @ junk @ [0])"
    using hex_loop_text [of "[]" 0 "[]" bs "[0]"] by auto
  then show ?thesis using len eq half chk
    by (simp add: at_ParamHexData_def number_def is_numeric_def at_ParamHexDataParse_def del: of_nat_mult)
qed

section \<open>DTMF\<close>

definition dtmf_chars :: "bytes \<Rightarrow> bytes" where
  "dtmf_chars t = filter (\<lambda>c. c \<noteq> 0x2c \<and> c \<noteq> 0x20) t"

lemma dtmf_loop_chars:
  "length out = d \<Longrightarrow> junk \<noteq> [] \<Longrightarrow> n = d + length junk \<Longrightarrow>
   \<exists>junk'. dtmf_loop (length t) n d (out @ junk @ t @ rest) =
       Some (d + length (dtmf_chars t), out @ dtmf_chars t @ junk' @ rest) \<and> junk' \<noteq> []"
proof (induction t arbitrary: out d junk n)
  case Nil
  then show ?case by (intro exI [of _ junk]) (simp add: dtmf_chars_def)
next
  case (Cons c t)
  obtain h js where junk: "junk = h # js" using Cons.prems(2) by (cases junk) auto
  have r: "rd (out @ junk @ c # t @ rest) n = Some c"
    using rd_at [of "out @ junk" c "t @ rest"] Cons.prems by simp
  show ?case
  proof (cases "c = 0x2c \<or> c = 0x20")
    case True
    have "\<exists>junk'. dtmf_loop (length t) (n + 1) d (out @ (junk @ [c]) @ t @ rest) =
        Some (d + length (dtmf_chars t), out @ dtmf_chars t @ junk' @ rest) \<and> junk' \<noteq> []"
      using Cons.prems by (intro Cons.IH) simp_all
    then show ?thesis using True r by (auto simp: dtmf_chars_def)
  next
    case False
    have "\<exists>junk'. dtmf_loop (length t) (n + 1) (d + 1) ((out @ [c]) @ (js @ [c]) @ t @ rest) =
        Some (d + 1 + length (dtmf_chars t), (out @ [c]) @ dtmf_chars t @ junk' @ rest) \<and> junk' \<noteq> []"
      using Cons.prems junk by (intro Cons.IH) simp_all
    then show ?thesis using False r Cons.prems(1) by (simp add: dtmf_chars_def junk wr_at)
  qed
qed

text \<open>
  A quoted DTMF parameter is read as its characters without commas and spaces, ended by
  a NUL.
\<close>

theorem dtmf_param:
  assumes "length t + 2 < 65536"
  shows "\<exists>q. at_ParamDtmf (Some (quoted t)) True = Some (ParamValue, Some q, True) \<and>
    take (length (dtmf_chars t) + 1) (par_value q) = dtmf_chars t @ [0] \<and>
    unat (par_length q) = length (dtmf_chars t)"
proof -
  have len: "unat (par_length (quoted t)) = length t + 2"
    using unat_of_nat_u16 [OF assms] by (simp add: quoted_def)
  obtain junk where l: "dtmf_loop (length t) 1 0 (0x22 # t @ [0x22, 0]) =
      Some (length (dtmf_chars t), dtmf_chars t @ junk @ [0x22, 0])" "junk \<noteq> []"
    using dtmf_loop_chars [of "[]" 0 "[0x22]" 1 t "[0x22, 0]"] by auto
  obtain h js where j: "junk = h # js" using l(2) by (cases junk) auto
  have "length (dtmf_chars t) \<le> length t" by (simp add: dtmf_chars_def)
  then have small: "unat (of_nat (length (dtmf_chars t)) :: u16) = length (dtmf_chars t)"
    using assms by (intro unat_of_nat_u16) simp
  have "at_ParamDtmf (Some (quoted t)) True = Some (ParamValue, Some ((quoted t)\<lparr>par_length := of_nat (length (dtmf_chars t)),
      par_value := dtmf_chars t @ 0 # js @ [0x22, 0], par_type := AT_CMDPARAM_DTMF_PARSED\<rparr>), True)"
    using l(1) len quoted_length(2) [OF assms]
    by (simp add: at_ParamDtmf_def is_numeric_def) (simp add: quoted_def j wr_at)
  then show ?thesis using small by simp
qed

section \<open>A failed parameter\<close>

text \<open>
  Once a parameter was rejected, every later reader rejects too, leaves its parameter as
  it is and gives the value it gives on failure.
\<close>

theorem paramok_sticky:
  "at_ParamUint p False = (0, False) \<and> at_ParamUintInRange p lo hi False = (lo, False) \<and>
   at_ParamDefUintInRange p def lo hi False = (lo, False) \<and>
   at_ParamDefUintInList p def (v # vs) False = Some (v, False) \<and>
   at_ParamDefIntInRange p def' lo' hi' False = (lo', False) \<and>
   at_ParamDefIntInList p def' (w # ws) False = Some (w, False) \<and>
   at_ParamOptStr p False = Some (Literal [0], p, False) \<and> at_ParamDefStr p str False = Some (Literal [0], p, False) \<and>
   at_ParamDStr p False = Some (Literal [0], p, False) \<and> at_ParamDtmf p False = Some (Literal [0], p, False) \<and>
   at_ParamHexData p len False = Some (Literal [0], p, False) \<and> at_ParamRawText p False = Some (Literal [0], p, False) \<and>
   at_ParamStrOrText p False = Some (Literal [0], p, False)"
  by (cases p)
    (simp_all add: at_ParamUint_def at_ParamUintInRange_def at_ParamDefUintInRange_def at_ParamUintInList_def
      at_ParamDefUintInList_def at_ParamInt_def at_ParamIntInRange_def at_ParamDefIntInRange_def at_ParamIntInList_def
      at_ParamDefIntInList_def at_ParamStr_def at_ParamOptStr_def at_ParamDefStr_def at_ParamDStr_def at_ParamDtmf_def
      at_ParamHexData_def at_ParamRawText_def at_ParamStrOrText_def rd_def)

section \<open>Witnesses\<close>

theorem string_param_witness:
  "\<exists>q. at_ParamStr (Some (quoted [0x41, 0x5c, 0x34, 0x32])) True = Some (ParamValue, Some q, True) \<and>
    take 3 (par_value q) = [0x41, 0x42, 0]"
proof -
  have "unescape [0x41, 0x5c, 0x34, 0x32] = [0x41, 0x42]"
    by (simp add: SUL_isalnum_def hex_pair_def HEX2NUM_def)
  moreover have "length [0x41, 0x5c, 0x34, 0x32 :: u8] + 2 < 65536" by simp
  ultimately show ?thesis using string_param [of "[0x41, 0x5c, 0x34, 0x32]"] by (auto simp: numeral_3_eq_3)
qed

theorem string_roundtrip_witness:
  "\<exists>q. at_ParamStr (Some (quoted (escape_text [0x22]))) True = Some (ParamValue, Some q, True) \<and>
    take 2 (par_value q) = [0x22, 0]"
proof -
  have "length (escape_text [0x22]) + 2 < 65536" by (simp add: escape_text_def esc_char_def hex_of_def)
  from string_roundtrip [OF this] show ?thesis by (auto simp: numeral_2_eq_2)
qed

theorem short_string_overrun_witness:
  "at_ParamHexData (Some \<lparr>par_type = AT_CMDPARAM_STRING, par_length = 1, par_value = [0x22, 0]\<rparr>) 1 True = None"
  by (rule short_string_overrun) simp_all

theorem int_overflow_minus_one_witness:
  "at_ParamIntInRange (Some (number (decimal 99999999999))) (- 1) 5 True = (- 1, True)"
  using int_overflow_minus_one [of 99999999999 "- 1" 5 "[- 1]"] by simp

theorem uint_checked_witness:
  "True \<and> (1 \<le> (2 :: u32) \<and> 2 \<le> (5 :: u32) \<or> 2 = (9 :: u32) \<and> absent (Some (number (decimal 2)))) \<and>
    (2 \<in> set [1, 2 :: u32] \<or> 2 = (9 :: u32) \<and> absent (Some (number (decimal 2))))"
proof -
  have u: "at_ParamUint (Some (number (decimal 2))) True = (2, True)"
    using decimal_digits [of 2] by (simp add: at_ParamUint_def number_def is_numeric_def strtoul_decimal)
  show ?thesis
    by (rule uint_checked [where param = "Some (number (decimal 2))"])
      (simp_all add: at_ParamDefUintInRange_def at_ParamUintInRange_def at_ParamDefUintInList_def
        at_ParamUintInList_def absent_def number_def u [unfolded number_def])
qed

theorem hexdata_roundtrip_witness:
  "\<exists>q. at_ParamHexData (Some (number (hex_text [0x1f, 0xa0]))) 2 True = Some (ParamValue, Some q, True) \<and>
    take 2 (par_value q) = [0x1f, 0xa0]"
  using hexdata_roundtrip [of "[0x1f, 0xa0]"] by (auto simp: numeral_2_eq_2 simp del: hex_text_simps)

theorem dtmf_param_witness:
  "\<exists>q. at_ParamDtmf (Some (quoted [0x31, 0x2c, 0x23])) True = Some (ParamValue, Some q, True) \<and>
    take 3 (par_value q) = [0x31, 0x23, 0]"
  using dtmf_param [of "[0x31, 0x2c, 0x23]"] by (auto simp: dtmf_chars_def numeral_3_eq_3)

end
