(* ===== verification/Cmd_Parse_Line.thy ===== *)
theory Cmd_Parse_Line
  imports Cmd_Parse Cmd_Table_Lookup
begin

text \<open>
  Parsing a line: whatever the generated parser does, the list of commands is well formed, and
  a line of known commands yields these commands.
\<close>

section \<open>The invariant of the parse context\<close>

definition param_ok :: "AT_COMMAND_PARAM_T \<Rightarrow> bool" where
  "param_ok p \<longleftrightarrow> length (par_value p) = unat (par_length p) + 1 \<and> last (par_value p) = 0"

definition command_ok :: "SA_COMMAND_TABLE_T list \<Rightarrow> nat \<Rightarrow> AT_COMMAND_T \<Rightarrow> bool" where
  "command_ok table mode c \<longleftrightarrow> cmd_desc c \<in> set table \<and> SA_IsCmdEnabledByMode mode (cmd_desc c) \<and>
     length (cmd_params c) \<le> AT_COMMAND_PARAM_MAX \<and> list_all param_ok (cmd_params c)"

definition context_ok :: "SA_COMMAND_TABLE_T list \<Rightarrow> nat \<Rightarrow> AT_PARSE_CONTEXT_T \<Rightarrow> bool" where
  "context_ok table mode ctx \<longleftrightarrow> list_all (command_ok table mode) (pc_cmds ctx) \<and>
     (case currcmd ctx of None \<Rightarrow> pc_cmds ctx = [] | Some i \<Rightarrow> Suc i = length (pc_cmds ctx))"

text \<open>What the scanner gives: tokens that fit a line, a name without NUL, a dialling string with a character.\<close>

fun action_ok :: "parse_action \<Rightarrow> bool" where
  "action_ok (StartCmd text) = (0 \<notin> set text)"
| "action_ok (PushNumber text) = (length text < 65536)"
| "action_ok (PushString text) = (length text < 65536)"
| "action_ok (PushDString text) = (text \<noteq> [] \<and> length text < 65536)"
| "action_ok (PushRawText text) = (length text < 65536)"
| "action_ok _ = True"

fun starts :: "parse_action \<Rightarrow> nat" where
  "starts (StartCmd text) = 1"
| "starts StartCmdNone = 1"
| "starts _ = 0"

text \<open>An action that succeeds adds a command exactly when it starts one.\<close>

definition action_post ::
  "SA_COMMAND_TABLE_T list \<Rightarrow> nat \<Rightarrow> nat \<Rightarrow> AT_PARSE_CONTEXT_T \<Rightarrow> (int \<times> AT_PARSE_CONTEXT_T) option \<Rightarrow> bool" where
  "action_post table mode k ctx r \<longleftrightarrow> (\<exists>n t. r = Some (n, t) \<and> context_ok table mode t \<and>
     (n = 0 \<longrightarrow> length (pc_cmds t) = length (pc_cmds ctx) + k))"

lemma StartCmdText_ok:
  assumes "context_ok (g_AtCommandTable tts ftm) mode ctx" "0 \<notin> set text"
  shows "action_post (g_AtCommandTable tts ftm) mode 1 ctx (at_ParseStartCmdText mem (g_AtCommandTable tts ftm) mode text ctx)"
proof -
  let ?T = "g_AtCommandTable tts ftm"
  have l: "at_GetCmdDescriptor ?T (text @ [0]) (length text) =
      Some (find (\<lambda>e. pName e = map upcase text) ?T, map upcase text @ [0])"
    by (rule lookup_find [OF table_ok crcs_distinct assms(2)])
  show ?thesis
  proof (cases "find (\<lambda>e. pName e = map upcase text) ?T")
    case None
    then show ?thesis using l assms(1) by (simp add: at_ParseStartCmdText_def action_post_def)
  next
    case (Some e)
    then have "e \<in> set ?T" by (auto simp: find_Some_iff)
    then show ?thesis using l Some assms(1)
      by (simp add: at_ParseStartCmdText_def action_post_def context_ok_def command_ok_def at_CmdlistPushBack_def)
  qed
qed

lemma current:
  assumes "context_ok table mode ctx" "currcmd ctx = Some i"
  shows "i < length (pc_cmds ctx)" "command_ok table mode (pc_cmds ctx ! i)"
  using assms by (auto simp: context_ok_def list_all_length)

lemma update_current:
  assumes "context_ok table mode ctx" "currcmd ctx = Some i" "command_ok table mode c"
  shows "context_ok table mode (ctx\<lparr>pc_cmds := (pc_cmds ctx)[i := c]\<rparr>)"
  using assms by (auto simp: context_ok_def list_all_length nth_list_update)

lemma SetCmdType_ok:
  assumes "context_ok table mode ctx"
  shows "action_post table mode 0 ctx (at_ParseSetCmdType t ctx)"
proof (cases "currcmd ctx")
  case None
  then show ?thesis using assms by (simp add: at_ParseSetCmdType_def action_post_def)
next
  case (Some i)
  note c = current [OF assms Some]
  then have "command_ok table mode ((pc_cmds ctx ! i)\<lparr>cmd_type := t\<rparr>)" by (simp add: command_ok_def)
  then show ?thesis using Some c update_current [OF assms Some]
    by (simp add: at_ParseSetCmdType_def action_post_def rd_in wr_in)
qed

lemma PushParamText_ok:
  assumes "context_ok table mode ctx" "length text < 65536" "type = AT_CMDPARAM_DSTRING \<Longrightarrow> text \<noteq> []"
  shows "action_post table mode 0 ctx (at_ParsePushParamText type text ctx)"
proof (cases "currcmd ctx")
  case None
  then show ?thesis using assms by (simp add: at_ParsePushParamText_def action_post_def)
next
  case (Some i)
  note c = current [OF assms(1) Some]
  obtain leng where leng: "param_leng type text = Some leng" "leng \<le> length text"
    using assms(3) by (cases "type = AT_CMDPARAM_DSTRING"; cases "last text = 0x3b") (auto simp: param_leng_def)
  let ?p = "\<lparr>par_type = type, par_length = of_nat leng, par_value = take leng text @ [0]\<rparr>"
  have "unat (of_nat leng :: u16) = leng" using leng(2) assms(2) by (simp add: unat_of_nat)
  then have "param_ok ?p" using leng(2) by (simp add: param_ok_def)
  then have "command_ok table mode ((pc_cmds ctx ! i)\<lparr>cmd_params := cmd_params (pc_cmds ctx ! i) @ [?p]\<rparr>)"
    if "\<not> length (cmd_params (pc_cmds ctx ! i)) \<ge> AT_COMMAND_PARAM_MAX"
    using c(2) that by (simp add: command_ok_def)
  then show ?thesis using Some c leng(1) update_current [OF assms(1) Some] assms(1)
    by (simp add: at_ParsePushParamText_def action_post_def rd_in wr_in Let_def)
qed

lemma run_action_ok:
  assumes "context_ok (g_AtCommandTable tts ftm) mode ctx" "action_ok a"
  shows "action_post (g_AtCommandTable tts ftm) mode (starts a) ctx (run_action mem (g_AtCommandTable tts ftm) mode a ctx)"
proof -
  have "0 \<notin> set (ascii ''AT'')" by (simp add: ascii_def of_char_def)
  then show ?thesis
    using assms
    by (cases a) (auto intro!: StartCmdText_ok [unfolded One_nat_def] SetCmdType_ok PushParamText_ok)
qed

lemma run_actions_ok:
  "context_ok (g_AtCommandTable tts ftm) mode ctx \<Longrightarrow> list_all action_ok as \<Longrightarrow>
   action_post (g_AtCommandTable tts ftm) mode (sum_list (map starts as)) ctx
     (run_actions mem (g_AtCommandTable tts ftm) mode as ctx)"
proof (induction as arbitrary: ctx)
  case Nil
  then show ?case by (simp add: action_post_def)
next
  case (Cons a as)
  obtain n t where t: "run_action mem (g_AtCommandTable tts ftm) mode a ctx = Some (n, t)"
    "context_ok (g_AtCommandTable tts ftm) mode t" "n = 0 \<longrightarrow> length (pc_cmds t) = length (pc_cmds ctx) + starts a"
    using run_action_ok [OF Cons.prems(1), of a mem] Cons.prems(2) by (auto simp: action_post_def)
  show ?case
  proof (cases "n = 0")
    case True
    then show ?thesis using Cons.IH [OF t(2)] t Cons.prems(2) by (auto simp: action_post_def)
  next
    case False
    then show ?thesis using t by (simp add: action_post_def)
  qed
qed

lemma Cmdlist_count: "at_CmdlistCount cs = length cs"
  by (induction cs) simp_all

lemma parse_line_commands_ok:
  assumes "list_all action_ok (fst (grammar line))"
  shows "\<exists>r cmds. at_ParseLine grammar lex_ok mem (g_AtCommandTable tts ftm) mode line = Some (r, cmds) \<and>
    r \<in> {0, AT_PARSE_ERR_NOMEM, AT_PARSE_ERR_SYNTAX} \<and>
    list_all (command_ok (g_AtCommandTable tts ftm) mode) cmds \<and>
    (r = 0 \<longrightarrow> at_CmdlistCount cmds = sum_list (map starts (fst (grammar line))))"
proof -
  have "context_ok (g_AtCommandTable tts ftm) mode \<lparr>pc_cmds = [], currcmd = None\<rparr>" by (simp add: context_ok_def)
  from run_actions_ok [OF this assms, of mem] show ?thesis
    by (auto simp: action_post_def at_ParseLine_def context_ok_def Cmdlist_count)
qed

text \<open>
  Parsing a line always returns, with success, a syntax error or out of memory; every
  command it leaves in the list is an enabled command of the table with at most 22
  parameters, each ended by a NUL, and on success there is one for each command of the line.
\<close>

theorem parse_line_ok:
  assumes "list_all action_ok (fst (grammar line))"
  shows "\<exists>r cmds. at_ParseLine grammar lex_ok mem (g_AtCommandTable tts ftm) mode line = Some (r, cmds) \<and>
    r \<in> {0, AT_PARSE_ERR_NOMEM, AT_PARSE_ERR_SYNTAX} \<and>
    list_all (command_ok (g_AtCommandTable tts ftm) mode) cmds \<and>
    (r = 0 \<longrightarrow> at_CmdlistCount cmds = sum_list (map starts (fst (grammar line))))"
  by (rule parse_line_commands_ok [where grammar = grammar and line = line, OF assms])

section \<open>What is parsed\<close>

text \<open>A command as a line gives it: the name, the type and the texts of its parameters.\<close>

record parsed_cmd =
  pc_name :: bytes
  pc_type :: AT_CMD_TYPE_T
  pc_texts :: "(AT_CMDPARAM_TYPE_T \<times> bytes) list"

fun push_action :: "AT_CMDPARAM_TYPE_T \<times> bytes \<Rightarrow> parse_action" where
  "push_action (AT_CMDPARAM_NUMBER, text) = PushNumber text"
| "push_action (AT_CMDPARAM_STRING, text) = PushString text"
| "push_action (AT_CMDPARAM_RAWTEXT, text) = PushRawText text"
| "push_action (AT_CMDPARAM_DSTRING, text) = PushDString text"
| "push_action (_, text) = PushEmpty"

definition cmd_actions :: "parsed_cmd \<Rightarrow> parse_action list" where
  "cmd_actions c = StartCmd (pc_name c) # SetCmdType (pc_type c) # map push_action (pc_texts c)"

text \<open>The parameter made of a text; a dialling string loses a last semicolon.\<close>

definition param_of :: "AT_CMDPARAM_TYPE_T \<times> bytes \<Rightarrow> AT_COMMAND_PARAM_T" where
  "param_of = (\<lambda>(type, text).
     let t = (if type = AT_CMDPARAM_DSTRING \<and> last text = 0x3b then butlast text else text)
     in \<lparr>par_type = type, par_length = of_nat (length t), par_value = t @ [0]\<rparr>)"

fun text_ok :: "AT_CMDPARAM_TYPE_T \<times> bytes \<Rightarrow> bool" where
  "text_ok (AT_CMDPARAM_EMPTY, text) = (text = [])"
| "text_ok (AT_CMDPARAM_DSTRING, text) = (text \<noteq> [])"
| "text_ok (type, text) = (type \<in> {AT_CMDPARAM_NUMBER, AT_CMDPARAM_STRING, AT_CMDPARAM_RAWTEXT})"

lemma push_action_run:
  assumes "text_ok x"
  shows "run_action mem table mode (push_action x) ctx = at_ParsePushParamText (fst x) (snd x) ctx"
  using assms by (cases x rule: push_action.cases) auto

lemma take_param_leng:
  assumes "text_ok (type, text)"
  shows "\<exists>n. param_leng type text = Some n \<and> n = length (take n text) \<and>
    \<lparr>par_type = type, par_length = of_nat n, par_value = take n text @ [0]\<rparr> = param_of (type, text)"
  using assms
  by (cases "type = AT_CMDPARAM_DSTRING") (auto simp: param_leng_def param_of_def Let_def butlast_conv_take)

lemma push_params:
  "pc_cmds ctx = cs @ [c] \<Longrightarrow> currcmd ctx = Some (length cs) \<Longrightarrow> list_all text_ok ps \<Longrightarrow>
   length (cmd_params c) + length ps \<le> AT_COMMAND_PARAM_MAX \<Longrightarrow>
   run_actions mem table mode (map push_action ps @ rest) ctx =
     run_actions mem table mode rest (ctx\<lparr>pc_cmds := cs @ [c\<lparr>cmd_params := cmd_params c @ map param_of ps\<rparr>]\<rparr>)"
proof (induction ps arbitrary: ctx c)
  case Nil
  then have "ctx\<lparr>pc_cmds := cs @ [c\<lparr>cmd_params := cmd_params c @ map param_of []\<rparr>]\<rparr> = ctx"
    by (cases ctx; cases c) simp
  then show ?case by simp
next
  case (Cons p ps)
  obtain ty tx where p: "p = (ty, tx)" by fastforce
  obtain n where n: "param_leng ty tx = Some n"
    "\<lparr>par_type = ty, par_length = of_nat n, par_value = take n tx @ [0]\<rparr> = param_of p"
    using take_param_leng [of ty tx] Cons.prems(3) p by auto
  let ?d = "c\<lparr>cmd_params := cmd_params c @ [param_of p]\<rparr>"
  let ?ctx = "ctx\<lparr>pc_cmds := cs @ [?d]\<rparr>"
  have "run_action mem table mode (push_action p) ctx = Some (0, ?ctx)"
    using Cons.prems n p by (simp add: push_action_run at_ParsePushParamText_def rd_def wr_def Let_def)
  moreover have "run_actions mem table mode (map push_action ps @ rest) ?ctx =
      run_actions mem table mode rest (?ctx\<lparr>pc_cmds := cs @ [?d\<lparr>cmd_params := cmd_params ?d @ map param_of ps\<rparr>]\<rparr>)"
    using Cons.prems by (intro Cons.IH) simp_all
  ultimately show ?case by simp
qed

definition known :: "SA_COMMAND_TABLE_T list \<Rightarrow> nat \<Rightarrow> parsed_cmd \<Rightarrow> SA_COMMAND_TABLE_T \<Rightarrow> bool" where
  "known table mode c e \<longleftrightarrow> 0 \<notin> set (pc_name c) \<and> find (\<lambda>e. pName e = map upcase (pc_name c)) table = Some e \<and>
     SA_IsCmdEnabledByMode mode e \<and> list_all text_ok (pc_texts c) \<and> length (pc_texts c) \<le> AT_COMMAND_PARAM_MAX"

definition built :: "parsed_cmd \<times> SA_COMMAND_TABLE_T \<Rightarrow> AT_COMMAND_T" where
  "built = (\<lambda>(c, e). \<lparr>cmd_desc = e, cmd_type = pc_type c, cmd_params = map param_of (pc_texts c)\<rparr>)"

lemma run_command:
  assumes "known (g_AtCommandTable tts ftm) mode c e"
  shows "run_actions (\<lambda>_. True) (g_AtCommandTable tts ftm) mode (cmd_actions c @ rest) ctx =
    run_actions (\<lambda>_. True) (g_AtCommandTable tts ftm) mode rest
      \<lparr>pc_cmds = pc_cmds ctx @ [built (c, e)], currcmd = Some (length (pc_cmds ctx))\<rparr>"
proof -
  let ?T = "g_AtCommandTable tts ftm"
  have k: "0 \<notin> set (pc_name c)" "find (\<lambda>e. pName e = map upcase (pc_name c)) ?T = Some e"
    "SA_IsCmdEnabledByMode mode e" "list_all text_ok (pc_texts c)" "length (pc_texts c) \<le> AT_COMMAND_PARAM_MAX"
    using assms by (simp_all add: known_def)
  let ?new = "\<lparr>cmd_desc = e, cmd_type = AT_CMD_SET, cmd_params = []\<rparr>"
  let ?c1 = "\<lparr>pc_cmds = pc_cmds ctx @ [?new], currcmd = Some (length (pc_cmds ctx))\<rparr>"
  let ?c2 = "?c1\<lparr>pc_cmds := pc_cmds ctx @ [?new\<lparr>cmd_type := pc_type c\<rparr>]\<rparr>"
  have "run_action (\<lambda>_. True) ?T mode (StartCmd (pc_name c)) ctx = Some (0, ?c1)"
    using lookup_find [OF table_ok crcs_distinct k(1), of tts ftm] k(2,3)
    by (cases ctx) (simp add: at_ParseStartCmdText_def at_CmdlistPushBack_def)
  moreover have "run_action (\<lambda>_. True) ?T mode (SetCmdType (pc_type c)) ?c1 = Some (0, ?c2)"
    by (simp add: at_ParseSetCmdType_def rd_def wr_def)
  moreover have "run_actions (\<lambda>_. True) ?T mode (map push_action (pc_texts c) @ rest) ?c2 =
      run_actions (\<lambda>_. True) ?T mode rest (?c2\<lparr>pc_cmds := pc_cmds ctx @
        [?new\<lparr>cmd_type := pc_type c, cmd_params := cmd_params (?new\<lparr>cmd_type := pc_type c\<rparr>) @ map param_of (pc_texts c)\<rparr>]\<rparr>)"
    using k(4,5) push_params [of ?c2 "pc_cmds ctx" "?new\<lparr>cmd_type := pc_type c\<rparr>" "pc_texts c" "\<lambda>_. True" ?T mode rest]
    by simp
  ultimately show ?thesis by (simp add: cmd_actions_def built_def)
qed

lemma parse_line_commands_result:
  assumes "list_all2 (known (g_AtCommandTable tts ftm) mode) cs es"
    and "grammar line = (concat (map cmd_actions cs), True)"
  shows "at_ParseLine grammar True (\<lambda>_. True) (g_AtCommandTable tts ftm) mode line = Some (0, map built (zip cs es))"
proof -
  have "\<exists>t. run_actions (\<lambda>_. True) (g_AtCommandTable tts ftm) mode (concat (map cmd_actions cs)) ctx = Some (0, t) \<and>
      pc_cmds t = pc_cmds ctx @ map built (zip cs es)" for ctx
    using assms(1)
  proof (induction cs es arbitrary: ctx rule: list_all2_induct)
    case (Cons c cs e es)
    let ?u = "\<lparr>pc_cmds = pc_cmds ctx @ [built (c, e)], currcmd = Some (length (pc_cmds ctx))\<rparr>"
    obtain t where "run_actions (\<lambda>_. True) (g_AtCommandTable tts ftm) mode (concat (map cmd_actions cs)) ?u = Some (0, t)"
      "pc_cmds t = pc_cmds ?u @ map built (zip cs es)" using Cons.IH by blast
    then show ?case using run_command [OF Cons(1), of "concat (map cmd_actions cs)" ctx] by simp
  qed simp
  from this [of "\<lparr>pc_cmds = [], currcmd = None\<rparr>"] show ?thesis
    using assms(2) by (auto simp: at_ParseLine_def)
qed


text \<open>Commands are taken from the list one by one in the order of the line.\<close>

fun pop_all :: "nat \<Rightarrow> AT_COMMAND_T list \<Rightarrow> AT_COMMAND_T list" where
  "pop_all 0 head = []"
| "pop_all (Suc n) head = (case at_CmdlistPopFront head of (None, _) \<Rightarrow> [] | (Some c, rest) \<Rightarrow> c # pop_all n rest)"

lemma pop_all_order: "pop_all (at_CmdlistCount cs) (foldl at_CmdlistPushBack [] cs) = cs"
proof -
  have push: "foldl at_CmdlistPushBack h cs = h @ cs" for h cs
    by (induction cs arbitrary: h) (simp_all add: at_CmdlistPushBack_def)
  have "pop_all (length cs) cs = cs" for cs
    by (induction cs) (simp_all add: at_CmdlistPopFront_def)
  then show ?thesis by (simp add: push Cmdlist_count)
qed

section \<open>Witnesses\<close>

theorem parse_line_ok_witness:
  "\<exists>r cmds. at_ParseLine (\<lambda>_. ([StartCmd [0x41, 0x54], PushDString [0x3b]], True)) True (\<lambda>_. True)
      (g_AtCommandTable True True) 0 [] = Some (r, cmds) \<and>
    r \<in> {0, AT_PARSE_ERR_NOMEM, AT_PARSE_ERR_SYNTAX} \<and>
    list_all (command_ok (g_AtCommandTable True True) 0) cmds \<and>
    (r = 0 \<longrightarrow> at_CmdlistCount cmds = sum_list (map starts [StartCmd [0x41, 0x54], PushDString [0x3b]]))"
  using parse_line_ok [of "\<lambda>_. ([StartCmd [0x41, 0x54], PushDString [0x3b]], True)" "[]" True "\<lambda>_. True" True True 0]
  by simp

lemma known_AT:
  "known (g_AtCommandTable True True) 0 \<lparr>pc_name = [0x61, 0x74], pc_type = AT_CMD_EXE, pc_texts = []\<rparr>
    (cmd_entry ''AT'' 0xC4BDF956 ''SA_DefaultCmdHandler_AT'' 1)"
proof -
  let ?e = "cmd_entry ''AT'' 0xC4BDF956 ''SA_DefaultCmdHandler_AT'' 1"
  have m: "map upcase [0x61, 0x74] = [0x41, 0x54]" by (simp add: upcase_def)
  have f: "find (\<lambda>e. pName e = [0x41, 0x54]) (g_AtCommandTable True True) = Some ?e"
    by (simp add: g_AtCommandTable_def cmds_general_def cmd_entry_def ascii_def of_char_def)
  have mode: "SA_IsCmdEnabledByMode 0 ?e" by (simp add: SA_IsCmdEnabledByMode_def cmd_entry_def)
  show ?thesis unfolding known_def parsed_cmd.simps m f using mode by simp
qed


end
