(* ===== verification/At_Line_Served.thy ===== *)
theory At_Line_Served
  imports At_Module_Steps Cmd_Parse_Line
begin

text \<open>
  The parser and the module together: the commands in the list of the module are well formed at
  all times, running them fails for one reason only, and a line of known commands is parsed, run
  and answered.
\<close>

section \<open>Well-formed commands\<close>

lemma param_ok_par: "param_ok p \<Longrightarrow> par_ok p"
  by (simp add: param_ok_def par_ok_def)

text \<open>The module with the parser and the table of commands.\<close>

definition line_parser ::
  "(bytes \<Rightarrow> parse_action list \<times> bool) \<Rightarrow> bool \<Rightarrow> (nat \<Rightarrow> bool) \<Rightarrow> bool \<Rightarrow> bool \<Rightarrow> nat \<Rightarrow> bytes \<Rightarrow> (int \<times> AT_COMMAND_T list) option" where
  "line_parser grammar lex_ok mem tts ftm mode = at_ParseLine grammar lex_ok mem (g_AtCommandTable tts ftm) mode"

definition grammar_ok :: "(bytes \<Rightarrow> parse_action list \<times> bool) \<Rightarrow> bool" where
  "grammar_ok grammar \<longleftrightarrow> (\<forall>line. list_all action_ok (fst (grammar line)))"

lemma parsed_ok:
  assumes "grammar_ok grammar" "line_parser grammar lex_ok mem tts ftm mode line = Some (r, cs)"
  shows "list_all (command_ok (g_AtCommandTable tts ftm) mode) cs"
proof -
  have "list_all action_ok (fst (grammar line))" using assms(1) by (simp add: grammar_ok_def)
  from parse_line_commands_ok [where grammar = grammar and line = line, OF this, of lex_ok mem tts ftm mode] show ?thesis
    using assms(2) by (simp add: line_parser_def)
qed

interpretation typed: mod_property_all "line_parser grammar lex_ok mem tts ftm mode"
  "\<lambda>s. grammar_ok grammar \<longrightarrow> list_all (command_ok (g_AtCommandTable tts ftm) mode) (mod_cmds s)"
  for grammar lex_ok mem tts ftm mode
  by unfold_locales
    (auto simp: mcall_def tell_cmds_def at_CmdClearRemainCmds_def parsed_ok split: if_splits list.splits)


section \<open>From a line to its answer\<close>

lemma built_fits: "list_all par_ok (cmd_params (built (c, e)))"
proof -
  have "par_ok (param_of p)" for p
    by (cases p) (simp add: par_ok_def param_of_def Let_def unsigned_of_nat le_SucI)
  then show ?thesis by (simp add: built_def list_all_iff)
qed

lemma find_in_set: "find P xs = Some x \<Longrightarrow> x \<in> set xs"
  by (auto simp: find_Some_iff)

lemma process_known:
  assumes "list_all2 (known (g_AtCommandTable tts ftm) mode) cs es"
    "grammar line = (concat (map cmd_actions cs), True)" "cs \<noteq> []"
  shows "\<exists>n. at_ModuleProcessLine (line_parser grammar True (\<lambda>_. True) tts ftm mode) (Some line) s =
    Some (0, (tell_cmds (s\<lparr>mod_cmds := map built (zip cs es), mod_freed := False\<rparr>))\<lparr>cmssNum := n\<rparr>)"
proof -
  let ?t = "tell_cmds (s\<lparr>mod_cmds := map built (zip cs es), mod_freed := False\<rparr>)"
  obtain c cs' e es' where ce: "cs = c # cs'" "es = e # es'"
    using assms(1,3) by (cases cs; cases es) auto
  have "known (g_AtCommandTable tts ftm) mode c e" using assms(1) unfolding ce by simp
  then have "find (\<lambda>e. pName e = map upcase (pc_name c)) (g_AtCommandTable tts ftm) = Some e" by (simp add: known_def)
  then have "entry_ok e" by (rule find_in_set [THEN table_ok [unfolded list_all_iff, THEN bspec]])
  then have "0 \<notin> set (pName e)" by (simp add: entry_ok_def)
  moreover have "0 \<notin> set (ascii ''+CMMS'')" by (simp add: ascii_def)
  ultimately obtain d where "AT_StrCaselessCmp (ascii ''+CMMS'' @ [0]) (pName e @ [0]) = Some d"
    using StrCaselessCmp_equal by blast
  then have "at_ModuleProcessLine (line_parser grammar True (\<lambda>_. True) tts ftm mode) (Some line) s =
      Some (0, if d = 0 then ?t\<lparr>cmssNum := int (at_CmdlistCount (mod_cmds ?t)) - 1\<rparr> else ?t)"
    using parse_line_commands_result [where grammar = grammar and line = line, OF assms(1,2)] ce
    by (simp add: at_ModuleProcessLine_def line_parser_def tell_cmds_def mcall_def built_def)
  then show ?thesis
    by (intro exI [of _ "if d = 0 then int (at_CmdlistCount (mod_cmds ?t)) - 1 else cmssNum ?t"]) simp
qed


section \<open>Witnesses\<close>

text \<open>The line \<open>at\<close>, whatever the scanner is given.\<close>

definition at_grammar :: "bytes \<Rightarrow> parse_action list \<times> bool" where
  "at_grammar line = ([StartCmd [0x61, 0x74], SetCmdType AT_CMD_EXE], True)"

lemma at_grammar_line:
  "list_all2 (known (g_AtCommandTable True True) 0) [\<lparr>pc_name = [0x61, 0x74], pc_type = AT_CMD_EXE, pc_texts = []\<rparr>]
     [cmd_entry ''AT'' 0xC4BDF956 ''SA_DefaultCmdHandler_AT'' 1]"
  "at_grammar [] = (concat (map cmd_actions [\<lparr>pc_name = [0x61, 0x74], pc_type = AT_CMD_EXE, pc_texts = []\<rparr>]), True)"
  "grammar_ok at_grammar"
  using known_AT by (simp_all add: at_grammar_def cmd_actions_def grammar_ok_def)



end
