(* ===== verification/Lp_Ctrl.thy ===== *)
theory Lp_Ctrl
  imports Prelude
begin

text \<open>
  Low power control (at_lp_ctrl.c): after a time without input or output the devices are put to
  sleep, input or output wakes them. The timer is one of the platform and fires once; its calls
  and those of the devices are recorded. The line DTR is not connected (\<open>DTR_GPIO\<close> is
  \<open>HAL_GPIO_NONE\<close>), so the two routines for it do nothing.
\<close>

section \<open>State\<close>

text \<open>A value of the enumeration can be any number that was stored.\<close>

datatype AT_LP_CTRL_MODE_T = AT_LP_CTRL_DISABLE | AT_LP_CTRL_BY_DTR | AT_LP_CTRL_BY_RX | AT_LP_CTRL_OTHER nat

datatype lp_call = TimerCreate | DeviceSleep nat bool | DeviceWakeup nat | TimerDeactive | TimerActive | LpSleep nat

abbreviation (input) DEVICE_MAX :: nat where "DEVICE_MAX \<equiv> 2"

text \<open>The context and the flag of the timer; a device is a number.\<close>

record AT_LP_CTRL_CONTEXT =
  lp_mode :: AT_LP_CTRL_MODE_T
  lpcurr :: bool
  lpnext :: bool
  lp_devices :: "nat option list"
  isActive :: bool
  lp_calls :: "lp_call list"

definition lpcall :: "lp_call \<Rightarrow> AT_LP_CTRL_CONTEXT \<Rightarrow> AT_LP_CTRL_CONTEXT" where
  "lpcall c s = s\<lparr>lp_calls := lp_calls s @ [c]\<rparr>"

section \<open>Operations\<close>

fun each_device :: "(nat \<Rightarrow> lp_call) \<Rightarrow> nat option list \<Rightarrow> AT_LP_CTRL_CONTEXT \<Rightarrow> AT_LP_CTRL_CONTEXT" where
  "each_device f [] s = s"
| "each_device f (d # ds) s = each_device f ds (case d of None \<Rightarrow> s | Some d \<Rightarrow> lpcall (f d) s)"

definition at_LpCtrlSetDeviceSleep :: "bool \<Rightarrow> AT_LP_CTRL_CONTEXT \<Rightarrow> AT_LP_CTRL_CONTEXT" where
  "at_LpCtrlSetDeviceSleep lp s =
     (if lp = lpcurr s then s
      else let s = s\<lparr>lpcurr := lp\<rparr>; wakeupEnabled = (lp_mode s = AT_LP_CTRL_BY_RX)
           in each_device (if lp then (\<lambda>d. DeviceSleep d wakeupEnabled) else DeviceWakeup) (lp_devices s) s)"

definition at_LpCtrlTimeout :: "AT_LP_CTRL_CONTEXT \<Rightarrow> AT_LP_CTRL_CONTEXT" where
  "at_LpCtrlTimeout s = at_LpCtrlSetDeviceSleep (lpnext s) s"

text \<open>Starting the timer again, when the mode is by input.\<close>

definition restart_timer :: "AT_LP_CTRL_CONTEXT \<Rightarrow> AT_LP_CTRL_CONTEXT" where
  "restart_timer s =
     (let s = (if isActive s then lpcall (LpSleep 10) (lpcall TimerDeactive s) else s)
      in (lpcall TimerActive s)\<lparr>isActive := True\<rparr>)"

definition at_LpCtrlInputReceived :: "AT_LP_CTRL_CONTEXT \<Rightarrow> AT_LP_CTRL_CONTEXT" where
  "at_LpCtrlInputReceived s =
     (if lp_mode s \<noteq> AT_LP_CTRL_BY_RX then s else restart_timer (at_LpCtrlSetDeviceSleep False s))"

definition at_LpCtrlOutputRequest :: "AT_LP_CTRL_CONTEXT \<Rightarrow> bool \<times> AT_LP_CTRL_CONTEXT" where
  "at_LpCtrlOutputRequest s =
     (let s = at_LpCtrlSetDeviceSleep False s
      in (True, if lp_mode s = AT_LP_CTRL_BY_RX then restart_timer s else s))"

definition at_LpCtrlSetMode :: "AT_LP_CTRL_MODE_T \<Rightarrow> AT_LP_CTRL_CONTEXT \<Rightarrow> bool \<times> AT_LP_CTRL_CONTEXT" where
  "at_LpCtrlSetMode mode s =
     (if mode = lp_mode s then (True, s)
      else
        let s = (if isActive s then (lpcall TimerDeactive s)\<lparr>isActive := False\<rparr> else s);
            s = s\<lparr>lp_mode := mode\<rparr>
        in (True,
          if mode = AT_LP_CTRL_BY_RX then (lpcall TimerActive (s\<lparr>lpnext := True\<rparr>))\<lparr>isActive := True\<rparr>
          else at_LpCtrlSetDeviceSleep False (s\<lparr>lpnext := False\<rparr>)))"

definition at_LpCtrlGetMode :: "AT_LP_CTRL_CONTEXT \<Rightarrow> AT_LP_CTRL_MODE_T" where
  "at_LpCtrlGetMode s = lp_mode s"

text \<open>The first place that is free or holds the device is taken.\<close>

fun set_device :: "nat \<Rightarrow> nat option list \<Rightarrow> (nat option list) option" where
  "set_device d [] = None"
| "set_device d (x # xs) =
     (if x = Some d then Some (x # xs)
      else if x = None then Some (Some d # xs)
      else map_option ((#) x) (set_device d xs))"

definition at_LpCtrlSetDevice :: "nat \<Rightarrow> AT_LP_CTRL_CONTEXT \<Rightarrow> bool \<times> AT_LP_CTRL_CONTEXT" where
  "at_LpCtrlSetDevice d s =
     (case set_device d (lp_devices s) of None \<Rightarrow> (False, s) | Some ds \<Rightarrow> (True, s\<lparr>lp_devices := ds\<rparr>))"

fun unset_device :: "nat \<Rightarrow> nat option list \<Rightarrow> nat option list" where
  "unset_device d [] = []"
| "unset_device d (x # xs) = (if x = Some d then None # xs else x # unset_device d xs)"

definition at_LpCtrlUnsetDevice :: "nat \<Rightarrow> AT_LP_CTRL_CONTEXT \<Rightarrow> AT_LP_CTRL_CONTEXT" where
  "at_LpCtrlUnsetDevice d s = s\<lparr>lp_devices := unset_device d (lp_devices s)\<rparr>"

definition lp_mode_of :: "nat \<Rightarrow> AT_LP_CTRL_MODE_T" where
  "lp_mode_of n = (if n = 0 then AT_LP_CTRL_DISABLE else if n = 1 then AT_LP_CTRL_BY_DTR
     else if n = 2 then AT_LP_CTRL_BY_RX else AT_LP_CTRL_OTHER n)"

text \<open>The mode that was saved, a number, is set when it is not the one at the start; a number above 2 is a mode without
  sleeping. When the timer cannot be created the code only says so.\<close>

definition at_LpCtrlInit :: "nat \<Rightarrow> nat option list \<Rightarrow> AT_LP_CTRL_CONTEXT" where
  "at_LpCtrlInit sleepMode devices =
     (let s = \<lparr>lp_mode = AT_LP_CTRL_DISABLE, lpcurr = False, lpnext = False, lp_devices = devices,
        isActive = False, lp_calls = [TimerCreate]\<rparr>
      in if sleepMode \<noteq> 0 then snd (at_LpCtrlSetMode (lp_mode_of sleepMode) s) else s)"

section \<open>Events\<close>

datatype lp_event = LpInput | LpOutput | LpMode AT_LP_CTRL_MODE_T | LpTimeout | LpAdd nat | LpRemove nat

fun lp_exec :: "lp_event \<Rightarrow> AT_LP_CTRL_CONTEXT \<Rightarrow> AT_LP_CTRL_CONTEXT" where
  "lp_exec LpInput s = at_LpCtrlInputReceived s"
| "lp_exec LpOutput s = snd (at_LpCtrlOutputRequest s)"
| "lp_exec (LpMode m) s = snd (at_LpCtrlSetMode m s)"
| "lp_exec LpTimeout s = at_LpCtrlTimeout s"
| "lp_exec (LpAdd d) s = snd (at_LpCtrlSetDevice d s)"
| "lp_exec (LpRemove d) s = at_LpCtrlUnsetDevice d s"

lemma each_device_sel [simp]:
  "lp_mode (each_device f ds s) = lp_mode s" "lpcurr (each_device f ds s) = lpcurr s"
  "lpnext (each_device f ds s) = lpnext s" "lp_devices (each_device f ds s) = lp_devices s"
  "isActive (each_device f ds s) = isActive s"
  "lp_calls (each_device f ds s) = lp_calls s @ map f (concat (map (case_option [] (\<lambda>d. [d])) ds))"
  by (induction ds arbitrary: s) (auto simp: lpcall_def split: option.split)

lemma sleep_sel [simp]:
  "lp_mode (at_LpCtrlSetDeviceSleep lp s) = lp_mode s" "lpcurr (at_LpCtrlSetDeviceSleep lp s) = lp"
  "lpnext (at_LpCtrlSetDeviceSleep lp s) = lpnext s" "isActive (at_LpCtrlSetDeviceSleep lp s) = isActive s"
  "lp_devices (at_LpCtrlSetDeviceSleep lp s) = lp_devices s"
  by (auto simp: at_LpCtrlSetDeviceSleep_def Let_def)

lemma restart_sel [simp]:
  "lp_mode (restart_timer s) = lp_mode s" "lpcurr (restart_timer s) = lpcurr s" "lpnext (restart_timer s) = lpnext s"
  "isActive (restart_timer s)" "lp_devices (restart_timer s) = lp_devices s"
  by (simp_all add: restart_timer_def lpcall_def Let_def)

text \<open>
  What holds at all times: only in the mode by input the devices sleep or are going to, and then the
  timer was started.
\<close>

definition lp_ok :: "AT_LP_CTRL_CONTEXT \<Rightarrow> bool" where
  "lp_ok s \<longleftrightarrow> length (lp_devices s) = DEVICE_MAX \<and>
     (if lp_mode s = AT_LP_CTRL_BY_RX then lpnext s \<and> isActive s else \<not> lpcurr s \<and> \<not> lpnext s)"

lemma set_device_length: "set_device d xs = Some ys \<Longrightarrow> length ys = length xs"
  by (induction xs arbitrary: ys) (auto split: if_splits)

lemma unset_device_length [simp]: "length (unset_device d xs) = length xs"
  by (induction xs) auto

lemma lp_exec_ok: "lp_ok s \<Longrightarrow> lp_ok (lp_exec ev s)"
  by (cases ev)
    (auto simp: lp_ok_def at_LpCtrlInputReceived_def at_LpCtrlOutputRequest_def at_LpCtrlSetMode_def
      at_LpCtrlTimeout_def at_LpCtrlSetDevice_def at_LpCtrlUnsetDevice_def Let_def lpcall_def
      dest: set_device_length split: option.split)

lemma lp_init_ok: "length ds = DEVICE_MAX \<Longrightarrow> lp_ok (at_LpCtrlInit n ds)"
  by (simp add: at_LpCtrlInit_def lp_ok_def at_LpCtrlSetMode_def Let_def lpcall_def)

lemma lp_run_ok: "lp_ok s \<Longrightarrow> lp_ok (fold lp_exec evs s)"
  by (induction evs arbitrary: s) (auto intro: lp_exec_ok)

text \<open>What an event other than the removal or addition of a device tells the devices.\<close>

definition woken :: "AT_LP_CTRL_CONTEXT \<Rightarrow> AT_LP_CTRL_CONTEXT \<Rightarrow> bool" where
  "woken s t \<longleftrightarrow> (\<forall>d. Some d \<in> set (lp_devices s) \<longrightarrow> DeviceWakeup d \<in> set (drop (length (lp_calls s)) (lp_calls t)))"

definition put_to_sleep :: "AT_LP_CTRL_CONTEXT \<Rightarrow> AT_LP_CTRL_CONTEXT \<Rightarrow> bool" where
  "put_to_sleep s t \<longleftrightarrow>
     (\<forall>d. Some d \<in> set (lp_devices s) \<longrightarrow> DeviceSleep d True \<in> set (drop (length (lp_calls s)) (lp_calls t)))"

lemma sleep_calls:
  "\<exists>k. lp_calls (at_LpCtrlSetDeviceSleep lp s) = lp_calls s @ k \<and>
    (lp \<noteq> lpcurr s \<longrightarrow> (\<forall>d. Some d \<in> set (lp_devices s) \<longrightarrow>
      (if lp then DeviceSleep d (lp_mode s = AT_LP_CTRL_BY_RX) else DeviceWakeup d) \<in> set k))"
  by (force simp: at_LpCtrlSetDeviceSleep_def Let_def)

definition lp_run :: "nat \<Rightarrow> nat option list \<Rightarrow> lp_event list \<Rightarrow> AT_LP_CTRL_CONTEXT" where
  "lp_run sleepMode devices evs = fold lp_exec evs (at_LpCtrlInit sleepMode devices)"

lemma restart_calls: "\<exists>k. lp_calls (restart_timer s) = lp_calls s @ k"
  by (simp add: restart_timer_def lpcall_def Let_def)

lemma woken_sleep:
  assumes "lpcurr s" "\<exists>k. lp_calls t = lp_calls (at_LpCtrlSetDeviceSleep False s) @ k"
  shows "woken s t"
  using assms sleep_calls [of False s] by (auto simp: woken_def)

lemma mode_wakes:
  assumes "lp_ok s" "m \<noteq> AT_LP_CTRL_BY_RX"
  shows "\<not> lpcurr (snd (at_LpCtrlSetMode m s)) \<and> (lpcurr s \<longrightarrow> woken s (snd (at_LpCtrlSetMode m s)))"
proof (cases "lp_mode s = AT_LP_CTRL_BY_RX")
  case False
  then show ?thesis using assms by (auto simp: lp_ok_def at_LpCtrlSetMode_def Let_def)
next
  case True
  let ?s = "(lpcall TimerDeactive s)\<lparr>isActive := False, lp_mode := m, lpnext := False\<rparr>"
  have "snd (at_LpCtrlSetMode m s) = at_LpCtrlSetDeviceSleep False ?s"
    using True assms by (simp add: at_LpCtrlSetMode_def lp_ok_def Let_def)
  moreover have "lpcurr s \<longrightarrow> woken s (at_LpCtrlSetDeviceSleep False ?s)"
    using sleep_calls [of False ?s] by (auto simp: woken_def lpcall_def)
  ultimately show ?thesis by simp
qed



text \<open>A device that is registered again after another one was removed takes the free place in front of
  its own, so it is told twice to sleep, and when it is removed its second entry, a dangling pointer,
  stays.\<close>

theorem device_registered_twice:
  assumes "d \<noteq> e" "lp_devices s = [Some d, Some e]"
  shows "lp_devices (fold lp_exec [LpRemove d, LpAdd e] s) = [Some e, Some e] \<and>
    Some e \<in> set (lp_devices (fold lp_exec [LpRemove d, LpAdd e, LpRemove e] s))"
  using assms by (simp add: at_LpCtrlUnsetDevice_def at_LpCtrlSetDevice_def)

theorem device_registered_twice_witness:
  "lp_devices (fold lp_exec [LpRemove 0, LpAdd 1] (at_LpCtrlInit 0 [Some 0, Some 1])) = [Some 1, Some 1]"
  using device_registered_twice [of 0 1 "at_LpCtrlInit 0 [Some 0, Some 1]"] by (simp add: at_LpCtrlInit_def)

end
