(* ===== verification/At_Cfg.thy ===== *)
theory At_Cfg
  imports Decimal Cmd_Table
begin

text \<open>
  Settings in files (at_cfg.c). The settings are their image in memory, which the code reads and
  writes as a block; the default images are arguments. The file system of the platform is an
  argument as well: its routines take and give its state; reading gives the bytes that were read and writing, when it
  succeeds, the number of bytes that were written, which may be smaller than asked for.
\<close>

section \<open>Files and settings\<close>

datatype fs_flag = FS_MODE_READ | FS_MODE_WRITE | FS_MODE_OPEN_EXISTING | FS_MODE_CREATE_ALWAYS

record 'f king_fs =
  fs_create :: "bytes \<Rightarrow> fs_flag list \<Rightarrow> 'f \<Rightarrow> nat option \<times> 'f"
  fs_read :: "nat \<Rightarrow> nat \<Rightarrow> 'f \<Rightarrow> bytes option \<times> 'f"
  fs_write :: "nat \<Rightarrow> bytes \<Rightarrow> 'f \<Rightarrow> nat option \<times> 'f"
  fs_close :: "nat \<Rightarrow> 'f \<Rightarrow> 'f"

abbreviation (input) AT_CFG_NUM_MAX :: nat where "AT_CFG_NUM_MAX \<equiv> 1"

record at_cfg =
  gAtCurrentSetting :: bytes
  gAtCurAsSetting :: bytes

definition at_CfgFileName :: "nat \<Rightarrow> bytes" where
  "at_CfgFileName set_id = ascii ''AT_CFG_'' @ decimal set_id @ ascii ''.BIN''"

definition AT_AS_CFG_FN :: bytes where
  "AT_AS_CFG_FN = ascii ''AT_AS_CFG.BIN''"

text \<open>A block is read over the value of a variable; how much was read is not looked at.\<close>

definition read_over :: "bytes \<Rightarrow> bytes \<Rightarrow> bytes" where
  "read_over b v = b @ drop (length b) v"

definition read_file :: "'f king_fs \<Rightarrow> bytes \<Rightarrow> bytes \<Rightarrow> 'f \<Rightarrow> bytes option \<times> 'f" where
  "read_file F name setting f =
     (case fs_create F name [FS_MODE_READ, FS_MODE_OPEN_EXISTING] f of
        (None, f) \<Rightarrow> (None, f)
      | (Some fd, f) \<Rightarrow>
          (case fs_read F fd (length setting) f of
             (None, f) \<Rightarrow> (None, fs_close F fd f)
           | (Some b, f) \<Rightarrow> (Some (read_over b setting), fs_close F fd f)))"

definition at_ReadCfgFile :: "'f king_fs \<Rightarrow> nat \<Rightarrow> bytes \<Rightarrow> 'f \<Rightarrow> bytes option \<times> 'f" where
  "at_ReadCfgFile F set_id setting f = read_file F (at_CfgFileName set_id) setting f"

text \<open>How much was written is not looked at either.\<close>

definition write_file :: "'f king_fs \<Rightarrow> bytes \<Rightarrow> bytes \<Rightarrow> 'f \<Rightarrow> bool \<times> 'f" where
  "write_file F name setting f =
     (case fs_create F name [FS_MODE_WRITE, FS_MODE_CREATE_ALWAYS] f of
        (None, f) \<Rightarrow> (False, f)
      | (Some fd, f) \<Rightarrow> (case fs_write F fd setting f of (written, f) \<Rightarrow> (written \<noteq> None, fs_close F fd f)))"

definition at_WriteCfgFile :: "'f king_fs \<Rightarrow> nat \<Rightarrow> bytes \<Rightarrow> 'f \<Rightarrow> bool \<times> 'f" where
  "at_WriteCfgFile F set_id setting f = write_file F (at_CfgFileName set_id) setting f"

definition at_CfgSetAtSettings :: "'f king_fs \<Rightarrow> nat \<Rightarrow> at_cfg \<Rightarrow> 'f \<Rightarrow> bool \<times> 'f" where
  "at_CfgSetAtSettings F set_id c f =
     (if set_id \<ge> AT_CFG_NUM_MAX then (False, f) else at_WriteCfgFile F set_id (gAtCurrentSetting c) f)"

text \<open>The flag 0 asks for the default settings and 1 for those of the user.\<close>

definition at_CfgGetAtSettings :: "'f king_fs \<Rightarrow> bytes \<Rightarrow> nat \<Rightarrow> nat \<Rightarrow> at_cfg \<Rightarrow> 'f \<Rightarrow> bool \<times> at_cfg \<times> 'f" where
  "at_CfgGetAtSettings F gDefaultSettings flag set_id c f =
     (if flag = 0 then (True, c\<lparr>gAtCurrentSetting := gDefaultSettings\<rparr>, f)
      else if flag = 1 \<and> set_id < AT_CFG_NUM_MAX then
        (case at_ReadCfgFile F set_id gDefaultSettings f of
           (None, f) \<Rightarrow> (False, c\<lparr>gAtCurrentSetting := gDefaultSettings\<rparr>, f)
         | (Some setting, f) \<Rightarrow> (True, c\<lparr>gAtCurrentSetting := setting\<rparr>, f))
      else (False, c\<lparr>gAtCurrentSetting := gDefaultSettings\<rparr>, f))"

definition at_CfgSaveAsSettings :: "'f king_fs \<Rightarrow> at_cfg \<Rightarrow> 'f \<Rightarrow> bool \<times> 'f" where
  "at_CfgSaveAsSettings F c f = write_file F AT_AS_CFG_FN (gAtCurAsSetting c) f"

definition at_CfgLoadAsSettings :: "'f king_fs \<Rightarrow> bytes \<Rightarrow> at_cfg \<Rightarrow> 'f \<Rightarrow> bool \<times> at_cfg \<times> 'f" where
  "at_CfgLoadAsSettings F gDefAsSettings c f =
     (case read_file F AT_AS_CFG_FN (gAtCurAsSetting c) f of
        (None, f) \<Rightarrow> (False, c\<lparr>gAtCurAsSetting := gDefAsSettings\<rparr>, f)
      | (Some v, f) \<Rightarrow> (True, c\<lparr>gAtCurAsSetting := v\<rparr>, f))"

text \<open>The handle is closed also when neither call gave one; \<open>bad\<close> is its value then.\<close>

definition at_CfgInit :: "'f king_fs \<Rightarrow> nat \<Rightarrow> bytes \<Rightarrow> bytes \<Rightarrow> at_cfg \<Rightarrow> 'f \<Rightarrow> bool \<times> at_cfg \<times> 'f" where
  "at_CfgInit F bad gDefaultSettings gDefAsSettings c f =
     (let (fd, f) =
        (case fs_create F (at_CfgFileName 0) [FS_MODE_OPEN_EXISTING] f of
           (Some fd, f) \<Rightarrow> (fd, f)
         | (None, f) \<Rightarrow>
             (case fs_create F (at_CfgFileName 0) [FS_MODE_READ, FS_MODE_WRITE, FS_MODE_CREATE_ALWAYS] f of
                (h, f) \<Rightarrow> let fd = (case h of None \<Rightarrow> bad | Some fd \<Rightarrow> fd)
                  in (fd, snd (fs_write F fd gDefaultSettings f))));
        (_, c, f) = at_CfgLoadAsSettings F gDefAsSettings c (fs_close F fd f)
      in (True, c, f))"

text \<open>The port for unsolicited results, with the channels of the two ports; the setting is a number of 32 bits
  in memory. The result is the channel as well.\<close>

definition port_image :: "u8 \<Rightarrow> bytes" where
  "port_image port = [port, 0, 0, 0]"

definition at_SetUrcPort :: "'f king_fs \<Rightarrow> int \<Rightarrow> int \<Rightarrow> u8 \<Rightarrow> at_cfg \<Rightarrow> 'f \<Rightarrow> int \<times> at_cfg \<times> 'f" where
  "at_SetUrcPort F uart usb port c f =
     (let channel = (if port = 0 then uart else usb)
      in if port_image port \<noteq> gAtCurAsSetting c
         then let c = c\<lparr>gAtCurAsSetting := port_image port\<rparr> in (channel, c, snd (at_CfgSaveAsSettings F c f))
         else (channel, c, f))"

section \<open>Saving and loading\<close>

text \<open>What is documented of the file system: a file that was created anew, written and closed can be opened, and its bytes
  are as many of those handed over as the write told.\<close>

definition keeps_files :: "'f king_fs \<Rightarrow> bool" where
  "keeps_files F \<longleftrightarrow> (\<forall>name b f fd f1 n f2.
     fs_create F name [FS_MODE_WRITE, FS_MODE_CREATE_ALWAYS] f = (Some fd, f1) \<longrightarrow> fs_write F fd b f1 = (Some n, f2) \<longrightarrow>
     (\<exists>fd' f3. fs_create F name [FS_MODE_READ, FS_MODE_OPEN_EXISTING] (fs_close F fd f2) = (Some fd', f3) \<and>
       (\<forall>k. fst (fs_read F fd' k f3) = Some (take k (take n b)))))"

lemma write_read:
  assumes "keeps_files F" "fs_create F name [FS_MODE_WRITE, FS_MODE_CREATE_ALWAYS] f = (Some fd, f1)" "fs_write F fd v f1 = (Some n, f2)"
  shows "write_file F name v f = (True, fs_close F fd f2)"
    "fst (read_file F name w (fs_close F fd f2)) = Some (read_over (take (length w) (take n v)) w)"
proof -
  obtain fd' f3 where r: "fs_create F name [FS_MODE_READ, FS_MODE_OPEN_EXISTING] (fs_close F fd f2) = (Some fd', f3)"
    "fst (fs_read F fd' (length w) f3) = Some (take (length w) (take n v))"
    using assms unfolding keeps_files_def by blast
  then show "fst (read_file F name w (fs_close F fd f2)) = Some (read_over (take (length w) (take n v)) w)"
    by (cases "fs_read F fd' (length w) f3") (simp add: read_file_def)
qed (use assms in \<open>simp add: write_file_def\<close>)


text \<open>A file system in memory with one open file, which has room for so many bytes in a file.\<close>

definition memory_fs :: "nat \<Rightarrow> ((bytes \<Rightarrow> bytes option) \<times> bytes) king_fs" where
  "memory_fs room = \<lparr>
     fs_create = (\<lambda>name flags (m, n).
       if FS_MODE_CREATE_ALWAYS \<in> set flags then (Some 1, (m(name \<mapsto> []), name))
       else if m name = None then (None, (m, n)) else (Some 1, (m, name))),
     fs_read = (\<lambda>fd k (m, n). (map_option (take k) (m n), (m, n))),
     fs_write = (\<lambda>fd b (m, n). (Some (min room (length b)), (m(n \<mapsto> take (min room (length b)) b), n))),
     fs_close = (\<lambda>fd s. s)\<rparr>"

lemma memory_fs_keeps: "keeps_files (memory_fs room)"
  by (auto simp: keeps_files_def memory_fs_def)


end
