(* ===== verification/Str_Quoted.thy ===== *)
theory Str_Quoted
  imports Str_Para
begin

text \<open>
  Quoted texts as parameters: \<open>AT_Util_GetParaWithRule\<close> with the type string gives the text between
  the quotes.
\<close>

lemma unat_small16: "n < 2 ^ 16 \<Longrightarrow> unat (of_nat n :: u16) = n"
  by (simp add: unsigned_of_nat take_bit_nat_eq_self)

definition in_quotes :: "bytes \<Rightarrow> bytes" where
  "in_quotes s = 0x22 # s @ [0x22]"

lemma quoting_text: "0x22 \<notin> set s \<Longrightarrow> quoting True (s @ t) = quoting True t"
  by (induction s) auto

lemma para_ok_quoted: "0x22 \<notin> set s \<Longrightarrow> 0 \<notin> set s \<Longrightarrow> para_ok (in_quotes s)"
  by (simp add: para_ok_def in_quotes_def quoting_text)

lemma quoted_strip:
  "dropWhile IS_WHITE_SPACE (in_quotes s) = in_quotes s" "rstrip (in_quotes s) = in_quotes s"
proof -
  show "dropWhile IS_WHITE_SPACE (in_quotes s) = in_quotes s" by (simp add: in_quotes_def IS_WHITE_SPACE_def)
  have "rstrip ((0x22 # s) @ [0x22]) = (0x22 # s) @ [0x22]" by (subst rstrip_snoc) (simp add: IS_WHITE_SPACE_def)
  then show "rstrip (in_quotes s) = in_quotes s" by (simp add: in_quotes_def)
qed

lemma trim_quoted:
  assumes "0 \<notin> set s" "length s \<le> 254"
  shows "trim (in_quotes s @ 0 # z) = Some (in_quotes s @ 0 # z)"
proof -
  have q: "0 \<notin> set (in_quotes s)" "in_quotes s \<noteq> []" "length (in_quotes s) \<le> 256" using assms by (simp_all add: in_quotes_def)
  have "trim_left (in_quotes s @ 0 # z) = Some (in_quotes s @ 0 # z)"
    using trim_left_result [OF q(1), of z] quoted_strip(1) [of s] by simp
  then show ?thesis using trim_right_result [OF q, of z] quoted_strip(2) [of s] by (simp add: trim_def)
qed

lemma unquote_quoted:
  assumes "0 \<notin> set s" "s \<noteq> []" "length s < 2 ^ 15"
  shows "\<exists>z'. unquote (in_quotes s @ 0 # z) (of_nat (length s + 2)) l = Some (s @ 0 # z', of_nat (length s)) \<and>
    length (s @ 0 # z') = length (in_quotes s @ 0 # z)"
proof -
  have n: "unat (of_nat (length s + 2) :: u16) = length s + 2"
    using assms(3) by (intro unat_small16) simp
  obtain c r where c: "s = c # r" "c \<noteq> 0" using assms(1,2) by (cases s) auto
  have last: "rd (in_quotes s @ 0 # z) (length s + 1) = Some 0x22"
    by (simp add: rd_def in_quotes_def nth_append)
  have wr: "wr (in_quotes s @ 0 # z) (length s + 1) 0 = Some ((0x22 # s) @ 0 # 0 # z)"
    by (simp add: wr_def in_quotes_def list_update_append)
  have "0 \<notin> set (0x22 # s)" using assms(1) by simp
  then have down: "strcpy_down ((0x22 # s) @ 0 # 0 # z) 1 = Some (s @ 0 # drop (Suc (length s)) ((0x22 # s) @ 0 # 0 # z))"
    using strcpy_down_result [of "0x22 # s" 1 "0 # z"] by simp
  have l: "c_strlen (s @ 0 # q) = Some (length s)" for q using assms(1) by simp
  show ?thesis
    unfolding unquote_def n using last wr down l c
    by (intro exI [of _ "drop (Suc (length s)) ((0x22 # s) @ 0 # 0 # z)"]) (simp add: rd_def in_quotes_def)
qed

lemma validate_quoted:
  assumes "0 \<notin> set s" "length s \<le> 254"
  shows "AT_Util_CheckValidateString (Some (in_quotes s @ 0 # z)) = Some True"
proof -
  have q: "0 \<notin> set (in_quotes s)" using assms by (simp add: in_quotes_def)
  have "strcpy (replicate AT_UTLI_BUF_LEN 0) (in_quotes s @ 0 # z) = Some (in_quotes s @ 0 # replicate (AT_UTLI_BUF_LEN - Suc (length (in_quotes s))) 0)"
    using assms(2) by (intro strcpy_zeros [OF q]) (simp add: in_quotes_def AT_UTLI_BUF_LEN_def)
  then show ?thesis using trim_quoted [OF assms] q by (simp add: AT_Util_CheckValidateString_def)
qed

text \<open>The text between the quotes, read into a large enough buffer.\<close>

lemma get_quoted:
  assumes "one_of fs i (in_quotes s)" "0 \<notin> set s" "s \<noteq> []" "length s + 2 < unat l" "unat l \<le> length t" "length s \<le> 254"
  shows "\<exists>z. AT_Util_GetParaWithRule (Some (join_para fs @ 0 # r)) i AT_UTIL_PARA_TYPE_STRING (Some t) (Some l) =
    Some (ERR_SUCCESS, Some (join_para fs @ 0 # r, s @ 0 # z, of_nat (length s)))"
proof -
  have len: "length (in_quotes s) = length s + 2" by (simp add: in_quotes_def)
  obtain z where z: "replicate (unat l - length (in_quotes s)) 0 @ drop (unat l) t = 0 # z"
    using assms(4) len by (cases "unat l - length (in_quotes s)") auto
  have g: "AT_Util_GetPara (join_para fs @ 0 # r) i t l =
      Some (ERR_SUCCESS, join_para fs @ 0 # r, in_quotes s @ 0 # z, of_nat (length (in_quotes s)))"
    using get_one [OF assms(1) _ assms(5), of r] assms(4) len z by simp
  have q: "0 \<notin> set (in_quotes s)" using assms(2) by (simp add: in_quotes_def)
  have tp: "AT_Util_GetTrimedPara (join_para fs @ 0 # r) i t l =
      Some (ERR_SUCCESS, join_para fs @ 0 # r, in_quotes s @ 0 # z, of_nat (length (in_quotes s)))"
    using g trim_quoted [OF assms(2,6), of z] q by (simp add: AT_Util_GetTrimedPara_def)
  obtain z' where u: "unquote (in_quotes s @ 0 # z) (of_nat (length s + 2)) l = Some (s @ 0 # z', of_nat (length s))"
    using unquote_quoted [OF assms(2,3), of z l] assms(6) by auto
  have "unat (of_nat (length (in_quotes s)) :: u16) = length (in_quotes s)"
    using assms(6) len by (intro unat_small16) simp
  then have nz: "of_nat (length (in_quotes s)) \<noteq> (0 :: u16)" using len by auto
  have "l \<noteq> 0" using assms(4) by auto
  moreover have "para_string (join_para fs @ 0 # r) i t l = Some (ERR_SUCCESS, join_para fs @ 0 # r, s @ 0 # z', of_nat (length s))"
    unfolding para_string_def using tp q nz validate_quoted [OF assms(2,6), of z] u len by simp
  ultimately show ?thesis by (simp add: AT_Util_GetParaWithRule_def)
qed

lemma one_quoted: "0x22 \<notin> set s \<Longrightarrow> 0 \<notin> set s \<Longrightarrow> length s \<le> 254 \<Longrightarrow> one_of [in_quotes s] 0 (in_quotes s)"
  using para_ok_quoted [of s] by (simp add: one_of_def) (simp add: in_quotes_def IS_WHITE_SPACE_def)

lemma count_one:
  assumes "one_of fs 0 f" "length f < 1000"
  shows "AT_Util_GetParaCount (join_para fs @ 0 # r) = Some (ERR_SUCCESS, join_para fs @ 0 # r, of_nat (length fs))"
  using get_para_at [of fs 0 1000 "replicate 1000 0" r] assms unfolding one_of_def by simp

end
