(* ===== verification/At_Handler.thy ===== *)
theory At_Handler
  imports At_Module_Steps Str_Para Cmux
begin

text \<open>
  Command handlers: what they have in common. A handler reads its parameters, calls the platform and
  answers through the AT module; its model gives these steps in their order. What a call of the
  platform returns is an argument of the handler. A text is given without its NUL.
\<close>

section \<open>Steps\<close>

text \<open>The time of the platform; the digits of years to minutes are packed, two in a byte.\<close>

record CALENDAR_TIME =
  cal_yy :: u8
  cal_MM :: u8
  cal_dd :: u8
  cal_hh :: u8
  cal_mm :: u8
  cal_ss_l :: u8
  cal_ss_h :: u8
  cal_ew :: u8
  cal_tz :: u8
  cal_ms :: nat

datatype platform_call =
    KING_PowerReboot | KING_PowerOff
  | KING_NetAirplaneModeSet nat
  | KING_LocalTimeSet CALENDAR_TIME
  | KING_SysCfgSet nat u8
  | KING_LdoConfigSet u32 u32 bool
  | KING_LcdScreenOn | KING_LcdScreenOff | KING_LcdInit
  | KING_LcdBrightnessSet u32
  | KING_DualSimSet u8 nat | KING_DualSimSwitch nat
  | KING_RegNotifyFun | KING_UnRegNotifyFun

text \<open>\<open>HError\<close> is the plain error, \<open>HReport\<close> a text for the channel of unsolicited results.\<close>

datatype hstep = HInfo bytes | HAnswer answer | HError | HReport bytes | HFormatNeeded | HCall platform_call
  | HSetCmuxMode AT_CMUX_CONFIG_T

abbreviation (input) cme :: "int \<Rightarrow> hstep list" where "cme n \<equiv> [HAnswer (CmeError n)]"
abbreviation (input) resp_ok :: "hstep list" where "resp_ok \<equiv> [HAnswer OK]"
abbreviation (input) info_ok :: "bytes \<Rightarrow> hstep list" where "info_ok t \<equiv> [HInfo t, HAnswer OK]"

abbreviation (input) ERR_AT_CME_OPERATION_NOT_ALLOWED :: int where "ERR_AT_CME_OPERATION_NOT_ALLOWED \<equiv> 3"
abbreviation (input) ERR_AT_CME_OPERATION_NOT_SUPPORTED :: int where "ERR_AT_CME_OPERATION_NOT_SUPPORTED \<equiv> 4"
abbreviation (input) ERR_AT_CME_INVALID_CHAR_INTEXT :: int where "ERR_AT_CME_INVALID_CHAR_INTEXT \<equiv> 25"
abbreviation (input) ERR_AT_CME_EXE_NOT_SURPORT :: int where "ERR_AT_CME_EXE_NOT_SURPORT \<equiv> 49"
abbreviation (input) ERR_AT_CME_EXE_FAIL :: int where "ERR_AT_CME_EXE_FAIL \<equiv> 50"
abbreviation (input) ERR_AT_CME_PARAM_INVALID :: int where "ERR_AT_CME_PARAM_INVALID \<equiv> 53"
abbreviation (input) ERR_AT_UNKNOWN :: int where "ERR_AT_UNKNOWN \<equiv> 0xFFFFFF"

text \<open>A parameter, NULL when it was not given.\<close>

definition pparam :: "AT_CMD_PARA \<Rightarrow> nat \<Rightarrow> AT_COMMAND_PARAM_T option" where
  "pparam p n = (if n < length (pa_params p) then Some (pa_params p ! n) else None)"

text \<open>The string a string parameter gives.\<close>

definition str_text :: "str_ret \<times> AT_COMMAND_PARAM_T option \<times> bool \<Rightarrow> bytes" where
  "str_text = (\<lambda>(r, p, _). case r of Literal b \<Rightarrow> cstr b
     | ParamValue \<Rightarrow> (case p of None \<Rightarrow> [] | Some p \<Rightarrow> cstr (par_value p)))"

section \<open>The steps in the module\<close>

definition step_exec :: "at_setting \<Rightarrow> hstep \<Rightarrow> AT_ModuleInfo \<Rightarrow> AT_ModuleInfo option" where
  "step_exec S h s =
     (case h of
        HInfo t \<Rightarrow> Some (at_CmdRespInfoNText S (Some t) s)
      | HAnswer a \<Rightarrow> give_answer S a s
      | HError \<Rightarrow> at_CmdRespError S s
      | HFormatNeeded \<Rightarrow> Some (mcall (Eng Op_FormatNeeded) s)
      | _ \<Rightarrow> Some s)"

fun steps_exec :: "at_setting \<Rightarrow> hstep list \<Rightarrow> AT_ModuleInfo \<Rightarrow> AT_ModuleInfo option" where
  "steps_exec S [] s = Some s"
| "steps_exec S (h # hs) s = do { s \<leftarrow> step_exec S h s; steps_exec S hs s }"

lemma steps_append: "steps_exec S (a @ b) s = do { s \<leftarrow> steps_exec S a s; steps_exec S b s }"
  by (induction a arbitrary: s) (auto split: Option.bind_split)

lemma steps_Nil: "steps_exec S [] = Some"
  by (rule ext) simp

text \<open>The final answers of a handler.\<close>

fun answers :: "hstep list \<Rightarrow> nat" where
  "answers [] = 0"
| "answers (HAnswer a # hs) = Suc (answers hs)"
| "answers (HError # hs) = Suc (answers hs)"
| "answers (h # hs) = answers hs"

lemma answers_append [simp]: "answers (a @ b) = answers a + answers b"
  by (induction a rule: answers.induct) auto

text \<open>Steps that answer once, with nothing written afterwards.\<close>

fun silent :: "hstep list \<Rightarrow> bool" where
  "silent [] = True"
| "silent (HCall c # hs) = silent hs"
| "silent (HReport t # hs) = silent hs"
| "silent (HSetCmuxMode c # hs) = silent hs"
| "silent (h # hs) = False"

fun one_answer :: "hstep list \<Rightarrow> bool" where
  "one_answer [] = False"
| "one_answer (HAnswer a # hs) = silent hs"
| "one_answer (HError # hs) = silent hs"
| "one_answer (h # hs) = one_answer hs"

lemma silent_answers: "silent hs \<Longrightarrow> answers hs = 0"
  by (induction hs rule: silent.induct) auto

lemma one_answer_once: "one_answer hs \<Longrightarrow> answers hs = 1"
  by (induction hs rule: one_answer.induct) (auto simp: silent_answers)

fun infos :: "hstep list \<Rightarrow> bytes list" where
  "infos [] = []"
| "infos (HInfo t # hs) = t # infos hs"
| "infos (h # hs) = infos hs"

fun final_answer :: "hstep list \<Rightarrow> answer" where
  "final_answer [] = OK"
| "final_answer (HAnswer a # hs) = a"
| "final_answer (h # hs) = final_answer hs"

text \<open>Such steps are a handler of the kind that a line is served with.\<close>

lemma silent_exec: "silent hs \<Longrightarrow> steps_exec S hs = Some"
proof (rule ext)
  show "steps_exec S hs s = Some s" if "silent hs" for s
    using that by (induction hs rule: silent.induct) (auto simp: step_exec_def)
qed

lemma silent_infos: "silent hs \<Longrightarrow> infos hs = []"
  by (induction hs rule: silent.induct) auto

lemma steps_handler_run:
  "one_answer hs \<Longrightarrow> HError \<notin> set hs \<Longrightarrow> HFormatNeeded \<notin> set hs \<Longrightarrow>
   steps_exec S hs s = handler_run S (infos hs, final_answer hs) s"
  by (induction hs arbitrary: s rule: one_answer.induct)
    (auto simp: step_exec_def handler_run_def silent_exec silent_infos)

lemma ok_without_command:
  assumes "\<not> mod_freed s"
  shows "at_CmdRespOK S (with_calls s [] k) = Some (with_calls s []
    (k @ [MKillTimer, Eng Op_SetLine] @ (if resultCodePresent S then [] else [MWrite (code_text S 0)]) @ [Eng Op_Finished]))"
proof -
  have "at_CmdFinalHandle True (with_calls s [] k) = Some (with_calls s [] (k @ [MKillTimer, Eng Op_SetLine]))"
    using assms by (simp add: at_CmdFinalHandle_def pop_front_def at_CmdlistPopFront_def AT_KillAsyncTimerMux_def free_cmd_def)
  then show ?thesis using assms by (simp add: at_CmdRespOK_def code_output)
qed

text \<open>A handler that answers twice answers for the command behind it as well: after a second OK the next
  command of the line has been released without having been run; and an OK after an error, which drops
  the line, writes a second final code.\<close>

theorem second_answer:
  assumes "mod_cmds s = c # d # cs" "\<not> mod_freed s" "- (2 ^ 31) \<le> n" "n < 2 ^ 31"
  shows "(\<exists>s' k. steps_exec S [HAnswer OK, HAnswer OK] s = Some s' \<and> mod_cmds s' = cs \<and>
      mod_calls s' = mod_calls s @ k \<and> blocks_freed k = at_CmdlistFree c @ at_CmdlistFree d \<and> ran k = []) \<and>
    (\<exists>s' k. steps_exec S [HAnswer (CmeError n), HAnswer OK] s = Some s' \<and> mod_cmds s' = [] \<and>
      mod_calls s' = mod_calls s @ k \<and> text_out k = cme_text S n @ code_text S 0)"
proof
  let ?s1 = "with_calls s (d # cs) ([MKillTimer, Eng (Op_SetCmds True), MFree (at_CmdlistFree c), Eng Op_SetLine, ScheduleNext,
    Eng Op_Finished])"
  have 1: "at_CmdRespOK S s = Some ?s1" using answer_ok [OF assms(1,2), of S] by simp
  have "at_CmdRespOK S ?s1 = Some (with_calls ?s1 cs
    ([MKillTimer, Eng (Op_SetCmds (cs \<noteq> [])), MFree (at_CmdlistFree d), Eng Op_SetLine] @
     (if cs \<noteq> [] then [ScheduleNext] else if resultCodePresent S then [] else [MWrite (code_text S 0)]) @
     [Eng Op_Finished]))"
    using assms(2) by (intro answer_ok) simp_all
  then show "\<exists>s' k. steps_exec S [HAnswer OK, HAnswer OK] s = Some s' \<and> mod_cmds s' = cs \<and>
      mod_calls s' = mod_calls s @ k \<and> blocks_freed k = at_CmdlistFree c @ at_CmdlistFree d \<and> ran k = []"
    using 1 by (simp add: step_exec_def give_answer_def)
next
  obtain w where w: "give_answer S (CmeError n) s = Some (with_calls s []
      ([MKillTimer, MFree (at_CmdlistFreeAll (mod_cmds s)), Eng (Op_SetCmds False), Eng Op_SetLine] @ map MWrite w @
       [Eng Op_Finished]))" "concat w = cme_text S n"
    using answer_error [OF assms(2), of "CmeError n" S] assms(3,4) by (auto simp: code_ok_def answer_text_def)
  have "resultCodePresent S \<Longrightarrow> code_text S 0 = []" by (simp add: code_text_def)
  then show "\<exists>s' k. steps_exec S [HAnswer (CmeError n), HAnswer OK] s = Some s' \<and> mod_cmds s' = [] \<and>
      mod_calls s' = mod_calls s @ k \<and> text_out k = cme_text S n @ code_text S 0"
    using w ok_without_command [OF assms(2), of S] writes(4) [of w]
    by (simp add: step_exec_def) (simp add: give_answer_def)
qed

theorem second_answer_witness:
  "\<exists>s'. steps_exec plain_settings [HAnswer OK, HAnswer OK] (module_with [long_command 1, long_command 2]) = Some s' \<and>
    mod_cmds s' = []"
  using second_answer [of "module_with [long_command 1, long_command 2]" "long_command 1" "long_command 2" "[]" 4 plain_settings]
  by (auto simp: module_with_def)

section \<open>Formats\<close>

definition hexdig :: "nat \<Rightarrow> u8" where
  "hexdig n = of_nat (if n < 10 then 0x30 + n else 0x57 + n)"

text \<open>The format \<open>%02x\<close> of a byte, \<open>%x\<close> of a digit and \<open>%02d\<close> of a small number.\<close>

definition byte_hex :: "u8 \<Rightarrow> bytes" where
  "byte_hex c = [hexdig (unat c div 16), hexdig (unat c mod 16)]"

definition dec2 :: "nat \<Rightarrow> bytes" where
  "dec2 n = (if n < 10 then [0x30] else []) @ decimal n"

definition hexdig_upper :: "nat \<Rightarrow> u8" where
  "hexdig_upper n = of_nat (if n < 10 then 0x30 + n else 0x37 + n)"

end
