(* ===== verification/At_Clock.thy ===== *)
theory At_Clock
  imports At_Handler Str_Quoted
begin

text \<open>
  The clock command +CCLK (at_cmd_gc.c): the check of the text yy/MM/dd,hh:mm:ss with an optional time
  zone in quarters of an hour, the packed form the platform takes, and the text that is read back.
\<close>

section \<open>The check of the format\<close>

fun sep_check :: "(nat \<times> u8) list \<Rightarrow> bytes \<Rightarrow> bool option" where
  "sep_check [] m = Some True"
| "sep_check ((i, c) # r) m = do { x \<leftarrow> rd m i; if x \<noteq> c then Some False else sep_check r m }"

fun digit_loop :: "nat list \<Rightarrow> nat \<Rightarrow> nat \<Rightarrow> bytes \<Rightarrow> bool option" where
  "digit_loop seps 0 i m = Some True"
| "digit_loop seps (Suc k) i m =
     (if i \<in> set seps then digit_loop seps k (i + 1) m
      else do { c \<leftarrow> rd m i; if is_digit c then digit_loop seps k (i + 1) m else Some False })"

definition date_seps :: "(nat \<times> u8) list" where
  "date_seps = [(2, 0x2f), (5, 0x2f), (8, 0x2c), (11, 0x3a), (14, 0x3a)]"

definition AT_TimeFormat_isAvailable :: "bytes option \<Rightarrow> bool option" where
  "AT_TimeFormat_isAvailable pString =
     (case pString of None \<Rightarrow> Some False
      | Some p \<Rightarrow> do {
          n \<leftarrow> c_strlen p;
          let iLen = unat (of_nat n :: u8);
          if iLen > 17 then do {
            z \<leftarrow> rd p 17;
            if z \<noteq> 0x2b \<and> z \<noteq> 0x2d then Some False
            else do {
              ok \<leftarrow> sep_check date_seps p;
              if ok then digit_loop [2, 5, 8, 11, 14, 17] iLen 0 p else Some False } }
          else do {
            ok \<leftarrow> sep_check date_seps p;
            if ok then digit_loop [2, 5, 8, 11, 14] iLen 0 p else Some False } })"

section \<open>The fields\<close>

definition BIN2BCD :: "nat \<Rightarrow> u8" where
  "BIN2BCD x = of_nat (push_bit 4 (x div 10) OR (x mod 10))"

definition IS_LEAP_YEAR :: "nat \<Rightarrow> bool" where
  "IS_LEAP_YEAR year \<longleftrightarrow> year mod 4 = 0 \<and> (year mod 100 \<noteq> 0 \<or> year mod 400 = 0)"

text \<open>The number at an index, as eight bits.\<close>

definition time_field :: "nat \<Rightarrow> bytes \<Rightarrow> nat option" where
  "time_field p m = map_option (\<lambda>v. unat (of_int v :: u8)) (atoi (cstr (drop p m)))"

text \<open>\<open>strchr\<close> from an index; NULL, which the code would follow, is \<open>None\<close>.\<close>

function find_char :: "u8 \<Rightarrow> bytes \<Rightarrow> nat \<Rightarrow> nat option" where
  "find_char c m p = do { x \<leftarrow> rd m p; if x = c then Some p else if x = 0 then None else find_char c m (p + 1) }"
  by pat_completeness auto
termination by (relation "measure (\<lambda>(c, m, p). length m - p)") (auto simp: rd_eq_Some)

definition next_field :: "u8 \<Rightarrow> nat \<Rightarrow> bytes \<Rightarrow> (nat \<times> nat) option" where
  "next_field c p m = do { p \<leftarrow> find_char c m p; v \<leftarrow> time_field (p + 1) m; Some (v, p + 1) }"

definition day_ok :: "nat \<Rightarrow> nat \<Rightarrow> nat \<Rightarrow> bool" where
  "day_ok year month day \<longleftrightarrow> 1 \<le> day \<and> day \<le> 31 \<and>
     (if month = 2 then (if IS_LEAP_YEAR year then day \<le> 29 else day \<le> 28)
      else if month \<in> {4, 6, 9, 11} then day \<noteq> 31 else True)"

text \<open>\<open>old\<close>: the time of the platform, whose time zone is kept when the text has none. The inner
  \<open>None\<close> is the result 0.\<close>

definition GetCalendarInfo :: "CALENDAR_TIME option \<Rightarrow> bytes \<Rightarrow> CALENDAR_TIME option option" where
  "GetCalendarInfo old m = do {
     ok \<leftarrow> AT_TimeFormat_isAvailable (Some m);
     if \<not> ok then Some None
     else do {
       year \<leftarrow> time_field 0 m;
       if year > 99 then Some None
       else do {
         (month, p) \<leftarrow> next_field 0x2f 0 m;
         if month < 1 \<or> month > 12 then Some None
         else do {
           (day, p) \<leftarrow> next_field 0x2f p m;
           if \<not> day_ok year month day then Some None
           else do {
             (hour, p) \<leftarrow> next_field 0x2c p m;
             if hour \<ge> 24 then Some None
             else do {
               (minute, p) \<leftarrow> next_field 0x3a p m;
               if minute \<ge> 60 then Some None
               else do {
                 (second, p) \<leftarrow> next_field 0x3a p m;
                 if second \<ge> 60 then Some None
                 else do {
                   n \<leftarrow> c_strlen m;
                   let c = (\<lambda>ew tz. \<lparr>cal_yy = BIN2BCD year, cal_MM = BIN2BCD month, cal_dd = BIN2BCD day,
                     cal_hh = BIN2BCD hour, cal_mm = BIN2BCD minute, cal_ss_l = of_nat (second mod 10),
                     cal_ss_h = of_nat (second div 10), cal_ew = ew, cal_tz = tz, cal_ms = 0\<rparr>);
                   if n > 17 then do {
                     z \<leftarrow> rd m 17;
                     t \<leftarrow> time_field 18 m;
                     Some (if z = 0x2b \<and> t \<le> 56 \<or> z = 0x2d \<and> t \<le> 48
                           then Some (c (if z = 0x2b then 0 else 1) (of_nat t)) else None) }
                   else Some (map_option (\<lambda>t. c (cal_ew t) (cal_tz t)) old) } } } } } } } }"

section \<open>The command\<close>

definition cclk_text :: "CALENDAR_TIME \<Rightarrow> bytes" where
  "cclk_text t = ascii ''+CCLK: '' @ [0x22] @ byte_hex (cal_yy t) @ [0x2f] @ byte_hex (cal_MM t) @ [0x2f] @ byte_hex (cal_dd t) @
     [0x2c] @ byte_hex (cal_hh t) @ [0x3a] @ byte_hex (cal_mm t) @ [0x3a] @ [hexdig (unat (cal_ss_h t)), hexdig (unat (cal_ss_l t))] @
     [if cal_ew t = 0 then 0x2b else 0x2d] @ dec2 (unat (cal_tz t)) @ [0x22]"

definition AT_CmdFunc_CCLK ::
  "CALENDAR_TIME option \<Rightarrow> (CALENDAR_TIME \<Rightarrow> bool) \<Rightarrow> AT_CMD_PARA \<Rightarrow> hstep list option" where
  "AT_CmdFunc_CCLK now set_ok pParam =
     (case pa_type pParam of
        AT_CMD_SET \<Rightarrow> do {
          (e, m, iCount) \<leftarrow> AT_Util_GetParaCount (pPara pParam @ [0]);
          if e \<noteq> ERR_SUCCESS \<or> iCount \<noteq> 1 then Some (cme ERR_AT_CME_PARAM_INVALID)
          else do {
            (e, r) \<leftarrow> AT_Util_GetParaWithRule (Some m) 0 AT_UTIL_PARA_TYPE_STRING (Some (replicate 24 0)) (Some 24);
            (_, cfw_para, len) \<leftarrow> r;
            if e \<noteq> ERR_SUCCESS \<or> len = 0 then Some (cme ERR_AT_CME_INVALID_CHAR_INTEXT)
            else do {
              n \<leftarrow> c_strlen cfw_para;
              if n = 0 \<or> n > 20 then Some (cme ERR_AT_CME_INVALID_CHAR_INTEXT)
              else do {
                cal \<leftarrow> GetCalendarInfo now cfw_para;
                case cal of None \<Rightarrow> Some (cme ERR_AT_CME_PARAM_INVALID)
                | Some time \<Rightarrow> Some (HCall (KING_LocalTimeSet time) #
                    (if set_ok time then resp_ok else cme ERR_AT_CME_EXE_FAIL)) } } } }
      | AT_CMD_TEST \<Rightarrow> Some resp_ok
      | AT_CMD_READ \<Rightarrow> Some (case now of None \<Rightarrow> cme ERR_AT_CME_EXE_FAIL | Some t \<Rightarrow> info_ok (cclk_text t))
      | AT_CMD_EXE \<Rightarrow> Some (cme ERR_AT_CME_OPERATION_NOT_SUPPORTED))"

section \<open>Two digits\<close>

definition two :: "nat \<Rightarrow> bytes" where
  "two n = [of_nat (48 + n div 10), of_nat (48 + n mod 10)]"

lemma digit_chars:
  assumes "n < 10"
  shows "is_digit (of_nat (48 + n))" "unat (of_nat (48 + n) :: u8) = 48 + n" "hexdig n = of_nat (48 + n)"
proof -
  show "is_digit (of_nat (48 + n))" using digit_props [OF assms] by blast
  show "unat (of_nat (48 + n) :: u8) = 48 + n"
    using assms by (simp add: unsigned_of_nat take_bit_nat_eq_self del: of_nat_add)
  show "hexdig n = of_nat (48 + n)" using assms by (simp add: hexdig_def)
qed

lemma digit_not:
  assumes "is_digit c"
  shows "c \<noteq> 0" "c \<noteq> 0x2f" "c \<noteq> 0x2c" "c \<noteq> 0x3a" "c \<noteq> 0x2b" "c \<noteq> 0x2d" "c \<noteq> 0x22" "\<not> is_space c" "\<not> IS_WHITE_SPACE c"
  using assms by (auto simp: is_digit_def is_space_def IS_WHITE_SPACE_def word_le_nat_alt word_unat_eq_iff)

lemma atoi_digits:
  assumes "is_digit c" "is_digit d" "\<not> is_digit e"
  shows "atoi (c # d # e # r) = Some (int (10 * (unat c - 48) + (unat d - 48)))" "atoi [c, d] = Some (int (10 * (unat c - 48) + (unat d - 48)))"
proof -
  have l: "10 * (unat c - 48) + (unat d - 48) < 100" using digit_value [OF assms(1)] digit_value [OF assms(2)] by linarith
  show "atoi (c # d # e # r) = Some (int (10 * (unat c - 48) + (unat d - 48)))" "atoi [c, d] = Some (int (10 * (unat c - 48) + (unat d - 48)))"
    using assms digit_not [OF assms(1)] l
    by (simp_all add: atoi_def skip_sign_def digits_val_Cons)
qed

lemma two_value:
  assumes "n < 100"
  shows "two n = [a, b] \<Longrightarrow> is_digit a \<and> is_digit b \<and> 10 * (unat a - 48) + (unat b - 48) = n"
    "byte_hex (BIN2BCD n) = two n" "dec2 n = two n" "unat (BIN2BCD n) = 16 * (n div 10) + n mod 10"
proof -
  have d: "n div 10 < 10" "n mod 10 < 10" using assms by simp_all
  show "two n = [a, b] \<Longrightarrow> is_digit a \<and> is_digit b \<and> 10 * (unat a - 48) + (unat b - 48) = n"
    using digit_chars [OF d(1)] digit_chars [OF d(2)] by (auto simp: two_def)
  have "push_bit 4 (n div 10) OR n mod 10 = 16 * (n div 10) + n mod 10"
  proof -
    have "n mod 10 = take_bit 4 (n mod 10)" using d(2) by (simp add: take_bit_nat_eq_self)
    then have "push_bit 4 (n div 10) AND n mod 10 = push_bit 4 (n div 10) AND take_bit 4 (n mod 10)" by simp
    also have "\<dots> = 0" by (rule bit_eqI) (auto simp: bit_simps)
    finally show ?thesis by (simp add: disjunctive_add_eq_or push_bit_eq_mult flip: disjunctive_add_eq_or)
  qed
  then show u: "unat (BIN2BCD n) = 16 * (n div 10) + n mod 10"
    using d by (simp add: BIN2BCD_def unsigned_of_nat take_bit_nat_eq_self del: of_nat_add of_nat_mult)
  have "(16 * (n div 10) + n mod 10) div 16 = n div 10" "(16 * (n div 10) + n mod 10) mod 16 = n mod 10" using d by simp_all
  then show "byte_hex (BIN2BCD n) = two n"
    using digit_chars(3) [OF d(1)] digit_chars(3) [OF d(2)] by (simp add: byte_hex_def u two_def)
  show "dec2 n = two n"
    using d decimal.simps [of n] decimal.simps [of "n div 10"] by (cases "n < 10") (simp_all add: dec2_def two_def)
qed

section \<open>Dates\<close>

text \<open>The text of a date with a time zone.\<close>

record date =
  d_year :: nat
  d_month :: nat
  d_day :: nat
  d_hour :: nat
  d_minute :: nat
  d_second :: nat
  d_west :: bool
  d_zone :: nat

definition date_text :: "date \<Rightarrow> bytes" where
  "date_text d = two (d_year d) @ [0x2f] @ two (d_month d) @ [0x2f] @ two (d_day d) @ [0x2c] @ two (d_hour d) @ [0x3a] @
     two (d_minute d) @ [0x3a] @ two (d_second d) @ [if d_west d then 0x2d else 0x2b] @ two (d_zone d)"

definition two_digits :: "date \<Rightarrow> bool" where
  "two_digits d \<longleftrightarrow> d_year d < 100 \<and> d_month d < 100 \<and> d_day d < 100 \<and> d_hour d < 100 \<and> d_minute d < 100 \<and>
     d_second d < 100 \<and> d_zone d < 100"

text \<open>A date of the calendar from 2000 to 2099 with a time zone from -12 to +14 hours.\<close>

definition month_days :: "nat \<Rightarrow> nat \<Rightarrow> nat" where
  "month_days y m =
     (if m = 2 then (if (2000 + y) mod 4 = 0 \<and> ((2000 + y) mod 100 \<noteq> 0 \<or> (2000 + y) mod 400 = 0) then 29 else 28)
      else if m \<in> {4, 6, 9, 11} then 30 else 31)"

definition real_date :: "date \<Rightarrow> bool" where
  "real_date d \<longleftrightarrow> 1 \<le> d_month d \<and> d_month d \<le> 12 \<and> 1 \<le> d_day d \<and> d_day d \<le> month_days (d_year d) (d_month d) \<and>
     d_hour d < 24 \<and> d_minute d < 60 \<and> d_second d < 60 \<and> d_zone d \<le> (if d_west d then 48 else 56)"

definition calendar_of :: "date \<Rightarrow> CALENDAR_TIME" where
  "calendar_of d = \<lparr>cal_yy = BIN2BCD (d_year d), cal_MM = BIN2BCD (d_month d), cal_dd = BIN2BCD (d_day d),
     cal_hh = BIN2BCD (d_hour d), cal_mm = BIN2BCD (d_minute d), cal_ss_l = of_nat (d_second d mod 10),
     cal_ss_h = of_nat (d_second d div 10), cal_ew = (if d_west d then 1 else 0), cal_tz = of_nat (d_zone d), cal_ms = 0\<rparr>"

lemma leap_year: "y < 100 \<Longrightarrow> IS_LEAP_YEAR y \<longleftrightarrow> (2000 + y) mod 4 = 0 \<and> ((2000 + y) mod 100 \<noteq> 0 \<or> (2000 + y) mod 400 = 0)"
proof -
  assume y: "y < 100"
  have "(2000 + y) mod 4 = y mod 4" "(2000 + y) mod 100 = y mod 100" "(2000 + y) mod 400 = y mod 400"
    using mod_mult_self3 [of 500 4 y] mod_mult_self3 [of 20 100 y] mod_mult_self3 [of 5 400 y] by simp_all
  then show ?thesis by (simp add: IS_LEAP_YEAR_def)
qed

lemma day_ok_days:
  "y < 100 \<Longrightarrow> 1 \<le> m \<Longrightarrow> m \<le> 12 \<Longrightarrow> day_ok y m d \<longleftrightarrow> 1 \<le> d \<and> d \<le> month_days y m"
  by (auto simp: day_ok_def month_days_def leap_year)

text \<open>The fields of a text in which two digits are followed by another character.\<close>

declare find_char.simps [simp del]

lemma field_two:
  assumes "drop p m = two n @ c # r" "n < 100" "\<not> is_digit c"
  shows "time_field p m = Some n"
proof -
  obtain a b where ab: "two n = [a, b]" by (simp add: two_def)
  note d = two_value(1) [OF assms(2) ab]
  have "cstr (a # b # c # r) = a # b # (if c = 0 then [] else c # cstr r)"
    using d digit_not(1) by (auto simp: cstr_def)
  then have "atoi (cstr (drop p m)) = Some (int n)"
    using atoi_digits [of a b] assms(1,3) ab d by (cases "c = 0") auto
  then show ?thesis using assms(2) by (simp add: time_field_def unsigned_of_nat take_bit_nat_eq_self)
qed

lemma find_two:
  assumes "drop p m = two n @ c # r" "n < 100" "\<not> is_digit c"
  shows "find_char c m p = Some (p + 2)"
proof -
  obtain a b where ab: "two n = [a, b]" by (simp add: two_def)
  note d = two_value(1) [OF assms(2) ab]
  have l: "rd m p = Some a" "rd m (p + 1) = Some b" "rd m (p + 2) = Some c"
  proof -
    have "p < length m" using assms(1) ab by (cases "p < length m") simp_all
    have n: "rd m (p + k) = rd (drop p m) k" for k by (auto simp: rd_def less_diff_conv add.commute)
    show "rd m p = Some a" "rd m (p + 1) = Some b" "rd m (p + 2) = Some c"
      using n [of 0] n [of 1] n [of 2] assms(1) ab by (simp_all add: rd_def)
  qed
  then show ?thesis using d digit_not(1) assms(3)
    by (subst find_char.simps, simp, subst find_char.simps) (auto simp: find_char.simps [of _ _ "Suc (Suc p)"])
qed

lemma next_two:
  assumes "drop p m = two n @ c # two k @ e # r" "n < 100" "\<not> is_digit c" "k < 100" "\<not> is_digit e"
  shows "next_field c p m = Some (k, p + 3)"
proof -
  have "drop (p + 3) m = drop 3 (drop p m)" by (simp add: add.commute)
  also have "\<dots> = two k @ e # r" using assms(1) by (simp add: two_def)
  finally have "time_field (p + 3) m = Some k" by (rule field_two [OF _ assms(4,5)])
  then show ?thesis using find_two [OF assms(1,2,3)] by (simp add: next_field_def numeral_3_eq_3)
qed

fun places_ok :: "nat list \<Rightarrow> nat \<Rightarrow> bytes \<Rightarrow> bool" where
  "places_ok seps i [] = True"
| "places_ok seps i (c # s) = ((i \<in> set seps \<or> is_digit c) \<and> places_ok seps (Suc i) s)"

lemma digit_loop_places:
  "digit_loop seps (length s) (length pre) (pre @ s @ rest) = Some (places_ok seps (length pre) s)"
proof (induction s arbitrary: pre)
  case (Cons c s)
  have "rd (pre @ (c # s) @ rest) (length pre) = Some c" by (simp add: rd_def)
  then show ?case using Cons.IH [of "pre @ [c]"] by simp
qed simp

lemma date_chars:
  assumes "two_digits d"
  shows "length (date_text d) = 20" "0 \<notin> set (date_text d)" "\<forall>c \<in> set (date_text d). \<not> IS_WHITE_SPACE c \<and> c \<noteq> 0x22"
    "places_ok [2, 5, 8, 11, 14, 17] 0 (date_text d)"
    "sep_check date_seps (date_text d @ r) = Some True" "rd (date_text d @ r) 17 = Some (if d_west d then 0x2d else 0x2b)"
proof -
  obtain a1 b1 a2 b2 a3 b3 a4 b4 a5 b5 a6 b6 a7 b7 where t: "two (d_year d) = [a1, b1]" "two (d_month d) = [a2, b2]"
    "two (d_day d) = [a3, b3]" "two (d_hour d) = [a4, b4]" "two (d_minute d) = [a5, b5]" "two (d_second d) = [a6, b6]"
    "two (d_zone d) = [a7, b7]"
    by (simp add: two_def)
  have g: "is_digit a1" "is_digit b1" "is_digit a2" "is_digit b2" "is_digit a3" "is_digit b3" "is_digit a4" "is_digit b4"
    "is_digit a5" "is_digit b5" "is_digit a6" "is_digit b6" "is_digit a7" "is_digit b7"
    using two_value(1) t assms unfolding two_digits_def by blast+
  have x: "date_text d = [a1, b1, 0x2f, a2, b2, 0x2f, a3, b3, 0x2c, a4, b4, 0x3a, a5, b5, 0x3a, a6, b6,
      if d_west d then 0x2d else 0x2b, a7, b7]"
    by (simp add: date_text_def t)
  have nz: "\<forall>c. is_digit c \<longrightarrow> c \<noteq> 0 \<and> \<not> IS_WHITE_SPACE c \<and> c \<noteq> 0x22" using digit_not by blast
  show "length (date_text d) = 20" "0 \<notin> set (date_text d)" "\<forall>c \<in> set (date_text d). \<not> IS_WHITE_SPACE c \<and> c \<noteq> 0x22"
    using g nz unfolding x by (auto simp: IS_WHITE_SPACE_def)
  show "places_ok [2, 5, 8, 11, 14, 17] 0 (date_text d)" using g unfolding x by simp
  show "sep_check date_seps (date_text d @ r) = Some True" unfolding x date_seps_def by (simp add: rd_def)
  show "rd (date_text d @ r) 17 = Some (if d_west d then 0x2d else 0x2b)" unfolding x by (simp add: rd_def)
qed

lemma date_available:
  assumes "two_digits d"
  shows "AT_TimeFormat_isAvailable (Some (date_text d @ 0 # r)) = Some True"
proof -
  have "digit_loop [2, 5, 8, 11, 14, 17] 20 0 (date_text d @ 0 # r) = Some True"
    using digit_loop_places [of _ "date_text d" "[]" "0 # r"] date_chars [OF assms] by simp
  then show ?thesis using date_chars [OF assms] by (simp add: AT_TimeFormat_isAvailable_def)
qed

lemma date_fields:
  assumes "two_digits d"
  shows "time_field 0 (date_text d @ 0 # r) = Some (d_year d)"
    "next_field 0x2f 0 (date_text d @ 0 # r) = Some (d_month d, 3)"
    "next_field 0x2f 3 (date_text d @ 0 # r) = Some (d_day d, 6)"
    "next_field 0x2c 6 (date_text d @ 0 # r) = Some (d_hour d, 9)"
    "next_field 0x3a 9 (date_text d @ 0 # r) = Some (d_minute d, 12)"
    "next_field 0x3a 12 (date_text d @ 0 # r) = Some (d_second d, 15)"
    "time_field 18 (date_text d @ 0 # r) = Some (d_zone d)"
proof -
  have n: "\<not> is_digit 0x2f" "\<not> is_digit 0x2c" "\<not> is_digit 0x3a" "\<not> is_digit (if d_west d then 0x2d else 0x2b)" "\<not> is_digit 0"
    by (auto simp: is_digit_def)
  note w = assms [unfolded two_digits_def]
  have l: "length (two k) = 2" for k by (simp add: two_def)
  show "time_field 0 (date_text d @ 0 # r) = Some (d_year d)"
    by (rule field_two [where c = "0x2f"]) (use w n in \<open>simp_all add: date_text_def\<close>)
  show "next_field 0x2f 0 (date_text d @ 0 # r) = Some (d_month d, 3)"
    using next_two [of 0 "date_text d @ 0 # r" "d_year d" "0x2f" "d_month d" "0x2f"] w n by (simp add: date_text_def)
  show "next_field 0x2f 3 (date_text d @ 0 # r) = Some (d_day d, 6)"
    using next_two [of 3 "date_text d @ 0 # r" "d_month d" "0x2f" "d_day d" "0x2c"] w n by (simp add: date_text_def l)
  show "next_field 0x2c 6 (date_text d @ 0 # r) = Some (d_hour d, 9)"
    using next_two [of 6 "date_text d @ 0 # r" "d_day d" "0x2c" "d_hour d" "0x3a"] w n by (simp add: date_text_def l)
  show "next_field 0x3a 9 (date_text d @ 0 # r) = Some (d_minute d, 12)"
    using next_two [of 9 "date_text d @ 0 # r" "d_hour d" "0x3a" "d_minute d" "0x3a"] w n by (simp add: date_text_def l)
  show "next_field 0x3a 12 (date_text d @ 0 # r) = Some (d_second d, 15)"
    using next_two [of 12 "date_text d @ 0 # r" "d_minute d" "0x3a" "d_second d" "if d_west d then 0x2d else 0x2b"] w n
    by (simp add: date_text_def l)
  show "time_field 18 (date_text d @ 0 # r) = Some (d_zone d)"
    by (rule field_two [where c = 0 and r = r]) (use w n in \<open>simp_all add: date_text_def l\<close>)
qed

lemma calendar_info:
  assumes "two_digits d"
  shows "GetCalendarInfo old (date_text d @ 0 # r) = Some (if real_date d then Some (calendar_of d) else None)"
proof -
  have n: "c_strlen (date_text d @ 0 # r) = Some 20" using date_chars [OF assms] by simp
  have y: "d_year d < 100" using assms by (simp add: two_digits_def)
  show ?thesis
    using date_available [OF assms, of r] date_fields [OF assms, of r] n date_chars(6) [OF assms, of "0 # r"] y
      day_ok_days [of "d_year d" "d_month d" "d_day d"]
    by (simp add: GetCalendarInfo_def real_date_def calendar_of_def)
qed

lemma cclk_read_text:
  assumes "real_date d" "two_digits d"
  shows "cclk_text (calendar_of d) = ascii ''+CCLK: '' @ [0x22] @ date_text d @ [0x22]"
proof -
  note w = assms(2) [unfolded two_digits_def]
  have s: "d_second d div 10 < 10" "d_second d mod 10 < 10" using w by auto
  have u: "unat (of_nat (d_second d div 10) :: u8) = d_second d div 10" "unat (of_nat (d_second d mod 10) :: u8) = d_second d mod 10"
    "unat (of_nat (d_zone d) :: u8) = d_zone d"
    using s w by (simp_all add: unsigned_of_nat take_bit_nat_eq_self)
  show ?thesis using w digit_chars(3) [OF s(1)] digit_chars(3) [OF s(2)]
    by (simp add: cclk_text_def calendar_of_def two_value(2,3) u date_text_def) (simp add: two_def)
qed

section \<open>Setting and reading the clock\<close>

text \<open>The parameters of a command with one in_quotes text.\<close>

definition text_para :: "AT_CMD_TYPE_T \<Rightarrow> bytes \<Rightarrow> AT_CMD_PARA" where
  "text_para ty t = \<lparr>pa_type = ty, pPara = in_quotes t, pa_params = [], pExData = None\<rparr>"

text \<open>C10: a text of six fields of two digits with a time zone sets the clock exactly when it is a date of the
  calendar (with leap years, hours up to 23 and a zone from -12:00 to +14:00), is refused as a wrong
  parameter otherwise, and when the platform gives back the time that was set, reading it answers with
  the same text.\<close>

theorem clock_set_and_read:
  assumes "two_digits d"
  shows "AT_CmdFunc_CCLK old set_ok (text_para AT_CMD_SET (date_text d)) =
      Some (if real_date d
        then HCall (KING_LocalTimeSet (calendar_of d)) #
          (if set_ok (calendar_of d) then [HAnswer OK] else [HAnswer (CmeError 50)])
        else [HAnswer (CmeError 53)]) \<and>
    (real_date d \<longrightarrow> AT_CmdFunc_CCLK (Some (calendar_of d)) set_ok (text_para AT_CMD_READ q) =
      Some [HInfo (ascii ''+CCLK: '' @ in_quotes (date_text d)), HAnswer OK])"
proof -
  note c = date_chars [OF assms]
  have nq: "0x22 \<notin> set (date_text d)" using c(3) by blast
  have one: "one_of [in_quotes (date_text d)] 0 (in_quotes (date_text d))"
    using one_quoted [OF nq c(2)] c(1) by simp
  have j: "join_para [in_quotes (date_text d)] = in_quotes (date_text d)" by simp
  have l: "length (in_quotes (date_text d)) < 1000" "length (date_text d) + 2 < unat (24 :: u16)"
    "unat (24 :: u16) \<le> length (replicate 24 (0 :: u8))" "date_text d \<noteq> []" "length (date_text d) \<le> 254"
    using c(1) by (auto simp: in_quotes_def)
  obtain z where g: "AT_Util_GetParaWithRule (Some (in_quotes (date_text d) @ [0])) 0 AT_UTIL_PARA_TYPE_STRING
      (Some (replicate 24 0)) (Some 24) =
      Some (ERR_SUCCESS, Some (in_quotes (date_text d) @ [0], date_text d @ 0 # z, of_nat (length (date_text d))))"
    using get_quoted [OF one c(2) l(4,2,3,5), of "[]"] unfolding j by blast
  have n: "AT_Util_GetParaCount (in_quotes (date_text d) @ [0]) = Some (ERR_SUCCESS, in_quotes (date_text d) @ [0], 1)"
    using count_one [OF one l(1), of "[]"] unfolding j by simp
  have "AT_CmdFunc_CCLK old set_ok (text_para AT_CMD_SET (date_text d)) =
      Some (if real_date d
        then HCall (KING_LocalTimeSet (calendar_of d)) #
          (if set_ok (calendar_of d) then [HAnswer OK] else [HAnswer (CmeError 50)])
        else [HAnswer (CmeError 53)])"
    using g n c(1,2) calendar_info [OF assms, of old z]
    by (simp add: AT_CmdFunc_CCLK_def text_para_def)
  moreover have "AT_CmdFunc_CCLK (Some (calendar_of d)) set_ok (text_para AT_CMD_READ q) =
      Some [HInfo (ascii ''+CCLK: '' @ in_quotes (date_text d)), HAnswer OK]" if "real_date d"
    using cclk_read_text [OF that assms] by (simp add: AT_CmdFunc_CCLK_def text_para_def in_quotes_def)
  ultimately show ?thesis by blast
qed

definition leap_day :: date where
  "leap_day = \<lparr>d_year = 24, d_month = 2, d_day = 29, d_hour = 23, d_minute = 59, d_second = 8, d_west = True, d_zone = 32\<rparr>"

theorem clock_set_and_read_witness:
  "AT_CmdFunc_CCLK None (\<lambda>_. True) (text_para AT_CMD_SET (date_text leap_day)) =
     Some [HCall (KING_LocalTimeSet (calendar_of leap_day)), HAnswer OK] \<and>
   AT_CmdFunc_CCLK None (\<lambda>_. True) (text_para AT_CMD_SET (date_text (leap_day\<lparr>d_year := 23\<rparr>))) =
     Some [HAnswer (CmeError 53)]"
proof -
  have "two_digits leap_day" "two_digits (leap_day\<lparr>d_year := 23\<rparr>)" "real_date leap_day" "\<not> real_date (leap_day\<lparr>d_year := 23\<rparr>)"
    by (simp_all add: leap_day_def two_digits_def real_date_def month_days_def)
  then show ?thesis
    using clock_set_and_read [of leap_day None "\<lambda>_. True"] clock_set_and_read [of "leap_day\<lparr>d_year := 23\<rparr>" None "\<lambda>_. True"]
    by simp
qed

text \<open>A text that ends before its seconds, as in 20/01/01,10:59: is not refused: the missing field counts as 0,
  and the clock is set.\<close>

theorem short_time_accepted:
  assumes "n < 60"
  shows "GetCalendarInfo (Some old) (ascii ''20/01/01,10:'' @ two n @ ascii '':'' @ 0 # r) =
      Some (Some \<lparr>cal_yy = 0x20, cal_MM = 1, cal_dd = 1, cal_hh = 0x10, cal_mm = BIN2BCD n, cal_ss_l = 0, cal_ss_h = 0,
        cal_ew = cal_ew old, cal_tz = cal_tz old, cal_ms = 0\<rparr>)"
proof -
  obtain a b where t: "two n = [a, b]" by (simp add: two_def)
  have n: "n < 100" using assms by simp
  have g: "is_digit a" "is_digit b" using two_value(1) [OF n t] by blast+
  let ?x = "[0x32, 0x30, 0x2f, 0x30, 0x31, 0x2f, 0x30, 0x31, 0x2c, 0x31, 0x30, 0x3a, a, b, 0x3a]"
  have x: "ascii ''20/01/01,10:'' @ two n @ ascii '':'' @ 0 # r = ?x @ 0 # r" by (simp add: ascii_def t)
  have s: "\<not> is_digit 0x2f" "\<not> is_digit 0x2c" "\<not> is_digit 0x3a" by (simp_all add: is_digit_def)
  have w: "two 20 = [0x32, 0x30]" "two 1 = [0x30, 0x31]" "two 10 = [0x31, 0x30]" by (simp_all add: two_def)
  have nul: "0 \<notin> set ?x" using digit_not(1) [OF g(1)] digit_not(1) [OF g(2)] by simp
  have len: "c_strlen (?x @ 0 # r) = Some 15" using c_strlen_append_nul [OF nul, of r] by simp
  have places: "digit_loop [2, 5, 8, 11, 14] 15 0 (?x @ 0 # r) = Some True"
  proof -
    have l: "length ?x = 15" by simp
    have p: "places_ok [2, 5, 8, 11, 14] 0 ?x" using g by (simp add: is_digit_def)
    have "digit_loop [2, 5, 8, 11, 14] (length ?x) (length ([] :: bytes)) ([] @ ?x @ 0 # r) =
        Some (places_ok [2, 5, 8, 11, 14] (length ([] :: bytes)) ?x)" by (rule digit_loop_places)
    then show ?thesis unfolding l list.size(3) append_Nil using p by simp
  qed
  have sep: "sep_check date_seps (?x @ 0 # r) = Some True" by (simp add: date_seps_def rd_def)
  have ok: "AT_TimeFormat_isAvailable (Some (?x @ 0 # r)) = Some True"
    unfolding AT_TimeFormat_isAvailable_def option.case using len places sep by simp
  have f: "time_field 0 (?x @ 0 # r) = Some 20" "next_field 0x2f 0 (?x @ 0 # r) = Some (1, 3)"
    "next_field 0x2f 3 (?x @ 0 # r) = Some (1, 6)" "next_field 0x2c 6 (?x @ 0 # r) = Some (10, 9)"
    "next_field 0x3a 9 (?x @ 0 # r) = Some (n, 12)"
    using field_two [of 0 "?x @ 0 # r" 20 "0x2f"] next_two [of 0 "?x @ 0 # r" 20 "0x2f" 1 "0x2f"]
      next_two [of 3 "?x @ 0 # r" 1 "0x2f" 1 "0x2c"] next_two [of 6 "?x @ 0 # r" 1 "0x2c" 10 "0x3a"]
      next_two [of 9 "?x @ 0 # r" 10 "0x3a" n "0x3a"] s n t w by simp_all
  have "find_char 0x3a (?x @ 0 # r) 12 = Some 14" using find_two [of 12 "?x @ 0 # r" n "0x3a" "0 # r"] s n t by simp
  then have z: "next_field 0x3a 12 (?x @ 0 # r) = Some (0, 15)"
    by (simp add: next_field_def time_field_def atoi_def skip_sign_def)
  have "BIN2BCD 20 = 0x20" "BIN2BCD 1 = 1" "BIN2BCD 10 = 0x10" by (simp_all add: BIN2BCD_def)
  then show ?thesis
    unfolding x GetCalendarInfo_def using ok f z len assms by (simp add: day_ok_def)
qed

theorem short_time_accepted_witness:
  "GetCalendarInfo (Some (calendar_of leap_day)) (ascii ''20/01/01,10:'' @ two 59 @ ascii '':'' @ 0 # []) \<noteq> Some None"
  using short_time_accepted [of 59 "calendar_of leap_day" "[]"] by simp

end
