(* ===== verification/At_Cmd_Gc.thy ===== *)
theory At_Cmd_Gc
  imports At_Handler Str_Quoted At_Cfg Lp_Ctrl
begin

text \<open>
  General commands (at_cmd_gc.c): echo, function level, baud rate, saving the settings, power, the
  port for unsolicited results and the peripherals. State that a command changes is taken and given
  back; the results of the platform's routines are arguments.
\<close>

section \<open>Echo, function level, baud rate\<close>

text \<open>The state is the echo mode.\<close>

definition AT_CmdFunc_E :: "AT_CMD_PARA \<Rightarrow> u8 \<Rightarrow> (hstep list \<times> u8) option" where
  "AT_CmdFunc_E pParam echo_mode =
     (if pa_type pParam = AT_CMD_EXE then do {
        (eResult, m, iCount) \<leftarrow> AT_Util_GetParaCount (pPara pParam @ [0]);
        if eResult = ERR_SUCCESS then
          if iCount \<noteq> 1 \<and> iCount \<noteq> 0 then Some (cme ERR_AT_CME_PARAM_INVALID, echo_mode)
          else if iCount = 0 then Some (resp_ok, 1)
          else do {
            (e, r) \<leftarrow> AT_Util_GetParaWithRule (Some m) 0 AT_UTIL_PARA_TYPE_UINT8 (Some [0]) (Some 1);
            if e = ERR_SUCCESS then do {
              (_, t, _) \<leftarrow> r;
              atl_para \<leftarrow> rd t 0;
              if atl_para > 1 then Some (cme ERR_AT_CME_PARAM_INVALID, echo_mode) else Some (resp_ok, atl_para) }
            else Some (cme ERR_AT_CME_PARAM_INVALID, echo_mode) }
        else Some (cme ERR_AT_CME_PARAM_INVALID, echo_mode) }
      else Some (cme ERR_AT_CME_OPERATION_NOT_ALLOWED, echo_mode))"

definition airplane :: "(nat \<Rightarrow> bool) \<Rightarrow> nat \<Rightarrow> hstep list" where
  "airplane set_ok n = HCall (KING_NetAirplaneModeSet n) # (if set_ok n then resp_ok else cme ERR_AT_CME_EXE_FAIL)"

definition AT_CmdFunc_CFUN :: "(nat \<Rightarrow> bool) \<Rightarrow> u32 option \<Rightarrow> AT_CMD_PARA \<Rightarrow> hstep list option" where
  "AT_CmdFunc_CFUN set_ok mode pParam =
     (case pa_type pParam of
        AT_CMD_SET \<Rightarrow>
          if length (pa_params pParam) \<noteq> 1 \<and> length (pa_params pParam) \<noteq> 2 then Some (cme ERR_AT_CME_PARAM_INVALID)
          else do {
            (func, paramok) \<leftarrow> at_ParamDefUintInList (pparam pParam 0) 1 [0, 1, 4] True;
            if \<not> paramok then Some (cme ERR_AT_CME_PARAM_INVALID)
            else
              let (rst, paramok) = (if length (pa_params pParam) = 2
                then at_ParamDefUintInRange (pparam pParam 1) 1 0 1 paramok else (0, paramok)) in
              if \<not> paramok then Some (cme ERR_AT_CME_PARAM_INVALID)
              else if func = 0 \<or> func = 4 then
                Some (if rst \<noteq> 0 then cme ERR_AT_CME_OPERATION_NOT_SUPPORTED else airplane set_ok 1)
              else if func = 1 then
                Some (if rst \<noteq> 0 then [HAnswer OK, HCall KING_PowerReboot] else airplane set_ok 0)
              else Some [] }
      | AT_CMD_TEST \<Rightarrow> Some (info_ok (ascii ''+CFUN: (0,1,4),(0,1)''))
      | AT_CMD_READ \<Rightarrow>
          Some (case mode of
              Some f \<Rightarrow> info_ok (ascii ''+CFUN: '' @ decimal (if f = 0 then 1 else 0))
            | None \<Rightarrow> cme ERR_AT_CME_EXE_FAIL)
      | AT_CMD_EXE \<Rightarrow> Some (cme ERR_AT_CME_OPERATION_NOT_ALLOWED))"

text \<open>The state is the baud rate of the settings and that of the USB port; \<open>devno\<close> is the number of the device.\<close>

record baud_state =
  gATCurrentu32nBaudRate :: u32
  usb_baud :: u32

definition AT_CmdFunc_IPR :: "nat \<Rightarrow> (u32 \<Rightarrow> bool) \<Rightarrow> AT_CMD_PARA \<Rightarrow> baud_state \<Rightarrow> hstep list \<times> baud_state" where
  "AT_CmdFunc_IPR devno supported pParam s =
     (if devno \<noteq> 0 \<and> devno \<noteq> 1 then (cme ERR_AT_CME_OPERATION_NOT_ALLOWED, s)
      else
        let s = (if devno = 1 \<and> usb_baud s = 0 then s\<lparr>usb_baud := gATCurrentu32nBaudRate s\<rparr> else s) in
        case pa_type pParam of
          AT_CMD_SET \<Rightarrow>
            if length (pa_params pParam) \<noteq> 1 then (cme ERR_AT_CME_PARAM_INVALID, s)
            else
              let (baud, paramok) = at_ParamUint (pparam pParam 0) True in
              if \<not> paramok then (cme ERR_AT_CME_PARAM_INVALID, s)
              else if \<not> supported baud then (cme ERR_AT_CME_PARAM_INVALID, s)
              else if devno = 1 then
                if usb_baud s \<noteq> baud then ([HFormatNeeded, HAnswer OK], s\<lparr>usb_baud := baud\<rparr>) else (resp_ok, s)
              else if gATCurrentu32nBaudRate s \<noteq> baud
                then ([HFormatNeeded, HAnswer OK], s\<lparr>gATCurrentu32nBaudRate := baud\<rparr>) else (resp_ok, s)
        | AT_CMD_TEST \<Rightarrow>
            (info_ok (ascii (''+IPR: (4800,9600,19200,38400,57600,115200),'' @
               ''(2400,4800,9600,14400,19200,28800,33600,38400,57600,115200,230400,460800,921600,1843200)'')), s)
        | AT_CMD_READ \<Rightarrow>
            (info_ok (ascii ''+IPR: '' @ decimal (unat (if devno = 1 then usb_baud s else gATCurrentu32nBaudRate s))), s)
        | AT_CMD_EXE \<Rightarrow> (cme ERR_AT_CME_OPERATION_NOT_ALLOWED, s))"

section \<open>Settings and power\<close>

definition AT_CmdFunc_AndW :: "'f king_fs \<Rightarrow> at_cfg \<Rightarrow> AT_CMD_PARA \<Rightarrow> 'f \<Rightarrow> (hstep list \<times> 'f) option" where
  "AT_CmdFunc_AndW F c pParam f =
     (if pa_type pParam = AT_CMD_EXE then do {
        (eResult, m, iCount) \<leftarrow> AT_Util_GetParaCount (pPara pParam @ [0]);
        if eResult = ERR_SUCCESS \<and> iCount \<le> 1 then
          let (profile, paramok) = (if iCount = 1 then at_ParamUint (pparam pParam 0) True else (0, True)) in
          if iCount = 1 \<and> (\<not> paramok \<or> profile \<noteq> 0) then Some (cme ERR_AT_CME_PARAM_INVALID, f)
          else
            let (ok, f) = at_CfgSetAtSettings F (unat profile) c f in
            Some (if ok then resp_ok else cme ERR_AT_CME_EXE_FAIL, f)
        else Some ([HError], f) }
      else Some ([HError], f))"

definition AT_CmdFunc_QPOWD :: "AT_CMD_PARA \<Rightarrow> hstep list" where
  "AT_CmdFunc_QPOWD pParam =
     (case pa_type pParam of
        AT_CMD_TEST \<Rightarrow> info_ok (ascii ''+QPOWD: (0,1)'')
      | AT_CMD_READ \<Rightarrow> cme ERR_AT_CME_OPERATION_NOT_ALLOWED
      | _ \<Rightarrow>
          if length (pa_params pParam) \<noteq> 1 \<and> length (pa_params pParam) \<noteq> 0 then cme ERR_AT_CME_PARAM_INVALID
          else
            let (mode, paramok) = at_ParamDefUintInRange (pparam pParam 0) 1 0 1 True in
            if \<not> paramok then cme ERR_AT_CME_PARAM_INVALID
            else (if mode = 1 then [HAnswer OK, HInfo (ascii ''POWERED DOWN'')] else []) @ [HCall KING_PowerOff])"

definition lp_mode_number :: "AT_LP_CTRL_MODE_T \<Rightarrow> nat" where
  "lp_mode_number m = (case m of AT_LP_CTRL_DISABLE \<Rightarrow> 0 | AT_LP_CTRL_BY_DTR \<Rightarrow> 1 | AT_LP_CTRL_BY_RX \<Rightarrow> 2 | AT_LP_CTRL_OTHER n \<Rightarrow> n)"

definition AT_CmdFunc_QSCLK :: "AT_CMD_PARA \<Rightarrow> AT_LP_CTRL_CONTEXT \<Rightarrow> hstep list \<times> AT_LP_CTRL_CONTEXT" where
  "AT_CmdFunc_QSCLK pParam lp =
     (case pa_type pParam of
        AT_CMD_SET \<Rightarrow>
          if length (pa_params pParam) \<noteq> 1 then (cme ERR_AT_CME_PARAM_INVALID, lp)
          else
            let (sclk, paramok) = at_ParamUintInRange (pparam pParam 0) 0 2 True in
            if \<not> paramok then (cme ERR_AT_CME_PARAM_INVALID, lp)
            else if sclk = 1 then (cme ERR_AT_CME_OPERATION_NOT_SUPPORTED, lp)
            else (resp_ok, snd (at_LpCtrlSetMode (lp_mode_of (unat sclk)) lp))
      | AT_CMD_READ \<Rightarrow> (info_ok (ascii ''+QSCLK: '' @ decimal (lp_mode_number (at_LpCtrlGetMode lp))), lp)
      | AT_CMD_TEST \<Rightarrow> (info_ok (ascii ''+QSCLK: (0,2)''), lp)
      | AT_CMD_EXE \<Rightarrow> (cme ERR_AT_CME_OPERATION_NOT_ALLOWED, lp))"

section \<open>The port for unsolicited results\<close>

definition urc_infos :: "bytes list" where
  "urc_infos = [ascii ''uart1'', ascii ''usbat'']"

text \<open>\<open>strcasecmp\<close> gives 0.\<close>

definition same_caseless :: "bytes \<Rightarrow> bytes \<Rightarrow> bool" where
  "same_caseless s t \<longleftrightarrow> map upcase s = map upcase t"

text \<open>The value of the setting, a number in four bytes, is an index.\<close>

definition port_value :: "bytes \<Rightarrow> nat" where
  "port_value b = foldr (\<lambda>c n. unat c + 256 * n) b 0"

definition urc_text :: "at_cfg \<Rightarrow> bytes option" where
  "urc_text c = do {
     info \<leftarrow> rd urc_infos (port_value (gAtCurAsSetting c));
     Some (ascii ''+QURCCFG: '' @ in_quotes (ascii ''urcport'') @ [0x2c] @ in_quotes info) }"

fun urc_find :: "nat \<Rightarrow> bytes list \<Rightarrow> bytes \<Rightarrow> nat option" where
  "urc_find i [] p = None"
| "urc_find i (x # xs) p = (if same_caseless p x then Some i else urc_find (i + 1) xs p)"

text \<open>The state is the settings, the files and the channel for unsolicited results.\<close>

definition AT_CmdFunc_QURCCFG ::
  "'f king_fs \<Rightarrow> int \<Rightarrow> int \<Rightarrow> AT_CMD_PARA \<Rightarrow> int \<times> at_cfg \<times> 'f \<Rightarrow> (hstep list \<times> int \<times> at_cfg \<times> 'f) option" where
  "AT_CmdFunc_QURCCFG F uart usb pParam = (\<lambda>(ch, c, f).
     case pa_type pParam of
        AT_CMD_SET \<Rightarrow>
          if length (pa_params pParam) \<noteq> 1 \<and> length (pa_params pParam) \<noteq> 2 then Some (cme ERR_AT_CME_PARAM_INVALID, ch, c, f)
          else do {
            (r, q, paramok) \<leftarrow> at_ParamStr (pparam pParam 0) True;
            if \<not> paramok \<or> \<not> same_caseless (str_text (r, q, paramok)) (ascii ''urcport'')
            then Some (cme ERR_AT_CME_PARAM_INVALID, ch, c, f)
            else if length (pa_params pParam) = 1 then do { t \<leftarrow> urc_text c; Some (info_ok t, ch, c, f) }
            else do {
              (r, q, paramok) \<leftarrow> at_ParamStr (pparam pParam 1) True;
              if \<not> paramok then Some (cme ERR_AT_CME_PARAM_INVALID, ch, c, f)
              else case urc_find 0 urc_infos (str_text (r, q, paramok)) of
                  None \<Rightarrow> Some (cme ERR_AT_CME_PARAM_INVALID, ch, c, f)
                | Some i \<Rightarrow> Some (resp_ok, at_SetUrcPort F uart usb (of_nat i) c f) } }
      | AT_CMD_READ \<Rightarrow> do { t \<leftarrow> urc_text c; Some (info_ok t, ch, c, f) }
      | AT_CMD_TEST \<Rightarrow>
          Some (info_ok (ascii ''+QURCCFG: '' @ in_quotes (ascii ''urcport'') @ ascii '',('' @ in_quotes (ascii ''usbat'') @ [0x2c] @
            in_quotes (ascii ''uart1'') @ ascii '')''), ch, c, f)
      | AT_CMD_EXE \<Rightarrow> Some (cme ERR_AT_CME_OPERATION_NOT_ALLOWED, ch, c, f))"

section \<open>Peripherals\<close>

text \<open>The format \<open>%d\<close> of a number of 32 bits.\<close>

definition signed_text :: "u32 \<Rightarrow> bytes" where
  "signed_text v = int_text (sint v)"

definition AT_CmdFunc_QADC :: "(u32 \<Rightarrow> u32 option) \<Rightarrow> AT_CMD_PARA \<Rightarrow> hstep list" where
  "AT_CmdFunc_QADC adc pParam =
     (case pa_type pParam of
        AT_CMD_SET \<Rightarrow>
          if length (pa_params pParam) \<noteq> 1 then cme ERR_AT_CME_PARAM_INVALID
          else
            let (port, paramok) = at_ParamUintInRange (pparam pParam 0) 0 1 True in
            if \<not> paramok then cme ERR_AT_CME_PARAM_INVALID
            else
              let (status, adc_vol) = (case adc (if port = 0 then 2 else 3) of None \<Rightarrow> (0, 0) | Some v \<Rightarrow> (1, v))
              in info_ok (ascii ''+QADC: '' @ decimal status @ [0x2c] @ signed_text adc_vol)
      | AT_CMD_TEST \<Rightarrow> info_ok (ascii ''+QADC: (0,1)'')
      | _ \<Rightarrow> cme ERR_AT_CME_OPERATION_NOT_ALLOWED)"

abbreviation (input) SYS_CFG_ID_ASSERT_REBOOT :: nat where "SYS_CFG_ID_ASSERT_REBOOT \<equiv> 2"
abbreviation (input) SYS_CFG_ID_PWR_KEY_7S_RESET :: nat where "SYS_CFG_ID_PWR_KEY_7S_RESET \<equiv> 6"

text \<open>\<open>set_ok\<close> and \<open>get\<close> are the results of \<open>KING_SysCfg\<close>.\<close>

definition AT_CmdFunc_CZEDUMPEN :: "bool \<Rightarrow> u8 option \<Rightarrow> AT_CMD_PARA \<Rightarrow> hstep list" where
  "AT_CmdFunc_CZEDUMPEN set_ok get pParam =
     (case pa_type pParam of
        AT_CMD_SET \<Rightarrow>
          if length (pa_params pParam) \<noteq> 1 then cme ERR_AT_CME_PARAM_INVALID
          else
            let (val, paramok) = at_ParamUintInRange (pparam pParam 0) 0 1 True in
            if \<not> paramok then cme ERR_AT_CME_PARAM_INVALID
            else HCall (KING_SysCfgSet SYS_CFG_ID_ASSERT_REBOOT (if val = 1 then 0 else 1)) #
              (if \<not> set_ok then cme ERR_AT_CME_EXE_FAIL else resp_ok)
      | AT_CMD_READ \<Rightarrow>
          (case get of None \<Rightarrow> cme ERR_AT_CME_EXE_FAIL
           | Some reboot_en \<Rightarrow> info_ok (ascii ''+CZEDUMPEN: '' @ decimal (if reboot_en = 0 then 1 else 0)))
      | AT_CMD_TEST \<Rightarrow> info_ok (ascii ''+CZEDUMPEN: (0,1)'')
      | AT_CMD_EXE \<Rightarrow> cme ERR_AT_CME_OPERATION_NOT_ALLOWED)"

definition AT_CmdFunc_CZLDO :: "bool \<Rightarrow> AT_CMD_PARA \<Rightarrow> hstep list" where
  "AT_CmdFunc_CZLDO set_ok pParam =
     (case pa_type pParam of
        AT_CMD_SET \<Rightarrow>
          let (ldo_id, paramok1) = at_ParamUintInRange (pparam pParam 0) 0 2 True;
              (ldo_vol, paramok2) = at_ParamUintInRange (pparam pParam 1) 1800 3300 True;
              (ldo_onoff, paramok3) = at_ParamUintInRange (pparam pParam 2) 0 1 True in
          if \<not> paramok1 \<or> \<not> paramok2 \<or> \<not> paramok3 then cme ERR_AT_CME_PARAM_INVALID
          else HCall (KING_LdoConfigSet ldo_id ldo_vol (ldo_onoff \<noteq> 0)) #
            (if \<not> set_ok then cme ERR_AT_CME_EXE_FAIL else resp_ok)
      | AT_CMD_TEST \<Rightarrow> info_ok (ascii ''+CZLDO: (0-2),(1800,2800,3000,3300),(0-1)'')
      | _ \<Rightarrow> cme ERR_AT_CME_EXE_NOT_SURPORT)"

text \<open>\<open>cfg\<close> is what the variable holds when the setting has been read, or not.\<close>

definition AT_CmdFunc_SET7SRESET :: "bool \<Rightarrow> u8 \<Rightarrow> AT_CMD_PARA \<Rightarrow> hstep list" where
  "AT_CmdFunc_SET7SRESET set_ok cfg pParam =
     (case pa_type pParam of
        AT_CMD_SET \<Rightarrow>
          if length (pa_params pParam) \<noteq> 1 then cme ERR_AT_CME_PARAM_INVALID
          else
            let (enable, paramok) = at_ParamUintInRange (pparam pParam 0) 0 1 True in
            if \<not> paramok then cme ERR_AT_CME_PARAM_INVALID
            else HCall (KING_SysCfgSet SYS_CFG_ID_PWR_KEY_7S_RESET (ucast enable)) #
              (if \<not> set_ok then cme ERR_AT_CME_EXE_FAIL else resp_ok)
      | AT_CMD_READ \<Rightarrow> info_ok (ascii ''+SET7SRESET: '' @ decimal (unat cfg))
      | AT_CMD_TEST \<Rightarrow> info_ok (ascii ''+SET7SRESET: (0,1)'')
      | AT_CMD_EXE \<Rightarrow> cme ERR_AT_CME_EXE_NOT_SURPORT)"

section \<open>Copying a file to the card\<close>

text \<open>The loop, with fuel: it goes on until as many bytes as the size of the file have been read.\<close>

fun copy_loop :: "'f king_fs \<Rightarrow> nat \<Rightarrow> u32 \<Rightarrow> u32 \<Rightarrow> nat \<Rightarrow> nat \<Rightarrow> 'f \<Rightarrow> (int \<times> 'f) option" where
  "copy_loop F 0 readLen fileSize src dst f = None"
| "copy_loop F (Suc n) readLen fileSize src dst f =
     (if \<not> readLen < fileSize then Some (0, f)
      else case fs_read F src 1024 f of
          (None, f) \<Rightarrow> Some (-1, f)
        | (Some b, f) \<Rightarrow>
            (case fs_write F dst b f of
               (written, f) \<Rightarrow> if written \<noteq> Some (length b) then Some (-1, f) else copy_loop F n (readLen + of_nat (length b)) fileSize src dst f))"

text \<open>The part behind the last slash.\<close>

definition base_name :: "bytes \<Rightarrow> bytes" where
  "base_name s = rev (takeWhile (\<lambda>c. c \<noteq> 0x2f) (rev s))"

text \<open>The name on the card, in the array \<open>fileName\<close> of 256 bytes. \<open>size\<close> is the size of the file, \<open>fuel\<close> a bound
  for the passes of the loop.\<close>

definition fsReadAndWrite :: "'f king_fs \<Rightarrow> (nat \<Rightarrow> 'f \<Rightarrow> u32 option) \<Rightarrow> nat \<Rightarrow> bytes \<Rightarrow> 'f \<Rightarrow> (int \<times> 'f) option" where
  "fsReadAndWrite F file_size fuel pFileName f =
     (case fs_create F pFileName [FS_MODE_READ, FS_MODE_OPEN_EXISTING] f of
        (None, f) \<Rightarrow> Some (-1, f)
      | (Some src, f) \<Rightarrow>
          (case file_size src f of
             None \<Rightarrow> Some (-1, f)
           | Some fileSize \<Rightarrow> do {
               fileName \<leftarrow> wr_block (replicate 256 0) 0 (ascii ''/mnt/sd/'' @ base_name pFileName @ [0]);
               case fs_create F (cstr fileName) [FS_MODE_WRITE, FS_MODE_CREATE_ALWAYS] f of
                 (None, f) \<Rightarrow> Some (-1, f)
               | (Some dst, f) \<Rightarrow> do {
                   (ret, f) \<leftarrow> copy_loop F fuel 0 fileSize src dst f;
                   Some (ret, fs_close F dst (fs_close F src f)) } }))"

definition AT_CmdFunc_CZEM2SD ::
  "'f king_fs \<Rightarrow> (nat \<Rightarrow> 'f \<Rightarrow> u32 option) \<Rightarrow> nat \<Rightarrow> AT_CMD_PARA \<Rightarrow> 'f \<Rightarrow> (hstep list \<times> 'f) option" where
  "AT_CmdFunc_CZEM2SD F file_size fuel pParam f =
     (case pa_type pParam of
        AT_CMD_SET \<Rightarrow>
          if length (pa_params pParam) \<noteq> 1 then Some (cme ERR_AT_CME_PARAM_INVALID, f)
          else do {
            (r, q, paramok) \<leftarrow> at_ParamOptStr (pparam pParam 0) True;
            if \<not> paramok then Some (cme ERR_AT_CME_PARAM_INVALID, f)
            else if length (str_text (r, q, paramok)) > 256 then Some (cme ERR_AT_CME_PARAM_INVALID, f)
            else do {
              (ret, f) \<leftarrow> fsReadAndWrite F file_size fuel (str_text (r, q, paramok)) f;
              Some (if ret = -1 then cme ERR_AT_CME_EXE_FAIL else resp_ok, f) } }
      | AT_CMD_TEST \<Rightarrow> Some (info_ok (ascii ''+CZEM2SD: <filename>''), f)
      | _ \<Rightarrow> Some (cme ERR_AT_CME_EXE_NOT_SURPORT, f))"

end
