(* ===== verification/At_Cmd_Id.thy ===== *)
theory At_Cmd_Id
  imports At_Handler At_Cfg
begin

text \<open>
  Commands for identification (at_cmd_id.c), for the display (at_cmd_lcd.c) and for two SIM cards
  (at_cmd_dualsim.c), and the handlers that the module itself provides (at_sa.c).
\<close>

section \<open>Handlers of the module\<close>

definition SA_DefaultCmdHandler_Error :: "AT_CMD_PARA \<Rightarrow> hstep list" where
  "SA_DefaultCmdHandler_Error pParam = cme ERR_AT_UNKNOWN"

definition SA_DefaultCmdHandler_AT :: "AT_CMD_PARA \<Rightarrow> hstep list" where
  "SA_DefaultCmdHandler_AT pParam = resp_ok"

fun comma_list :: "bytes list \<Rightarrow> bytes" where
  "comma_list [] = []"
| "comma_list [t] = t"
| "comma_list (t # ts) = t @ [0x2c] @ comma_list ts"

definition cmux_text :: "AT_CMUX_CONFIG_T \<Rightarrow> bytes" where
  "cmux_text c = ascii ''+CMUX: '' @ comma_list
     [decimal (unat (transparency c)), decimal (unat (subset_opt c)), decimal (unat (portSpeed c)),
      int_text (cfg_maxFrameSize c), decimal (unat (cfg_ackTimer c)), decimal (unat (maxRetransCount c)),
      decimal (unat (respTimer c)), decimal (unat (wakeupRespTimer c)), decimal (unat (cfg_windowSize c))]"

text \<open>Each parameter is read although one before it was wrong: the flag says so for the rest of them.\<close>

definition cmux_options :: "AT_CMD_PARA \<Rightarrow> AT_CMUX_CONFIG_T \<Rightarrow> AT_CMUX_CONFIG_T \<times> bool" where
  "cmux_options pParam c =
     (let (t, ok) = at_ParamUintInRange (pparam pParam 0) 0 1 True;
          (s, ok) = at_ParamDefUintInRange (pparam pParam 1) (ucast (subset_opt c)) 0 0 ok;
          (p, ok) = at_ParamDefUintInRange (pparam pParam 2) (ucast (portSpeed c)) 1 6 ok;
          (m, ok) = at_ParamDefUintInRange (pparam pParam 3) (of_int (cfg_maxFrameSize c)) 1 2048 ok;
          (a, ok) = at_ParamDefUintInRange (pparam pParam 4) (ucast (cfg_ackTimer c)) 1 255 ok;
          (r, ok) = at_ParamDefUintInRange (pparam pParam 5) (ucast (maxRetransCount c)) 0 100 ok;
          (rt, ok) = at_ParamDefUintInRange (pparam pParam 6) (ucast (respTimer c)) 2 255 ok;
          (w, ok) = at_ParamDefUintInRange (pparam pParam 7) (ucast (wakeupRespTimer c)) 1 255 ok;
          (k, ok) = at_ParamDefUintInRange (pparam pParam 8) (ucast (cfg_windowSize c)) 1 7 ok in
      (\<lparr>transparency = ucast t, subset_opt = ucast s, portSpeed = ucast p, cfg_maxFrameSize = sint m,
        cfg_ackTimer = ucast a, maxRetransCount = ucast r, respTimer = ucast rt, wakeupRespTimer = ucast w,
        cfg_windowSize = ucast k\<rparr>, ok))"

text \<open>\<open>parent\<close> is the configuration of the multiplexer the channel belongs to, \<open>usb\<close> whether the command came from
  the USB port.\<close>

definition SA_DefaultCmdHandler_CMUX :: "AT_CMUX_CONFIG_T option \<Rightarrow> bool \<Rightarrow> AT_CMD_PARA \<Rightarrow> hstep list" where
  "SA_DefaultCmdHandler_CMUX parent usb pParam =
     (case pa_type pParam of
        AT_CMD_TEST \<Rightarrow> info_ok (ascii ''+CMUX: (0,1),(0),(1-6),(1-2048),(1-255),(0-100),(2-255),(1-255),(1-7)'')
      | AT_CMD_READ \<Rightarrow> info_ok (cmux_text (case parent of None \<Rightarrow> gAtCmuxDefaultCfg | Some c \<Rightarrow> c))
      | AT_CMD_SET \<Rightarrow>
          if length (pa_params pParam) > 9 \<or> length (pa_params pParam) < 1 then cme ERR_AT_CME_PARAM_INVALID
          else
            let (muxcfg, paramok) = cmux_options pParam gAtCmuxDefaultCfg in
            if \<not> paramok then cme ERR_AT_CME_PARAM_INVALID
            else if usb then cme ERR_AT_CME_EXE_NOT_SURPORT
            else [HAnswer OK, HSetCmuxMode muxcfg]
      | AT_CMD_EXE \<Rightarrow> cme ERR_AT_CME_EXE_NOT_SURPORT)"

section \<open>Identification\<close>

text \<open>\<open>info\<close> is the text the platform gives.\<close>

definition AT_CmdFunc_GMR :: "bytes \<Rightarrow> AT_CMD_PARA \<Rightarrow> hstep list" where
  "AT_CmdFunc_GMR info pParam =
     (case pa_type pParam of
        AT_CMD_EXE \<Rightarrow> info_ok info
      | AT_CMD_TEST \<Rightarrow> resp_ok
      | _ \<Rightarrow> cme ERR_AT_CME_EXE_NOT_SURPORT)"

fun find_byte :: "u8 \<Rightarrow> bytes \<Rightarrow> nat option" where
  "find_byte c [] = None"
| "find_byte c (x # xs) = (if x = c then Some 0 else map_option Suc (find_byte c xs))"

text \<open>The text is copied to an array of 80 bytes; what no underscore is found gives is used as a place in it.\<close>

definition AT_CmdFunc_CZESVER :: "bytes \<Rightarrow> AT_CMD_PARA \<Rightarrow> hstep list option" where
  "AT_CmdFunc_CZESVER info pParam =
     (case pa_type pParam of
        AT_CMD_EXE \<Rightarrow>
          if length info \<ge> 80 then None
          else do {
            first_us \<leftarrow> find_byte 0x5f info;
            last_us \<leftarrow> find_byte 0x5f (drop (first_us + 1) info);
            Some (info_ok (ascii ''+CZESVER: '' @ take last_us (drop (first_us + 1) info))) }
      | AT_CMD_TEST \<Rightarrow> Some resp_ok
      | _ \<Rightarrow> Some (cme ERR_AT_CME_EXE_NOT_SURPORT))"

text \<open>\<open>imei\<close> is the 15 bytes of the number, when it has been read.\<close>

definition AT_CmdFunc_CGSN :: "bytes option \<Rightarrow> AT_CMD_PARA \<Rightarrow> hstep list" where
  "AT_CmdFunc_CGSN imei pParam =
     (case pa_type pParam of
        AT_CMD_EXE \<Rightarrow>
          (case imei of Some t \<Rightarrow> info_ok (takeWhile (\<lambda>c. c \<noteq> 0) (take 15 t)) | None \<Rightarrow> cme ERR_AT_CME_EXE_NOT_SURPORT)
      | AT_CMD_TEST \<Rightarrow> resp_ok
      | _ \<Rightarrow> cme ERR_AT_CME_EXE_NOT_SURPORT)"

definition CZ_version :: bytes where
  "CZ_version = ascii ''ModemApp'' @ [0x5f] @ decimal 1 @ [0x2e] @ decimal 0 @ [0x2e] @ decimal 14 @ [0x2e] @ decimal 633 @
     [0x5f] @ dec2 20 @ dec2 7 @ dec2 27 @ dec2 9 @ [0x5f] @ ascii ''R''"

definition AT_CmdFunc_WSOP :: "AT_CMD_PARA \<Rightarrow> hstep list option" where
  "AT_CmdFunc_WSOP pParam =
     (case pa_type pParam of
        AT_CMD_SET \<Rightarrow> do {
          (iResult, m, iCount) \<leftarrow> AT_Util_GetParaCount (pPara pParam @ [0]);
          if iResult \<noteq> ERR_SUCCESS \<or> iCount \<noteq> 1 then Some (cme ERR_AT_CME_PARAM_INVALID)
          else do {
            (iResult, r) \<leftarrow> AT_Util_GetParaWithRule (Some m) 0 AT_UTIL_PARA_TYPE_STRING (Some (replicate 10 0)) (Some 10);
            (_, cfw_para, len) \<leftarrow> r;
            if iResult \<noteq> ERR_SUCCESS \<or> len = 0 then Some (cme ERR_AT_CME_INVALID_CHAR_INTEXT)
            else if take 4 cfw_para = ascii ''ATI'' @ [0] then Some (info_ok CZ_version)
            else Some (cme ERR_AT_CME_PARAM_INVALID) } }
      | AT_CMD_TEST \<Rightarrow> Some resp_ok
      | _ \<Rightarrow> Some (cme ERR_AT_CME_EXE_NOT_SURPORT))"

text \<open>\<open>uuid\<close> is what the array of 16 bytes holds after the call, \<open>ret_ok\<close> whether it was successful.\<close>

definition AT_CmdFunc_CZCHIPID :: "bool \<Rightarrow> bytes \<Rightarrow> AT_CMD_PARA \<Rightarrow> hstep list" where
  "AT_CmdFunc_CZCHIPID ret_ok uuid pParam =
     (case pa_type pParam of
        AT_CMD_EXE \<Rightarrow>
          (if \<not> ret_ok then cme ERR_AT_CME_EXE_FAIL else []) @
          info_ok (ascii ''+CZCHIPID: '' @
            concat (map (\<lambda>c. [hexdig_upper (unat c div 16), hexdig_upper (unat c mod 16)]) (take 16 uuid)))
      | AT_CMD_TEST \<Rightarrow> resp_ok
      | _ \<Rightarrow> cme ERR_AT_CME_EXE_NOT_SURPORT)"

section \<open>Display\<close>

record lcd_state =
  lcd_enable :: u32
  init_flag :: bool

definition lcd_init :: "bool \<Rightarrow> lcd_state \<Rightarrow> hstep list \<times> lcd_state" where
  "lcd_init init_ok s =
     (if \<not> init_flag s then
        if init_ok then ([HCall KING_LcdInit], s\<lparr>init_flag := True\<rparr>)
        else (HCall KING_LcdInit # cme ERR_AT_CME_EXE_FAIL, s)
      else ([], s))"

text \<open>\<open>call_ok\<close> is the result of switching, of setting the brightness; \<open>level\<close> that of reading it, and what the
  variable holds.\<close>

definition AT_CmdFunc_CZLCDONOFF :: "bool \<Rightarrow> bool \<Rightarrow> AT_CMD_PARA \<Rightarrow> lcd_state \<Rightarrow> hstep list \<times> lcd_state" where
  "AT_CmdFunc_CZLCDONOFF init_ok call_ok pParam s =
     (let (h, s) = lcd_init init_ok s in
      case pa_type pParam of
        AT_CMD_SET \<Rightarrow>
          let (enable, paramok) = at_ParamUintInRange (pparam pParam 0) 0 1 True; s = s\<lparr>lcd_enable := enable\<rparr> in
          if \<not> paramok then (h @ cme ERR_AT_CME_PARAM_INVALID, s)
          else (h @ [HCall (if enable = 1 then KING_LcdScreenOn else KING_LcdScreenOff)] @
                (if \<not> call_ok then cme ERR_AT_CME_EXE_FAIL else []) @ resp_ok, s)
      | AT_CMD_READ \<Rightarrow> (h @ info_ok (ascii ''+CZLCDONOFF: '' @ int_text (sint (lcd_enable s))), s)
      | AT_CMD_TEST \<Rightarrow> (h @ info_ok (ascii ''+CZLCDONOFF: (0,1)''), s)
      | AT_CMD_EXE \<Rightarrow> (h @ cme ERR_AT_CME_EXE_NOT_SURPORT, s))"

definition AT_CmdFunc_CZLCDBRIGHTNESS ::
  "bool \<Rightarrow> bool \<Rightarrow> bool \<times> u32 \<Rightarrow> AT_CMD_PARA \<Rightarrow> lcd_state \<Rightarrow> hstep list \<times> lcd_state" where
  "AT_CmdFunc_CZLCDBRIGHTNESS init_ok call_ok level pParam s =
     (let (h, s) = lcd_init init_ok s in
      case pa_type pParam of
        AT_CMD_SET \<Rightarrow>
          let (val, paramok) = at_ParamUintInRange (pparam pParam 0) 0 100 True in
          if \<not> paramok then (h @ cme ERR_AT_CME_PARAM_INVALID, s)
          else if lcd_enable s = 1 then
            (h @ [HCall (KING_LcdBrightnessSet val)] @ (if \<not> call_ok then cme ERR_AT_CME_EXE_FAIL else []) @ resp_ok, s)
          else (h @ cme ERR_AT_CME_EXE_NOT_SURPORT, s)
      | AT_CMD_TEST \<Rightarrow> (h @ info_ok (ascii ''+CZLCDBRIGHTNESS: (0-100)''), s)
      | AT_CMD_READ \<Rightarrow>
          (h @ (if \<not> fst level then cme ERR_AT_CME_EXE_FAIL else []) @
           info_ok (ascii ''+CZLCDBRIGHTNESS: '' @ int_text (sint (snd level))), s)
      | AT_CMD_EXE \<Rightarrow> (h @ cme ERR_AT_CME_EXE_NOT_SURPORT, s))"

section \<open>Two SIM cards\<close>

text \<open>\<open>s_is_switching\<close> is the state. What the platform says: whether it has two cards, its setting, the card in use.\<close>

record dualsim_platform =
  sim_init_ok :: bool
  sim_setting :: "(u8 \<times> nat) option"
  sim_current :: "nat option"
  sim_call_ok :: bool

text \<open>The callback: \<open>rsp\<close> and \<open>ind\<close> are the results in the data of the two events. The variable \<open>sim\<close> keeps its first
  value when the card in use cannot be read.\<close>

definition in_use :: "dualsim_platform \<Rightarrow> nat" where
  "in_use P = (case sim_current P of None \<Rightarrow> 0 | Some n \<Rightarrow> n)"

definition DualSimSwitchCb ::
  "dualsim_platform \<Rightarrow> u32 \<Rightarrow> u32 \<Rightarrow> u32 \<times> u32 \<Rightarrow> bool \<Rightarrow> hstep list \<times> bool" where
  "DualSimSwitchCb P eventID rsp ind s_is_switching =
     (if eventID = 1 then
        ([HReport (ascii ''^DSSWITCH: '' @ int_text (sint rsp) @ [0x2c] @ decimal (in_use P))], False)
      else if eventID = 2 then
        ([HReport (ascii ''^DSURC: '' @ int_text (sint (fst ind)) @ [0x2c] @ int_text (sint (snd ind)))], s_is_switching)
      else ([], s_is_switching))"

definition AT_DualSim_Init :: "dualsim_platform \<Rightarrow> hstep list" where
  "AT_DualSim_Init P =
     (if sim_init_ok P then
        case sim_setting P of
          Some (enable, def_sim) \<Rightarrow> if enable = 1 then [HCall KING_RegNotifyFun] else []
        | None \<Rightarrow> []
      else [])"

definition AT_CmdFunc_DSS :: "dualsim_platform \<Rightarrow> AT_CMD_PARA \<Rightarrow> hstep list" where
  "AT_CmdFunc_DSS P pParam =
     (if \<not> sim_init_ok P then cme ERR_AT_CME_OPERATION_NOT_SUPPORTED
      else case pa_type pParam of
        AT_CMD_SET \<Rightarrow>
          if length (pa_params pParam) \<noteq> 2 then cme ERR_AT_CME_PARAM_INVALID
          else
            let (enable, paramok) = at_ParamUintInRange (pparam pParam 0) 0 1 True in
            if \<not> paramok then cme ERR_AT_CME_PARAM_INVALID
            else
              let (def_sim, paramok) = at_ParamUintInRange (pparam pParam 1) 0 1 paramok in
              if \<not> paramok then cme ERR_AT_CME_PARAM_INVALID
              else HCall (KING_DualSimSet (ucast enable) (unat def_sim)) #
                (if sim_call_ok P
                 then [HAnswer OK, HCall (if enable = 1 then KING_RegNotifyFun else KING_UnRegNotifyFun)]
                 else cme ERR_AT_CME_EXE_FAIL)
      | AT_CMD_READ \<Rightarrow>
          (case sim_setting P of
             Some (enable, def_sim) \<Rightarrow> info_ok (ascii ''^DSS: '' @ decimal (unat enable) @ [0x2c] @ decimal def_sim)
           | None \<Rightarrow> cme ERR_AT_CME_EXE_FAIL)
      | AT_CMD_TEST \<Rightarrow> info_ok (ascii ''^DSS: (0,1),(0,1)'')
      | AT_CMD_EXE \<Rightarrow> cme ERR_AT_CME_EXE_NOT_SURPORT)"

definition two_cards :: "dualsim_platform \<Rightarrow> bool" where
  "two_cards P = (case sim_setting P of Some (enable, _) \<Rightarrow> enable = 1 | None \<Rightarrow> False)"

definition AT_CmdFunc_SIMSWITCH :: "dualsim_platform \<Rightarrow> AT_CMD_PARA \<Rightarrow> bool \<Rightarrow> hstep list \<times> bool" where
  "AT_CmdFunc_SIMSWITCH P pParam s_is_switching =
     (if \<not> sim_init_ok P then (cme ERR_AT_CME_OPERATION_NOT_SUPPORTED, s_is_switching)
      else case pa_type pParam of
        AT_CMD_SET \<Rightarrow>
          if length (pa_params pParam) \<noteq> 1 then (cme ERR_AT_CME_PARAM_INVALID, s_is_switching)
          else if \<not> two_cards P then (cme ERR_AT_CME_OPERATION_NOT_ALLOWED, s_is_switching)
          else
            let (aim_sim, paramok) = at_ParamUintInRange (pparam pParam 0) 0 1 True in
            if \<not> paramok then (cme ERR_AT_CME_PARAM_INVALID, s_is_switching)
            else if unat aim_sim = in_use P then
              ([HAnswer OK, HReport (ascii ''^DSSWITCH: '' @ decimal 0 @ [0x2c] @ decimal (in_use P))], s_is_switching)
            else if s_is_switching then (cme ERR_AT_CME_OPERATION_NOT_ALLOWED, s_is_switching)
            else if sim_call_ok P then ([HCall (KING_DualSimSwitch (unat aim_sim)), HAnswer OK], True)
            else (HCall (KING_DualSimSwitch (unat aim_sim)) # cme ERR_AT_CME_EXE_FAIL, s_is_switching)
      | AT_CMD_READ \<Rightarrow>
          (if \<not> two_cards P then cme ERR_AT_CME_OPERATION_NOT_ALLOWED
           else case sim_current P of
               Some sim \<Rightarrow> info_ok (ascii ''^DSSWITCH: '' @ decimal sim)
             | None \<Rightarrow> cme ERR_AT_CME_EXE_FAIL, s_is_switching)
      | AT_CMD_TEST \<Rightarrow> (info_ok (ascii ''^DSSWITCH: (0,1)''), s_is_switching)
      | AT_CMD_EXE \<Rightarrow> (cme ERR_AT_CME_EXE_NOT_SURPORT, s_is_switching))"

end
