(* ===== verification/At_Hex.thy ===== *)
theory At_Hex
  imports At_Handler
begin

text \<open>
  Hexadecimal texts (at_cmd_utils.c): bytes to digits and back.
\<close>

definition hexdigit_value :: "u8 \<Rightarrow> u8 option" where
  "hexdigit_value ch =
     (if ch \<ge> 0x30 \<and> ch \<le> 0x39 then Some (ch - 0x30)
      else if ch \<ge> 0x61 \<and> ch \<le> 0x66 then Some (ch - 0x61 + 10)
      else if ch \<ge> 0x41 \<and> ch \<le> 0x46 then Some (ch - 0x41 + 10)
      else None)"

unbundle bit_operations_syntax

text \<open>The loop: \<open>n\<close> pairs are left, \<open>i\<close> is the index in the text and \<open>d\<close> that in the bytes. The first digit of a
  pair is stored before the second is looked at.\<close>

fun to_bin_loop :: "nat \<Rightarrow> nat \<Rightarrow> nat \<Rightarrow> bytes \<Rightarrow> bytes \<Rightarrow> (bool \<times> bytes) option" where
  "to_bin_loop 0 i d hex bin = Some (True, bin)"
| "to_bin_loop (Suc n) i d hex bin = do {
     ch \<leftarrow> rd hex i;
     case hexdigit_value ch of None \<Rightarrow> Some (False, bin)
     | Some v \<Rightarrow> do {
         bin \<leftarrow> wr bin d (push_bit 4 v);
         ch \<leftarrow> rd hex (i + 1);
         case hexdigit_value ch of None \<Rightarrow> Some (False, bin)
         | Some w \<Rightarrow> do {
             c \<leftarrow> rd bin d;
             bin \<leftarrow> wr bin d (c OR w);
             to_bin_loop n (i + 2) (d + 1) hex bin } } }"

definition atUtils_ConvertHexToBin :: "bytes option \<Rightarrow> u16 \<Rightarrow> bytes option \<Rightarrow> (bool \<times> bytes option) option" where
  "atUtils_ConvertHexToBin hex_ptr len bin_ptr =
     (case (hex_ptr, bin_ptr) of
        (Some hex, Some bin) \<Rightarrow>
          if len mod 2 \<noteq> 0 then Some (False, bin_ptr)
          else map_option (\<lambda>(ok, b). (ok, Some b)) (to_bin_loop (unat len div 2) 0 0 hex bin)
      | _ \<Rightarrow> Some (False, bin_ptr))"

definition hex_digit :: "u8 \<Rightarrow> u8 \<Rightarrow> u8" where
  "hex_digit charcase semi_octet =
     (if semi_octet \<le> 9 then semi_octet + 0x30
      else if charcase = 0 then semi_octet + 0x41 - 10 else semi_octet + 0x61 - 10)"

fun bin_loop :: "nat \<Rightarrow> nat \<Rightarrow> bytes \<Rightarrow> u8 \<Rightarrow> bytes \<Rightarrow> bytes option" where
  "bin_loop 0 i bin charcase hex = Some hex"
| "bin_loop (Suc n) i bin charcase hex = do {
     c \<leftarrow> rd bin i;
     hex \<leftarrow> wr hex (2 * i) (hex_digit charcase (drop_bit 4 (c AND 0xF0)));
     hex \<leftarrow> wr hex (2 * i + 1) (hex_digit charcase (c AND 0x0f));
     bin_loop n (i + 1) bin charcase hex }"

definition atUtils_ConvertBinToHex :: "bytes option \<Rightarrow> u16 \<Rightarrow> bytes option \<Rightarrow> u8 \<Rightarrow> bytes option option" where
  "atUtils_ConvertBinToHex bin_ptr len hex_ptr charcase =
     (case (bin_ptr, hex_ptr) of
        (Some bin, Some hex) \<Rightarrow>
          if charcase \<noteq> 0 \<and> charcase \<noteq> 1 then Some hex_ptr
          else map_option Some (bin_loop (unat len) 0 bin charcase hex)
      | _ \<Rightarrow> Some hex_ptr)"

section \<open>What the loops do\<close>

definition digits_of :: "u8 \<Rightarrow> bytes \<Rightarrow> bytes" where
  "digits_of k bs = concat (map (\<lambda>c. [hex_digit k (drop_bit 4 (c AND 0xF0)), hex_digit k (c AND 0x0f)]) bs)"

lemma digits_of_simps [simp]:
  "digits_of k [] = []"
  "digits_of k (c # bs) = hex_digit k (drop_bit 4 (c AND 0xF0)) # hex_digit k (c AND 0x0f) # digits_of k bs"
  "length (digits_of k bs) = 2 * length bs"
proof -
  show "length (digits_of k bs) = 2 * length bs" by (induction bs) (simp_all add: digits_of_def)
qed (simp_all add: digits_of_def)

lemma bin_loop_result:
  "length hex = 2 * length bs \<Longrightarrow> length out = 2 * length pre \<Longrightarrow>
   bin_loop (length bs) (length pre) (pre @ bs @ r) k (out @ hex @ q) = Some (out @ digits_of k bs @ q)"
proof (induction bs arbitrary: pre hex out)
  case (Cons c bs)
  obtain x y hs where h: "hex = x # y # hs" using Cons.prems(1) by (cases hex; cases "tl hex") auto
  let ?a = "hex_digit k (drop_bit 4 (c AND 0xF0))" and ?b = "hex_digit k (c AND 0x0f)"
  have "rd (pre @ (c # bs) @ r) (length pre) = Some c" by (simp add: rd_def nth_append)
  moreover have "wr (out @ hex @ q) (2 * length pre) ?a = Some (out @ ?a # y # hs @ q)"
    using Cons.prems(2) h by (simp add: wr_def list_update_append)
  moreover have "wr (out @ ?a # y # hs @ q) (2 * length pre + 1) ?b = Some (out @ ?a # ?b # hs @ q)"
    using Cons.prems(2) by (simp add: wr_def list_update_append)
  moreover have "bin_loop (length bs) (length (pre @ [c])) ((pre @ [c]) @ bs @ r) k ((out @ [?a, ?b]) @ hs @ q) =
      Some ((out @ [?a, ?b]) @ digits_of k bs @ q)"
    using Cons.prems h by (intro Cons.IH) simp_all
  ultimately show ?case by simp
qed simp

lemma hexdigit_value_digit: "k = 0 \<or> k = 1 \<Longrightarrow> v < 16 \<Longrightarrow> hexdigit_value (hex_digit k v) = Some v"
proof -
  assume k: "k = 0 \<or> k = 1" and v: "v < 16"
  have "\<forall>n \<in> {0..<16::nat}. \<forall>k \<in> {0, 1}. hexdigit_value (hex_digit k (of_nat n)) = Some (of_nat n)"
    by code_simp
  moreover have "v = of_nat (unat v)" "unat v \<in> {0..<16}" using v by (simp_all add: word_less_nat_alt)
  ultimately show ?thesis using k by (metis insertCI)
qed

lemma nibble_join: "push_bit 4 (drop_bit 4 (c AND 0xF0)) OR (c AND 0x0f) = (c :: u8)"
  "drop_bit 4 (c AND 0xF0) < (16 :: u8)" "c AND 0x0f < (16 :: u8)"
proof -
  have m: "(0x0f :: u8) = mask 4" "(0xF0 :: u8) = NOT (mask 4)" by (simp_all add: mask_eq_exp_minus_1)
  show "push_bit 4 (drop_bit 4 (c AND 0xF0)) OR (c AND 0x0f) = c"
    unfolding m by (rule bit_word_eqI) (auto simp: bit_simps)
  have "drop_bit 4 (c AND 0xF0) = drop_bit 4 c"
    unfolding m by (rule bit_word_eqI) (auto simp: bit_simps dest: bit_imp_le_length)
  moreover have "unat (drop_bit 4 c) < 16"
  proof -
    have "unat c < 16 * 2 ^ 4" using unsigned_less [of c] by simp
    then show ?thesis by (simp only: unat_drop_bit_eq drop_bit_nat_def less_mult_imp_div_less)
  qed
  ultimately show "drop_bit 4 (c AND 0xF0) < 16" by (simp add: word_less_nat_alt)
  have "c AND 0x0f = take_bit 4 c" unfolding m by (simp add: take_bit_eq_mask)
  moreover have "unat (take_bit 4 c) < 16" by (simp add: unsigned_take_bit_eq take_bit_nat_def)
  ultimately show "c AND 0x0f < 16" by (simp add: word_less_nat_alt)
qed

lemma to_bin_loop_result:
  "length bin = length bs \<Longrightarrow> k = 0 \<or> k = 1 \<Longrightarrow> length pre = 2 * length out \<Longrightarrow>
   to_bin_loop (length bs) (length pre) (length out) (pre @ digits_of k bs @ r) (out @ bin @ q) = Some (True, out @ bs @ q)"
proof (induction bs arbitrary: pre bin out)
  case (Cons c bs)
  obtain x xs where b: "bin = x # xs" using Cons.prems(1) by (cases bin) auto
  let ?h = "drop_bit 4 (c AND 0xF0)" and ?l = "c AND 0x0f"
  let ?m = "pre @ digits_of k (c # bs) @ r"
  have r: "rd ?m (length pre) = Some (hex_digit k ?h)" "rd ?m (length pre + 1) = Some (hex_digit k ?l)"
    by (simp_all add: rd_def nth_append)
  have v: "hexdigit_value (hex_digit k ?h) = Some ?h" "hexdigit_value (hex_digit k ?l) = Some ?l"
    using hexdigit_value_digit [OF Cons.prems(2)] nibble_join(2,3) by blast+
  have w: "wr (out @ bin @ q) (length out) (push_bit 4 ?h) = Some (out @ push_bit 4 ?h # xs @ q)"
    "rd (out @ push_bit 4 ?h # xs @ q) (length out) = Some (push_bit 4 ?h)"
    "wr (out @ push_bit 4 ?h # xs @ q) (length out) (push_bit 4 ?h OR ?l) = Some (out @ c # xs @ q)"
    unfolding nibble_join(1) by (simp_all add: b wr_def rd_def list_update_append nth_append)
  have "to_bin_loop (length bs) (length (pre @ [hex_digit k ?h, hex_digit k ?l])) (length (out @ [c]))
      ((pre @ [hex_digit k ?h, hex_digit k ?l]) @ digits_of k bs @ r) ((out @ [c]) @ xs @ q) = Some (True, (out @ [c]) @ bs @ q)"
    using Cons.prems b by (intro Cons.IH) simp_all
  then show ?case using r v w by (simp del: digits_of_simps(2,3)) simp
qed simp

lemma to_bin_loop_ok:
  "length hex \<ge> i + 2 * n \<Longrightarrow> length bin \<ge> d + n \<Longrightarrow>
   \<exists>ok b. to_bin_loop n i d hex bin = Some (ok, b) \<and> length b = length bin \<and>
     (ok \<longleftrightarrow> (\<forall>c \<in> set (take (2 * n) (drop i hex)). hexdigit_value c \<noteq> None))"
proof (induction n arbitrary: i d bin)
  case (Suc n)
  define a b where "a = hex ! i" "b = hex ! (i + 1)"
  have t: "drop i hex = a # b # drop (i + 2) hex"
    using Suc.prems(1) by (simp add: a_b_def Cons_nth_drop_Suc)
  have r: "rd hex i = Some a" "rd hex (i + 1) = Some b" using Suc.prems(1) by (simp_all add: rd_def a_b_def)
  have w: "wr bin d x = Some (bin[d := x])" "rd (bin[d := x]) d = Some x" "wr (bin[d := x]) d y = Some (bin[d := y])" for x y
    using Suc.prems(2) by (simp_all add: wr_def rd_def)
  show ?case
  proof (cases "hexdigit_value a = None \<or> hexdigit_value b = None")
    case True
    then show ?thesis using r w by (cases "hexdigit_value a") (auto simp: t)
  next
    case False
    then obtain v u where "hexdigit_value a = Some v" "hexdigit_value b = Some u" by auto
    then show ?thesis using r w Suc.IH [of "i + 2" "d + 1" "bin[d := push_bit 4 v OR u]"] Suc.prems by (auto simp: t)
  qed
qed auto

lemma small_u16: "n < 65536 \<Longrightarrow> unat (of_nat n :: u16) = n"
  by (simp add: unat_of_nat)

text \<open>C15: bytes written as hexadecimal digits, in capitals or not, are read back as they were, within the memory of
  both, and a text is accepted exactly when it has an even number of characters and all are digits.\<close>

theorem hex_text_roundtrip:
  assumes "k = 0 \<or> k = 1" "length bs < 32768" "length hex = 2 * length bs" "length bin = length bs"
    and "n < 65536" "n \<le> length t" "n div 2 \<le> length out"
  shows "atUtils_ConvertBinToHex (Some (bs @ r)) (of_nat (length bs)) (Some (hex @ q)) k = Some (Some (digits_of k bs @ q)) \<and>
    atUtils_ConvertHexToBin (Some (digits_of k bs @ q)) (of_nat (2 * length bs)) (Some (bin @ z)) = Some (True, Some (bs @ z)) \<and>
    (\<exists>ok b. atUtils_ConvertHexToBin (Some t) (of_nat n) (Some out) = Some (ok, Some b) \<and> length b = length out \<and>
      (ok \<longleftrightarrow> even n \<and> list_all (\<lambda>c. hexdigit_value c \<noteq> None) (take n t)))"
proof (intro conjI)
  have k: "\<not> (k \<noteq> 0 \<and> k \<noteq> 1)" using assms(1) by blast
  have u: "unat (of_nat (length bs) :: u16) = length bs" "unat (of_nat (2 * length bs) :: u16) = 2 * length bs"
    "unat (of_nat n :: u16) = n" using assms(2,5) by (simp_all add: small_u16 del: of_nat_mult)
  have e: "of_nat m mod (2 :: u16) = 0 \<longleftrightarrow> even m" if "m < 65536" for m
    using small_u16 [OF that] by (simp add: word_unat_eq_iff unat_mod even_iff_mod_2_eq_zero del: of_nat_mult)
  show "atUtils_ConvertBinToHex (Some (bs @ r)) (of_nat (length bs)) (Some (hex @ q)) k = Some (Some (digits_of k bs @ q))"
    using bin_loop_result [OF assms(3), of "[]" "[]" r k q] k u(1) by (auto simp: atUtils_ConvertBinToHex_def)
  show "atUtils_ConvertHexToBin (Some (digits_of k bs @ q)) (of_nat (2 * length bs)) (Some (bin @ z)) = Some (True, Some (bs @ z))"
    using to_bin_loop_result [OF assms(4,1), of "[]" "[]" q z] u(2) e [of "2 * length bs"] assms(2)
    by (simp add: atUtils_ConvertHexToBin_def del: of_nat_mult)
  show "\<exists>ok b. atUtils_ConvertHexToBin (Some t) (of_nat n) (Some out) = Some (ok, Some b) \<and> length b = length out \<and>
      (ok \<longleftrightarrow> even n \<and> list_all (\<lambda>c. hexdigit_value c \<noteq> None) (take n t))"
  proof (cases "even n")
    case True
    have "0 + 2 * (n div 2) \<le> length t" "0 + n div 2 \<le> length out" using True assms(6,7) by simp_all
    from to_bin_loop_ok [OF this] show ?thesis using True e [OF assms(5)] u(3)
      by (auto simp: atUtils_ConvertHexToBin_def list_all_iff)
  qed (use e [OF assms(5)] in \<open>auto simp: atUtils_ConvertHexToBin_def\<close>)
qed

theorem hex_text_roundtrip_witness:
  "atUtils_ConvertBinToHex (Some [0x3c, 0xf0]) 2 (Some [0, 0, 0, 0, 7]) 0 = Some (Some (ascii ''3CF0'' @ [7])) \<and>
   atUtils_ConvertHexToBin (Some (ascii ''3CF0'' @ [7])) 4 (Some [0, 0]) = Some (True, Some [0x3c, 0xf0]) \<and>
   (\<exists>b. atUtils_ConvertHexToBin (Some (ascii ''3G'')) 2 (Some [0]) = Some (False, Some b))"
proof -
  have d: "digits_of 0 [0x3c, 0xf0] = ascii ''3CF0''" by code_simp
  have g: "\<not> list_all (\<lambda>c. hexdigit_value c \<noteq> None) (take 2 (ascii ''3G''))" "length (ascii ''3G'') = 2" by code_simp+
  show ?thesis
    using hex_text_roundtrip [of 0 "[0x3c, 0xf0]" "[0, 0, 0, 0]" "[0, 0]" 2 "ascii ''3G''" "[0]" "[]" "[7]" "[]"] g
    unfolding d by auto
qed

end
