(* ===== verification/At_Handlers_Serve.thy ===== *)
theory At_Handlers_Serve
  imports At_Cmd_Id At_Cmd_Gc At_Clock Cmd_Param
begin

text \<open>
  What the handlers have in common: they answer once and write nothing afterwards, so that a line of
  their commands is served as the module's theorems say; the handlers that do not are listed with what
  they do instead. Then the properties of single handlers.
\<close>

section \<open>One answer\<close>

definition serves :: "hstep list \<Rightarrow> bool" where
  "serves hs \<longleftrightarrow> one_answer hs \<and> HError \<notin> set hs \<and> HFormatNeeded \<notin> set hs"

lemma serves_simps [simp]:
  "serves (cme n)" "serves resp_ok" "serves (info_ok t)" "serves (HCall c # hs) = serves hs"
  "serves [HAnswer a, HReport t]" "serves [HAnswer a, HCall c]" "serves [HAnswer a, HSetCmuxMode m]"
  by (auto simp: serves_def)

lemmas handler_splits = if_splits Option.bind_splits prod.splits option.splits AT_CMD_TYPE_T.splits

lemma serves_E: "AT_CmdFunc_E p e = Some (hs, e') \<Longrightarrow> serves hs"
  by (auto simp: AT_CmdFunc_E_def split: if_splits Option.bind_splits prod.splits)

lemma serves_WSOP: "AT_CmdFunc_WSOP p = Some hs \<Longrightarrow> serves hs"
  by (auto simp: AT_CmdFunc_WSOP_def split: if_splits Option.bind_splits prod.splits AT_CMD_TYPE_T.splits)

lemma serves_CCLK: "AT_CmdFunc_CCLK t ok p = Some hs \<Longrightarrow> serves hs"
  by (auto simp: AT_CmdFunc_CCLK_def split: handler_splits)

lemma serves_CZESVER: "AT_CmdFunc_CZESVER i p = Some hs \<Longrightarrow> serves hs"
  by (auto simp: AT_CmdFunc_CZESVER_def split: handler_splits)

lemma serves_CZEM2SD: "AT_CmdFunc_CZEM2SD F sz n p f = Some (hs, f') \<Longrightarrow> serves hs"
  by (auto simp: AT_CmdFunc_CZEM2SD_def split: handler_splits)

lemma serves_QURCCFG: "AT_CmdFunc_QURCCFG F u w p st = Some (hs, st') \<Longrightarrow> serves hs"
  by (cases st) (auto simp: AT_CmdFunc_QURCCFG_def split: handler_splits)

lemma one_AndW: "AT_CmdFunc_AndW F c p f = Some (hs, f') \<Longrightarrow> one_answer hs"
  by (auto simp: AT_CmdFunc_AndW_def Let_def split: handler_splits)

lemma CFUN_values:
  assumes "at_ParamDefUintInList q 1 [0, 1, 4] True = Some (v, True)"
  shows "v = 0 \<or> v = 1 \<or> v = 4"
  using assms by (auto simp: at_ParamDefUintInList_def at_ParamUintInList_def CheckList_mem
      split: if_splits prod.splits Option.bind_splits)

lemma serves_CFUN: "\<exists>hs. AT_CmdFunc_CFUN ok m p = Some hs \<and> serves hs"
proof (cases "pa_type p")
  case AT_CMD_SET
  obtain v b where q: "at_ParamDefUintInList (pparam p 0) 1 [0, 1, 4] True = Some (v, b)"
    by (cases "at_ParamDefUintInList (pparam p 0) 1 [0, 1, 4] True")
      (auto simp: at_ParamDefUintInList_def at_ParamUintInList_def rd_def split: prod.splits if_splits)
  show ?thesis using AT_CMD_SET q CFUN_values [of "pparam p 0" v]
    by (cases b) (auto simp: AT_CmdFunc_CFUN_def airplane_def Let_def split: prod.split)
qed (auto simp: AT_CmdFunc_CFUN_def split: option.split)

lemma serves_platform:
  "serves (AT_CmdFunc_QADC adc p)" "serves (AT_CmdFunc_CZEDUMPEN ok get p)" "serves (AT_CmdFunc_CZLDO ok p)"
  "serves (AT_CmdFunc_SET7SRESET ok c p)" "serves (fst (AT_CmdFunc_QSCLK p lp))"
  by (auto simp: AT_CmdFunc_QADC_def AT_CmdFunc_CZEDUMPEN_def AT_CmdFunc_CZLDO_def AT_CmdFunc_SET7SRESET_def
      AT_CmdFunc_QSCLK_def Let_def split: handler_splits)

lemma serves_id: "serves (AT_CmdFunc_GMR info p)" "serves (AT_CmdFunc_CGSN imei p)"
  by (simp_all add: AT_CmdFunc_GMR_def AT_CmdFunc_CGSN_def split: AT_CMD_TYPE_T.split option.split)

lemma serves_cards: "serves (AT_CmdFunc_DSS P p)" "serves (fst (AT_CmdFunc_SIMSWITCH P p sw))"
  by (simp_all add: AT_CmdFunc_DSS_def AT_CmdFunc_SIMSWITCH_def Let_def split: AT_CMD_TYPE_T.split option.split prod.split)

lemma serves_module:
  "serves (SA_DefaultCmdHandler_Error p)" "serves (SA_DefaultCmdHandler_AT p)" "serves (SA_DefaultCmdHandler_CMUX c usb p)"
  by (simp_all add: SA_DefaultCmdHandler_Error_def SA_DefaultCmdHandler_AT_def SA_DefaultCmdHandler_CMUX_def Let_def
      split: AT_CMD_TYPE_T.split prod.split)

lemma one_IPR: "one_answer (fst (AT_CmdFunc_IPR d supported p s))"
  by (auto simp: AT_CmdFunc_IPR_def Let_def split: handler_splits)

text \<open>The module runs these steps as a handler of the kind that the theorems on serving a line take: it writes its texts and
  gives one final answer, with nothing behind it.\<close>

definition answers_once :: "at_setting \<Rightarrow> AT_ModuleInfo \<Rightarrow> hstep list \<Rightarrow> bool" where
  "answers_once S s hs \<longleftrightarrow> answers hs = 1 \<and> steps_exec S hs s = handler_run S (infos hs, final_answer hs) s"

lemma serves_once: "serves hs \<Longrightarrow> answers_once S s hs"
  using one_answer_once steps_handler_run by (simp add: serves_def answers_once_def)


lemma lcd_init_answers:
  "answers (fst (lcd_init init_ok l)) = (if init_flag l \<or> init_ok then 0 else 1)"
  "lcd_enable (snd (lcd_init init_ok l)) = lcd_enable l"
  by (auto simp: lcd_init_def)

lemma CZLCDONOFF_answers:
  "answers (fst (AT_CmdFunc_CZLCDONOFF init_ok call_ok p l)) =
     1 + (if init_flag l \<or> init_ok then 0 else 1) +
     (if pa_type p = AT_CMD_SET \<and> snd (at_ParamUintInRange (pparam p 0) 0 1 True) \<and> \<not> call_ok then 1 else 0)"
  unfolding AT_CmdFunc_CZLCDONOFF_def Let_def lcd_init_answers(1) [symmetric]
  by (cases "pa_type p") (simp_all split: prod.split)

lemma CZLCDBRIGHTNESS_answers:
  "answers (fst (AT_CmdFunc_CZLCDBRIGHTNESS init_ok call_ok level p l)) =
     1 + (if init_flag l \<or> init_ok then 0 else 1) +
     (if pa_type p = AT_CMD_SET \<and> snd (at_ParamUintInRange (pparam p 0) 0 100 True) \<and> lcd_enable l = 1 \<and> \<not> call_ok \<or>
         pa_type p = AT_CMD_READ \<and> \<not> fst level then 1 else 0)"
  unfolding AT_CmdFunc_CZLCDBRIGHTNESS_def Let_def lcd_init_answers(1) [symmetric]
  using lcd_init_answers(2) [of init_ok l] by (cases "pa_type p") (auto split: prod.split)

lemma mode_values:
  assumes "at_ParamDefUintInRange q 1 0 1 True = (m, True)" "m \<noteq> 0"
  shows "m = 1"
proof -
  have "m \<le> 1" using assms(1)
    by (auto simp: at_ParamDefUintInRange_def at_ParamUintInRange_def split: if_splits prod.splits)
  then show ?thesis using assms(2) by (simp add: word_le_nat_alt word_unat_eq_iff)
qed

lemma QPOWD_answers:
  "answers (AT_CmdFunc_QPOWD p) =
     (if (pa_type p = AT_CMD_EXE \<or> pa_type p = AT_CMD_SET) \<and> length (pa_params p) \<le> 1 \<and>
         at_ParamDefUintInRange (pparam p 0) 1 0 1 True = (0, True) then 0 else 1)"
proof -
  have l: "length (pa_params p) \<le> 1 \<longleftrightarrow> length (pa_params p) = 1 \<or> length (pa_params p) = 0" by linarith
  obtain m b where m: "at_ParamDefUintInRange (pparam p 0) 1 0 1 True = (m, b)" by fastforce
  show ?thesis using mode_values [of "pparam p 0" m] m unfolding l
    by (cases "pa_type p"; cases b) (auto simp: AT_CmdFunc_QPOWD_def)
qed

lemma AndW_IPR_answers:
  "\<forall>hs f'. AT_CmdFunc_AndW F c p f = Some (hs, f') \<longrightarrow> answers hs = 1" "answers (fst (AT_CmdFunc_IPR d supported p b)) = 1"
  using one_AndW [of F c p f] one_IPR [of d supported p b] one_answer_once by auto

lemma CZCHIPID_answers: "answers (AT_CmdFunc_CZCHIPID ok uuid p) = (if pa_type p = AT_CMD_EXE \<and> \<not> ok then 2 else 1)"
  by (simp add: AT_CmdFunc_CZCHIPID_def split: AT_CMD_TYPE_T.split)

text \<open>The exceptions. Saving the settings answers with the plain error, a change of the baud rate asks for
  the new format first; both answer once. Reading the number of the chip, and the two commands of the
  display, answer twice when the platform fails; switching off answers not at all when it is done at
  once, and otherwise gives a text behind the answer.\<close>

theorem handlers_that_do_not:
  assumes "AT_CmdFunc_AndW F c p f = Some (hs, f')"
  shows "answers hs = 1 \<and> answers (fst (AT_CmdFunc_IPR d supported p b)) = 1 \<and>
   answers (AT_CmdFunc_CZCHIPID ok uuid p) = (if pa_type p = AT_CMD_EXE \<and> \<not> ok then 2 else 1) \<and>
   answers (fst (AT_CmdFunc_CZLCDONOFF init_ok call_ok p l)) =
     1 + (if init_flag l \<or> init_ok then 0 else 1) +
     (if pa_type p = AT_CMD_SET \<and> snd (at_ParamUintInRange (pparam p 0) 0 1 True) \<and> \<not> call_ok then 1 else 0) \<and>
   answers (fst (AT_CmdFunc_CZLCDBRIGHTNESS init_ok call_ok level p l)) =
     1 + (if init_flag l \<or> init_ok then 0 else 1) +
     (if pa_type p = AT_CMD_SET \<and> snd (at_ParamUintInRange (pparam p 0) 0 100 True) \<and> lcd_enable l = 1 \<and> \<not> call_ok \<or>
         pa_type p = AT_CMD_READ \<and> \<not> fst level then 1 else 0) \<and>
   answers (AT_CmdFunc_QPOWD p) =
     (if (pa_type p = AT_CMD_EXE \<or> pa_type p = AT_CMD_SET) \<and> length (pa_params p) \<le> 1 \<and>
         at_ParamDefUintInRange (pparam p 0) 1 0 1 True = (0, True) then 0 else 1)"
  using AndW_IPR_answers(1) [of F c p f] assms
  by (intro conjI AndW_IPR_answers(2) CZCHIPID_answers CZLCDONOFF_answers CZLCDBRIGHTNESS_answers QPOWD_answers) blast


definition plain_para :: "AT_CMD_TYPE_T \<Rightarrow> AT_CMD_PARA" where
  "plain_para t = \<lparr>pa_type = t, pPara = [], pa_params = [], pExData = None\<rparr>"

theorem handlers_that_do_not_witness:
  "answers (fst (AT_CmdFunc_CZLCDONOFF False True (plain_para AT_CMD_SET) \<lparr>lcd_enable = 0, init_flag = False\<rparr>)) = 2 \<and>
   answers (AT_CmdFunc_QPOWD (plain_para AT_CMD_SET)) = 1"
proof -
  have p: "pparam (plain_para AT_CMD_SET) 0 = None" "pa_type (plain_para AT_CMD_SET) = AT_CMD_SET"
    by (simp_all add: pparam_def plain_para_def)
  have "AT_CmdFunc_AndW (memory_fs 9) \<lparr>gAtCurrentSetting = [], gAtCurAsSetting = []\<rparr> (plain_para AT_CMD_SET) (Map.empty, []) =
      Some ([HError], (Map.empty, []))"
    by (simp add: AT_CmdFunc_AndW_def p)
  from handlers_that_do_not [OF this] show ?thesis
    using p by (simp add: at_ParamUintInRange_def at_ParamDefUintInRange_def at_ParamUint_def absent_def)
qed

text \<open>\<open>AT+CFUN=,\<close> takes the defaults: the module restarts behind the answer.\<close>

definition empty_para :: "AT_CMD_TYPE_T \<Rightarrow> AT_CMD_PARA" where
  "empty_para t = \<lparr>pa_type = t, pPara = [0x2c],
     pa_params = replicate 2 \<lparr>par_type = AT_CMDPARAM_EMPTY, par_length = 0, par_value = [0]\<rparr>, pExData = None\<rparr>"


end
