(* ===== verification/At_Handlers_Work.thy ===== *)
theory At_Handlers_Work
  imports At_Handlers_Serve Cmux_Safety
begin

text \<open>
  What single handlers do: entering the multiplexer with the options of the command, the port for
  unsolicited results, copying a file, the display, and switching between two SIM cards.
\<close>

section \<open>The options of the multiplexer\<close>

lemma option_range:
  assumes "at_ParamDefUintInRange q d lo hi ok = (v, b)" b "lo \<le> d" "d \<le> hi"
  shows ok "lo \<le> v" "v \<le> hi"
  using assms by (auto simp: at_ParamDefUintInRange_def at_ParamUintInRange_def at_ParamUint_def
      split: if_splits prod.splits option.splits)

lemma required_range:
  assumes "at_ParamUintInRange q lo hi ok = (v, b)" b
  shows ok "lo \<le> v" "v \<le> hi"
  using assms by (auto simp: at_ParamUintInRange_def at_ParamUint_def split: if_splits prod.splits option.splits)

text \<open>A value that fits keeps its bounds in a byte.\<close>

lemma byte_value:
  assumes "unat v < 256"
  shows "unat (ucast (v :: u32) :: u8) = unat v"
  using assms by (simp add: unsigned_ucast_eq take_bit_nat_eq_self)

lemma frame_size_bounds:
  assumes "1 \<le> v" "v \<le> (2048 :: u32)"
  shows "1 \<le> sint v \<and> sint v \<le> 2048"
proof -
  have "unat v \<le> 2048" "1 \<le> unat v" using assms by (simp_all add: word_le_nat_alt)
  moreover have "sint v = uint v"
  proof -
    have u: "uint v \<le> 2048" using assms(2) by (simp add: word_le_def)
    have l: "- (2 ^ 31) \<le> uint v" by (rule order_trans [of _ 0]) simp_all
    have "sint v = signed_take_bit 31 (uint v)" by (subst sint_uint) simp
    also have "\<dots> = uint v" by (rule signed_take_bit_int_eq_self [OF l]) (use u in simp)
    finally show ?thesis .
  qed
  moreover have "uint v = int (unat v)" by simp
  ultimately show ?thesis by linarith
qed

lemma options_range:
  assumes "cmux_options p gAtCmuxDefaultCfg = (m, True)"
  shows "transparency m \<le> 1 \<and> subset_opt m = 0 \<and> 1 \<le> portSpeed m \<and> portSpeed m \<le> 6 \<and>
    1 \<le> cfg_maxFrameSize m \<and> cfg_maxFrameSize m \<le> 2048 \<and> 1 \<le> cfg_ackTimer m \<and> maxRetransCount m \<le> 100 \<and>
    2 \<le> respTimer m \<and> 1 \<le> wakeupRespTimer m \<and> 1 \<le> cfg_windowSize m \<and> cfg_windowSize m \<le> 7"
proof -
  let ?g = gAtCmuxDefaultCfg
  note g = gAtCmuxDefaultCfg_def
  obtain t o0 where 0: "at_ParamUintInRange (pparam p 0) 0 1 True = (t, o0)" by fastforce
  obtain s o1 where 1: "at_ParamDefUintInRange (pparam p 1) (ucast (subset_opt ?g)) 0 0 o0 = (s, o1)" by fastforce
  obtain sp o2 where 2: "at_ParamDefUintInRange (pparam p 2) (ucast (portSpeed ?g)) 1 6 o1 = (sp, o2)" by fastforce
  obtain f o3 where 3: "at_ParamDefUintInRange (pparam p 3) (of_int (cfg_maxFrameSize ?g)) 1 2048 o2 = (f, o3)" by fastforce
  obtain a o4 where 4: "at_ParamDefUintInRange (pparam p 4) (ucast (cfg_ackTimer ?g)) 1 255 o3 = (a, o4)" by fastforce
  obtain r o5 where 5: "at_ParamDefUintInRange (pparam p 5) (ucast (maxRetransCount ?g)) 0 100 o4 = (r, o5)" by fastforce
  obtain rt o6 where 6: "at_ParamDefUintInRange (pparam p 6) (ucast (respTimer ?g)) 2 255 o5 = (rt, o6)" by fastforce
  obtain w o7 where 7: "at_ParamDefUintInRange (pparam p 7) (ucast (wakeupRespTimer ?g)) 1 255 o6 = (w, o7)" by fastforce
  obtain k o8 where 8: "at_ParamDefUintInRange (pparam p 8) (ucast (cfg_windowSize ?g)) 1 7 o7 = (k, o8)" by fastforce
  have m: "m = \<lparr>transparency = ucast t, subset_opt = ucast s, portSpeed = ucast sp, cfg_maxFrameSize = sint f,
      cfg_ackTimer = ucast a, maxRetransCount = ucast r, respTimer = ucast rt, wakeupRespTimer = ucast w,
      cfg_windowSize = ucast k\<rparr>" o8
    using assms by (simp_all only: cmux_options_def 0 1 2 3 4 5 6 7 8 Let_def prod.case prod.inject)
  have ok7: o7 and k: "1 \<le> k" "k \<le> 7" using option_range [OF 8 m(2)] by (simp_all add: g)
  have ok6: o6 and w: "1 \<le> w" "w \<le> 255" using option_range [OF 7 ok7] by (simp_all add: g)
  have ok5: o5 and rt: "2 \<le> rt" "rt \<le> 255" using option_range [OF 6 ok6] by (simp_all add: g)
  have ok4: o4 and r: "r \<le> 100" using option_range [OF 5 ok5] by (simp_all add: g)
  have ok3: o3 and a: "1 \<le> a" "a \<le> 255" using option_range [OF 4 ok4] by (simp_all add: g)
  have ok2: o2 and f: "1 \<le> f" "f \<le> 2048" using option_range [OF 3 ok3] by (simp_all add: g)
  have ok1: o1 and sp: "1 \<le> sp" "sp \<le> 6" using option_range [OF 2 ok2] by (simp_all add: g)
  have ok0: o0 and s: "s = 0" using option_range [OF 1 ok1] by (simp_all add: g)
  have t: "t \<le> 1" using required_range [OF 0 ok0] by simp
  have u: "unat (ucast x :: u8) = unat x" if "x \<le> 255" for x :: u32
    using that by (intro byte_value) (simp add: word_le_nat_alt)
  have le: "x \<le> 255" if "x \<le> 100 \<or> x \<le> 1 \<or> x \<le> 6 \<or> x \<le> 7" for x :: u32
    using that by (auto simp: word_le_nat_alt)
  show ?thesis using frame_size_bounds [OF f] t s sp a r rt w k u le unfolding m(1)
    by (simp add: word_le_nat_alt)
qed

text \<open>C11: when the command enters the multiplexer, it has answered OK before, was not given on the USB port, and
  every option is in the range that the command's test form documents; an engine created with these
  options is well formed.\<close>

theorem cmux_command:
  assumes "HSetCmuxMode m \<in> set (SA_DefaultCmdHandler_CMUX parent usb p)" "length ib = 4096" "length ob = 4096"
  shows "SA_DefaultCmdHandler_CMUX parent usb p = [HAnswer OK, HSetCmuxMode m] \<and> \<not> usb \<and>
    transparency m \<le> 1 \<and> subset_opt m = 0 \<and> 1 \<le> portSpeed m \<and> portSpeed m \<le> 6 \<and>
    1 \<le> cfg_maxFrameSize m \<and> cfg_maxFrameSize m \<le> 2048 \<and> 1 \<le> cfg_ackTimer m \<and> maxRetransCount m \<le> 100 \<and>
    2 \<le> respTimer m \<and> 1 \<le> wakeupRespTimer m \<and> 1 \<le> cfg_windowSize m \<and> cfg_windowSize m \<le> 7 \<and>
    cmux_ok (at_CmuxEngineCreate ib ob ov d m)"
proof -
  have t: "pa_type p = AT_CMD_SET" using assms(1)
    by (simp add: SA_DefaultCmdHandler_CMUX_def split: AT_CMD_TYPE_T.splits)
  obtain c ok where c: "cmux_options p gAtCmuxDefaultCfg = (c, ok)" by fastforce
  have r: "SA_DefaultCmdHandler_CMUX parent usb p = [HAnswer OK, HSetCmuxMode m]" "\<not> usb" "c = m" "ok"
    using assms(1) t c by (auto simp: SA_DefaultCmdHandler_CMUX_def split: if_splits)
  have "cmux_options p gAtCmuxDefaultCfg = (m, True)" using c r(3,4) by simp
  then show ?thesis using r(1,2) options_range [of p m] Create_ok [OF assms(2,3), of ov d m] by blast
qed

lemma number_in_range:
  assumes "n < 2 ^ 32" "unat lo \<le> n" "n \<le> unat hi"
  shows "at_ParamUintInRange (Some (number (decimal n))) lo hi True = (of_nat n, True)"
    "at_ParamDefUintInRange (Some (number (decimal n))) def lo hi True = (of_nat n, True)"
proof -
  have u: "unat (of_nat n :: u32) = n" using assms(1) by (simp add: unat_of_nat)
  show "at_ParamUintInRange (Some (number (decimal n))) lo hi True = (of_nat n, True)"
    using assms by (simp add: at_ParamUintInRange_def uint_decimal word_le_nat_alt u)
  then show "at_ParamDefUintInRange (Some (number (decimal n))) def lo hi True = (of_nat n, True)"
    by (simp add: at_ParamDefUintInRange_def absent_def number_def)
qed

theorem cmux_command_witness:
  "\<exists>m. SA_DefaultCmdHandler_CMUX None False \<lparr>pa_type = AT_CMD_SET, pPara = [], pa_params = [number (decimal 0)], pExData = None\<rparr> =
     [HAnswer OK, HSetCmuxMode m] \<and> cfg_maxFrameSize m \<le> 2048"
proof -
  let ?p = "\<lparr>pa_type = AT_CMD_SET, pPara = [], pa_params = [number (decimal 0)], pExData = None\<rparr>"
  have n: "at_ParamUintInRange (Some (number (decimal 0))) 0 1 True = (0, True)" using number_in_range(1) [of 0 0 1] by simp
  obtain m where m: "cmux_options ?p gAtCmuxDefaultCfg = (m, True)"
    by (simp add: cmux_options_def pparam_def n at_ParamDefUintInRange_def absent_def)
  have h: "HSetCmuxMode m \<in> set (SA_DefaultCmdHandler_CMUX None False ?p)"
    by (simp add: SA_DefaultCmdHandler_CMUX_def m)
  show ?thesis
    using cmux_command [OF h, of "replicate 4096 0" "replicate 4096 0" False None] by (auto intro!: exI [of _ m])
qed

section \<open>The display\<close>

text \<open>A wrong parameter of the command that switches the display leaves the display as it is, but the program
  takes it for switched off: the brightness can no longer be set.\<close>

theorem display_taken_for_off:
  assumes "init_flag l" "pa_type p = AT_CMD_SET" "\<not> snd (at_ParamUintInRange (pparam p 0) 0 1 True)"
    "pa_type q = AT_CMD_SET" "snd (at_ParamUintInRange (pparam q 0) 0 100 True)"
  shows "\<exists>l'. AT_CmdFunc_CZLCDONOFF i c p l = ([HAnswer (CmeError 53)], l') \<and>
    AT_CmdFunc_CZLCDBRIGHTNESS i c level q l' = ([HAnswer (CmeError 49)], l') \<and>
    (lcd_enable l = 1 \<longrightarrow> (\<exists>v. fst (AT_CmdFunc_CZLCDBRIGHTNESS i True level q l) = [HCall (KING_LcdBrightnessSet v), HAnswer OK]))"
proof -
  obtain v b where v: "at_ParamUintInRange (pparam q 0) 0 100 True = (v, b)" by fastforce
  obtain w b' where w: "at_ParamUintInRange (pparam p 0) 0 1 True = (w, b')" by fastforce
  have w0: "w = 0" using w assms(3) by (auto simp: at_ParamUintInRange_def split: if_splits prod.splits)
  show ?thesis using assms v w w0
    by (intro exI [of _ "l\<lparr>lcd_enable := 0\<rparr>"])
      (auto simp: AT_CmdFunc_CZLCDONOFF_def AT_CmdFunc_CZLCDBRIGHTNESS_def lcd_init_def)
qed

definition one_number :: "nat \<Rightarrow> AT_CMD_PARA" where
  "one_number n = \<lparr>pa_type = AT_CMD_SET, pPara = [], pa_params = [number (decimal n)], pExData = None\<rparr>"

theorem display_taken_for_off_witness:
  "\<exists>l'. AT_CmdFunc_CZLCDONOFF True True (plain_para AT_CMD_SET) \<lparr>lcd_enable = 1, init_flag = True\<rparr> =
     ([HAnswer (CmeError 53)], l') \<and>
   AT_CmdFunc_CZLCDBRIGHTNESS True True (True, 0) (one_number 50) l' = ([HAnswer (CmeError 49)], l')"
proof -
  have "snd (at_ParamUintInRange (pparam (one_number 50) 0) 0 100 True)"
    using number_in_range(1) [of 50 0 100] by (simp add: one_number_def pparam_def)
  moreover have "\<not> snd (at_ParamUintInRange (pparam (plain_para AT_CMD_SET) 0) 0 1 True)"
    by (simp add: plain_para_def pparam_def at_ParamUintInRange_def at_ParamUint_def)
  ultimately show ?thesis
    using display_taken_for_off [of "\<lparr>lcd_enable = 1, init_flag = True\<rparr>" "plain_para AT_CMD_SET" "one_number 50" True True "(True, 0)"]
    by (auto simp: plain_para_def one_number_def)
qed

section \<open>Copying\<close>

text \<open>What the loop relies on: reading gives the next bytes of the source, at least one while there are some, and
  writing adds all of them to the copy.\<close>

definition reads_and_writes :: "'f king_fs \<Rightarrow> nat \<Rightarrow> nat \<Rightarrow> ('f \<Rightarrow> bytes) \<Rightarrow> ('f \<Rightarrow> bytes) \<Rightarrow> bool" where
  "reads_and_writes F src dst left out \<longleftrightarrow>
     (\<forall>f. \<exists>k f'. fs_read F src 1024 f = (Some (take k (left f)), f') \<and> left f' = drop k (left f) \<and> out f' = out f \<and>
       k \<le> length (left f) \<and> (left f \<noteq> [] \<longrightarrow> 0 < k)) \<and>
     (\<forall>f b. \<exists>f'. fs_write F dst b f = (Some (length b), f') \<and> left f' = left f \<and> out f' = out f @ b)"

lemma copy_copies:
  assumes "reads_and_writes F src dst left out"
  shows "length (left f) < n \<Longrightarrow> unat done' + length (left f) = unat size_of \<Longrightarrow>
    \<exists>f'. copy_loop F n done' size_of src dst f = Some (0, f') \<and> left f' = [] \<and> out f' = out f @ left f"
proof (induction n arbitrary: f done')
  case (Suc n)
  show ?case
  proof (cases "left f = []")
    case True
    then have "\<not> done' < size_of" using Suc.prems(2) by (simp add: word_less_nat_alt)
    then show ?thesis using True by simp
  next
    case False
    obtain k f1 where r: "fs_read F src 1024 f = (Some (take k (left f)), f1)" "left f1 = drop k (left f)"
      "out f1 = out f" "k \<le> length (left f)" "0 < k" using assms False unfolding reads_and_writes_def by blast
    obtain f2 where w: "fs_write F dst (take k (left f)) f1 = (Some (length (take k (left f))), f2)" "left f2 = left f1"
      "out f2 = out f1 @ take k (left f)" using assms unfolding reads_and_writes_def by blast
    have "0 < length (left f)" using False by simp
    then have lt: "done' < size_of" using Suc.prems(2) unfolding word_less_nat_alt by linarith
    have "unat size_of < 2 ^ 32" using unsigned_less [of size_of] by simp
    then have "unat (done' + of_nat k) = unat done' + k"
      using Suc.prems(2) r(4) by (simp add: unat_word_ariths unat_of_nat)
    then have "length (left f2) < n" "unat (done' + of_nat k) + length (left f2) = unat size_of"
      using Suc.prems r w by simp_all
    from Suc.IH [OF this] show ?thesis using r w lt by (auto simp: min_absorb2)
  qed
qed simp

lemma copy_stuck:
  assumes "\<And>f. fst (fs_read F src 1024 f) = Some []" "\<And>f. fst (fs_write F dst [] f) = Some 0" "d < size_of"
  shows "copy_loop F n d size_of src dst f = None"
proof (induction n arbitrary: f)
  case (Suc n)
  obtain f1 where r: "fs_read F src 1024 f = (Some [], f1)" using assms(1) [of f] by (metis prod.collapse)
  obtain f2 where w: "fs_write F dst [] f1 = (Some 0, f2)" using assms(2) [of f1] by (metis prod.collapse)
  show ?case using r w assms(3) Suc by simp
qed simp

text \<open>The loop that copies a file ends after at most one pass for each byte and one more, with all of the file
  written in its order, when each read gives at least one byte; when reads succeed with no byte although
  some are missing, as they do at the end of a file that has become shorter than it was, it never
  ends.\<close>

theorem copying_ends:
  assumes "reads_and_writes F src dst left out" "length (left f) = unat size_of" "length (left f) < n"
    and "\<And>f. fst (fs_read G src 1024 f) = Some []" "\<And>f. fst (fs_write G dst [] f) = Some 0" "d < size_of"
  shows "(\<exists>f'. copy_loop F n 0 size_of src dst f = Some (0, f') \<and> left f' = [] \<and> out f' = out f @ left f) \<and>
    (\<forall>m g. copy_loop G m d size_of src dst g = None)"
  using copy_copies [OF assms(1,3), of 0 size_of] copy_stuck [OF assms(4-6)] assms(2) by simp

definition two_files :: "bool \<Rightarrow> (bytes \<times> bytes) king_fs" where
  "two_files at_end = \<lparr>fs_create = (\<lambda>_ _ f. (Some 1, f)),
     fs_read = (\<lambda>fd k (l, r). if at_end then (Some [], (l, r)) else (Some (take k l), (drop k l, r))),
     fs_write = (\<lambda>fd b (l, r). (Some (length b), (l, r @ b))), fs_close = (\<lambda>fd f. f)\<rparr>"

lemma two_files_ok: "reads_and_writes (two_files False) src dst fst snd"
proof -
  have "\<exists>k f'. fs_read (two_files False) src 1024 f = (Some (take k (fst f)), f') \<and> fst f' = drop k (fst f) \<and> snd f' = snd f \<and>
      k \<le> length (fst f) \<and> (fst f \<noteq> [] \<longrightarrow> 0 < k)" for f :: "bytes \<times> bytes"
  proof -
    have "take 1024 l = take (min 1024 (length l)) l" "drop 1024 l = drop (min 1024 (length l)) l" for l :: bytes
      by (simp_all add: min_def)
    then show ?thesis
      by (cases f) (auto simp: two_files_def intro!: exI [of _ "min 1024 (length (fst f))"])
  qed
  then show ?thesis unfolding reads_and_writes_def by (auto simp: two_files_def)
qed

theorem copying_ends_witness:
  "(\<exists>f'. copy_loop (two_files False) 4 0 3 1 2 ([7, 8, 9], []) = Some (0, f') \<and> snd f' = [7, 8, 9]) \<and>
   (\<forall>m. copy_loop (two_files True) m 0 3 1 2 ([], []) = None)"
  using copying_ends [OF two_files_ok, of "([7, 8, 9], [])" 3 4 "two_files True" 1 2 0]
  by (auto simp: two_files_def)

text \<open>The name on the card is put together in an array of 256 bytes: a name that the command accepts, of up
  to 256 characters, is written beyond it when its part behind the last slash has 248 characters or more.\<close>

theorem card_name_overflow:
  assumes "fs_create F name [FS_MODE_READ, FS_MODE_OPEN_EXISTING] f = (Some src, f1)" "file_size src f1 = Some sz" "0 \<notin> set name"
    "fs_create F (ascii ''/mnt/sd/'' @ base_name name) [FS_MODE_WRITE, FS_MODE_CREATE_ALWAYS] f1 = (None, f2)"
  shows "fsReadAndWrite F file_size n name f = (if length (base_name name) < 248 then Some (-1, f2) else None)"
proof (cases "length (base_name name) < 248")
  case True
  let ?t = "ascii ''/mnt/sd/'' @ base_name name"
  have l: "length (?t @ [0]) \<le> 256" "0 \<notin> set (ascii ''/mnt/sd/'')" using True by (simp_all add: ascii_def)
  have "set (base_name name) \<subseteq> set name" unfolding base_name_def by (metis set_rev set_takeWhileD subsetI)
  then have "0 \<notin> set ?t" using assms(3) l(2) by auto
  then have "cstr (ascii ''/mnt/sd/'' @ base_name name @ 0 # z) = ?t" for z using cstr_append_nul [of ?t z] by simp
  then show ?thesis using assms(1,2,4) True wr_block_in [of 0 "?t @ [0]" "replicate 256 0"] l(1)
    by (simp add: fsReadAndWrite_def)
next
  case False
  then show ?thesis using assms(1,2) by (simp add: fsReadAndWrite_def wr_block_def ascii_def)
qed

theorem card_name_overflow_witness:
  "fsReadAndWrite (two_files False\<lparr>fs_create := \<lambda>_ fl f. (if FS_MODE_READ \<in> set fl then Some 1 else None, f)\<rparr>)
     (\<lambda>_ _. Some 3) 4 (replicate 248 0x61) ([7, 8, 9], []) = None"
proof -
  let ?F = "two_files False\<lparr>fs_create := \<lambda>_ fl f. (if FS_MODE_READ \<in> set fl then Some 1 else None, f)\<rparr>"
  have "length (base_name (replicate 248 0x61)) = 248" by (simp add: base_name_def)
  moreover have "fs_create ?F nm [FS_MODE_WRITE, FS_MODE_CREATE_ALWAYS] g = (None, g)"
    "fs_create ?F nm [FS_MODE_READ, FS_MODE_OPEN_EXISTING] g = (Some 1, g)" for nm g by simp_all
  ultimately show ?thesis
    using card_name_overflow [of ?F "replicate 248 0x61" "([7, 8, 9], [])" 1 "([7, 8, 9], [])" "\<lambda>_ _. Some 3" 3 "([7, 8, 9], [])" 4]
    by simp
qed

section \<open>Two SIM cards\<close>

datatype sim_event = SimCommand dualsim_platform AT_CMD_PARA | SimNotice dualsim_platform u32 u32 "u32 \<times> u32"

definition sim_step :: "sim_event \<Rightarrow> bool \<Rightarrow> hstep list \<times> bool" where
  "sim_step e s_is_switching =
     (case e of
        SimCommand P p \<Rightarrow> AT_CmdFunc_SIMSWITCH P p s_is_switching
      | SimNotice P eventID rsp ind \<Rightarrow> DualSimSwitchCb P eventID rsp ind s_is_switching)"

text \<open>What an event means for the switch: one that the platform has accepted, or the result of one.\<close>

datatype sim_mark = Accepted | Result

definition sim_marks :: "sim_event \<Rightarrow> bool \<Rightarrow> sim_mark list" where
  "sim_marks e s_is_switching =
     (case e of
        SimCommand P p \<Rightarrow>
          if (\<exists>n. HCall (KING_DualSimSwitch n) \<in> set (fst (sim_step e s_is_switching))) \<and>
            HAnswer OK \<in> set (fst (sim_step e s_is_switching)) then [Accepted] else []
      | SimNotice P eventID rsp ind \<Rightarrow> if eventID = 1 then [Result] else [])"

fun sim_run :: "sim_event list \<Rightarrow> bool \<Rightarrow> sim_mark list \<times> bool" where
  "sim_run [] s = ([], s)"
| "sim_run (e # es) s = (let (m, t) = sim_run es (snd (sim_step e s)) in (sim_marks e s @ m, t))"

text \<open>Switches are not accepted one after the other with no result between them.\<close>

fun alternates :: "bool \<Rightarrow> sim_mark list \<Rightarrow> bool" where
  "alternates pending [] = True"
| "alternates pending (Accepted # ms) = (\<not> pending \<and> alternates True ms)"
| "alternates pending (Result # ms) = alternates False ms"

fun pending_after :: "bool \<Rightarrow> sim_mark list \<Rightarrow> bool" where
  "pending_after b [] = b"
| "pending_after b (m # ms) = pending_after (m = Accepted) ms"

lemma sim_step_marks:
  "alternates s (sim_marks e s) \<and> snd (sim_step e s) = pending_after s (sim_marks e s)"
proof (cases e)
  case (SimCommand P p)
  then show ?thesis
    by (auto simp: sim_step_def sim_marks_def AT_CmdFunc_SIMSWITCH_def Let_def split: AT_CMD_TYPE_T.split prod.split option.split)
qed (auto simp: sim_step_def sim_marks_def DualSimSwitchCb_def)

lemma alternates_append: "alternates b (xs @ ys) \<longleftrightarrow> alternates b xs \<and> alternates (pending_after b xs) ys"
  by (induction b xs rule: alternates.induct) auto

lemma pending_append [simp]: "pending_after b (xs @ ys) = pending_after (pending_after b xs) ys"
  by (induction xs arbitrary: b) auto

text \<open>C13: over any sequence of commands and notices, no switch is accepted while one is under way, and the flag
  says at every moment whether one is.\<close>

theorem one_switch_at_a_time:
  "alternates s (fst (sim_run es s)) \<and> snd (sim_run es s) = pending_after s (fst (sim_run es s))"
proof (induction es arbitrary: s)
  case (Cons e es)
  show ?case using Cons [of "snd (sim_step e s)"] sim_step_marks [of s e]
    by (auto simp: Let_def alternates_append split: prod.split)
qed simp

section \<open>The port for unsolicited results\<close>

lemma str_text_quoted:
  assumes "length body + 2 < 65536" "0 \<notin> set (unescape body)"
  shows "\<exists>r. at_ParamStr (Some (Cmd_Param.quoted body)) True = Some r \<and> snd (snd r) \<and> str_text r = unescape body"
proof -
  obtain q where q: "at_ParamStr (Some (Cmd_Param.quoted body)) True = Some (ParamValue, Some q, True)"
    "take (length (unescape body) + 1) (par_value q) = unescape body @ [0]"
    using string_param [OF assms(1)] by blast
  have "par_value q = unescape body @ 0 # drop (length (unescape body) + 1) (par_value q)"
    using append_take_drop_id [of "length (unescape body) + 1" "par_value q"] unfolding q(2) by (metis append.assoc append_Cons append_Nil)
  then have "cstr (par_value q) = unescape body" using cstr_append_nul [OF assms(2)] by metis
  then show ?thesis using q(1) by (simp add: str_text_def)
qed

definition urc_name :: "nat \<Rightarrow> bytes" where
  "urc_name i = (if i = 0 then ascii ''uart1'' else ascii ''usbat'')"

lemma urc_find_name:
  assumes "i < 2" "same_caseless t (urc_name i)"
  shows "urc_find 0 urc_infos t = Some i"
proof -
  have "\<not> same_caseless (ascii ''usbat'') (ascii ''uart1'')" by code_simp
  then have "same_caseless t (urc_name 1) \<Longrightarrow> \<not> same_caseless t (ascii ''uart1'')" by (simp add: same_caseless_def urc_name_def)
  then show ?thesis using assms by (auto simp: urc_infos_def urc_name_def less_2_cases_iff)
qed

lemma urc_text_image:
  assumes "i < 2" "gAtCurAsSetting c = port_image (of_nat i)"
  shows "urc_text c = Some (ascii ''+QURCCFG: '' @ in_quotes (ascii ''urcport'') @ [0x2c] @ in_quotes (urc_name i))"
  using assms by (auto simp: urc_text_def port_value_def port_image_def urc_infos_def urc_name_def rd_def less_2_cases_iff)

text \<open>The port that the command names, in letters of any case, becomes the port for unsolicited results: the
  module gets its channel, and the read form gives its name. A setting that holds another number, which a
  file that is read at start can bring, is used as an index beyond the table of names.\<close>

theorem urc_port_set_and_read:
  assumes "pa_type p = AT_CMD_SET" "pa_params p = [Cmd_Param.quoted b1, Cmd_Param.quoted b2]" "i < 2"
    "length b1 + 2 < 65536" "length b2 + 2 < 65536" "0 \<notin> set (unescape b1)" "0 \<notin> set (unescape b2)"
    "same_caseless (unescape b1) (ascii ''urcport'')" "same_caseless (unescape b2) (urc_name i)"
    "pa_type q = AT_CMD_READ"
  shows "(\<exists>c' f'. AT_CmdFunc_QURCCFG F uart usb p (ch, c, f) = Some ([HAnswer OK], if i = 0 then uart else usb, c', f') \<and>
      AT_CmdFunc_QURCCFG F uart usb q (ch, c', f') =
        Some (info_ok (ascii ''+QURCCFG: '' @ in_quotes (ascii ''urcport'') @ [0x2c] @ in_quotes (urc_name i)), ch, c', f')) \<and>
    (2 \<le> port_value (gAtCurAsSetting c) \<longrightarrow> AT_CmdFunc_QURCCFG F uart usb q (ch, c, f) = None)"
proof -
  obtain r1 where r1: "at_ParamStr (Some (Cmd_Param.quoted b1)) True = Some r1" "snd (snd r1)" "str_text r1 = unescape b1"
    using str_text_quoted [OF assms(4,6)] by blast
  obtain r2 where r2: "at_ParamStr (Some (Cmd_Param.quoted b2)) True = Some r2" "snd (snd r2)" "str_text r2 = unescape b2"
    using str_text_quoted [OF assms(5,7)] by blast
  have pp: "pparam p 0 = Some (Cmd_Param.quoted b1)" "pparam p 1 = Some (Cmd_Param.quoted b2)"
    using assms(2) by (simp_all add: pparam_def)
  obtain c' f' where s: "at_SetUrcPort F uart usb (of_nat i) c f = ((if i = 0 then uart else usb), c', f')"
    "gAtCurAsSetting c' = port_image (of_nat i)"
    using assms(3) by (cases "port_image (of_nat i) = gAtCurAsSetting c")
      (auto simp: at_SetUrcPort_def less_2_cases_iff Let_def split: if_splits)
  have "AT_CmdFunc_QURCCFG F uart usb p (ch, c, f) = Some ([HAnswer OK], if i = 0 then uart else usb, c', f')"
    using assms(1,2,8) pp r1 r2 s(1) urc_find_name [OF assms(3,9)]
    by (cases r1; cases r2) (simp add: AT_CmdFunc_QURCCFG_def)
  moreover have "urc_text c = None" if "2 \<le> port_value (gAtCurAsSetting c)"
    using that by (simp add: urc_text_def rd_def urc_infos_def)
  ultimately show ?thesis using urc_text_image [OF assms(3) s(2)] assms(10)
    by (auto simp: AT_CmdFunc_QURCCFG_def)
qed

theorem urc_port_set_and_read_witness:
  "\<exists>c' f'. AT_CmdFunc_QURCCFG (memory_fs 9) 1 2 \<lparr>pa_type = AT_CMD_SET, pPara = [],
       pa_params = [Cmd_Param.quoted (ascii ''urcport''), Cmd_Param.quoted (ascii ''USBAT'')], pExData = None\<rparr>
     (1, \<lparr>gAtCurrentSetting = [], gAtCurAsSetting = [0, 0, 0, 0]\<rparr>, (Map.empty, [])) = Some ([HAnswer OK], 2, c', f')"
proof -
  let ?p = "\<lparr>pa_type = AT_CMD_SET, pPara = [],
       pa_params = [Cmd_Param.quoted (ascii ''urcport''), Cmd_Param.quoted (ascii ''USBAT'')], pExData = None\<rparr>"
  have u: "unescape (ascii ''urcport'') = ascii ''urcport''" "unescape (ascii ''USBAT'') = ascii ''USBAT''"
    "same_caseless (ascii ''urcport'') (ascii ''urcport'')" "same_caseless (ascii ''USBAT'') (urc_name 1)"
    "0 \<notin> set (ascii ''urcport'')" "0 \<notin> set (ascii ''USBAT'')"
    "length (ascii ''urcport'') = 7" "length (ascii ''USBAT'') = 5"
    by code_simp+
  show ?thesis
    using urc_port_set_and_read [of ?p "ascii ''urcport''" "ascii ''USBAT''" 1 "plain_para AT_CMD_READ" "memory_fs 9" 1 2 1
        "\<lparr>gAtCurrentSetting = [], gAtCurAsSetting = [0, 0, 0, 0]\<rparr>" "(Map.empty, [])"] u
    by (auto simp: plain_para_def)
qed

end
