(* ===== verification/At_Device.thy ===== *)
theory At_Device
  imports Lp_Ctrl "HOL-Library.Signed_Division"
begin

text \<open>
  The devices of the AT engine: the serial port (at_device_uart.c), the USB port (at_device_usb.c) and
  the routines that call through their tables of operations (at_device.c). A device is in the memory of
  the heap; the calls of the platform's drivers are recorded, what they return is an argument. Sleeping
  and waking take and release the lock against suspension.
\<close>

section \<open>State\<close>

datatype AT_DEVICE_FORMAT_T =
    AT_DEVICE_FORMAT_AUTO_DETECT | AT_DEVICE_FORMAT_8N2 | AT_DEVICE_FORMAT_811 | AT_DEVICE_FORMAT_8N1
  | AT_DEVICE_FORMAT_7N2 | AT_DEVICE_FORMAT_711 | AT_DEVICE_FORMAT_7N1

datatype AT_DEVICE_PARITY_T =
    AT_DEVICE_PARITY_ODD | AT_DEVICE_PARITY_EVEN | AT_DEVICE_PARITY_MARK | AT_DEVICE_PARITY_SPACE

text \<open>What the driver takes (KingUart.h); the field \<open>irda_mode\<close> is never written by the code and is left out.\<close>

datatype UART_PARITY_E = UART_NO_PARITY | UART_EVEN_PARITY | UART_ODD_PARITY | UART_PARITY_MAX

datatype UART_STOP_BITS_E = UART_ONE_STOP_BIT | UART_ONE_AND_HALF_STOP_BITS | UART_TWO_STOP_BITS | UART_STOP_BITS_MAX

datatype UART_BYTE_SIZE_E = UART_BYTE_LEN_5 | UART_BYTE_LEN_6 | UART_BYTE_LEN_7 | UART_BYTE_LEN_8 | UART_BYTE_LEN_MAX

datatype UART_FLOW_CTRL_E = UART_NO_FLOW_CONTROL | UART_HW_FLOW_CONTROL | UART_SW_FLOW_CONTROL | UART_FLOW_CTRL_MAX

record UART_CONFIG_S =
  drv_baudrate :: int
  drv_parity :: UART_PARITY_E
  drv_stop_bits :: UART_STOP_BITS_E
  drv_byte_size :: UART_BYTE_SIZE_E
  drv_flow_ctrl :: UART_FLOW_CTRL_E

datatype dev_call =
    WakeLock | WakeUnlock | DrvInit UART_CONFIG_S | UsbInit | DrvDeinit | DrvNotify | DrvUnnotify | DrvSleep nat
  | DrvWrite bytes | DrvRead nat | DevFree

text \<open>The table of operations is that of one of the two files; memory that was only cleared has none.\<close>

datatype dev_ops = NoOps | UartOps | UsbOps

record AT_DEVICE_T =
  dev_ops :: dev_ops
  devno :: u8
  dev_recv :: "nat option"
  cfg_id :: nat
  cfg_baud :: int
  cfg_format :: AT_DEVICE_FORMAT_T
  cfg_parity :: AT_DEVICE_PARITY_T
  send_timeout :: u32
  dev_sleep :: bool
  dev_calls :: "dev_call list"

definition devcall :: "dev_call \<Rightarrow> AT_DEVICE_T \<Rightarrow> AT_DEVICE_T" where
  "devcall c th = th\<lparr>dev_calls := dev_calls th @ [c]\<rparr>"

section \<open>Formats\<close>

definition at_UartDrvParity :: "AT_DEVICE_PARITY_T \<Rightarrow> UART_PARITY_E" where
  "at_UartDrvParity parity =
     (case parity of AT_DEVICE_PARITY_ODD \<Rightarrow> UART_ODD_PARITY | AT_DEVICE_PARITY_EVEN \<Rightarrow> UART_EVEN_PARITY | _ \<Rightarrow> UART_NO_PARITY)"

definition at_UartDrvFormat :: "UART_CONFIG_S \<Rightarrow> AT_DEVICE_FORMAT_T \<Rightarrow> AT_DEVICE_PARITY_T \<Rightarrow> UART_CONFIG_S" where
  "at_UartDrvFormat cfg fmt parity =
     cfg\<lparr>drv_byte_size := (if fmt = AT_DEVICE_FORMAT_7N2 \<or> fmt = AT_DEVICE_FORMAT_711 \<or> fmt = AT_DEVICE_FORMAT_7N1
           then UART_BYTE_LEN_7 else UART_BYTE_LEN_8),
         drv_stop_bits := (if fmt = AT_DEVICE_FORMAT_8N2 \<or> fmt = AT_DEVICE_FORMAT_7N2 then UART_TWO_STOP_BITS else UART_ONE_STOP_BIT),
         drv_parity := (if fmt = AT_DEVICE_FORMAT_811 \<or> fmt = AT_DEVICE_FORMAT_711 then at_UartDrvParity parity else UART_NO_PARITY)\<rparr>"

text \<open>The configuration as the three callers fill it; the values that are overwritten do not matter.\<close>

definition drvcfg_of :: "int \<Rightarrow> AT_DEVICE_FORMAT_T \<Rightarrow> AT_DEVICE_PARITY_T \<Rightarrow> UART_CONFIG_S" where
  "drvcfg_of baud fmt parity =
     at_UartDrvFormat \<lparr>drv_baudrate = baud, drv_parity = UART_NO_PARITY, drv_stop_bits = UART_ONE_STOP_BIT,
       drv_byte_size = UART_BYTE_LEN_5, drv_flow_ctrl = UART_NO_FLOW_CONTROL\<rparr> fmt parity"

text \<open>The time for sending a full buffer of 4096 bytes twice, in milliseconds, at least 500; the same in both files.\<close>

definition send_timeout_of :: "int \<Rightarrow> u32" where
  "send_timeout_of baud =
     (let rate = of_int (baud sdiv 10); rate = (if rate = 0 then 9600 else rate); t = 8192000 div rate
      in if t < 500 then 500 else t)"

section \<open>The serial port\<close>

definition at_UartCreate :: "nat \<Rightarrow> int \<Rightarrow> AT_DEVICE_FORMAT_T \<Rightarrow> AT_DEVICE_PARITY_T \<Rightarrow> u8 \<Rightarrow> AT_DEVICE_T" where
  "at_UartCreate no_id baud fmt parity no =
     \<lparr>dev_ops = UartOps, devno = no, dev_recv = None, cfg_id = no_id, cfg_baud = baud, cfg_format = fmt, cfg_parity = parity,
      send_timeout = send_timeout_of baud, dev_sleep = False, dev_calls = []\<rparr>"

definition at_UartDestroy :: "AT_DEVICE_T \<Rightarrow> AT_DEVICE_T" where
  "at_UartDestroy th = devcall DevFree (devcall DrvDeinit th)"

definition at_UartSleep :: "bool \<Rightarrow> AT_DEVICE_T \<Rightarrow> AT_DEVICE_T" where
  "at_UartSleep wakeupEnabled th = (if dev_sleep th then th else devcall WakeUnlock (th\<lparr>dev_sleep := True\<rparr>))"

definition at_UartWakeup :: "AT_DEVICE_T \<Rightarrow> AT_DEVICE_T" where
  "at_UartWakeup th = (if \<not> dev_sleep th then th else (devcall WakeLock th)\<lparr>dev_sleep := False\<rparr>)"

text \<open>\<open>init_ok\<close> and \<open>notify_ok\<close> are the results of the driver.\<close>

definition at_UartOpen :: "bool \<Rightarrow> bool \<Rightarrow> AT_DEVICE_T \<Rightarrow> bool \<times> AT_DEVICE_T" where
  "at_UartOpen init_ok notify_ok th =
     (let th = th\<lparr>send_timeout := send_timeout_of (cfg_baud th)\<rparr>;
          th = devcall (DrvInit (drvcfg_of (cfg_baud th) (cfg_format th) (cfg_parity th))) th in
      if \<not> init_ok then (False, th)
      else let th = devcall DrvNotify th in
        if \<not> notify_ok then (False, th)
        else (True, devcall WakeLock (th\<lparr>dev_sleep := False\<rparr>)))"

definition at_UartReopen :: "bool \<Rightarrow> bool \<Rightarrow> bool \<Rightarrow> UART_CONFIG_S \<Rightarrow> AT_DEVICE_T \<Rightarrow> bool \<times> AT_DEVICE_T" where
  "at_UartReopen deinit_ok init_ok notify_ok drvcfg th =
     (let th = devcall DrvDeinit (devcall (DrvSleep 100) th) in
      if \<not> deinit_ok then (False, th)
      else let th = devcall (DrvInit drvcfg) th in
        if \<not> init_ok then (False, th)
        else (notify_ok, devcall DrvNotify th))"

definition at_UartClose :: "AT_DEVICE_T \<Rightarrow> AT_DEVICE_T" where
  "at_UartClose th = devcall WakeUnlock ((devcall DrvDeinit th)\<lparr>dev_sleep := True\<rparr>)"

definition at_UartIsBaudSupported :: "int \<Rightarrow> bool" where
  "at_UartIsBaudSupported baud \<longleftrightarrow>
     baud \<in> set [1200, 2400, 4800, 9600, 14400, 19200, 28800, 33600, 38400, 57600, 115200, 230400, 460800, 921600]"

definition at_UartSetFlowCtrl :: "bool \<Rightarrow> bool \<Rightarrow> bool \<Rightarrow> AT_DEVICE_T \<Rightarrow> bool \<times> AT_DEVICE_T" where
  "at_UartSetFlowCtrl deinit_ok init_ok notify_ok th =
     at_UartReopen deinit_ok init_ok notify_ok (drvcfg_of (cfg_baud th) (cfg_format th) (cfg_parity th))
       (th\<lparr>send_timeout := send_timeout_of (cfg_baud th)\<rparr>)"

definition at_UartSetFormat ::
  "bool \<Rightarrow> bool \<Rightarrow> bool \<Rightarrow> int \<Rightarrow> AT_DEVICE_FORMAT_T \<Rightarrow> AT_DEVICE_PARITY_T \<Rightarrow> AT_DEVICE_T \<Rightarrow> AT_DEVICE_T" where
  "at_UartSetFormat deinit_ok init_ok notify_ok baud fmt parity th =
     snd (at_UartReopen deinit_ok init_ok notify_ok (drvcfg_of baud fmt parity)
       (th\<lparr>cfg_baud := baud, cfg_format := fmt, cfg_parity := parity, send_timeout := send_timeout_of baud\<rparr>))"

section \<open>The USB port\<close>

definition at_UsbCreate :: "nat \<Rightarrow> int \<Rightarrow> AT_DEVICE_FORMAT_T \<Rightarrow> AT_DEVICE_PARITY_T \<Rightarrow> u8 \<Rightarrow> AT_DEVICE_T" where
  "at_UsbCreate no_id baud fmt parity no =
     \<lparr>dev_ops = UsbOps, devno = no, dev_recv = None, cfg_id = no_id, cfg_baud = baud, cfg_format = fmt, cfg_parity = parity,
      send_timeout = send_timeout_of baud, dev_sleep = False, dev_calls = []\<rparr>"

definition at_UsbDestroy :: "AT_DEVICE_T \<Rightarrow> AT_DEVICE_T" where
  "at_UsbDestroy th = devcall DevFree (devcall DrvUnnotify (devcall DrvDeinit th))"

definition at_UsbSleep :: "bool \<Rightarrow> AT_DEVICE_T \<Rightarrow> AT_DEVICE_T" where
  "at_UsbSleep wakeupEnabled th = (if dev_sleep th then th else devcall WakeUnlock (th\<lparr>dev_sleep := True\<rparr>))"

definition at_UsbWakeup :: "AT_DEVICE_T \<Rightarrow> AT_DEVICE_T" where
  "at_UsbWakeup th = (if \<not> dev_sleep th then th else (devcall WakeLock th)\<lparr>dev_sleep := False\<rparr>)"

definition at_UsbOpen :: "bool \<Rightarrow> bool \<Rightarrow> AT_DEVICE_T \<Rightarrow> bool \<times> AT_DEVICE_T" where
  "at_UsbOpen init_ok notify_ok th =
     (let th = th\<lparr>send_timeout := send_timeout_of (cfg_baud th)\<rparr>; th = devcall UsbInit th in
      if \<not> init_ok then (False, th)
      else let th = devcall DrvNotify th in
        if \<not> notify_ok then (False, th)
        else (True, devcall WakeLock (th\<lparr>dev_sleep := False\<rparr>)))"

definition at_UsbReopen :: "AT_DEVICE_T \<Rightarrow> bool" where
  "at_UsbReopen th = True"

definition at_UsbClose :: "AT_DEVICE_T \<Rightarrow> AT_DEVICE_T" where
  "at_UsbClose th = devcall WakeUnlock ((devcall DrvDeinit th)\<lparr>dev_sleep := True\<rparr>)"

definition at_UsbIsBaudSupported :: "int \<Rightarrow> bool" where
  "at_UsbIsBaudSupported baud = True"

definition at_UsbSetFlowCtrl :: "AT_DEVICE_T \<Rightarrow> bool \<times> AT_DEVICE_T" where
  "at_UsbSetFlowCtrl th =
     (let th = th\<lparr>send_timeout := send_timeout_of (cfg_baud th)\<rparr> in (at_UsbReopen th, th))"

definition at_UsbSetFormat :: "int \<Rightarrow> AT_DEVICE_FORMAT_T \<Rightarrow> AT_DEVICE_PARITY_T \<Rightarrow> AT_DEVICE_T \<Rightarrow> AT_DEVICE_T" where
  "at_UsbSetFormat baud fmt parity th =
     th\<lparr>cfg_baud := baud, cfg_format := fmt, cfg_parity := parity, send_timeout := send_timeout_of baud\<rparr>"

section \<open>Calls through the table\<close>

definition at_DeviceDestroy :: "AT_DEVICE_T option \<Rightarrow> AT_DEVICE_T option" where
  "at_DeviceDestroy th = map_option (\<lambda>th. case dev_ops th of NoOps \<Rightarrow> th | UartOps \<Rightarrow> at_UartDestroy th | UsbOps \<Rightarrow> at_UsbDestroy th) th"

definition at_DeviceOpen :: "bool \<Rightarrow> bool \<Rightarrow> AT_DEVICE_T \<Rightarrow> bool \<times> AT_DEVICE_T" where
  "at_DeviceOpen init_ok notify_ok th =
     (case dev_ops th of NoOps \<Rightarrow> (False, th) | UartOps \<Rightarrow> at_UartOpen init_ok notify_ok th | UsbOps \<Rightarrow> at_UsbOpen init_ok notify_ok th)"

definition at_DeviceClose :: "AT_DEVICE_T \<Rightarrow> AT_DEVICE_T" where
  "at_DeviceClose th = (case dev_ops th of NoOps \<Rightarrow> th | UartOps \<Rightarrow> at_UartClose th | UsbOps \<Rightarrow> at_UsbClose th)"

definition at_DeviceSleep :: "bool \<Rightarrow> AT_DEVICE_T \<Rightarrow> AT_DEVICE_T" where
  "at_DeviceSleep w th = (case dev_ops th of NoOps \<Rightarrow> th | UartOps \<Rightarrow> at_UartSleep w th | UsbOps \<Rightarrow> at_UsbSleep w th)"

definition at_DeviceWakeup :: "AT_DEVICE_T \<Rightarrow> AT_DEVICE_T" where
  "at_DeviceWakeup th = (case dev_ops th of NoOps \<Rightarrow> th | UartOps \<Rightarrow> at_UartWakeup th | UsbOps \<Rightarrow> at_UsbWakeup th)"

definition at_DeviceIsBaudSupported :: "AT_DEVICE_T \<Rightarrow> int \<Rightarrow> bool" where
  "at_DeviceIsBaudSupported th baud =
     (case dev_ops th of NoOps \<Rightarrow> True | UartOps \<Rightarrow> at_UartIsBaudSupported baud | UsbOps \<Rightarrow> at_UsbIsBaudSupported baud)"

definition at_DeviceSetFlowCtrl :: "bool \<Rightarrow> bool \<Rightarrow> bool \<Rightarrow> AT_DEVICE_T \<Rightarrow> bool \<times> AT_DEVICE_T" where
  "at_DeviceSetFlowCtrl d i n th =
     (case dev_ops th of NoOps \<Rightarrow> (False, th) | UartOps \<Rightarrow> at_UartSetFlowCtrl d i n th | UsbOps \<Rightarrow> at_UsbSetFlowCtrl th)"

definition at_DeviceSetFormat ::
  "bool \<Rightarrow> bool \<Rightarrow> bool \<Rightarrow> int \<Rightarrow> AT_DEVICE_FORMAT_T \<Rightarrow> AT_DEVICE_PARITY_T \<Rightarrow> AT_DEVICE_T \<Rightarrow> AT_DEVICE_T" where
  "at_DeviceSetFormat d i n baud fmt parity th =
     (case dev_ops th of NoOps \<Rightarrow> th | UartOps \<Rightarrow> at_UartSetFormat d i n baud fmt parity th
      | UsbOps \<Rightarrow> at_UsbSetFormat baud fmt parity th)"

section \<open>The devices with the low power control\<close>

text \<open>
  The devices are numbered; a channel is named by the number of its device. \<open>ds_uart\<close> and \<open>ds_usb\<close> are the
  devices of the two entries of \<open>g_dispatch\<close>, \<open>ds_posted\<close> the channels whose read the AT task has been asked for.
\<close>

record dev_system =
  ds_lp :: AT_LP_CTRL_CONTEXT
  ds_devs :: "AT_DEVICE_T list"
  ds_uart :: "nat option"
  ds_usb :: "nat option"
  ds_posted :: "nat list"
  ds_calls :: "dev_call list"

text \<open>What a device calls goes to the one platform.\<close>

definition on_device :: "nat \<Rightarrow> (AT_DEVICE_T \<Rightarrow> AT_DEVICE_T) \<Rightarrow> dev_system \<Rightarrow> dev_system" where
  "on_device d f s =
     (if d < length (ds_devs s) then
        let th = ds_devs s ! d; th' = f th
        in s\<lparr>ds_devs := (ds_devs s)[d := th'], ds_calls := ds_calls s @ drop (length (dev_calls th)) (dev_calls th')\<rparr>
      else s)"

fun lp_perform :: "lp_call \<Rightarrow> dev_system \<Rightarrow> dev_system" where
  "lp_perform (DeviceSleep d w) s = on_device d (at_DeviceSleep w) s"
| "lp_perform (DeviceWakeup d) s = on_device d at_DeviceWakeup s"
| "lp_perform _ s = s"

text \<open>An operation of the low power control with the calls of devices that it makes.\<close>

definition with_lp :: "(AT_LP_CTRL_CONTEXT \<Rightarrow> AT_LP_CTRL_CONTEXT) \<Rightarrow> dev_system \<Rightarrow> dev_system" where
  "with_lp f s = (let lp = f (ds_lp s) in
     fold lp_perform (drop (length (lp_calls (ds_lp s))) (lp_calls lp)) (s\<lparr>ds_lp := lp\<rparr>))"

definition at_DeviceScheduleRead :: "nat \<Rightarrow> dev_system \<Rightarrow> dev_system" where
  "at_DeviceScheduleRead d s =
     (case dev_recv (ds_devs s ! d) of None \<Rightarrow> s | Some ch \<Rightarrow> s\<lparr>ds_posted := ds_posted s @ [ch]\<rparr>)"

definition input_event :: "nat option \<Rightarrow> dev_system \<Rightarrow> dev_system" where
  "input_event dev s =
     (case dev of None \<Rightarrow> s
      | Some d \<Rightarrow> with_lp at_LpCtrlInputReceived
          (at_DeviceScheduleRead d (on_device d at_DeviceWakeup s)))"

text \<open>The events of a driver: data to read, the end of a write, others.\<close>

datatype drv_event = EVT_DATA_TO_READ | EVT_WRITE_COMPLETE | EVT_OTHER

definition at_UartCallback :: "drv_event \<Rightarrow> dev_system \<Rightarrow> dev_system" where
  "at_UartCallback e s = (if e = EVT_DATA_TO_READ then input_event (ds_uart s) s else s)"

definition at_UsbCallback :: "drv_event \<Rightarrow> dev_system \<Rightarrow> dev_system" where
  "at_UsbCallback e s = (if e = EVT_DATA_TO_READ then input_event (ds_usb s) s else s)"

text \<open>Writing: \<open>taken\<close> is the number of bytes the driver took.\<close>

definition drv_write :: "nat \<Rightarrow> nat \<Rightarrow> bytes \<Rightarrow> dev_system \<Rightarrow> nat \<times> dev_system" where
  "drv_write taken d data s =
     (if data = [] then (0, s)
      else let s = with_lp (snd \<circ> at_LpCtrlOutputRequest) s
        in (taken, on_device d (devcall (DrvWrite data)) s))"

definition at_UartWrite :: "nat \<Rightarrow> nat \<Rightarrow> bytes \<Rightarrow> dev_system \<Rightarrow> nat \<times> dev_system" where
  "at_UartWrite taken d data s = drv_write taken d data s"

definition at_UsbWrite :: "nat \<Rightarrow> nat \<Rightarrow> bytes \<Rightarrow> dev_system \<Rightarrow> nat \<times> dev_system" where
  "at_UsbWrite taken d data s = drv_write taken d data s"

definition at_DeviceWrite :: "nat \<Rightarrow> nat \<Rightarrow> bytes \<Rightarrow> dev_system \<Rightarrow> nat \<times> dev_system" where
  "at_DeviceWrite taken d data s =
     (case dev_ops (ds_devs s ! d) of NoOps \<Rightarrow> (0, s) | UartOps \<Rightarrow> at_UartWrite taken d data s | UsbOps \<Rightarrow> at_UsbWrite taken d data s)"

text \<open>Reading: \<open>avail\<close> is what the driver has.\<close>

definition at_UartRead :: "bytes \<Rightarrow> nat \<Rightarrow> AT_DEVICE_T \<Rightarrow> bytes \<times> AT_DEVICE_T" where
  "at_UartRead avail n th =
     (if dev_sleep th then ([], th) else if n = 0 then ([], th) else (take n avail, devcall (DrvRead n) th))"

definition at_UsbRead :: "bytes \<Rightarrow> nat \<Rightarrow> AT_DEVICE_T \<Rightarrow> bytes \<times> AT_DEVICE_T" where
  "at_UsbRead avail n th =
     (if dev_sleep th then ([], th) else if n = 0 then ([], th) else (take n avail, devcall (DrvRead n) th))"

definition at_DeviceRead :: "bytes \<Rightarrow> nat \<Rightarrow> AT_DEVICE_T \<Rightarrow> bytes \<times> AT_DEVICE_T" where
  "at_DeviceRead avail n th =
     (case dev_ops th of NoOps \<Rightarrow> ([], th) | UartOps \<Rightarrow> at_UartRead avail n th | UsbOps \<Rightarrow> at_UsbRead avail n th)"

text \<open>The start: the two ports are created, opened and registered; the serial port says that it is ready before it is
  registered. \<open>u\<close> and \<open>b\<close> are the results of the two drivers, \<open>taken\<close> that of the write.\<close>

definition RDY_STRING :: bytes where
  "RDY_STRING = [0x0d, 0x0a, 0x52, 0x44, 0x59, 0x0d, 0x0a]"

definition at_ModuleCreateDefaultDevice :: "bool \<times> bool \<Rightarrow> int \<Rightarrow> nat \<Rightarrow> dev_system \<Rightarrow> dev_system" where
  "at_ModuleCreateDefaultDevice u baud taken s =
     (let d = length (ds_devs s);
          th = (at_UartCreate 1 baud AT_DEVICE_FORMAT_8N1 AT_DEVICE_PARITY_SPACE 0)\<lparr>dev_recv := Some d\<rparr>;
          s = on_device d (snd \<circ> at_DeviceOpen (fst u) (snd u)) (s\<lparr>ds_devs := ds_devs s @ [th], ds_uart := Some d\<rparr>)
      in with_lp (snd \<circ> at_LpCtrlSetDevice d) (snd (at_UartWrite taken d RDY_STRING s)))"

definition at_ModuleCreateUsbDevice :: "bool \<times> bool \<Rightarrow> int \<Rightarrow> dev_system \<Rightarrow> dev_system" where
  "at_ModuleCreateUsbDevice b baud s =
     (let d = length (ds_devs s);
          th = (at_UsbCreate 5 baud AT_DEVICE_FORMAT_8N1 AT_DEVICE_PARITY_SPACE 1)\<lparr>dev_recv := Some d\<rparr>;
          s = on_device d (snd \<circ> at_DeviceOpen (fst b) (snd b)) (s\<lparr>ds_devs := ds_devs s @ [th], ds_usb := Some d\<rparr>)
      in with_lp (snd \<circ> at_LpCtrlSetDevice d) s)"

definition devices_started :: "bool \<times> bool \<Rightarrow> bool \<times> bool \<Rightarrow> int \<Rightarrow> nat \<Rightarrow> nat \<Rightarrow> dev_system" where
  "devices_started u b baud taken sleepMode =
     at_ModuleCreateUsbDevice b baud (at_ModuleCreateDefaultDevice u baud taken
       \<lparr>ds_lp = at_LpCtrlInit sleepMode [None, None], ds_devs = [], ds_uart = None, ds_usb = None, ds_posted = [], ds_calls = []\<rparr>)"

section \<open>Events\<close>

text \<open>The AT task runs the first read it was asked for, with \<open>n\<close> bytes of room; what it gets is the result.\<close>

definition task_read :: "bytes \<Rightarrow> nat \<Rightarrow> dev_system \<Rightarrow> bytes \<times> dev_system" where
  "task_read avail n s =
     (case ds_posted s of [] \<Rightarrow> ([], s)
      | ch # cs \<Rightarrow> (case at_DeviceRead avail n (ds_devs s ! ch) of
          (b, th) \<Rightarrow> (b, on_device ch (\<lambda>_. th) (s\<lparr>ds_posted := cs\<rparr>))))"

datatype dev_event =
    DevUart drv_event | DevUsb drv_event | DevTask bytes nat | DevWrite nat bytes nat | DevTimeout
  | DevMode AT_LP_CTRL_MODE_T | DevFormat nat bool bool bool int AT_DEVICE_FORMAT_T AT_DEVICE_PARITY_T
  | DevFlow nat bool bool bool

fun dev_exec :: "dev_event \<Rightarrow> dev_system \<Rightarrow> dev_system" where
  "dev_exec (DevUart e) s = at_UartCallback e s"
| "dev_exec (DevUsb e) s = at_UsbCallback e s"
| "dev_exec (DevTask avail n) s = snd (task_read avail n s)"
| "dev_exec (DevWrite d data taken) s = (if d < length (ds_devs s) then snd (at_DeviceWrite taken d data s) else s)"
| "dev_exec DevTimeout s = with_lp at_LpCtrlTimeout s"
| "dev_exec (DevMode m) s = with_lp (snd \<circ> at_LpCtrlSetMode m) s"
| "dev_exec (DevFormat d de i n baud fmt parity) s =
     on_device d (at_DeviceSetFormat de i n baud fmt parity) s"
| "dev_exec (DevFlow d de i n) s = on_device d (snd \<circ> at_DeviceSetFlowCtrl de i n) s"

text \<open>Both ports name the same lock, \<open>Modem\<close>: it is taken when one of them takes it and released when one of them
  releases it. In a sequence of calls the drivers may only be asked to read or write while it is held.\<close>

fun lock_run :: "bool \<Rightarrow> dev_call list \<Rightarrow> bool option" where
  "lock_run b [] = Some b"
| "lock_run b (WakeLock # cs) = lock_run True cs"
| "lock_run b (WakeUnlock # cs) = lock_run False cs"
| "lock_run b (DrvWrite d # cs) = (if b then lock_run b cs else None)"
| "lock_run b (DrvRead n # cs) = (if b then lock_run b cs else None)"
| "lock_run b (c # cs) = lock_run b cs"

lemma lock_run_append: "lock_run b (xs @ ys) = (case lock_run b xs of None \<Rightarrow> None | Some c \<Rightarrow> lock_run c ys)"
  by (induction b xs rule: lock_run.induct) auto

definition dev_ok :: "bool \<Rightarrow> nat \<Rightarrow> dev_ops \<Rightarrow> AT_DEVICE_T \<Rightarrow> bool" where
  "dev_ok asleep d ops th \<longleftrightarrow> dev_ops th = ops \<and> dev_recv th = Some d \<and> dev_sleep th = asleep"

text \<open>The two devices of the program, with what each of them does.\<close>

definition sys_shape :: "bool \<Rightarrow> bool \<Rightarrow> dev_system \<Rightarrow> bool" where
  "sys_shape a0 a1 s \<longleftrightarrow> lp_ok (ds_lp s) \<and> lp_devices (ds_lp s) = [Some 0, Some 1] \<and> ds_uart s = Some 0 \<and> ds_usb s = Some 1 \<and>
     set (ds_posted s) \<subseteq> {0, 1} \<and> lock_run False (ds_calls s) = Some (\<not> (a0 \<and> a1)) \<and> (\<exists>u b. ds_devs s = [u, b] \<and> dev_ok a0 0 UartOps u \<and> dev_ok a1 1 UsbOps b)"

definition sys_ok :: "dev_system \<Rightarrow> bool" where
  "sys_ok s \<longleftrightarrow> sys_shape (lpcurr (ds_lp s)) (lpcurr (ds_lp s)) s"

lemma dev_ok_sleep:
  assumes "ops \<noteq> NoOps" "dev_ok a d ops th"
  shows "dev_ok True d ops (at_DeviceSleep w th)" "dev_ok False d ops (at_DeviceWakeup th)"
  using assms by (cases ops; auto simp: dev_ok_def at_DeviceSleep_def at_UartSleep_def at_UsbSleep_def at_DeviceWakeup_def
      at_UartWakeup_def at_UsbWakeup_def devcall_def)+

lemma sleep_device_calls:
  assumes "dev_ops th \<noteq> NoOps"
  shows "dev_calls (at_DeviceSleep w th) = dev_calls th @ (if dev_sleep th then [] else [WakeUnlock])"
    "dev_calls (at_DeviceWakeup th) = dev_calls th @ (if dev_sleep th then [WakeLock] else [])"
  using assms by (cases "dev_ops th"; simp add: at_DeviceSleep_def at_UartSleep_def at_UsbSleep_def at_DeviceWakeup_def
      at_UartWakeup_def at_UsbWakeup_def devcall_def)+

lemma on_device_sel [simp]:
  "ds_lp (on_device d f s) = ds_lp s" "ds_uart (on_device d f s) = ds_uart s" "ds_usb (on_device d f s) = ds_usb s"
  "ds_posted (on_device d f s) = ds_posted s"
  by (simp_all add: on_device_def Let_def)

lemma lp_perform_sel [simp]:
  "ds_lp (fold lp_perform k s) = ds_lp s" "ds_uart (fold lp_perform k s) = ds_uart s" "ds_usb (fold lp_perform k s) = ds_usb s"
  "ds_posted (fold lp_perform k s) = ds_posted s"
proof -
  have "ds_lp (lp_perform c s) = ds_lp s \<and> ds_uart (lp_perform c s) = ds_uart s \<and> ds_usb (lp_perform c s) = ds_usb s \<and>
      ds_posted (lp_perform c s) = ds_posted s" for c s
    by (cases c) simp_all
  then show "ds_lp (fold lp_perform k s) = ds_lp s" "ds_uart (fold lp_perform k s) = ds_uart s" "ds_usb (fold lp_perform k s) = ds_usb s"
    "ds_posted (fold lp_perform k s) = ds_posted s"
    by (induction k arbitrary: s) simp_all
qed

text \<open>What an operation of the low power control does to the two devices.\<close>

definition lp_moves :: "(AT_LP_CTRL_CONTEXT \<Rightarrow> AT_LP_CTRL_CONTEXT) \<Rightarrow> AT_LP_CTRL_CONTEXT \<Rightarrow> bool" where
  "lp_moves f lp \<longleftrightarrow> lp_devices (f lp) = lp_devices lp \<and>
     (\<exists>k. lp_calls (f lp) = lp_calls lp @ k \<and> filter (\<lambda>c. case c of DeviceSleep _ _ \<Rightarrow> True | DeviceWakeup _ \<Rightarrow> True | _ \<Rightarrow> False) k =
       (if lpcurr (f lp) = lpcurr lp then []
        else map (if lpcurr (f lp) then (\<lambda>d. DeviceSleep d (lp_mode lp = AT_LP_CTRL_BY_RX)) else DeviceWakeup)
          (concat (map (case_option [] (\<lambda>d. [d])) (lp_devices lp)))))"

lemma perform_filter:
  "fold lp_perform k s =
   fold lp_perform (filter (\<lambda>c. case c of DeviceSleep _ _ \<Rightarrow> True | DeviceWakeup _ \<Rightarrow> True | _ \<Rightarrow> False) k) s"
  by (induction k arbitrary: s) (auto split: lp_call.split)

lemma with_lp_shape:
  assumes "sys_shape a0 a1 s" "lp_moves f (ds_lp s)" "lp_ok (f (ds_lp s))"
    and "lpcurr (f (ds_lp s)) = lpcurr (ds_lp s) \<Longrightarrow> a0 = lpcurr (ds_lp s) \<and> a1 = lpcurr (ds_lp s)"
  shows "sys_ok (with_lp f s) \<and> ds_lp (with_lp f s) = f (ds_lp s) \<and> ds_posted (with_lp f s) = ds_posted s"
proof -
  obtain u b where d: "ds_devs s = [u, b]" "dev_ok a0 0 UartOps u" "dev_ok a1 1 UsbOps b"
    "lp_devices (ds_lp s) = [Some 0, Some 1]" "lock_run False (ds_calls s) = Some (\<not> (a0 \<and> a1))"
    using assms(1) by (auto simp: sys_shape_def)
  obtain k where k: "lp_calls (f (ds_lp s)) = lp_calls (ds_lp s) @ k"
    "filter (\<lambda>c. case c of DeviceSleep _ _ \<Rightarrow> True | DeviceWakeup _ \<Rightarrow> True | _ \<Rightarrow> False) k =
       (if lpcurr (f (ds_lp s)) = lpcurr (ds_lp s) then []
        else map (if lpcurr (f (ds_lp s)) then (\<lambda>d. DeviceSleep d (lp_mode (ds_lp s) = AT_LP_CTRL_BY_RX)) else DeviceWakeup) [0, 1])"
    using assms(2) unfolding lp_moves_def d(4) by auto
  let ?s = "s\<lparr>ds_lp := f (ds_lp s)\<rparr>"
  have ops: "dev_ops u \<noteq> NoOps" "dev_ops b \<noteq> NoOps" "dev_sleep u = a0" "dev_sleep b = a1"
    using d(2,3) by (auto simp: dev_ok_def)
  have devs: "\<exists>u' b'. ds_devs (fold lp_perform k ?s) = [u', b'] \<and> dev_ok (lpcurr (f (ds_lp s))) 0 UartOps u' \<and>
      dev_ok (lpcurr (f (ds_lp s))) 1 UsbOps b' \<and> lock_run False (ds_calls (fold lp_perform k ?s)) = Some (\<not> lpcurr (f (ds_lp s)))"
    using d(1,5) dev_ok_sleep [OF _ d(2)] dev_ok_sleep [OF _ d(3)] sleep_device_calls [OF ops(1)] sleep_device_calls [OF ops(2)]
      d(2,3) ops(3,4) assms(4)
    unfolding perform_filter [of k] k(2) by (auto simp: on_device_def Let_def lock_run_append)
  have "lp_devices (f (ds_lp s)) = [Some 0, Some 1]" using assms(2) d(4) by (simp add: lp_moves_def)
  then show ?thesis using assms(1,3) devs d(1) k(1) by (auto simp: sys_ok_def sys_shape_def with_lp_def Let_def)
qed

lemmas with_lp_ok = with_lp_shape [OF iffD1 [OF sys_ok_def]]

lemma moves_sleep: "lp_moves (at_LpCtrlSetDeviceSleep lp) s"
  by (auto simp: lp_moves_def at_LpCtrlSetDeviceSleep_def Let_def filter_map comp_def split: option.splits
      intro!: filter_True)

lemma moves_then:
  assumes "lp_moves f s" "lp_devices (g (f s)) = lp_devices (f s)" "lpcurr (g (f s)) = lpcurr (f s)"
    "\<exists>k. lp_calls (g (f s)) = lp_calls (f s) @ k \<and> (\<forall>c \<in> set k. \<forall>d w. c \<noteq> DeviceSleep d w \<and> c \<noteq> DeviceWakeup d)"
  shows "lp_moves (\<lambda>s. g (f s)) s"
proof -
  obtain k where k: "lp_calls (g (f s)) = lp_calls (f s) @ k" "\<forall>c \<in> set k. \<forall>d w. c \<noteq> DeviceSleep d w \<and> c \<noteq> DeviceWakeup d"
    using assms(4) by blast
  have "filter (\<lambda>c. case c of DeviceSleep _ _ \<Rightarrow> True | DeviceWakeup _ \<Rightarrow> True | _ \<Rightarrow> False) k = []"
    using k(2) by (auto simp: filter_empty_conv split: lp_call.splits)
  then show ?thesis using assms(1-3) k(1) unfolding lp_moves_def by auto
qed

lemma moves_restart: "lp_moves f s \<Longrightarrow> lp_moves (\<lambda>s. restart_timer (f s)) s"
  by (rule moves_then) (auto simp: restart_timer_def lpcall_def Let_def)

lemma moves_id: "lp_moves (\<lambda>s. s) s"
  by (simp add: lp_moves_def)

lemma lp_moves_cong: "lp_moves f s \<Longrightarrow> g s = f s \<Longrightarrow> lp_moves g s"
  unfolding lp_moves_def by (simp only:)

lemma lp_op_moves:
  assumes "lp_ok s"
  shows "lp_moves at_LpCtrlTimeout s" "lp_moves at_LpCtrlInputReceived s" "lp_moves (snd \<circ> at_LpCtrlOutputRequest) s"
    "lp_moves (snd \<circ> at_LpCtrlSetMode m) s"
proof -
  show "lp_moves at_LpCtrlTimeout s"
    by (rule lp_moves_cong [OF moves_sleep [of "lpnext s" s]]) (simp add: at_LpCtrlTimeout_def)
  show "lp_moves at_LpCtrlInputReceived s"
    using lp_moves_cong [OF moves_id [of s]] lp_moves_cong [OF moves_restart [OF moves_sleep [of False s]]]
    by (cases "lp_mode s = AT_LP_CTRL_BY_RX") (auto simp: at_LpCtrlInputReceived_def)
  show "lp_moves (snd \<circ> at_LpCtrlOutputRequest) s"
    using lp_moves_cong [OF moves_sleep [of False s]] lp_moves_cong [OF moves_restart [OF moves_sleep [of False s]]]
    by (cases "lp_mode s = AT_LP_CTRL_BY_RX") (auto simp: at_LpCtrlOutputRequest_def Let_def)
  show "lp_moves (snd \<circ> at_LpCtrlSetMode m) s"
  proof (cases "m = lp_mode s")
    case True
    then show ?thesis using lp_moves_cong [OF moves_id [of s]] by (simp add: at_LpCtrlSetMode_def)
  next
    case False
    define t where "t = (if isActive s then (lpcall TimerDeactive s)\<lparr>isActive := False\<rparr> else s)"
    have t: "lp_devices t = lp_devices s" "lpcurr t = lpcurr s" "lp_moves (\<lambda>_. t) s"
      by (auto simp: t_def lpcall_def lp_moves_def)
    have e: "snd (at_LpCtrlSetMode m s) = (if m = AT_LP_CTRL_BY_RX
        then (lpcall TimerActive (t\<lparr>lp_mode := m, lpnext := True\<rparr>))\<lparr>isActive := True\<rparr>
        else at_LpCtrlSetDeviceSleep False (t\<lparr>lp_mode := m, lpnext := False\<rparr>))"
      using False by (simp add: at_LpCtrlSetMode_def t_def Let_def)
    show ?thesis
    proof (cases "m = AT_LP_CTRL_BY_RX")
      case True
      then show ?thesis using e t by (auto simp: lp_moves_def lpcall_def)
    next
      case other: False
      obtain k where k: "lp_calls t = lp_calls s @ k" "k = [] \<or> k = [TimerDeactive]"
        by (cases "isActive s") (auto simp: t_def lpcall_def)
      show ?thesis using e other t(1,2) k moves_sleep [of False "t\<lparr>lp_mode := m, lpnext := False\<rparr>"]
        by (auto simp: lp_moves_def)
    qed
  qed
qed

lemma with_lp_op_ok:
  assumes "sys_ok s"
  shows "sys_ok (with_lp at_LpCtrlTimeout s)" "sys_ok (with_lp at_LpCtrlInputReceived s)"
    "sys_ok (with_lp (snd \<circ> at_LpCtrlOutputRequest) s)" "sys_ok (with_lp (snd \<circ> at_LpCtrlSetMode m) s)"
proof -
  have l: "lp_ok (ds_lp s)" using assms by (simp add: sys_ok_def sys_shape_def)
  have o: "lp_ok (at_LpCtrlTimeout (ds_lp s))" "lp_ok (at_LpCtrlInputReceived (ds_lp s))"
    "lp_ok ((snd \<circ> at_LpCtrlOutputRequest) (ds_lp s))" "lp_ok ((snd \<circ> at_LpCtrlSetMode m) (ds_lp s))"
    using lp_exec_ok [OF l, of LpTimeout] lp_exec_ok [OF l, of LpInput] lp_exec_ok [OF l, of LpOutput] lp_exec_ok [OF l, of "LpMode m"]
    by simp_all
  show "sys_ok (with_lp at_LpCtrlTimeout s)" "sys_ok (with_lp at_LpCtrlInputReceived s)"
    "sys_ok (with_lp (snd \<circ> at_LpCtrlOutputRequest) s)" "sys_ok (with_lp (snd \<circ> at_LpCtrlSetMode m) s)"
    using with_lp_ok [OF assms lp_op_moves(1) [OF l] o(1)] with_lp_ok [OF assms lp_op_moves(2) [OF l] o(2)]
      with_lp_ok [OF assms lp_op_moves(3) [OF l] o(3)] with_lp_ok [OF assms lp_op_moves(4) [OF l] o(4)] by blast+
qed

text \<open>What a device does to the lock.\<close>

definition moves_lock :: "bool \<Rightarrow> bool \<Rightarrow> (AT_DEVICE_T \<Rightarrow> AT_DEVICE_T) \<Rightarrow> AT_DEVICE_T \<Rightarrow> bool" where
  "moves_lock l l' f th \<longleftrightarrow> (\<exists>k. dev_calls (f th) = dev_calls th @ k \<and> lock_run l k = Some l')"

lemma dev_ok_io:
  assumes "dev_ok a d ops th" "ops \<noteq> NoOps"
  shows "dev_ok a d ops (snd (at_DeviceRead avail n th)) \<and> moves_lock (\<not> a) (\<not> a) (snd \<circ> at_DeviceRead avail n) th"
    "dev_ok a d ops (at_DeviceSetFormat de i nt baud fmt parity th) \<and> moves_lock l l (at_DeviceSetFormat de i nt baud fmt parity) th"
    "dev_ok a d ops (snd (at_DeviceSetFlowCtrl de i nt th)) \<and> moves_lock l l (snd \<circ> at_DeviceSetFlowCtrl de i nt) th"
    "dev_ok a d ops (devcall (DrvWrite data) th) \<and> moves_lock True True (devcall (DrvWrite data)) th"
    "\<not> a \<Longrightarrow> 0 < n \<Longrightarrow> at_DeviceRead avail n th = (take n avail, devcall (DrvRead n) th)"
    "a \<Longrightarrow> at_DeviceRead avail n th = ([], th)"
  using assms by (cases ops; auto simp: dev_ok_def moves_lock_def at_DeviceRead_def at_UartRead_def at_UsbRead_def at_DeviceSetFormat_def
      at_UartSetFormat_def at_UsbSetFormat_def at_UartReopen_def at_DeviceSetFlowCtrl_def at_UartSetFlowCtrl_def
      at_UsbSetFlowCtrl_def at_UsbReopen_def devcall_def Let_def)+

lemma wakeup_lock: "dev_ok a d ops th \<Longrightarrow> ops \<noteq> NoOps \<Longrightarrow> (\<not> a \<longrightarrow> l) \<Longrightarrow> moves_lock l True at_DeviceWakeup th"
  using sleep_device_calls(2) [of th] by (auto simp: moves_lock_def dev_ok_def)

lemma on_device_shape:
  assumes "sys_shape a0 a1 s" "d = 0 \<or> d = 1"
    and "\<And>ops th a. ops \<noteq> NoOps \<Longrightarrow> a = (if d = 0 then a0 else a1) \<Longrightarrow> dev_ok a d ops th \<Longrightarrow>
      dev_ok c d ops (f th) \<and> moves_lock (\<not> (a0 \<and> a1)) (\<not> ((if d = 0 then c else a0) \<and> (if d = 1 then c else a1))) f th"
  shows "sys_shape (if d = 0 then c else a0) (if d = 1 then c else a1) (on_device d f s)"
proof -
  obtain u b where d: "ds_devs s = [u, b]" "dev_ok a0 0 UartOps u" "dev_ok a1 1 UsbOps b" "lock_run False (ds_calls s) = Some (\<not> (a0 \<and> a1))"
    using assms(1) by (auto simp: sys_shape_def)
  show ?thesis
  proof (cases "d = 0")
    case True
    then show ?thesis
      using assms(1) d assms(3) [of UartOps a0 u] by (auto simp: sys_shape_def on_device_def moves_lock_def Let_def lock_run_append)
  next
    case False
    then show ?thesis
      using assms(1,2) d assms(3) [of UsbOps a1 b] by (auto simp: sys_shape_def on_device_def moves_lock_def Let_def lock_run_append)
  qed
qed

lemma input_event_ok:
  assumes "sys_ok s" "d = 0 \<or> d = 1"
  shows "sys_ok (input_event (Some d) s) \<and> \<not> lpcurr (ds_lp (input_event (Some d) s)) \<and>
    ds_posted (input_event (Some d) s) = ds_posted s @ [d] \<and> ds_lp (input_event (Some d) s) = at_LpCtrlInputReceived (ds_lp s)"
proof -
  let ?c = "lpcurr (ds_lp s)"
  let ?s = "on_device d at_DeviceWakeup s"
  have sh: "sys_shape (if d = 0 then False else ?c) (if d = 1 then False else ?c) ?s"
    using assms by (intro on_device_shape) (auto simp: sys_ok_def intro: dev_ok_sleep wakeup_lock)
  have rec: "dev_recv (ds_devs ?s ! d) = Some d"
    using sh assms(2) by (auto simp: sys_shape_def dev_ok_def)
  let ?t = "at_DeviceScheduleRead d ?s"
  have t: "?t = ?s\<lparr>ds_posted := ds_posted ?s @ [d]\<rparr>" using rec by (simp add: at_DeviceScheduleRead_def del: on_device_sel)
  have sh': "sys_shape (if d = 0 then False else ?c) (if d = 1 then False else ?c) ?t"
    using sh assms(2) unfolding t by (auto simp: sys_shape_def)
  have lp: "lp_ok (ds_lp s)" using assms(1) by (simp add: sys_ok_def sys_shape_def)
  have cur: "\<not> lpcurr (at_LpCtrlInputReceived (ds_lp s))" "lpcurr (ds_lp s) \<Longrightarrow> lp_mode (ds_lp s) = AT_LP_CTRL_BY_RX"
    using lp by (auto simp: at_LpCtrlInputReceived_def lp_ok_def split: if_splits)
  have o: "lp_ok (at_LpCtrlInputReceived (ds_lp s))" using lp_exec_ok [OF lp, of LpInput] by simp
  have "sys_ok (with_lp at_LpCtrlInputReceived ?t) \<and> ds_lp (with_lp at_LpCtrlInputReceived ?t) = at_LpCtrlInputReceived (ds_lp ?t) \<and>
      ds_posted (with_lp at_LpCtrlInputReceived ?t) = ds_posted ?t"
    using cur lp_op_moves(2) [OF lp] o unfolding t
    by (intro with_lp_shape [OF sh' [unfolded t]]) auto
  then show ?thesis using cur t by (simp add: input_event_def)
qed

lemma with_lp_same:
  assumes "lp_moves f (ds_lp s)" "lpcurr (f (ds_lp s)) = lpcurr (ds_lp s)"
  shows "with_lp f s = s\<lparr>ds_lp := f (ds_lp s)\<rparr>"
proof -
  obtain k where "lp_calls (f (ds_lp s)) = lp_calls (ds_lp s) @ k"
    "filter (\<lambda>c. case c of DeviceSleep _ _ \<Rightarrow> True | DeviceWakeup _ \<Rightarrow> True | _ \<Rightarrow> False) k = []"
    using assms unfolding lp_moves_def by auto
  then show ?thesis using perform_filter [of k "s\<lparr>ds_lp := f (ds_lp s)\<rparr>"] by (simp add: with_lp_def Let_def)
qed

lemma on_device_ok:
  assumes "sys_ok s" "\<And>ops th. ops \<noteq> NoOps \<Longrightarrow> dev_ok (lpcurr (ds_lp s)) d ops th \<Longrightarrow>
    dev_ok (lpcurr (ds_lp s)) d ops (f th) \<and> moves_lock (\<not> lpcurr (ds_lp s)) (\<not> lpcurr (ds_lp s)) f th"
  shows "sys_ok (on_device d f s)"
proof (cases "d = 0 \<or> d = 1")
  case True
  show ?thesis
    using on_device_shape [OF assms(1) [unfolded sys_ok_def] True, of "lpcurr (ds_lp s)" f] assms(2) by (simp add: sys_ok_def)
next
  case False
  then have "on_device d f s = s"
    using assms(1) by (auto simp: sys_ok_def sys_shape_def on_device_def)
  then show ?thesis using assms(1) by simp
qed

lemma task_read_ok:
  assumes "sys_ok s"
  shows "sys_ok (snd (task_read avail n s)) \<and> ds_lp (snd (task_read avail n s)) = ds_lp s"
proof (cases "ds_posted s")
  case (Cons ch cs)
  obtain b th where r: "at_DeviceRead avail n (ds_devs s ! ch) = (b, th)" by fastforce
  let ?s = "s\<lparr>ds_posted := cs\<rparr>"
  have ok: "sys_ok ?s" using assms Cons by (auto simp: sys_ok_def sys_shape_def)
  have "on_device ch (\<lambda>_. th) ?s = on_device ch (snd \<circ> at_DeviceRead avail n) ?s"
    using r by (simp add: on_device_def)
  then have "snd (task_read avail n s) = on_device ch (snd \<circ> at_DeviceRead avail n) ?s" using Cons r by (simp add: task_read_def)
  moreover have "sys_ok (on_device ch (snd \<circ> at_DeviceRead avail n) ?s)"
    using ok by (rule on_device_ok) (use dev_ok_io(1) in auto)
  ultimately show ?thesis by simp
qed (use assms in \<open>simp add: task_read_def\<close>)

lemma write_ok:
  assumes "sys_ok s" "d < length (ds_devs s)"
  shows "sys_ok (snd (at_DeviceWrite k d data s)) \<and>
    (data \<noteq> [] \<longrightarrow> \<not> lpcurr (ds_lp (snd (at_DeviceWrite k d data s))))"
proof -
  let ?t = "with_lp (snd \<circ> at_LpCtrlOutputRequest) s"
  have ops: "dev_ops (ds_devs s ! d) \<noteq> NoOps" using assms by (auto simp: sys_ok_def sys_shape_def dev_ok_def less_Suc_eq)
  have w: "snd (at_DeviceWrite k d data s) = snd (drv_write k d data s)"
    using ops by (cases "dev_ops (ds_devs s ! d)") (simp_all add: at_DeviceWrite_def at_UartWrite_def at_UsbWrite_def)
  have t: "sys_ok ?t" using with_lp_op_ok(3) [OF assms(1)] .
  have cur: "\<not> lpcurr (ds_lp ?t)" by (simp add: with_lp_def at_LpCtrlOutputRequest_def Let_def)
  have "sys_ok (on_device d (devcall (DrvWrite data)) ?t)"
    using t by (rule on_device_ok) (use cur dev_ok_io(4) in auto)
  then show ?thesis using w assms(1) cur by (simp add: drv_write_def Let_def)
qed

lemma dev_exec_ok:
  assumes "sys_ok s"
  shows "sys_ok (dev_exec ev s)"
proof -
  have u: "ds_uart s = Some 0" "ds_usb s = Some 1" using assms by (auto simp: sys_ok_def sys_shape_def)
  show ?thesis
  proof (cases ev)
    case (DevFormat d de i n baud fmt parity)
    then show ?thesis using assms by (simp only: dev_exec.simps) (rule on_device_ok, simp_all add: dev_ok_io(2))
  next
    case (DevFlow d de i n)
    then show ?thesis using assms by (simp only: dev_exec.simps) (rule on_device_ok, use dev_ok_io(3) in auto)
  qed (use assms u input_event_ok [OF assms] task_read_ok [OF assms] write_ok [OF assms] with_lp_op_ok [OF assms] in
      \<open>simp_all add: at_UartCallback_def at_UsbCallback_def\<close>)
qed

lemma dev_run_ok: "sys_ok s \<Longrightarrow> sys_ok (fold dev_exec evs s)"
  by (induction evs arbitrary: s) (auto intro: dev_exec_ok)

lemma started_ok: "sys_ok (devices_started (True, True) b baud k sleepMode)"
proof -
  define lp where "lp = at_LpCtrlInit sleepMode [None, None]"
  have ok: "lp_ok lp" unfolding lp_def by (rule lp_init_ok) simp
  have d: "lp_devices lp = [None, None]" "\<not> lpcurr lp"
    by (simp_all add: lp_def at_LpCtrlInit_def at_LpCtrlSetMode_def Let_def lpcall_def at_LpCtrlSetDeviceSleep_def)
  define lp1 where "lp1 = snd (at_LpCtrlOutputRequest lp)"
  have ok1: "lp_ok lp1" using lp_exec_ok [OF ok, of LpOutput] by (simp add: lp1_def)
  have d1: "lp_devices lp1 = [None, None]" "\<not> lpcurr lp1"
    using d by (simp_all add: lp1_def at_LpCtrlOutputRequest_def Let_def)
  have w: "with_lp (snd \<circ> at_LpCtrlOutputRequest) s = s\<lparr>ds_lp := lp1\<rparr>" if "ds_lp s = lp" for s
    using with_lp_same [of "snd \<circ> at_LpCtrlOutputRequest" s] lp_op_moves(3) [OF ok] d1(2) d(2) that by (simp add: lp1_def)
  have a: "with_lp (snd \<circ> at_LpCtrlSetDevice i) s = s\<lparr>ds_lp := ds_lp s\<lparr>lp_devices := ds\<rparr>\<rparr>"
    if "set_device i (lp_devices (ds_lp s)) = Some ds" for i s ds
    using that by (simp add: with_lp_def at_LpCtrlSetDevice_def Let_def)
  have ok2: "lp_ok (lp1\<lparr>lp_devices := [Some 0, Some 1]\<rparr>)" using ok1 by (simp add: lp_ok_def)
  show ?thesis
    unfolding devices_started_def lp_def [symmetric]
    by (cases "fst b"; cases "snd b")
      (simp_all add: at_ModuleCreateUsbDevice_def at_ModuleCreateDefaultDevice_def at_UartWrite_def drv_write_def w a d1
        at_DeviceOpen_def at_UartCreate_def at_UsbCreate_def at_UartOpen_def at_UsbOpen_def Let_def devcall_def on_device_def
        sys_ok_def sys_shape_def dev_ok_def ok2 [simplified] RDY_STRING_def lock_run_append)
qed

definition dev_run :: "int \<Rightarrow> nat \<Rightarrow> nat \<Rightarrow> dev_event list \<Rightarrow> dev_system" where
  "dev_run baud k sleepMode evs = fold dev_exec evs (devices_started (True, True) (True, True) baud k sleepMode)"

text \<open>C16: from the start on, when the serial port could be opened (whether the USB port could be or not), and over any
  sequence of events of the drivers, reads, writes, time-outs, changes of the mode, the format and the flow control: each
  port sleeps exactly when the low power control has put the devices to sleep, which it only does in the mode by input; the
  one lock of both ports against suspension is held exactly while they are awake, the last call of it decides; and no driver
  is ever asked to read or write without it.\<close>

theorem devices_hold_lock:
  assumes "t = fold dev_exec evs (devices_started (True, True) usb_opened baud k sleepMode)"
  shows "(\<exists>u b. ds_devs t = [u, b] \<and> dev_sleep u = lpcurr (ds_lp t) \<and> dev_sleep b = lpcurr (ds_lp t)) \<and>
    lock_run False (ds_calls t) = Some (\<not> lpcurr (ds_lp t)) \<and>
    (lpcurr (ds_lp t) \<longrightarrow> lp_mode (ds_lp t) = AT_LP_CTRL_BY_RX)"
proof -
  have "sys_ok t" unfolding assms by (rule dev_run_ok [OF started_ok])
  then show ?thesis by (auto simp: sys_ok_def sys_shape_def dev_ok_def lp_ok_def split: if_splits)
qed

theorem devices_hold_lock_witness:
  "\<exists>t. t = fold dev_exec [DevTimeout] (devices_started (True, True) (False, False) 115200 7 2) \<and>
    (\<exists>u b. ds_devs t = [u, b] \<and> dev_sleep u \<and> dev_sleep b) \<and> lock_run False (ds_calls t) = Some False"
proof -
  let ?t = "fold dev_exec [DevTimeout] (devices_started (True, True) (False, False) 115200 7 2)"
  have "lpcurr (ds_lp ?t)" by code_simp
  then show ?thesis using devices_hold_lock [of ?t "[DevTimeout]" "(False, False)" 115200 7 2] by auto
qed

text \<open>C17: when a driver has data and no read is waiting, the read that the AT task makes next gets them; but in the
  mode by input a time-out before the task comes to it (the task runs the handlers of the commands, which
  may take longer than the 3.5 seconds) puts the port to sleep, and the read gives nothing and does not
  ask the driver: the data stay there until more arrive.\<close>

theorem input_is_read:
  assumes "s = dev_run baud k sleepMode evs" "ds_posted s = []" "0 < n" "(d :: nat) = 0 \<and> ev = DevUart EVT_DATA_TO_READ \<or> d = 1 \<and> ev = DevUsb EVT_DATA_TO_READ"
  shows "fst (task_read avail n (dev_exec ev s)) = take n avail \<and>
    (lp_mode (ds_lp s) = AT_LP_CTRL_BY_RX \<longrightarrow>
      fst (task_read avail n (dev_exec DevTimeout (dev_exec ev s))) = [] \<and>
      ds_devs (snd (task_read avail n (dev_exec DevTimeout (dev_exec ev s)))) = ds_devs (dev_exec DevTimeout (dev_exec ev s)) \<and>
      ds_posted (snd (task_read avail n (dev_exec DevTimeout (dev_exec ev s)))) = [])"
proof -
  have ok: "sys_ok s" unfolding assms(1) dev_run_def by (rule dev_run_ok [OF started_ok])
  then have u: "ds_uart s = Some 0" "ds_usb s = Some 1" by (auto simp: sys_ok_def sys_shape_def)
  have d: "d = 0 \<or> d = 1" using assms(4) by blast
  let ?t = "input_event (Some d) s"
  have e: "dev_exec ev s = ?t" using assms(4) u by (auto simp: at_UartCallback_def at_UsbCallback_def)
  have t: "sys_ok ?t" "\<not> lpcurr (ds_lp ?t)" "ds_posted ?t = [d]" using input_event_ok [OF ok d] assms(2) by auto
  have dt: "dev_ok False d (dev_ops (ds_devs ?t ! d)) (ds_devs ?t ! d) \<and> dev_ops (ds_devs ?t ! d) \<noteq> NoOps"
    using t(1,2) d by (auto simp: sys_ok_def sys_shape_def dev_ok_def)
  then have 1: "fst (task_read avail n ?t) = take n avail"
    using dev_ok_io(5) [of False d "dev_ops (ds_devs ?t ! d)" "ds_devs ?t ! d" n avail] t(3) assms(3) by (simp add: task_read_def)
  have 2: "fst (task_read avail n r) = [] \<and> ds_devs (snd (task_read avail n r)) = ds_devs r \<and> ds_posted (snd (task_read avail n r)) = []"
    if m: "lp_mode (ds_lp s) = AT_LP_CTRL_BY_RX" and r: "r = with_lp at_LpCtrlTimeout ?t" for r
  proof -
    have l: "lp_ok (ds_lp ?t)" "lp_mode (ds_lp ?t) = AT_LP_CTRL_BY_RX"
      using t(1) m input_event_ok [OF ok d] by (auto simp: sys_ok_def sys_shape_def at_LpCtrlInputReceived_def)
    have o: "lp_ok (at_LpCtrlTimeout (ds_lp ?t))" using lp_exec_ok [OF l(1), of LpTimeout] by simp
    have w: "sys_ok r" "ds_lp r = at_LpCtrlTimeout (ds_lp ?t)" "ds_posted r = [d]"
      using with_lp_ok [OF t(1) lp_op_moves(1) [OF l(1)] o] t(3) unfolding r by auto
    have "lpcurr (ds_lp r)" using l w(2) by (simp add: at_LpCtrlTimeout_def lp_ok_def)
    then have dr: "dev_ok True d (dev_ops (ds_devs r ! d)) (ds_devs r ! d) \<and> dev_ops (ds_devs r ! d) \<noteq> NoOps"
      using w(1) d by (auto simp: sys_ok_def sys_shape_def dev_ok_def)
    then have "at_DeviceRead avail n (ds_devs r ! d) = ([], ds_devs r ! d)"
      using dev_ok_io(6) [of True d "dev_ops (ds_devs r ! d)" "ds_devs r ! d" avail n] by simp
    then show ?thesis using w(3) by (simp add: task_read_def on_device_def)
  qed
  show ?thesis using 1 2 e by simp
qed

theorem input_is_read_witness:
  "fst (task_read [0x41] 4 (dev_exec (DevUart EVT_DATA_TO_READ) (dev_run 115200 7 2 []))) = [0x41] \<and>
   fst (task_read [0x41] 4 (dev_exec DevTimeout (dev_exec (DevUart EVT_DATA_TO_READ) (dev_run 115200 7 2 [])))) = []"
proof -
  have "ds_posted (dev_run 115200 7 2 []) = [] \<and> lp_mode (ds_lp (dev_run 115200 7 2 [])) = AT_LP_CTRL_BY_RX" by code_simp
  then show ?thesis using input_is_read [of "dev_run 115200 7 2 []" 115200 7 2 "[]" 4 0 "DevUart EVT_DATA_TO_READ" "[0x41]"] by simp
qed

definition platform_bauds :: "int list" where
  "platform_bauds = [1200, 2400, 3600, 4800, 7200, 9600, 14400, 19200, 28800, 38400, 57600, 115200, 230400, 460800, 921600]"

text \<open>The rates. AT+IPR takes 33600, which the platform does not have (its enumeration goes from 28800 to 38400),
  and refuses 1843200, which its test form offers; and when the port cannot be opened again with the new
  format it stays closed and nobody is told.\<close>

theorem rates_and_reopening:
  "{b \<in> set platform_bauds \<union> {33600, 1843200}. at_UartIsBaudSupported b} = set platform_bauds - {3600, 7200} \<union> {33600} \<and>
   (dev_ops th = UartOps \<longrightarrow> (\<exists>pre. dev_calls (at_DeviceSetFormat True False ok baud fmt parity th) =
      pre @ [DrvSleep 100, DrvDeinit, DrvInit (drvcfg_of baud fmt parity)]))"
proof
  show "{b \<in> set platform_bauds \<union> {33600, 1843200}. at_UartIsBaudSupported b} = set platform_bauds - {3600, 7200} \<union> {33600}"
    by (auto simp: platform_bauds_def at_UartIsBaudSupported_def)
  show "dev_ops th = UartOps \<longrightarrow> (\<exists>pre. dev_calls (at_DeviceSetFormat True False ok baud fmt parity th) =
      pre @ [DrvSleep 100, DrvDeinit, DrvInit (drvcfg_of baud fmt parity)])"
    by (auto simp: at_DeviceSetFormat_def at_UartSetFormat_def at_UartReopen_def devcall_def Let_def)
qed

end
