(* ===== verification/Engine_Write.thy ===== *)
theory Engine_Write
  imports Dispatch
begin

text \<open>
  The ends of the engines: what they write through their channel or through a channel that is named,
  the input in bypass mode, and their release (the last functions of at_cmd_engine.c and
  at_data_engine.c), over the list of channels of the dispatch layer.
\<close>

section \<open>Writing\<close>

definition on_channel :: "nat \<Rightarrow> (AT_DISPATCH_T \<Rightarrow> AT_DISPATCH_T) \<Rightarrow> channel_list \<Rightarrow> channel_list" where
  "on_channel p f head = map (\<lambda>(q, d). if q = p then (q, f d) else (q, d)) head"

definition write_in_mode :: "DISPATCH_MODE \<Rightarrow> bytes \<Rightarrow> nat \<Rightarrow> channel_list \<Rightarrow> channel_list" where
  "write_in_mode m data p head = on_channel p (\<lambda>d. if d_mode d = m then at_DispatchWrite data d else d) head"

text \<open>The engine of a channel is given by the address of the channel.\<close>

definition at_CmdWrite :: "nat option \<Rightarrow> bytes \<Rightarrow> channel_list \<Rightarrow> channel_list" where
  "at_CmdWrite dispatch data head =
     (case dispatch of None \<Rightarrow> head | Some p \<Rightarrow> write_in_mode DISPATCH_MODE_CMD data p head)"

definition at_CmdChannelWrite :: "bytes \<Rightarrow> int \<Rightarrow> channel_list \<Rightarrow> channel_list" where
  "at_CmdChannelWrite data channel head =
     (case at_DispatchGetByChannel channel head of None \<Rightarrow> head
      | Some p \<Rightarrow> write_in_mode DISPATCH_MODE_CMD data p head)"

definition at_CmdDirectWrite :: "bytes \<Rightarrow> channel_list \<Rightarrow> channel_list" where
  "at_CmdDirectWrite data head =
     (case at_DispatchGetByChannel (-1) head of None \<Rightarrow> head
      | Some p \<Rightarrow> write_in_mode DISPATCH_MODE_CMD data p head)"

definition at_DataChannelWrite :: "bytes \<Rightarrow> int \<Rightarrow> channel_list \<Rightarrow> channel_list" where
  "at_DataChannelWrite data channel head =
     (case at_DispatchGetByChannel channel head of None \<Rightarrow> head
      | Some p \<Rightarrow> write_in_mode DISPATCH_MODE_DATA data p head)"

section \<open>Release\<close>

datatype engine_block = EngineBuffer | EngineObject

definition at_CmdEngineDestroy :: "AT_CMD_ENGINE_T option \<Rightarrow> engine_block list" where
  "at_CmdEngineDestroy th = (if th = None then [] else [EngineBuffer, EngineObject])"

definition at_DataEngineDestroy :: "AT_DATA_ENGINE_T option \<Rightarrow> engine_block list" where
  "at_DataEngineDestroy th = (if th = None then [] else [EngineBuffer, EngineObject])"

section \<open>Where a write goes\<close>

lemma find_channel:
  "at_DispatchFindByChannel ch head = Some p \<Longrightarrow> \<exists>d. (p, d) \<in> set head \<and> channelId d = ch"
  by (induction head) (auto split: if_splits)

lemma find_channel_None:
  "at_DispatchFindByChannel ch head = None \<longleftrightarrow> (\<forall>(p, d) \<in> set head. channelId d \<noteq> ch)"
  by (induction head) auto

lemma write_in_mode_out:
  assumes "distinct (map fst head)" "(p, d) \<in> set head"
  shows "write_in_mode m data p head =
    (if d_mode d = m then map (\<lambda>x. if x = (p, d) then (p, at_DispatchWrite data d) else x) head else head)"
proof -
  have u: "q = p \<Longrightarrow> (q, e) \<in> set head \<Longrightarrow> e = d" for q e
    using assms by (metis eq_key_imp_eq_value)
  show ?thesis unfolding write_in_mode_def on_channel_def using u by (auto intro!: map_cong map_idI split: if_splits)
qed

text \<open>The connection that a write goes to: the channel of that number, else the first channel of the list.\<close>

definition target_of :: "int \<Rightarrow> channel_list \<Rightarrow> (nat \<times> AT_DISPATCH_T) option" where
  "target_of ch head =
     (case find (\<lambda>(p, d). channelId d = ch) head of Some x \<Rightarrow> Some x
      | None \<Rightarrow> (case head of [] \<Rightarrow> None | x # _ \<Rightarrow> Some x))"

lemma GetByChannel_target: "at_DispatchGetByChannel ch head = map_option fst (target_of ch head)"
proof -
  have "at_DispatchFindByChannel ch head = map_option fst (find (\<lambda>(p, d). channelId d = ch) head)" for head
    by (induction head) auto
  then show ?thesis by (auto simp: at_DispatchGetByChannel_def target_of_def split: option.split list.split)
qed

lemma target_mem: "target_of ch head = Some x \<Longrightarrow> x \<in> set head"
  by (auto simp: target_of_def find_Some_iff in_set_conv_nth split: option.splits list.splits)

text \<open>C18: A write for a channel appears on that channel only, and only in the mode of the engine; a number that no
  channel has (one that was closed, or -1) means the first channel: what was meant for a closed
  connection is written there when it is in that mode.\<close>

theorem channel_write:
  assumes "distinct (map fst head)" "target_of ch head = Some (p, d)"
  shows "at_CmdChannelWrite data ch head =
      (if d_mode d = DISPATCH_MODE_CMD then map (\<lambda>x. if x = (p, d) then (p, at_DispatchWrite data d) else x) head else head) \<and>
    at_DataChannelWrite data ch head =
      (if d_mode d = DISPATCH_MODE_DATA then map (\<lambda>x. if x = (p, d) then (p, at_DispatchWrite data d) else x) head else head) \<and>
    at_CmdDirectWrite data head = at_CmdChannelWrite data (-1) head \<and>
    ((\<forall>(q, e) \<in> set head. channelId e \<noteq> ch) \<longrightarrow> (p, d) = hd head) \<and> ((\<exists>(q, e) \<in> set head. channelId e = ch) \<longrightarrow> channelId d = ch)"
proof -
  have "at_DispatchGetByChannel ch head = Some p" using assms(2) by (simp add: GetByChannel_target)
  moreover have "(\<forall>(q, e) \<in> set head. channelId e \<noteq> ch) \<longrightarrow> (p, d) = hd head"
    using assms(2) by (auto simp: target_of_def find_None_iff split: option.splits list.splits) (auto simp: find_Some_iff split_beta)
  moreover have "(\<exists>(q, e) \<in> set head. channelId e = ch) \<longrightarrow> channelId d = ch"
    using assms(2) by (auto simp: target_of_def find_None_iff find_Some_iff split: option.splits list.splits)
  ultimately show ?thesis
    using write_in_mode_out [OF assms(1) target_mem [OF assms(2)]]
    by (simp add: at_CmdChannelWrite_def at_DataChannelWrite_def at_CmdDirectWrite_def)
qed

definition demo_channel :: "nat \<Rightarrow> int \<Rightarrow> AT_DISPATCH_T" where
  "demo_channel self ch =
     (fst (at_DispatchCreate self (Some 0) 0 None 0 0 (replicate 32 0) (at_CmdEngineCreate [] [] []) []))\<lparr>channelId := ch\<rparr>"

theorem channel_write_witness:
  "at_CmdChannelWrite [0x41] 66 [(7, demo_channel 7 64), (8, demo_channel 8 65)] =
     [(7, at_DispatchWrite [0x41] (demo_channel 7 64)), (8, demo_channel 8 65)]"
proof -
  have t: "target_of 66 [(7, demo_channel 7 64), (8, demo_channel 8 65)] = Some (7, demo_channel 7 64)"
    by (simp add: target_of_def demo_channel_def)
  have "d_mode (demo_channel 7 64) = DISPATCH_MODE_CMD" by (simp add: demo_channel_def at_DispatchCreate_def Let_def)
  then show ?thesis
    using channel_write [of "[(7, demo_channel 7 64), (8, demo_channel 8 65)]" 66 7 "demo_channel 7 64" "[0x41]"] t by simp
qed

end
