(* ===== verification/A_Law.thy ===== *)
theory A_Law
  imports Prelude
begin

text \<open>
  Companding of audio samples (alawtolinear.c): a sample of 16 bits to a byte of the A-law and back.
  The values are those of the type int.
\<close>

unbundle bit_operations_syntax

section \<open>The code\<close>

definition seg_end :: "int list" where
  "seg_end = [0xFF, 0x1FF, 0x3FF, 0x7FF, 0xFFF, 0x1FFF, 0x3FFF, 0x7FFF]"

text \<open>The index of the first entry that is not smaller, the size of the table when all are.\<close>

fun search :: "int \<Rightarrow> int list \<Rightarrow> nat" where
  "search val [] = 0"
| "search val (x # xs) = (if val \<le> x then 0 else Suc (search val xs))"

definition linear2alaw :: "int \<Rightarrow> u8" where
  "linear2alaw pcm_val =
     (let (mask, v) = (if pcm_val \<ge> 0 then (0xD5, pcm_val) else (0x55, - pcm_val - 1));
          seg = search v seg_end in
      if seg \<ge> 8 then 0x7F XOR mask
      else
        let aval = push_bit 4 (of_nat seg) :: u8;
            aval = (if seg < 2 then aval OR of_int (drop_bit 4 v AND 0xf) else aval OR of_int (drop_bit (seg + 3) v AND 0xf))
        in aval XOR mask)"

definition alaw2linear :: "u8 \<Rightarrow> int" where
  "alaw2linear a_val =
     (let a_val = a_val XOR 0x55;
          t = push_bit 4 (uint (a_val AND 0xf));
          seg = unat (drop_bit 4 (a_val AND 0x70));
          t = (if seg = 0 then t + 8 else if seg = 1 then t + 0x108 else push_bit (seg - 1) (t + 0x108))
      in if a_val AND 0x80 \<noteq> 0 then t else - t)"

section \<open>Error\<close>

text \<open>The value of a code of a segment, without its sign, and the smallest sample of the segment.\<close>

definition level :: "nat \<Rightarrow> int \<Rightarrow> int" where
  "level seg q = (if seg = 0 then 16 * q + 8 else 2 ^ (seg - 1) * (16 * q + 264))"

definition step :: "nat \<Rightarrow> int" where
  "step seg = (if seg = 0 then 16 else 2 ^ (seg + 3))"

lemma decode_all:
  "list_all (\<lambda>seg. list_all (\<lambda>q.
     alaw2linear ((push_bit 4 (of_nat seg) OR of_int q) XOR 0xD5) = level seg q \<and>
     alaw2linear ((push_bit 4 (of_nat seg) OR of_int q) XOR 0x55) = - level seg q) [0..15]) [0..<8]"
  by code_simp

lemma decode:
  assumes "seg < 8" "0 \<le> q" "q < 16"
  shows "alaw2linear ((push_bit 4 (of_nat seg) OR of_int q) XOR 0xD5) = level seg q"
    "alaw2linear ((push_bit 4 (of_nat seg) OR of_int q) XOR 0x55) = - level seg q"
  using decode_all assms by (auto simp: list_all_iff)

lemma and_15: "v AND 15 = v mod 16" for v :: int
  using take_bit_eq_mask [of 4 v] by (simp add: take_bit_eq_mod mask_eq_exp_minus_1)

text \<open>The bits under the leading one, and the rest.\<close>

lemma under_leading_one:
  fixes v m :: int
  assumes "16 * m \<le> v" "v < 32 * m" "0 < m"
  shows "v = 16 * m + m * (v div m mod 16) + v mod m"
proof -
  have e: "v = m * (v div m) + v mod m"
    by simp
  have "0 \<le> v mod m" "v mod m < m"
    using assms(3) by simp_all
  then have "m * 15 < m * (v div m)" "m * (v div m) < m * 32"
    using e assms by linarith+
  then have "15 < v div m" "v div m < 32"
    using assms(3) by simp_all
  moreover have "x mod 16 = x - 16" if "15 < x" "x < 32" for x :: int
    using that by presburger
  ultimately have "v div m mod 16 = v div m - 16"
    by blast
  then have "m * (v div m) = m * (16 + v div m mod 16)"
    by simp
  then show ?thesis
    using e by (simp only: distrib_left mult.commute)
qed

lemma segments:
  assumes "0 \<le> v" "v < 2 ^ 15"
  obtains "search v seg_end = 0" "v < 256"
  | seg where "0 < seg" "seg < 8" "search v seg_end = seg" "16 * step seg \<le> v" "v < 32 * step seg"
proof -
  consider "v < 2 ^ 8" | "2 ^ 8 \<le> v" "v < 2 ^ 9" | "2 ^ 9 \<le> v" "v < 2 ^ 10" | "2 ^ 10 \<le> v" "v < 2 ^ 11"
    | "2 ^ 11 \<le> v" "v < 2 ^ 12" | "2 ^ 12 \<le> v" "v < 2 ^ 13" | "2 ^ 13 \<le> v" "v < 2 ^ 14" | "2 ^ 14 \<le> v"
    by linarith
  then show thesis
    apply cases
    subgoal by (rule that(1)) (simp_all add: seg_end_def)
    subgoal by (rule that(2) [of 1]) (simp_all add: seg_end_def step_def)
    subgoal by (rule that(2) [of 2]) (simp_all add: seg_end_def step_def)
    subgoal by (rule that(2) [of 3]) (simp_all add: seg_end_def step_def)
    subgoal by (rule that(2) [of 4]) (simp_all add: seg_end_def step_def)
    subgoal by (rule that(2) [of 5]) (simp_all add: seg_end_def step_def)
    subgoal by (rule that(2) [of 6]) (simp_all add: seg_end_def step_def)
    subgoal using assms by (intro that(2) [of 7]) (simp_all add: seg_end_def step_def)
    done
qed

lemma encode_parts:
  assumes "0 \<le> v" "v < 2 ^ 15"
  obtains seg q r where "seg < 8" "search v seg_end = seg" "0 \<le> q" "q < 16" "0 \<le> r" "r < step seg"
    "drop_bit (if seg < 2 then 4 else seg + 3) v AND 0xf = q"
    "v = (if seg = 0 then 0 else 16 * step seg) + step seg * q + r"
  using assms
proof (cases rule: segments)
  case 1
  then have "v div 16 mod 16 = v div 16"
    using assms(1) by (intro mod_pos_pos_trivial) auto
  with 1 show ?thesis
    using assms(1) by (intro that [of 0 "v div 16 mod 16" "v mod 16"]) (simp_all add: drop_bit_eq_div and_15 step_def)
next
  case (2 seg)
  have m: "0 < step seg"
    by (simp add: step_def)
  have "drop_bit (if seg < 2 then 4 else seg + 3) v AND 0xf = v div step seg mod 16"
    using 2 by (cases "seg = 1") (simp_all add: drop_bit_eq_div and_15 step_def)
  then show ?thesis
    using 2 m under_leading_one [of "step seg" v]
    by (intro that [of seg "v div step seg mod 16" "v mod step seg"]) simp_all
qed

lemma encode:
  assumes "0 \<le> v" "v < 2 ^ 15"
  obtains seg q r where "seg < 8" "0 \<le> q" "q < 16" "0 \<le> r" "r < step seg"
    "linear2alaw v = (push_bit 4 (of_nat seg) OR of_int q) XOR 0xD5"
    "linear2alaw (- v - 1) = (push_bit 4 (of_nat seg) OR of_int q) XOR 0x55"
    "v = (if seg = 0 then 0 else 16 * step seg) + step seg * q + r"
proof -
  obtain seg q r where *: "seg < 8" "search v seg_end = seg" "0 \<le> q" "q < 16" "0 \<le> r" "r < step seg"
    "drop_bit (if seg < 2 then 4 else seg + 3) v AND 0xf = q"
    "v = (if seg = 0 then 0 else 16 * step seg) + step seg * q + r"
    using encode_parts [OF assms] .
  have "linear2alaw v = (push_bit 4 (of_nat seg) OR of_int q) XOR 0xD5"
    using *(1,2,7) assms(1) by (simp add: linear2alaw_def split: if_splits)
  moreover have "linear2alaw (- v - 1) = (push_bit 4 (of_nat seg) OR of_int q) XOR 0x55"
  proof -
    have "\<not> 0 \<le> - v - 1" "- (- v - 1) - 1 = v"
      using assms(1) by simp_all
    then show ?thesis
      using *(1,2,7) by (simp add: linear2alaw_def split: if_splits)
  qed
  ultimately show thesis
    using * by (intro that [of seg q r])
qed

text \<open>The value of a code is in the middle of its step.\<close>

lemma level_middle:
  "2 * level seg q = 2 * ((if seg = 0 then 0 else 16 * step seg) + step seg * q) + step seg"
  by (cases seg) (simp_all add: level_def step_def power_add algebra_simps)

lemma error_of_parts:
  assumes "seg < 8" "0 \<le> q" "0 \<le> r" "r < step seg" "v = (if seg = 0 then 0 else 16 * step seg) + step seg * q + r"
  shows "2 * \<bar>level seg q - v\<bar> \<le> step seg" "2 * \<bar>level seg q - (v + 1)\<bar> \<le> step seg" "16 * step seg \<le> 256 \<or> 16 * step seg \<le> v"
proof -
  define b where "b = (if seg = 0 then 0 else 16 * step seg) + step seg * q"
  have m: "2 * level seg q = 2 * b + step seg" "v = b + r"
    using level_middle assms(5) unfolding b_def by blast+
  show "2 * \<bar>level seg q - v\<bar> \<le> step seg"
    using m assms(3,4) by (simp add: abs_if)
  show "2 * \<bar>level seg q - (v + 1)\<bar> \<le> step seg"
    using m assms(3,4) by (simp add: abs_if)
  have "0 \<le> step seg * q"
    using assms(2) by (simp add: step_def)
  then show "16 * step seg \<le> 256 \<or> 16 * step seg \<le> v"
    using assms(3,5) by (cases "seg = 0") (simp_all add: step_def)
qed

lemma within_bound:
  fixes x v s :: int
  assumes "2 * \<bar>x - v\<bar> \<le> s" "16 * s \<le> 256 \<or> 16 * s \<le> w" "w \<le> \<bar>v\<bar>"
  shows "32 * \<bar>x - v\<bar> \<le> max 256 \<bar>v\<bar>"
proof -
  have "32 * \<bar>x - v\<bar> \<le> 16 * s"
    using assms(1) by simp
  also have "\<dots> \<le> max 256 \<bar>v\<bar>"
    using assms(2,3) by (auto simp: le_max_iff_disj)
  finally show ?thesis .
qed

lemma error_of_sample:
  assumes "- (2 ^ 15) \<le> v" "v < 2 ^ 15"
  shows "32 * \<bar>alaw2linear (linear2alaw v) - v\<bar> \<le> max 256 \<bar>v\<bar>"
proof (cases "0 \<le> v")
  case True
  obtain seg q r where p: "seg < 8" "0 \<le> q" "q < 16" "0 \<le> r" "r < step seg"
    "linear2alaw v = (push_bit 4 (of_nat seg) OR of_int q) XOR 0xD5"
    "linear2alaw (- v - 1) = (push_bit 4 (of_nat seg) OR of_int q) XOR 0x55"
    "v = (if seg = 0 then 0 else 16 * step seg) + step seg * q + r"
    by (rule encode [OF True assms(2)])
  have "alaw2linear (linear2alaw v) = level seg q"
    using p(6) decode(1) [OF p(1-3)] by simp
  then show ?thesis
    using within_bound [OF error_of_parts(1,3) [OF p(1,2,4,5,8)]] True by simp
next
  case False
  have n: "0 \<le> - v - 1" "- v - 1 < 2 ^ 15"
    using False assms(1) by simp_all
  obtain seg q r where p: "seg < 8" "0 \<le> q" "q < 16" "0 \<le> r" "r < step seg"
    "linear2alaw (- v - 1) = (push_bit 4 (of_nat seg) OR of_int q) XOR 0xD5"
    "linear2alaw (- (- v - 1) - 1) = (push_bit 4 (of_nat seg) OR of_int q) XOR 0x55"
    "- v - 1 = (if seg = 0 then 0 else 16 * step seg) + step seg * q + r"
    by (rule encode [OF n])
  have p7: "linear2alaw v = (push_bit 4 (of_nat seg) OR of_int q) XOR 0x55"
    using p(7) by simp
  have "alaw2linear (linear2alaw v) = - level seg q"
    using p7 decode(2) [OF p(1-3)] by simp
  moreover have "\<bar>- level seg q - v\<bar> = \<bar>level seg q - (- v - 1 + 1)\<bar>"
    by simp
  ultimately have "2 * \<bar>alaw2linear (linear2alaw v) - v\<bar> \<le> step seg"
    using error_of_parts(2) [OF p(1,2,4,5,8)] by simp
  from within_bound [OF this error_of_parts(3) [OF p(1,2,4,5,8)]] show ?thesis
    using False by simp
qed

text \<open>Every code is the code of its value.\<close>

lemma codes_all: "list_all (\<lambda>k. linear2alaw (alaw2linear (of_nat k)) = of_nat k) [0..<256]"
  by code_simp

text \<open>
  C19: For every sample of 16 bits the value that is decoded from its code is at most one part in 32 away from
  it, and at most 8 for samples up to 256; every byte is the code of the value it stands for.
\<close>

theorem a_law_error:
  "(\<forall>v. - (2 ^ 15) \<le> v \<and> v < 2 ^ 15 \<longrightarrow> 32 * \<bar>alaw2linear (linear2alaw v) - v\<bar> \<le> max 256 \<bar>v\<bar>) \<and>
   (\<forall>c. linear2alaw (alaw2linear c) = c)"
proof (intro conjI allI impI)
  fix v :: int
  assume "- (2 ^ 15) \<le> v \<and> v < 2 ^ 15"
  then show "32 * \<bar>alaw2linear (linear2alaw v) - v\<bar> \<le> max 256 \<bar>v\<bar>"
    by (intro error_of_sample) simp_all
next
  fix c :: u8
  have "unat c < 256"
    using unsigned_less [of c] by simp
  then show "linear2alaw (alaw2linear c) = c"
    using codes_all by (auto simp: list_all_iff dest!: bspec [of _ _ "unat c"])
qed

theorem a_law_error_witness:
  "alaw2linear (linear2alaw 1000) = 1008 \<and> 32 * \<bar>alaw2linear (linear2alaw (- 20000)) + 20000\<bar> \<le> 20000"
  using a_law_error [THEN conjunct1, rule_format, of "- 20000"] by (simp) code_simp

end
