(* ===== verification/Std_Mem.thy ===== *)
theory Std_Mem
  imports Prelude
begin

text \<open>
  The memory routines of the freestanding C library (std/src: memset.c, memcpy.c, memmove.c, memcmp.c),
  which the boot application is linked with, on a memory of bytes at addresses of 32 bits. \<open>long\<close> and
  \<open>op_t\<close> have four bytes, the first is the lowest; a word is only read or written at a
  multiple of four, anything else is a fault of the processor (\<open>None\<close>).
\<close>

unbundle bit_operations_syntax

type_synonym mem = "u32 \<Rightarrow> u8"

section \<open>Words in memory\<close>

definition byte_of :: "nat \<Rightarrow> u32 \<Rightarrow> u8" where
  "byte_of k w = ucast (drop_bit (8 * k) w)"

definition load32 :: "mem \<Rightarrow> u32 \<Rightarrow> u32 option" where
  "load32 m a =
     (if a AND 3 = 0 then Some (ucast (m a) OR push_bit 8 (ucast (m (a + 1))) OR push_bit 16 (ucast (m (a + 2)))
        OR push_bit 24 (ucast (m (a + 3)))) else None)"

definition store32 :: "u32 \<Rightarrow> u32 \<Rightarrow> mem \<Rightarrow> mem option" where
  "store32 a w m =
     (if a AND 3 = 0 then Some (m(a := byte_of 0 w, a + 1 := byte_of 1 w, a + 2 := byte_of 2 w, a + 3 := byte_of 3 w)) else None)"

fun load_words :: "nat \<Rightarrow> u32 \<Rightarrow> mem \<Rightarrow> u32 list option" where
  "load_words 0 src m = Some []"
| "load_words (Suc n) src m = do { a \<leftarrow> load32 m src; as \<leftarrow> load_words n (src + 4) m; Some (a # as) }"

fun store_words :: "u32 list \<Rightarrow> u32 \<Rightarrow> mem \<Rightarrow> mem option" where
  "store_words [] dst m = Some m"
| "store_words (a # as) dst m = do { m \<leftarrow> store32 dst a m; store_words as (dst + 4) m }"

section \<open>memset.c\<close>

fun fill_bytes :: "nat \<Rightarrow> u32 \<Rightarrow> u8 \<Rightarrow> mem \<Rightarrow> mem" where
  "fill_bytes 0 dst c m = m"
| "fill_bytes (Suc n) dst c m = fill_bytes n (dst + 1) c (m(dst := c))"

fun fill_words :: "nat \<Rightarrow> u32 \<Rightarrow> u32 \<Rightarrow> mem \<Rightarrow> mem option" where
  "fill_words 0 dst c m = Some m"
| "fill_words (Suc n) dst c m = do { m \<leftarrow> store32 dst c m; fill_words n (dst + 4) c m }"

text \<open>A loop \<open>do .. while (--t != 0)\<close> runs \<open>t\<close> times, and as often as there are values when \<open>t\<close> is 0.\<close>

definition do_times :: "u32 \<Rightarrow> nat" where
  "do_times t = (if t = 0 then 2 ^ 32 else unat t)"

definition memset :: "u32 \<Rightarrow> 32 word \<Rightarrow> u32 \<Rightarrow> mem \<Rightarrow> mem option" where
  "memset dst0 c0 len m =
     (if len < 3 * 4 then Some (fill_bytes (unat len) dst0 (ucast c0) m)
      else
        let c = ucast (ucast c0 :: u8) :: u32;
            c = (if c \<noteq> 0 then let c = push_bit 8 c OR c in push_bit 16 c OR c else c);
            t = dst0 AND 3;
            (dst, len, m) = (if t \<noteq> 0 then let t = 4 - t in (dst0 + t, len - t, fill_bytes (do_times t) dst0 (ucast c0) m)
              else (dst0, len, m));
            t = len div 4
        in do {
          m \<leftarrow> fill_words (do_times t) dst c m;
          let dst = dst + 4 * of_nat (do_times t);
          let t = len AND 3;
          Some (if t \<noteq> 0 then fill_bytes (do_times t) dst (ucast c0) m else m)
        })"

section \<open>memcpy.c\<close>

fun BYTE_COPY_FWD :: "nat \<Rightarrow> u32 \<Rightarrow> u32 \<Rightarrow> mem \<Rightarrow> mem" where
  "BYTE_COPY_FWD 0 dst src m = m"
| "BYTE_COPY_FWD (Suc n) dst src m = BYTE_COPY_FWD n (dst + 1) (src + 1) (m(dst := m src))"

definition MERGE :: "u32 \<Rightarrow> nat \<Rightarrow> u32 \<Rightarrow> nat \<Rightarrow> u32" where
  "MERGE w0 sh_1 w1 sh_2 = drop_bit sh_1 w0 OR push_bit sh_2 w1"

fun words_aligned :: "nat \<Rightarrow> u32 \<Rightarrow> u32 \<Rightarrow> mem \<Rightarrow> mem option" where
  "words_aligned 0 dst src m = Some m"
| "words_aligned (Suc n) dst src m = do {
     a \<leftarrow> load32 m src; m \<leftarrow> store32 dst a m; words_aligned n (dst + 4) (src + 4) m }"

function wordcopy_fwd_aligned :: "nat \<Rightarrow> u32 \<Rightarrow> u32 \<Rightarrow> mem \<Rightarrow> mem option" where
  "wordcopy_fwd_aligned len dst src m =
     (if len > 7 then do {
        as \<leftarrow> load_words 8 src m;
        m \<leftarrow> store_words as dst m;
        wordcopy_fwd_aligned (len - 8) (dst + 32) (src + 32) m }
      else words_aligned len dst src m)"
  by pat_completeness auto
termination by (relation "measure (\<lambda>(len, _). len)") auto

declare wordcopy_fwd_aligned.simps [simp del]

fun words_merged :: "nat \<Rightarrow> nat \<Rightarrow> nat \<Rightarrow> u32 \<Rightarrow> u32 \<Rightarrow> u32 \<Rightarrow> mem \<Rightarrow> mem option" where
  "words_merged sh_1 sh_2 0 dst src ap m = Some m"
| "words_merged sh_1 sh_2 (Suc n) dst src ap m = do {
     a0 \<leftarrow> load32 m src;
     m \<leftarrow> store32 dst (MERGE ap sh_1 a0 sh_2) m;
     words_merged sh_1 sh_2 n (dst + 4) (src + 4) a0 m }"

function dest_aligned_loop :: "nat \<Rightarrow> nat \<Rightarrow> nat \<Rightarrow> u32 \<Rightarrow> u32 \<Rightarrow> u32 \<Rightarrow> mem \<Rightarrow> mem option" where
  "dest_aligned_loop sh_1 sh_2 len dst src ap m =
     (if len > 3 then do {
        as \<leftarrow> load_words 4 src m;
        m \<leftarrow> store_words (map2 (\<lambda>w0 w1. MERGE w0 sh_1 w1 sh_2) (ap # as) as) dst m;
        dest_aligned_loop sh_1 sh_2 (len - 4) (dst + 16) (src + 16) (last as) m }
      else words_merged sh_1 sh_2 len dst src ap m)"
  by pat_completeness auto
termination by (relation "measure (\<lambda>(_, _, len, _). len)") auto

declare dest_aligned_loop.simps [simp del]

definition wordcopy_fwd_dest_aligned :: "nat \<Rightarrow> u32 \<Rightarrow> u32 \<Rightarrow> mem \<Rightarrow> mem option" where
  "wordcopy_fwd_dest_aligned len dst src m =
     (let sh_1 = 8 * unat (src mod 4); sh_2 = 8 * 4 - sh_1; src = src AND (- 4)
      in do { ap \<leftarrow> load32 m src; dest_aligned_loop sh_1 sh_2 len dst (src + 4) ap m })"

definition memcpy :: "u32 \<Rightarrow> u32 \<Rightarrow> u32 \<Rightarrow> mem \<Rightarrow> mem option" where
  "memcpy dstp srcp len m =
     (if len \<ge> 16 then
        let k = (- dstp) mod 4;
            len = len - k;
            m = BYTE_COPY_FWD (unat k) dstp srcp m;
            dstp = dstp + k; srcp = srcp + k
        in do {
          m \<leftarrow> (if srcp mod 4 = 0 then wordcopy_fwd_aligned (unat (len div 4)) dstp srcp m
               else wordcopy_fwd_dest_aligned (unat (len div 4)) dstp srcp m);
          let srcp = srcp + (len AND (- 4));
          let dstp = dstp + (len AND (- 4));
          let len = len mod 4;
          Some (BYTE_COPY_FWD (unat len) dstp srcp m)
        }
      else Some (BYTE_COPY_FWD (unat len) dstp srcp m))"

definition memcpyb :: "u32 \<Rightarrow> u32 \<Rightarrow> u32 \<Rightarrow> mem \<Rightarrow> mem" where
  "memcpyb dstp srcp len m = BYTE_COPY_FWD (unat len) dstp srcp m"

section \<open>memmove.c\<close>

fun byte_copy_bwd :: "nat \<Rightarrow> u32 \<Rightarrow> u32 \<Rightarrow> mem \<Rightarrow> mem" where
  "byte_copy_bwd 0 dst src m = m"
| "byte_copy_bwd (Suc n) dst src m = byte_copy_bwd n (dst - 1) (src - 1) (m(dst - 1 := m (src - 1)))"

fun word_copy_bwd :: "nat \<Rightarrow> u32 \<Rightarrow> u32 \<Rightarrow> mem \<Rightarrow> mem option" where
  "word_copy_bwd 0 dst src m = Some m"
| "word_copy_bwd (Suc n) dst src m = do {
     a \<leftarrow> load32 m (src - 4); m \<leftarrow> store32 (dst - 4) a m; word_copy_bwd n (dst - 4) (src - 4) m }"

definition move_forward :: "u32 \<Rightarrow> u32 \<Rightarrow> u32 \<Rightarrow> mem \<Rightarrow> mem option" where
  "move_forward dst src len m =
     (let t = src;
          (dst, src, len, m) =
            (if (t OR dst) AND 3 \<noteq> 0 then
               let t = (if (t XOR dst) AND 3 \<noteq> 0 \<or> len < 4 then len else 4 - (t AND 3))
               in (dst + of_nat (do_times t), src + of_nat (do_times t), len - t, BYTE_COPY_FWD (do_times t) dst src m)
             else (dst, src, len, m));
          n = unat (len div 4)
      in do {
        m \<leftarrow> words_aligned n dst src m;
        Some (BYTE_COPY_FWD (unat (len AND 3)) (dst + 4 * of_nat n) (src + 4 * of_nat n) m)
      })"

definition move_backward :: "u32 \<Rightarrow> u32 \<Rightarrow> u32 \<Rightarrow> mem \<Rightarrow> mem option" where
  "move_backward dst src len m =
     (let src = src + len; dst = dst + len; t = src;
          (dst, src, len, m) =
            (if (t OR dst) AND 3 \<noteq> 0 then
               let t = (if (t XOR dst) AND 3 \<noteq> 0 \<or> len \<le> 4 then len else t AND 3)
               in (dst - of_nat (do_times t), src - of_nat (do_times t), len - t, byte_copy_bwd (do_times t) dst src m)
             else (dst, src, len, m));
          n = unat (len div 4)
      in do {
        m \<leftarrow> word_copy_bwd n dst src m;
        Some (byte_copy_bwd (unat (len AND 3)) (dst - 4 * of_nat n) (src - 4 * of_nat n) m)
      })"

definition memmove :: "u32 \<Rightarrow> u32 \<Rightarrow> u32 \<Rightarrow> mem \<Rightarrow> mem option" where
  "memmove dst src len m =
     (if len = 0 \<or> dst = src then Some m
      else if dst < src then move_forward dst src len m else move_backward dst src len m)"

section \<open>memcmp.c\<close>

fun memcmp_loop :: "nat \<Rightarrow> u32 \<Rightarrow> u32 \<Rightarrow> mem \<Rightarrow> int" where
  "memcmp_loop 0 p1 p2 m = 0"
| "memcmp_loop (Suc n) p1 p2 m =
     (if m p1 \<noteq> m p2 then uint (m p1) - uint (m p2) else memcmp_loop n (p1 + 1) (p2 + 1) m)"

definition memcmp :: "u32 \<Rightarrow> u32 \<Rightarrow> u32 \<Rightarrow> mem \<Rightarrow> int" where
  "memcmp s1 s2 n m = (if n \<noteq> 0 then memcmp_loop (unat n) s1 s2 m else 0)"

end
