(* ===== verification/Std_Mem_Copy.thy ===== *)
theory Std_Mem_Copy
  imports Std_Mem
begin

text \<open>
  What the memory routines do: with whole words, shifts and unrolled loops they have the effect of one
  simultaneous copy (\<open>copied\<close>) or filling (\<open>filled_with\<close>) of a region, for every alignment. Offsets into a region
  are differences of addresses, so that addresses may wrap around.
\<close>

unbundle bit_operations_syntax

section \<open>Copying\<close>

text \<open>The memory after the bytes at \<open>src\<close> have been copied to \<open>dst\<close> all at once; addresses wrap around.\<close>

definition copied :: "u32 \<Rightarrow> u32 \<Rightarrow> nat \<Rightarrow> mem \<Rightarrow> mem" where
  "copied dst src n m = (\<lambda>a. if unat (a - dst) < n then m (src + (a - dst)) else m a)"

text \<open>Copying upwards reads no byte that it has written before.\<close>

definition fwd_ok :: "u32 \<Rightarrow> u32 \<Rightarrow> nat \<Rightarrow> bool" where
  "fwd_ok dst src n \<longleftrightarrow> n \<le> 2 ^ 32 \<and> (dst = src \<or> n \<le> unat (dst - src))"

lemma copied_0 [simp]: "copied dst src 0 m = m"
  by (simp add: copied_def)

lemma copied_same [simp]: "copied a a n m = m"
  by (auto simp: copied_def)

lemma fwd_ok_mono: "fwd_ok dst src n \<Longrightarrow> k \<le> n \<Longrightarrow> fwd_ok dst src k"
  by (auto simp: fwd_ok_def)

lemma fwd_ok_shift [simp]: "fwd_ok (dst + d) (src + d) n = fwd_ok dst src n"
  by (simp add: fwd_ok_def)

lemma unat_u32_less: "unat (x :: u32) < 4294967296"
  by (rule order_less_le_trans [OF unsigned_less]) simp

lemma unat_minus_of_nat:
  fixes x :: u32
  assumes "k \<le> unat x"
  shows "unat (x - of_nat k) = unat x - k"
proof -
  have "k < 2 ^ 32"
    using assms unat_u32_less [of x] by simp
  then have "unat (of_nat k :: u32) = k"
    by (simp add: unat_of_nat take_bit_eq_mod)
  then show ?thesis
    using assms by (simp add: unat_sub word_le_nat_alt)
qed

lemma unat_minus_of_nat_wrap:
  fixes x :: u32
  assumes "unat x < k" "k \<le> 2 ^ 32"
  shows "unat (x - of_nat k) = unat x + 2 ^ 32 - k"
proof -
  have "x - of_nat k = of_nat (unat x + 2 ^ 32 - k)"
    using assms(2) by simp
  moreover have "unat x + 2 ^ 32 - k < 2 ^ 32"
    using assms unat_u32_less [of x] by simp
  ultimately show ?thesis
    by (simp add: unat_of_nat take_bit_eq_mod)
qed

lemma unat_minus_wrap: "unat x < unat y \<Longrightarrow> unat (x - y) = unat x + 4294967296 - unat y" for x y :: u32
  using unat_minus_of_nat_wrap [of x "unat y"] unat_u32_less [of y] by simp

text \<open>What is still to be copied has not been written.\<close>

lemma copied_ahead:
  assumes "fwd_ok dst src n" "k \<le> j" "j < n"
  shows "copied dst src k m (src + of_nat j) = m (src + of_nat j)"
proof (cases "dst = src")
  case False
  then have n: "n \<le> unat (dst - src)"
    using assms(1) by (simp add: fwd_ok_def)
  have u: "unat (of_nat j :: u32) = j"
    using assms(3) n unat_u32_less [of "dst - src"] by (simp add: unat_of_nat take_bit_eq_mod)
  have "src + of_nat j - dst = of_nat j - (dst - src)"
    by simp
  moreover have "unat (of_nat j - (dst - src)) = j + 4294967296 - unat (dst - src)"
    using unat_minus_wrap [of "of_nat j" "dst - src"] assms(3) n u by simp
  ultimately have "unat (src + of_nat j - dst) = j + 4294967296 - unat (dst - src)"
    by (simp only:)
  then have "\<not> unat (src + of_nat j - dst) < k"
    using assms(2) unat_u32_less [of "dst - src"] by linarith
  then show ?thesis
    by (simp add: copied_def)
qed simp

text \<open>A copy in two pieces.\<close>

lemma copied_append:
  assumes "fwd_ok dst src (k + n)"
  shows "copied (dst + of_nat k) (src + of_nat k) n (copied dst src k m) = copied dst src (k + n) m"
proof
  fix a
  let ?o = "a - dst"
  have o: "a - (dst + of_nat k) = ?o - of_nat k" "src + of_nat k + (?o - of_nat k) = src + ?o"
    by simp_all
  have k: "k + n \<le> 2 ^ 32"
    using assms by (simp add: fwd_ok_def)
  show "copied (dst + of_nat k) (src + of_nat k) n (copied dst src k m) a = copied dst src (k + n) m a"
  proof (cases "unat ?o < k")
    case True
    then have "\<not> unat (?o - of_nat k) < n"
      using unat_minus_of_nat_wrap [of ?o k] k by simp
    then show ?thesis
      using True by (simp add: copied_def o)
  next
    case False
    then have u: "unat (?o - of_nat k) = unat ?o - k"
      by (intro unat_minus_of_nat) simp
    have "copied (dst + of_nat k) (src + of_nat k) n m' a = (if unat ?o - k < n then m' (src + ?o) else m' a)" for m'
      by (simp only: copied_def o u)
    moreover have "copied dst src k m (src + ?o) = m (src + ?o)" if "unat ?o < k + n"
      using copied_ahead [OF assms _ that, of k m] False by simp
    moreover have "copied dst src k m a = m a" "copied dst src (k + n) m a = (if unat ?o < k + n then m (src + ?o) else m a)"
      using False by (simp_all add: copied_def)
    ultimately show ?thesis
      using False by (simp only:) auto
  qed
qed

lemma BYTE_COPY_FWD_copied: "fwd_ok dst src n \<Longrightarrow> BYTE_COPY_FWD n dst src m = copied dst src n m"
proof (induction n arbitrary: dst src m)
  case (Suc n)
  have 1: "m(dst := m src) = copied dst src 1 m"
    by (auto simp: copied_def unat_eq_zero)
  have "fwd_ok (dst + 1) (src + 1) n"
    using Suc.prems fwd_ok_mono [of dst src "Suc n" n] by simp
  then show ?case
    using Suc.IH [of "dst + 1" "src + 1" "m(dst := m src)"] copied_append [of dst src 1 n m] Suc.prems 1 by simp
qed simp

section \<open>Words\<close>

lemma less_4_cases: "(k :: nat) < 4 \<longleftrightarrow> k = 0 \<or> k = 1 \<or> k = 2 \<or> k = 3"
  by auto

lemma and_3: "a AND 3 = a mod 4" for a :: u32
  using take_bit_eq_mask [of 2 a] by (simp add: take_bit_eq_mod mask_eq_exp_minus_1)

lemma unat_and_3: "unat (a AND 3) = unat a mod 4" for a :: u32
  by (simp add: and_3 unat_mod)

lemma aligned_iff: "a AND 3 = 0 \<longleftrightarrow> unat a mod 4 = 0" for a :: u32
  using unat_and_3 [of a] by (metis unat_eq_zero)

lemma unat_add_mod_4: "unat (a + b) mod 4 = (unat a + unat b) mod 4" for a b :: u32
proof -
  have "x mod 4294967296 mod 4 = x mod 4" for x :: nat
    by (rule mod_mod_cancel) simp
  then show ?thesis
    by (simp add: unat_word_ariths)
qed

lemma aligned_add: "(a :: u32) AND 3 = 0 \<Longrightarrow> b AND 3 = 0 \<Longrightarrow> (a + b) AND 3 = 0"
  unfolding aligned_iff unat_add_mod_4 by presburger

lemma aligned_4 [simp]: "(a + 4) AND 3 = 0 \<longleftrightarrow> a AND 3 = 0" for a :: u32
  unfolding aligned_iff unat_add_mod_4 by simp

lemma bit_byte [simp]: "8 \<le> n \<Longrightarrow> \<not> bit (x :: u8) n"
  by (auto dest: bit_imp_le_length)

lemma load32_byte: "load32 m a = Some w \<Longrightarrow> k < 4 \<Longrightarrow> byte_of k w = m (a + of_nat k)"
  unfolding less_4_cases load32_def byte_of_def
  by (elim disjE) (auto split: if_splits intro!: bit_word_eqI simp: bit_simps dest: bit_imp_le_length)

lemma store32_result:
  assumes "a AND 3 = 0"
  shows "store32 a w m = Some (\<lambda>x. if unat (x - a) < 4 then byte_of (unat (x - a)) w else m x)"
proof -
  have *: "unat (x - a) = k \<longleftrightarrow> x = a + of_nat k" if "k < 4" for x and k :: nat
  proof -
    have "unat (of_nat k :: u32) = k"
      using that by (simp add: unat_of_nat take_bit_eq_mod)
    then show ?thesis
      by (metis add_diff_cancel_left' diff_add_cancel add.commute unsigned_word_eqI)
  qed
  show ?thesis
    using assms *[of 0] *[of 1] *[of 2] *[of 3] by (auto simp: store32_def fun_eq_iff less_4_cases)
qed

lemma store_words_result:
  "dst AND 3 = 0 \<Longrightarrow> 4 * length ws \<le> 2 ^ 32 \<Longrightarrow>
    store_words ws dst m = Some (\<lambda>x. let k = unat (x - dst) in
      if k < 4 * length ws then byte_of (k mod 4) (ws ! (k div 4)) else m x)"
proof (induction ws arbitrary: dst m)
  case Nil
  then show ?case by simp
next
  case (Cons w ws)
  let ?m = "\<lambda>x. if unat (x - dst) < 4 then byte_of (unat (x - dst)) w else m x"
  have IH: "store_words ws (dst + 4) ?m = Some (\<lambda>x. let k = unat (x - (dst + 4)) in
      if k < 4 * length ws then byte_of (k mod 4) (ws ! (k div 4)) else ?m x)"
    using Cons.prems by (intro Cons.IH) simp_all
  have "(let k = unat (x - (dst + 4)) in if k < 4 * length ws then byte_of (k mod 4) (ws ! (k div 4)) else ?m x) =
    (let k = unat (x - dst) in if k < 4 * length (w # ws) then byte_of (k mod 4) ((w # ws) ! (k div 4)) else m x)" for x
  proof (cases "unat (x - dst) < 4")
    case True
    have "unat (x - (dst + 4)) = unat (x - dst) + 2 ^ 32 - 4"
      using unat_minus_of_nat_wrap [of "x - dst" 4] True by (simp add: diff_diff_eq)
    then show ?thesis
      using True Cons.prems(2) by simp
  next
    case False
    have "unat (x - (dst + 4)) = unat (x - dst) - 4"
      using unat_minus_of_nat [of 4 "x - dst"] False by (simp add: diff_diff_eq)
    moreover obtain k where "unat (x - dst) = 4 + k"
      using False le_iff_add [of 4 "unat (x - dst)"] by auto
    moreover have "(4 + k) div 4 = Suc (k div 4)"
      by simp
    ultimately show ?thesis
      by (simp only: Let_def) simp
  qed
  then show ?case
    using IH store32_result [OF Cons.prems(1), of w m] by simp
qed

text \<open>Words whose bytes are those of a region of the memory, stored one after the other, are a copy of the region.\<close>

lemma store_words_copied:
  assumes "dst AND 3 = 0" "4 * length ws \<le> 2 ^ 32"
    and "\<And>i k. i < length ws \<Longrightarrow> k < 4 \<Longrightarrow> byte_of k (ws ! i) = m (src + of_nat (4 * i + k))"
  shows "store_words ws dst m = Some (copied dst src (4 * length ws) m)"
proof -
  have "byte_of (k mod 4) (ws ! (k div 4)) = m (src + of_nat k)" if "k < 4 * length ws" for k
    using assms(3) [of "k div 4" "k mod 4"] that by simp
  then show ?thesis
    unfolding store_words_result [OF assms(1,2)] copied_def Let_def
    by (intro arg_cong [where f = Some] ext) simp
qed

lemma load_words_bytes:
  "src AND 3 = 0 \<Longrightarrow> \<exists>ws. load_words n src m = Some ws \<and> length ws = n \<and>
    (\<forall>i < n. \<forall>k < 4. byte_of k (ws ! i) = m (src + of_nat (4 * i + k)))"
proof (induction n arbitrary: src)
  case (Suc n)
  obtain w where w: "load32 m src = Some w"
    using Suc.prems by (simp add: load32_def)
  obtain ws where ws: "load_words n (src + 4) m = Some ws" "length ws = n"
    "\<And>i k. i < n \<Longrightarrow> k < 4 \<Longrightarrow> byte_of k (ws ! i) = m (src + 4 + of_nat (4 * i + k))"
    using Suc.IH [of "src + 4"] Suc.prems by auto
  have "byte_of k ((w # ws) ! i) = m (src + of_nat (4 * i + k))" if "i < Suc n" "k < 4" for i k
    using load32_byte [OF w] ws(3) [of "i - 1" k] that by (cases i) (simp_all add: ac_simps)
  then show ?case
    using w ws(1,2) by simp
qed simp

section \<open>The loops over words\<close>

lemma words_aligned_copied:
  "src AND 3 = 0 \<Longrightarrow> dst AND 3 = 0 \<Longrightarrow> fwd_ok dst src (4 * n) \<Longrightarrow>
    words_aligned n dst src m = Some (copied dst src (4 * n) m)"
proof (induction n arbitrary: dst src m)
  case (Suc n)
  obtain w where w: "load32 m src = Some w"
    using Suc.prems by (simp add: load32_def)
  have "store_words [w] dst m = Some (copied dst src (4 * length [w]) m)"
    using load32_byte [OF w] Suc.prems by (intro store_words_copied) simp_all
  moreover have "fwd_ok (dst + 4) (src + 4) (4 * n)"
    using Suc.prems(3) fwd_ok_mono [of dst src "4 * Suc n" "4 * n"] by simp
  ultimately show ?case
    using w Suc.IH [of "src + 4" "dst + 4"] Suc.prems copied_append [of dst src 4 "4 * n" m] by (cases "store32 dst w m") simp_all
qed simp

lemma wordcopy_fwd_aligned_copied:
  "src AND 3 = 0 \<Longrightarrow> dst AND 3 = 0 \<Longrightarrow> fwd_ok dst src (4 * len) \<Longrightarrow>
    wordcopy_fwd_aligned len dst src m = Some (copied dst src (4 * len) m)"
proof (induction len dst src m rule: wordcopy_fwd_aligned.induct)
  case (1 len dst src m)
  show ?case
  proof (cases "len > 7")
    case True
    obtain ws where ws: "load_words 8 src m = Some ws" "length ws = 8"
      "\<forall>i < 8. \<forall>k < 4. byte_of k (ws ! i) = m (src + of_nat (4 * i + k))"
      using load_words_bytes [OF 1(2), of 8 m] by auto
    have st: "store_words ws dst m = Some (copied dst src 32 m)"
      using store_words_copied [of dst ws m src] ws 1(3) by simp
    have "4 * len = 32 + 4 * (len - 8)"
      using True by simp
    moreover have "(src + 32) AND 3 = 0" "(dst + 32) AND 3 = 0"
      using 1(2,3) aligned_add [of _ 32] by simp_all
    moreover have "fwd_ok (dst + 32) (src + 32) (4 * (len - 8))"
      using fwd_ok_mono [OF 1(4), of "4 * (len - 8)"] by simp
    ultimately show ?thesis
      using True ws(1) st 1(1) [OF True, of ws "copied dst src 32 m"] copied_append [of dst src 32 "4 * (len - 8)" m] 1(4)
      by (subst wordcopy_fwd_aligned.simps) simp
  next
    case False
    then show ?thesis
      using words_aligned_copied 1(2-4) by (subst wordcopy_fwd_aligned.simps) simp
  qed
qed

text \<open>The source is not aligned: the words to be stored are merged from those that are loaded.\<close>

lemma MERGE_byte:
  "r \<in> {1, 2, 3} \<Longrightarrow> k < 4 \<Longrightarrow> byte_of k (MERGE w0 (8 * r) w1 (32 - 8 * r)) =
    (if k < 4 - r then byte_of (r + k) w0 else byte_of (r + k - 4) w1)"
  unfolding less_4_cases byte_of_def MERGE_def
  by (elim disjE insertE emptyE) (auto intro!: bit_word_eqI simp: bit_simps)

text \<open>\<open>ap\<close> holds the first bytes that are still to be copied.\<close>

definition carried :: "nat \<Rightarrow> u32 \<Rightarrow> u32 \<Rightarrow> mem \<Rightarrow> bool" where
  "carried r ap s m \<longleftrightarrow> (\<forall>i < 4 - r. byte_of (r + i) ap = m (s + of_nat i))"

lemma merged_words:
  assumes r: "r \<in> {1, 2, 3}" and src: "src = s + of_nat (4 - r)" and ap: "carried r ap s m"
    and as: "\<forall>i < length as. \<forall>k < 4. byte_of k (as ! i) = m (src + of_nat (4 * i + k))" and dst: "dst AND 3 = 0" "length as \<le> 8"
  shows "store_words (map2 (\<lambda>w0 w1. MERGE w0 (8 * r) w1 (32 - 8 * r)) (ap # as) as) dst m = Some (copied dst s (4 * length as) m)"
proof -
  have at: "src + of_nat x = s + of_nat (4 - r + x)" for x
    by (simp add: src)
  have "byte_of k (MERGE ((ap # as) ! i) (8 * r) (as ! i) (32 - 8 * r)) = m (s + of_nat (4 * i + k))"
    if "i < length as" "k < 4" for i k
  proof (cases "k < 4 - r")
    case True
    then show ?thesis
    proof (cases i)
      case (Suc j)
      have "4 - r + (4 * j + (r + k)) = 4 * i + k"
        using r Suc by auto
      moreover have "byte_of (r + k) (as ! j) = m (src + of_nat (4 * j + (r + k)))"
        using as that Suc True by simp
      ultimately show ?thesis
        using True Suc that(2) MERGE_byte [OF r] by (simp only: at) simp
    qed (use ap r that True MERGE_byte [OF r] in \<open>simp add: carried_def\<close>)
  next
    case False
    have "4 - r + (4 * i + (r + k - 4)) = 4 * i + k"
      using r False by auto
    moreover have "byte_of (r + k - 4) (as ! i) = m (src + of_nat (4 * i + (r + k - 4)))"
      using as that r by auto
    ultimately show ?thesis
      using False that(2) MERGE_byte [OF r] by (simp only: at) simp
  qed
  then show ?thesis
    using store_words_copied [of dst "map2 (\<lambda>w0 w1. MERGE w0 (8 * r) w1 (32 - 8 * r)) (ap # as) as" m s] dst by simp
qed

lemma carried_next:
  assumes r: "r \<in> {1, 2, 3}" and src: "src = s + of_nat (4 - r)"
    and as: "\<forall>i < length as. \<forall>k < 4. byte_of k (as ! i) = m (src + of_nat (4 * i + k))" "as \<noteq> []"
    and ok: "fwd_ok dst s n" "4 * length as + 4 \<le> n"
  shows "carried r (last as) (s + of_nat (4 * length as)) (copied dst s (4 * length as) m)"
  unfolding carried_def
proof (intro allI impI)
  fix i
  assume i: "i < 4 - r"
  let ?n = "length as"
  have "byte_of (r + i) (last as) = m (src + of_nat (4 * (?n - 1) + (r + i)))"
    using as i r by (simp add: last_conv_nth)
  moreover have "src + of_nat (4 * (?n - 1) + (r + i)) = s + of_nat (4 - r + (4 * (?n - 1) + (r + i)))"
    by (simp add: src)
  moreover have "4 - r + (4 * (?n - 1) + (r + i)) = 4 * ?n + i"
    using r as(2) by (cases as) auto
  moreover have "copied dst s (4 * ?n) m (s + of_nat (4 * ?n + i)) = m (s + of_nat (4 * ?n + i))"
    using ok i by (intro copied_ahead) auto
  moreover have "s + of_nat (4 * ?n + i) = s + of_nat (4 * ?n) + of_nat i"
    by simp
  ultimately show "byte_of (r + i) (last as) = copied dst s (4 * ?n) m (s + of_nat (4 * ?n) + of_nat i)"
    by (simp only:)
qed

lemma words_merged_copied:
  assumes r: "r \<in> {1, 2, 3}"
  shows "src AND 3 = 0 \<Longrightarrow> dst AND 3 = 0 \<Longrightarrow> src = s + of_nat (4 - r) \<Longrightarrow> fwd_ok dst s (4 * n) \<Longrightarrow> (0 < n \<Longrightarrow> carried r ap s m) \<Longrightarrow>
    words_merged (8 * r) (32 - 8 * r) n dst src ap m = Some (copied dst s (4 * n) m)"
proof (induction n arbitrary: src dst s ap m)
  case (Suc n)
  obtain w where w: "load32 m src = Some w"
    using Suc.prems(1) by (simp add: load32_def)
  then have as: "\<forall>i < length [w]. \<forall>k < 4. byte_of k ([w] ! i) = m (src + of_nat (4 * i + k))"
    using load32_byte by simp
  have st: "store32 dst (MERGE ap (8 * r) w (32 - 8 * r)) m = Some (copied dst s 4 m)"
    using merged_words [OF r Suc.prems(3) Suc.prems(5) as Suc.prems(2)] by (simp split: bind_splits)
  have "carried r w (s + 4) (copied dst s 4 m)" if "0 < n"
    using carried_next [OF r Suc.prems(3) as _ Suc.prems(4)] that by simp
  moreover have "fwd_ok (dst + 4) (s + 4) (4 * n)"
    using fwd_ok_mono [OF Suc.prems(4), of "4 * n"] by simp
  ultimately have "words_merged (8 * r) (32 - 8 * r) n (dst + 4) (src + 4) w (copied dst s 4 m) =
      Some (copied (dst + 4) (s + 4) (4 * n) (copied dst s 4 m))"
    using Suc.prems by (intro Suc.IH) simp_all
  then show ?case
    using w st copied_append [of dst s 4 "4 * n" m] Suc.prems(4) by simp
qed simp

lemma dest_aligned_loop_copied:
  assumes r: "r \<in> {1, 2, 3}"
  shows "src AND 3 = 0 \<Longrightarrow> dst AND 3 = 0 \<Longrightarrow> src = s + of_nat (4 - r) \<Longrightarrow> fwd_ok dst s (4 * n) \<Longrightarrow> (0 < n \<Longrightarrow> carried r ap s m) \<Longrightarrow>
    dest_aligned_loop (8 * r) (32 - 8 * r) n dst src ap m = Some (copied dst s (4 * n) m)"
proof (induction n arbitrary: src dst s ap m rule: less_induct)
  case (less n)
  show ?case
  proof (cases "n > 3")
    case True
    obtain as where w: "load_words 4 src m = Some as" "length as = 4"
      and as: "\<forall>i < length as. \<forall>k < 4. byte_of k (as ! i) = m (src + of_nat (4 * i + k))"
      using load_words_bytes [OF less.prems(1), of 4 m] by auto
    have c: "carried r ap s m"
      using less.prems(5) True by simp
    have st: "store_words (map2 (\<lambda>w0 w1. MERGE w0 (8 * r) w1 (32 - 8 * r)) (ap # as) as) dst m = Some (copied dst s 16 m)"
      using merged_words [OF r less.prems(3) c as less.prems(2)] w(2) by simp
    have nonempty: "as \<noteq> []"
      using w(2) by auto
    have n: "4 * n = 16 + 4 * (n - 4)"
      using True by simp
    have "carried r (last as) (s + 16) (copied dst s 16 m)" if "0 < n - 4"
      using carried_next [OF r less.prems(3) as _ less.prems(4)] that nonempty w(2) by simp
    moreover have "fwd_ok (dst + 16) (s + 16) (4 * (n - 4))"
      using fwd_ok_mono [OF less.prems(4), of "4 * (n - 4)"] by simp
    ultimately have "dest_aligned_loop (8 * r) (32 - 8 * r) (n - 4) (dst + 16) (src + 16) (last as) (copied dst s 16 m) =
        Some (copied (dst + 16) (s + 16) (4 * (n - 4)) (copied dst s 16 m))"
      using less.prems True aligned_add [of _ 16] by (intro less.IH) simp_all
    then show ?thesis
      using True w(1) st n copied_append [of dst s 16 "4 * (n - 4)" m] less.prems(4)
      by (subst dest_aligned_loop.simps) simp
  next
    case False
    then show ?thesis
      using words_merged_copied [OF r less.prems] by (subst dest_aligned_loop.simps) simp
  qed
qed

lemma minus_mod_4: "a - a mod 4 = push_bit 2 (drop_bit 2 a)" for a :: u32
  using bits_ident [of 2 a] by (simp add: take_bit_eq_mod algebra_simps)

lemma and_minus_4: "a AND (- 4) = a - a mod 4" for a :: u32
proof -
  have "(- 4 :: u32) = NOT (mask 2)"
    by (simp add: mask_eq_exp_minus_1)
  moreover have "a AND NOT (mask 2) = push_bit 2 (drop_bit 2 a)"
  proof (rule bit_word_eqI)
    fix n
    show "bit (a AND NOT (mask 2)) n = bit (push_bit 2 (drop_bit 2 a)) n" if "n < LENGTH(32)"
      using that by (cases "2 \<le> n") (auto simp: bit_simps simp del: add_2_eq_Suc dest: le_add_diff_inverse)
  qed
  ultimately show ?thesis
    by (simp only: minus_mod_4)
qed

lemma minus_mod_aligned: "(a - a mod 4) AND 3 = 0" for a :: u32
  using take_bit_push_bit [of 2 2 "drop_bit 2 a"] by (simp add: minus_mod_4 and_3 take_bit_eq_mod)

lemma wordcopy_fwd_dest_aligned_copied:
  assumes "s mod 4 \<noteq> 0" "dst AND 3 = 0" "fwd_ok dst s (4 * n)"
  shows "wordcopy_fwd_dest_aligned n dst s m = Some (copied dst s (4 * n) m)"
proof -
  define r where "r = unat (s mod 4)"
  have "r < 4" "r \<noteq> 0"
    using assms(1) unfolding r_def unat_eq_zero by (simp_all add: unat_mod)
  then have r: "r \<in> {1, 2, 3}"
    by auto
  have s: "s mod 4 = of_nat r"
    by (simp add: r_def)
  have al: "(s - of_nat r) AND 3 = 0"
    using minus_mod_aligned [of s] by (simp add: s)
  then obtain ap where ap: "load32 m (s - of_nat r) = Some ap"
    by (simp add: load32_def)
  have "carried r ap s m"
    using load32_byte [OF ap] by (simp add: carried_def)
  moreover have "s - of_nat r + 4 = s + of_nat (4 - r)"
    using r by auto
  moreover have "(s - of_nat r + 4) AND 3 = 0"
    using al by simp
  ultimately have "dest_aligned_loop (8 * r) (32 - 8 * r) n dst (s - of_nat r + 4) ap m = Some (copied dst s (4 * n) m)"
    using assms by (intro dest_aligned_loop_copied r) simp_all
  then show ?thesis
    using ap by (simp add: wordcopy_fwd_dest_aligned_def and_minus_4 Let_def flip: r_def) (simp add: s)
qed

section \<open>memcpy\<close>

lemma align_up: "(a + (- a) mod 4) AND 3 = 0" for a :: u32
proof -
  have "(unat a + unat (- a)) mod 4 = 0"
    using unat_add_mod_4 [of a "- a"] by simp
  then show ?thesis
    unfolding aligned_iff unat_add_mod_4 by (simp add: unat_mod mod_add_right_eq)
qed

lemma words_of_length:
  fixes len :: u32
  shows "4 * unat (len div 4) + unat (len mod 4) = unat len" "len - len mod 4 = of_nat (4 * unat (len div 4))"
    "unat (len AND 3) = unat (len mod 4)"
proof -
  show "4 * unat (len div 4) + unat (len mod 4) = unat len"
    by (simp add: unat_div unat_mod)
  then have "of_nat (4 * unat (len div 4) + unat (len mod 4)) = (of_nat (unat len) :: u32)"
    by (rule arg_cong)
  then have "of_nat (4 * unat (len div 4)) + len mod 4 = len"
    by (simp only: of_nat_add unsigned_word_eqI of_nat_unat) simp
  then show "len - len mod 4 = of_nat (4 * unat (len div 4))"
    by (metis add_diff_cancel_right')
  show "unat (len AND 3) = unat (len mod 4)"
    by (simp add: and_3)
qed

text \<open>Copying upwards with whole words, aligned or not, is copying.\<close>

lemma words_copied:
  assumes "dst AND 3 = 0" "fwd_ok dst src (4 * n)"
  shows "(if src mod 4 = 0 then wordcopy_fwd_aligned n dst src m else wordcopy_fwd_dest_aligned n dst src m)
    = Some (copied dst src (4 * n) m)"
  using assms wordcopy_fwd_aligned_copied wordcopy_fwd_dest_aligned_copied by (simp add: and_3)

lemma memcpy_copied:
  assumes "fwd_ok dst src (unat len)"
  shows "memcpy dst src len m = Some (copied dst src (unat len) m)"
proof (cases "len \<ge> 16")
  case True
  define k where "k = (- dst) mod 4"
  define n where "n = unat ((len - k) div 4)"
  define t where "t = unat ((len - k) mod 4)"
  have k: "unat k < 4"
    by (simp add: k_def unat_mod)
  have l: "unat (len - k) = unat len - unat k" "unat k \<le> unat len"
    using unat_minus_of_nat [of "unat k" len] k True by (simp_all add: word_le_nat_alt)
  then have sum: "unat len = unat k + (4 * n + t)"
    using words_of_length(1) [of "len - k"] by (simp add: n_def t_def)
  let ?m = "copied dst src (unat k) m"
  have w: "copied (dst + k) (src + k) (4 * n) ?m = copied dst src (unat k + 4 * n) m"
    using copied_append [of dst src "unat k" "4 * n" m] fwd_ok_mono [OF assms, of "unat k + 4 * n"] sum by simp
  have b: "BYTE_COPY_FWD (unat k) dst src m = ?m"
    using fwd_ok_mono [OF assms] sum by (intro BYTE_COPY_FWD_copied) simp
  have "fwd_ok (dst + k) (src + k) (4 * n)"
    using fwd_ok_mono [OF assms] sum by simp
  then have 1: "(if (src + k) mod 4 = 0 then wordcopy_fwd_aligned n (dst + k) (src + k) ?m
      else wordcopy_fwd_dest_aligned n (dst + k) (src + k) ?m) = Some (copied dst src (unat k + 4 * n) m)"
    using words_copied [of "dst + k" "src + k" n ?m] align_up [of dst] w by (simp add: k_def)
  have s: "len - k AND - 4 = of_nat (4 * n)"
    using words_of_length(2) [of "len - k"] by (simp add: and_minus_4 n_def)
  have a: "dst + k + of_nat (4 * n) = dst + of_nat (unat k + 4 * n)" "src + k + of_nat (4 * n) = src + of_nat (unat k + 4 * n)"
    by simp_all
  have "fwd_ok (dst + of_nat (unat k + 4 * n)) (src + of_nat (unat k + 4 * n)) t"
    using fwd_ok_mono [OF assms] sum by simp
  then have "BYTE_COPY_FWD t (dst + of_nat (unat k + 4 * n)) (src + of_nat (unat k + 4 * n)) (copied dst src (unat k + 4 * n) m)
      = copied dst src (unat len) m"
    using BYTE_COPY_FWD_copied copied_append [of dst src "unat k + 4 * n" t m] assms sum by (simp add: add.assoc)
  then show ?thesis
    using True 1 b by (cases "(src + k) mod 4 = 0") (simp_all add: memcpy_def Let_def s add.assoc flip: k_def n_def t_def)
next
  case False
  then show ?thesis
    using assms BYTE_COPY_FWD_copied by (simp add: memcpy_def)
qed

section \<open>memmove\<close>

lemma low_bits_or: "(a OR b) AND 3 = 0 \<longleftrightarrow> a AND 3 = 0 \<and> b AND 3 = 0" for a b :: u32
  by (simp add: bit.conj_disj_distrib2 or_eq_0_iff)

lemma low_bits_xor: "(a XOR b) AND 3 = 0 \<longleftrightarrow> a AND 3 = b AND 3" for a b :: u32
  by (simp add: bit.conj_xor_distrib2)

lemma words_within:
  fixes len :: u32
  assumes "k \<le> unat len"
  shows "unat len = k + (4 * unat ((len - of_nat k) div 4) + unat ((len - of_nat k) AND 3))"
  using words_of_length(1,3) [of "len - of_nat k"] unat_minus_of_nat [OF assms] assms by simp

lemma fwd_pieces:
  fixes len :: u32
  assumes "fwd_ok dst src (unat len)" "k \<le> unat len" "n = unat ((len - of_nat k) div 4)"
    and "0 < n \<Longrightarrow> (dst + of_nat k) AND 3 = 0 \<and> (src + of_nat k) AND 3 = 0"
  shows "do { m \<leftarrow> words_aligned n (dst + of_nat k) (src + of_nat k) (BYTE_COPY_FWD k dst src m);
      Some (BYTE_COPY_FWD (unat ((len - of_nat k) AND 3)) (dst + of_nat k + 4 * of_nat n) (src + of_nat k + 4 * of_nat n) m) }
    = Some (copied dst src (unat len) m)"
proof -
  define t where "t = unat ((len - of_nat k) AND 3)"
  have sum: "unat len = k + 4 * n + t"
    using words_within [OF assms(2)] assms(3) by (simp add: t_def)
  have k: "BYTE_COPY_FWD k dst src m = copied dst src k m"
    using fwd_ok_mono [OF assms(1)] sum by (intro BYTE_COPY_FWD_copied) simp
  have "words_aligned n (dst + of_nat k) (src + of_nat k) (copied dst src k m)
      = Some (copied (dst + of_nat k) (src + of_nat k) (4 * n) (copied dst src k m))"
    using assms(4) fwd_ok_mono [OF assms(1)] sum by (cases "n = 0") (auto intro!: words_aligned_copied)
  also have "copied (dst + of_nat k) (src + of_nat k) (4 * n) (copied dst src k m) = copied dst src (k + 4 * n) m"
    using fwd_ok_mono [OF assms(1)] sum by (intro copied_append) simp
  finally have w: "words_aligned n (dst + of_nat k) (src + of_nat k) (copied dst src k m) = Some (copied dst src (k + 4 * n) m)" .
  have a: "dst + of_nat k + 4 * of_nat n = dst + of_nat (k + 4 * n)" "src + of_nat k + 4 * of_nat n = src + of_nat (k + 4 * n)"
    by simp_all
  have "fwd_ok (dst + of_nat (k + 4 * n)) (src + of_nat (k + 4 * n)) t"
    using fwd_ok_mono [OF assms(1)] sum by simp
  then have "BYTE_COPY_FWD t (dst + of_nat (k + 4 * n)) (src + of_nat (k + 4 * n)) (copied dst src (k + 4 * n) m) = copied dst src (unat len) m"
    using BYTE_COPY_FWD_copied copied_append [of dst src "k + 4 * n" t m] assms(1) sum by simp
  then show ?thesis
    using k w by (simp add: a del: of_nat_add of_nat_mult flip: t_def)
qed

text \<open>The bytes that are copied one by one first: none, all, or as many as make both addresses aligned.\<close>

lemma move_forward_copied:
  assumes "fwd_ok dst src (unat len)" "len \<noteq> 0"
  shows "move_forward dst src len m = Some (copied dst src (unat len) m)"
proof (cases "(src OR dst) AND 3 = 0")
  case True
  then show ?thesis
    using fwd_pieces [OF assms(1), of 0 _ m] by (simp add: move_forward_def low_bits_or)
next
  case False
  define t where "t = (if (src XOR dst) AND 3 \<noteq> 0 \<or> len < 4 then len else 4 - (src AND 3))"
  have "t \<noteq> 0 \<and> unat t \<le> unat len \<and> (0 < unat ((len - t) div 4) \<longrightarrow> (dst + t) AND 3 = 0 \<and> (src + t) AND 3 = 0)"
  proof (cases "(src XOR dst) AND 3 \<noteq> 0 \<or> len < 4")
    case True
    then show ?thesis
      using assms(2) by (simp add: t_def)
  next
    case no: False
    then have same: "src AND 3 = dst AND 3" "src AND 3 \<noteq> 0"
      using False by (auto simp: low_bits_xor low_bits_or)
    have "unat (src AND 3) < 4"
      by (simp add: unat_and_3)
    then have t: "unat t = 4 - unat (src AND 3)"
      using no by (simp add: t_def unat_sub word_le_nat_alt)
    then have "t \<noteq> 0" "unat t \<le> unat len"
      using no \<open>unat (src AND 3) < 4\<close> by (auto simp: word_less_nat_alt)
    moreover have "(x + t) AND 3 = 0" if "x AND 3 = src AND 3" for x
    proof -
      have "(unat x mod 4 + unat t) mod 4 = 0"
        using t that \<open>unat (src AND 3) < 4\<close> by (simp flip: unat_and_3)
      then show ?thesis
        by (simp add: aligned_iff unat_add_mod_4 mod_add_left_eq)
    qed
    ultimately show ?thesis
      using same by simp
  qed
  then have t: "t \<noteq> 0" and p: "do { m \<leftarrow> words_aligned (unat ((len - t) div 4)) (dst + t) (src + t) (BYTE_COPY_FWD (unat t) dst src m);
      Some (BYTE_COPY_FWD (unat ((len - t) AND 3)) (dst + t + 4 * of_nat (unat ((len - t) div 4))) (src + t + 4 * of_nat (unat ((len - t) div 4))) m) }
    = Some (copied dst src (unat len) m)"
    using fwd_pieces [OF assms(1), of "unat t" _ m] by simp_all
  show ?thesis
    unfolding move_forward_def Let_def t_def [symmetric] do_times_def using False t p by simp
qed

text \<open>Copying downwards.\<close>

definition bwd_ok :: "u32 \<Rightarrow> u32 \<Rightarrow> nat \<Rightarrow> bool" where
  "bwd_ok dst src n \<longleftrightarrow> n \<le> 2 ^ 32 \<and> (dst = src \<or> n \<le> unat (src - dst))"

lemma bwd_ok_mono: "bwd_ok dst src n \<Longrightarrow> k \<le> n \<Longrightarrow> bwd_ok dst src k"
  by (auto simp: bwd_ok_def)

lemma bwd_ok_shift [simp]: "bwd_ok (dst - d) (src - d) n = bwd_ok dst src n" "bwd_ok (dst + d) (src + d) n = bwd_ok dst src n"
  by (simp_all add: bwd_ok_def)

lemma copied_prepend:
  assumes "bwd_ok dst src (n + k)"
  shows "copied dst src n (copied (dst + of_nat n) (src + of_nat n) k m) = copied dst src (n + k) m"
proof
  fix a
  let ?o = "a - dst"
  let ?m = "copied (dst + of_nat n) (src + of_nat n) k m"
  show "copied dst src n ?m a = copied dst src (n + k) m a"
  proof (cases "unat ?o < n")
    case True
    have "?m (src + ?o) = m (src + ?o)" if "dst \<noteq> src"
    proof -
      have s: "n + k \<le> unat (src - dst)"
        using assms that by (simp add: bwd_ok_def)
      have "unat (src - dst - of_nat n) = unat (src - dst) - n"
        using s by (intro unat_minus_of_nat) simp
      moreover have "src + ?o - (dst + of_nat n) = (src - dst - of_nat n) + ?o"
        by simp
      moreover have "unat ((src - dst - of_nat n) + ?o) = unat (src - dst - of_nat n) + unat ?o"
        using calculation(1) s True unat_u32_less [of "src - dst"] by (intro unat_add_lem [THEN iffD1]) simp
      ultimately have "\<not> unat (src + ?o - (dst + of_nat n)) < k"
        using s by (simp only:)
      then show ?thesis
        by (simp add: copied_def)
    qed
    then show ?thesis
      using True by (cases "dst = src") (simp_all add: copied_def [of dst src])
  next
    case False
    then have "unat (a - (dst + of_nat n)) = unat ?o - n"
      using unat_minus_of_nat [of n ?o] by (simp add: diff_diff_eq)
    moreover have "src + of_nat n + (a - (dst + of_nat n)) = src + ?o"
      by simp
    ultimately have "?m a = (if unat ?o - n < k then m (src + ?o) else m a)"
      by (simp only: copied_def)
    then show ?thesis
      using False by (auto simp: copied_def [of dst src])
  qed
qed

lemma byte_copy_bwd_copied:
  "bwd_ok (dst - of_nat n) (src - of_nat n) n \<Longrightarrow> byte_copy_bwd n dst src m = copied (dst - of_nat n) (src - of_nat n) n m"
proof (induction n arbitrary: dst src m)
  case (Suc n)
  have 1: "m(dst - 1 := m (src - 1)) = copied (dst - 1) (src - 1) 1 m"
    by (auto simp: copied_def unat_eq_zero)
  have d: "dst - of_nat (Suc n) = dst - 1 - of_nat n" "src - of_nat (Suc n) = src - 1 - of_nat n"
    by (simp_all add: diff_diff_eq)
  have "byte_copy_bwd n (dst - 1) (src - 1) (copied (dst - 1) (src - 1) 1 m)
      = copied (dst - 1 - of_nat n) (src - 1 - of_nat n) n (copied (dst - 1) (src - 1) 1 m)"
    using bwd_ok_mono [OF Suc.prems, of n] by (intro Suc.IH) (simp only: d)
  then show ?case
    using copied_prepend [of "dst - 1 - of_nat n" "src - 1 - of_nat n" n 1 m] Suc.prems 1 by (simp only: d) simp
qed simp

lemma word_copy_bwd_copied:
  "src AND 3 = 0 \<Longrightarrow> dst AND 3 = 0 \<Longrightarrow> bwd_ok (dst - of_nat (4 * n)) (src - of_nat (4 * n)) (4 * n) \<Longrightarrow>
    word_copy_bwd n dst src m = Some (copied (dst - of_nat (4 * n)) (src - of_nat (4 * n)) (4 * n) m)"
proof (induction n arbitrary: dst src m)
  case (Suc n)
  have al: "(src - 4) AND 3 = 0" "(dst - 4) AND 3 = 0"
    using Suc.prems(1,2) aligned_4 [of "src - 4"] aligned_4 [of "dst - 4"] by simp_all
  obtain w where w: "load32 m (src - 4) = Some w"
    using al(1) by (simp add: load32_def)
  have st: "store32 (dst - 4) w m = Some (copied (dst - 4) (src - 4) 4 m)"
    using store_words_copied [of "dst - 4" "[w]" m "src - 4"] load32_byte [OF w] al by (simp split: bind_splits)
  have d: "dst - of_nat (4 * Suc n) = dst - 4 - of_nat (4 * n)" "src - of_nat (4 * Suc n) = src - 4 - of_nat (4 * n)"
    by (simp_all add: diff_diff_eq)
  have "word_copy_bwd n (dst - 4) (src - 4) (copied (dst - 4) (src - 4) 4 m)
      = Some (copied (dst - 4 - of_nat (4 * n)) (src - 4 - of_nat (4 * n)) (4 * n) (copied (dst - 4) (src - 4) 4 m))"
  proof (rule Suc.IH)
    have "4 * n \<le> 4 * Suc n" by simp
    then show "bwd_ok (dst - 4 - of_nat (4 * n)) (src - 4 - of_nat (4 * n)) (4 * n)"
      using bwd_ok_mono [OF Suc.prems(3)] by (simp only: d)
  qed (fact al)+
  then show ?case
    using w st copied_prepend [of "dst - 4 - of_nat (4 * n)" "src - 4 - of_nat (4 * n)" "4 * n" 4 m] Suc.prems(3)
    by (simp only: d) (simp add: add.commute)
qed simp

lemma bwd_pieces:
  fixes len :: u32
  assumes "bwd_ok dst src (unat len)" "k \<le> unat len" "n = unat ((len - of_nat k) div 4)"
    and "0 < n \<Longrightarrow> (dst + len - of_nat k) AND 3 = 0 \<and> (src + len - of_nat k) AND 3 = 0"
  shows "do { m \<leftarrow> word_copy_bwd n (dst + len - of_nat k) (src + len - of_nat k) (byte_copy_bwd k (dst + len) (src + len) m);
      Some (byte_copy_bwd (unat ((len - of_nat k) AND 3)) (dst + len - of_nat k - 4 * of_nat n) (src + len - of_nat k - 4 * of_nat n) m) }
    = Some (copied dst src (unat len) m)"
proof -
  define t where "t = unat ((len - of_nat k) AND 3)"
  have sum: "unat len = t + (4 * n + k)"
    using words_within [OF assms(2)] assms(3) by (simp add: t_def)
  then have "(of_nat (unat len) :: u32) = of_nat (t + (4 * n + k))"
    by (rule arg_cong)
  then have "len = of_nat (t + (4 * n + k))"
    by (simp del: of_nat_add of_nat_mult)
  then have e: "a + len - of_nat k = a + of_nat t + of_nat (4 * n)" "a + len = a + of_nat t + of_nat (4 * n) + of_nat k" for a
    by simp_all
  have ok: "bwd_ok (dst + of_nat x) (src + of_nat x) y" if "x + y \<le> unat len" for x y
    using bwd_ok_mono [OF assms(1), of y] that by simp
  let ?d = "dst + of_nat t" and ?s = "src + of_nat t"
  have k: "byte_copy_bwd k (dst + len) (src + len) m = copied (?d + of_nat (4 * n)) (?s + of_nat (4 * n)) k m"
    using byte_copy_bwd_copied [of "dst + len" k "src + len" m] ok [of 0 k] sum by (simp add: e)
  have "word_copy_bwd n (?d + of_nat (4 * n)) (?s + of_nat (4 * n)) (copied (?d + of_nat (4 * n)) (?s + of_nat (4 * n)) k m)
      = Some (copied ?d ?s (4 * n) (copied (?d + of_nat (4 * n)) (?s + of_nat (4 * n)) k m))"
    using assms(4) ok [of t "4 * n"] sum word_copy_bwd_copied [of "?s + of_nat (4 * n)" "?d + of_nat (4 * n)" n]
    by (cases "n = 0") (simp_all add: e)
  also have "copied ?d ?s (4 * n) (copied (?d + of_nat (4 * n)) (?s + of_nat (4 * n)) k m) = copied ?d ?s (4 * n + k) m"
    using ok [of t "4 * n + k"] sum by (intro copied_prepend) simp
  finally have w: "word_copy_bwd n (?d + of_nat (4 * n)) (?s + of_nat (4 * n)) (copied (?d + of_nat (4 * n)) (?s + of_nat (4 * n)) k m)
      = Some (copied ?d ?s (4 * n + k) m)" .
  have "byte_copy_bwd t ?d ?s (copied ?d ?s (4 * n + k) m) = copied dst src t (copied ?d ?s (4 * n + k) m)"
    using byte_copy_bwd_copied [of ?d t ?s] ok [of 0 t] sum by simp
  also have "\<dots> = copied dst src (unat len) m"
    using copied_prepend [of dst src t "4 * n + k" m] assms(1) sum by simp
  finally have "byte_copy_bwd t ?d ?s (copied ?d ?s (4 * n + k) m) = copied dst src (unat len) m" .
  moreover have "a + of_nat t + of_nat (4 * n) - 4 * of_nat n = a + of_nat t" for a :: u32
    by simp
  ultimately show ?thesis
    unfolding k unfolding e t_def [symmetric] using w by simp
qed

lemma move_backward_copied:
  assumes "bwd_ok dst src (unat len)" "len \<noteq> 0"
  shows "move_backward dst src len m = Some (copied dst src (unat len) m)"
proof (cases "((src + len) OR (dst + len)) AND 3 = 0")
  case True
  then show ?thesis
    using bwd_pieces [OF assms(1), of 0 _ m] by (simp add: move_backward_def low_bits_or)
next
  case False
  define t where "t = (if ((src + len) XOR (dst + len)) AND 3 \<noteq> 0 \<or> len \<le> 4 then len else (src + len) AND 3)"
  have "t \<noteq> 0 \<and> unat t \<le> unat len \<and> (0 < unat ((len - t) div 4) \<longrightarrow> (dst + len - t) AND 3 = 0 \<and> (src + len - t) AND 3 = 0)"
  proof (cases "((src + len) XOR (dst + len)) AND 3 \<noteq> 0 \<or> len \<le> 4")
    case True
    then show ?thesis
      using assms(2) by (simp add: t_def)
  next
    case no: False
    then have same: "(src + len) AND 3 = (dst + len) AND 3" "(src + len) AND 3 \<noteq> 0" and t: "t = (src + len) AND 3"
      using False by (auto simp: low_bits_xor low_bits_or t_def)
    moreover have "unat t \<le> unat len"
    proof -
      have "unat t < 4"
        by (simp add: t unat_and_3)
      then show ?thesis
        using no by (simp add: word_less_nat_alt not_le)
    qed
    ultimately show ?thesis
      using minus_mod_aligned [of "src + len"] minus_mod_aligned [of "dst + len"] by (simp add: and_3)
  qed
  then have t: "t \<noteq> 0" and p: "do { m \<leftarrow> word_copy_bwd (unat ((len - t) div 4)) (dst + len - t) (src + len - t) (byte_copy_bwd (unat t) (dst + len) (src + len) m);
      Some (byte_copy_bwd (unat ((len - t) AND 3)) (dst + len - t - 4 * of_nat (unat ((len - t) div 4))) (src + len - t - 4 * of_nat (unat ((len - t) div 4))) m) }
    = Some (copied dst src (unat len) m)"
    using bwd_pieces [OF assms(1), of "unat t" _ m] by simp_all
  show ?thesis
    unfolding move_backward_def Let_def t_def [symmetric] do_times_def using False t p by simp
qed

section \<open>memset\<close>

definition filled_with :: "u32 \<Rightarrow> nat \<Rightarrow> u8 \<Rightarrow> mem \<Rightarrow> mem" where
  "filled_with dst n c m = (\<lambda>a. if unat (a - dst) < n then c else m a)"

lemma filled_append:
  assumes "k + n \<le> 2 ^ 32"
  shows "filled_with (dst + of_nat k) n c (filled_with dst k c m) = filled_with dst (k + n) c m"
proof
  fix a
  have "unat (a - (dst + of_nat k)) = (if unat (a - dst) < k then unat (a - dst) + 2 ^ 32 - k else unat (a - dst) - k)"
    using unat_minus_of_nat [of k "a - dst"] unat_minus_of_nat_wrap [of "a - dst" k] assms by (simp add: diff_diff_eq)
  then show "filled_with (dst + of_nat k) n c (filled_with dst k c m) a = filled_with dst (k + n) c m a"
    using assms by (auto simp: filled_with_def)
qed

lemma fill_bytes_filled: "n \<le> 2 ^ 32 \<Longrightarrow> fill_bytes n dst c m = filled_with dst n c m"
proof (induction n arbitrary: dst m)
  case (Suc n)
  have "m(dst := c) = filled_with dst 1 c m"
    by (auto simp: filled_with_def unat_eq_zero)
  then show ?case
    using Suc filled_append [of 1 n dst c m] by simp
qed (simp add: filled_with_def)

lemma fill_words_filled:
  "dst AND 3 = 0 \<Longrightarrow> 4 * n \<le> 2 ^ 32 \<Longrightarrow> (\<And>k. k < 4 \<Longrightarrow> byte_of k w = c) \<Longrightarrow> fill_words n dst w m = Some (filled_with dst (4 * n) c m)"
proof (induction n arbitrary: dst m)
  case (Suc n)
  have "store32 dst w m = Some (filled_with dst 4 c m)"
    using store32_result [OF Suc.prems(1), of w m] Suc.prems(3) by (auto simp: filled_with_def)
  moreover have "fill_words n (dst + 4) w (filled_with dst 4 c m) = Some (filled_with (dst + 4) (4 * n) c (filled_with dst 4 c m))"
    using Suc.prems by (intro Suc.IH) simp_all
  ultimately show ?case
    using filled_append [of 4 "4 * n" dst c m] Suc.prems(2) by simp
qed (simp add: filled_with_def)

lemma same_bytes:
  fixes b :: u8
  defines "c \<equiv> ucast b :: u32"
  shows "k < 4 \<Longrightarrow> byte_of k (if c \<noteq> 0 then let c = push_bit 8 c OR c in push_bit 16 c OR c else c) = b"
proof (cases "b = 0")
  case True
  then show ?thesis
    by (simp add: c_def byte_of_def)
next
  case False
  then have "c \<noteq> 0"
    using ucast_byte_inj [of b 0, where 'a = 32] by (simp add: c_def)
  moreover assume "k < 4"
  ultimately show ?thesis
    unfolding less_4_cases byte_of_def c_def by (elim disjE) (auto intro!: bit_word_eqI simp: bit_simps Let_def)
qed

lemma round_up: "(d + (4 - d mod 4) mod 4) mod 4 = 0" for d :: nat
proof -
  have "d mod 4 < 4" by simp
  then have "(d mod 4 + (4 - d mod 4)) mod 4 = 0" by simp
  then show ?thesis by (metis mod_add_eq mod_mod_trivial)
qed

text \<open>Filling: the bytes of the region have the low byte of the value, whatever the address and the length, and
  nothing else is changed; words are written at multiples of four only.\<close>

theorem memset_fills: "memset dst c0 len m = Some (\<lambda>a. if unat (a - dst) < unat len then ucast c0 else m a)"
proof (cases "len < 12")
  case True
  then show ?thesis
    using fill_bytes_filled [of "unat len" dst "ucast c0" m] unat_u32_less [of len] by (simp add: memset_def filled_with_def)
next
  case False
  define w where "w = (let c = ucast (ucast c0 :: u8) :: u32 in if c \<noteq> 0 then let c = push_bit 8 c OR c in push_bit 16 c OR c else c)"
  have w: "byte_of k w = ucast c0" if "k < 4" for k
    using same_bytes [OF that, of "ucast c0"] unfolding w_def Let_def .
  let ?t = "dst AND 3"
  define k where "k = (if ?t \<noteq> 0 then unat (4 - ?t) else 0)"
  have t4: "unat ?t < 4" by (simp add: unat_and_3)
  then have k: "k = (4 - unat ?t) mod 4"
    using unat_eq_zero [of ?t] by (cases "?t = 0") (simp_all add: k_def unat_sub word_le_nat_alt)
  have l: "12 \<le> unat len"
    using False by (simp add: word_less_nat_alt not_less)
  have k4: "k < 4"
    by (simp add: k)
  then have kl: "k \<le> unat len" and ku: "unat (of_nat k :: u32) = k"
    using l by (simp_all add: unat_of_nat take_bit_eq_mod)
  define n where "n = unat ((len - of_nat k) div 4)"
  define t where "t = unat ((len - of_nat k) AND 3)"
  have sum: "unat len = k + 4 * n + t"
    using words_within [OF kl] by (simp add: n_def t_def)
  have small: "unat len \<le> 2 ^ 32"
    using unat_u32_less [of len] by simp
  have "t < 4"
    by (simp add: t_def unat_and_3)
  then have n: "do_times ((len - of_nat k) div 4) = n"
    using sum l k4 by (auto simp: do_times_def n_def)
  have al: "(dst + of_nat k) AND 3 = 0"
    unfolding aligned_iff unat_add_mod_4 ku using k round_up [of "unat dst"] by (simp only: unat_and_3)
  have "of_nat k = 4 - ?t \<and> do_times (4 - ?t) = k" if "?t \<noteq> 0"
    using that t4 by (auto simp: k_def do_times_def)
  moreover have "fill_bytes k dst (ucast c0) m = filled_with dst k (ucast c0) m"
    using k4 by (intro fill_bytes_filled) simp
  moreover have "filled_with dst 0 c m = m" for c
    by (simp add: filled_with_def)
  ultimately have head: "(if ?t \<noteq> 0 then (dst + (4 - ?t), len - (4 - ?t), fill_bytes (do_times (4 - ?t)) dst (ucast c0) m) else (dst, len, m))
      = (dst + of_nat k, len - of_nat k, filled_with dst k (ucast c0) m)"
    by (auto simp: k_def)
  have "fill_words n (dst + of_nat k) w (filled_with dst k (ucast c0) m) = Some (filled_with dst (k + 4 * n) (ucast c0) m)"
    using fill_words_filled [OF al, of n w "ucast c0"] w filled_append [of k "4 * n" dst "ucast c0" m] sum small by simp
  moreover have "fill_bytes t (dst + of_nat k + 4 * of_nat n) (ucast c0) (filled_with dst (k + 4 * n) (ucast c0) m) = filled_with dst (unat len) (ucast c0) m"
    using fill_bytes_filled [of t "dst + of_nat k + 4 * of_nat n"] filled_append [of "k + 4 * n" t dst "ucast c0" m] sum small
    by (simp add: add.assoc)
  moreover have "do_times ((len - of_nat k) AND 3) = t" if "(len - of_nat k) AND 3 \<noteq> 0"
    using that by (simp add: do_times_def t_def)
  moreover have "unat len = k + 4 * n" if "(len - of_nat k) AND 3 = 0"
    using that sum by (simp add: t_def)
  ultimately show ?thesis
    using False n unfolding memset_def Let_def w_def [unfolded Let_def, symmetric] head prod.case by (simp add: filled_with_def)
qed

section \<open>memcmp\<close>

lemma memcmp_loop_result:
  "(\<forall>i < n. m (s1 + of_nat i) = m (s2 + of_nat i)) \<and> memcmp_loop n s1 s2 m = 0 \<or>
   (\<exists>i < n. (\<forall>j < i. m (s1 + of_nat j) = m (s2 + of_nat j)) \<and> m (s1 + of_nat i) \<noteq> m (s2 + of_nat i) \<and>
     memcmp_loop n s1 s2 m = uint (m (s1 + of_nat i)) - uint (m (s2 + of_nat i)))"
proof (induction n arbitrary: s1 s2)
  case (Suc n)
  show ?case
  proof (cases "m s1 = m s2")
    case True
    have e: "(\<forall>i < Suc k. m (s1 + of_nat i) = m (s2 + of_nat i)) \<longleftrightarrow> (\<forall>i < k. m (s1 + 1 + of_nat i) = m (s2 + 1 + of_nat i))" for k
      using True by (simp add: All_less_Suc2 add.assoc)
    from Suc.IH [of "s1 + 1" "s2 + 1"] show ?thesis
    proof
      assume "\<exists>i<n. (\<forall>j<i. m (s1 + 1 + of_nat j) = m (s2 + 1 + of_nat j)) \<and> m (s1 + 1 + of_nat i) \<noteq> m (s2 + 1 + of_nat i) \<and>
        memcmp_loop n (s1 + 1) (s2 + 1) m = uint (m (s1 + 1 + of_nat i)) - uint (m (s2 + 1 + of_nat i))"
      then obtain i where "i < n" "\<forall>j<i. m (s1 + 1 + of_nat j) = m (s2 + 1 + of_nat j)" "m (s1 + 1 + of_nat i) \<noteq> m (s2 + 1 + of_nat i)"
        "memcmp_loop n (s1 + 1) (s2 + 1) m = uint (m (s1 + 1 + of_nat i)) - uint (m (s2 + 1 + of_nat i))"
        by blast
      then show ?thesis
        using True e [of i] by (intro disjI2 exI [of _ "Suc i"]) (simp add: add.assoc)
    qed (use True e in simp)
  next
    case False
    then show ?thesis
      by (intro disjI2 exI [of _ 0]) simp
  qed
qed simp

section \<open>What the routines do\<close>

text \<open>Two regions that do not go beyond the last address.\<close>

lemma no_wrap_fwd:
  assumes "unat src + n \<le> 2 ^ 32" "dst \<le> src"
  shows "fwd_ok dst src n"
proof (cases "dst = src")
  case False
  then have "unat dst < unat src"
    using assms(2) by (metis order_le_less unsigned_word_eqI word_le_nat_alt)
  then show ?thesis
    using unat_minus_wrap [of dst src] assms(1) unat_u32_less [of src] by (simp add: le_diff_conv2 fwd_ok_def)
qed (use assms in \<open>simp add: fwd_ok_def\<close>)

lemma no_wrap_bwd:
  assumes "unat dst + n \<le> 2 ^ 32" "src \<le> dst"
  shows "bwd_ok dst src n"
proof (cases "dst = src")
  case False
  then have "unat src < unat dst"
    using assms(2) by (metis order_le_less unsigned_word_eqI word_le_nat_alt)
  then show ?thesis
    using unat_minus_wrap [of src dst] assms(1) unat_u32_less [of dst] by (simp add: le_diff_conv2 bwd_ok_def)
qed (use assms in \<open>simp add: bwd_ok_def\<close>)

text \<open>C21: moving: for all addresses, aligned or not, overlapping or not, the bytes of the source as they were before the
  call are in the destination after it, and nothing else is changed; every word is read and written
  at a multiple of four.\<close>

theorem memmove_moves:
  assumes "unat src + unat len \<le> 2 ^ 32" "unat dst + unat len \<le> 2 ^ 32"
  shows "memmove dst src len m = Some (\<lambda>a. if unat (a - dst) < unat len then m (src + (a - dst)) else m a)"
proof -
  have "memmove dst src len m = Some (copied dst src (unat len) m)"
    using move_forward_copied [OF no_wrap_fwd [OF assms(1)]] move_backward_copied [OF no_wrap_bwd [OF assms(2)]]
    by (auto simp: memmove_def not_less unat_eq_zero)
  then show ?thesis
    by (simp add: copied_def)
qed


theorem memmove_moves_witness:
  "map_option (\<lambda>m. map (\<lambda>k. m (of_nat k)) [102..<112]) (memmove 102 100 8 (\<lambda>a. ucast a)) =
     Some [100, 101, 102, 103, 104, 105, 106, 107, 110, 111]"
  using memmove_moves [of 100 8 102 "\<lambda>a. ucast a"] by (simp add: upt_rec)

text \<open>C20: \<open>memcpy\<close>, with its words, shifts and unrolled loops, does what the loop over bytes \<open>memcpyb\<close> does, for all
  addresses, aligned or not, unless the destination starts inside the source; and that is to copy the
  bytes as they were before the call. All its reads and writes of words are at multiples of four.\<close>

theorem memcpy_equivalent:
  assumes "dst = src \<or> unat len \<le> unat (dst - src)"
  shows "memcpy dst src len m = Some (memcpyb dst src len m) \<and>
    memcpyb dst src len m = (\<lambda>a. if unat (a - dst) < unat len then m (src + (a - dst)) else m a)"
proof -
  have ok: "fwd_ok dst src (unat len)"
    using assms unat_u32_less [of len] by (simp add: fwd_ok_def)
  then show ?thesis
    using memcpy_copied BYTE_COPY_FWD_copied by (simp add: memcpyb_def copied_def)
qed

theorem memcpy_equivalent_witness:
  "memcpy 100 203 19 (\<lambda>a. ucast a) = Some (memcpyb 100 203 19 (\<lambda>a. ucast a))"
  using memcpy_equivalent [of 100 203 19 "\<lambda>a. ucast a"] by simp

text \<open>A destination that starts inside the source: \<open>memcpyb\<close> repeats what it has written, \<open>memcpy\<close> reads whole words
  ahead and does something else.\<close>

theorem memcpy_overlap:
  "map_option (\<lambda>m. map (\<lambda>k. m (of_nat k)) [101..<117]) (memcpy 101 100 16 (\<lambda>a. ucast a)) \<noteq>
     Some (map (\<lambda>k. memcpyb 101 100 16 (\<lambda>a. ucast a) (of_nat k)) [101..<117])"
  by code_simp

text \<open>Comparing: 0 when the regions are equal, else the difference of the first bytes that differ, as numbers
  without sign, hence with the sign of their lexicographic order.\<close>

theorem memcmp_compares:
  "(memcmp s1 s2 n m = 0) = (\<forall>i < unat n. m (s1 + of_nat i) = m (s2 + of_nat i)) \<and>
   (memcmp s1 s2 n m < 0) = (\<exists>i < unat n. (\<forall>j < i. m (s1 + of_nat j) = m (s2 + of_nat j)) \<and> m (s1 + of_nat i) < m (s2 + of_nat i)) \<and>
   - 256 < memcmp s1 s2 n m \<and> memcmp s1 s2 n m < 256"
proof -
  have c: "memcmp s1 s2 n m = memcmp_loop (unat n) s1 s2 m"
    by (cases "n = 0") (simp_all add: memcmp_def)
  from memcmp_loop_result [of "unat n" m s1 s2] show ?thesis
  proof
    assume "\<exists>i < unat n. (\<forall>j < i. m (s1 + of_nat j) = m (s2 + of_nat j)) \<and> m (s1 + of_nat i) \<noteq> m (s2 + of_nat i) \<and>
      memcmp_loop (unat n) s1 s2 m = uint (m (s1 + of_nat i)) - uint (m (s2 + of_nat i))"
    then obtain i where i: "i < unat n" "\<forall>j < i. m (s1 + of_nat j) = m (s2 + of_nat j)" "m (s1 + of_nat i) \<noteq> m (s2 + of_nat i)"
      "memcmp s1 s2 n m = uint (m (s1 + of_nat i)) - uint (m (s2 + of_nat i))"
      by (auto simp: c)
    have b: "0 \<le> uint x" "uint x < 256" for x :: u8
      using unsigned_less [of x, where 'a = int] by simp_all
    have less: "memcmp s1 s2 n m < 0 \<longleftrightarrow> m (s1 + of_nat i) < m (s2 + of_nat i)"
      using i(4) by (simp add: word_less_def)
    have "k = i" if "\<forall>j < k. m (s1 + of_nat j) = m (s2 + of_nat j)" "m (s1 + of_nat k) \<noteq> m (s2 + of_nat k)" for k
      using that i(2,3) by (meson linorder_neqE_nat)
    then have "(\<exists>i < unat n. (\<forall>j < i. m (s1 + of_nat j) = m (s2 + of_nat j)) \<and> m (s1 + of_nat i) < m (s2 + of_nat i)) \<longleftrightarrow>
        m (s1 + of_nat i) < m (s2 + of_nat i)"
      using i(1,2) by (metis order_less_irrefl)
    moreover have "memcmp s1 s2 n m \<noteq> 0"
      using i(3,4) unsigned_word_eqI [where 'a = int, of "m (s1 + of_nat i)" "m (s2 + of_nat i)"] by auto
    moreover have "- 256 < memcmp s1 s2 n m" "memcmp s1 s2 n m < 256"
      unfolding i(4) using b(1) [of "m (s1 + of_nat i)"] b(2) [of "m (s2 + of_nat i)"]
        b(2) [of "m (s1 + of_nat i)"] b(1) [of "m (s2 + of_nat i)"] by linarith+
    ultimately show ?thesis
      using i(1,3) less by blast
  qed (auto simp: c)
qed

theorem memcmp_compares_witness:
  "memcmp 10 20 3 (\<lambda>a. ucast a) < 0 \<and> memcmp 10 10 3 (\<lambda>a. ucast a) = 0"
proof -
  have "\<exists>i < unat (3 :: u32). (\<forall>j < i. (ucast (10 + of_nat j :: u32) :: u8) = ucast (20 + of_nat j :: u32)) \<and>
      (ucast (10 + of_nat i :: u32) :: u8) < ucast (20 + of_nat i :: u32)"
    by (rule exI [of _ 0]) simp
  then show ?thesis
    using memcmp_compares [of 10 20 3 "\<lambda>a. ucast a"] memcmp_compares [of 10 10 3 "\<lambda>a. ucast a"] by simp
qed

end
