(* ===== verification/Std_Str.thy ===== *)
theory Std_Str
  imports Std_Mem_Copy
begin

text \<open>
  The string routines of the freestanding C library (std/src: strlen.c, strcpy.c, strchr.c, strncmp.c) on the memory of
  the memory routines. The loops look for a byte that is 0 and have no other bound, so they are
  partial functions: \<open>None\<close> is a loop that never ends.
\<close>

section \<open>strlen.c\<close>

partial_function (option) strlen_loop :: "mem \<Rightarrow> u32 \<Rightarrow> u32 option" where
  "strlen_loop m s = (if m s \<noteq> 0 then strlen_loop m (s + 1) else Some s)"

definition strlen :: "mem \<Rightarrow> u32 \<Rightarrow> u32 option" where
  "strlen m str = do { s \<leftarrow> strlen_loop m str; Some (s - str) }"

text \<open>The counter is read before it is decremented.\<close>

fun strnlen_loop :: "nat \<Rightarrow> mem \<Rightarrow> u32 \<Rightarrow> u32" where
  "strnlen_loop 0 m s = s"
| "strnlen_loop (Suc n) m s = (if m s \<noteq> 0 then strnlen_loop n m (s + 1) else s)"

definition strnlen :: "mem \<Rightarrow> u32 \<Rightarrow> u32 \<Rightarrow> u32" where
  "strnlen m str len = strnlen_loop (unat len) m str - str"

section \<open>strcpy.c\<close>

partial_function (option) strcpy_loop :: "u32 \<Rightarrow> u32 \<Rightarrow> mem \<Rightarrow> mem option" where
  "strcpy_loop dst src m =
     (let m' = m(dst := m src) in if m' dst \<noteq> 0 then strcpy_loop (dst + 1) (src + 1) m' else Some m')"

definition std_strcpy :: "u32 \<Rightarrow> u32 \<Rightarrow> mem \<Rightarrow> mem option" where
  "std_strcpy dst src m = strcpy_loop dst src m"

section \<open>strchr.c\<close>

text \<open>The result is an address or \<open>NULL\<close>, the address 0; characters have no sign on this processor.\<close>

partial_function (option) strchr :: "mem \<Rightarrow> u32 \<Rightarrow> 32 word \<Rightarrow> u32 option" where
  "strchr m p ch =
     (if m p = ucast ch then Some p else if m p = 0 then Some 0 else strchr m (p + 1) ch)"

partial_function (option) strrchr_loop :: "mem \<Rightarrow> u32 \<Rightarrow> 32 word \<Rightarrow> u32 \<Rightarrow> u32 option" where
  "strrchr_loop m p ch save =
     (let save = (if ucast (m p) = ch then p else save) in
      if m p = 0 then Some save else strrchr_loop m (p + 1) ch save)"

definition strrchr :: "mem \<Rightarrow> u32 \<Rightarrow> 32 word \<Rightarrow> u32 option" where
  "strrchr m p ch = strrchr_loop m p ch 0"

section \<open>strncmp.c\<close>

fun strncmp_loop :: "nat \<Rightarrow> u32 \<Rightarrow> u32 \<Rightarrow> mem \<Rightarrow> int" where
  "strncmp_loop 0 s1 s2 m = 0"
| "strncmp_loop (Suc n) s1 s2 m =
     (if m s1 \<noteq> m s2 then uint (m s1) - uint (m s2)
      else if m s1 = 0 then 0 else strncmp_loop n (s1 + 1) (s2 + 1) m)"

definition strncmp :: "u32 \<Rightarrow> u32 \<Rightarrow> u32 \<Rightarrow> mem \<Rightarrow> int" where
  "strncmp s1 s2 n m = (if n = 0 then 0 else strncmp_loop (unat n) s1 s2 m)"

section \<open>Strings in memory\<close>

text \<open>At \<open>a\<close> there is a string of \<open>n\<close> characters.\<close>

definition string_at :: "mem \<Rightarrow> u32 \<Rightarrow> nat \<Rightarrow> bool" where
  "string_at m a n \<longleftrightarrow> n < 2 ^ 32 \<and> (\<forall>i < n. m (a + of_nat i) \<noteq> 0) \<and> m (a + of_nat n) = 0"

lemma string_at_0: "string_at m a 0 \<longleftrightarrow> m a = 0"
  by (simp add: string_at_def)

lemma string_at_Suc: "string_at m a (Suc n) \<longleftrightarrow> Suc n < 2 ^ 32 \<and> m a \<noteq> 0 \<and> string_at m (a + 1) n"
  by (auto simp: string_at_def All_less_Suc2 add.assoc)

text \<open>One of the addresses from \<open>a\<close> on has a 0, or none has.\<close>

lemma string_cases:
  obtains n where "string_at m a n" | "\<And>x. m x \<noteq> 0"
proof (cases "\<exists>x. m x = 0")
  case True
  then obtain x where "m x = 0" by blast
  then have ex: "\<exists>i. i < 2 ^ 32 \<and> m (a + of_nat i) = 0"
    using unat_u32_less [of "x - a"] by (intro exI [of _ "unat (x - a)"]) simp
  define n where "n = (LEAST i. i < 2 ^ 32 \<and> m (a + of_nat i) = 0)"
  have "n < 2 ^ 32 \<and> m (a + of_nat n) = 0"
    unfolding n_def using ex by (rule LeastI_ex)
  moreover have "m (a + of_nat i) \<noteq> 0" if "i < n" for i
    using not_less_Least [of i "\<lambda>i. i < 2 ^ 32 \<and> m (a + of_nat i) = 0"] that calculation by (auto simp: n_def)
  ultimately show ?thesis
    using that(1) [of n] by (simp add: string_at_def)
qed (use that(2) in blast)

lemma strlen_loop_at: "string_at m a n \<Longrightarrow> strlen_loop m a = Some (a + of_nat n)"
proof (induction n arbitrary: a)
  case (Suc n)
  then show ?case
    by (subst strlen_loop.simps) (simp add: string_at_Suc add.assoc)
qed (simp add: string_at_0 strlen_loop.simps)

lemma strlen_loop_ends: "strlen_loop m a = Some s \<Longrightarrow> m s = 0"
  by (rule strlen_loop.raw_induct [where P = "\<lambda>m a s. m s = 0"]) (auto split: if_splits)

lemma strnlen_loop_at: "string_at m a n \<Longrightarrow> strnlen_loop k m a = a + of_nat (min k n)"
proof (induction k arbitrary: a n)
  case (Suc k)
  then show ?case
    using Suc.IH [of "a + 1" "n - 1"] by (cases n) (auto simp: string_at_0 string_at_Suc add.assoc)
qed simp

lemma strnlen_loop_full: "(\<forall>i < k. m (a + of_nat i) \<noteq> 0) \<Longrightarrow> strnlen_loop k m a = a + of_nat k"
  by (induction k arbitrary: a) (simp_all add: All_less_Suc2 add.assoc)

lemma strchr_at:
  "string_at m a n \<Longrightarrow> strchr m a ch = Some (if \<exists>i \<le> n. m (a + of_nat i) = ucast ch
     then a + of_nat (LEAST i. m (a + of_nat i) = ucast ch) else 0)"
proof (induction n arbitrary: a)
  case 0
  then show ?case
    by (subst strchr.simps) (auto simp: string_at_0)
next
  case (Suc n)
  show ?case
  proof (cases "m a = ucast ch")
    case True
    then show ?thesis
      by (subst strchr.simps) auto
  next
    case False
    have ex: "(\<exists>i \<le> Suc n. m (a + of_nat i) = ucast ch) \<longleftrightarrow> (\<exists>i \<le> n. m (a + 1 + of_nat i) = ucast ch)"
      using False by (auto simp: Ex_less_Suc2 add.assoc simp flip: less_Suc_eq_le)
    have "(LEAST i. m (a + of_nat i) = ucast ch) = Suc (LEAST i. m (a + 1 + of_nat i) = ucast ch)"
      if "m (a + 1 + of_nat i) = ucast ch" for i
      using Least_Suc [of "\<lambda>i. m (a + of_nat i) = ucast ch" "Suc i"] that False by (simp add: add.assoc)
    then show ?thesis
      using Suc False ex by (subst strchr.simps) (auto simp: string_at_Suc add.assoc)
  qed
qed

text \<open>\<open>strrchr\<close> compares the character without a conversion.\<close>

lemma strrchr_loop_at:
  "string_at m a n \<Longrightarrow> strrchr_loop m a ch save = Some (if \<exists>i \<le> n. ucast (m (a + of_nat i)) = ch
     then a + of_nat (GREATEST i. i \<le> n \<and> ucast (m (a + of_nat i)) = ch) else save)"
proof (induction n arbitrary: a save)
  case 0
  then show ?case
    using Greatest_equality [of "\<lambda>i. i = 0 \<and> ucast (m (a + of_nat i)) = ch" 0]
    by (subst strrchr_loop.simps) (auto simp: string_at_0)
next
  case (Suc n)
  let ?Q = "\<lambda>i. i \<le> n \<and> ucast (m (a + 1 + of_nat i)) = ch"
  let ?P = "\<lambda>i. i \<le> Suc n \<and> ucast (m (a + of_nat i)) = ch"
  have PQ: "?P (Suc i) = ?Q i" for i
    by (simp add: add.assoc)
  have IH: "strrchr_loop m (a + 1) ch s = Some (if \<exists>i. ?Q i then a + 1 + of_nat (Greatest ?Q) else s)" for s
    using Suc by (auto simp: string_at_Suc)
  have g: "Greatest ?P = Suc (Greatest ?Q)" if q: "?Q i" for i
  proof (rule Greatest_equality)
    have "?Q (Greatest ?Q)"
      using GreatestI_nat [of ?Q i n] q by blast
    then show "?P (Suc (Greatest ?Q))"
      using PQ by blast
    show "y \<le> Suc (Greatest ?Q)" if "?P y" for y
      using that PQ Greatest_le_nat [of ?Q _ n] by (cases y) auto
  qed
  have z: "Greatest ?P = 0" if "\<not> (\<exists>i. ?Q i)" "?P 0"
  proof (rule Greatest_equality)
    show "y \<le> 0" if "?P y" for y
      using that \<open>\<not> (\<exists>i. ?Q i)\<close> PQ by (cases y) auto
  qed (use that in simp)
  have ex: "(\<exists>i. ?P i) \<longleftrightarrow> ?P 0 \<or> (\<exists>i. ?Q i)"
    using PQ by (metis not0_implies_Suc)
  have m: "m a \<noteq> 0"
    using Suc.prems by (simp add: string_at_Suc)
  have st: "strrchr_loop m a ch save = Some (if \<exists>i. ?Q i then a + 1 + of_nat (Greatest ?Q) else if ucast (m a) = ch then a else save)"
    using m IH by (subst strrchr_loop.simps) simp
  show ?case
  proof (cases "\<exists>i. ?Q i")
    case True
    then show ?thesis
      using st ex g by (auto simp: add.assoc)
  next
    case False
    then show ?thesis
      using st ex z by auto
  qed
qed

section \<open>Copying a string\<close>

lemma strcpy_loop_copied:
  "string_at m src n \<Longrightarrow> fwd_ok dst src (Suc n) \<Longrightarrow> strcpy_loop dst src m = Some (copied dst src (Suc n) m)"
proof (induction n arbitrary: dst src m)
  case 0
  have 1: "m(dst := 0) = copied dst src 1 m"
    using 0 by (auto simp: copied_def unat_eq_zero string_at_0)
  have "strcpy_loop dst src m = Some (m(dst := 0))"
    using 0 by (subst strcpy_loop.simps) (simp add: string_at_0)
  then show ?case
    using 1 by simp
next
  case (Suc n)
  have 1: "m(dst := m src) = copied dst src 1 m"
    by (auto simp: copied_def unat_eq_zero)
  have a: "copied dst src 1 m (src + 1 + of_nat i) = m (src + 1 + of_nat i)" if "i \<le> n" for i
    using copied_ahead [OF Suc.prems(2), of 1 "Suc i" m] that by (simp add: add.assoc)
  have "string_at (copied dst src 1 m) (src + 1) n"
    using Suc.prems(1) a by (simp add: string_at_Suc string_at_def [of _ "src + 1"])
  moreover have "fwd_ok (dst + 1) (src + 1) (Suc n)"
    using fwd_ok_mono [OF Suc.prems(2), of "Suc n"] by simp
  ultimately have "strcpy_loop (dst + 1) (src + 1) (copied dst src 1 m) = Some (copied (dst + 1) (src + 1) (Suc n) (copied dst src 1 m))"
    by (rule Suc.IH)
  moreover have "copied (dst + 1) (src + 1) (Suc n) (copied dst src 1 m) = copied dst src (Suc (Suc n)) m"
    using copied_append [of dst src 1 "Suc n" m] Suc.prems(2) by simp
  moreover have "strcpy_loop dst src m = strcpy_loop (dst + 1) (src + 1) (m(dst := m src))"
    using Suc.prems(1) by (subst strcpy_loop.simps) (simp add: string_at_Suc)
  ultimately show ?case
    using 1 by simp
qed

text \<open>When the target starts inside the string the loop runs after what it writes.\<close>

definition chasing :: "u32 \<Rightarrow> u32 \<Rightarrow> mem \<Rightarrow> bool" where
  "chasing dst src m \<longleftrightarrow> (\<exists>d. 0 < d \<and> d < 2 ^ 32 \<and> dst = src + of_nat d \<and> (\<forall>i < d. m (src + of_nat i) \<noteq> 0))"

lemma chasing_step:
  assumes "chasing dst src m"
  shows "chasing (dst + 1) (src + 1) (m(dst := m src))" "m src \<noteq> 0"
proof -
  obtain d where d: "0 < d" "d < 2 ^ 32" "dst = src + of_nat d" "\<And>i. i < d \<Longrightarrow> m (src + of_nat i) \<noteq> 0"
    using assms by (auto simp: chasing_def)
  show "m src \<noteq> 0"
    using d(4) [of 0] d(1) by simp
  have "(m(dst := m src)) (src + 1 + of_nat i) \<noteq> 0" if "i < d" for i
  proof (cases "src + 1 + of_nat i = dst")
    case True
    then show ?thesis
      using \<open>m src \<noteq> 0\<close> by simp
  next
    case False
    then have "Suc i \<noteq> d"
      by (auto simp: d(3))
    then show ?thesis
      using d(4) [of "Suc i"] that False by (simp add: add.assoc)
  qed
  then show "chasing (dst + 1) (src + 1) (m(dst := m src))"
    unfolding chasing_def using d(1-3) by (intro exI [of _ d]) simp
qed

lemma strcpy_loop_chasing:
  assumes "chasing dst src m"
  shows "strcpy_loop dst src m = None"
proof -
  have "\<not> chasing dst src m" if "strcpy_loop dst src m = Some r" for r
    by (rule strcpy_loop.raw_induct [where P = "\<lambda>dst src m r. \<not> chasing dst src m", OF _ that])
      (auto simp: Let_def split: if_splits dest: chasing_step)
  then show ?thesis
    using assms by (cases "strcpy_loop dst src m") auto
qed

section \<open>What the routines do\<close>

text \<open>C22: copying a string ends exactly when the target does not start inside the string behind its first character; it then
  copies the string as it was with its 0, and nothing else is changed. When it does start there the
  loop overwrites the 0 before it comes to it and never ends.\<close>

theorem strcpy_ends:
  assumes "string_at m src n"
  shows "std_strcpy dst src m =
    (if dst = src \<or> n < unat (dst - src) then Some (\<lambda>a. if unat (a - dst) \<le> n then m (src + (a - dst)) else m a) else None)"
proof (cases "dst = src \<or> n < unat (dst - src)")
  case True
  then have "fwd_ok dst src (Suc n)"
    using assms unat_u32_less [of "dst - src"] by (auto simp: fwd_ok_def string_at_def)
  then show ?thesis
    using strcpy_loop_copied [OF assms] True by (simp add: std_strcpy_def copied_def less_Suc_eq_le)
next
  case False
  then have "unat (dst - src) \<noteq> 0"
    by (simp add: unat_eq_zero)
  moreover have "dst = src + of_nat (unat (dst - src))"
    by simp
  moreover have "\<forall>i < unat (dst - src). m (src + of_nat i) \<noteq> 0"
    using assms False by (auto simp: string_at_def)
  ultimately have "chasing dst src m"
    unfolding chasing_def using unat_u32_less [of "dst - src"] by (intro exI [of _ "unat (dst - src)"]) simp
  then show ?thesis
    using strcpy_loop_chasing False by (simp add: std_strcpy_def)
qed

theorem strcpy_ends_witness:
  "map_option (\<lambda>m. map m [200, 201, 202, 203]) (std_strcpy 200 100 (\<lambda>a. if a = 102 then 0 else 65)) = Some [65, 65, 0, 65] \<and>
   std_strcpy 101 100 (\<lambda>a. if a = 102 then 0 else 65) = None"
proof -
  have "string_at (\<lambda>a. if a = 102 then 0 else 65) 100 2"
    by (auto simp: string_at_def less_2_cases_iff)
  then show ?thesis
    using strcpy_ends [of "\<lambda>a. if a = 102 then 0 else 65" 100 2] by simp
qed

text \<open>The length of a string is that of its characters, at most the bound; without a bound the search ends exactly when
  some byte of the memory is 0.\<close>

theorem strlen_string:
  "(\<exists>n. strlen m a = Some n) = (\<exists>x. m x = 0) \<and>
   (string_at m a k \<longrightarrow> strlen m a = Some (of_nat k) \<and> strnlen m a len = of_nat (min (unat len) k))"
proof
  show "(\<exists>n. strlen m a = Some n) = (\<exists>x. m x = 0)"
  proof
    assume "\<exists>n. strlen m a = Some n"
    then show "\<exists>x. m x = 0"
      using strlen_loop_ends by (cases "strlen_loop m a") (auto simp: strlen_def)
  next
    assume "\<exists>x. m x = 0"
    then show "\<exists>n. strlen m a = Some n"
      by (cases rule: string_cases [of m a]) (auto simp: strlen_def strlen_loop_at)
  qed
  show "string_at m a k \<longrightarrow> strlen m a = Some (of_nat k) \<and> strnlen m a len = of_nat (min (unat len) k)"
    by (simp add: strlen_def strlen_loop_at strnlen_def strnlen_loop_at)
qed

text \<open>The first and the last place of a character in a string, its 0 included.\<close>

theorem strchr_finds:
  assumes "string_at m a n" "c = ucast ch"
  shows "strchr m a ch = Some (if \<exists>i \<le> n. m (a + of_nat i) = c then a + of_nat (LEAST i. m (a + of_nat i) = c) else 0) \<and>
    strrchr m a (ucast c) = Some (if \<exists>i \<le> n. m (a + of_nat i) = c then a + of_nat (GREATEST i. i \<le> n \<and> m (a + of_nat i) = c) else 0)"
proof -
  have "ucast x = (ucast c :: u32) \<longleftrightarrow> x = c" for x
    by (simp add: ucast_byte_inj)
  then show ?thesis
    using strchr_at [OF assms(1), of ch] strrchr_loop_at [OF assms(1), of "ucast c" 0] unfolding assms(2) strrchr_def
    by (simp only:)
qed

text \<open>The last place is not found when the character has bits beyond the lowest eight, as a negative \<open>char\<close> would have.\<close>

theorem strrchr_no_conversion:
  "strchr (\<lambda>a. if a = 11 then 0 else 0xE9) 10 0xFFFFFFE9 = Some 10 \<and> strrchr (\<lambda>a. if a = 11 then 0 else 0xE9) 10 0xFFFFFFE9 = Some 0"
  by (simp add: strchr.simps strrchr_def strrchr_loop.simps)

lemma strncmp_loop_memcmp:
  "string_at m s1 k \<Longrightarrow> strncmp_loop n s1 s2 m = memcmp_loop (min n (Suc k)) s1 s2 m"
proof (induction n arbitrary: s1 s2 k)
  case (Suc n)
  then show ?case
    by (cases k) (auto simp: string_at_0 string_at_Suc)
qed simp

text \<open>Comparing at most \<open>n\<close> characters is comparing the memory up to the end of the first string.\<close>

theorem strncmp_compares:
  assumes "string_at m s1 k" "Suc k < 2 ^ 32"
  shows "strncmp s1 s2 n m = memcmp s1 s2 (of_nat (min (unat n) (Suc k))) m"
proof -
  have "unat (of_nat (min (unat n) (Suc k)) :: u32) = min (unat n) (Suc k)"
    using assms(2) by (simp add: unat_of_nat take_bit_eq_mod)
  then show ?thesis
    using strncmp_loop_memcmp [OF assms(1), of "unat n" s2] by (auto simp: strncmp_def memcmp_def)
qed

theorem strncmp_compares_witness:
  "strncmp 10 20 9 (\<lambda>a. if a = 11 then 0 else ucast a) = memcmp 10 20 2 (\<lambda>a. if a = 11 then 0 else ucast a)"
proof -
  have "string_at (\<lambda>a. if a = 11 then 0 else ucast a) 10 1"
    by (auto simp: string_at_def)
  then show ?thesis
    using strncmp_compares [of "\<lambda>a. if a = 11 then 0 else ucast a" 10 1 20 9] by simp
qed

theorem strlen_string_witness:
  "strlen (\<lambda>a. if a = 11 then 0 else ucast a) 10 = Some 1 \<and> strnlen (\<lambda>a. if a = 11 then 0 else ucast a) 10 7 = 1 \<and> strlen (\<lambda>a. 5) 10 = None"
proof -
  have "string_at (\<lambda>a. if a = 11 then 0 else ucast a) 10 1"
    by (auto simp: string_at_def)
  then show ?thesis
    using strlen_string [of "\<lambda>a. if a = 11 then 0 else ucast a" 10 1 7] strlen_string [of "\<lambda>a. 5" 10] by auto
qed

end
