(* ===== verification/Std_Printf.thy ===== *)
theory Std_Printf
  imports Std_Str Decimal
begin

text \<open>
  Formatted output of the freestanding C library (vsprintf.c; sul_string.c holds the same routines once more under other
  names). The output object is a list of bytes, positions in it are counted from its start and
  every write is checked (\<open>None\<close> is a write outside the object). A format is the list of its
  characters, its end stands for the 0 behind it.
\<close>

unbundle bit_operations_syntax

section \<open>Writing characters\<close>

record put_state =
  pf_mem :: bytes
  pf_pos :: nat
  pf_count :: int

definition put_char :: "u8 \<Rightarrow> int \<Rightarrow> put_state \<Rightarrow> put_state option" where
  "put_char c ebuf s =
     (if ebuf > int (pf_pos s) then do {
        m \<leftarrow> wr (pf_mem s) (pf_pos s) c;
        Some (s\<lparr>pf_mem := m, pf_pos := pf_pos s + 1, pf_count := pf_count s + 1\<rparr>) }
      else do { m \<leftarrow> wr (pf_mem s) (pf_pos s) 0; Some (s\<lparr>pf_mem := m\<rparr>) })"

fun put_chars :: "bytes \<Rightarrow> int \<Rightarrow> put_state \<Rightarrow> put_state option" where
  "put_chars [] ebuf s = Some s"
| "put_chars (c # cs) ebuf s = do { s \<leftarrow> put_char c ebuf s; put_chars cs ebuf s }"

section \<open>Numbers\<close>

definition FLAG_HALF_WORD :: u32 where "FLAG_HALF_WORD = 0x01"
definition FLAG_LONG_WORD :: u32 where "FLAG_LONG_WORD = 0x04"
definition FLAG_ZERO_PAD :: u32 where "FLAG_ZERO_PAD = 0x20"
definition FLAG_RIGHT_PAD :: u32 where "FLAG_RIGHT_PAD = 0x40"
definition FLAG_WITH_PREC :: u32 where "FLAG_WITH_PREC = 0x80"
definition FLAG_SPACE :: u32 where "FLAG_SPACE = 0x100"
definition FLAG_PLUS :: u32 where "FLAG_PLUS = 0x200"
definition FLAG_SIGNED :: u32 where "FLAG_SIGNED = 0x400"
definition MASK_FLAG_BASE :: u32 where "MASK_FLAG_BASE = 0x1a"

lemmas flag_defs = FLAG_HALF_WORD_def FLAG_LONG_WORD_def FLAG_ZERO_PAD_def FLAG_RIGHT_PAD_def FLAG_WITH_PREC_def
  FLAG_SPACE_def FLAG_PLUS_def FLAG_SIGNED_def MASK_FLAG_BASE_def

definition has_flag :: "u32 \<Rightarrow> u32 \<Rightarrow> bool" where
  "has_flag flags f \<longleftrightarrow> flags AND f \<noteq> 0"

text \<open>The digits, the last one first, in an array of 11.\<close>

definition nl_digit :: "bool \<Rightarrow> nat \<Rightarrow> u8" where
  "nl_digit capcase d = of_nat (if d < 10 then 48 + d else if capcase then 55 + d else 87 + d)"

function printn_digits :: "u32 \<Rightarrow> bool \<Rightarrow> u32 \<Rightarrow> bytes \<Rightarrow> bytes option" where
  "printn_digits radix capcase ul buf =
     (if length buf < 11 then
        let buf = buf @ [nl_digit capcase (unat (ul mod radix))]; ul = ul div radix
        in if ul \<noteq> 0 then printn_digits radix capcase ul buf else Some buf
      else None)"
  by pat_completeness auto
termination by (relation "measure (\<lambda>(_, _, _, buf). 11 - length buf)") auto

declare printn_digits.simps [simp del]

definition sign_of :: "u32 \<Rightarrow> u32 \<Rightarrow> u8 \<times> u32" where
  "sign_of flags ul =
     (if has_flag flags FLAG_SIGNED then
        if has_flag flags FLAG_HALF_WORD \<and> sint (ucast ul :: 16 word) < 0 then (0x2d, of_int (- sint (ucast ul :: 16 word)))
        else if sint ul < 0 then (0x2d, - ul)
        else if has_flag flags FLAG_PLUS then (0x2b, ul)
        else if has_flag flags FLAG_SPACE then (0x20, ul)
        else (0, ul)
      else if has_flag flags FLAG_HALF_WORD then (0, ucast (ucast ul :: u16))
      else (0, ul))"

text \<open>The number of characters that were written, and the object.\<close>

definition printn :: "u32 \<Rightarrow> u32 \<Rightarrow> u32 \<Rightarrow> nat \<Rightarrow> int \<Rightarrow> bool \<Rightarrow> bytes \<Rightarrow> (int \<times> bytes) option" where
  "printn ul width flags tbuf ebuf capcase mem =
     (let radix = flags AND MASK_FLAG_BASE; (sign, ul) = sign_of flags ul
      in do {
        ds \<leftarrow> printn_digits radix capcase ul [];
        let len = (of_nat (length ds) :: u32);
        let pad = width - len;
        let s = \<lparr>pf_mem = mem, pf_pos = tbuf, pf_count = 0\<rparr>;
        s \<leftarrow> (if sign \<noteq> 0 \<and> has_flag flags FLAG_ZERO_PAD then put_char sign ebuf s else Some s);
        let pad = (if sign \<noteq> 0 then pad - 1 else pad);
        s \<leftarrow> (if \<not> has_flag flags FLAG_RIGHT_PAD \<and> width > len
          then put_chars (replicate (unat pad) (if has_flag flags FLAG_ZERO_PAD then 0x30 else 0x20)) ebuf s else Some s);
        s \<leftarrow> (if sign \<noteq> 0 \<and> \<not> has_flag flags FLAG_ZERO_PAD then put_char sign ebuf s else Some s);
        s \<leftarrow> put_chars (rev ds) ebuf s;
        s \<leftarrow> (if has_flag flags FLAG_RIGHT_PAD \<and> width > len
          then put_chars (replicate (unat pad) 0x20) ebuf s else Some s);
        Some (pf_count s, pf_mem s)
      })"

section \<open>Formats\<close>

text \<open>The arguments: words, and strings with \<open>None\<close> for a null pointer.\<close>

datatype va = VWord u32 | VString "bytes option"

fun word_arg :: "va list \<Rightarrow> (u32 \<times> va list) option" where
  "word_arg (VWord w # ap) = Some (w, ap)"
| "word_arg _ = None"

fun string_arg :: "va list \<Rightarrow> (bytes option \<times> va list) option" where
  "string_arg (VString p # ap) = Some (p, ap)"
| "string_arg _ = None"

definition put_number ::
  "u32 \<Rightarrow> u32 \<Rightarrow> u32 \<Rightarrow> int \<Rightarrow> bool \<Rightarrow> put_state \<Rightarrow> put_state option" where
  "put_number ul width flags ebuf capcase s = do {
     (n, m) \<leftarrow> printn ul width flags (pf_pos s) ebuf capcase (pf_mem s);
     Some (s\<lparr>pf_mem := m, pf_pos := nat (int (pf_pos s) + n), pf_count := pf_count s + n\<rparr>) }"

text \<open>The end of the function: the 0 is written and not counted when it was.\<close>

definition put_end :: "int \<Rightarrow> put_state \<Rightarrow> (int \<times> bytes) option" where
  "put_end ebuf s = do { s \<leftarrow> put_char 0 ebuf s; Some (pf_count s - 1, pf_mem s) }"

text \<open>What may stand between the percent sign and the conversion changes the flags, the width or the precision; the
  digit 0 is a flag only as the first character. \<open>None\<close> is any other character.\<close>

definition modifier :: "bool \<Rightarrow> u8 \<Rightarrow> u32 \<times> u32 \<times> u32 \<Rightarrow> (u32 \<times> u32 \<times> u32) option" where
  "modifier fst_char ch = (\<lambda>(flags, width, prec).
     if ch = 0x30 \<and> fst_char then Some (flags OR FLAG_ZERO_PAD, width, prec)
     else if 0x30 \<le> ch \<and> ch \<le> 0x39 then
       (if has_flag flags FLAG_WITH_PREC then Some (flags, width, 10 * prec + (ucast ch - 0x30))
        else Some (flags, 10 * width + (ucast ch - 0x30), prec))
     else if ch = 0x2d then Some (flags OR FLAG_RIGHT_PAD, width, prec)
     else if ch = 0x20 then Some (flags OR FLAG_SPACE, width, prec)
     else if ch = 0x2b then Some (flags OR FLAG_PLUS, width, prec)
     else if ch = 0x2e then Some (flags OR FLAG_WITH_PREC, width, prec)
     else if ch = 0x68 then Some (flags OR FLAG_HALF_WORD, width, prec)
     else if ch = 0x6c then Some (flags OR FLAG_LONG_WORD, width, prec)
     else None)"

definition put_word_arg :: "u32 \<Rightarrow> u32 \<Rightarrow> bool \<Rightarrow> va list \<Rightarrow> int \<Rightarrow> put_state \<Rightarrow> (put_state \<times> va list) option" where
  "put_word_arg flags width capcase ap ebuf s = do {
     (ul, ap) \<leftarrow> word_arg ap;
     s \<leftarrow> put_number ul width flags ebuf capcase s;
     Some (s, ap) }"

text \<open>A percent sign and the flags of a conversion that there is not.\<close>

definition put_unknown :: "u32 \<Rightarrow> int \<Rightarrow> put_state \<Rightarrow> put_state option" where
  "put_unknown flags ebuf s = do {
     s \<leftarrow> put_char 0x25 ebuf s;
     s \<leftarrow> (if has_flag flags FLAG_HALF_WORD then put_char 0x68 ebuf s else Some s);
     (if has_flag flags FLAG_LONG_WORD then put_char 0x6c ebuf s else Some s) }"

definition convert :: "u8 \<Rightarrow> u32 \<times> u32 \<times> u32 \<Rightarrow> va list \<Rightarrow> int \<Rightarrow> put_state \<Rightarrow> (put_state \<times> va list) option" where
  "convert ch = (\<lambda>(flags, width, prec) ap ebuf s.
     if ch = 0x63 then do {
       (c, ap) \<leftarrow> word_arg ap;
       s \<leftarrow> put_char (ucast (c AND 0x7f)) ebuf s;
       Some (s, ap) }
     else if ch = 0x73 then do {
       (p, ap) \<leftarrow> string_arg ap;
       s \<leftarrow> (case p of None \<Rightarrow> Some s
         | Some str \<Rightarrow> put_chars (if has_flag flags FLAG_WITH_PREC \<and> prec \<noteq> 0 then take (unat prec) str else str) ebuf s);
       Some (s, ap) }
     else if ch = 0x69 \<or> ch = 0x64 then put_word_arg (flags OR (10 OR FLAG_SIGNED)) width False ap ebuf s
     else if ch = 0x6f then put_word_arg (flags OR 8) width False ap ebuf s
     else if ch = 0x75 then put_word_arg (flags OR 10) width False ap ebuf s
     else if ch = 0x70 then do {
       s \<leftarrow> put_chars [0x30, 0x78] ebuf s;
       put_word_arg (flags OR 16) width False ap ebuf s }
     else if ch = 0x78 then put_word_arg (flags OR 16) width False ap ebuf s
     else if ch = 0x58 then put_word_arg (flags OR 16) width True ap ebuf s
     else if ch = 0x25 then do { s \<leftarrow> put_char ch ebuf s; Some (s, ap) }
     else do { s \<leftarrow> put_unknown flags ebuf s; s \<leftarrow> put_char ch ebuf s; Some (s, ap) })"

text \<open>\<open>doprnt\<close> is the loop over the text, \<open>directive\<close> the switch behind a percent sign, with the flag that tells whether
  it is at its first character.\<close>

fun doprnt :: "bytes \<Rightarrow> va list \<Rightarrow> int \<Rightarrow> put_state \<Rightarrow> (int \<times> bytes) option"
  and directive :: "bool \<Rightarrow> u32 \<times> u32 \<times> u32 \<Rightarrow> bytes \<Rightarrow> va list \<Rightarrow> int \<Rightarrow> put_state \<Rightarrow> (int \<times> bytes) option" where
  "doprnt [] ap ebuf s = put_end ebuf s"
| "doprnt (ch # fmt) ap ebuf s =
     (if ch \<noteq> 0x25 then do { s \<leftarrow> put_char ch ebuf s; doprnt fmt ap ebuf s } else directive True (0, 0, 0) fmt ap ebuf s)"
| "directive fst_char fl [] ap ebuf s = do { s \<leftarrow> put_unknown (fst fl) ebuf s; put_end ebuf s }"
| "directive fst_char fl (ch # fmt) ap ebuf s =
     (case modifier fst_char ch fl of Some fl' \<Rightarrow> directive False fl' fmt ap ebuf s
      | None \<Rightarrow> do { (s, ap) \<leftarrow> convert ch fl ap ebuf s; doprnt fmt ap ebuf s })"

definition vsnprintf :: "bytes \<Rightarrow> u32 \<Rightarrow> bytes option \<Rightarrow> va list \<Rightarrow> (int \<times> bytes) option" where
  "vsnprintf buf sz fmt ap =
     (case fmt of None \<Rightarrow> Some (0, buf)
      | Some f \<Rightarrow> doprnt f ap (uint sz - 1) \<lparr>pf_mem = buf, pf_pos = 0, pf_count = 0\<rparr>)"

text \<open>Without a size: the bound is the end of the address space behind the address \<open>a\<close> of the object.\<close>

definition vsprintf :: "u32 \<Rightarrow> bytes \<Rightarrow> bytes option \<Rightarrow> va list \<Rightarrow> (int \<times> bytes) option" where
  "vsprintf a buf fmt ap = vsnprintf buf (- a) fmt ap"

definition snprintf :: "bytes \<Rightarrow> u32 \<Rightarrow> bytes option \<Rightarrow> va list \<Rightarrow> (int \<times> bytes) option" where
  "snprintf buf sz fmt args = vsnprintf buf sz fmt args"

definition sprintf :: "u32 \<Rightarrow> bytes \<Rightarrow> bytes option \<Rightarrow> va list \<Rightarrow> (int \<times> bytes) option" where
  "sprintf a buf fmt args = vsnprintf buf (- a) fmt args"

section \<open>The routines of sul_string.c\<close>

definition SUL_StrVPrint :: "u32 \<Rightarrow> bytes \<Rightarrow> bytes option \<Rightarrow> va list \<Rightarrow> (int \<times> bytes) option" where
  "SUL_StrVPrint a str fmt ap = vsprintf a str fmt ap"

definition SUL_StrPrint :: "u32 \<Rightarrow> bytes \<Rightarrow> bytes option \<Rightarrow> va list \<Rightarrow> (int \<times> bytes) option" where
  "SUL_StrPrint a buffer fmt args = SUL_StrVPrint a buffer fmt args"

definition SUL_MemSet8 :: "u32 \<Rightarrow> u32 \<Rightarrow> u16 \<Rightarrow> mem \<Rightarrow> mem" where
  "SUL_MemSet8 pSource c n m = fill_bytes (unat n) pSource (ucast c) m"

definition SUL_MemCopy8 :: "u32 \<Rightarrow> u32 \<Rightarrow> u32 \<Rightarrow> mem \<Rightarrow> mem" where
  "SUL_MemCopy8 dest src n m = BYTE_COPY_FWD (unat n) dest src m"

end
