(* ===== verification/Std_Printf_Text.thy ===== *)
theory Std_Printf_Text
  imports Std_Printf
begin

text \<open>
  What formatted output gives: the digits of a number fit into their array and stand for it, the text of a signed
  number is read back by \<open>atoi\<close>, and the object holds the text of the format as far as there is room.
\<close>

unbundle bit_operations_syntax

section \<open>The text of a format\<close>

text \<open>What a format stands for, without an object: the conversions give a text.\<close>

definition digits_text :: "u32 \<Rightarrow> bool \<Rightarrow> u32 \<Rightarrow> bytes option" where
  "digits_text radix capcase ul = map_option rev (printn_digits radix capcase ul [])"

definition number_text :: "u32 \<Rightarrow> u32 \<Rightarrow> bool \<Rightarrow> u32 \<Rightarrow> bytes option" where
  "number_text flags width capcase ul =
     (let (sign, v) = sign_of flags ul; sg = (if sign = 0 then [] else [sign]) in
      map_option (\<lambda>ds.
        let pad = unat width - length ds - length sg in
        if has_flag flags FLAG_RIGHT_PAD then sg @ ds @ replicate pad 0x20
        else if has_flag flags FLAG_ZERO_PAD then sg @ replicate pad 0x30 @ ds
        else replicate pad 0x20 @ sg @ ds)
      (digits_text (flags AND MASK_FLAG_BASE) capcase v))"

definition word_text :: "u32 \<Rightarrow> u32 \<Rightarrow> bool \<Rightarrow> va list \<Rightarrow> (bytes \<times> va list) option" where
  "word_text flags width capcase ap = do {
     (ul, ap) \<leftarrow> word_arg ap; t \<leftarrow> number_text flags width capcase ul; Some (t, ap) }"

definition unknown_text :: "u32 \<Rightarrow> bytes" where
  "unknown_text flags = [0x25] @ (if has_flag flags FLAG_HALF_WORD then [0x68] else []) @ (if has_flag flags FLAG_LONG_WORD then [0x6c] else [])"

definition conversion_text :: "u8 \<Rightarrow> u32 \<times> u32 \<times> u32 \<Rightarrow> va list \<Rightarrow> (bytes \<times> va list) option" where
  "conversion_text ch = (\<lambda>(flags, width, prec) ap.
     if ch = 0x63 then do { (c, ap) \<leftarrow> word_arg ap; Some ([ucast (c AND 0x7f)], ap) }
     else if ch = 0x73 then do {
       (p, ap) \<leftarrow> string_arg ap;
       Some (case p of None \<Rightarrow> [] | Some str \<Rightarrow> if has_flag flags FLAG_WITH_PREC \<and> prec \<noteq> 0 then take (unat prec) str else str, ap) }
     else if ch = 0x69 \<or> ch = 0x64 then word_text (flags OR (10 OR FLAG_SIGNED)) width False ap
     else if ch = 0x6f then word_text (flags OR 8) width False ap
     else if ch = 0x75 then word_text (flags OR 10) width False ap
     else if ch = 0x70 then do { (t, ap) \<leftarrow> word_text (flags OR 16) width False ap; Some ([0x30, 0x78] @ t, ap) }
     else if ch = 0x78 then word_text (flags OR 16) width False ap
     else if ch = 0x58 then word_text (flags OR 16) width True ap
     else if ch = 0x25 then Some ([0x25], ap)
     else Some (unknown_text flags @ [ch], ap))"

fun format_text :: "bytes \<Rightarrow> va list \<Rightarrow> bytes option"
  and directive_text :: "bool \<Rightarrow> u32 \<times> u32 \<times> u32 \<Rightarrow> bytes \<Rightarrow> va list \<Rightarrow> bytes option" where
  "format_text [] ap = Some []"
| "format_text (ch # fmt) ap =
     (if ch \<noteq> 0x25 then map_option (Cons ch) (format_text fmt ap) else directive_text True (0, 0, 0) fmt ap)"
| "directive_text fst_char fl [] ap = Some (unknown_text (fst fl))"
| "directive_text fst_char fl (ch # fmt) ap =
     (case modifier fst_char ch fl of Some fl' \<Rightarrow> directive_text False fl' fmt ap
      | None \<Rightarrow> do { (t, ap) \<leftarrow> conversion_text ch fl ap; map_option (append t) (format_text fmt ap) })"

section \<open>Writing into the object\<close>

text \<open>The state after the text \<open>w\<close> has been written into an object \<open>m\<close> of at least \<open>n\<close> bytes with the bound \<open>n - 1\<close>: what does
  not fit is dropped, and then there is a 0 at the last place. The count is taken from \<open>d\<close> on.\<close>

definition put_written_from :: "int \<Rightarrow> bytes \<Rightarrow> nat \<Rightarrow> bytes \<Rightarrow> put_state" where
  "put_written_from d m n w =
     (let k = min (length w) (n - 1) in
      \<lparr>pf_mem = take k w @ (if length w < n then drop k m else 0 # drop n m), pf_pos = k, pf_count = int k - d\<rparr>)"

abbreviation put_written :: "bytes \<Rightarrow> nat \<Rightarrow> bytes \<Rightarrow> put_state" where
  "put_written \<equiv> put_written_from 0"

lemma put_char_written:
  assumes "1 \<le> n" "n \<le> length m"
  shows "put_char c (int n - 1) (put_written_from d m n w) = Some (put_written_from d m n (w @ [c]))"
proof -
  consider "length w < n - 1" | "length w = n - 1" | "n \<le> length w"
    by linarith
  then show ?thesis
  proof cases
    case 1
    then have "drop (length w) m = m ! length w # drop (Suc (length w)) m"
      using assms by (simp add: Cons_nth_drop_Suc)
    moreover have "int (length w) < int n - 1" "length w < length m" "Suc (length w) < n" "min (length w) (n - 1) = length w"
      "min (Suc (length w)) (n - 1) = Suc (length w)"
      using 1 assms by linarith+
    ultimately show ?thesis
      by (simp add: put_char_def put_written_from_def wr_def Let_def list_update_append)
  next
    case 2
    then have "drop (length w) m = m ! length w # drop n m"
      using assms Cons_nth_drop_Suc [of "length w" m] by simp
    then show ?thesis
      using 2 assms by (simp add: put_char_def put_written_from_def wr_def Let_def list_update_append)
  next
    case 3
    then show ?thesis
      using assms by (auto simp: put_char_def put_written_from_def wr_def Let_def min_def list_update_append nth_append)
  qed
qed

lemma put_chars_written:
  assumes "1 \<le> n" "n \<le> length m"
  shows "put_chars cs (int n - 1) (put_written_from d m n w) = Some (put_written_from d m n (w @ cs))"
  by (induction cs arbitrary: w) (simp_all add: put_char_written [OF assms])

lemma length_digit_loop: "printn_digits radix capcase ul buf = Some ds \<Longrightarrow> length ds \<le> 11"
proof (induction radix capcase ul buf rule: printn_digits.induct)
  case (1 radix capcase ul buf)
  then show ?case
    by (subst (asm) (2) printn_digits.simps) (auto simp: Let_def split: if_splits)
qed

lemma written_sel:
  "pf_pos (put_written_from d m n w) = min (length w) (n - 1)" "pf_count (put_written_from d m n w) = int (min (length w) (n - 1)) - d"
  "pf_mem (put_written_from d m n w) = pf_mem (put_written m n w)"
  by (simp_all add: put_written_from_def Let_def)

lemma printn_written:
  assumes "1 \<le> n" "n \<le> length m"
  shows "printn ul width flags (pf_pos (put_written m n w)) (int n - 1) capcase (pf_mem (put_written m n w)) =
    map_option (\<lambda>t. (pf_count (put_written m n (w @ t)) - pf_count (put_written m n w), pf_mem (put_written m n (w @ t)))) (number_text flags width capcase ul)"
proof -
  define d where "d = pf_count (put_written m n w)"
  have start: "\<lparr>pf_mem = pf_mem (put_written m n w), pf_pos = pf_pos (put_written m n w), pf_count = 0\<rparr> = put_written_from d m n w"
    by (simp add: d_def put_written_from_def Let_def)
  obtain sign v where sg: "sign_of flags ul = (sign, v)"
    by (cases "sign_of flags ul")
  show ?thesis
  proof (cases "printn_digits (flags AND MASK_FLAG_BASE) capcase v []")
    case None
    then show ?thesis
      by (simp add: printn_def number_text_def digits_text_def sg)
  next
    case (Some ds)
    have l: "unat (of_nat (length ds) :: u32) = length ds"
      using length_digit_loop [OF Some] by (simp add: unat_of_nat take_bit_eq_mod)
    have w: "of_nat (length ds) < width \<longleftrightarrow> length ds < unat width"
      by (simp add: word_less_nat_alt l)
    have p: "unat (width - of_nat (length ds)) = unat width - length ds" "unat (width - of_nat (length ds) - 1) = unat width - length ds - 1"
      if "length ds < unat width"
    proof -
      show 1: "unat (width - of_nat (length ds)) = unat width - length ds"
        using that unat_minus_of_nat [of "length ds" width] by simp
      show "unat (width - of_nat (length ds) - 1) = unat width - length ds - 1"
        using that unat_minus_of_nat [of 1 "width - of_nat (length ds)"] 1 by simp
    qed
    show ?thesis
      unfolding d_def [symmetric] using p by (auto simp: printn_def number_text_def digits_text_def sg Some start put_char_written [OF assms]
        put_chars_written [OF assms] w Let_def written_sel(2) written_sel(3) [of d])
  qed
qed

lemma put_number_written:
  assumes "1 \<le> n" "n \<le> length m"
  shows "put_number ul width flags (int n - 1) capcase (put_written m n w) =
    map_option (\<lambda>t. put_written m n (w @ t)) (number_text flags width capcase ul)"
proof (cases "number_text flags width capcase ul")
  case (Some t)
  have "nat (int (pf_pos (put_written m n w)) + (pf_count (put_written m n (w @ t)) - pf_count (put_written m n w))) = pf_pos (put_written m n (w @ t))"
    by (simp add: written_sel(1,2))
  then show ?thesis
    using Some printn_written [OF assms, of ul width flags w capcase] by (simp add: put_number_def)
qed (simp add: put_number_def printn_written [OF assms])

lemma put_word_arg_written:
  assumes "1 \<le> n" "n \<le> length m"
  shows "put_word_arg flags width capcase ap (int n - 1) (put_written m n w) =
    map_option (\<lambda>(t, ap). (put_written m n (w @ t), ap)) (word_text flags width capcase ap)"
  by (cases "word_arg ap")
    (auto simp: put_word_arg_def word_text_def put_number_written [OF assms] split: bind_splits option.splits)

lemma put_unknown_written:
  assumes "1 \<le> n" "n \<le> length m"
  shows "put_unknown flags (int n - 1) (put_written m n w) = Some (put_written m n (w @ unknown_text flags))"
  by (simp add: put_unknown_def unknown_text_def put_char_written [OF assms])

lemma convert_written:
  assumes "1 \<le> n" "n \<le> length m"
  shows "convert ch fl ap (int n - 1) (put_written m n w) =
    map_option (\<lambda>(t, ap). (put_written m n (w @ t), ap)) (conversion_text ch fl ap)"
proof -
  note ops = put_char_written [OF assms] put_chars_written [OF assms] put_word_arg_written [OF assms] put_unknown_written [OF assms]
  obtain flags width prec where fl: "fl = (flags, width, prec)"
    by (cases fl)
  have s: "convert 0x73 fl ap (int n - 1) (put_written m n w) = map_option (\<lambda>(t, ap). (put_written m n (w @ t), ap)) (conversion_text 0x73 fl ap)"
    by (cases "string_arg ap") (auto simp: convert_def conversion_text_def fl ops split: option.splits)
  have c: "convert 0x63 fl ap (int n - 1) (put_written m n w) = map_option (\<lambda>(t, ap). (put_written m n (w @ t), ap)) (conversion_text 0x63 fl ap)"
    by (cases "word_arg ap") (auto simp: convert_def conversion_text_def fl ops)
  have p: "convert 0x70 fl ap (int n - 1) (put_written m n w) = map_option (\<lambda>(t, ap). (put_written m n (w @ t), ap)) (conversion_text 0x70 fl ap)"
    by (cases "word_text (flags OR 16) width False ap") (auto simp: convert_def conversion_text_def fl ops)
  consider "ch = 0x63" | "ch = 0x73" | "ch = 0x70" | "ch \<noteq> 0x63" "ch \<noteq> 0x73" "ch \<noteq> 0x70"
    by blast
  then show ?thesis
  proof cases
    case 4
    then show ?thesis
      by (simp add: convert_def conversion_text_def fl ops)
  qed (use s c p in simp_all)
qed

lemma put_end_written:
  assumes "1 \<le> n" "n \<le> length m"
  shows "put_end (int n - 1) (put_written m n w) =
    Some (int (min (length w + 1) (n - 1)) - 1, take (n - 1) w @ 0 # drop (Suc (min (length w) (n - 1))) m)"
proof -
  have "pf_mem (put_written m n (w @ [0])) = take (n - 1) w @ 0 # drop (Suc (min (length w) (n - 1))) m"
  proof (cases "length w + 1 = n")
    case True
    then show ?thesis
      by (auto simp: put_written_from_def Let_def min_def)
  next
    case False
    then show ?thesis
      using assms by (cases "length w + 1 < n") (auto simp: put_written_from_def Let_def min_def)
  qed
  then show ?thesis
    by (simp add: put_end_def put_char_written [OF assms] written_sel(2))
qed

lemma doprnt_written:
  assumes "1 \<le> n" "n \<le> length m"
  shows "doprnt fmt ap (int n - 1) (put_written m n w) = Option.bind (format_text fmt ap) (\<lambda>t. put_end (int n - 1) (put_written m n (w @ t)))"
    "directive fst_char fl fmt ap (int n - 1) (put_written m n w) =
      Option.bind (directive_text fst_char fl fmt ap) (\<lambda>t. put_end (int n - 1) (put_written m n (w @ t)))"
proof (induction fmt ap and fst_char fl fmt ap arbitrary: w and w rule: format_text_directive_text.induct)
  case (2 ch fmt ap)
  then show ?case
    by (cases "ch = 0x25") (simp_all add: put_char_written [OF assms] bind_map_option o_def)
next
  case (3 fst_char fl ap)
  then show ?case
    by (simp add: put_unknown_written [OF assms])
next
  case (4 fst_char fl ch fmt ap)
  show ?case
  proof (cases "modifier fst_char ch fl")
    case None
    show ?thesis
    proof (cases "conversion_text ch fl ap")
      case (Some r)
      then show ?thesis
        using None 4(1) [OF None] by (cases r) (simp add: convert_written [OF assms] bind_map_option o_def)
    qed (simp add: None convert_written [OF assms])
  qed (use 4(2) in simp)
qed simp

section \<open>Digits\<close>

text \<open>The digits of a number, the first one first.\<close>

fun digits_in :: "nat \<Rightarrow> nat \<Rightarrow> nat list" where
  "digits_in b n = (if n < b \<or> b < 2 then [n] else digits_in b (n div b) @ [n mod b])"

declare digits_in.simps [simp del]

lemma digits_in_value: "foldl (\<lambda>v d. b * v + d) 0 (digits_in b n) = n"
proof (induction b n rule: digits_in.induct)
  case (1 b n)
  then show ?case
    by (subst digits_in.simps) simp
qed

lemma digit_loop_result:
  assumes "8 \<le> unat radix"
  shows "unat ul < 8 ^ k \<Longrightarrow> 0 < k \<Longrightarrow> length buf + k \<le> 11 \<Longrightarrow>
    printn_digits radix capcase ul buf = Some (buf @ map (nl_digit capcase) (rev (digits_in (unat radix) (unat ul))))"
proof (induction k arbitrary: ul buf)
  case (Suc k)
  have q: "ul div radix \<noteq> 0 \<longleftrightarrow> unat radix \<le> unat ul"
    using assms by (simp add: div_eq_0_iff unat_div flip: unat_eq_zero) (simp add: not_less)
  have nz: "\<not> unat radix < 2"
    using assms by simp
  show ?case
  proof (cases "unat radix \<le> unat ul")
    case True
    have "unat (ul div radix) < 8 ^ k"
    proof -
      have "unat ul div unat radix \<le> unat ul div 8"
        using assms by (intro div_le_mono2) simp_all
      moreover have "unat ul div 8 < 8 ^ k"
        using Suc.prems(1) by (simp add: div_less_iff_less_mult)
      ultimately show ?thesis
        by (simp add: unat_div)
    qed
    moreover have "0 < k"
      using calculation True q by (cases k) (auto simp flip: unat_eq_zero)
    ultimately have "printn_digits radix capcase (ul div radix) (buf @ [nl_digit capcase (unat (ul mod radix))]) =
        Some ((buf @ [nl_digit capcase (unat (ul mod radix))]) @ map (nl_digit capcase) (rev (digits_in (unat radix) (unat (ul div radix)))))"
      using Suc.prems(3) by (intro Suc.IH) simp_all
    then show ?thesis
      using True q nz Suc.prems(3)
      by (subst printn_digits.simps, subst digits_in.simps) (simp add: unat_div unat_mod not_less)
  next
    case False
    then show ?thesis
      using q nz Suc.prems(3) by (subst printn_digits.simps, subst digits_in.simps) (simp add: unat_mod not_le)
  qed
qed simp

lemma digits_text_result:
  assumes "8 \<le> unat radix"
  shows "digits_text radix capcase ul = Some (map (nl_digit capcase) (digits_in (unat radix) (unat ul)))"
  using digit_loop_result [OF assms, of ul 11 "[]" capcase] unat_u32_less [of ul] by (simp add: digits_text_def rev_map)

lemma digits_in_decimal: "map (nl_digit capcase) (digits_in 10 n) = decimal n"
proof (induction n rule: decimal.induct)
  case (1 n)
  then show ?case
    by (subst decimal.simps, subst digits_in.simps) (simp add: nl_digit_def [of _ "n"] nl_digit_def [of _ "n mod 10"])
qed

section \<open>Reading back\<close>

lemma atoi_parts:
  assumes "list_all is_space sp" "sg \<in> {[], [0x2d], [0x2b]}" "list_all is_digit ds" "ds \<noteq> []" "r = [] \<or> \<not> is_digit (hd r)"
    and "v = (if sg = [0x2d] then - int (digits_val ds) else int (digits_val ds))" "- (2 ^ 31) \<le> v" "v < 2 ^ 31"
  shows "atoi (sp @ sg @ ds @ r) = Some v"
proof -
  obtain c cs where ds: "ds = c # cs" "is_digit c"
    using assms(3,4) by (cases ds) auto
  have c: "\<not> is_space c" "c \<noteq> 0x2d" "c \<noteq> 0x2b"
    using ds(2) by (auto simp: is_digit_def is_space_def word_le_nat_alt)
  have r: "takeWhile is_digit (ds @ r) = ds"
    using assms(3,5) by (cases r) (auto simp: takeWhile_append list_all_iff)
  have sp: "dropWhile is_space (sp @ t) = dropWhile is_space t" for t
    using assms(1) by (simp add: list_all_iff)
  have "skip_sign (dropWhile is_space (sp @ sg @ ds @ r)) = (sg = [0x2d], ds @ r)"
    using assms(2) c ds(1) by (auto simp: sp skip_sign_def is_space_def)
  then show ?thesis
    using assms(6-8) by (auto simp: atoi_def r Let_def split: if_splits)
qed

lemma signed_flags:
  assumes "flags AND MASK_FLAG_BASE = 0"
  defines "fl \<equiv> flags OR (10 OR FLAG_SIGNED)"
  shows "fl AND MASK_FLAG_BASE = 10" "has_flag fl FLAG_SIGNED" "has_flag fl FLAG_HALF_WORD = has_flag flags FLAG_HALF_WORD"
    "has_flag fl FLAG_ZERO_PAD = has_flag flags FLAG_ZERO_PAD" "has_flag fl FLAG_RIGHT_PAD = has_flag flags FLAG_RIGHT_PAD"
    "has_flag fl FLAG_PLUS = has_flag flags FLAG_PLUS" "has_flag fl FLAG_SPACE = has_flag flags FLAG_SPACE"
  using assms(1) by (simp_all add: fl_def has_flag_def flag_defs bit.conj_disj_distrib2 or_eq_0_iff)

lemma sint_unat:
  fixes x :: u32
  shows "sint x < 0 \<Longrightarrow> unat (- x) = nat (- sint x)" "\<not> sint x < 0 \<Longrightarrow> unat x = nat (sint x)" "- (2 ^ 31) \<le> sint x" "sint x < 2 ^ 31"
proof -
  have u: "0 \<le> uint x" "uint x < 4294967296"
    using unsigned_less [of x, where 'a = int] by simp_all
  have "sint x = uint x - 4294967296 * of_bool (bit (uint x) 31)"
    using u by (subst sint_uint) (simp add: signed_take_bit_eq_take_bit_minus take_bit_int_eq_self)
  then have s: "sint x = uint x \<or> sint x = uint x - 4294967296"
    by auto
  show "unat (- x) = nat (- sint x)" if "sint x < 0"
  proof -
    have "sint x = uint x - 4294967296" "0 < unat x"
      using s u that by (auto simp: unat_gt_0)
    then show ?thesis
      using unat_minus_wrap [of 0 x] by (simp add: nat_diff_distrib' flip: nat_uint_eq)
  qed
  show "unat x = nat (sint x)" if "\<not> sint x < 0"
    using s u that by auto
  show "- (2 ^ 31) \<le> sint x" "sint x < 2 ^ 31"
    using sint_greater_eq [of x] sint_less [of x] by simp_all
qed


text \<open>What stands before the digits of a number with a sign.\<close>

definition sign_text :: "u32 \<Rightarrow> u32 \<Rightarrow> bytes" where
  "sign_text flags v =
     (if sint v < 0 then [0x2d] else if has_flag flags FLAG_PLUS then [0x2b] else if has_flag flags FLAG_SPACE then [0x20] else [])"

lemma signed_number_text:
  assumes "flags AND MASK_FLAG_BASE = 0" "\<not> has_flag flags FLAG_HALF_WORD"
  shows "number_text (flags OR (10 OR FLAG_SIGNED)) width capcase v = Some
    (let sg = sign_text flags v; ds = decimal (nat \<bar>sint v\<bar>); pad = unat width - length ds - length sg in
     if has_flag flags FLAG_RIGHT_PAD then sg @ ds @ replicate pad 0x20
     else if has_flag flags FLAG_ZERO_PAD then sg @ replicate pad 0x30 @ ds
     else replicate pad 0x20 @ sg @ ds)"
proof -
  have "sign_of (flags OR (10 OR FLAG_SIGNED)) v =
      (if sint v < 0 then (0x2d, - v) else (if has_flag flags FLAG_PLUS then 0x2b else if has_flag flags FLAG_SPACE then 0x20 else 0, v))"
    using assms by (simp add: sign_of_def signed_flags [OF assms(1)])
  moreover have "digits_text 10 capcase w = Some (decimal (unat w))" for w
    using digits_text_result [of 10 capcase w] by (simp add: digits_in_decimal)
  ultimately show ?thesis
    using sint_unat(1,2) [of v]
    by (auto simp: number_text_def signed_flags [OF assms(1)] sign_text_def Let_def)
qed

lemma number_text_read:
  assumes "flags AND MASK_FLAG_BASE = 0" "\<not> has_flag flags FLAG_HALF_WORD"
  shows "\<exists>t. number_text (flags OR (10 OR FLAG_SIGNED)) width capcase v = Some t \<and> atoi t = Some (sint v) \<and>
    length t = max (unat width) (length (sign_text flags v) + length (decimal (nat \<bar>sint v\<bar>)))"
proof -
  define ds where "ds = decimal (nat \<bar>sint v\<bar>)"
  define sg where "sg = sign_text flags v"
  define pad where "pad = unat width - length ds - length sg"
  define sp where "sp = (if sg = [0x20] then [0x20] else [] :: bytes)"
  define sg' where "sg' = (if sg = [0x20] then [] else sg)"
  have ds: "list_all is_digit ds" "ds \<noteq> []" "digits_val ds = nat \<bar>sint v\<bar>"
    using decimal_digits by (simp_all add: ds_def)
  have sg: "sg = sp @ sg'" "sg' \<in> {[], [0x2d], [0x2b]}" "sg' = [0x2d] \<longleftrightarrow> sint v < 0" "list_all is_space sp"
    by (auto simp: sg_def sp_def sg'_def sign_text_def is_space_def)
  have v: "sint v = (if sg' = [0x2d] then - int (nat \<bar>sint v\<bar>) else int (nat \<bar>sint v\<bar>))"
    using sg(3) by auto
  have z: "digits_val (replicate n 0x30 @ ds) = digits_val ds" for n
    by (induction n) (simp_all add: digits_val_Cons)
  have right: "atoi (sg @ ds @ replicate pad 0x20) = Some (sint v)"
    unfolding sg(1) append_assoc
    by (rule atoi_parts [OF sg(4,2) ds(1,2)]) (use v ds(3) sint_unat(3,4) [of v] in \<open>auto simp: is_digit_def\<close>)
  have "atoi (sp @ sg' @ (replicate pad 0x30 @ ds) @ []) = Some (sint v)"
    by (rule atoi_parts [OF sg(4,2)]) (use v ds z sint_unat(3,4) [of v] in \<open>auto simp: list_all_iff is_digit_def\<close>)
  then have zero: "atoi (sg @ replicate pad 0x30 @ ds) = Some (sint v)"
    by (simp add: sg(1))
  have "atoi ((replicate pad 0x20 @ sp) @ sg' @ ds @ []) = Some (sint v)"
    by (rule atoi_parts [OF _ sg(2) ds(1,2)]) (use v ds(3) sg(4) sint_unat(3,4) [of v] in \<open>auto simp: list_all_iff is_space_def\<close>)
  then have left: "atoi (replicate pad 0x20 @ sg @ ds) = Some (sint v)"
    by (simp add: sg(1))
  have "length sg + length ds + pad = max (unat width) (length sg + length ds)"
    by (simp add: pad_def)
  then show ?thesis
    using right zero left unfolding signed_number_text [OF assms] Let_def ds_def [symmetric] sg_def [symmetric] pad_def [symmetric]
    by auto
qed

lemma printn_text:
  assumes "number_text flags width capcase v = Some t" "tbuf + length t \<le> ebuf" "ebuf < length mem"
  shows "printn v width flags tbuf (int ebuf) capcase mem =
    Some (int (length t), take tbuf mem @ t @ drop (tbuf + length t) mem)"
proof -
  have n: "1 \<le> Suc ebuf" "Suc ebuf \<le> length mem" "tbuf < length mem" using assms(2,3) by simp_all
  have "pf_pos (put_written mem (Suc ebuf) (take tbuf mem)) = tbuf" "pf_mem (put_written mem (Suc ebuf) (take tbuf mem)) = mem"
    "pf_count (put_written mem (Suc ebuf) (take tbuf mem)) = int tbuf"
    "pf_count (put_written mem (Suc ebuf) (take tbuf mem @ t)) = int tbuf + int (length t)"
    "pf_mem (put_written mem (Suc ebuf) (take tbuf mem @ t)) = take tbuf mem @ t @ drop (tbuf + length t) mem"
    using assms(2) n(3) by (simp_all add: put_written_from_def Let_def min_def)
  then show ?thesis
    using printn_written [OF n(1,2), of v width flags "take tbuf mem" capcase] assms(1) by simp
qed

text \<open>C24: a number printed with its sign at a place that has room for it is read back by \<open>atoi\<close> from what was written
  there, for every width and all flags but the one for half words; the number of characters is the width, or
  what the sign and the digits need when that is more, and the object is unchanged before and behind them.\<close>

theorem number_reads_back:
  assumes "flags AND MASK_FLAG_BASE = 0" "\<not> has_flag flags FLAG_HALF_WORD"
    "l = max (unat width) (length (sign_text flags v) + length (decimal (nat \<bar>sint v\<bar>)))"
    "tbuf + l \<le> ebuf" "ebuf < length mem"
  shows "\<exists>m. printn v width (flags OR (10 OR FLAG_SIGNED)) tbuf (int ebuf) capcase mem = Some (int l, m) \<and>
    atoi (take l (drop tbuf m)) = Some (sint v) \<and>
    length m = length mem \<and> take tbuf m = take tbuf mem \<and> drop (tbuf + l) m = drop (tbuf + l) mem"
proof -
  obtain t where t: "number_text (flags OR (10 OR FLAG_SIGNED)) width capcase v = Some t" "atoi t = Some (sint v)" "length t = l"
    using number_text_read [OF assms(1,2), of width capcase v] assms(3) by auto
  have "tbuf < length mem" "tbuf + l \<le> length mem" using assms(4,5) by simp_all
  then show ?thesis
    using printn_text [OF t(1), of tbuf ebuf mem] t(2,3) assms(4,5) by (simp add: min_def)
qed

theorem number_reads_back_witness:
  "\<exists>m. printn (- 42) 7 (FLAG_ZERO_PAD OR (10 OR FLAG_SIGNED)) 1 9 False (replicate 10 0) = Some (7, m) \<and>
    atoi (take 7 (drop 1 m)) = Some (- 42)"
proof -
  have "sint (- 42 :: u32) = - 42"
    by simp
  then show ?thesis
    using number_reads_back [of FLAG_ZERO_PAD 7 7 "- 42" 1 9 "replicate 10 0" False]
    by (auto simp: flag_defs has_flag_def sign_text_def decimal.simps)
qed

section \<open>The object\<close>

text \<open>C23: with a bound of at least one byte that the object has, formatted output never writes outside the object; the
  object then holds the text of the format, cut to one character less than the bound, with a 0 behind
  it, and is unchanged beyond. The result is the length of the text when that is smaller than the
  bound by two or more, and else the bound less two, also for a text that just fits.\<close>

theorem snprintf_text:
  assumes "1 \<le> unat sz" "unat sz \<le> length buf"
  shows "snprintf buf sz (Some fmt) ap =
    map_option (\<lambda>t. (if length t + 2 \<le> unat sz then int (length t) else int (unat sz) - 2,
        take (unat sz - 1) t @ 0 # drop (Suc (min (length t) (unat sz - 1))) buf)) (format_text fmt ap)"
proof -
  define n where "n = unat sz"
  have n: "1 \<le> n" "n \<le> length buf" "uint sz - 1 = int n - 1"
    using assms by (simp_all add: n_def)
  have start: "\<lparr>pf_mem = buf, pf_pos = 0, pf_count = 0\<rparr> = put_written buf n []"
    using n by (simp add: put_written_from_def)
  have "snprintf buf sz (Some fmt) ap = Option.bind (format_text fmt ap) (\<lambda>t.
      Some (int (min (length t + 1) (n - 1)) - 1, take (n - 1) t @ 0 # drop (Suc (min (length t) (n - 1))) buf))"
    unfolding snprintf_def vsnprintf_def option.case n(3) start doprnt_written(1) [OF n(1,2)]
    by (simp add: put_end_written [OF n(1,2)])
  then show ?thesis
    unfolding n_def [symmetric] using n(1,2) by (cases "format_text fmt ap") (auto simp: min_def)
qed

theorem snprintf_text_witness:
  "snprintf (replicate 9 0xff) 6 (Some [0x25, 0x64]) [VWord 12345] = Some (4, [0x31, 0x32, 0x33, 0x34, 0x35, 0] @ replicate 3 0xff)"
proof -
  have "format_text [0x25, 0x64] [VWord 12345] = Some [0x31, 0x32, 0x33, 0x34, 0x35]"
    by code_simp
  then show ?thesis
    using snprintf_text [of 6 "replicate 9 0xff" "[0x25, 0x64]" "[VWord 12345]"] by (simp del: format_text.simps)
qed

text \<open>The bound 0 does not keep the routine from writing: the byte at the start of the object is set to 0 even
  when there is none. A number whose lower half has no sign is printed with its upper half although only the
  lower one was asked for, a precision of 0 prints the whole string, a 0 that is not the first
  character behind the percent sign does not fill up with zeros, and for a text that just fits one less than its length is
  returned.\<close>

theorem printf_deviations:
  "snprintf [] 0 (Some []) [] = None \<and>
   snprintf (replicate 4 0xff) 0 (Some []) [] = Some (- 1, [0, 0xff, 0xff, 0xff]) \<and>
   format_text [0x25, 0x68, 0x64] [VWord 0x10001] = Some [0x36, 0x35, 0x35, 0x33, 0x37] \<and>
   format_text [0x25, 0x2e, 0x30, 0x73] [VString (Some [0x61, 0x62])] = Some [0x61, 0x62] \<and>
   format_text [0x25, 0x2b, 0x30, 0x33, 0x64] [VWord 7] = Some [0x20, 0x2b, 0x37] \<and>
   snprintf (replicate 3 0xff) 3 (Some [0x61, 0x62]) [] = Some (1, [0x61, 0x62, 0])"
  by (intro conjI; code_simp)

end
