(* ===== verification/Spec2Isabelle.thy ===== *)
theory Spec2Isabelle
  imports Prelude Decimal Str_Trim Str_Num Str_Para Str_Code Str_Tokens At_Result Link_List Link_List_Rep Link_List_Ops Timers Rs485 At_Ids At_Events At_Bytes Checksum Ring_Buffer Stream Cmux Cmux_Output Cmux_Safety Cmux_Link Cmd_Engine Cmd_Engine_Line Data_Engine Dispatch Dispatch_Order Dispatch_Escape Cmd_Table Cmd_Table_Lookup Cmd_Parse Cmd_Param Cmd_Parse_Line At_Errors At_Module At_Module_Line At_Serve At_Module_Steps At_Line_Served Lp_Ctrl At_Cfg Str_Quoted At_Handler At_Clock At_Cmd_Gc At_Cmd_Id At_Hex At_Handlers_Serve At_Handlers_Work At_Device Engine_Write A_Law Std_Mem Std_Mem_Copy Std_Str Std_Printf Std_Printf_Text
begin
text \<open>
  The modem firmware of the intercom "Salve" (a UIS8910 / UIS8811 module, C): the AT command
  subsystem under \<open>src/4G/Source/ate\<close>, the ring buffer of \<open>ModemApp\<close> and the RS-485 task of the
  intercom application in \<open>App\<close>. Vendored libraries (mbed TLS, tinydtls, Paho MQTT, Wakaama, Erbium,
  the boot loader of the chip) are no part of this development.

  \<^bold>\<open>The program.\<close> Bytes from a serial device or a multiplexer channel reach the dispatch layer
  (\<open>at_dispatch.c\<close>), which buffers them, looks for the escape sequence +++ and offers them to the engine
  of the current mode: the command engine (\<open>at_cmd_engine.c\<close>), which assembles lines and hands them to
  the AT module; the data engine (\<open>at_data_engine.c\<close>), which cuts PPP frames; or the multiplexer
  (\<open>at_cmux_engine.c\<close>), whose virtual channels are dispatch channels of their own. A line goes through
  the generated parser, whose actions (\<open>at_parse.c\<close>) build a list of commands with the entries of the
  command table (\<open>at_command_table.c\<close>, found by \<open>crc32.c\<close>) and whose parameters the handlers read back
  with the at_Param routines. Timers and tables of ids (\<open>at_utils.c\<close>, \<open>at_common.c\<close>) rest on a linked
  list (\<open>at_list.c\<close>) and on arrays.

  \<^bold>\<open>Theories.\<close>
  \<^item> Prelude: C integers as words, memory regions as byte lists with checked reads and writes
    (\<open>None\<close> is an access outside the object), NUL-terminated strings, shared lemmas.
  \<^item> Checksum: \<open>crc32.c\<close> and the FCS of \<open>at_utils.c\<close>. The table-driven routines are the bitwise ones
    (locale \<open>reflected_crc\<close>, interpreted for the CRC-8 and the CRC-32), in one piece or in several.
  \<^item> Ring_Buffer: \<open>ModemApp/src/at_ringbuf.c\<close> as a bounded byte queue (a locale and its interpretation),
    and a writer and a reader interleaved byte by byte.
  \<^item> Link_List, Link_List_Rep, Link_List_Ops: \<open>at_list.c\<close> on an explicit store with \<open>malloc\<close> as an
    argument; a representation predicate, every operation as an operation on a HOL list, and the
    interface \<open>pointer_list\<close> that Timers uses.
  \<^item> Timers: the callback timers of \<open>at_utils.c\<close>.
  \<^item> At_Ids, At_Events, At_Bytes: \<open>at_common.c\<close>: transaction ids (a queue in an array linked by
    indices), waiting events (a table as a multiset), bytes as hexadecimal text.
  \<^item> Decimal: \<open>strtoul\<close> and \<open>atoi\<close> of the C library in base 10, digits and their values.
  \<^item> Str_Trim, Str_Num, Str_Para, Str_Code, Str_Tokens: \<open>at_utility.c\<close>: trimming in place, the check of
    numbers against the text of the greatest one, lists of parameters, conversions (BCD, octets,
    bits), tokens and binary search.
  \<^item> At_Result: the result of a command (\<open>AT_CreateRC\<close> of \<open>at_common.c\<close>) and the routine that is to
    remove its line end.
  \<^item> At_Errors: \<open>at_errinfo.c\<close>: the texts of result codes.
  \<^item> At_Module, At_Module_Line, At_Serve, At_Module_Steps, At_Line_Served: \<open>at_module.c\<close>: the list of
    commands, running and answering; the text of parameters; serving a line; what holds over any
    sequence of events (locales \<open>mod_property\<close> and \<open>mod_property_all\<close>: a property that every operation
    keeps, with three instances and one for the parser); parser and module together.
  \<^item> Stream: the interface of an engine that is offered bytes and consumes some of them (locale
    \<open>frame_codec\<close>); a stream of frames is delivered in order. Its instances are the two framings of
    the multiplexer and the PPP frames of the data engine.
  \<^item> Cmux, Cmux_Output, Cmux_Safety, Cmux_Link: \<open>at_cmux_engine.c\<close>: the model; what is written to the
    line; the invariant, kept by every frame but those the theorem lists; two engines on a line.
  \<^item> Cmd_Engine, Cmd_Engine_Line: \<open>at_cmd_engine.c\<close>, its invariant and its lines.
  \<^item> Data_Engine: \<open>at_data_engine.c\<close>.
  \<^item> Dispatch, Dispatch_Order: \<open>at_dispatch.c\<close>; the locale \<open>engine\<close> is what the layer relies on, both
    engines are its instances. Order of the bytes, termination of reading, the escape sequence, the
    list of channels.
  \<^item> Cmd_Table, Cmd_Table_Lookup: the command table and its lookup.
  \<^item> Cmd_Parse, Cmd_Param, Cmd_Parse_Line: \<open>at_parse.c\<close>: the actions of the parser, the readers of
    parameters, whole lines.
  \<^item> Rs485: the receive queue of \<open>App/uart.c\<close> and the loop of \<open>App/app.c\<close> that serves it.

  \<^bold>\<open>How the code is represented.\<close> A C struct is a record, an enum a datatype, an integer a word of its
  width or, where the code cannot wrap, a number with the bound proved. A buffer is a region: reading
  or writing outside of it, and a NULL that is followed, makes an operation \<open>None\<close>, so a theorem that
  gives \<open>Some\<close> states memory safety too. Calls that leave the part modelled (device, timers, task
  queue, platform) are recorded in the state in their order; what they return is an argument. Calls
  between components that would form a cycle (an engine that switches the mode of its own dispatch
  channel) are recorded by the caller and their effect is an operation of the component that owns the
  state. \<open>malloc\<close> is a list of booleans or a function from the store to an address.

  \<^bold>\<open>Loops.\<close> Loops over the bytes given are recursions on them. The loops of the dispatch layer that go
  on while the engine takes bytes carry fuel; the theorems give an amount (two passes for every byte
  that is pending or still in the device and two more) with which they end. The search for a timer by
  handle runs an 8-bit counter against a larger count and can run for ever: it is a partial function
  whose value \<open>None\<close> is that, and a theorem says when.

  \<^bold>\<open>Findings.\<close> Several theorems state behaviour that cannot be meant; their texts say what goes wrong
  and they are the findings of the manifest. The positive theorems carry the exact hypotheses that
  exclude it.

  \<^bold>\<open>Not modelled.\<close> The AT command handlers (calls to the sockets, the modem and the drivers of the
  platform, which are not in the repository; the module records that it calls them); the generated scanner and
  parser, an argument here; the USB and UART devices, recorded calls; start-up; the boot code; the
  demonstration applications; the vendored libraries.
\<close>
end
